(* ===== verification/Prelude.thy ===== *)
theory Prelude
  imports Main "HOL-Library.Word"
begin

text \<open>
  Shared vocabulary of the development: the machine types of the Rust sources
  (\<open>u8\<close>, \<open>u64\<close>, byte strings), the error type of the codec (\<open>ParseError\<close>), fallible
  results, the reader type that models \<open>&mut Bytes\<close>, the checked and saturating
  integer operations of the standard library, and the interface every wire codec of
  the library is an instance of (the locale \<open>codec\<close>).

  A \<open>Bytes\<close> buffer that a decoder consumes is modelled by state passing: a reader
  takes the unread bytes and returns its result together with the bytes that are
  left, on success and on failure alike, because the Rust functions advance the
  buffer before they know whether the read succeeds. The targets of the program are
  64-bit, so \<open>usize\<close> is modelled as \<open>nat\<close> and a conversion from \<open>u64\<close> to \<open>usize\<close> keeps
  its failure branch, which is taken above \<open>2^64 - 1\<close> only.

  Human-readable \<open>details\<close> strings of errors are not modelled; the constructor, the
  \<open>context\<close> tag and the byte counts are.
\<close>

unbundle bit_operations_syntax

named_theorems codec_simps \<open>unfolding and evaluation of the codec's building blocks\<close>
named_theorems wrap_simps \<open>unat-level readings of the checked integer operations\<close>

subsection \<open>Machine types\<close>

type_synonym u8 = "8 word"
type_synonym u16 = "16 word"
type_synonym u64 = "64 word"
type_synonym bytes = "8 word list"

abbreviation u64_MAX :: u64 where
  "u64_MAX \<equiv> - 1"

definition checked_add :: "u64 \<Rightarrow> u64 \<Rightarrow> u64 option" where
  "checked_add a b = (if unat a + unat b < 2 ^ 64 then Some (a + b) else None)"

definition checked_sub :: "u64 \<Rightarrow> u64 \<Rightarrow> u64 option" where
  "checked_sub a b = (if b \<le> a then Some (a - b) else None)"

definition checked_mul :: "u64 \<Rightarrow> u64 \<Rightarrow> u64 option" where
  "checked_mul a b = (if unat a * unat b < 2 ^ 64 then Some (a * b) else None)"

definition saturating_add :: "u64 \<Rightarrow> u64 \<Rightarrow> u64" where
  "saturating_add a b = (case checked_add a b of Some c \<Rightarrow> c | None \<Rightarrow> u64_MAX)"

definition saturating_sub :: "u64 \<Rightarrow> u64 \<Rightarrow> u64" where
  "saturating_sub a b = (if b \<le> a then a - b else 0)"

definition saturating_mul :: "u64 \<Rightarrow> u64 \<Rightarrow> u64" where
  "saturating_mul a b = (case checked_mul a b of Some c \<Rightarrow> c | None \<Rightarrow> u64_MAX)"

lemma unat_u64_less [simp]: "unat (x :: u64) < 18446744073709551616"
  using unsigned_less [of x] by simp

lemma unat_u8_less [simp]: "unat (x :: u8) < 256"
  using unsigned_less [of x] by simp

lemma unat_u64_MAX [simp]: "unat u64_MAX = 18446744073709551615"
  by (simp add: unsigned_minus_1_eq_mask mask_eq_exp_minus_1)

lemma u64_le_MAX [simp]: "x \<le> u64_MAX"
  by (simp add: word_le_nat_alt less_Suc_eq_le [symmetric])

lemma checked_add_Some [wrap_simps]:
  "checked_add a b = Some c \<longleftrightarrow> unat c = unat a + unat b"
proof
  assume "checked_add a b = Some c"
  then show "unat c = unat a + unat b"
    by (auto simp: checked_add_def unat_word_ariths split: if_splits)
next
  assume c: "unat c = unat a + unat b"
  with unat_u64_less [of c] have "unat a + unat b < 2 ^ 64" by simp
  with c show "checked_add a b = Some c"
    by (simp add: checked_add_def word_unat_eq_iff unat_word_ariths)
qed

lemma checked_add_None [wrap_simps]:
  "checked_add a b = None \<longleftrightarrow> 2 ^ 64 \<le> unat a + unat b"
  by (simp add: checked_add_def not_less)

lemma checked_sub_Some [wrap_simps]:
  "checked_sub a b = Some c \<longleftrightarrow> unat a = unat b + unat c"
proof
  assume "checked_sub a b = Some c"
  then show "unat a = unat b + unat c"
    by (auto simp: checked_sub_def word_le_nat_alt unat_sub split: if_splits)
next
  assume a: "unat a = unat b + unat c"
  then have "b \<le> a" by (simp add: word_le_nat_alt)
  moreover from this a have "a - b = c"
    by (simp add: word_unat_eq_iff unat_sub)
  ultimately show "checked_sub a b = Some c"
    by (simp add: checked_sub_def)
qed

lemma checked_sub_None [wrap_simps]:
  "checked_sub a b = None \<longleftrightarrow> a < b"
  by (auto simp: checked_sub_def)

lemma checked_mul_Some [wrap_simps]:
  "checked_mul a b = Some c \<longleftrightarrow> unat c = unat a * unat b"
proof
  assume "checked_mul a b = Some c"
  then show "unat c = unat a * unat b"
    by (auto simp: checked_mul_def unat_word_ariths split: if_splits)
next
  assume c: "unat c = unat a * unat b"
  with unat_u64_less [of c] have "unat a * unat b < 2 ^ 64" by simp
  with c show "checked_mul a b = Some c"
    by (simp add: checked_mul_def word_unat_eq_iff unat_word_ariths)
qed

lemma unat_ge_MAX [simp]: "18446744073709551615 \<le> unat (x :: u64) \<longleftrightarrow> x = u64_MAX"
  using unat_u64_less [of x] by (auto simp: word_unat_eq_iff simp del: unat_u64_less)

lemma checked_add_1_None [simp]: "checked_add x 1 = None \<longleftrightarrow> x = u64_MAX"
  by (simp add: checked_add_None)

lemma checked_sub_1_None [simp]: "checked_sub x 1 = None \<longleftrightarrow> x = 0"
  by (simp add: checked_sub_None word_less_1)

lemma checked_ends [simp]: "checked_add u64_MAX 1 = None" "checked_sub 0 1 = None"
  by (simp_all only: checked_add_1_None checked_sub_1_None)

lemma unat_saturating_add:
  "unat (saturating_add a b) = min (unat a + unat b) (2 ^ 64 - 1)"
  using checked_add_Some [of a b] checked_add_None [of a b]
  by (cases "checked_add a b") (auto simp: saturating_add_def min_def less_Suc_eq_le [symmetric])

lemma unat_saturating_sub: "unat (saturating_sub a b) = unat a - unat b"
  by (auto simp: saturating_sub_def word_le_nat_alt unat_sub)

lemma unat_saturating_mul_le: "unat (saturating_mul a b) \<le> unat a * unat b"
proof (cases "checked_mul a b")
  case None
  then show ?thesis by (simp add: saturating_mul_def checked_mul_def not_less split: if_splits)
next
  case (Some c)
  moreover from this have "unat c = unat a * unat b" by (simp only: checked_mul_Some)
  ultimately show ?thesis by (simp add: saturating_mul_def)
qed

lemma unat_word_of_nat_u64 [simp]:
  "n < 2 ^ 64 \<Longrightarrow> unat (word_of_nat n :: u64) = n"
  by (simp add: unsigned_of_nat take_bit_nat_eq_self)

lemma unat_exp_u64 [simp]:
  assumes "k < 64"
  shows "unat (2 ^ k :: u64) = 2 ^ k"
proof -
  have "(2::nat) ^ k < 2 ^ 64" using assms by (rule power_strict_increasing) simp
  from unat_word_of_nat_u64 [OF this] show ?thesis by simp
qed

lemma find_SomeD: "find P xs = Some x \<Longrightarrow> x \<in> set xs \<and> P x"
  by (induction xs) (auto split: if_splits)

lemma sort_key_id: "sorted (map f xs) \<Longrightarrow> sort_key f xs = xs"
  by (induction xs) (auto simp: insort_is_Cons)

lemma ucast_u8_back [simp]: "ucast (ucast v :: u64) = v" for v :: u8
  by (rule bit_word_eqI) (simp add: bit_simps)

lemma unat_ucast_u8 [simp]: "unat (ucast v :: u64) = unat v" for v :: u8
  using less_trans [OF unat_u8_less [of v], of "2 ^ 64"]
  by (simp add: unsigned_ucast_eq take_bit_nat_eq_self)

lemma ucast_u8_small [simp]: "\<not> 255 < (ucast v :: u64)" for v :: u8
  by (simp add: word_less_nat_alt not_less less_Suc_eq_le [symmetric])

lemma insort_key_map:
  "\<forall>y \<in> insert x (set xs). f (g y) = h y \<Longrightarrow> insort_key f (g x) (map g xs) = map g (insort_key h x xs)"
  by (induction xs) auto

lemma sort_key_map:
  "\<forall>y \<in> set xs. f (g y) = h y \<Longrightarrow> sort_key f (map g xs) = map g (sort_key h xs)"
  by (induction xs) (simp_all add: insort_key_map)

subsection \<open>Errors and results\<close>

datatype parse_error =
    NotEnoughBytes (perr_context: string) (needed: nat) (available: nat)
  | CastingError (perr_context: string) (from_type: string) (to_type: string)
  | LengthExceedsMax (perr_context: string) (max_len: nat) (len: nat)
  | KeyValueFormattingError (perr_context: string)
  | InvalidType (perr_context: string)
  | InvalidUTF8 (perr_context: string)
  | ProtocolViolation (perr_context: string)
  | TrackNameError (perr_context: string)
  | TrackAliasError (perr_context: string)
  | Timeout (perr_context: string)
  | OtherError (perr_context: string)

type_synonym 'a res = "parse_error + 'a"
type_synonym 'a parser = "bytes \<Rightarrow> (parse_error + 'a) \<times> bytes"

text \<open>The operator \<open>?\<close> on a \<open>Result\<close>, and \<open>map_err\<close>.\<close>

definition rbind :: "('e + 'a) \<Rightarrow> ('a \<Rightarrow> 'e + 'b) \<Rightarrow> 'e + 'b" where
  "rbind r f = (case r of Inl e \<Rightarrow> Inl e | Inr x \<Rightarrow> f x)"

definition map_err :: "('e \<Rightarrow> 'f) \<Rightarrow> 'e + 'a \<Rightarrow> 'f + 'a" where
  "map_err f r = (case r of Inl e \<Rightarrow> Inl (f e) | Inr x \<Rightarrow> Inr x)"

definition ok_or :: "'e \<Rightarrow> 'a option \<Rightarrow> 'e + 'a" where
  "ok_or e opt = (case opt of None \<Rightarrow> Inl e | Some x \<Rightarrow> Inr x)"

text \<open>Collecting an iterator of results: the first error wins.\<close>

fun collect_results :: "('e + 'a) list \<Rightarrow> 'e + 'a list" where
  "collect_results [] = Inr []"
| "collect_results (r # rs) = rbind r (\<lambda>x. rbind (collect_results rs) (\<lambda>xs. Inr (x # xs)))"

lemma rbind_simps [simp, codec_simps]:
  "rbind (Inl e) f = Inl e"
  "rbind (Inr x) f = f x"
  by (simp_all add: rbind_def)

lemma rbind_Inr_iff: "rbind r f = Inr y \<longleftrightarrow> (\<exists>x. r = Inr x \<and> f x = Inr y)"
  by (cases r) auto

lemma map_err_simps [simp, codec_simps]:
  "map_err f (Inl e) = Inl (f e)"
  "map_err f (Inr x) = Inr x"
  by (simp_all add: map_err_def)

lemma map_err_Inr_iff [simp]: "map_err f r = Inr x \<longleftrightarrow> r = Inr x"
  by (cases r) auto

lemma ok_or_simps [simp, codec_simps]:
  "ok_or e None = Inl e"
  "ok_or e (Some x) = Inr x"
  by (simp_all add: ok_or_def)

lemma ok_or_Inr_iff: "ok_or e opt = Inr x \<longleftrightarrow> opt = Some x"
  by (cases opt) auto

lemma collect_results_map_Inr [simp]: "collect_results (map (\<lambda>x. Inr (f x)) xs) = Inr (map f xs)"
  by (induction xs) auto

lemma collect_results_Inr_iff:
  "collect_results rs = Inr xs \<longleftrightarrow> rs = map Inr xs"
  by (induction rs arbitrary: xs) (auto simp: rbind_Inr_iff Cons_eq_map_conv)

subsection \<open>Readers over \<open>&mut Bytes\<close>\<close>

definition pbind :: "'a parser \<Rightarrow> ('a \<Rightarrow> 'b parser) \<Rightarrow> 'b parser" where
  "pbind p f = (\<lambda>bs. case p bs of (Inl e, bs') \<Rightarrow> (Inl e, bs') | (Inr x, bs') \<Rightarrow> f x bs')"

definition preturn :: "'a \<Rightarrow> 'a parser" where
  "preturn x = (\<lambda>bs. (Inr x, bs))"

definition pfail :: "parse_error \<Rightarrow> 'a parser" where
  "pfail e = (\<lambda>bs. (Inl e, bs))"

definition plift :: "'a res \<Rightarrow> 'a parser" where
  "plift r = (\<lambda>bs. (r, bs))"

text \<open>\<open>u64::try_into::<usize>()\<close> with the error the caller maps it to.\<close>

definition try_into_usize :: "string \<Rightarrow> u64 \<Rightarrow> nat res" where
  "try_into_usize ctx v =
     (if unat v < 2 ^ 64 then Inr (unat v) else Inl (CastingError ctx ''u64'' ''usize''))"

text \<open>\<open>Buf::remaining\<close>, a guard that enough bytes are left, and \<open>Buf::copy_to_bytes\<close>.\<close>

definition remaining :: "nat parser" where
  "remaining = (\<lambda>bs. (Inr (length bs), bs))"

definition require_bytes :: "string \<Rightarrow> nat \<Rightarrow> unit parser" where
  "require_bytes ctx n =
     (\<lambda>bs. if length bs < n then (Inl (NotEnoughBytes ctx n (length bs)), bs) else (Inr (), bs))"

definition copy_to_bytes :: "nat \<Rightarrow> bytes parser" where
  "copy_to_bytes n = (\<lambda>bs. (Inr (take n bs), drop n bs))"

text \<open>\<open>get_u8\<close> guarded by \<open>remaining() < 1\<close>, reporting \<open>avail\<close> available bytes.\<close>

definition get_u8_checked :: "string \<Rightarrow> u8 parser" where
  "get_u8_checked ctx = (\<lambda>bs. case bs of
       [] \<Rightarrow> (Inl (NotEnoughBytes ctx 1 0), [])
     | b # bs' \<Rightarrow> (Inr b, bs'))"

lemma try_into_usize_simp [simp, codec_simps]: "try_into_usize ctx v = Inr (unat v)"
  by (simp add: try_into_usize_def)

lemma pbind_apply [codec_simps]:
  "pbind p f bs = (case p bs of (Inl e, bs') \<Rightarrow> (Inl e, bs') | (Inr x, bs') \<Rightarrow> f x bs')"
  by (simp add: pbind_def)

lemma pbind_step [simp]:
  "p bs = (Inr x, bs') \<Longrightarrow> pbind p f bs = f x bs'"
  "p bs = (Inl e, bs') \<Longrightarrow> pbind p f bs = (Inl e, bs')"
  by (simp_all add: pbind_def)

lemma pbind_Inr_iff:
  "pbind p f bs = (Inr y, rest) \<longleftrightarrow> (\<exists>x bs'. p bs = (Inr x, bs') \<and> f x bs' = (Inr y, rest))"
  by (auto simp: pbind_def split: prod.splits sum.splits)

lemma preturn_apply [simp, codec_simps]: "preturn x bs = (Inr x, bs)"
  by (simp add: preturn_def)

lemma pfail_apply [simp, codec_simps]: "pfail e bs = (Inl e, bs)"
  by (simp add: pfail_def)

lemma plift_apply [simp, codec_simps]: "plift r bs = (r, bs)"
  by (simp add: plift_def)

lemma pbind_plift [simp, codec_simps]:
  "pbind (plift (Inr x)) f = f x"
  "pbind (plift (Inl e)) f = pfail e"
  by (simp_all add: pbind_def fun_eq_iff)

lemma pbind_preturn [simp, codec_simps]: "pbind (preturn x) f = f x"
  by (simp add: pbind_def fun_eq_iff)

lemma require_bytes_enough [simp]:
  "n \<le> length bs \<Longrightarrow> require_bytes ctx n bs = (Inr (), bs)"
  by (simp add: require_bytes_def)

lemma copy_to_bytes_append [simp]:
  "copy_to_bytes (length xs) (xs @ rest) = (Inr xs, rest)"
  by (simp add: copy_to_bytes_def)

lemma get_u8_checked_Cons [simp]: "get_u8_checked ctx (b # bs) = (Inr b, bs)"
  by (simp add: get_u8_checked_def)

text \<open>
  A reader only ever consumes: what it leaves is a suffix of what it was given. A
  reader that consumes at least one byte on success makes a \<open>while has_remaining()\<close>
  loop around it terminate.
\<close>

definition consuming :: "'a parser \<Rightarrow> bool" where
  "consuming p \<longleftrightarrow> (\<forall>bs r rest. p bs = (r, rest) \<longrightarrow> (\<exists>pre. bs = pre @ rest))"

definition progressing :: "'a parser \<Rightarrow> bool" where
  "progressing p \<longleftrightarrow> (\<forall>bs x rest. p bs = (Inr x, rest) \<longrightarrow> length rest < length bs)"

lemma consumingI: "(\<And>bs r rest. p bs = (r, rest) \<Longrightarrow> \<exists>pre. bs = pre @ rest) \<Longrightarrow> consuming p"
  by (auto simp: consuming_def)

lemma consumingD: "consuming p \<Longrightarrow> p bs = (r, rest) \<Longrightarrow> \<exists>pre. bs = pre @ rest"
  by (auto simp: consuming_def)

lemma consuming_length: "consuming p \<Longrightarrow> p bs = (r, rest) \<Longrightarrow> length rest \<le> length bs"
  by (auto dest!: consumingD)

lemma consuming_basic [intro, simp]:
  "consuming (preturn x)" "consuming (pfail e)" "consuming (plift r)"
  "consuming remaining" "consuming (require_bytes ctx n)" "consuming (copy_to_bytes n)"
  "consuming (get_u8_checked ctx)" "consuming (Pair r)"
  by (auto simp: consuming_def remaining_def require_bytes_def copy_to_bytes_def get_u8_checked_def
        plift_def split: if_splits list.splits)
     (metis append_take_drop_id)+

lemma consuming_pbind [intro]:
  assumes "consuming p" and "\<And>x. consuming (f x)"
  shows "consuming (pbind p f)"
proof (rule consumingI)
  fix bs r rest
  assume run: "pbind p f bs = (r, rest)"
  obtain q bs1 where p: "p bs = (q, bs1)" by fastforce
  from consumingD [OF assms(1) p] obtain pre where pre: "bs = pre @ bs1" by blast
  show "\<exists>pre. bs = pre @ rest"
  proof (cases q)
    case (Inl e)
    with run p pre show ?thesis by (auto simp: pbind_def)
  next
    case (Inr x)
    with run p have "f x bs1 = (r, rest)" by (simp add: pbind_def)
    from consumingD [OF assms(2) this] pre show ?thesis by auto
  qed
qed

lemma progressing_pbind:
  assumes "progressing p" and "\<And>x. consuming (f x)"
  shows "progressing (pbind p f)"
proof -
  have "length rest < length bs" if "pbind p f bs = (Inr y, rest)" for bs y rest
  proof -
    from that obtain x bs1 where p: "p bs = (Inr x, bs1)" and f: "f x bs1 = (Inr y, rest)"
      by (auto simp: pbind_Inr_iff)
    from assms(1) p have "length bs1 < length bs" by (auto simp: progressing_def)
    moreover from assms(2) f have "length rest \<le> length bs1" by (rule consuming_length)
    ultimately show ?thesis by simp
  qed
  then show ?thesis by (auto simp: progressing_def)
qed

subsection \<open>The codec interface\<close>

text \<open>
  What every pair of \<open>serialize\<close> and \<open>deserialize\<close> promises on the values \<open>wf\<close> that the
  program can hold: serialising succeeds, and reading the bytes back, whatever follows
  them on the stream, gives the value and leaves exactly what followed.
\<close>

locale codec =
  fixes enc :: "'a \<Rightarrow> bytes res"
    and dec :: "'a parser"
    and wf :: "'a \<Rightarrow> bool"
  assumes enc_total: "wf x \<Longrightarrow> \<exists>bs. enc x = Inr bs"
    and dec_enc: "wf x \<Longrightarrow> enc x = Inr bs \<Longrightarrow> dec (bs @ rest) = (Inr x, rest)"
begin

lemma enc_inj:
  assumes "wf x" "wf y" "enc x = enc y"
  shows "x = y"
proof -
  from assms(1) obtain bs where "enc x = Inr bs" using enc_total by blast
  with assms dec_enc [of x bs "[]"] dec_enc [of y bs "[]"] show ?thesis by simp
qed

lemma prefix_free:
  assumes "wf x" "wf y" "enc x = Inr bx" "enc y = Inr by" "bx @ rx = by @ ry"
  shows "x = y \<and> rx = ry"
  using dec_enc [OF assms(1,3), of rx] dec_enc [OF assms(2,4), of ry] assms(5) by simp

text \<open>Values written one after the other are read back one after the other.\<close>

lemma dec_chain:
  assumes "wf x" "enc x = Inr bs"
  shows "pbind dec f (bs @ rest) = f x rest"
  using dec_enc [OF assms] by simp

end

end
