(* ===== verification/Varint.thy ===== *)
theory Varint
  imports Prelude
begin

text \<open>
  The variable-length integer of the wire format
  (\<open>libs/moqtail-rs/src/model/common/varint.rs\<close>): \<open>n\<close> leading one bits in the first
  byte announce \<open>n\<close> further bytes, so a value takes one to nine bytes. The theory models
  the reader \<open>get_vi\<close>, the writer \<open>put_vi\<close> and \<open>minimal_vi_length\<close>, and shows that the
  writer is a codec for the reader, that it always chooses the shortest form, and that
  the reader fails exactly when the announced bytes are missing.
\<close>

subsection \<open>Reading\<close>

definition leading_ones :: "u8 \<Rightarrow> nat" where
  "leading_ones b = length (takeWhile (\<lambda>i. bit b i) [7, 6, 5, 4, 3, 2, 1, 0])"

definition get_vi :: "u64 parser" where
  "get_vi bs = (case bs of
       [] \<Rightarrow> (Inl (NotEnoughBytes ''varint first byte'' 1 0), [])
     | first # bs1 \<Rightarrow>
         (let length_vi = leading_ones first + 1;
              extra_bytes = length_vi - 1
          in if length bs1 < extra_bytes
             then (Inl (NotEnoughBytes ''varint continuation'' length_vi (length bs1 + 1)), bs1)
             else
               (let val = (if length_vi \<le> 8
                           then ucast first AND (push_bit (8 - length_vi) 1 - 1)
                           else 0)
                in (Inr (foldl (\<lambda>val b. push_bit 8 val OR ucast b) val (take extra_bytes bs1)),
                    drop extra_bytes bs1))))"

subsection \<open>Writing\<close>

definition minimal_vi_length :: "u64 \<Rightarrow> nat" where
  "minimal_vi_length v =
     (if v < push_bit 7 1 then 1
      else if v < push_bit 14 1 then 2
      else if v < push_bit 21 1 then 3
      else if v < push_bit 28 1 then 4
      else if v < push_bit 35 1 then 5
      else if v < push_bit 42 1 then 6
      else if v < push_bit 49 1 then 7
      else if v < push_bit 56 1 then 8
      else 9)"

text \<open>The low \<open>n\<close> bytes of \<open>v\<close>, most significant first; \<open>u64::to_be_bytes\<close> is \<open>n = 8\<close>.\<close>

definition be_bytes :: "nat \<Rightarrow> u64 \<Rightarrow> bytes" where
  "be_bytes n v = rev (map (\<lambda>i. ucast (drop_bit (8 * i) v)) [0..<n])"

text \<open>
  The bytes \<open>put_vi\<close> appends for a \<open>u64\<close>. The conversion \<open>try_into\<close> at its head cannot
  fail for the types the sources instantiate it with (\<open>u64\<close>, \<open>usize\<close>, \<open>u8\<close> and enums with
  a \<open>u64\<close> image), so the writer has no error branch here.
\<close>

definition put_vi :: "u64 \<Rightarrow> bytes" where
  "put_vi v =
     (let n = minimal_vi_length v
      in if n = 9 then 0xFF # be_bytes 8 v
         else
           (let out = be_bytes n v; ones = n - 1
            in if ones > 0
               then out[0 := out ! 0 OR ucast (push_bit (8 - ones) (push_bit ones 1 - 1 :: u16))]
               else out))"

subsection \<open>Lemmas\<close>

lemma be_bytes_0 [simp]: "be_bytes 0 v = []"
  by (simp add: be_bytes_def)

lemma be_bytes_Suc: "be_bytes (Suc n) v = ucast (drop_bit (8 * n) v) # be_bytes n v"
  by (simp add: be_bytes_def)

lemma length_be_bytes [simp]: "length (be_bytes n v) = n"
  by (simp add: be_bytes_def)

lemma foldl_be_bytes:
  "foldl (\<lambda>val b. push_bit 8 val OR ucast b) acc (be_bytes n v)
     = push_bit (8 * n) acc OR take_bit (8 * n) (v :: u64)"
proof (induction n arbitrary: acc)
  case 0
  then show ?case by simp
next
  case (Suc n)
  show ?case
    by (rule bit_word_eqI)
       (auto simp: be_bytes_Suc Suc.IH bit_or_iff bit_push_bit_iff bit_take_bit_iff
          bit_unsigned_iff bit_drop_bit_eq not_le add.commute)
qed

lemma bit_above_bound:
  fixes v :: u64
  assumes "v < push_bit k 1" and "k < 64" and "k \<le> i"
  shows "\<not> bit v i"
proof -
  from assms(1,2) have "unat v < 2 ^ k"
    by (simp add: word_less_nat_alt)
  then have "unat v < 2 ^ i"
    using assms(3) by (meson less_le_trans one_le_numeral power_increasing)
  then have "\<not> bit (unat v) i" by (simp add: bit_iff_odd)
  then show ?thesis by (simp add: bit_unsigned_iff)
qed

text \<open>The announcing prefix of an \<open>n\<close>-byte form: ones in bits \<open>9 - n\<close> to \<open>7\<close>.\<close>

lemma bit_vi_prefix:
  assumes "n \<le> 8"
  shows "bit (ucast (push_bit (8 - (n - 1)) (push_bit (n - 1) 1 - 1 :: u16)) :: u8) i
           \<longleftrightarrow> 9 - n \<le> i \<and> i < 8 \<and> 1 < n"
proof -
  have "(push_bit (n - 1) 1 - 1 :: u16) = mask (n - 1)"
    by (simp add: mask_eq_exp_minus_1)
  then show ?thesis
    using assms by (auto simp: bit_unsigned_iff bit_push_bit_iff bit_mask_iff)
qed

lemma leading_ones_eq:
  assumes "k \<le> 7" and "\<And>i. 8 - k \<le> i \<Longrightarrow> i < 8 \<Longrightarrow> bit b i" and "\<not> bit b (7 - k)"
  shows "leading_ones b = k"
proof -
  have "k \<in> {0, 1, 2, 3, 4, 5, 6, 7}" using assms(1) by auto
  then show ?thesis
    using assms(2,3) by (elim insertE emptyE) (simp_all add: leading_ones_def)
qed

lemma vi_first_byte:
  fixes x :: u64
  assumes n: "1 \<le> n" "n \<le> 8"
    and small: "\<And>i. 8 - n \<le> i \<Longrightarrow> \<not> bit x i"
    and p: "\<And>i. bit p i \<longleftrightarrow> 9 - n \<le> i \<and> i < 8 \<and> 1 < n"
  shows "leading_ones (ucast x OR p) = n - 1"
    and "ucast (ucast x OR p) AND (push_bit (8 - n) 1 - 1) = x"
proof -
  show "leading_ones (ucast x OR p) = n - 1"
    using n small by (intro leading_ones_eq) (auto simp: bit_or_iff bit_unsigned_iff p)
  have "(push_bit (8 - n) 1 - 1 :: u64) = mask (8 - n)"
    by (simp add: mask_eq_exp_minus_1)
  then show "ucast (ucast x OR p) AND (push_bit (8 - n) 1 - 1) = x"
    using n small
    by (intro bit_word_eqI)
       (auto simp: bit_and_iff bit_or_iff bit_unsigned_iff bit_mask_iff p not_le [symmetric])
qed

lemma minimal_vi_length_range: "1 \<le> minimal_vi_length v \<and> minimal_vi_length v \<le> 9"
  by (simp add: minimal_vi_length_def)

lemma minimal_vi_length_bound:
  "minimal_vi_length v = n \<Longrightarrow> n \<le> 8 \<Longrightarrow> v < push_bit (7 * n) 1"
  by (auto simp: minimal_vi_length_def split: if_splits)

lemma put_vi_short:
  assumes "minimal_vi_length v = n" and "n \<le> 8"
  obtains p where "\<And>i. bit p i \<longleftrightarrow> 9 - n \<le> i \<and> i < 8 \<and> 1 < n"
    and "put_vi v = (ucast (drop_bit (8 * (n - 1)) v) OR p) # be_bytes (n - 1) v"
proof -
  from minimal_vi_length_range [of v] assms obtain m where m: "n = Suc m" by (cases n) auto
  show ?thesis
  proof (cases "m = 0")
    case True
    with m assms(1) have "put_vi v = (ucast (drop_bit (8 * (n - 1)) v) OR 0) # be_bytes (n - 1) v"
      by (simp add: put_vi_def be_bytes_Suc)
    with True m show ?thesis by (intro that [of 0]) auto
  next
    case False
    with m assms show ?thesis
      by (intro that [OF bit_vi_prefix [of n]]) (simp_all add: put_vi_def be_bytes_Suc Let_def)
  qed
qed

lemma put_vi_long: "minimal_vi_length v = 9 \<Longrightarrow> put_vi v = 0xFF # be_bytes 8 v"
  by (simp add: put_vi_def)

lemma get_vi_Cons:
  assumes "leading_ones b = k" and "length xs = k"
  shows "get_vi (b # xs @ rest) =
    (Inr (foldl (\<lambda>val b. push_bit 8 val OR ucast b)
            (if k < 8 then ucast b AND (push_bit (7 - k) 1 - 1) else 0) xs), rest)"
  using assms by (simp add: get_vi_def Let_def)

lemma leading_ones_le: "leading_ones b \<le> 8"
  using length_takeWhile_le [of "\<lambda>i. bit b i" "[7, 6, 5, 4, 3, 2, 1, 0]"]
  by (simp add: leading_ones_def)

text \<open>Reading back what was written gives the value and leaves what followed it.\<close>

lemma get_vi_put_vi [simp]: "get_vi (put_vi v @ rest) = (Inr v, rest)"
proof (cases "minimal_vi_length v \<le> 8")
  case True
  define n where "n = minimal_vi_length v"
  with True minimal_vi_length_range [of v] have n: "1 \<le> n" "n \<le> 8" by auto
  from put_vi_short [OF n_def [symmetric] n(2)] obtain p where
    p: "\<And>i. bit p i \<longleftrightarrow> 9 - n \<le> i \<and> i < 8 \<and> 1 < n" and
    out: "put_vi v = (ucast (drop_bit (8 * (n - 1)) v) OR p) # be_bytes (n - 1) v" by blast
  have "\<not> bit (drop_bit (8 * (n - 1)) v) i" if "8 - n \<le> i" for i
    using bit_above_bound [OF minimal_vi_length_bound [OF n_def [symmetric] n(2)]] n that
    by (simp add: bit_drop_bit_eq)
  note head = vi_first_byte [OF n this p]
  have "7 - (n - 1) = 8 - n" and "n - 1 < 8" using n by auto
  then have "get_vi (put_vi v @ rest)
      = (Inr (push_bit (8 * (n - 1)) (drop_bit (8 * (n - 1)) v) OR take_bit (8 * (n - 1)) v), rest)"
    using get_vi_Cons [OF head(1) length_be_bytes, of v rest]
    by (simp only: out append_Cons head(2) foldl_be_bytes if_True)
  moreover have "push_bit (8 * (n - 1)) (drop_bit (8 * (n - 1)) v) OR take_bit (8 * (n - 1)) v = v"
    by (rule bit_word_eqI) (auto simp: bit_or_iff bit_push_bit_iff bit_drop_bit_eq bit_take_bit_iff)
  ultimately show ?thesis by simp
next
  case False
  with minimal_vi_length_range [of v] have "minimal_vi_length v = 9" by auto
  moreover have "leading_ones 0xFF = 8" by (simp add: leading_ones_def)
  moreover have "take_bit 64 v = v" by (simp add: take_bit_word_eq_self)
  ultimately show ?thesis
    using get_vi_Cons [of "0xFF" 8 "be_bytes 8 v" rest] by (simp add: put_vi_long foldl_be_bytes)
qed

lemma length_put_vi: "length (put_vi v) = minimal_vi_length v"
  using minimal_vi_length_range [of v] by (auto simp: put_vi_def Let_def)

lemma get_vi_consuming [simp, intro]: "consuming get_vi"
proof (rule consumingI)
  fix bs r rest
  assume "get_vi bs = (r, rest)"
  then have "\<exists>k. rest = drop k bs"
    by (cases bs)
       (auto simp: get_vi_def Let_def intro: exI [of _ "Suc 0"] exI [of _ "Suc _"] split: if_splits)
  then show "\<exists>pre. bs = pre @ rest" by (metis append_take_drop_id)
qed

lemma get_vi_progressing [simp]: "progressing get_vi"
  by (auto simp: progressing_def get_vi_def Let_def split: list.splits if_splits)

text \<open>
  The reader fails exactly when the buffer holds fewer bytes than the first byte
  announces, and otherwise consumes exactly the announced number of bytes.
\<close>

definition announced :: "bytes \<Rightarrow> nat" where
  "announced bs = (case bs of [] \<Rightarrow> 1 | b # _ \<Rightarrow> leading_ones b + 1)"

lemma get_vi_ok_iff:
  "(\<exists>v. fst (get_vi bs) = Inr v) \<longleftrightarrow> announced bs \<le> length bs"
  by (auto simp: get_vi_def announced_def Let_def split: list.splits)

lemma get_vi_rest: "get_vi bs = (Inr v, rest) \<Longrightarrow> rest = drop (announced bs) bs"
  by (auto simp: get_vi_def announced_def Let_def split: list.splits if_splits)

text \<open>No form of a value is shorter than the one the writer chooses.\<close>

lemma bound_from_bits:
  fixes v :: u64
  assumes "\<And>i. k \<le> i \<Longrightarrow> \<not> bit v i" and "k < 64"
  shows "v < push_bit k 1"
proof -
  have "take_bit k (unat v) = unat v"
    by (rule bit_eqI) (use assms(1) in \<open>auto simp: bit_take_bit_iff bit_unsigned_iff not_le [symmetric]\<close>)
  then have "unat v < 2 ^ k" by (metis take_bit_nat_less_exp)
  then show ?thesis using assms(2) by (simp add: word_less_nat_alt)
qed

lemma foldl_bits_bound:
  assumes "\<And>i. m \<le> i \<Longrightarrow> \<not> bit (acc :: u64) i" and "m + 8 * length xs \<le> i"
  shows "\<not> bit (foldl (\<lambda>val b. push_bit 8 val OR ucast b) acc (xs :: bytes)) i"
  using assms
proof (induction xs arbitrary: acc m)
  case Nil
  then show ?case by simp
next
  case (Cons x xs)
  have "\<not> bit (push_bit 8 acc OR ucast x) j" if "m + 8 \<le> j" for j
    using that Cons.prems(1)
    by (auto simp: bit_or_iff bit_push_bit_iff bit_unsigned_iff dest: bit_imp_le_length)
  from Cons.IH [OF this] Cons.prems(2) show ?case by simp
qed

lemma minimal_vi_length_le:
  assumes "v < push_bit (7 * n) 1" and "1 \<le> n" and "n \<le> 8"
  shows "minimal_vi_length v \<le> n"
proof -
  have "n \<in> {1, 2, 3, 4, 5, 6, 7, 8}" using assms(2,3) by auto
  then show ?thesis
    using assms(1) by (elim insertE emptyE) (simp_all add: minimal_vi_length_def)
qed

lemma get_vi_minimal:
  assumes "get_vi bs = (Inr v, rest)"
  shows "minimal_vi_length v \<le> announced bs"
proof -
  from assms obtain b xs where bs: "bs = b # xs" by (cases bs) (auto simp: get_vi_def)
  define k where "k = leading_ones b"
  have ann: "announced bs = k + 1" by (simp add: announced_def bs k_def)
  show ?thesis
  proof (cases "k < 8")
    case False
    with ann minimal_vi_length_range [of v] show ?thesis by simp
  next
    case True
    let ?acc = "ucast b AND (push_bit (8 - (k + 1)) 1 - 1) :: u64"
    from assms True have len: "k \<le> length xs"
      and v: "v = foldl (\<lambda>val b. push_bit 8 val OR ucast b) ?acc (take k xs)"
      by (auto simp: get_vi_def bs k_def [symmetric] Let_def split: if_splits)
    have "(push_bit (8 - (k + 1)) 1 - 1 :: u64) = mask (8 - (k + 1))"
      by (simp add: mask_eq_exp_minus_1)
    then have "\<not> bit ?acc i" if "8 - (k + 1) \<le> i" for i
      using that by (simp add: bit_and_iff bit_mask_iff del: push_bit_and push_bit_of_1)
    from foldl_bits_bound [OF this] len v True have "\<not> bit v i" if "7 * (k + 1) \<le> i" for i
      using that by simp
    then have "v < push_bit (7 * (k + 1)) 1" using True by (intro bound_from_bits) auto
    then show ?thesis using True ann by (simp only:) (rule minimal_vi_length_le, auto)
  qed
qed

text \<open>Writing again what was read never takes more bytes: the writer is minimal.\<close>

lemma get_vi_shrinks:
  assumes "get_vi bs = (Inr v, rest)"
  shows "length (put_vi v) + length rest \<le> length bs"
proof -
  from assms have "announced bs \<le> length bs" using get_vi_ok_iff [of bs] by auto
  with get_vi_rest [OF assms] get_vi_minimal [OF assms] show ?thesis by (simp add: length_put_vi)
qed

interpretation vi: codec "\<lambda>v. Inr (put_vi v)" get_vi "\<lambda>_. True"
  by unfold_locales auto

lemmas vi_chain [simp] = vi.dec_chain [OF TrueI refl]

lemma get_vi_chain2 [simp]:
  "get_vi (put_vi v @ rest) = (Inr v, rest)" "get_vi (put_vi v) = (Inr v, [])"
  using get_vi_put_vi [of v "[]"] by simp_all

subsection \<open>Properties\<close>

text \<open>C25. The variable-length integer survives its own round trip with any bytes after it,
  the written form takes one to nine bytes, and no byte string that reads back as the same
  value is shorter.\<close>

theorem varint_canonical:
  "get_vi (put_vi v @ rest) = (Inr v, rest)
   \<and> 1 \<le> length (put_vi v) \<and> length (put_vi v) \<le> 9
   \<and> (get_vi bs = (Inr v, rest') \<longrightarrow> length (put_vi v) \<le> length bs - length rest')"
proof -
  have "length (put_vi v) \<le> length bs - length rest'" if run: "get_vi bs = (Inr v, rest')"
  proof -
    from run have "announced bs \<le> length bs" using get_vi_ok_iff [of bs] by auto
    then have "length bs - length rest' = announced bs" using get_vi_rest [OF run] by simp
    with get_vi_minimal [OF run] show ?thesis by (simp add: length_put_vi)
  qed
  then show ?thesis
    using minimal_vi_length_range [of v] by (simp add: length_put_vi)
qed

theorem varint_canonical_witness:
  "get_vi [0x80, 0x05, 0x01] = (Inr 5, [0x01]) \<and> length (put_vi 5) \<le> 2"
proof -
  have run: "get_vi [0x80, 0x05, 0x01] = (Inr 5, [0x01])" by code_simp
  with varint_canonical [of 5 "[]" "[0x80, 0x05, 0x01]" "[0x01]"] show ?thesis by simp
qed

text \<open>Reading a variable-length integer fails exactly when the buffer is shorter than
  the length its first byte announces, and a successful read consumes exactly that many
  bytes.\<close>

lemma get_vi_exact:
  "if announced bs \<le> length bs
   then \<exists>v. get_vi bs = (Inr v, drop (announced bs) bs)
   else \<exists>ctx n a rest. get_vi bs = (Inl (NotEnoughBytes ctx n a), rest)
          \<and> n = announced bs \<and> a = length bs \<and> a < n"
  by (auto simp: get_vi_def announced_def Let_def split: list.splits)

end
