(* ===== verification/Pair.thy ===== *)
theory Pair
  imports Varint
begin

text \<open>
  Key-Value-Pairs (\<open>libs/moqtail-rs/src/model/common/pair.rs\<close>): typed pairs whose value is
  a varint for even types and a byte string for odd ones, and lists of them with the types
  delta-encoded. The list writer sorts by type first; the theory shows that what is read
  back is the stably sorted list, and that everything the reader accepts is sorted and well
  formed.
\<close>

definition MAX_VALUE_LENGTH :: nat where
  "MAX_VALUE_LENGTH = 65535"

datatype key_value_pair =
    KVarInt (get_type: u64) (kv_value: u64)
  | KBytes (get_type: u64) (kv_bytes: bytes)

abbreviation is_multiple_of_2 :: "u64 \<Rightarrow> bool" where
  "is_multiple_of_2 t \<equiv> even t"

definition kvp_try_new_varint :: "u64 \<Rightarrow> u64 \<Rightarrow> key_value_pair res" where
  "kvp_try_new_varint t v =
     (if \<not> is_multiple_of_2 t
      then Inl (KeyValueFormattingError ''KeyValuePair::try_new_varint'')
      else Inr (KVarInt t v))"

definition kvp_new_bytes :: "u64 \<Rightarrow> bytes \<Rightarrow> key_value_pair res" where
  "kvp_new_bytes t b =
     (if length b > MAX_VALUE_LENGTH
      then Inl (LengthExceedsMax ''KeyValuePair::new_bytes'' MAX_VALUE_LENGTH (length b))
      else Inr (KBytes t b))"

definition kvp_try_new_bytes :: "u64 \<Rightarrow> bytes \<Rightarrow> key_value_pair res" where
  "kvp_try_new_bytes t b =
     (if is_multiple_of_2 t
      then Inl (KeyValueFormattingError ''KeyValuePair::try_new_bytes'')
      else kvp_new_bytes t b)"

definition kvp_serialize_delta :: "key_value_pair \<Rightarrow> u64 \<Rightarrow> bytes res" where
  "kvp_serialize_delta kvp prev_type =
     rbind (ok_or (ProtocolViolation ''KeyValuePair::serialize_delta'')
              (checked_sub (get_type kvp) prev_type))
       (\<lambda>delta_type. Inr (put_vi delta_type @
          (case kvp of
             KVarInt _ value \<Rightarrow> put_vi value
           | KBytes _ value \<Rightarrow> put_vi (word_of_nat (length value)) @ value)))"

definition kvp_serialize :: "key_value_pair \<Rightarrow> bytes res" where
  "kvp_serialize kvp = kvp_serialize_delta kvp 0"

definition deserialize_bytes_value :: "u64 \<Rightarrow> key_value_pair parser" where
  "deserialize_bytes_value t =
     pbind get_vi (\<lambda>len_u64.
     pbind (plift (try_into_usize ''KeyValuePair::deserialize length'' len_u64)) (\<lambda>len.
       if len > MAX_VALUE_LENGTH
       then pfail (LengthExceedsMax ''KeyValuePair::deserialize'' MAX_VALUE_LENGTH len)
       else pbind (require_bytes ''KeyValuePair::deserialize value'' len) (\<lambda>_.
            pbind (copy_to_bytes len) (\<lambda>value. preturn (KBytes t value)))))"

definition deserialize_value :: "u64 \<Rightarrow> key_value_pair parser" where
  "deserialize_value t =
     (if is_multiple_of_2 t
      then pbind get_vi (\<lambda>value. preturn (KVarInt t value))
      else deserialize_bytes_value t)"

definition kvp_deserialize_delta :: "u64 \<Rightarrow> key_value_pair parser" where
  "kvp_deserialize_delta prev_type =
     pbind get_vi (\<lambda>delta_type.
     pbind (plift (ok_or (ProtocolViolation ''KeyValuePair::deserialize_delta'')
                     (checked_add prev_type delta_type)))
       deserialize_value)"

definition kvp_deserialize :: "key_value_pair parser" where
  "kvp_deserialize = kvp_deserialize_delta 0"

definition is_same_type :: "key_value_pair \<Rightarrow> key_value_pair \<Rightarrow> bool" where
  "is_same_type a b \<longleftrightarrow> get_type a = get_type b"

subsection \<open>Lists of pairs\<close>

fun serialize_kvps :: "u64 \<Rightarrow> key_value_pair list \<Rightarrow> bytes res" where
  "serialize_kvps prev_type [] = Inr []"
| "serialize_kvps prev_type (kvp # kvps) =
     rbind (kvp_serialize_delta kvp prev_type) (\<lambda>b.
     rbind (serialize_kvps (get_type kvp) kvps) (\<lambda>bs. Inr (b @ bs)))"

definition serialize_kvp_list :: "key_value_pair list \<Rightarrow> bytes res" where
  "serialize_kvp_list items = serialize_kvps 0 (sort_key get_type items)"

fun deserialize_kvps :: "nat \<Rightarrow> u64 \<Rightarrow> key_value_pair list parser" where
  "deserialize_kvps 0 prev_type = preturn []"
| "deserialize_kvps (Suc n) prev_type =
     pbind (kvp_deserialize_delta prev_type) (\<lambda>kvp.
     pbind (deserialize_kvps n (get_type kvp)) (\<lambda>kvps. preturn (kvp # kvps)))"

definition deserialize_kvp_list :: "u64 \<Rightarrow> key_value_pair list parser" where
  "deserialize_kvp_list count = deserialize_kvps (unat count) 0"

lemma deserialize_bytes_value_consuming [simp, intro]: "consuming (deserialize_bytes_value t)"
  unfolding deserialize_bytes_value_def by (intro consuming_pbind) (auto intro!: consuming_pbind)

lemma deserialize_value_consuming [simp, intro]: "consuming (deserialize_value t)"
  by (auto simp: deserialize_value_def)

lemma kvp_deserialize_delta_progressing: "progressing (kvp_deserialize_delta p)"
  unfolding kvp_deserialize_delta_def by (rule progressing_pbind) auto

function deserialize_kvps_until_empty :: "u64 \<Rightarrow> key_value_pair list parser" where
  "deserialize_kvps_until_empty prev_type bs =
     (if bs = [] then (Inr [], [])
      else case kvp_deserialize_delta prev_type bs of
             (Inl e, bs') \<Rightarrow> (Inl e, bs')
           | (Inr kvp, bs') \<Rightarrow>
               (case deserialize_kvps_until_empty (get_type kvp) bs' of
                  (Inl e, bs'') \<Rightarrow> (Inl e, bs'')
                | (Inr kvps, bs'') \<Rightarrow> (Inr (kvp # kvps), bs'')))"
  by pat_completeness auto
termination
  by (relation "measure (\<lambda>(p, bs). length bs)")
     (auto dest!: sym [of _ "kvp_deserialize_delta _ _"]
        kvp_deserialize_delta_progressing [unfolded progressing_def, rule_format])

declare deserialize_kvps_until_empty.simps [simp del]

definition deserialize_kvp_list_until_empty :: "key_value_pair list parser" where
  "deserialize_kvp_list_until_empty = deserialize_kvps_until_empty 0"

subsection \<open>Lemmas\<close>

text \<open>The pairs the constructors build and the reader yields.\<close>

definition kvp_wf :: "key_value_pair \<Rightarrow> bool" where
  "kvp_wf kvp \<longleftrightarrow> (case kvp of
       KVarInt t _ \<Rightarrow> is_multiple_of_2 t
     | KBytes t b \<Rightarrow> \<not> is_multiple_of_2 t \<and> length b \<le> MAX_VALUE_LENGTH)"

lemma kvp_wf_simps [simp]:
  "kvp_wf (KVarInt t v) \<longleftrightarrow> is_multiple_of_2 t"
  "kvp_wf (KBytes t b) \<longleftrightarrow> \<not> is_multiple_of_2 t \<and> length b \<le> MAX_VALUE_LENGTH"
  by (simp_all add: kvp_wf_def)

lemma kvp_constructors_wf:
  "kvp_try_new_varint t v = Inr k \<Longrightarrow> kvp_wf k"
  "kvp_try_new_bytes t b = Inr k \<Longrightarrow> kvp_wf k"
  by (auto simp: kvp_try_new_varint_def kvp_try_new_bytes_def kvp_new_bytes_def split: if_splits)

lemma checked_sub_le: "b \<le> a \<Longrightarrow> checked_sub a b = Some (a - b)"
  by (simp add: checked_sub_def)

lemma checked_add_diff: "p \<le> t \<Longrightarrow> checked_add p (t - p) = Some t"
  by (simp add: checked_add_Some unat_sub word_le_nat_alt)

lemma deserialize_bytes_value_append:
  assumes "length b \<le> MAX_VALUE_LENGTH"
  shows "deserialize_bytes_value t (put_vi (word_of_nat (length b)) @ b @ rest) = (Inr (KBytes t b), rest)"
  using assms by (simp add: deserialize_bytes_value_def MAX_VALUE_LENGTH_def)

lemma kvp_delta_roundtrip:
  assumes "kvp_wf k" "p \<le> get_type k"
  shows "\<exists>bs. kvp_serialize_delta k p = Inr bs
           \<and> (\<forall>rest. kvp_deserialize_delta p (bs @ rest) = (Inr k, rest))"
  using assms
  by (cases k)
     (simp_all add: kvp_serialize_delta_def kvp_deserialize_delta_def checked_sub_le checked_add_diff
        deserialize_value_def deserialize_bytes_value_append)

interpretation kvp: codec "\<lambda>k. kvp_serialize_delta k p" "kvp_deserialize_delta p"
  "\<lambda>k. kvp_wf k \<and> p \<le> get_type k" for p
  using kvp_delta_roundtrip by unfold_locales fastforce+

text \<open>A list whose types ascend from \<open>p\<close>.\<close>

abbreviation ascending_from :: "u64 \<Rightarrow> key_value_pair list \<Rightarrow> bool" where
  "ascending_from p ks \<equiv> sorted (p # map get_type ks)"

lemma kvps_roundtrip:
  assumes "\<forall>k \<in> set ks. kvp_wf k" "ascending_from p ks"
  shows "\<exists>bs. serialize_kvps p ks = Inr bs
           \<and> (\<forall>rest. deserialize_kvps (length ks) p (bs @ rest) = (Inr ks, rest))
           \<and> deserialize_kvps_until_empty p bs = (Inr ks, [])"
  using assms
proof (induction ks arbitrary: p)
  case Nil
  then show ?case by (simp add: deserialize_kvps_until_empty.simps)
next
  case (Cons k ks)
  from Cons.prems have "kvp_wf k \<and> p \<le> get_type k" by simp
  with kvp.enc_total [of k p] obtain b where b: "kvp_serialize_delta k p = Inr b" by blast
  note rd = kvp.dec_enc [OF \<open>kvp_wf k \<and> p \<le> get_type k\<close> b]
  from Cons.prems Cons.IH [of "get_type k"] obtain bs where
    bs: "serialize_kvps (get_type k) ks = Inr bs"
      "\<forall>rest. deserialize_kvps (length ks) (get_type k) (bs @ rest) = (Inr ks, rest)"
      "deserialize_kvps_until_empty (get_type k) bs = (Inr ks, [])"
    by auto
  have "b @ bs \<noteq> []"
    using rd [of bs] kvp_deserialize_delta_progressing [of p] by (fastforce simp: progressing_def)
  with b bs rd show ?case
    by (subst deserialize_kvps_until_empty.simps) simp
qed

lemma ascending_sort: "ascending_from 0 (sort_key get_type ks)"
  by simp

text \<open>Whatever the readers accept is well formed and ascends.\<close>

lemma kvp_deserialize_delta_sound:
  assumes "kvp_deserialize_delta p bs = (Inr k, rest)"
  shows "kvp_wf k \<and> p \<le> get_type k"
  using assms
  by (auto simp: kvp_deserialize_delta_def deserialize_value_def deserialize_bytes_value_def
        pbind_Inr_iff ok_or_Inr_iff checked_add_Some word_le_nat_alt require_bytes_def copy_to_bytes_def
        split: if_splits)

lemma deserialize_kvps_until_empty_sound:
  "deserialize_kvps_until_empty p bs = (Inr ks, rest) \<Longrightarrow>
     (\<forall>k \<in> set ks. kvp_wf k) \<and> ascending_from p ks \<and> rest = []"
proof (induction p bs arbitrary: ks rest rule: deserialize_kvps_until_empty.induct)
  case (1 p bs)
  show ?case
  proof (cases "bs = []")
    case True
    with "1.prems" show ?thesis by (simp add: deserialize_kvps_until_empty.simps)
  next
    case False
    with "1.prems" obtain k bs' ks' where
      k: "kvp_deserialize_delta p bs = (Inr k, bs')" and
      ks: "deserialize_kvps_until_empty (get_type k) bs' = (Inr ks', rest)" "ks = k # ks'"
      by (subst (asm) deserialize_kvps_until_empty.simps) (auto split: prod.splits sum.splits)
    from "1.IH" [OF False k [symmetric] refl ks(1)] kvp_deserialize_delta_sound [OF k] ks(2)
    show ?thesis by auto
  qed
qed

subsection \<open>Properties\<close>

text \<open>A list of well-formed pairs always serialises, and both list readers return exactly
  the stable sort of it by type, leaving what followed on the stream.\<close>

lemma kvp_list_roundtrip:
  assumes "\<forall>k \<in> set items. kvp_wf k" and "length items < 2 ^ 64"
  shows "\<exists>bs. serialize_kvp_list items = Inr bs
           \<and> deserialize_kvp_list (word_of_nat (length items)) (bs @ rest)
               = (Inr (sort_key get_type items), rest)
           \<and> deserialize_kvp_list_until_empty bs = (Inr (sort_key get_type items), [])"
  using kvps_roundtrip [OF _ ascending_sort, of items] assms
  by (auto simp: serialize_kvp_list_def deserialize_kvp_list_def deserialize_kvp_list_until_empty_def)

text \<open>Everything the list reader accepts is well formed, ascends by type and is a normal
  form: it serialises again and reads back unchanged.\<close>

lemma kvp_list_reader_sound:
  assumes "deserialize_kvp_list_until_empty bs = (Inr ks, rest)"
  shows "(\<forall>k \<in> set ks. kvp_wf k) \<and> sorted (map get_type ks) \<and> rest = []
    \<and> (\<exists>bs'. serialize_kvp_list ks = Inr bs' \<and> deserialize_kvp_list_until_empty bs' = (Inr ks, []))"
proof -
  from deserialize_kvps_until_empty_sound [OF assms [unfolded deserialize_kvp_list_until_empty_def]]
  have wf: "\<forall>k \<in> set ks. kvp_wf k" and asc: "ascending_from 0 ks" and "rest = []" by auto
  moreover from asc have "sort_key get_type ks = ks" by (simp add: sort_key_id)
  moreover from kvps_roundtrip [OF wf asc] obtain bs' where
    "serialize_kvps 0 ks = Inr bs'" "deserialize_kvps_until_empty 0 bs' = (Inr ks, [])" by blast
  ultimately show ?thesis
    by (auto simp: serialize_kvp_list_def deserialize_kvp_list_until_empty_def)
qed

end
