(* ===== verification/Names.thy ===== *)
theory Names
  imports Varint
begin

text \<open>
  Names on the wire: tuple fields and tuples (\<open>model/common/tuple.rs\<close>), full track names
  (\<open>model/data/full_track_name.rs\<close>), reason phrases (\<open>model/common/reason_phrase.rs\<close>) and
  redirects (\<open>model/common/redirect.rs\<close>). A Rust \<open>String\<close> is modelled by its bytes together
  with the predicate \<open>valid_utf8\<close>, which is what \<open>String::from_utf8\<close> checks; a one-field
  struct is modelled by its field.
\<close>

type_synonym tuple_field = bytes
type_synonym tuple = "bytes list"

subsection \<open>UTF-8\<close>

text \<open>Well-formed UTF-8 byte sequences, the acceptance condition of \<open>String::from_utf8\<close>.\<close>

abbreviation byte_in :: "u8 \<Rightarrow> u8 \<Rightarrow> u8 \<Rightarrow> bool" where
  "byte_in lo hi b \<equiv> lo \<le> b \<and> b \<le> hi"

fun valid_utf8 :: "bytes \<Rightarrow> bool" where
  "valid_utf8 [] = True"
| "valid_utf8 (b0 # bs) =
     (if b0 < 0x80 then valid_utf8 bs
      else case bs of
        [] \<Rightarrow> False
      | b1 # bs1 \<Rightarrow>
          if byte_in 0xC2 0xDF b0 then byte_in 0x80 0xBF b1 \<and> valid_utf8 bs1
          else (case bs1 of
            [] \<Rightarrow> False
          | b2 # bs2 \<Rightarrow>
              if b0 = 0xE0 then byte_in 0xA0 0xBF b1 \<and> byte_in 0x80 0xBF b2 \<and> valid_utf8 bs2
              else if b0 = 0xED then byte_in 0x80 0x9F b1 \<and> byte_in 0x80 0xBF b2 \<and> valid_utf8 bs2
              else if byte_in 0xE1 0xEF b0
              then byte_in 0x80 0xBF b1 \<and> byte_in 0x80 0xBF b2 \<and> valid_utf8 bs2
              else (case bs2 of
                [] \<Rightarrow> False
              | b3 # bs3 \<Rightarrow>
                  ((b0 = 0xF0 \<and> byte_in 0x90 0xBF b1)
                     \<or> (byte_in 0xF1 0xF3 b0 \<and> byte_in 0x80 0xBF b1)
                     \<or> (b0 = 0xF4 \<and> byte_in 0x80 0x8F b1))
                  \<and> byte_in 0x80 0xBF b2 \<and> byte_in 0x80 0xBF b3 \<and> valid_utf8 bs3)))"

definition string_from_utf8 :: "string \<Rightarrow> bytes \<Rightarrow> bytes res" where
  "string_from_utf8 ctx raw = (if valid_utf8 raw then Inr raw else Inl (InvalidUTF8 ctx))"

subsection \<open>Tuple fields\<close>

text \<open>
  \<open>as_str\<close>: letters, digits and underscores stand for themselves, every other byte is
  written as a period and two lower-case hexadecimal digits.
\<close>

definition hex_digit :: "u8 \<Rightarrow> u8" where
  "hex_digit d = (if d < 10 then 0x30 + d else 0x61 + (d - 10))"

definition is_plain :: "u8 \<Rightarrow> bool" where
  "is_plain b \<longleftrightarrow> byte_in 0x61 0x7A b \<or> byte_in 0x41 0x5A b \<or> byte_in 0x30 0x39 b \<or> b = 0x5F"

definition as_str_byte :: "u8 \<Rightarrow> bytes" where
  "as_str_byte b = (if is_plain b then [b] else [0x2E, hex_digit (b div 16), hex_digit (b mod 16)])"

definition tuple_field_as_str :: "tuple_field \<Rightarrow> bytes" where
  "tuple_field_as_str f = concat (map as_str_byte f)"

definition tuple_field_serialize :: "tuple_field \<Rightarrow> bytes res" where
  "tuple_field_serialize f = Inr (put_vi (word_of_nat (length f)) @ f)"

definition tuple_field_deserialize :: "tuple_field parser" where
  "tuple_field_deserialize =
     pbind get_vi (\<lambda>n.
     pbind (plift (try_into_usize ''TupleField::decode'' n)) (\<lambda>n.
     pbind (require_bytes ''TupleField::decode'' n) (\<lambda>_. copy_to_bytes n)))"

subsection \<open>Tuples\<close>

text \<open>\<open>str::split('/')\<close> on the UTF-8 bytes: the separator is a single ASCII byte.\<close>

fun split_slash :: "bytes \<Rightarrow> bytes list" where
  "split_slash [] = [[]]"
| "split_slash (b # bs) =
     (if b = 0x2F then [] # split_slash bs
      else case split_slash bs of [] \<Rightarrow> [[b]] | p # ps \<Rightarrow> (b # p) # ps)"

definition from_utf8_path :: "bytes \<Rightarrow> tuple" where
  "from_utf8_path path = filter (\<lambda>part. part \<noteq> []) (split_slash path)"

text \<open>Indexing panics out of range; \<open>None\<close> is the panic.\<close>

definition tuple_get :: "tuple \<Rightarrow> nat \<Rightarrow> tuple_field option" where
  "tuple_get t i = (if i < length t then Some (t ! i) else None)"

definition tuple_set :: "tuple \<Rightarrow> nat \<Rightarrow> tuple_field \<Rightarrow> tuple option" where
  "tuple_set t i f = (if i < length t then Some (t[i := f]) else None)"

definition tuple_add :: "tuple \<Rightarrow> tuple_field \<Rightarrow> tuple" where
  "tuple_add t f = t @ [f]"

definition tuple_starts_with :: "tuple \<Rightarrow> tuple \<Rightarrow> bool" where
  "tuple_starts_with t prefix =
     (if length prefix > length t then False
      else list_all (\<lambda>i. t ! i = prefix ! i) [0..<length prefix])"

definition tuple_suffix :: "tuple \<Rightarrow> tuple \<Rightarrow> tuple option" where
  "tuple_suffix t prefix =
     (if \<not> tuple_starts_with t prefix then None else Some (drop (length prefix) t))"

text \<open>Reserved namespaces: a first field that begins with a period, is a period, or is
  \<open>.session\<close>.\<close>

definition is_reserved_namespace :: "tuple \<Rightarrow> bool" where
  "is_reserved_namespace t = (case t of (b # _) # _ \<Rightarrow> b = 0x2E | _ \<Rightarrow> False)"

definition is_reserved_dot :: "tuple \<Rightarrow> bool" where
  "is_reserved_dot t = (case t of f # _ \<Rightarrow> f = [0x2E] | _ \<Rightarrow> False)"

definition is_session_namespace :: "tuple \<Rightarrow> bool" where
  "is_session_namespace t =
     (case t of f # _ \<Rightarrow> f = [0x2E, 0x73, 0x65, 0x73, 0x73, 0x69, 0x6F, 0x6E] | _ \<Rightarrow> False)"

definition tuple_serialize :: "tuple \<Rightarrow> bytes res" where
  "tuple_serialize t =
     rbind (collect_results (map tuple_field_serialize t)) (\<lambda>fs.
       Inr (put_vi (word_of_nat (length t)) @ concat fs))"

fun tuple_fields_deserialize :: "nat \<Rightarrow> tuple parser" where
  "tuple_fields_deserialize 0 = preturn []"
| "tuple_fields_deserialize (Suc n) =
     pbind tuple_field_deserialize (\<lambda>f.
     pbind (tuple_fields_deserialize n) (\<lambda>fs. preturn (f # fs)))"

definition tuple_deserialize :: "tuple parser" where
  "tuple_deserialize =
     pbind get_vi (\<lambda>count.
     pbind (plift (try_into_usize ''Tuple::decode'' count)) tuple_fields_deserialize)"

subsection \<open>Full track names\<close>

definition MAX_NAMESPACE_TUPLE_COUNT :: nat where
  "MAX_NAMESPACE_TUPLE_COUNT = 32"

definition MAX_FULL_TRACK_NAME_LENGTH :: nat where
  "MAX_FULL_TRACK_NAME_LENGTH = 4096"

record full_track_name =
  ftn_namespace :: tuple
  ftn_name :: tuple_field

definition namespace_length :: "tuple \<Rightarrow> nat res" where
  "namespace_length ns = rbind (tuple_serialize ns) (\<lambda>bs. Inr (length bs))"

definition full_track_name_new :: "tuple \<Rightarrow> tuple_field \<Rightarrow> full_track_name res" where
  "full_track_name_new ns nm =
     (if length ns > MAX_NAMESPACE_TUPLE_COUNT
      then Inl (TrackNameError ''FullTrackName::new(ns_count)'')
      else rbind (namespace_length ns) (\<lambda>ns_len.
        if ns_len + length nm > MAX_FULL_TRACK_NAME_LENGTH
        then Inl (TrackNameError ''FullTrackName::new(total_length)'')
        else Inr \<lparr> ftn_namespace = ns, ftn_name = nm \<rparr>))"

definition full_track_name_try_new :: "bytes \<Rightarrow> bytes \<Rightarrow> full_track_name res" where
  "full_track_name_try_new ns nm = full_track_name_new (from_utf8_path ns) nm"

text \<open>\<open>buf.extend(self.namespace.serialize())\<close> appends the bytes of an \<open>Ok\<close> and nothing for
  an \<open>Err\<close>.\<close>

definition full_track_name_serialize :: "full_track_name \<Rightarrow> bytes res" where
  "full_track_name_serialize n =
     Inr ((case tuple_serialize (ftn_namespace n) of Inr bs \<Rightarrow> bs | Inl _ \<Rightarrow> [])
          @ put_vi (word_of_nat (length (ftn_name n))) @ ftn_name n)"

definition full_track_name_deserialize :: "full_track_name parser" where
  "full_track_name_deserialize =
     pbind tuple_deserialize (\<lambda>ns.
       if length ns > MAX_NAMESPACE_TUPLE_COUNT
       then pfail (TrackNameError ''FullTrackName::deserialize(ns_count)'')
       else
         pbind get_vi (\<lambda>name_len.
         pbind (require_bytes ''FullTrackName::deserialize(name_length)'' (unat name_len)) (\<lambda>_.
         pbind (copy_to_bytes (unat name_len)) (\<lambda>nm.
         pbind (plift (namespace_length ns)) (\<lambda>ns_len.
           if ns_len + length nm > MAX_FULL_TRACK_NAME_LENGTH
           then pfail (TrackNameError ''FullTrackName::deserialize(total_length)'')
           else preturn \<lparr> ftn_namespace = ns, ftn_name = nm \<rparr>)))))"

text \<open>\<open>Display\<close>: the escaped namespace fields joined by a hyphen, two hyphens, the escaped name.\<close>

fun join_hyphen :: "bytes list \<Rightarrow> bytes" where
  "join_hyphen [] = []"
| "join_hyphen [f] = f"
| "join_hyphen (f # fs) = f @ [0x2D] @ join_hyphen fs"

definition full_track_name_display :: "full_track_name \<Rightarrow> bytes" where
  "full_track_name_display n =
     join_hyphen (map tuple_field_as_str (ftn_namespace n)) @ [0x2D, 0x2D]
       @ tuple_field_as_str (ftn_name n)"

subsection \<open>Reason phrases\<close>

definition MAX_REASON_PHRASE_LEN :: nat where
  "MAX_REASON_PHRASE_LEN = 1024"

definition reason_phrase_try_new :: "bytes \<Rightarrow> bytes res" where
  "reason_phrase_try_new phrase =
     (if length phrase > MAX_REASON_PHRASE_LEN
      then Inl (LengthExceedsMax ''ReasonPhrase::try_new'' MAX_REASON_PHRASE_LEN (length phrase))
      else Inr phrase)"

definition reason_phrase_serialize :: "bytes \<Rightarrow> bytes res" where
  "reason_phrase_serialize phrase = Inr (put_vi (word_of_nat (length phrase)) @ phrase)"

definition reason_phrase_deserialize :: "bytes parser" where
  "reason_phrase_deserialize =
     pbind get_vi (\<lambda>len_u64.
     pbind (plift (try_into_usize ''ReasonPhrase::deserialize length'' len_u64)) (\<lambda>n.
       if n > MAX_REASON_PHRASE_LEN
       then pfail (LengthExceedsMax ''reason phrase try_new'' MAX_REASON_PHRASE_LEN n)
       else pbind (require_bytes ''ReasonPhrase::value'' n) (\<lambda>_.
            pbind (copy_to_bytes n) (\<lambda>raw.
              plift (string_from_utf8 ''ReasonPhrase::deserialize'' raw)))))"

subsection \<open>Redirects\<close>

record redirect =
  connect_uri :: "bytes option"
  rd_track_namespace :: tuple
  rd_track_name :: tuple_field

definition redirect_new :: "bytes option \<Rightarrow> tuple \<Rightarrow> tuple_field \<Rightarrow> redirect" where
  "redirect_new uri ns nm =
     \<lparr> connect_uri = (case uri of Some u \<Rightarrow> if u = [] then None else Some u | None \<Rightarrow> None),
       rd_track_namespace = ns, rd_track_name = nm \<rparr>"

definition redirect_serialize :: "redirect \<Rightarrow> bytes res" where
  "redirect_serialize r =
     rbind (tuple_serialize (rd_track_namespace r)) (\<lambda>ns.
       Inr ((case connect_uri r of
               Some uri \<Rightarrow> put_vi (word_of_nat (length uri)) @ uri
             | None \<Rightarrow> put_vi 0)
            @ ns @ put_vi (word_of_nat (length (rd_track_name r))) @ rd_track_name r))"

definition redirect_deserialize :: "redirect parser" where
  "redirect_deserialize =
     pbind get_vi (\<lambda>uri_len_u64.
     pbind (plift (try_into_usize ''Redirect::deserialize(uri_len)'' uri_len_u64)) (\<lambda>uri_len.
     pbind (if uri_len = 0 then preturn None
            else pbind (require_bytes ''Redirect::deserialize(connect_uri)'' uri_len) (\<lambda>_.
                 pbind (copy_to_bytes uri_len) (\<lambda>raw.
                 pbind (plift (string_from_utf8 ''Redirect::deserialize(connect_uri)'' raw))
                   (\<lambda>uri. preturn (Some uri))))) (\<lambda>uri.
     pbind tuple_deserialize (\<lambda>ns.
     pbind get_vi (\<lambda>name_len_u64.
     pbind (plift (try_into_usize ''Redirect::deserialize(name_len)'' name_len_u64)) (\<lambda>name_len.
     pbind (require_bytes ''Redirect::deserialize(track_name)'' name_len) (\<lambda>_.
     pbind (copy_to_bytes name_len) (\<lambda>nm.
       preturn \<lparr> connect_uri = uri, rd_track_namespace = ns, rd_track_name = nm \<rparr>))))))))"

subsection \<open>Lemmas\<close>

abbreviation short_bytes :: "bytes \<Rightarrow> bool" where
  "short_bytes b \<equiv> length b < 2 ^ 64"

definition tuple_wf :: "tuple \<Rightarrow> bool" where
  "tuple_wf t \<longleftrightarrow> length t < 2 ^ 64 \<and> (\<forall>f \<in> set t. short_bytes f)"

lemma string_from_utf8_valid [simp]: "valid_utf8 b \<Longrightarrow> string_from_utf8 ctx b = Inr b"
  by (simp add: string_from_utf8_def)

interpretation tuple_field: codec tuple_field_serialize tuple_field_deserialize short_bytes
  by unfold_locales (auto simp: tuple_field_serialize_def tuple_field_deserialize_def)

lemma tuple_field_chain [simp]:
  "short_bytes f \<Longrightarrow>
     pbind tuple_field_deserialize g (put_vi (word_of_nat (length f)) @ f @ rest) = g f rest"
  using tuple_field.dec_chain [of f "put_vi (word_of_nat (length f)) @ f"]
  by (simp add: tuple_field_serialize_def)

text \<open>The bytes of the fields of a tuple.\<close>

definition fields_bytes :: "tuple \<Rightarrow> bytes" where
  "fields_bytes t = concat (map (\<lambda>f. put_vi (word_of_nat (length f)) @ f) t)"

lemma tuple_serialize_eq [simp]:
  "tuple_serialize t = Inr (put_vi (word_of_nat (length t)) @ fields_bytes t)"
proof -
  have "collect_results (map tuple_field_serialize t)
      = Inr (map (\<lambda>f. put_vi (word_of_nat (length f)) @ f) t)"
    unfolding tuple_field_serialize_def by (rule collect_results_map_Inr)
  then show ?thesis by (simp add: tuple_serialize_def fields_bytes_def)
qed

lemma tuple_fields_roundtrip:
  "\<forall>f \<in> set t. short_bytes f \<Longrightarrow>
     tuple_fields_deserialize (length t) (fields_bytes t @ rest) = (Inr t, rest)"
proof (induction t)
  case Nil
  then show ?case by (simp add: fields_bytes_def)
next
  case (Cons f t)
  then show ?case by (simp add: fields_bytes_def)
qed

interpretation tuple: codec tuple_serialize tuple_deserialize tuple_wf
  by unfold_locales (auto simp: tuple_deserialize_def tuple_fields_roundtrip tuple_wf_def)

lemmas tuple_chain [simp] = tuple.dec_chain [OF _ tuple_serialize_eq, unfolded append_assoc]

lemma tuple_field_deserialize_consuming [simp, intro]: "consuming tuple_field_deserialize"
  by (auto simp: tuple_field_deserialize_def)

lemma tuple_fields_deserialize_consuming [simp, intro]: "consuming (tuple_fields_deserialize n)"
  by (induction n) auto

lemma tuple_deserialize_consuming [simp, intro]: "consuming tuple_deserialize"
  by (auto simp: tuple_deserialize_def)

text \<open>\<open>starts_with\<close> and \<open>suffix\<close> are the list prefix and what is left after it.\<close>

lemma tuple_starts_with_iff: "tuple_starts_with t p \<longleftrightarrow> (\<exists>s. t = p @ s)"
proof -
  have "(length p \<le> length t \<and> (\<forall>i < length p. t ! i = p ! i)) \<longleftrightarrow> take (length p) t = p"
    by (auto intro!: nth_equalityI dest: arg_cong [of _ _ length] simp: min_def split: if_splits)
       (metis nth_take)+
  then show ?thesis
    by (auto simp: tuple_starts_with_def list_all_iff not_le)
       (metis append_take_drop_id)
qed

lemma tuple_suffix_iff: "tuple_suffix t p = Some s \<longleftrightarrow> t = p @ s"
  by (auto simp: tuple_suffix_def tuple_starts_with_iff)

text \<open>The size of a well-formed full track name, and the values the constructors build.\<close>

definition full_track_name_wf :: "full_track_name \<Rightarrow> bool" where
  "full_track_name_wf n \<longleftrightarrow> length (ftn_namespace n) \<le> MAX_NAMESPACE_TUPLE_COUNT
     \<and> length (put_vi (word_of_nat (length (ftn_namespace n))) @ fields_bytes (ftn_namespace n))
         + length (ftn_name n) \<le> MAX_FULL_TRACK_NAME_LENGTH"

lemma namespace_length_eq [simp]:
  "namespace_length ns = Inr (length (put_vi (word_of_nat (length ns)) @ fields_bytes ns))"
  by (simp add: namespace_length_def)

lemma full_track_name_new_iff:
  "full_track_name_new ns nm = Inr n \<longleftrightarrow>
     n = \<lparr> ftn_namespace = ns, ftn_name = nm \<rparr> \<and> full_track_name_wf n"
  by (auto simp: full_track_name_new_def full_track_name_wf_def split: if_splits)

lemma field_in_fields_bytes: "f \<in> set t \<Longrightarrow> length f \<le> length (fields_bytes t)"
  by (induction t) (auto simp: fields_bytes_def)

lemma full_track_name_wf_tuple: "full_track_name_wf n \<Longrightarrow> tuple_wf (ftn_namespace n)"
  by (auto simp: full_track_name_wf_def tuple_wf_def MAX_NAMESPACE_TUPLE_COUNT_def
        MAX_FULL_TRACK_NAME_LENGTH_def dest!: field_in_fields_bytes)

interpretation ftn: codec full_track_name_serialize full_track_name_deserialize full_track_name_wf
proof
  fix n :: full_track_name and bs rest
  show "\<exists>bs. full_track_name_serialize n = Inr bs" by (simp add: full_track_name_serialize_def)
  assume wf: "full_track_name_wf n" and "full_track_name_serialize n = Inr bs"
  moreover have "short_bytes (ftn_name n)"
    using wf by (simp add: full_track_name_wf_def MAX_FULL_TRACK_NAME_LENGTH_def)
  ultimately show "full_track_name_deserialize (bs @ rest) = (Inr n, rest)"
    using full_track_name_wf_tuple [OF wf]
    by (auto simp: full_track_name_serialize_def full_track_name_deserialize_def
          full_track_name_wf_def not_less)
qed

definition reason_phrase_wf :: "bytes \<Rightarrow> bool" where
  "reason_phrase_wf p \<longleftrightarrow> valid_utf8 p \<and> length p \<le> MAX_REASON_PHRASE_LEN"

interpretation reason_phrase: codec reason_phrase_serialize reason_phrase_deserialize reason_phrase_wf
  by unfold_locales
     (auto simp: reason_phrase_serialize_def reason_phrase_deserialize_def reason_phrase_wf_def
        MAX_REASON_PHRASE_LEN_def)

definition redirect_wf :: "redirect \<Rightarrow> bool" where
  "redirect_wf r \<longleftrightarrow> tuple_wf (rd_track_namespace r) \<and> short_bytes (rd_track_name r)
     \<and> (\<forall>u. connect_uri r = Some u \<longrightarrow> u \<noteq> [] \<and> valid_utf8 u \<and> short_bytes u)"

interpretation redirect: codec redirect_serialize redirect_deserialize redirect_wf
proof
  fix r :: redirect and bs rest
  show "\<exists>bs. redirect_serialize r = Inr bs" by (simp add: redirect_serialize_def)
  assume wf: "redirect_wf r" and "redirect_serialize r = Inr bs"
  then show "redirect_deserialize (bs @ rest) = (Inr r, rest)"
    by (cases "connect_uri r")
       (auto simp: redirect_serialize_def redirect_deserialize_def redirect_wf_def)
qed

text \<open>The escaped rendering of a field loses nothing.\<close>

lemma hex_digit_inj: "d < 16 \<Longrightarrow> e < 16 \<Longrightarrow> hex_digit d = hex_digit e \<longleftrightarrow> d = e"
  by (auto simp: hex_digit_def word_less_nat_alt word_unat_eq_iff unat_word_ariths unat_sub_if'
        split: if_splits)

lemma byte_div_mod: "(b :: u8) div 16 < 16" "b mod 16 < 16" "16 * (b div 16) + b mod 16 = b"
proof -
  show "b div 16 < 16" by (simp add: word_less_nat_alt unat_div less_mult_imp_div_less)
  show "b mod 16 < 16" by (simp add: word_less_nat_alt unat_mod)
  show "16 * (b div 16) + b mod 16 = b" by (simp add: mult_div_mod_eq)
qed

lemma as_str_byte_decode:
  "as_str_byte b @ xs = as_str_byte c @ ys \<longleftrightarrow> b = c \<and> xs = ys"
proof
  assume eq: "as_str_byte b @ xs = as_str_byte c @ ys"
  have "\<not> is_plain 0x2E" by (simp add: is_plain_def)
  with eq have plain: "is_plain b = is_plain c" and "xs = ys"
    by (auto simp: as_str_byte_def split: if_splits)
  moreover have "b = c"
  proof (cases "is_plain b")
    case True
    with eq plain show ?thesis by (simp add: as_str_byte_def)
  next
    case False
    with eq plain have "b div 16 = c div 16" "b mod 16 = c mod 16"
      by (simp_all add: as_str_byte_def hex_digit_inj byte_div_mod(1,2))
    then show ?thesis by (metis byte_div_mod(3))
  qed
  ultimately show "b = c \<and> xs = ys" by blast
qed simp

lemma tuple_field_as_str_inj: "tuple_field_as_str f = tuple_field_as_str g \<longleftrightarrow> f = g"
proof (induction f arbitrary: g)
  case Nil
  then show ?case by (cases g) (auto simp: tuple_field_as_str_def as_str_byte_def split: if_splits)
next
  case (Cons b f)
  then show ?case
    by (cases g) (auto simp: tuple_field_as_str_def as_str_byte_decode,
       auto simp: as_str_byte_def split: if_splits)
qed

lemma full_track_name_deserialize_sound:
  "full_track_name_deserialize bs = (Inr n, rest) \<Longrightarrow> full_track_name_wf n"
  by (auto simp: full_track_name_deserialize_def full_track_name_wf_def pbind_Inr_iff
        require_bytes_def copy_to_bytes_def split: if_splits)

subsection \<open>Properties\<close>

text \<open>The limits on full track names hold on both sides of the wire: a name the constructor
  accepts survives its round trip, and every name the reader yields is one the constructor
  accepts.\<close>

lemma full_track_name_wire:
  "(full_track_name_new ns nm = Inr n \<longrightarrow>
      (\<exists>bs. full_track_name_serialize n = Inr bs
         \<and> full_track_name_deserialize (bs @ rest) = (Inr n, rest)))
   \<and> (full_track_name_deserialize bs = (Inr m, rest') \<longrightarrow>
        full_track_name_new (ftn_namespace m) (ftn_name m) = Inr m)"
proof (intro conjI impI)
  assume "full_track_name_new ns nm = Inr n"
  then have wf: "full_track_name_wf n" using full_track_name_new_iff by blast
  from ftn.enc_total [OF wf] ftn.dec_enc [OF wf]
  show "\<exists>bs. full_track_name_serialize n = Inr bs
          \<and> full_track_name_deserialize (bs @ rest) = (Inr n, rest)" by blast
next
  assume "full_track_name_deserialize bs = (Inr m, rest')"
  then show "full_track_name_new (ftn_namespace m) (ftn_name m) = Inr m"
    by (simp add: full_track_name_new_iff full_track_name_deserialize_sound)
qed

text \<open>Namespace prefixes: \<open>starts_with\<close> is the prefix order on tuples and \<open>suffix\<close> is its
  unique complement.\<close>

lemma tuple_prefix_suffix:
  "(tuple_suffix t p = Some s \<longleftrightarrow> t = p @ s)
   \<and> (tuple_starts_with t p \<longleftrightarrow> tuple_suffix t p \<noteq> None)
   \<and> (tuple_starts_with t p \<and> tuple_starts_with p t \<longleftrightarrow> t = p)"
  by (auto simp: tuple_suffix_iff tuple_starts_with_iff tuple_suffix_def)

text \<open>Reason phrases and redirects survive their round trips within the limits, and the
  reason-phrase reader yields only valid UTF-8 of at most 1024 bytes.\<close>

lemma phrase_and_redirect_wire:
  "(valid_utf8 p \<and> reason_phrase_try_new p = Inr p \<longrightarrow>
      (\<exists>bs. reason_phrase_serialize p = Inr bs \<and> reason_phrase_deserialize (bs @ rest) = (Inr p, rest)))
   \<and> (reason_phrase_deserialize bs = (Inr q, rest') \<longrightarrow> valid_utf8 q \<and> length q \<le> 1024)
   \<and> (redirect_wf r \<longrightarrow>
      (\<exists>bs. redirect_serialize r = Inr bs \<and> redirect_deserialize (bs @ rest) = (Inr r, rest)))"
proof (intro conjI impI)
  assume "valid_utf8 p \<and> reason_phrase_try_new p = Inr p"
  then have "reason_phrase_wf p"
    by (auto simp: reason_phrase_try_new_def reason_phrase_wf_def split: if_splits)
  then show "\<exists>bs. reason_phrase_serialize p = Inr bs
      \<and> reason_phrase_deserialize (bs @ rest) = (Inr p, rest)"
    using reason_phrase.enc_total reason_phrase.dec_enc by blast
next
  assume "redirect_wf r"
  then show "\<exists>bs. redirect_serialize r = Inr bs \<and> redirect_deserialize (bs @ rest) = (Inr r, rest)"
    using redirect.enc_total redirect.dec_enc by blast
next
  assume "reason_phrase_deserialize bs = (Inr q, rest')"
  then show "valid_utf8 q" and "length q \<le> 1024"
    by (auto simp: reason_phrase_deserialize_def pbind_Inr_iff string_from_utf8_def
        MAX_REASON_PHRASE_LEN_def copy_to_bytes_def split: if_splits)
qed

text \<open>The printable form of a name field is unambiguous: different fields print differently,
  and only letters, digits, underscores and periods are printed.\<close>

lemma as_str_unambiguous:
  "(tuple_field_as_str f = tuple_field_as_str g \<longleftrightarrow> f = g)
   \<and> (\<forall>b. b \<in> set (tuple_field_as_str f) \<longrightarrow> is_plain b \<or> b = 0x2E)"
proof -
  have "is_plain (hex_digit d)" if "d < 16" for d
    using that by (auto simp: is_plain_def hex_digit_def word_less_nat_alt word_le_nat_alt
        unat_word_ariths unat_sub_if')
  then have "\<forall>x \<in> set (as_str_byte b). is_plain x \<or> x = 0x2E" for b
    by (simp add: as_str_byte_def byte_div_mod)
  then show ?thesis
    by (auto simp: tuple_field_as_str_inj) (auto simp: tuple_field_as_str_def)
qed

end
