(* ===== verification/Locations.thy ===== *)
theory Locations
  imports Varint
begin

text \<open>
  Locations, the (group, object) coordinates of an Object
  (\<open>libs/moqtail-rs/src/model/common/location.rs\<close>). The derived lexicographic order is an
  instance of \<open>linorder\<close>; \<open>next\<close> and \<open>prev\<close> are shown to be the immediate neighbours in it.
\<close>

datatype location = Location (l_group: u64) (l_object: u64)

definition location_le :: "location \<Rightarrow> location \<Rightarrow> bool" where
  "location_le a b \<longleftrightarrow>
     l_group a < l_group b \<or> (l_group a = l_group b \<and> l_object a \<le> l_object b)"

definition location_lt :: "location \<Rightarrow> location \<Rightarrow> bool" where
  "location_lt a b \<longleftrightarrow>
     l_group a < l_group b \<or> (l_group a = l_group b \<and> l_object a < l_object b)"

lemmas location_order_defs = location_le_def location_lt_def

instantiation location :: linorder
begin

definition less_eq_location :: "location \<Rightarrow> location \<Rightarrow> bool" where
  "less_eq_location = location_le"

definition less_location :: "location \<Rightarrow> location \<Rightarrow> bool" where
  "less_location = location_lt"

instance
  by standard (auto simp: less_eq_location_def less_location_def location_order_defs location.expand)

end

text \<open>\<open>Default::default\<close> of the derived implementation.\<close>

definition location_default :: location where
  "location_default = Location 0 0"

definition location_next :: "location \<Rightarrow> location option" where
  "location_next l = (case checked_add (l_object l) 1 of
       Some ob \<Rightarrow> Some (Location (l_group l) ob)
     | None \<Rightarrow> map_option (\<lambda>g. Location g 0) (checked_add (l_group l) 1))"

definition location_prev :: "location \<Rightarrow> location option" where
  "location_prev l = (case checked_sub (l_object l) 1 of
       Some ob \<Rightarrow> Some (Location (l_group l) ob)
     | None \<Rightarrow> map_option (\<lambda>g. Location g u64_MAX) (checked_sub (l_group l) 1))"

definition location_serialize :: "location \<Rightarrow> bytes res" where
  "location_serialize l = Inr (put_vi (l_group l) @ put_vi (l_object l))"

definition location_deserialize :: "location parser" where
  "location_deserialize =
     pbind get_vi (\<lambda>gr. pbind get_vi (\<lambda>ob. preturn (Location gr ob)))"

subsection \<open>Lemmas\<close>

lemma Location_le [simp]:
  "Location g x \<le> Location h y \<longleftrightarrow> g < h \<or> (g = h \<and> x \<le> y)"
  "Location g x < Location h y \<longleftrightarrow> g < h \<or> (g = h \<and> x < y)"
  by (simp_all add: less_eq_location_def less_location_def location_order_defs)

lemma location_le_iff:
  "a \<le> b \<longleftrightarrow> l_group a < l_group b \<or> (l_group a = l_group b \<and> l_object a \<le> l_object b)"
  "a < b \<longleftrightarrow> l_group a < l_group b \<or> (l_group a = l_group b \<and> l_object a < l_object b)"
  by (simp_all add: less_eq_location_def less_location_def location_order_defs)

lemma location_group_mono: "a \<le> b \<Longrightarrow> l_group a \<le> l_group b"
  by (auto simp: location_le_iff(1))

text \<open>Single steps of a word that cannot wrap, and whole groups.\<close>

lemma u64_steps:
  fixes a b :: u64
  assumes "a < b"
  shows "a + 1 \<le> x \<longleftrightarrow> a < x" "x \<le> b - 1 \<longleftrightarrow> x < b"
proof -
  have "unat a + 1 \<le> unat b" using assms by (simp add: word_less_nat_alt)
  also have "unat b < 2 ^ 64" using unsigned_less [of b] by simp
  finally have "unat a + 1 < 2 ^ 64" .
  then have "unat (a + 1) = unat a + 1" by (simp add: unat_word_ariths)
  then show "a + 1 \<le> x \<longleftrightarrow> a < x" by (auto simp: word_le_nat_alt word_less_nat_alt)
  have "unat (b - 1) = unat b - 1" "0 < unat b" using assms by (auto simp: unat_sub word_le_nat_alt word_less_nat_alt)
  then show "x \<le> b - 1 \<longleftrightarrow> x < b" by (auto simp: word_le_nat_alt word_less_nat_alt)
qed

lemma u64_top: "x < u64_MAX \<longleftrightarrow> x \<noteq> u64_MAX" "\<not> u64_MAX < x" "x \<le> u64_MAX" for x :: u64
  by (simp_all add: order_less_le not_less) (metis order_antisym word_n1_ge)

lemma whole_groups:
  "Location g 0 \<le> l \<longleftrightarrow> g \<le> l_group l" "l \<le> Location g u64_MAX \<longleftrightarrow> l_group l \<le> g"
  by (auto simp: location_le_iff u64_top(3) order_le_less [of g] order_le_less [of "l_group l"])

lemma location_bounds [simp]: "Location 0 0 \<le> l" "l \<le> Location u64_MAX u64_MAX"
  by (cases l; simp add: order_le_less [symmetric] word_neq_0_conv; auto simp: less_le)+

text \<open>A position number that turns the order of Locations into the order of \<open>nat\<close>.\<close>

definition location_rank :: "location \<Rightarrow> nat" where
  "location_rank l = unat (l_group l) * 2 ^ 64 + unat (l_object l)"

lemma radix_less:
  fixes g h x y :: nat
  assumes "x < K" "y < K"
  shows "g * K + x < h * K + y \<longleftrightarrow> g < h \<or> (g = h \<and> x < y)"
proof (cases g h rule: linorder_cases)
  case less
  then have "Suc g * K \<le> h * K" by (intro mult_le_mono1) simp
  with less assms show ?thesis by simp
next
  case equal
  then show ?thesis by simp
next
  case greater
  then have "Suc h * K \<le> g * K" by (intro mult_le_mono1) simp
  with greater assms show ?thesis by simp
qed

lemma location_rank_less: "location_rank a < location_rank b \<longleftrightarrow> a < b"
  unfolding location_rank_def location_le_iff word_less_nat_alt word_unat_eq_iff
  by (rule radix_less) simp_all

lemma location_rank_eq [simp]: "location_rank a = location_rank b \<longleftrightarrow> a = b"
  using location_rank_less by (metis less_irrefl linorder_neqE)

lemma location_rank_le: "location_rank a \<le> location_rank b \<longleftrightarrow> a \<le> b"
  using location_rank_less by (simp add: not_less [symmetric])

lemma location_rank_bound: "location_rank l < 2 ^ 128"
proof -
  have "location_rank l \<le> location_rank (Location u64_MAX u64_MAX)"
    by (simp add: location_rank_le)
  then show ?thesis by (simp add: location_rank_def)
qed

text \<open>\<open>next\<close> and \<open>prev\<close> step the position number by one, and fail at the two ends only.\<close>

lemma location_next_Some: "location_next a = Some b \<Longrightarrow> location_rank b = Suc (location_rank a)"
  by (cases "checked_add (l_object a) 1")
     (auto simp: location_next_def location_rank_def checked_add_Some)

lemma location_next_None: "location_next a = None \<longleftrightarrow> a = Location u64_MAX u64_MAX"
  by (cases a)
     (auto simp: location_next_def split: option.splits)

lemma location_prev_Some: "location_prev b = Some a \<Longrightarrow> location_rank b = Suc (location_rank a)"
  by (cases "checked_sub (l_object b) 1")
     (auto simp: location_prev_def location_rank_def checked_sub_Some)

lemma location_prev_None: "location_prev a = None \<longleftrightarrow> a = Location 0 0"
  by (cases a)
     (auto simp: location_prev_def split: option.splits)

lemma location_next_iff: "location_next a = Some b \<longleftrightarrow> location_rank b = Suc (location_rank a)"
proof
  assume b: "location_rank b = Suc (location_rank a)"
  then have "a < b" by (simp add: location_rank_less [symmetric])
  then have "location_next a \<noteq> None"
    using location_bounds(2) [of b] by (metis location_next_None not_less)
  then obtain c where c: "location_next a = Some c" by auto
  with b location_next_Some [OF c] have "c = b" by (simp flip: location_rank_eq)
  with c show "location_next a = Some b" by simp
qed (rule location_next_Some)

lemma location_prev_iff: "location_prev b = Some a \<longleftrightarrow> location_rank b = Suc (location_rank a)"
proof
  assume b: "location_rank b = Suc (location_rank a)"
  then have "b \<noteq> Location 0 0" by (auto simp: location_rank_def)
  then have "location_prev b \<noteq> None" by (simp add: location_prev_None)
  then obtain c where c: "location_prev b = Some c" by auto
  with b location_prev_Some [OF c] have "c = a" by (simp flip: location_rank_eq)
  with c show "location_prev b = Some a" by simp
qed (rule location_prev_Some)

lemma location_next_le_iff:
  "location_next a = Some b \<Longrightarrow> (b \<le> c \<longleftrightarrow> a < c)" "location_next a = Some b \<Longrightarrow> (c < b \<longleftrightarrow> c \<le> a)"
  by (auto simp: location_next_iff simp flip: location_rank_le location_rank_less)

interpretation loc: codec location_serialize location_deserialize "\<lambda>_. True"
  by unfold_locales (auto simp: location_serialize_def location_deserialize_def)

lemmas loc_chain [simp] = loc.dec_chain [OF TrueI, unfolded location_serialize_def, OF refl]

lemmas loc_chain_assoc [simp] = loc_chain [unfolded append_assoc]

lemma location_deserialize_consuming [simp, intro]: "consuming location_deserialize"
  by (auto simp: location_deserialize_def)

subsection \<open>Properties\<close>

text \<open>\<open>next\<close> and \<open>prev\<close> are exact neighbours in the derived order: each undoes the other,
  nothing lies strictly between a Location and its \<open>next\<close>, and they fail only at the last and
  the first Location.\<close>

lemma location_neighbours:
  "(location_next a = Some b \<longleftrightarrow> location_prev b = Some a)
   \<and> (location_next a = Some b \<longrightarrow> a < b \<and> \<not> (\<exists>c. a < c \<and> c < b))
   \<and> (location_next a = None \<longleftrightarrow> (\<forall>c. c \<le> a))
   \<and> (location_prev a = None \<longleftrightarrow> (\<forall>c. a \<le> c))"
proof (intro conjI impI)
  show "location_next a = Some b \<longleftrightarrow> location_prev b = Some a"
    by (simp add: location_next_iff location_prev_iff)
  show "location_next a = None \<longleftrightarrow> (\<forall>c. c \<le> a)"
    using location_bounds(2) by (auto simp: location_next_None intro: order_antisym)
  show "location_prev a = None \<longleftrightarrow> (\<forall>c. a \<le> c)"
    using location_bounds(1) by (auto simp: location_prev_None intro: order_antisym)
  assume "location_next a = Some b"
  then show "a < b" and "\<not> (\<exists>c. a < c \<and> c < b)"
    using location_next_le_iff [of a b] by (auto simp: not_less [symmetric])
qed

end
