(* ===== verification/Wire_Enums.thy ===== *)
theory Wire_Enums
  imports Prelude
begin

text \<open>
  The closed enumerations of the wire format: each is a Rust enum with explicit
  discriminants, a \<open>From\<close> into its integer and a \<open>TryFrom\<close> back. The locale \<open>wire_enum\<close>
  states what the two conversions promise each other; every enumeration of the library
  is an interpretation of it. Constructors carry a short prefix per enumeration, because
  the registries deliberately reuse names with different numbers.
\<close>

locale wire_enum =
  fixes to_wire :: "'a \<Rightarrow> 'w"
    and try_from :: "'w \<Rightarrow> 'a res"
  assumes try_to: "try_from (to_wire c) = Inr c"
    and to_try: "try_from v = Inr c \<Longrightarrow> to_wire c = v"
begin

lemma to_wire_inj: "to_wire c = to_wire d \<longleftrightarrow> c = d"
  using try_to by (metis sum.inject(2))

lemma accepts_iff: "try_from v = Inr c \<longleftrightarrow> v = to_wire c"
  using try_to to_try by blast

lemma rejects_iff: "(\<exists>e. try_from v = Inl e) \<longleftrightarrow> v \<notin> range to_wire"
proof
  assume "\<exists>e. try_from v = Inl e"
  then show "v \<notin> range to_wire" using try_to by force
next
  assume v: "v \<notin> range to_wire"
  show "\<exists>e. try_from v = Inl e"
  proof (cases "try_from v")
    case (Inr c)
    with to_try v show ?thesis by blast
  qed blast
qed

end

subsection \<open>The REQUEST_ERROR registry\<close>

text \<open>The REQUEST_ERROR registry (\<open>model/error/request_error.rs\<close>).\<close>

datatype request_error_code =
    REC_InternalError
  | REC_Unauthorized
  | REC_Timeout
  | REC_NotSupported
  | REC_MalformedAuthToken
  | REC_ExpiredAuthToken
  | REC_GoingAway
  | REC_ExcessiveLoad
  | REC_DoesNotExist
  | REC_InvalidRange
  | REC_MalformedTrack
  | REC_Uninterested
  | REC_PrefixOverlap
  | REC_NamespaceTooLarge
  | REC_InvalidSwitch
  | REC_UnsupportedExtension
  | REC_Redirect
  | REC_ConflictingFilters
  | REC_InvalidFilter

fun request_error_code_to_wire :: "request_error_code \<Rightarrow> u64" where
  "request_error_code_to_wire REC_InternalError = 0x0"
| "request_error_code_to_wire REC_Unauthorized = 0x1"
| "request_error_code_to_wire REC_Timeout = 0x2"
| "request_error_code_to_wire REC_NotSupported = 0x3"
| "request_error_code_to_wire REC_MalformedAuthToken = 0x4"
| "request_error_code_to_wire REC_ExpiredAuthToken = 0x5"
| "request_error_code_to_wire REC_GoingAway = 0x6"
| "request_error_code_to_wire REC_ExcessiveLoad = 0x9"
| "request_error_code_to_wire REC_DoesNotExist = 0x10"
| "request_error_code_to_wire REC_InvalidRange = 0x11"
| "request_error_code_to_wire REC_MalformedTrack = 0x12"
| "request_error_code_to_wire REC_Uninterested = 0x20"
| "request_error_code_to_wire REC_PrefixOverlap = 0x30"
| "request_error_code_to_wire REC_NamespaceTooLarge = 0x31"
| "request_error_code_to_wire REC_InvalidSwitch = 0x32"
| "request_error_code_to_wire REC_UnsupportedExtension = 0x33"
| "request_error_code_to_wire REC_Redirect = 0x34"
| "request_error_code_to_wire REC_ConflictingFilters = 0x35"
| "request_error_code_to_wire REC_InvalidFilter = 0x36"

definition request_error_code_try_from :: "u64 \<Rightarrow> request_error_code res" where
  "request_error_code_try_from v =
     (if v = 0x0 then Inr REC_InternalError
      else if v = 0x1 then Inr REC_Unauthorized
      else if v = 0x2 then Inr REC_Timeout
      else if v = 0x3 then Inr REC_NotSupported
      else if v = 0x4 then Inr REC_MalformedAuthToken
      else if v = 0x5 then Inr REC_ExpiredAuthToken
      else if v = 0x6 then Inr REC_GoingAway
      else if v = 0x9 then Inr REC_ExcessiveLoad
      else if v = 0x10 then Inr REC_DoesNotExist
      else if v = 0x11 then Inr REC_InvalidRange
      else if v = 0x12 then Inr REC_MalformedTrack
      else if v = 0x20 then Inr REC_Uninterested
      else if v = 0x30 then Inr REC_PrefixOverlap
      else if v = 0x31 then Inr REC_NamespaceTooLarge
      else if v = 0x32 then Inr REC_InvalidSwitch
      else if v = 0x33 then Inr REC_UnsupportedExtension
      else if v = 0x34 then Inr REC_Redirect
      else if v = 0x35 then Inr REC_ConflictingFilters
      else if v = 0x36 then Inr REC_InvalidFilter
      else Inl (InvalidType ''RequestErrorCode::try_from(u64)''))"

interpretation rec_enum: wire_enum request_error_code_to_wire request_error_code_try_from
proof
  show "request_error_code_try_from (request_error_code_to_wire c) = Inr c" for c
    by (cases c) (simp_all add: request_error_code_try_from_def)
  show "request_error_code_to_wire c = v" if "request_error_code_try_from v = Inr c" for v c
    using that by (auto simp: request_error_code_try_from_def split: if_splits)
qed

text \<open>\<open>from_wire\<close>: an unknown code, GREASE included, reads as an internal error.\<close>

definition request_error_code_from_wire :: "u64 \<Rightarrow> request_error_code" where
  "request_error_code_from_wire v =
     (case request_error_code_try_from v of Inr c \<Rightarrow> c | Inl _ \<Rightarrow> REC_InternalError)"

subsection \<open>The stream reset registry\<close>

text \<open>The stream reset registry (\<open>model/error/stream_reset.rs\<close>).\<close>

datatype stream_reset_code =
    SRC_InternalError
  | SRC_Cancelled
  | SRC_DeliveryTimeout
  | SRC_SessionClosed
  | SRC_GoingAway
  | SRC_TooFarBehind
  | SRC_UnknownObjectStatus
  | SRC_ExpiredAuthToken
  | SRC_ExcessiveLoad
  | SRC_MalformedTrack

fun stream_reset_code_to_wire :: "stream_reset_code \<Rightarrow> u64" where
  "stream_reset_code_to_wire SRC_InternalError = 0x0"
| "stream_reset_code_to_wire SRC_Cancelled = 0x1"
| "stream_reset_code_to_wire SRC_DeliveryTimeout = 0x2"
| "stream_reset_code_to_wire SRC_SessionClosed = 0x3"
| "stream_reset_code_to_wire SRC_GoingAway = 0x4"
| "stream_reset_code_to_wire SRC_TooFarBehind = 0x5"
| "stream_reset_code_to_wire SRC_UnknownObjectStatus = 0x6"
| "stream_reset_code_to_wire SRC_ExpiredAuthToken = 0x7"
| "stream_reset_code_to_wire SRC_ExcessiveLoad = 0x9"
| "stream_reset_code_to_wire SRC_MalformedTrack = 0x12"

definition stream_reset_code_try_from :: "u64 \<Rightarrow> stream_reset_code res" where
  "stream_reset_code_try_from v =
     (if v = 0x0 then Inr SRC_InternalError
      else if v = 0x1 then Inr SRC_Cancelled
      else if v = 0x2 then Inr SRC_DeliveryTimeout
      else if v = 0x3 then Inr SRC_SessionClosed
      else if v = 0x4 then Inr SRC_GoingAway
      else if v = 0x5 then Inr SRC_TooFarBehind
      else if v = 0x6 then Inr SRC_UnknownObjectStatus
      else if v = 0x7 then Inr SRC_ExpiredAuthToken
      else if v = 0x9 then Inr SRC_ExcessiveLoad
      else if v = 0x12 then Inr SRC_MalformedTrack
      else Inl (InvalidType ''StreamResetCode::try_from(u64)''))"

interpretation src_enum: wire_enum stream_reset_code_to_wire stream_reset_code_try_from
proof
  show "stream_reset_code_try_from (stream_reset_code_to_wire c) = Inr c" for c
    by (cases c) (simp_all add: stream_reset_code_try_from_def)
  show "stream_reset_code_to_wire c = v" if "stream_reset_code_try_from v = Inr c" for v c
    using that by (auto simp: stream_reset_code_try_from_def split: if_splits)
qed

subsection \<open>Control message types\<close>

text \<open>Control message types (\<open>model/control/constant.rs\<close>).\<close>

datatype control_message_type =
    CMT_Setup
  | CMT_GoAway
  | CMT_Subscribe
  | CMT_SubscribeOk
  | CMT_RequestError
  | CMT_RequestUpdate
  | CMT_PublishDone
  | CMT_Fetch
  | CMT_FetchOk
  | CMT_TrackStatus
  | CMT_PublishNamespace
  | CMT_RequestOk
  | CMT_Namespace
  | CMT_NamespaceDone
  | CMT_SubscribeNamespace
  | CMT_SubscribeTracks
  | CMT_Publish
  | CMT_PublishOk
  | CMT_PublishSkipped

fun control_message_type_to_wire :: "control_message_type \<Rightarrow> u64" where
  "control_message_type_to_wire CMT_Setup = 0x2F00"
| "control_message_type_to_wire CMT_GoAway = 0x10"
| "control_message_type_to_wire CMT_Subscribe = 0x3"
| "control_message_type_to_wire CMT_SubscribeOk = 0x4"
| "control_message_type_to_wire CMT_RequestError = 0x5"
| "control_message_type_to_wire CMT_RequestUpdate = 0x2"
| "control_message_type_to_wire CMT_PublishDone = 0xB"
| "control_message_type_to_wire CMT_Fetch = 0x16"
| "control_message_type_to_wire CMT_FetchOk = 0x18"
| "control_message_type_to_wire CMT_TrackStatus = 0xD"
| "control_message_type_to_wire CMT_PublishNamespace = 0x6"
| "control_message_type_to_wire CMT_RequestOk = 0x7"
| "control_message_type_to_wire CMT_Namespace = 0x8"
| "control_message_type_to_wire CMT_NamespaceDone = 0xE"
| "control_message_type_to_wire CMT_SubscribeNamespace = 0x50"
| "control_message_type_to_wire CMT_SubscribeTracks = 0x51"
| "control_message_type_to_wire CMT_Publish = 0x1D"
| "control_message_type_to_wire CMT_PublishOk = 0x1E"
| "control_message_type_to_wire CMT_PublishSkipped = 0xF"

definition control_message_type_try_from :: "u64 \<Rightarrow> control_message_type res" where
  "control_message_type_try_from v =
     (if v = 0x2F00 then Inr CMT_Setup
      else if v = 0x10 then Inr CMT_GoAway
      else if v = 0x3 then Inr CMT_Subscribe
      else if v = 0x4 then Inr CMT_SubscribeOk
      else if v = 0x5 then Inr CMT_RequestError
      else if v = 0x2 then Inr CMT_RequestUpdate
      else if v = 0xB then Inr CMT_PublishDone
      else if v = 0x16 then Inr CMT_Fetch
      else if v = 0x18 then Inr CMT_FetchOk
      else if v = 0xD then Inr CMT_TrackStatus
      else if v = 0x6 then Inr CMT_PublishNamespace
      else if v = 0x7 then Inr CMT_RequestOk
      else if v = 0x8 then Inr CMT_Namespace
      else if v = 0xE then Inr CMT_NamespaceDone
      else if v = 0x50 then Inr CMT_SubscribeNamespace
      else if v = 0x51 then Inr CMT_SubscribeTracks
      else if v = 0x1D then Inr CMT_Publish
      else if v = 0x1E then Inr CMT_PublishOk
      else if v = 0xF then Inr CMT_PublishSkipped
      else Inl (InvalidType '' ControlMessageType::try_from(u64)''))"

interpretation cmt_enum: wire_enum control_message_type_to_wire control_message_type_try_from
proof
  show "control_message_type_try_from (control_message_type_to_wire c) = Inr c" for c
    by (cases c) (simp_all add: control_message_type_try_from_def)
  show "control_message_type_to_wire c = v" if "control_message_type_try_from v = Inr c" for v c
    using that by (auto simp: control_message_type_try_from_def split: if_splits)
qed

text \<open>Whether a type may open a request stream.\<close>

definition is_first :: "control_message_type \<Rightarrow> bool" where
  "is_first t = (case t of
       CMT_Subscribe \<Rightarrow> True
     | CMT_Fetch \<Rightarrow> True
     | CMT_TrackStatus \<Rightarrow> True
     | CMT_PublishNamespace \<Rightarrow> True
     | CMT_SubscribeNamespace \<Rightarrow> True
     | CMT_SubscribeTracks \<Rightarrow> True
     | CMT_Publish \<Rightarrow> True
     | _ \<Rightarrow> False)"

subsection \<open>Location filter types\<close>

text \<open>Location filter types (\<open>model/control/constant.rs\<close>).\<close>

datatype location_filter_type =
    LFT_None
  | LFT_RelativeStart
  | LFT_AbsoluteStart
  | LFT_AbsoluteStartGroupEnd
  | LFT_AbsoluteRange
  | LFT_NextObject

fun location_filter_type_to_wire :: "location_filter_type \<Rightarrow> u64" where
  "location_filter_type_to_wire LFT_None = 0x0"
| "location_filter_type_to_wire LFT_RelativeStart = 0x1"
| "location_filter_type_to_wire LFT_AbsoluteStart = 0x2"
| "location_filter_type_to_wire LFT_AbsoluteStartGroupEnd = 0x3"
| "location_filter_type_to_wire LFT_AbsoluteRange = 0x4"
| "location_filter_type_to_wire LFT_NextObject = 0x5"

definition location_filter_type_try_from :: "u64 \<Rightarrow> location_filter_type res" where
  "location_filter_type_try_from v =
     (if v = 0x0 then Inr LFT_None
      else if v = 0x1 then Inr LFT_RelativeStart
      else if v = 0x2 then Inr LFT_AbsoluteStart
      else if v = 0x3 then Inr LFT_AbsoluteStartGroupEnd
      else if v = 0x4 then Inr LFT_AbsoluteRange
      else if v = 0x5 then Inr LFT_NextObject
      else Inl (InvalidType ''LocationFilterType::try_from(u64)''))"

interpretation lft_enum: wire_enum location_filter_type_to_wire location_filter_type_try_from
proof
  show "location_filter_type_try_from (location_filter_type_to_wire c) = Inr c" for c
    by (cases c) (simp_all add: location_filter_type_try_from_def)
  show "location_filter_type_to_wire c = v" if "location_filter_type_try_from v = Inr c" for v c
    using that by (auto simp: location_filter_type_try_from_def split: if_splits)
qed

subsection \<open>How a switch stops the subscription it suspends\<close>

text \<open>How a switch stops the subscription it suspends (\<open>model/control/constant.rs\<close>).\<close>

datatype switch_mode =
    SM_Hard
  | SM_Soft

fun switch_mode_to_wire :: "switch_mode \<Rightarrow> u64" where
  "switch_mode_to_wire SM_Hard = 0x0"
| "switch_mode_to_wire SM_Soft = 0x1"

definition switch_mode_try_from :: "u64 \<Rightarrow> switch_mode res" where
  "switch_mode_try_from v =
     (if v = 0x0 then Inr SM_Hard
      else if v = 0x1 then Inr SM_Soft
      else Inl (InvalidType ''SwitchMode::try_from(u64)''))"

interpretation sm_enum: wire_enum switch_mode_to_wire switch_mode_try_from
proof
  show "switch_mode_try_from (switch_mode_to_wire c) = Inr c" for c
    by (cases c) (simp_all add: switch_mode_try_from_def)
  show "switch_mode_to_wire c = v" if "switch_mode_try_from v = Inr c" for v c
    using that by (auto simp: switch_mode_try_from_def split: if_splits)
qed

subsection \<open>Group order\<close>

text \<open>Group order (\<open>model/control/constant.rs\<close>).\<close>

datatype group_order =
    GO_Original
  | GO_Ascending
  | GO_Descending

fun group_order_to_wire :: "group_order \<Rightarrow> u8" where
  "group_order_to_wire GO_Original = 0x0"
| "group_order_to_wire GO_Ascending = 0x1"
| "group_order_to_wire GO_Descending = 0x2"

definition group_order_try_from :: "u8 \<Rightarrow> group_order res" where
  "group_order_try_from v =
     (if v = 0x0 then Inr GO_Original
      else if v = 0x1 then Inr GO_Ascending
      else if v = 0x2 then Inr GO_Descending
      else Inl (InvalidType ''GroupOrder::try_from(u8)''))"

interpretation go_enum: wire_enum group_order_to_wire group_order_try_from
proof
  show "group_order_try_from (group_order_to_wire c) = Inr c" for c
    by (cases c) (simp_all add: group_order_try_from_def)
  show "group_order_to_wire c = v" if "group_order_try_from v = Inr c" for v c
    using that by (auto simp: group_order_try_from_def split: if_splits)
qed

subsection \<open>Track status codes\<close>

text \<open>Track status codes (\<open>model/control/constant.rs\<close>).\<close>

datatype track_status_code =
    TSC_InProgress
  | TSC_DoesNotExist
  | TSC_NotYetBegun
  | TSC_Finished
  | TSC_RelayUnavailable

fun track_status_code_to_wire :: "track_status_code \<Rightarrow> u64" where
  "track_status_code_to_wire TSC_InProgress = 0x0"
| "track_status_code_to_wire TSC_DoesNotExist = 0x1"
| "track_status_code_to_wire TSC_NotYetBegun = 0x2"
| "track_status_code_to_wire TSC_Finished = 0x3"
| "track_status_code_to_wire TSC_RelayUnavailable = 0x4"

definition track_status_code_try_from :: "u64 \<Rightarrow> track_status_code res" where
  "track_status_code_try_from v =
     (if v = 0x0 then Inr TSC_InProgress
      else if v = 0x1 then Inr TSC_DoesNotExist
      else if v = 0x2 then Inr TSC_NotYetBegun
      else if v = 0x3 then Inr TSC_Finished
      else if v = 0x4 then Inr TSC_RelayUnavailable
      else Inl (InvalidType ''TrackStatusCode::try_from(u64)''))"

interpretation tsc_enum: wire_enum track_status_code_to_wire track_status_code_try_from
proof
  show "track_status_code_try_from (track_status_code_to_wire c) = Inr c" for c
    by (cases c) (simp_all add: track_status_code_try_from_def)
  show "track_status_code_to_wire c = v" if "track_status_code_try_from v = Inr c" for v c
    using that by (auto simp: track_status_code_try_from_def split: if_splits)
qed

subsection \<open>PUBLISH_DONE status codes\<close>

text \<open>PUBLISH_DONE status codes (\<open>model/control/constant.rs\<close>).\<close>

datatype publish_done_status_code =
    PDS_InternalError
  | PDS_Unauthorized
  | PDS_TrackEnded
  | PDS_GoingAway
  | PDS_TooFarBehind
  | PDS_Expired
  | PDS_UpdateFailed
  | PDS_ExcessiveLoad
  | PDS_MalformedTrack

fun publish_done_status_code_to_wire :: "publish_done_status_code \<Rightarrow> u64" where
  "publish_done_status_code_to_wire PDS_InternalError = 0x0"
| "publish_done_status_code_to_wire PDS_Unauthorized = 0x1"
| "publish_done_status_code_to_wire PDS_TrackEnded = 0x2"
| "publish_done_status_code_to_wire PDS_GoingAway = 0x4"
| "publish_done_status_code_to_wire PDS_TooFarBehind = 0x5"
| "publish_done_status_code_to_wire PDS_Expired = 0x6"
| "publish_done_status_code_to_wire PDS_UpdateFailed = 0x8"
| "publish_done_status_code_to_wire PDS_ExcessiveLoad = 0x9"
| "publish_done_status_code_to_wire PDS_MalformedTrack = 0x12"

definition publish_done_status_code_try_from :: "u64 \<Rightarrow> publish_done_status_code res" where
  "publish_done_status_code_try_from v =
     (if v = 0x0 then Inr PDS_InternalError
      else if v = 0x1 then Inr PDS_Unauthorized
      else if v = 0x2 then Inr PDS_TrackEnded
      else if v = 0x4 then Inr PDS_GoingAway
      else if v = 0x5 then Inr PDS_TooFarBehind
      else if v = 0x6 then Inr PDS_Expired
      else if v = 0x8 then Inr PDS_UpdateFailed
      else if v = 0x9 then Inr PDS_ExcessiveLoad
      else if v = 0x12 then Inr PDS_MalformedTrack
      else Inl (InvalidType ''PublishDoneStatusCode::try_from(u64)''))"

interpretation pds_enum: wire_enum publish_done_status_code_to_wire publish_done_status_code_try_from
proof
  show "publish_done_status_code_try_from (publish_done_status_code_to_wire c) = Inr c" for c
    by (cases c) (simp_all add: publish_done_status_code_try_from_def)
  show "publish_done_status_code_to_wire c = v" if "publish_done_status_code_try_from v = Inr c" for v c
    using that by (auto simp: publish_done_status_code_try_from_def split: if_splits)
qed

text \<open>\<open>from_wire\<close>: an unknown code, GREASE included, reads as an internal error.\<close>

definition publish_done_status_code_from_wire :: "u64 \<Rightarrow> publish_done_status_code" where
  "publish_done_status_code_from_wire v =
     (case publish_done_status_code_try_from v of Inr c \<Rightarrow> c | Inl _ \<Rightarrow> PDS_InternalError)"

subsection \<open>LOC property identifiers\<close>

text \<open>LOC property identifiers (\<open>model/property/constant.rs\<close>).\<close>

datatype loc_property_id =
    LOCP_Timescale
  | LOCP_VideoFrameMarking
  | LOCP_AudioLevel
  | LOCP_VideoConfig
  | LOCP_AudioConfig
  | LOCP_Timestamp

fun loc_property_id_to_wire :: "loc_property_id \<Rightarrow> u64" where
  "loc_property_id_to_wire LOCP_Timescale = 0x8"
| "loc_property_id_to_wire LOCP_VideoFrameMarking = 0x9"
| "loc_property_id_to_wire LOCP_AudioLevel = 0xC"
| "loc_property_id_to_wire LOCP_VideoConfig = 0xD"
| "loc_property_id_to_wire LOCP_AudioConfig = 0xF"
| "loc_property_id_to_wire LOCP_Timestamp = 0x10"

definition loc_property_id_try_from :: "u64 \<Rightarrow> loc_property_id res" where
  "loc_property_id_try_from v =
     (if v = 0x8 then Inr LOCP_Timescale
      else if v = 0x9 then Inr LOCP_VideoFrameMarking
      else if v = 0xC then Inr LOCP_AudioLevel
      else if v = 0xD then Inr LOCP_VideoConfig
      else if v = 0xF then Inr LOCP_AudioConfig
      else if v = 0x10 then Inr LOCP_Timestamp
      else Inl (InvalidType ''LOCPropertyId::try_from(u64)''))"

interpretation locp_enum: wire_enum loc_property_id_to_wire loc_property_id_try_from
proof
  show "loc_property_id_try_from (loc_property_id_to_wire c) = Inr c" for c
    by (cases c) (simp_all add: loc_property_id_try_from_def)
  show "loc_property_id_to_wire c = v" if "loc_property_id_try_from v = Inr c" for v c
    using that by (auto simp: loc_property_id_try_from_def split: if_splits)
qed

subsection \<open>Property types\<close>

text \<open>Property types (\<open>model/property/constant.rs\<close>).\<close>

datatype track_property_type =
    TPT_ObjectDeliveryTimeout
  | TPT_MaxCacheDuration
  | TPT_SubgroupDeliveryTimeout
  | TPT_ImmutableProperties
  | TPT_DefaultPublisherPriority
  | TPT_DefaultPublisherGroupOrder
  | TPT_DynamicGroups
  | TPT_PriorGroupIdGap
  | TPT_PriorObjectIdGap

fun track_property_type_to_wire :: "track_property_type \<Rightarrow> u64" where
  "track_property_type_to_wire TPT_ObjectDeliveryTimeout = 0x2"
| "track_property_type_to_wire TPT_MaxCacheDuration = 0x4"
| "track_property_type_to_wire TPT_SubgroupDeliveryTimeout = 0x6"
| "track_property_type_to_wire TPT_ImmutableProperties = 0xB"
| "track_property_type_to_wire TPT_DefaultPublisherPriority = 0xE"
| "track_property_type_to_wire TPT_DefaultPublisherGroupOrder = 0x22"
| "track_property_type_to_wire TPT_DynamicGroups = 0x30"
| "track_property_type_to_wire TPT_PriorGroupIdGap = 0x3C"
| "track_property_type_to_wire TPT_PriorObjectIdGap = 0x3E"

definition track_property_type_try_from :: "u64 \<Rightarrow> track_property_type res" where
  "track_property_type_try_from v =
     (if v = 0x2 then Inr TPT_ObjectDeliveryTimeout
      else if v = 0x4 then Inr TPT_MaxCacheDuration
      else if v = 0x6 then Inr TPT_SubgroupDeliveryTimeout
      else if v = 0xB then Inr TPT_ImmutableProperties
      else if v = 0xE then Inr TPT_DefaultPublisherPriority
      else if v = 0x22 then Inr TPT_DefaultPublisherGroupOrder
      else if v = 0x30 then Inr TPT_DynamicGroups
      else if v = 0x3C then Inr TPT_PriorGroupIdGap
      else if v = 0x3E then Inr TPT_PriorObjectIdGap
      else Inl (InvalidType ''TrackPropertyType::try_from(u64)''))"

interpretation tpt_enum: wire_enum track_property_type_to_wire track_property_type_try_from
proof
  show "track_property_type_try_from (track_property_type_to_wire c) = Inr c" for c
    by (cases c) (simp_all add: track_property_type_try_from_def)
  show "track_property_type_to_wire c = v" if "track_property_type_try_from v = Inr c" for v c
    using that by (auto simp: track_property_type_try_from_def split: if_splits)
qed

subsection \<open>SETUP option types\<close>

text \<open>SETUP option types (\<open>model/parameter/constant.rs\<close>).\<close>

datatype setup_option_type =
    SOT_Path
  | SOT_AuthorizationToken
  | SOT_MaxAuthTokenCacheSize
  | SOT_Authority
  | SOT_MaxFilterRanges
  | SOT_MoqtImplementation
  | SOT_MaxRequestUpdates
  | SOT_SstsAlgorithms

fun setup_option_type_to_wire :: "setup_option_type \<Rightarrow> u64" where
  "setup_option_type_to_wire SOT_Path = 0x1"
| "setup_option_type_to_wire SOT_AuthorizationToken = 0x3"
| "setup_option_type_to_wire SOT_MaxAuthTokenCacheSize = 0x4"
| "setup_option_type_to_wire SOT_Authority = 0x5"
| "setup_option_type_to_wire SOT_MaxFilterRanges = 0x6"
| "setup_option_type_to_wire SOT_MoqtImplementation = 0x7"
| "setup_option_type_to_wire SOT_MaxRequestUpdates = 0x8"
| "setup_option_type_to_wire SOT_SstsAlgorithms = 0x9"

definition setup_option_type_try_from :: "u64 \<Rightarrow> setup_option_type res" where
  "setup_option_type_try_from v =
     (if v = 0x1 then Inr SOT_Path
      else if v = 0x3 then Inr SOT_AuthorizationToken
      else if v = 0x4 then Inr SOT_MaxAuthTokenCacheSize
      else if v = 0x5 then Inr SOT_Authority
      else if v = 0x6 then Inr SOT_MaxFilterRanges
      else if v = 0x7 then Inr SOT_MoqtImplementation
      else if v = 0x8 then Inr SOT_MaxRequestUpdates
      else if v = 0x9 then Inr SOT_SstsAlgorithms
      else Inl (InvalidType ''SetupOptionType::try_from(u64)''))"

interpretation sot_enum: wire_enum setup_option_type_to_wire setup_option_type_try_from
proof
  show "setup_option_type_try_from (setup_option_type_to_wire c) = Inr c" for c
    by (cases c) (simp_all add: setup_option_type_try_from_def)
  show "setup_option_type_to_wire c = v" if "setup_option_type_try_from v = Inr c" for v c
    using that by (auto simp: setup_option_type_try_from_def split: if_splits)
qed

subsection \<open>Message parameter types\<close>

text \<open>Message parameter types (\<open>model/parameter/constant.rs\<close>).\<close>

datatype message_parameter_type =
    MPT_ObjectDeliveryTimeout
  | MPT_AuthorizationToken
  | MPT_RendezvousTimeout
  | MPT_SubgroupDeliveryTimeout
  | MPT_Expires
  | MPT_LargestObject
  | MPT_FillTimeout
  | MPT_Forward
  | MPT_SubscriberPriority
  | MPT_LocationFilter
  | MPT_GroupOrder
  | MPT_FillParameters
  | MPT_SwitchFrom
  | MPT_SubgroupFilter
  | MPT_ObjectIdFilter
  | MPT_PriorityFilter
  | MPT_ObjectPropertyFilter
  | MPT_TrackPropertyFilter
  | MPT_NewGroupRequest
  | MPT_TrackNamespacePrefix
  | MPT_IncludeProperties
  | MPT_SwitchingSetAssignment

fun message_parameter_type_to_wire :: "message_parameter_type \<Rightarrow> u64" where
  "message_parameter_type_to_wire MPT_ObjectDeliveryTimeout = 0x2"
| "message_parameter_type_to_wire MPT_AuthorizationToken = 0x3"
| "message_parameter_type_to_wire MPT_RendezvousTimeout = 0x4"
| "message_parameter_type_to_wire MPT_SubgroupDeliveryTimeout = 0x6"
| "message_parameter_type_to_wire MPT_Expires = 0x8"
| "message_parameter_type_to_wire MPT_LargestObject = 0x9"
| "message_parameter_type_to_wire MPT_FillTimeout = 0xA"
| "message_parameter_type_to_wire MPT_Forward = 0x10"
| "message_parameter_type_to_wire MPT_SubscriberPriority = 0x20"
| "message_parameter_type_to_wire MPT_LocationFilter = 0x21"
| "message_parameter_type_to_wire MPT_GroupOrder = 0x22"
| "message_parameter_type_to_wire MPT_FillParameters = 0x23"
| "message_parameter_type_to_wire MPT_SwitchFrom = 0x24"
| "message_parameter_type_to_wire MPT_SubgroupFilter = 0x25"
| "message_parameter_type_to_wire MPT_ObjectIdFilter = 0x26"
| "message_parameter_type_to_wire MPT_PriorityFilter = 0x27"
| "message_parameter_type_to_wire MPT_ObjectPropertyFilter = 0x28"
| "message_parameter_type_to_wire MPT_TrackPropertyFilter = 0x29"
| "message_parameter_type_to_wire MPT_NewGroupRequest = 0x32"
| "message_parameter_type_to_wire MPT_TrackNamespacePrefix = 0x34"
| "message_parameter_type_to_wire MPT_IncludeProperties = 0x35"
| "message_parameter_type_to_wire MPT_SwitchingSetAssignment = 0x41"

definition message_parameter_type_try_from :: "u64 \<Rightarrow> message_parameter_type res" where
  "message_parameter_type_try_from v =
     (if v = 0x2 then Inr MPT_ObjectDeliveryTimeout
      else if v = 0x3 then Inr MPT_AuthorizationToken
      else if v = 0x4 then Inr MPT_RendezvousTimeout
      else if v = 0x6 then Inr MPT_SubgroupDeliveryTimeout
      else if v = 0x8 then Inr MPT_Expires
      else if v = 0x9 then Inr MPT_LargestObject
      else if v = 0xA then Inr MPT_FillTimeout
      else if v = 0x10 then Inr MPT_Forward
      else if v = 0x20 then Inr MPT_SubscriberPriority
      else if v = 0x21 then Inr MPT_LocationFilter
      else if v = 0x22 then Inr MPT_GroupOrder
      else if v = 0x23 then Inr MPT_FillParameters
      else if v = 0x24 then Inr MPT_SwitchFrom
      else if v = 0x25 then Inr MPT_SubgroupFilter
      else if v = 0x26 then Inr MPT_ObjectIdFilter
      else if v = 0x27 then Inr MPT_PriorityFilter
      else if v = 0x28 then Inr MPT_ObjectPropertyFilter
      else if v = 0x29 then Inr MPT_TrackPropertyFilter
      else if v = 0x32 then Inr MPT_NewGroupRequest
      else if v = 0x34 then Inr MPT_TrackNamespacePrefix
      else if v = 0x35 then Inr MPT_IncludeProperties
      else if v = 0x41 then Inr MPT_SwitchingSetAssignment
      else Inl (InvalidType ''MessageParameterType::try_from(u64)''))"

interpretation mpt_enum: wire_enum message_parameter_type_to_wire message_parameter_type_try_from
proof
  show "message_parameter_type_try_from (message_parameter_type_to_wire c) = Inr c" for c
    by (cases c) (simp_all add: message_parameter_type_try_from_def)
  show "message_parameter_type_to_wire c = v" if "message_parameter_type_try_from v = Inr c" for v c
    using that by (auto simp: message_parameter_type_try_from_def split: if_splits)
qed

subsection \<open>Token alias types\<close>

text \<open>Token alias types (\<open>model/parameter/constant.rs\<close>).\<close>

datatype token_alias_type =
    TAT_Delete
  | TAT_Register
  | TAT_UseAlias
  | TAT_UseValue

fun token_alias_type_to_wire :: "token_alias_type \<Rightarrow> u64" where
  "token_alias_type_to_wire TAT_Delete = 0x0"
| "token_alias_type_to_wire TAT_Register = 0x1"
| "token_alias_type_to_wire TAT_UseAlias = 0x2"
| "token_alias_type_to_wire TAT_UseValue = 0x3"

definition token_alias_type_try_from :: "u64 \<Rightarrow> token_alias_type res" where
  "token_alias_type_try_from v =
     (if v = 0x0 then Inr TAT_Delete
      else if v = 0x1 then Inr TAT_Register
      else if v = 0x2 then Inr TAT_UseAlias
      else if v = 0x3 then Inr TAT_UseValue
      else Inl (InvalidType ''TokenAliasType::try_from(u64)''))"

interpretation tat_enum: wire_enum token_alias_type_to_wire token_alias_type_try_from
proof
  show "token_alias_type_try_from (token_alias_type_to_wire c) = Inr c" for c
    by (cases c) (simp_all add: token_alias_type_try_from_def)
  show "token_alias_type_to_wire c = v" if "token_alias_type_try_from v = Inr c" for v c
    using that by (auto simp: token_alias_type_try_from_def split: if_splits)
qed

subsection \<open>Object status\<close>

text \<open>Object status (\<open>model/data/constant.rs\<close>).\<close>

datatype object_status =
    OS_Normal
  | OS_EndOfGroup
  | OS_EndOfTrack

fun object_status_to_wire :: "object_status \<Rightarrow> u64" where
  "object_status_to_wire OS_Normal = 0x0"
| "object_status_to_wire OS_EndOfGroup = 0x3"
| "object_status_to_wire OS_EndOfTrack = 0x4"

definition object_status_try_from :: "u64 \<Rightarrow> object_status res" where
  "object_status_try_from v =
     (if v = 0x0 then Inr OS_Normal
      else if v = 0x3 then Inr OS_EndOfGroup
      else if v = 0x4 then Inr OS_EndOfTrack
      else Inl (InvalidType ''ObjectStatus::try_from(u8)''))"

interpretation os_enum: wire_enum object_status_to_wire object_status_try_from
proof
  show "object_status_try_from (object_status_to_wire c) = Inr c" for c
    by (cases c) (simp_all add: object_status_try_from_def)
  show "object_status_to_wire c = v" if "object_status_try_from v = Inr c" for v c
    using that by (auto simp: object_status_try_from_def split: if_splits)
qed

subsection \<open>Session termination codes and GREASE\<close>

text \<open>Session termination codes are only ever written (\<open>model/error/termination.rs\<close>).\<close>

datatype termination_code =
    TC_NoError
  | TC_InternalError
  | TC_Unauthorized
  | TC_ProtocolViolation
  | TC_InvalidRequestID
  | TC_DuplicateTrackAlias
  | TC_KeyValueFormattingError
  | TC_InvalidPath
  | TC_MalformedPath
  | TC_GoawayTimeout
  | TC_ControlMessageTimeout
  | TC_DataStreamTimeout
  | TC_AuthTokenCacheOverflow
  | TC_DuplicateAuthTokenAlias
  | TC_VersionNegotiationFailed
  | TC_MalformedAuthToken
  | TC_UnknownAuthTokenAlias
  | TC_ExpiredAuthToken
  | TC_InvalidAuthority
  | TC_MalformedAuthority
  | TC_TooManyRequestUpdates

fun termination_code_to_u32 :: "termination_code \<Rightarrow> 32 word" where
  "termination_code_to_u32 TC_NoError = 0x0"
| "termination_code_to_u32 TC_InternalError = 0x1"
| "termination_code_to_u32 TC_Unauthorized = 0x2"
| "termination_code_to_u32 TC_ProtocolViolation = 0x3"
| "termination_code_to_u32 TC_InvalidRequestID = 0x4"
| "termination_code_to_u32 TC_DuplicateTrackAlias = 0x5"
| "termination_code_to_u32 TC_KeyValueFormattingError = 0x6"
| "termination_code_to_u32 TC_InvalidPath = 0x8"
| "termination_code_to_u32 TC_MalformedPath = 0x9"
| "termination_code_to_u32 TC_GoawayTimeout = 0x10"
| "termination_code_to_u32 TC_ControlMessageTimeout = 0x11"
| "termination_code_to_u32 TC_DataStreamTimeout = 0x12"
| "termination_code_to_u32 TC_AuthTokenCacheOverflow = 0x13"
| "termination_code_to_u32 TC_DuplicateAuthTokenAlias = 0x14"
| "termination_code_to_u32 TC_VersionNegotiationFailed = 0x15"
| "termination_code_to_u32 TC_MalformedAuthToken = 0x16"
| "termination_code_to_u32 TC_UnknownAuthTokenAlias = 0x17"
| "termination_code_to_u32 TC_ExpiredAuthToken = 0x18"
| "termination_code_to_u32 TC_InvalidAuthority = 0x19"
| "termination_code_to_u32 TC_MalformedAuthority = 0x1A"
| "termination_code_to_u32 TC_TooManyRequestUpdates = 0x1B"

text \<open>Reserved GREASE values (\<open>model/common/grease.rs\<close>).\<close>

definition GREASE_STEP :: u64 where
  "GREASE_STEP = 0x7f"

definition GREASE_BASE :: u64 where
  "GREASE_BASE = 0x9d"

definition is_grease :: "u64 \<Rightarrow> bool" where
  "is_grease v \<longleftrightarrow> v \<ge> GREASE_BASE \<and> (v - GREASE_BASE) mod GREASE_STEP = 0"

definition grease_value :: "u64 \<Rightarrow> u64 option" where
  "grease_value n = Option.bind (checked_mul GREASE_STEP n) (\<lambda>m. checked_add m GREASE_BASE)"

subsection \<open>Properties\<close>

text \<open>Unknown codes are never fatal: in both registries \<open>from_wire\<close> yields a code exactly
  for its own number, except that every number outside the registry, and no other, also
  reads as the internal error.\<close>

lemma from_wire_exact:
  "(request_error_code_from_wire v = c
      \<longleftrightarrow> v = request_error_code_to_wire c
        \<or> (c = REC_InternalError \<and> v \<notin> range request_error_code_to_wire))
   \<and> (publish_done_status_code_from_wire v = d
      \<longleftrightarrow> v = publish_done_status_code_to_wire d
        \<or> (d = PDS_InternalError \<and> v \<notin> range publish_done_status_code_to_wire))"
  using rec_enum.rejects_iff [of v] rec_enum.accepts_iff [of v]
    pds_enum.rejects_iff [of v] pds_enum.accepts_iff [of v]
  by (auto simp: request_error_code_from_wire_def publish_done_status_code_from_wire_def
      rec_enum.to_wire_inj pds_enum.to_wire_inj split: sum.splits)

text \<open>\<open>is_grease\<close> recognises exactly the values \<open>grease_value\<close> produces.\<close>

lemma is_grease_iff: "is_grease v \<longleftrightarrow> (\<exists>n. grease_value n = Some v)"
proof
  assume g: "is_grease v"
  define n where "n = (v - GREASE_BASE) div GREASE_STEP"
  have v: "unat v = 127 * unat n + 157"
  proof -
    from g have le: "157 \<le> v" and "(v - 157) mod 127 = 0"
      by (simp_all add: is_grease_def GREASE_BASE_def GREASE_STEP_def)
    then have "unat (v - 157) = 127 * (unat (v - 157) div 127)"
      by (simp add: word_unat_eq_iff unat_mod mult.commute [of 127] minus_mod_eq_div_mult [symmetric])
    with le show ?thesis
      by (simp add: n_def GREASE_BASE_def GREASE_STEP_def unat_div unat_sub word_le_nat_alt)
  qed
  have "unat v < 18446744073709551616" by simp
  with v have "127 * unat n < 18446744073709551616" by linarith
  then have "unat (127 * n) = 127 * unat n" by (simp add: unat_word_ariths)
  then have "checked_mul 127 n = Some (127 * n)" and "checked_add (127 * n) 157 = Some v"
    using v by (simp_all add: wrap_simps)
  then show "\<exists>n. grease_value n = Some v"
    by (intro exI [of _ n]) (simp add: grease_value_def GREASE_BASE_def GREASE_STEP_def)
next
  assume "\<exists>n. grease_value n = Some v"
  then obtain n m where "checked_mul 127 n = Some m" "checked_add m 157 = Some v"
    by (auto simp: grease_value_def GREASE_BASE_def GREASE_STEP_def Option.bind_eq_Some_conv)
  then have v: "unat v = 127 * unat n + 157" by (simp add: wrap_simps)
  then have "157 \<le> v" by (simp add: word_le_nat_alt)
  with v show "is_grease v"
    by (simp add: is_grease_def GREASE_BASE_def GREASE_STEP_def word_unat_eq_iff unat_mod unat_sub)
qed

end
