(* ===== verification/Seen_Objects.thy ===== *)
theory Seen_Objects
  imports Locations
begin

text \<open>
  Duplicate detection of the relay (\<open>apps/relay/src/server/seen_objects.rs\<close>): a ring of
  group slots, each holding a bitmap of Object IDs that starts inline (256 bits) and is
  promoted once to a circular window (4096 bits). Each slot has its own lock and the test
  and the record are one operation under it, so concurrent publishers are modelled by a
  sequence of atomic calls. Arrays are lists of 64-bit words, bit operations are the word
  operations of the source; \<open>usize\<close> indices are \<open>nat\<close>.

  The bitmap is refined to an abstract set of remembered IDs with a high-water mark, and the
  ring to the whole history of calls, which gives an exact characterisation of when a call
  answers "duplicate".
\<close>

subsection \<open>Data\<close>

definition INLINE_BITS :: u64 where
  "INLINE_BITS = 256"

definition INLINE_WORDS :: nat where
  "INLINE_WORDS = unat (INLINE_BITS div 64)"

definition WINDOW_BITS :: u64 where
  "WINDOW_BITS = 4096"

definition WINDOW_WORDS :: nat where
  "WINDOW_WORDS = unat (WINDOW_BITS div 64)"

datatype group_bits =
    Inline "u64 list"
  | Window u64 "u64 list"

record group_state =
  gs_group :: u64
  gs_bits :: group_bits

text \<open>The ring of slots; an empty slot is \<open>None\<close>.\<close>

type_synonym seen_objects = "group_state option list"

subsection \<open>Operations\<close>

definition bit_is_set :: "u64 list \<Rightarrow> u64 \<Rightarrow> bool" where
  "bit_is_set ws i \<longleftrightarrow> ws ! unat (drop_bit 6 i) AND push_bit (unat (i AND 63)) 1 \<noteq> 0"

definition set_bit_at :: "u64 list \<Rightarrow> u64 \<Rightarrow> u64 list" where
  "set_bit_at ws i =
     (let k = unat (drop_bit 6 i) in ws[k := ws ! k OR push_bit (unat (i AND 63)) 1])"

definition clear_bit_at :: "u64 list \<Rightarrow> u64 \<Rightarrow> u64 list" where
  "clear_bit_at ws i =
     (let k = unat (drop_bit 6 i) in ws[k := ws ! k AND NOT (push_bit (unat (i AND 63)) 1)])"

text \<open>Returns the answer, the new high-water mark and the new words.\<close>

definition window_test_and_set :: "u64 \<Rightarrow> u64 list \<Rightarrow> u64 \<Rightarrow> bool \<times> u64 \<times> u64 list" where
  "window_test_and_set high ws i =
     (if i > high then
        (let ws1 = (if i - high \<ge> WINDOW_BITS then map (\<lambda>_. 0) ws
                    else fold (\<lambda>displaced ws. clear_bit_at ws (displaced mod WINDOW_BITS))
                           (map word_of_nat [unat (high + 1)..<Suc (unat i)]) ws)
         in (False, i, set_bit_at ws1 (i mod WINDOW_BITS)))
      else if high - i \<ge> WINDOW_BITS then (False, high, ws)
      else
        (let index = i mod WINDOW_BITS
         in (bit_is_set ws index, high, set_bit_at ws index)))"

definition promote :: "u64 list \<Rightarrow> group_bits" where
  "promote ws =
     Window (INLINE_BITS - 1)
       (fold (\<lambda>i window. if bit_is_set ws i then set_bit_at window (i mod WINDOW_BITS) else window)
          (map word_of_nat [0..<unat INLINE_BITS]) (replicate WINDOW_WORDS 0))"

fun window_step :: "group_bits \<Rightarrow> u64 \<Rightarrow> bool \<times> group_bits" where
  "window_step (Window high ws) i =
     (case window_test_and_set high ws i of (seen, high', ws') \<Rightarrow> (seen, Window high' ws'))"
| "window_step (Inline ws) i = (False, Inline ws)"

text \<open>The recursive call after promotion always meets a \<open>Window\<close>.\<close>

fun test_and_set :: "group_bits \<Rightarrow> u64 \<Rightarrow> bool \<times> group_bits" where
  "test_and_set (Inline ws) i =
     (if i < INLINE_BITS then (bit_is_set ws i, Inline (set_bit_at ws i))
      else window_step (promote ws) i)"
| "test_and_set (Window high ws) i = window_step (Window high ws) i"

definition group_state_new :: "u64 \<Rightarrow> u64 \<Rightarrow> group_state" where
  "group_state_new g first_object =
     (let bits = (if first_object < INLINE_BITS then Inline (replicate INLINE_WORDS 0)
                  else Window first_object (replicate WINDOW_WORDS 0))
      in \<lparr> gs_group = g, gs_bits = snd (test_and_set bits first_object) \<rparr>)"

definition seen_objects_new :: "nat \<Rightarrow> seen_objects" where
  "seen_objects_new retained_groups = replicate retained_groups None"

definition is_duplicate :: "seen_objects \<Rightarrow> location \<Rightarrow> bool \<times> seen_objects" where
  "is_duplicate slots l =
     (if slots = [] then (False, slots)
      else
        (let index = unat (l_group l mod word_of_nat (length slots))
         in case slots ! index of
              Some st \<Rightarrow>
                if gs_group st = l_group l
                then (case test_and_set (gs_bits st) (l_object l) of
                        (seen, bits) \<Rightarrow> (seen, slots[index := Some (st\<lparr> gs_bits := bits \<rparr>)]))
                else if l_group l > gs_group st
                then (False, slots[index := Some (group_state_new (l_group l) (l_object l))])
                else (False, slots)
            | None \<Rightarrow> (False, slots[index := Some (group_state_new (l_group l) (l_object l))])))"

text \<open>A sequence of calls, in the order the slot locks serialise them.\<close>

definition seen_run :: "seen_objects \<Rightarrow> location list \<Rightarrow> seen_objects" where
  "seen_run slots ls = fold (\<lambda>l s. snd (is_duplicate s l)) ls slots"

subsection \<open>Bits of a word array\<close>

text \<open>Bit \<open>k\<close> of the array, counted from the first word.\<close>

definition wbit :: "u64 list \<Rightarrow> nat \<Rightarrow> bool" where
  "wbit ws k \<longleftrightarrow> bit (ws ! (k div 64)) (k mod 64)"

lemma index_split: "unat (drop_bit 6 (i :: u64)) = unat i div 64" "unat ((i :: u64) AND 63) = unat i mod 64"
proof -
  show "unat (drop_bit 6 i) = unat i div 64"
    by (simp add: drop_bit_eq_div unat_div)
  have "i AND 63 = take_bit 6 i" by (simp add: take_bit_eq_mask mask_eq_exp_minus_1)
  then show "unat (i AND 63) = unat i mod 64"
    by (simp add: take_bit_eq_mod unat_mod)
qed

lemma and_push_bit_nonzero: "(w :: u64) AND push_bit n 1 \<noteq> 0 \<longleftrightarrow> bit w n"
proof (cases "bit w n")
  case True
  then have "bit (w AND push_bit n 1) n" by (auto simp: bit_and_iff bit_exp_iff dest: bit_imp_le_length)
  then have "w AND push_bit n 1 \<noteq> 0" by (metis bit_0_eq bot_apply bot_bool_def)
  with True show ?thesis by simp
next
  case False
  have "w AND push_bit n 1 = 0"
    by (rule bit_word_eqI) (use False in \<open>auto simp: bit_and_iff bit_exp_iff\<close>)
  with False show ?thesis by simp
qed

lemma bit_is_set_wbit: "bit_is_set ws i = wbit ws (unat i)"
  by (simp only: bit_is_set_def wbit_def index_split and_push_bit_nonzero)

lemma length_set_clear [simp]:
  "length (set_bit_at ws i) = length ws" "length (clear_bit_at ws i) = length ws"
  by (simp_all add: set_bit_at_def clear_bit_at_def Let_def)

lemma div_mod_64_eq: "(j :: nat) div 64 = k div 64 \<and> j mod 64 = k mod 64 \<longleftrightarrow> j = k"
  by (metis mult_div_mod_eq)

lemma wbit_set_bit:
  assumes "unat i < 64 * length ws"
  shows "wbit (set_bit_at ws i) j \<longleftrightarrow> j = unat i \<or> wbit ws j"
  using assms div_mod_64_eq [of j "unat i"]
  by (cases "j div 64 = unat i div 64")
     (auto simp: set_bit_at_def wbit_def index_split Let_def bit_or_iff bit_exp_iff
        less_mult_imp_div_less mult.commute nth_list_update)

lemma wbit_clear_bit:
  assumes "unat i < 64 * length ws"
  shows "wbit (clear_bit_at ws i) j \<longleftrightarrow> j \<noteq> unat i \<and> wbit ws j"
  using assms div_mod_64_eq [of j "unat i"]
  by (cases "j div 64 = unat i div 64")
     (auto simp: clear_bit_at_def wbit_def index_split Let_def bit_and_iff bit_not_iff
        bit_exp_iff less_mult_imp_div_less mult.commute nth_list_update)

lemma wbit_zeros [simp]: "k < 64 * n \<Longrightarrow> \<not> wbit (replicate n 0) k"
  by (simp add: wbit_def less_mult_imp_div_less mult.commute)

subsection \<open>A bitmap as a set with a high-water mark\<close>

text \<open>
  \<open>gb_high\<close> is the highest ID the bitmap can describe (the top of the inline range, or the
  window's end) and \<open>gb_abs\<close> the set of IDs it currently remembers. Both are read at \<open>nat\<close>.
\<close>

fun gb_high :: "group_bits \<Rightarrow> nat" where
  "gb_high (Inline ws) = 255"
| "gb_high (Window high ws) = unat high"

fun gb_abs :: "group_bits \<Rightarrow> nat set" where
  "gb_abs (Inline ws) = {i. i < 256 \<and> wbit ws i}"
| "gb_abs (Window high ws) = {i. i \<le> unat high \<and> unat high < i + 4096 \<and> wbit ws (i mod 4096)}"

fun gb_inv :: "group_bits \<Rightarrow> bool" where
  "gb_inv (Inline ws) \<longleftrightarrow> length ws = 4"
| "gb_inv (Window high ws) \<longleftrightarrow> length ws = 64"

lemma consts_eval [simp]:
  "INLINE_BITS = 256" "WINDOW_BITS = 4096" "INLINE_WORDS = 4" "WINDOW_WORDS = 64"
  by (simp_all add: INLINE_BITS_def WINDOW_BITS_def INLINE_WORDS_def WINDOW_WORDS_def unat_div)

lemma unat_mod_4096 [simp]: "unat ((i :: u64) mod 4096) = unat i mod 4096"
  by (simp add: unat_mod)

lemma mod_window_inj:
  assumes "(i :: nat) mod 4096 = j mod 4096" "i < j + 4096" "j < i + 4096"
  shows "i = j"
proof (rule ccontr)
  assume "i \<noteq> j"
  moreover from assms(1) have "4096 dvd (max i j - min i j)"
    using mod_eq_dvd_iff_nat [of i j 4096] mod_eq_dvd_iff_nat [of j i 4096]
    by (auto simp: max_def min_def)
  ultimately have "4096 \<le> max i j - min i j" by (intro dvd_imp_le) (auto simp: max_def min_def)
  with assms(2,3) show False by (auto simp: max_def min_def split: if_splits)
qed

lemma fold_clear:
  assumes "length ws = 64"
  shows "length (fold (\<lambda>d ws. clear_bit_at ws (d mod 4096)) ds ws) = 64
    \<and> (\<forall>k < 4096. wbit (fold (\<lambda>d ws. clear_bit_at ws (d mod 4096)) ds ws) k
         \<longleftrightarrow> wbit ws k \<and> k \<notin> (\<lambda>d. unat d mod 4096) ` set ds)"
  using assms by (induction ds arbitrary: ws) (auto simp: wbit_clear_bit)

lemma wbit_map_zero [simp]: "k < 64 * length ws \<Longrightarrow> \<not> wbit (map (\<lambda>_. 0) ws) k"
  by (simp add: wbit_def less_mult_imp_div_less mult.commute)

text \<open>What one call does to a window, at the level of sets.\<close>

definition remember :: "nat \<Rightarrow> nat set \<Rightarrow> nat \<Rightarrow> nat set" where
  "remember high S i = {j \<in> insert i S. max high i < j + 4096}"

lemma displaced_positions:
  assumes "n < 18446744073709551616"
  shows "(\<lambda>d. unat (d :: u64) mod 4096) ` set (map word_of_nat [Suc h..<Suc n])
      = (\<lambda>d. d mod 4096) ` {h<..n}"
proof -
  have "(\<lambda>d. unat (d :: u64) mod 4096) ` set (map word_of_nat [Suc h..<Suc n])
      = (\<lambda>d. unat (word_of_nat d :: u64) mod 4096) ` {Suc h..<Suc n}"
    by (simp only: set_map set_upt image_image)
  also have "\<dots> = (\<lambda>d. d mod 4096) ` {Suc h..<Suc n}"
    using assms by (intro image_cong) auto
  also have "{Suc h..<Suc n} = {h<..n}" by auto
  finally show ?thesis .
qed

lemma window_slide_bits:
  assumes len: "length ws = 64" and less: "high < i"
    and ws1: "ws1 = (if i - high \<ge> WINDOW_BITS then map (\<lambda>_. 0) ws
                else fold (\<lambda>d ws. clear_bit_at ws (d mod WINDOW_BITS))
                       (map word_of_nat [unat (high + 1)..<Suc (unat i)]) ws)"
  shows "length ws1 = 64"
    and "\<And>j. j < unat i \<Longrightarrow> unat i < j + 4096 \<Longrightarrow>
           wbit ws1 (j mod 4096) \<longleftrightarrow> j \<le> unat high \<and> wbit ws (j mod 4096)"
proof -
  from less have less': "unat high < unat i" and "unat (i - high) = unat i - unat high"
    by (simp_all add: word_less_nat_alt unat_sub word_le_nat_alt)
  then have wide: "i - high \<ge> WINDOW_BITS \<longleftrightarrow> 4096 \<le> unat i - unat high"
    by (simp add: word_le_nat_alt)
  have "unat (high + 1) = Suc (unat high)"
    using less' unat_u64_less [of i] by (simp add: unat_word_ariths del: unat_u64_less)
  then have displaced: "(\<lambda>d. unat (d :: u64) mod 4096) ` set (map word_of_nat [unat (high + 1)..<Suc (unat i)])
      = (\<lambda>d. d mod 4096) ` {unat high<..unat i}"
    by (simp only: displaced_positions [OF unat_u64_less])
  show "length ws1 = 64" using len fold_clear [OF len] by (simp add: ws1)
  fix j assume j: "j < unat i" "unat i < j + 4096"
  show "wbit ws1 (j mod 4096) \<longleftrightarrow> j \<le> unat high \<and> wbit ws (j mod 4096)"
  proof (cases "4096 \<le> unat i - unat high")
    case True
    with wide len j show ?thesis by (auto simp: ws1)
  next
    case False
    with wide have "wbit ws1 (j mod 4096) \<longleftrightarrow>
        wbit ws (j mod 4096) \<and> j mod 4096 \<notin> (\<lambda>d. d mod 4096) ` {unat high<..unat i}"
      using fold_clear [OF len] displaced by (simp add: ws1)
    moreover have "j mod 4096 \<in> (\<lambda>d. d mod 4096) ` {unat high<..unat i} \<longleftrightarrow> unat high < j"
      using mod_window_inj [of j] j by (fastforce simp: image_iff)
    ultimately show ?thesis by auto
  qed
qed

lemma window_test_and_set_refines:
  assumes len: "length ws = 64" and run: "window_test_and_set high ws i = (seen, high', ws')"
  shows "length ws' = 64 \<and> unat high' = max (unat high) (unat i)
    \<and> (seen \<longleftrightarrow> unat i \<in> gb_abs (Window high ws))
    \<and> gb_abs (Window high' ws') = remember (unat high) (gb_abs (Window high ws)) (unat i)"
proof (cases "high < i")
  case True
  define ws1 where "ws1 = (if i - high \<ge> WINDOW_BITS then map (\<lambda>_. 0) ws
                else fold (\<lambda>d ws. clear_bit_at ws (d mod WINDOW_BITS))
                       (map word_of_nat [unat (high + 1)..<Suc (unat i)]) ws)"
  note bits = window_slide_bits [OF len True ws1_def]
  from True run have out: "\<not> seen" "high' = i" "ws' = set_bit_at ws1 (i mod 4096)"
    by (auto simp: window_test_and_set_def ws1_def Let_def)
  have "wbit ws' (j mod 4096) \<longleftrightarrow> j = unat i \<or> (j \<le> unat high \<and> wbit ws (j mod 4096))"
    if "j \<le> unat i" "unat i < j + 4096" for j
    using that bits mod_window_inj [of j "unat i"]
    by (cases "j = unat i") (auto simp: out wbit_set_bit)
  then show ?thesis
    using True out bits(1) by (auto simp: remember_def word_less_nat_alt max_def)
next
  case False
  then have le: "unat i \<le> unat high" and "unat (high - i) = unat high - unat i"
    by (simp_all add: word_less_nat_alt not_less unat_sub word_le_nat_alt)
  then have old: "high - i \<ge> WINDOW_BITS \<longleftrightarrow> unat i + 4096 \<le> unat high"
    by (auto simp: word_le_nat_alt)
  show ?thesis
  proof (cases "unat i + 4096 \<le> unat high")
    case True
    with False old run len le show ?thesis
      by (auto simp: window_test_and_set_def remember_def max_def)
  next
    case inside: False
    with False old run have out: "seen = bit_is_set ws (i mod 4096)" "high' = high"
      "ws' = set_bit_at ws (i mod 4096)"
      by (auto simp: window_test_and_set_def Let_def)
    have "wbit ws' (j mod 4096) \<longleftrightarrow> j = unat i \<or> wbit ws (j mod 4096)"
      if "j \<le> unat high" "unat high < j + 4096" for j
      using that le inside len mod_window_inj [of j "unat i"]
      by (cases "j = unat i") (auto simp: out wbit_set_bit)
    then show ?thesis
      using le inside out len by (auto simp: remember_def max_def bit_is_set_wbit)
  qed
qed

lemma fold_promote:
  assumes "length win = 64" "\<forall>d \<in> set ds. unat (d :: u64) < 256"
  shows "length (fold (\<lambda>i win. if bit_is_set ws i then set_bit_at win (i mod 4096) else win) ds win) = 64
    \<and> (\<forall>k. wbit (fold (\<lambda>i win. if bit_is_set ws i then set_bit_at win (i mod 4096) else win) ds win) k
         \<longleftrightarrow> wbit win k \<or> (k \<in> unat ` set ds \<and> wbit ws k))"
  using assms
proof (induction ds arbitrary: win)
  case Nil
  then show ?case by simp
next
  case (Cons d ds)
  let ?win = "if bit_is_set ws d then set_bit_at win (d mod 4096) else win"
  from Cons.prems have "wbit ?win k \<longleftrightarrow> wbit win k \<or> (k = unat d \<and> wbit ws k)" for k
    by (auto simp: wbit_set_bit bit_is_set_wbit)
  with Cons.IH [of ?win] Cons.prems show ?case by auto
qed

lemma promote_refines:
  assumes "length ws = 4"
  obtains ws' where "promote ws = Window 255 ws'" "length ws' = 64"
    "gb_abs (Window 255 ws') = gb_abs (Inline ws)"
proof -
  let ?ds = "map word_of_nat [0..<256] :: u64 list"
  have ds: "unat ` set ?ds = {..<256}" by (force simp: image_iff)
  then have small: "\<forall>d \<in> set ?ds. unat d < 256" by blast
  define ws' where
    "ws' = fold (\<lambda>i win. if bit_is_set ws i then set_bit_at win (i mod 4096) else win) ?ds (replicate 64 0)"
  have "length ws' = 64" and "wbit ws' k \<longleftrightarrow> k < 256 \<and> wbit ws k" if "k < 4096" for k
    using fold_promote [OF length_replicate small, of ws 0] ds that by (auto simp: ws'_def)
  from this [of 0] this show thesis
    by (intro that [of ws']) (auto simp: promote_def [unfolded consts_eval] ws'_def [symmetric])
qed

text \<open>
  The refinement of the bitmap: a call answers whether the ID is remembered, raises the
  high-water mark to the ID, records it, and forgets exactly what lies 4096 or more below
  the mark.
\<close>

lemma test_and_set_refines:
  assumes "gb_inv b" and "test_and_set b i = (seen, b')"
  shows "gb_inv b' \<and> gb_high b' = max (gb_high b) (unat i)
    \<and> (seen \<longleftrightarrow> unat i \<in> gb_abs b) \<and> gb_abs b' = remember (gb_high b) (gb_abs b) (unat i)"
proof (cases b)
  case (Window high ws)
  obtain s h w where run: "window_test_and_set high ws i = (s, h, w)"
    by (cases "window_test_and_set high ws i")
  from window_test_and_set_refines [OF _ run] assms Window run show ?thesis
    by (auto simp del: gb_abs.simps)
next
  case (Inline ws)
  show ?thesis
  proof (cases "i < INLINE_BITS")
    case True
    then have "unat i < 256" by (simp add: word_less_nat_alt)
    with assms Inline True show ?thesis
      by (auto simp: bit_is_set_wbit wbit_set_bit remember_def max_def)
  next
    case False
    from assms Inline obtain ws' where p: "promote ws = Window 255 ws'" "length ws' = 64"
      "gb_abs (Window 255 ws') = gb_abs b" using promote_refines [of ws] by auto
    obtain s h w where run: "window_test_and_set 255 ws' i = (s, h, w)"
      by (cases "window_test_and_set 255 ws' i")
    from window_test_and_set_refines [OF p(2) run] assms Inline False p run
    show ?thesis by (auto simp del: gb_abs.simps)
  qed
qed

text \<open>A group as a history of IDs: what it remembers is what lies within 4096 of the highest.\<close>

definition bits_of :: "group_bits \<Rightarrow> nat set \<Rightarrow> bool" where
  "bits_of b ids \<longleftrightarrow> gb_inv b \<and> finite ids \<and> gb_high b = Max (insert 255 ids)
     \<and> gb_abs b = {i \<in> ids. \<forall>j \<in> ids. j < i + 4096}"

lemma Max_less_iff_all:
  "finite A \<Longrightarrow> Max (insert (255::nat) A) < i + 4096 \<longleftrightarrow> (\<forall>j \<in> A. j < i + 4096)"
  by auto

lemma bits_of_step:
  assumes "bits_of b ids" and run: "test_and_set b i = (seen, b')"
  shows "bits_of b' (insert (unat i) ids)"
    and "seen \<longleftrightarrow> unat i \<in> ids \<and> (\<forall>j \<in> ids. j < unat i + 4096)"
proof -
  from assms(1) have inv: "gb_inv b" and fin: "finite ids"
    and high: "gb_high b = Max (insert 255 ids)"
    and abs: "gb_abs b = {i \<in> ids. \<forall>j \<in> ids. j < i + 4096}" by (auto simp: bits_of_def)
  note step = test_and_set_refines [OF inv run]
  have "gb_high b' = Max (insert 255 (insert (unat i) ids))"
    using step fin by (simp add: high insert_commute [of 255] max.commute)
  moreover have "gb_abs b' = {k \<in> insert (unat i) ids. \<forall>j \<in> insert (unat i) ids. j < k + 4096}"
    using step fin by (auto simp: remember_def abs high)
  ultimately show "bits_of b' (insert (unat i) ids)" using step fin by (simp add: bits_of_def)
  show "seen \<longleftrightarrow> unat i \<in> ids \<and> (\<forall>j \<in> ids. j < unat i + 4096)" using step by (simp add: abs)
qed

lemma bits_of_start:
  "bits_of (Inline (replicate 4 0)) {}"
  by (auto simp: bits_of_def)

lemma bits_of_new: "bits_of (gs_bits (group_state_new g i)) {unat i}"
proof (cases "i < INLINE_BITS")
  case True
  obtain s b where run: "test_and_set (Inline (replicate 4 0)) i = (s, b)" by fastforce
  with True bits_of_step(1) [OF bits_of_start run] show ?thesis
    by (simp add: group_state_new_def Let_def)
next
  case False
  then have "256 \<le> unat i" by (simp add: word_less_nat_alt)
  obtain s b where run: "test_and_set (Window i (replicate 64 0)) i = (s, b)" by fastforce
  from test_and_set_refines [OF _ run] \<open>256 \<le> unat i\<close>
  have "bits_of b {unat i}" by (auto simp: bits_of_def remember_def)
  with False run show ?thesis by (simp add: group_state_new_def Let_def)
qed

subsection \<open>The ring as a history of calls\<close>

abbreviation slot_of :: "nat \<Rightarrow> location \<Rightarrow> nat" where
  "slot_of n l \<equiv> unat (l_group l) mod n"

definition ids_of :: "location set \<Rightarrow> u64 \<Rightarrow> nat set" where
  "ids_of L g = (\<lambda>l. unat (l_object l)) ` {l \<in> L. l_group l = g}"

text \<open>Slot \<open>k\<close> describes the newest group that has landed on it, with all of its IDs.\<close>

definition slot_ok :: "nat \<Rightarrow> location set \<Rightarrow> nat \<Rightarrow> group_state option \<Rightarrow> bool" where
  "slot_ok n L k slot \<longleftrightarrow> (case slot of
       None \<Rightarrow> \<forall>l \<in> L. slot_of n l \<noteq> k
     | Some st \<Rightarrow> (\<exists>l \<in> L. l_group l = gs_group st \<and> slot_of n l = k)
         \<and> (\<forall>l \<in> L. slot_of n l = k \<longrightarrow> l_group l \<le> gs_group st)
         \<and> bits_of (gs_bits st) (ids_of L (gs_group st)))"

definition ring_ok :: "nat \<Rightarrow> location set \<Rightarrow> seen_objects \<Rightarrow> bool" where
  "ring_ok n L slots \<longleftrightarrow> length slots = n \<and> (\<forall>k < n. slot_ok n L k (slots ! k))"

text \<open>When a call answers "duplicate", in terms of the history \<open>L\<close> before it.\<close>

definition remembered :: "nat \<Rightarrow> location set \<Rightarrow> location \<Rightarrow> bool" where
  "remembered n L l \<longleftrightarrow> l \<in> L
     \<and> (\<forall>m \<in> L. slot_of n m = slot_of n l \<longrightarrow> l_group m \<le> l_group l)
     \<and> (\<forall>m \<in> L. l_group m = l_group l \<longrightarrow> unat (l_object m) < unat (l_object l) + 4096)"

lemma slot_ok_other: "slot_ok n L k slot \<Longrightarrow> slot_of n l \<noteq> k \<Longrightarrow> slot_ok n (insert l L) k slot"
proof -
  assume ok: "slot_ok n L k slot" and k: "slot_of n l \<noteq> k"
  have "{m \<in> insert l L. l_group m = g} = {m \<in> L. l_group m = g}" if "unat g mod n = k" for g
    using k that by auto
  then have "ids_of (insert l L) g = ids_of L g" if "unat g mod n = k" for g
    using that by (simp add: ids_of_def)
  with ok k show ?thesis by (auto simp: slot_ok_def split: option.splits)
qed

lemma ids_of_insert:
  "ids_of (insert l L) g = (if l_group l = g then insert (unat (l_object l)) (ids_of L g) else ids_of L g)"
  by (auto simp: ids_of_def)

lemma in_ids_of: "unat (l_object l) \<in> ids_of L (l_group l) \<longleftrightarrow> l \<in> L"
proof
  assume "unat (l_object l) \<in> ids_of L (l_group l)"
  then obtain m where "m \<in> L" "l_group m = l_group l" "l_object m = l_object l"
    by (auto simp: ids_of_def dest!: word_unat_eq_iff [THEN iffD2, OF sym])
  then show "l \<in> L" by (cases l; cases m) simp
qed (auto simp: ids_of_def)

lemma ball_ids_of: "(\<forall>j \<in> ids_of L g. P j) \<longleftrightarrow> (\<forall>m \<in> L. l_group m = g \<longrightarrow> P (unat (l_object m)))"
  by (auto simp: ids_of_def)

lemma slot_ok_fresh:
  assumes "\<And>m. m \<in> L \<Longrightarrow> slot_of n m = slot_of n l \<Longrightarrow> l_group m < l_group l"
  shows "slot_ok n (insert l L) (slot_of n l) (Some (group_state_new (l_group l) (l_object l)))"
    and "\<not> remembered n L l"
proof -
  show "\<not> remembered n L l" using assms [of l] by (auto simp: remembered_def)
  have "ids_of L (l_group l) = {}" using assms by (fastforce simp: ids_of_def)
  then show "slot_ok n (insert l L) (slot_of n l) (Some (group_state_new (l_group l) (l_object l)))"
    using assms bits_of_new [of "l_group l" "l_object l"]
    by (auto simp: slot_ok_def ids_of_insert group_state_new_def Let_def intro: less_imp_le)
qed

lemma slot_ok_same:
  assumes ok: "slot_ok n L (slot_of n l) (Some st)" and g: "gs_group st = l_group l"
    and run: "test_and_set (gs_bits st) (l_object l) = (seen, bits)"
  shows "slot_ok n (insert l L) (slot_of n l) (Some (st\<lparr> gs_bits := bits \<rparr>))"
    and "seen \<longleftrightarrow> remembered n L l"
proof -
  from ok g have older: "\<forall>m \<in> L. slot_of n m = slot_of n l \<longrightarrow> l_group m \<le> l_group l"
    and bits: "bits_of (gs_bits st) (ids_of L (l_group l))" by (auto simp: slot_ok_def)
  from bits_of_step [OF bits run] older g in_ids_of [of l L]
  show "slot_ok n (insert l L) (slot_of n l) (Some (st\<lparr> gs_bits := bits \<rparr>))"
    and "seen \<longleftrightarrow> remembered n L l"
    by (auto simp: slot_ok_def ids_of_insert remembered_def ball_ids_of)
qed

lemma slot_ok_stale:
  assumes ok: "slot_ok n L (slot_of n l) (Some st)" and g: "l_group l < gs_group st"
  shows "slot_ok n (insert l L) (slot_of n l) (Some st)" and "\<not> remembered n L l"
  using assms by (auto simp: slot_ok_def ids_of_insert remembered_def)

lemma is_duplicate_step:
  assumes ring: "ring_ok n L slots" and n: "0 < n" "n < 2 ^ 64"
    and run: "is_duplicate slots l = (dup, slots')"
  shows "ring_ok n (insert l L) slots' \<and> (dup \<longleftrightarrow> remembered n L l)"
proof -
  define k where "k = slot_of n l"
  from ring n have len: "length slots = n" and k: "k < n" and ok: "slot_ok n L k (slots ! k)"
    by (auto simp: ring_ok_def k_def)
  have index: "unat (l_group l mod word_of_nat (length slots)) = k"
    using n by (simp add: unat_mod len k_def)
  have ringI: "ring_ok n (insert l L) (slots[k := s])" if "slot_ok n (insert l L) k s" for s
    using ring that by (auto simp: ring_ok_def nth_list_update k_def intro: slot_ok_other)
  from index len n have unfold: "is_duplicate slots l =
      (case slots ! k of
         Some st \<Rightarrow>
           if gs_group st = l_group l
           then (case test_and_set (gs_bits st) (l_object l) of
                   (seen, bits) \<Rightarrow> (seen, slots[k := Some (st\<lparr> gs_bits := bits \<rparr>)]))
           else if l_group l > gs_group st
           then (False, slots[k := Some (group_state_new (l_group l) (l_object l))])
           else (False, slots)
       | None \<Rightarrow> (False, slots[k := Some (group_state_new (l_group l) (l_object l))]))"
    by (auto simp: is_duplicate_def Let_def)
  show ?thesis
  proof (cases "slots ! k")
    case None
    with ok have "\<And>m. m \<in> L \<Longrightarrow> slot_of n m = slot_of n l \<Longrightarrow> l_group m < l_group l"
      by (simp add: slot_ok_def k_def)
    from slot_ok_fresh [OF this] ringI run unfold None show ?thesis by (auto simp: k_def)
  next
    case (Some st)
    from ok Some have ok: "slot_ok n L (slot_of n l) (Some st)" by (simp add: k_def)
    consider "gs_group st = l_group l" | "gs_group st < l_group l" | "l_group l < gs_group st"
      by (cases "gs_group st" "l_group l" rule: linorder_cases) auto
    then show ?thesis
    proof cases
      case 1
      obtain seen bits where t: "test_and_set (gs_bits st) (l_object l) = (seen, bits)" by fastforce
      from slot_ok_same [OF ok 1 t] ringI run unfold Some 1 t show ?thesis by (auto simp: k_def)
    next
      case 2
      with ok have "\<And>m. m \<in> L \<Longrightarrow> slot_of n m = slot_of n l \<Longrightarrow> l_group m < l_group l"
        by (auto simp: slot_ok_def intro: le_less_trans)
      note fresh = slot_ok_fresh [of L n l, OF this]
      from 2 have "gs_group st \<noteq> l_group l" by auto
      with fresh ringI [of "Some (group_state_new (l_group l) (l_object l))"] run unfold Some 2
      show ?thesis by (simp add: k_def)
    next
      case 3
      then have "\<not> gs_group st < l_group l" "gs_group st \<noteq> l_group l" by auto
      moreover from Some have "slots[k := Some st] = slots" by (metis list_update_id)
      ultimately have "ring_ok n (insert l L) slots" "\<not> remembered n L l" "slots' = slots" "\<not> dup"
        using slot_ok_stale [OF ok 3] ringI [of "Some st"] run unfold Some
        by (auto simp: k_def)
      then show ?thesis by simp
    qed
  qed
qed

lemma seen_run_append: "seen_run slots (ls @ [l]) = snd (is_duplicate (seen_run slots ls) l)"
  by (simp add: seen_run_def)

lemma seen_run_ring:
  assumes "0 < n" "n < 2 ^ 64"
  shows "ring_ok n (set ls) (seen_run (seen_objects_new n) ls)"
proof (induction ls rule: rev_induct)
  case Nil
  then show ?case by (simp add: ring_ok_def seen_run_def seen_objects_new_def slot_ok_def)
next
  case (snoc l ls)
  obtain dup slots' where run: "is_duplicate (seen_run (seen_objects_new n) ls) l = (dup, slots')"
    by fastforce
  from is_duplicate_step [OF snoc assms run] run show ?case by (simp add: seen_run_append)
qed

subsection \<open>Properties\<close>

text \<open>C2. Exact duplicate detection: after any sequence of calls on a ring of \<open>n\<close> groups, a call
  answers "duplicate" exactly when the Location was seen before, no newer group has landed on
  its group's slot, and its ID lies less than 4096 below the highest ID seen in its group.\<close>

theorem is_duplicate_exact:
  assumes "0 < n" and "n < 2 ^ 64"
  shows "fst (is_duplicate (seen_run (seen_objects_new n) ls) l) \<longleftrightarrow>
     l \<in> set ls
     \<and> (\<forall>m \<in> set ls. unat (l_group m) mod n = unat (l_group l) mod n \<longrightarrow> l_group m \<le> l_group l)
     \<and> (\<forall>m \<in> set ls. l_group m = l_group l \<longrightarrow> unat (l_object m) < unat (l_object l) + 4096)"
proof -
  obtain dup slots' where run: "is_duplicate (seen_run (seen_objects_new n) ls) l = (dup, slots')"
    by fastforce
  from is_duplicate_step [OF seen_run_ring [OF assms] assms run] run show ?thesis
    by (simp add: remembered_def)
qed

theorem is_duplicate_exact_witness:
  "fst (is_duplicate (seen_run (seen_objects_new 2) [Location 1 5, Location 2 300, Location 1 4000]) (Location 1 5))
   \<and> \<not> fst (is_duplicate (seen_run (seen_objects_new 2) [Location 1 5, Location 3 0]) (Location 1 5))"
  using is_duplicate_exact [of 2 "[Location 1 5, Location 2 300, Location 1 4000]" "Location 1 5"]
    is_duplicate_exact [of 2 "[Location 1 5, Location 3 0]" "Location 1 5"]
  by (simp add: word_le_nat_alt)

text \<open>A new Object is never mistaken for a duplicate, whatever the number of retained groups
  (zero turns detection off), so forwarding never loses one.\<close>

lemma never_drops_new:
  assumes "n < 2 ^ 64" and "l \<notin> set ls"
  shows "\<not> fst (is_duplicate (seen_run (seen_objects_new n) ls) l)"
proof (cases "n = 0")
  case True
  have "seen_run [] ls = []" by (induction ls) (simp_all add: seen_run_def is_duplicate_def)
  with True show ?thesis by (simp add: seen_objects_new_def is_duplicate_def)
next
  case False
  obtain dup slots' where run: "is_duplicate (seen_run (seen_objects_new n) ls) l = (dup, slots')"
    by fastforce
  from False assms is_duplicate_step [OF seen_run_ring _ _ run] run show ?thesis
    by (simp add: remembered_def)
qed

end
