(* ===== verification/Property_List.thy ===== *)
theory Property_List
  imports Pair
begin

text \<open>
  Typed views of Key-Value-Pair lists. Object properties, track properties and SETUP options
  are enumerations that convert to pairs and back one by one; the locale \<open>kvp_view\<close> states
  what the two conversions promise and gives the codec of whole lists once for all of them.
\<close>

definition serialize_view :: "('p \<Rightarrow> key_value_pair res) \<Rightarrow> 'p list \<Rightarrow> bytes res" where
  "serialize_view into ps = rbind (collect_results (map into ps)) serialize_kvp_list"

definition deserialize_view :: "(key_value_pair \<Rightarrow> 'p res) \<Rightarrow> 'p list parser" where
  "deserialize_view of_kvp =
     pbind deserialize_kvp_list_until_empty (\<lambda>kvps. plift (collect_results (map of_kvp kvps)))"

text \<open>Writing again what was read never takes more bytes.\<close>

lemma deserialize_value_shrinks:
  assumes "deserialize_value t bs = (Inr k, rest)"
  shows "get_type k = t \<and> length (case k of KVarInt _ v \<Rightarrow> put_vi v
      | KBytes _ b \<Rightarrow> put_vi (word_of_nat (length b)) @ b) + length rest \<le> length bs"
proof (cases "is_multiple_of_2 t")
  case True
  with assms show ?thesis by (auto simp: deserialize_value_def pbind_Inr_iff dest: get_vi_shrinks)
next
  case False
  with assms obtain l bs1 where l: "get_vi bs = (Inr l, bs1)" "unat l \<le> length bs1"
    and k: "k = KBytes t (take (unat l) bs1)" "rest = drop (unat l) bs1"
    by (auto simp: deserialize_value_def deserialize_bytes_value_def pbind_Inr_iff require_bytes_def
        copy_to_bytes_def split: if_splits)
  with get_vi_shrinks [OF l(1)] show ?thesis by (simp add: min_absorb2)
qed

lemma kvp_delta_shrinks:
  assumes "kvp_deserialize_delta p bs = (Inr k, rest)" "kvp_serialize_delta k p = Inr b"
  shows "length b + length rest \<le> length bs"
proof -
  from assms(1) obtain d bs1 t where d: "get_vi bs = (Inr d, bs1)"
    and t: "checked_add p d = Some t" "deserialize_value t bs1 = (Inr k, rest)"
    by (auto simp: kvp_deserialize_delta_def pbind_Inr_iff ok_or_Inr_iff)
  from t(1) have "checked_sub t p = Some d" by (simp add: wrap_simps)
  with assms(2) deserialize_value_shrinks [OF t(2)] get_vi_shrinks [OF d] show ?thesis
    by (auto simp: kvp_serialize_delta_def)
qed

lemma kvps_until_empty_shrinks:
  "deserialize_kvps_until_empty p bs = (Inr ks, rest) \<Longrightarrow>
     \<exists>b. serialize_kvps p ks = Inr b \<and> length b \<le> length bs"
proof (induction p bs arbitrary: ks rest rule: deserialize_kvps_until_empty.induct)
  case (1 p bs)
  show ?case
  proof (cases "bs = []")
    case True
    with "1.prems" show ?thesis by (simp add: deserialize_kvps_until_empty.simps)
  next
    case False
    with "1.prems" obtain k bs' ks' where
      k: "kvp_deserialize_delta p bs = (Inr k, bs')" and
      ks: "deserialize_kvps_until_empty (get_type k) bs' = (Inr ks', rest)" "ks = k # ks'"
      by (subst (asm) deserialize_kvps_until_empty.simps) (auto split: prod.splits sum.splits)
    from kvp_deserialize_delta_sound [OF k] kvp.enc_total obtain b where
      b: "kvp_serialize_delta k p = Inr b" by blast
    with "1.IH" [OF False k [symmetric] refl ks(1)] kvp_delta_shrinks [OF k b] ks(2)
    show ?thesis by auto
  qed
qed

lemma kvp_list_rewrites:
  assumes "deserialize_kvp_list_until_empty bs = (Inr ks, rest)"
  obtains b where "serialize_kvp_list ks = Inr b" "length b \<le> length bs"
    "deserialize_kvp_list_until_empty b = (Inr ks, [])" "\<forall>k \<in> set ks. kvp_wf k"
    "sorted (map get_type ks)"
proof -
  note run = assms [unfolded deserialize_kvp_list_until_empty_def]
  from deserialize_kvps_until_empty_sound [OF run]
  have wf: "\<forall>k \<in> set ks. kvp_wf k" and asc: "ascending_from 0 ks" by auto
  from kvps_until_empty_shrinks [OF run] obtain b where
    b: "serialize_kvps 0 ks = Inr b" "length b \<le> length bs" by blast
  with kvps_roundtrip [OF wf asc] have "deserialize_kvps_until_empty 0 b = (Inr ks, [])" by auto
  with b wf asc that show thesis
    by (simp add: serialize_kvp_list_def deserialize_kvp_list_until_empty_def sort_key_id)
qed

subsection \<open>The interface\<close>

locale kvp_view =
  fixes into :: "'p \<Rightarrow> key_value_pair res"
    and of_kvp :: "key_value_pair \<Rightarrow> 'p res"
    and type_of :: "'p \<Rightarrow> u64"
    and wf :: "'p \<Rightarrow> bool"
  assumes into_of: "wf p \<Longrightarrow> \<exists>k. into p = Inr k \<and> kvp_wf k \<and> get_type k = type_of p \<and> of_kvp k = Inr p"
    and of_sound: "kvp_wf k \<Longrightarrow> of_kvp k = Inr p \<Longrightarrow> wf p \<and> type_of p = get_type k"
begin

lemma list_write:
  assumes "\<forall>p \<in> set ps. wf p"
  obtains b where "serialize_view into ps = Inr b"
    "deserialize_view of_kvp b = (Inr (sort_key type_of ps), [])"
    "ps \<noteq> [] \<Longrightarrow> b \<noteq> []"
proof -
  from assms into_of
  have "\<forall>p \<in> set ps. \<exists>k. into p = Inr k \<and> kvp_wf k \<and> get_type k = type_of p \<and> of_kvp k = Inr p" by blast
  from bchoice [OF this] obtain f where
    f: "\<forall>p \<in> set ps. into p = Inr (f p) \<and> kvp_wf (f p) \<and> get_type (f p) = type_of p \<and> of_kvp (f p) = Inr p" ..
  have sorted_f: "sort_key get_type (map f ps) = map f (sort_key type_of ps)"
    using f by (intro sort_key_map) blast
  have into: "collect_results (map into ps) = Inr (map f ps)"
    using f by (simp add: collect_results_Inr_iff)
  from kvps_roundtrip [of "sort_key get_type (map f ps)" 0] f obtain b where
    b: "serialize_kvps 0 (sort_key get_type (map f ps)) = Inr b"
      "deserialize_kvps_until_empty 0 b = (Inr (sort_key get_type (map f ps)), [])" by auto
  have "collect_results (map of_kvp (map f (sort_key type_of ps))) = Inr (sort_key type_of ps)"
    using f by (simp add: collect_results_Inr_iff)
  moreover have "b \<noteq> []" if "ps \<noteq> []"
  proof -
    from that have "sort_key type_of ps \<noteq> []" by (metis length_0_conv length_sort)
    with b(2) show ?thesis by (auto simp: deserialize_kvps_until_empty.simps sorted_f)
  qed
  ultimately show thesis
    using b that into
    by (simp add: serialize_view_def deserialize_view_def
        serialize_kvp_list_def deserialize_kvp_list_until_empty_def sorted_f pbind_def)
qed

lemma list_read:
  assumes "deserialize_view of_kvp bs = (Inr ps, rest)"
  shows "(\<forall>p \<in> set ps. wf p) \<and> sorted (map type_of ps)"
proof -
  from assms obtain ks r where ks: "deserialize_kvp_list_until_empty bs = (Inr ks, r)"
    and ps: "map of_kvp ks = map Inr ps"
    by (auto simp: deserialize_view_def pbind_Inr_iff collect_results_Inr_iff)
  from ps have len: "length ps = length ks" using map_eq_imp_length_eq by fastforce
  from kvp_list_rewrites [OF ks] have kwf: "\<forall>k \<in> set ks. kvp_wf k" and asc: "sorted (map get_type ks)"
    by blast+
  have each: "wf (ps ! i) \<and> type_of (ps ! i) = get_type (ks ! i)" if "i < length ks" for i
    using of_sound [of "ks ! i" "ps ! i"] kwf ps len that by (metis nth_map nth_mem)
  with len have "map type_of ps = map get_type ks" by (simp add: list_eq_iff_nth_eq)
  with asc each len show ?thesis by (auto simp: in_set_conv_nth)
qed

text \<open>What was read is a normal form: it can be written again and reads back unchanged.\<close>

lemma list_forward:
  assumes "deserialize_view of_kvp bs = (Inr ps, rest)"
  obtains b where "serialize_view into ps = Inr b" "deserialize_view of_kvp b = (Inr ps, [])"
proof -
  from list_read [OF assms] have "\<forall>p \<in> set ps. wf p" "sort_key type_of ps = ps" by (auto simp: sort_key_id)
  with list_write [of ps] that show thesis by metis
qed

end

end
