(* ===== verification/Object_Property.thy ===== *)
theory Object_Property
  imports Property_List Pair Wire_Enums
begin

text \<open>
  Object-level properties (\<open>libs/moqtail-rs/src/model/property/object_property.rs\<close>): the
  typed view of the Key-Value-Pairs an Object carries. Properties the library does not know
  are kept as raw pairs, so that a relay forwards them unchanged; immutable properties are
  a nested list of pairs. The theory shows that a list of properties survives its round
  trip up to the sort by type the wire format imposes, and that what a reader accepts can
  always be written again in no more bytes.
\<close>

definition is_application_specific :: "u64 \<Rightarrow> bool" where
  "is_application_specific t \<longleftrightarrow> (0x78 \<le> t \<and> t \<le> 0x7f) \<or> (0x3800 \<le> t \<and> t \<le> 0x3fff)"

datatype object_property =
    OP_ImmutableProperties "key_value_pair list"
  | OP_PriorGroupIdGap u64
  | OP_PriorObjectIdGap u64
  | OP_Unknown key_value_pair

fun object_property_type_value :: "object_property \<Rightarrow> u64" where
  "object_property_type_value (OP_ImmutableProperties _) = track_property_type_to_wire TPT_ImmutableProperties"
| "object_property_type_value (OP_PriorGroupIdGap _) = track_property_type_to_wire TPT_PriorGroupIdGap"
| "object_property_type_value (OP_PriorObjectIdGap _) = track_property_type_to_wire TPT_PriorObjectIdGap"
| "object_property_type_value (OP_Unknown kvp) = get_type kvp"

text \<open>\<open>TryInto<KeyValuePair>\<close>.\<close>

fun object_property_try_into :: "object_property \<Rightarrow> key_value_pair res" where
  "object_property_try_into (OP_ImmutableProperties properties) =
     rbind (serialize_kvp_list properties) (\<lambda>b.
       kvp_try_new_bytes (track_property_type_to_wire TPT_ImmutableProperties) b)"
| "object_property_try_into (OP_PriorGroupIdGap gap) =
     kvp_try_new_varint (track_property_type_to_wire TPT_PriorGroupIdGap) gap"
| "object_property_try_into (OP_PriorObjectIdGap gap) =
     kvp_try_new_varint (track_property_type_to_wire TPT_PriorObjectIdGap) gap"
| "object_property_try_into (OP_Unknown kvp) = Inr kvp"

definition object_property_serialize :: "object_property \<Rightarrow> bytes res" where
  "object_property_serialize p = rbind (object_property_try_into p) kvp_serialize"

definition kvp_varint_value :: "key_value_pair \<Rightarrow> string \<Rightarrow> u64 res" where
  "kvp_varint_value kvp ctx = (case kvp of
       KVarInt _ v \<Rightarrow> Inr v | KBytes _ _ \<Rightarrow> Inl (ProtocolViolation ctx))"

definition kvp_bytes_value :: "key_value_pair \<Rightarrow> string \<Rightarrow> bytes res" where
  "kvp_bytes_value kvp ctx = (case kvp of
       KBytes _ b \<Rightarrow> Inr b | KVarInt _ _ \<Rightarrow> Inl (ProtocolViolation ctx))"

definition object_property_deserialize :: "key_value_pair \<Rightarrow> object_property res" where
  "object_property_deserialize kvp =
     (case track_property_type_try_from (get_type kvp) of
        Inl _ \<Rightarrow> Inr (OP_Unknown kvp)
      | Inr TPT_ImmutableProperties \<Rightarrow>
          rbind (kvp_bytes_value kvp ''ObjectProperty::deserialize(ImmutableProperties)'') (\<lambda>buf.
          rbind (fst (deserialize_kvp_list_until_empty buf)) (\<lambda>properties.
            if \<exists>inner \<in> set properties. get_type inner = track_property_type_to_wire TPT_ImmutableProperties
            then Inl (ProtocolViolation ''ObjectProperty::deserialize(ImmutableProperties)'')
            else Inr (OP_ImmutableProperties properties)))
      | Inr TPT_PriorGroupIdGap \<Rightarrow>
          rbind (kvp_varint_value kvp ''ObjectProperty::deserialize(PriorGroupIdGap)'')
            (\<lambda>v. Inr (OP_PriorGroupIdGap v))
      | Inr TPT_PriorObjectIdGap \<Rightarrow>
          rbind (kvp_varint_value kvp ''ObjectProperty::deserialize(PriorObjectIdGap)'')
            (\<lambda>v. Inr (OP_PriorObjectIdGap v))
      | Inr _ \<Rightarrow> Inr (OP_Unknown kvp))"

definition serialize_object_properties :: "object_property list \<Rightarrow> bytes res" where
  "serialize_object_properties exts =
     rbind (collect_results (map object_property_try_into exts)) serialize_kvp_list"

definition deserialize_object_properties :: "object_property list parser" where
  "deserialize_object_properties =
     pbind deserialize_kvp_list_until_empty
       (\<lambda>kvps. plift (collect_results (map object_property_deserialize kvps)))"

fun validate_gaps :: "u64 \<Rightarrow> u64 \<Rightarrow> object_property list \<Rightarrow> unit res" where
  "validate_gaps group_id object_id [] = Inr ()"
| "validate_gaps group_id object_id (OP_PriorGroupIdGap gap # ps) =
     (if gap > group_id then Inl (ProtocolViolation ''validate_prior_gaps'')
      else validate_gaps group_id object_id ps)"
| "validate_gaps group_id object_id (OP_PriorObjectIdGap gap # ps) =
     (if gap > object_id then Inl (ProtocolViolation ''validate_prior_gaps'')
      else validate_gaps group_id object_id ps)"
| "validate_gaps group_id object_id (_ # ps) = validate_gaps group_id object_id ps"

definition validate_prior_gaps :: "u64 \<Rightarrow> u64 \<Rightarrow> object_property list option \<Rightarrow> unit res" where
  "validate_prior_gaps group_id object_id properties =
     (case properties of None \<Rightarrow> Inr () | Some ps \<Rightarrow> validate_gaps group_id object_id ps)"

subsection \<open>Lemmas\<close>

text \<open>The properties a reader yields, and the only ones the program holds.\<close>

definition object_property_wf :: "object_property \<Rightarrow> bool" where
  "object_property_wf p \<longleftrightarrow> (case p of
       OP_ImmutableProperties ks \<Rightarrow>
         (\<forall>k \<in> set ks. kvp_wf k \<and> get_type k \<noteq> 0xB) \<and> sorted (map get_type ks)
         \<and> (case serialize_kvp_list ks of Inl _ \<Rightarrow> False | Inr b \<Rightarrow> length b \<le> MAX_VALUE_LENGTH)
     | OP_PriorGroupIdGap _ \<Rightarrow> True
     | OP_PriorObjectIdGap _ \<Rightarrow> True
     | OP_Unknown k \<Rightarrow> kvp_wf k \<and> get_type k \<notin> {0xB, 0x3C, 0x3E})"

lemma object_property_roundtrip:
  assumes "object_property_wf p"
  shows "\<exists>k. object_property_try_into p = Inr k \<and> kvp_wf k
    \<and> get_type k = object_property_type_value p \<and> object_property_deserialize k = Inr p"
proof (cases p)
  case (OP_ImmutableProperties ks)
  with assms obtain b where b: "serialize_kvp_list ks = Inr b" "length b \<le> MAX_VALUE_LENGTH"
    and wf: "\<forall>k \<in> set ks. kvp_wf k \<and> get_type k \<noteq> 0xB" "sorted (map get_type ks)"
    by (auto simp: object_property_wf_def split: sum.splits)
  from kvps_roundtrip [of ks 0] wf b(1) have "deserialize_kvp_list_until_empty b = (Inr ks, [])"
    by (auto simp: serialize_kvp_list_def deserialize_kvp_list_until_empty_def sort_key_id)
  with b wf OP_ImmutableProperties show ?thesis
    by (auto simp: object_property_deserialize_def kvp_try_new_bytes_def kvp_new_bytes_def
        track_property_type_try_from_def kvp_bytes_value_def)
next
  case (OP_Unknown k)
  with assms show ?thesis
    by (auto simp: object_property_wf_def object_property_deserialize_def
        track_property_type_try_from_def)
qed (simp_all add: object_property_deserialize_def kvp_try_new_varint_def
      track_property_type_try_from_def kvp_varint_value_def)

lemma object_property_sound:
  assumes "kvp_wf k" "object_property_deserialize k = Inr p"
  shows "object_property_wf p \<and> object_property_type_value p = get_type k"
proof (cases "track_property_type_try_from (get_type k)")
  case (Inl e)
  then have "get_type k \<notin> {0xB, 0x3C, 0x3E}"
    by (auto simp: track_property_type_try_from_def split: if_splits)
  with Inl assms show ?thesis by (auto simp: object_property_deserialize_def object_property_wf_def)
next
  case (Inr t)
  then have ty: "get_type k = track_property_type_to_wire t" by (simp add: tpt_enum.accepts_iff)
  show ?thesis
  proof (cases "t = TPT_ImmutableProperties")
    case True
    with Inr assms obtain ty buf ks r where k: "k = KBytes ty buf"
      and ks: "deserialize_kvp_list_until_empty buf = (Inr ks, r)"
      and p: "p = OP_ImmutableProperties ks" "\<forall>i \<in> set ks. get_type i \<noteq> 0xB"
      by (cases k; cases "deserialize_kvp_list_until_empty (kv_bytes k)")
         (auto simp: object_property_deserialize_def kvp_bytes_value_def rbind_Inr_iff split: if_splits)
    from kvp_list_rewrites [OF ks] obtain b where "serialize_kvp_list ks = Inr b"
      "length b \<le> length buf" "\<forall>k \<in> set ks. kvp_wf k" "sorted (map get_type ks)" by blast
    with assms(1) k p ty Inr True \<open>get_type k = track_property_type_to_wire t\<close> show ?thesis
      by (auto simp: object_property_wf_def)
  next
    case False
    with Inr ty assms show ?thesis
      by (cases t)
         (auto simp: object_property_deserialize_def object_property_wf_def rbind_Inr_iff)
  qed
qed

lemma validate_gaps_iff:
  "validate_gaps g ob ps = Inr () \<longleftrightarrow>
     (\<forall>gap. OP_PriorGroupIdGap gap \<in> set ps \<longrightarrow> gap \<le> g)
     \<and> (\<forall>gap. OP_PriorObjectIdGap gap \<in> set ps \<longrightarrow> gap \<le> ob)"
  by (induction g ob ps rule: validate_gaps.induct) auto

text \<open>The list codec, as the data objects use it.\<close>

interpretation op_view: kvp_view object_property_try_into object_property_deserialize
  object_property_type_value object_property_wf
  using object_property_roundtrip object_property_sound by unfold_locales blast+

lemma object_properties_eq:
  "serialize_object_properties = serialize_view object_property_try_into"
  "deserialize_object_properties = deserialize_view object_property_deserialize"
  by (simp_all add: fun_eq_iff serialize_object_properties_def deserialize_object_properties_def
      serialize_view_def deserialize_view_def)

lemmas object_properties_write = op_view.list_write [folded object_properties_eq]
lemmas object_properties_read = op_view.list_read [folded object_properties_eq]

subsection \<open>Properties\<close>

text \<open>Object properties survive the wire: a list of well-formed properties always
  serialises and reads back as its stable sort by type, known, unknown and nested ones alike.\<close>

lemma object_properties_roundtrip:
  assumes "\<forall>p \<in> set ps. object_property_wf p"
  shows "\<exists>b. serialize_object_properties ps = Inr b
    \<and> deserialize_object_properties b = (Inr (sort_key object_property_type_value ps), [])"
  using object_properties_write [OF assms] by blast

text \<open>Whatever properties a reader accepts can be written again and read back unchanged, so
  a relay forwards them faithfully; nested immutable properties never nest again.\<close>

lemma object_properties_forwardable:
  assumes "deserialize_object_properties bs = (Inr ps, rest)"
  shows "(\<exists>b. serialize_object_properties ps = Inr b \<and> deserialize_object_properties b = (Inr ps, []))
    \<and> (\<forall>ks. OP_ImmutableProperties ks \<in> set ps \<longrightarrow>
          (\<forall>k \<in> set ks. get_type k \<noteq> track_property_type_to_wire TPT_ImmutableProperties))"
proof
  from object_properties_read [OF assms]
  have wf: "\<forall>p \<in> set ps. object_property_wf p" and asc: "sorted (map object_property_type_value ps)"
    by auto
  from object_properties_write [OF wf] asc
  show "\<exists>b. serialize_object_properties ps = Inr b \<and> deserialize_object_properties b = (Inr ps, [])"
    by (metis sort_key_id)
  from wf show "\<forall>ks. OP_ImmutableProperties ks \<in> set ps \<longrightarrow>
      (\<forall>k \<in> set ks. get_type k \<noteq> track_property_type_to_wire TPT_ImmutableProperties)"
    by (auto simp: object_property_wf_def)
qed

text \<open>\<open>validate_prior_gaps\<close> accepts exactly the property lists in which no gap reaches below
  ID zero.\<close>

lemma validate_prior_gaps_exact:
  "validate_prior_gaps g ob (Some ps) = Inr () \<longleftrightarrow>
     (\<forall>gap. OP_PriorGroupIdGap gap \<in> set ps \<longrightarrow> unat gap \<le> unat g)
     \<and> (\<forall>gap. OP_PriorObjectIdGap gap \<in> set ps \<longrightarrow> unat gap \<le> unat ob)"
  by (simp add: validate_prior_gaps_def validate_gaps_iff word_le_nat_alt)

end
