(* ===== verification/Header_Types.thy ===== *)
theory Header_Types
  imports Wire_Enums
begin

text \<open>
  The bit-mask types of data streams and datagrams
  (\<open>libs/moqtail-rs/src/model/data/constant.rs\<close>). The two newtypes over \<open>u8\<close> are kept as
  such; the constructors of the source are private, so values arise from \<open>try_new\<close> and
  \<open>from_properties\<close> only. The theory shows that these two build exactly the same values
  and that the accessors read back exactly the flags the constructor was given.
\<close>

definition DEFAULT_PUBLISHER_PRIORITY :: u8 where
  "DEFAULT_PUBLISHER_PRIORITY = 128"

datatype subgroup_id_mode = SIM_Zero | SIM_FirstObjectId | SIM_Explicit

fun subgroup_id_mode_to_u8 :: "subgroup_id_mode \<Rightarrow> u8" where
  "subgroup_id_mode_to_u8 SIM_Zero = 0"
| "subgroup_id_mode_to_u8 SIM_FirstObjectId = 1"
| "subgroup_id_mode_to_u8 SIM_Explicit = 2"

datatype subgroup_header_type = SubgroupHeaderType (sht_value: u8)

abbreviation (input) "SHT_PROPERTIES \<equiv> (0x01 :: u8)"
abbreviation (input) "SHT_SUBGROUP_ID_MODE_MASK \<equiv> (0x06 :: u8)"
abbreviation (input) "SHT_END_OF_GROUP \<equiv> (0x08 :: u8)"
abbreviation (input) "SHT_REQUIRED_BIT \<equiv> (0x10 :: u8)"
abbreviation (input) "SHT_DEFAULT_PRIORITY \<equiv> (0x20 :: u8)"
abbreviation (input) "SHT_FIRST_OBJECT \<equiv> (0x40 :: u8)"
abbreviation (input) "SHT_INVALID_BITS_MASK \<equiv> (0x80 :: u8)"
abbreviation (input) "SHT_RESERVED_SUBGROUP_MODE \<equiv> (0x06 :: u8)"

definition sht_try_new :: "u64 \<Rightarrow> subgroup_header_type res" where
  "sht_try_new value =
     (let v = (ucast value :: u8) in
      if value > 255 \<or> v AND SHT_INVALID_BITS_MASK \<noteq> 0
      then Inl (InvalidType ''SubgroupHeaderType::try_new'')
      else if v AND SHT_REQUIRED_BIT = 0
      then Inl (InvalidType ''SubgroupHeaderType::try_new'')
      else if v AND SHT_SUBGROUP_ID_MODE_MASK = SHT_RESERVED_SUBGROUP_MODE
      then Inl (InvalidType ''SubgroupHeaderType::try_new'')
      else Inr (SubgroupHeaderType v))"

definition sht_has_properties :: "subgroup_header_type \<Rightarrow> bool" where
  "sht_has_properties t \<longleftrightarrow> sht_value t AND SHT_PROPERTIES \<noteq> 0"

definition sht_subgroup_id_mode :: "subgroup_header_type \<Rightarrow> subgroup_id_mode" where
  "sht_subgroup_id_mode t =
     (let m = drop_bit 1 (sht_value t AND SHT_SUBGROUP_ID_MODE_MASK) in
      if m = 0 then SIM_Zero else if m = 1 then SIM_FirstObjectId else SIM_Explicit)"

definition has_explicit_subgroup_id :: "subgroup_header_type \<Rightarrow> bool" where
  "has_explicit_subgroup_id t \<longleftrightarrow> sht_subgroup_id_mode t = SIM_Explicit"

definition subgroup_id_is_zero :: "subgroup_header_type \<Rightarrow> bool" where
  "subgroup_id_is_zero t \<longleftrightarrow> sht_subgroup_id_mode t = SIM_Zero"

definition subgroup_id_is_first_object_id :: "subgroup_header_type \<Rightarrow> bool" where
  "subgroup_id_is_first_object_id t \<longleftrightarrow> sht_subgroup_id_mode t = SIM_FirstObjectId"

definition contains_end_of_group :: "subgroup_header_type \<Rightarrow> bool" where
  "contains_end_of_group t \<longleftrightarrow> sht_value t AND SHT_END_OF_GROUP \<noteq> 0"

definition sht_has_default_priority :: "subgroup_header_type \<Rightarrow> bool" where
  "sht_has_default_priority t \<longleftrightarrow> sht_value t AND SHT_DEFAULT_PRIORITY \<noteq> 0"

definition is_first_object :: "subgroup_header_type \<Rightarrow> bool" where
  "is_first_object t \<longleftrightarrow> sht_value t AND SHT_FIRST_OBJECT \<noteq> 0"

definition sht_from_properties ::
  "bool \<Rightarrow> subgroup_id_mode \<Rightarrow> bool \<Rightarrow> bool \<Rightarrow> bool \<Rightarrow> subgroup_header_type" where
  "sht_from_properties has_properties mode end_of_group default_priority first_object =
     (let v = SHT_REQUIRED_BIT;
          v = (if has_properties then v OR SHT_PROPERTIES else v);
          v = v OR push_bit 1 (subgroup_id_mode_to_u8 mode);
          v = (if end_of_group then v OR SHT_END_OF_GROUP else v);
          v = (if default_priority then v OR SHT_DEFAULT_PRIORITY else v);
          v = (if first_object then v OR SHT_FIRST_OBJECT else v)
      in SubgroupHeaderType v)"

definition sht_to_wire :: "subgroup_header_type \<Rightarrow> u64" where
  "sht_to_wire t = ucast (sht_value t)"

datatype object_forwarding_preference = FP_Subgroup | FP_Datagram

datatype object_datagram_type = ObjectDatagramType (odt_value: u8)

abbreviation (input) "ODT_PROPERTIES \<equiv> (0x01 :: u8)"
abbreviation (input) "ODT_END_OF_GROUP \<equiv> (0x02 :: u8)"
abbreviation (input) "ODT_ZERO_OBJECT_ID \<equiv> (0x04 :: u8)"
abbreviation (input) "ODT_DEFAULT_PRIORITY \<equiv> (0x08 :: u8)"
abbreviation (input) "ODT_STATUS \<equiv> (0x20 :: u8)"
abbreviation (input) "ODT_INVALID_BITS_MASK \<equiv> (0xD0 :: u8)"

definition odt_try_new :: "u64 \<Rightarrow> object_datagram_type res" where
  "odt_try_new value =
     (let v = (ucast value :: u8) in
      if value > 255 \<or> v AND ODT_INVALID_BITS_MASK \<noteq> 0
      then Inl (InvalidType ''ObjectDatagramType::try_new'')
      else if v AND ODT_STATUS \<noteq> 0 \<and> v AND ODT_END_OF_GROUP \<noteq> 0
      then Inl (ProtocolViolation ''ObjectDatagramType::try_new'')
      else Inr (ObjectDatagramType v))"

definition odt_has_properties :: "object_datagram_type \<Rightarrow> bool" where
  "odt_has_properties t \<longleftrightarrow> odt_value t AND ODT_PROPERTIES \<noteq> 0"

definition is_end_of_group :: "object_datagram_type \<Rightarrow> bool" where
  "is_end_of_group t \<longleftrightarrow> odt_value t AND ODT_END_OF_GROUP \<noteq> 0"

definition is_zero_object_id :: "object_datagram_type \<Rightarrow> bool" where
  "is_zero_object_id t \<longleftrightarrow> odt_value t AND ODT_ZERO_OBJECT_ID \<noteq> 0"

definition odt_has_default_priority :: "object_datagram_type \<Rightarrow> bool" where
  "odt_has_default_priority t \<longleftrightarrow> odt_value t AND ODT_DEFAULT_PRIORITY \<noteq> 0"

definition is_status :: "object_datagram_type \<Rightarrow> bool" where
  "is_status t \<longleftrightarrow> odt_value t AND ODT_STATUS \<noteq> 0"

definition odt_from_properties ::
  "bool \<Rightarrow> bool \<Rightarrow> bool \<Rightarrow> bool \<Rightarrow> bool \<Rightarrow> object_datagram_type res" where
  "odt_from_properties has_properties end_of_group object_id_is_zero default_priority status =
     (let v = (0 :: u8);
          v = (if has_properties then v OR ODT_PROPERTIES else v);
          v = (if end_of_group then v OR ODT_END_OF_GROUP else v);
          v = (if object_id_is_zero then v OR ODT_ZERO_OBJECT_ID else v);
          v = (if default_priority then v OR ODT_DEFAULT_PRIORITY else v);
          v = (if status then v OR ODT_STATUS else v)
      in odt_try_new (ucast v))"

definition odt_to_wire :: "object_datagram_type \<Rightarrow> u64" where
  "odt_to_wire t = ucast (odt_value t)"

subsection \<open>Reading single bits\<close>

lemma flag_bits [codec_simps]:
  "(v AND 0x01 = 0) \<longleftrightarrow> \<not> bit v 0" "(v AND 0x02 = 0) \<longleftrightarrow> \<not> bit v 1"
  "(v AND 0x04 = 0) \<longleftrightarrow> \<not> bit v 2" "(v AND 0x08 = 0) \<longleftrightarrow> \<not> bit v 3"
  "(v AND 0x10 = 0) \<longleftrightarrow> \<not> bit v 4" "(v AND 0x20 = 0) \<longleftrightarrow> \<not> bit v 5"
  "(v AND 0x40 = 0) \<longleftrightarrow> \<not> bit v 6" "(v AND 0x80 = 0) \<longleftrightarrow> \<not> bit v 7"
  for v :: u8
proof -
  have *: "(v AND 2 ^ n = 0) \<longleftrightarrow> \<not> bit v n" for n
    by (simp add: and_exp_eq_0_iff_not_bit)
  from * [of 0] * [of 1] * [of 2] * [of 3] * [of 4] * [of 5] * [of 6] * [of 7]
  show "(v AND 0x01 = 0) \<longleftrightarrow> \<not> bit v 0" "(v AND 0x02 = 0) \<longleftrightarrow> \<not> bit v 1"
  "(v AND 0x04 = 0) \<longleftrightarrow> \<not> bit v 2" "(v AND 0x08 = 0) \<longleftrightarrow> \<not> bit v 3"
  "(v AND 0x10 = 0) \<longleftrightarrow> \<not> bit v 4" "(v AND 0x20 = 0) \<longleftrightarrow> \<not> bit v 5"
  "(v AND 0x40 = 0) \<longleftrightarrow> \<not> bit v 6" "(v AND 0x80 = 0) \<longleftrightarrow> \<not> bit v 7"
    by simp_all
qed

lemma u8_eq_bits:
  "v = w \<longleftrightarrow> (bit v 0 = bit w 0) \<and> (bit v 1 = bit w 1) \<and> (bit v 2 = bit w 2) \<and> (bit v 3 = bit w 3)
     \<and> (bit v 4 = bit w 4) \<and> (bit v 5 = bit w 5) \<and> (bit v 6 = bit w 6) \<and> (bit v 7 = bit w 7)"
  for v w :: u8
proof -
  have *: "(\<forall>n<8. P n) \<longleftrightarrow> P 0 \<and> P 1 \<and> P 2 \<and> P 3 \<and> P 4 \<and> P 5 \<and> P 6 \<and> P 7"
    for P :: "nat \<Rightarrow> bool"
    by (simp add: eval_nat_numeral All_less_Suc conj_ac)
  have "v = w \<longleftrightarrow> (\<forall>n<8. bit v n = bit w n)" by (auto intro: bit_word_eqI)
  then show ?thesis by (simp only: *)
qed

lemma mask_bits [codec_simps]:
  "(v AND 0x06 = 0x06) \<longleftrightarrow> bit v 1 \<and> bit v 2"
  "(v AND 0xD0 = 0) \<longleftrightarrow> \<not> bit v 4 \<and> \<not> bit v 6 \<and> \<not> bit v 7"
  "(drop_bit 1 (v AND 0x06) = 0) \<longleftrightarrow> \<not> bit v 1 \<and> \<not> bit v 2"
  "(drop_bit 1 (v AND 0x06) = 1) \<longleftrightarrow> bit v 1 \<and> \<not> bit v 2"
  for v :: u8
  by (auto simp: u8_eq_bits bit_simps eval_nat_numeral)

lemma sht_mode_bits:
  "sht_subgroup_id_mode t =
     (if \<not> bit (sht_value t) 1 \<and> \<not> bit (sht_value t) 2 then SIM_Zero
      else if bit (sht_value t) 1 \<and> \<not> bit (sht_value t) 2 then SIM_FirstObjectId else SIM_Explicit)"
  by (simp only: sht_subgroup_id_mode_def Let_def mask_bits)

lemmas sht_defs = sht_has_properties_def sht_mode_bits contains_end_of_group_def
  sht_has_default_priority_def is_first_object_def

lemmas odt_defs = odt_has_properties_def is_end_of_group_def is_zero_object_id_def
  odt_has_default_priority_def is_status_def

lemma ucast_small_back: "\<not> 255 < v \<Longrightarrow> ucast (ucast v :: u8) = v" for v :: u64
  by (simp add: word_unat_eq_iff unsigned_ucast_eq word_less_nat_alt not_less unsigned_take_bit_eq
      take_bit_nat_eq_self)

lemma sht_from_properties_bits:
  "bit (sht_value (sht_from_properties p m e d f)) 0 = p"
  "bit (sht_value (sht_from_properties p m e d f)) 1 = (m = SIM_FirstObjectId)"
  "bit (sht_value (sht_from_properties p m e d f)) 2 = (m = SIM_Explicit)"
  "bit (sht_value (sht_from_properties p m e d f)) 3 = e"
  "bit (sht_value (sht_from_properties p m e d f)) 4"
  "bit (sht_value (sht_from_properties p m e d f)) 5 = d"
  "bit (sht_value (sht_from_properties p m e d f)) 6 = f"
  "\<not> bit (sht_value (sht_from_properties p m e d f)) 7"
  by (cases m; simp add: sht_from_properties_def Let_def bit_simps)+

lemma odt_from_properties_cases:
  "odt_from_properties p e z d s =
     (if s \<and> e then Inl (ProtocolViolation ''ObjectDatagramType::try_new'')
      else Inr (ObjectDatagramType (of_bool p OR push_bit 1 (of_bool e) OR push_bit 2 (of_bool z)
        OR push_bit 3 (of_bool d) OR push_bit 5 (of_bool s))))"
  by (auto simp: odt_from_properties_def odt_try_new_def Let_def)

lemma odt_from_properties_flags:
  assumes "odt_from_properties p e z d s = Inr t"
  shows "odt_has_properties t = p" "is_end_of_group t = e" "is_zero_object_id t = z"
    "odt_has_default_priority t = d" "is_status t = s" "odt_try_new (odt_to_wire t) = Inr t"
    "\<not> (e \<and> s)"
  using assms
  by (cases p; cases e; cases z; cases d; cases s;
      fastforce simp: odt_from_properties_cases odt_defs odt_try_new_def odt_to_wire_def)+

lemma sht_from_properties_flags [simp]:
  "sht_has_properties (sht_from_properties p m e d f) = p"
  "sht_subgroup_id_mode (sht_from_properties p m e d f) = m"
  "contains_end_of_group (sht_from_properties p m e d f) = e"
  "sht_has_default_priority (sht_from_properties p m e d f) = d"
  "is_first_object (sht_from_properties p m e d f) = f"
  by (cases m; simp add: sht_defs flag_bits mask_bits sht_from_properties_bits [simplified] Let_def
      sht_from_properties_bits)+

lemma sht_try_new_wire [simp]:
  "sht_try_new (sht_to_wire (sht_from_properties p m e d f)) = Inr (sht_from_properties p m e d f)"
  by (cases m; simp add: sht_try_new_def sht_to_wire_def Let_def flag_bits mask_bits
      sht_from_properties_bits sht_from_properties_bits [simplified])

lemma sht_try_new_sound:
  assumes "sht_try_new v = Inr t"
  shows "v = sht_to_wire t \<and> t = sht_from_properties (sht_has_properties t) (sht_subgroup_id_mode t)
    (contains_end_of_group t) (sht_has_default_priority t) (is_first_object t)"
proof -
  from assms have small: "\<not> 255 < v" and t: "t = SubgroupHeaderType (ucast v)"
    and bits: "\<not> bit (sht_value t) 7" "bit (sht_value t) 4" "\<not> (bit (sht_value t) 1 \<and> bit (sht_value t) 2)"
    by (auto simp: sht_try_new_def Let_def flag_bits mask_bits split: if_splits)
  from bits have "sht_value t = sht_value (sht_from_properties (sht_has_properties t) (sht_subgroup_id_mode t)
    (contains_end_of_group t) (sht_has_default_priority t) (is_first_object t))"
    by (simp only: u8_eq_bits sht_from_properties_bits)
       (auto simp: sht_defs flag_bits mask_bits Let_def)
  with small t show ?thesis
    by (simp add: sht_to_wire_def ucast_small_back subgroup_header_type.expand)
qed

subsection \<open>Properties\<close>

text \<open>\<open>SubgroupHeaderType\<close>: \<open>try_new\<close> accepts exactly the encodings of the values
  \<open>from_properties\<close> builds, and the accessors read back exactly the flags it was given.\<close>

lemma subgroup_header_type_exact:
  "(sht_try_new v = Inr t \<longleftrightarrow> v = sht_to_wire t \<and> (\<exists>p m e d f. t = sht_from_properties p m e d f))
   \<and> sht_has_properties (sht_from_properties p m e d f) = p
   \<and> sht_subgroup_id_mode (sht_from_properties p m e d f) = m
   \<and> contains_end_of_group (sht_from_properties p m e d f) = e
   \<and> sht_has_default_priority (sht_from_properties p m e d f) = d
   \<and> is_first_object (sht_from_properties p m e d f) = f"
proof (intro conjI iffI)
  assume "sht_try_new v = Inr t"
  from sht_try_new_sound [OF this]
  show "v = sht_to_wire t" "\<exists>p m e d f. t = sht_from_properties p m e d f" by blast+
qed auto

text \<open>\<open>ObjectDatagramType\<close>: \<open>from_properties\<close> fails exactly when STATUS and END_OF_GROUP are
  combined; otherwise its accessors read back the flags it was given and \<open>try_new\<close> accepts
  its encoding.\<close>

lemma object_datagram_type_exact:
  "((\<exists>t. odt_from_properties p e z d s = Inr t) \<longleftrightarrow> \<not> (e \<and> s))
   \<and> (odt_from_properties p e z d s = Inr t \<longrightarrow>
        odt_has_properties t = p \<and> is_end_of_group t = e \<and> is_zero_object_id t = z
        \<and> odt_has_default_priority t = d \<and> is_status t = s \<and> odt_try_new (odt_to_wire t) = Inr t)"
  using odt_from_properties_flags [of p e z d s t] by (auto simp: odt_from_properties_cases)

end
