(* ===== verification/Data_Objects.thy ===== *)
theory Data_Objects
  imports Object_Property Header_Types Locations
begin

text \<open>
  The Objects of subgroup streams and datagrams
  (\<open>libs/moqtail-rs/src/model/data/subgroup_object.rs\<close>, \<open>datagram.rs\<close>). Their serialisers
  accept more than their readers can return (an empty payload, an empty property list), so
  the round-trip theorems name the normal form that is read back; what is already normal
  is read back unchanged.
\<close>

subsection \<open>Subgroup objects\<close>

record subgroup_object =
  so_object_id :: u64
  so_properties :: "object_property list option"
  so_object_status :: "object_status option"
  so_payload :: "bytes option"

text \<open>\<open>as_deref().unwrap_or(&[])\<close>.\<close>

abbreviation props_or_empty :: "object_property list option \<Rightarrow> object_property list" where
  "props_or_empty ps \<equiv> (case ps of None \<Rightarrow> [] | Some l \<Rightarrow> l)"

abbreviation bytes_or_empty :: "bytes option \<Rightarrow> bytes" where
  "bytes_or_empty b \<equiv> (case b of None \<Rightarrow> [] | Some l \<Rightarrow> l)"

abbreviation status_or_normal :: "object_status option \<Rightarrow> object_status" where
  "status_or_normal s \<equiv> (case s of None \<Rightarrow> OS_Normal | Some t \<Rightarrow> t)"

text \<open>Release arithmetic: the two subtractions wrap. The payload branch is taken for a payload
  that is present and not empty.\<close>

definition subgroup_object_serialize :: "subgroup_object \<Rightarrow> u64 option \<Rightarrow> bool \<Rightarrow> bytes res" where
  "subgroup_object_serialize ob previous_object_id has_properties =
     (let object_id_delta = (case previous_object_id of
                               Some i \<Rightarrow> so_object_id ob - i - 1 | None \<Rightarrow> so_object_id ob);
          properties = props_or_empty (so_properties ob) in
      if \<not> has_properties \<and> properties \<noteq> []
      then Inl (ProtocolViolation ''SubgroupObject::serialize(properties)'')
      else
        rbind (if has_properties
               then rbind (serialize_object_properties properties)
                      (\<lambda>ext. Inr (put_vi (word_of_nat (length ext)) @ ext))
               else Inr []) (\<lambda>props.
          Inr (put_vi object_id_delta @ props @
            (if bytes_or_empty (so_payload ob) \<noteq> []
             then put_vi (word_of_nat (length (bytes_or_empty (so_payload ob)))) @ bytes_or_empty (so_payload ob)
             else put_vi 0 @ put_vi (object_status_to_wire (status_or_normal (so_object_status ob)))))))"

definition read_subgroup_properties :: "bool \<Rightarrow> object_property list option parser" where
  "read_subgroup_properties has_properties =
     (if has_properties
      then pbind get_vi (\<lambda>ext_len.
           if ext_len > 0
           then pbind (plift (try_into_usize ''SubgroupObject::deserialize'' ext_len)) (\<lambda>ext_len.
                pbind (require_bytes ''SubgroupObject::deserialize'' ext_len) (\<lambda>_.
                pbind (copy_to_bytes ext_len) (\<lambda>header_bytes.
                pbind (plift (map_err (\<lambda>_. ProtocolViolation ''SubgroupObject::deserialize'')
                         (fst (deserialize_object_properties header_bytes)))) (\<lambda>headers.
                  preturn (Some headers)))))
           else preturn (Some []))
      else preturn None)"

definition read_subgroup_body :: "(object_status option \<times> bytes option) parser" where
  "read_subgroup_body =
     pbind get_vi (\<lambda>payload_len.
       if payload_len = 0
       then pbind get_vi (\<lambda>status_raw.
            pbind (plift (object_status_try_from status_raw)) (\<lambda>status.
              preturn (Some status, None)))
       else pbind (plift (try_into_usize ''SubgroupObject::deserialize'' payload_len)) (\<lambda>payload_len.
            pbind (require_bytes ''SubgroupObject::deserialize'' payload_len) (\<lambda>_.
            pbind (copy_to_bytes payload_len) (\<lambda>payload_data.
              preturn (None, Some payload_data)))))"

text \<open>Release arithmetic: the additions to the previous ID wrap.\<close>

definition subgroup_object_deserialize :: "u64 option \<Rightarrow> bool \<Rightarrow> subgroup_object parser" where
  "subgroup_object_deserialize previous_object_id has_properties =
     pbind get_vi (\<lambda>object_id_delta.
     let object_id = (case previous_object_id of
                        Some i \<Rightarrow> i + object_id_delta + 1 | None \<Rightarrow> object_id_delta) in
     pbind (read_subgroup_properties has_properties) (\<lambda>properties.
     pbind read_subgroup_body (\<lambda>(object_status, payload).
       preturn \<lparr> so_object_id = object_id, so_properties = properties,
                 so_object_status = object_status, so_payload = payload \<rparr>)))"

subsection \<open>Datagrams\<close>

record datagram =
  dg_track_alias :: u64
  dg_group_id :: u64
  dg_object_id :: u64
  dg_publisher_priority :: "u8 option"
  dg_properties :: "object_property list option"
  dg_payload :: "bytes option"
  dg_object_status :: "object_status option"
  dg_end_of_group :: bool

definition datagram_new_payload ::
  "u64 \<Rightarrow> u64 \<Rightarrow> u64 \<Rightarrow> u8 option \<Rightarrow> object_property list option \<Rightarrow> bytes \<Rightarrow> bool \<Rightarrow> datagram" where
  "datagram_new_payload track_alias group_id object_id priority properties payload end_of_group =
     \<lparr> dg_track_alias = track_alias, dg_group_id = group_id, dg_object_id = object_id,
       dg_publisher_priority = priority, dg_properties = properties, dg_payload = Some payload,
       dg_object_status = None, dg_end_of_group = end_of_group \<rparr>"

definition datagram_new_status ::
  "u64 \<Rightarrow> u64 \<Rightarrow> u64 \<Rightarrow> u8 option \<Rightarrow> object_property list option \<Rightarrow> object_status \<Rightarrow> datagram" where
  "datagram_new_status track_alias group_id object_id priority properties status =
     \<lparr> dg_track_alias = track_alias, dg_group_id = group_id, dg_object_id = object_id,
       dg_publisher_priority = priority, dg_properties = properties, dg_payload = None,
       dg_object_status = Some status, dg_end_of_group = False \<rparr>"

definition datagram_new :: "u64 \<Rightarrow> u64 \<Rightarrow> u64 \<Rightarrow> u8 \<Rightarrow> bytes \<Rightarrow> datagram" where
  "datagram_new track_alias group_id object_id priority payload =
     \<lparr> dg_track_alias = track_alias, dg_group_id = group_id, dg_object_id = object_id,
       dg_publisher_priority = Some priority, dg_properties = None, dg_payload = Some payload,
       dg_object_status = None, dg_end_of_group = False \<rparr>"

definition datagram_serialize :: "datagram \<Rightarrow> bytes res" where
  "datagram_serialize d =
     (let has_properties = props_or_empty (dg_properties d) \<noteq> [] in
      rbind (odt_from_properties has_properties (dg_end_of_group d) (dg_object_id d = 0)
               (dg_publisher_priority d = None) (dg_object_status d \<noteq> None)) (\<lambda>dtype.
      rbind (if has_properties
             then rbind (serialize_object_properties (props_or_empty (dg_properties d)))
                    (\<lambda>ext. Inr (put_vi (word_of_nat (length ext)) @ ext))
             else Inr []) (\<lambda>props.
        Inr (put_vi (odt_to_wire dtype) @ put_vi (dg_track_alias d) @ put_vi (dg_group_id d)
          @ (if \<not> is_zero_object_id dtype then put_vi (dg_object_id d) else [])
          @ (if \<not> odt_has_default_priority dtype
             then [case dg_publisher_priority d of Some p \<Rightarrow> p | None \<Rightarrow> 0] else [])
          @ props
          @ (case dg_object_status d of
               Some status \<Rightarrow> put_vi (object_status_to_wire status)
             | None \<Rightarrow> (case dg_payload d of Some payload \<Rightarrow> payload | None \<Rightarrow> []))))))"

definition read_datagram_properties :: "object_property list option parser" where
  "read_datagram_properties =
     pbind get_vi (\<lambda>ext_len.
       if ext_len = 0
       then pfail (ProtocolViolation ''Datagram::deserialize(properties_length)'')
       else pbind (plift (try_into_usize ''Datagram::deserialize'' ext_len)) (\<lambda>ext_len.
            pbind (require_bytes ''Datagram::deserialize(properties)'' ext_len) (\<lambda>_.
            pbind (copy_to_bytes ext_len) (\<lambda>header_bytes.
            pbind (plift (map_err
                     (\<lambda>_. ProtocolViolation ''Datagram::deserialize, can't parse headers'')
                     (fst (deserialize_object_properties header_bytes)))) (\<lambda>headers.
              preturn (Some headers))))))"

definition datagram_deserialize :: "datagram parser" where
  "datagram_deserialize =
     pbind get_vi (\<lambda>msg_type_raw.
     pbind (plift (odt_try_new msg_type_raw)) (\<lambda>msg_type.
     pbind get_vi (\<lambda>track_alias.
     pbind get_vi (\<lambda>group_id.
     pbind (if \<not> is_zero_object_id msg_type then get_vi else preturn 0) (\<lambda>object_id.
     pbind (if \<not> odt_has_default_priority msg_type
            then pbind (get_u8_checked ''Datagram::deserialize(publisher_priority)'')
                   (\<lambda>p. preturn (Some p))
            else preturn None) (\<lambda>priority.
     pbind (if odt_has_properties msg_type then read_datagram_properties else preturn None) (\<lambda>properties.
     pbind (if is_status msg_type
            then pbind get_vi (\<lambda>status_raw.
                 pbind (plift (object_status_try_from status_raw)) (\<lambda>status.
                   preturn (None, Some status)))
            else pbind remaining (\<lambda>len. pbind (copy_to_bytes len) (\<lambda>payload.
                   preturn (Some payload, None)))) (\<lambda>(payload, object_status).
       if properties \<noteq> None \<and> (case object_status of Some s \<Rightarrow> s \<noteq> OS_Normal | None \<Rightarrow> False)
       then pfail (ProtocolViolation ''Datagram::deserialize'')
       else preturn \<lparr> dg_track_alias = track_alias, dg_group_id = group_id, dg_object_id = object_id,
              dg_publisher_priority = priority, dg_properties = properties, dg_payload = payload,
              dg_object_status = object_status, dg_end_of_group = is_end_of_group msg_type \<rparr>))))))))"

subsection \<open>Lemmas\<close>

lemma word_of_length_eq_0: "length xs < 2 ^ 64 \<Longrightarrow> word_of_nat (length xs) = (0 :: u64) \<longleftrightarrow> xs = []"
  by (simp add: word_unat_eq_iff)

lemma word_of_length_pos:
  "length xs < 2 ^ 64 \<Longrightarrow> xs \<noteq> [] \<Longrightarrow> (0 :: u64) < word_of_nat (length xs)"
  by (simp add: word_less_nat_alt)

lemma pbind_assoc: "pbind (pbind p f) g = pbind p (\<lambda>x. pbind (f x) g)"
  by (rule ext) (simp add: pbind_def split: prod.split sum.split)

lemma pbind_require_enough [simp]:
  "n \<le> length bs \<Longrightarrow> pbind (require_bytes ctx n) f bs = f () bs"
  by simp

lemma pbind_copy [simp]: "pbind (copy_to_bytes (length xs)) f (xs @ rest) = f xs rest"
  by simp

lemma pbind_copy_all: "pbind (copy_to_bytes (length xs)) f xs = f xs []"
  by (simp add: pbind_def copy_to_bytes_def)

lemma pbind_remaining [simp]: "pbind remaining f bs = f (length bs) bs"
  by (simp add: pbind_def remaining_def)

lemma object_status_wire [simp]: "object_status_try_from (object_status_to_wire s) = Inr s"
  by (rule os_enum.try_to)

definition subgroup_object_normal :: "bool \<Rightarrow> subgroup_object \<Rightarrow> subgroup_object" where
  "subgroup_object_normal has_properties ob =
     ob\<lparr> so_properties := (if has_properties
           then Some (sort_key object_property_type_value (props_or_empty (so_properties ob))) else None),
         so_object_status := (if bytes_or_empty (so_payload ob) \<noteq> [] then None
             else Some (status_or_normal (so_object_status ob))),
         so_payload := (if bytes_or_empty (so_payload ob) \<noteq> [] then so_payload ob else None) \<rparr>"

lemma read_subgroup_properties_write:
  assumes "deserialize_object_properties ext = (Inr ps, [])" "ext = [] \<Longrightarrow> ps = []" "length ext < 2 ^ 64"
  shows "read_subgroup_properties True (put_vi (word_of_nat (length ext)) @ ext @ rest) = (Inr (Some ps), rest)"
proof (cases "ext = []")
  case True
  with assms(2) show ?thesis by (simp add: read_subgroup_properties_def)
next
  case False
  with assms(1,3) show ?thesis by (simp add: read_subgroup_properties_def word_of_length_pos)
qed

lemma read_datagram_properties_write:
  assumes "deserialize_object_properties ext = (Inr ps, [])" "ext \<noteq> []" "length ext < 2 ^ 64"
  shows "read_datagram_properties (put_vi (word_of_nat (length ext)) @ ext @ rest) = (Inr (Some ps), rest)"
  using assms by (simp add: read_datagram_properties_def word_of_length_eq_0)

lemma read_subgroup_body_payload:
  assumes "payload \<noteq> []" "length payload < 2 ^ 64"
  shows "read_subgroup_body (put_vi (word_of_nat (length payload)) @ payload @ rest)
    = (Inr (None, Some payload), rest)"
  using assms by (simp add: read_subgroup_body_def word_of_length_eq_0)

lemma read_subgroup_body_status:
  "read_subgroup_body (put_vi 0 @ put_vi (object_status_to_wire s) @ rest) = (Inr (Some s, None), rest)"
  by (simp add: read_subgroup_body_def)

lemma subgroup_object_roundtrip:
  assumes wf: "\<forall>p \<in> set (props_or_empty (so_properties ob)). object_property_wf p"
    and hp: "has_properties \<or> props_or_empty (so_properties ob) = []"
  shows "\<exists>bs. subgroup_object_serialize ob prev has_properties = Inr bs
    \<and> (length bs < 2 ^ 64 \<longrightarrow> subgroup_object_deserialize prev has_properties (bs @ rest)
          = (Inr (subgroup_object_normal has_properties ob), rest))"
proof -
  let ?ps = "props_or_empty (so_properties ob)"
  let ?n = "subgroup_object_normal has_properties ob"
  from object_properties_write [OF wf] obtain ext where
    ext: "serialize_object_properties ?ps = Inr ext"
      "deserialize_object_properties ext = (Inr (sort_key object_property_type_value ?ps), [])"
      "?ps \<noteq> [] \<Longrightarrow> ext \<noteq> []" by blast
  let ?pl = "bytes_or_empty (so_payload ob)"
  define body where "body = (if ?pl \<noteq> [] then put_vi (word_of_nat (length ?pl)) @ ?pl
     else put_vi 0 @ put_vi (object_status_to_wire (status_or_normal (so_object_status ob))))"
  define delta where "delta = (case prev of Some i \<Rightarrow> so_object_id ob - i - 1 | None \<Rightarrow> so_object_id ob)"
  define props where "props = (if has_properties then put_vi (word_of_nat (length ext)) @ ext else [])"
  have ser: "subgroup_object_serialize ob prev has_properties = Inr (put_vi delta @ props @ body)"
    using hp ext by (auto simp: subgroup_object_serialize_def delta_def props_def body_def Let_def)
  have "subgroup_object_deserialize prev has_properties ((put_vi delta @ props @ body) @ rest) = (Inr ?n, rest)"
    if len: "length (put_vi delta @ props @ body) < 2 ^ 64"
  proof -
    have "sort_key object_property_type_value ?ps = []" if "ext = []" using ext(3) that by force
    then have p: "read_subgroup_properties has_properties (props @ tl)
        = (Inr (so_properties ?n), tl)" for tl
      using read_subgroup_properties_write [OF ext(2), of tl] len
      by (auto simp: props_def subgroup_object_normal_def read_subgroup_properties_def)
    have b: "read_subgroup_body (body @ rest) = (Inr (so_object_status ?n, so_payload ?n), rest)"
    proof (cases "?pl = []")
      case True
      then show ?thesis
        by (simp add: body_def subgroup_object_normal_def read_subgroup_body_status)
    next
      case False
      then have "so_payload ob = Some ?pl" by (simp split: option.splits)
      with False len read_subgroup_body_payload [OF False, of rest] show ?thesis
        by (simp add: body_def subgroup_object_normal_def)
    qed
    have "(case prev of Some i \<Rightarrow> i + delta + 1 | None \<Rightarrow> delta) = so_object_id ?n"
      by (simp add: delta_def subgroup_object_normal_def split: option.split)
    with p b show ?thesis by (simp add: subgroup_object_deserialize_def Let_def)
  qed
  with ser show ?thesis by blast
qed

definition datagram_normal :: "datagram \<Rightarrow> datagram" where
  "datagram_normal d =
     d\<lparr> dg_properties := (if props_or_empty (dg_properties d) \<noteq> []
            then Some (sort_key object_property_type_value (props_or_empty (dg_properties d))) else None),
        dg_payload := (if dg_object_status d = None then Some (bytes_or_empty (dg_payload d)) else None) \<rparr>"

text \<open>A status other than Normal excludes properties, and STATUS excludes END_OF_GROUP.\<close>

definition datagram_coherent :: "datagram \<Rightarrow> bool" where
  "datagram_coherent d \<longleftrightarrow>
     \<not> (dg_end_of_group d \<and> dg_object_status d \<noteq> None)
     \<and> (props_or_empty (dg_properties d) \<noteq> [] \<longrightarrow> dg_object_status d \<in> {None, Some OS_Normal})"

lemma datagram_write:
  assumes wf: "\<forall>p \<in> set (props_or_empty (dg_properties d)). object_property_wf p"
    and ok: "\<not> (dg_end_of_group d \<and> dg_object_status d \<noteq> None)"
  obtains t ext props where
    "odt_from_properties (props_or_empty (dg_properties d) \<noteq> []) (dg_end_of_group d) (dg_object_id d = 0)
       (dg_publisher_priority d = None) (dg_object_status d \<noteq> None) = Inr t"
    "datagram_serialize d = Inr (put_vi (odt_to_wire t) @ put_vi (dg_track_alias d) @ put_vi (dg_group_id d)
          @ (if dg_object_id d \<noteq> 0 then put_vi (dg_object_id d) else [])
          @ (case dg_publisher_priority d of Some p \<Rightarrow> [p] | None \<Rightarrow> []) @ props
          @ (case dg_object_status d of Some s \<Rightarrow> put_vi (object_status_to_wire s)
             | None \<Rightarrow> bytes_or_empty (dg_payload d)))"
    "props = (if props_or_empty (dg_properties d) \<noteq> [] then put_vi (word_of_nat (length ext)) @ ext else [])"
    "deserialize_object_properties ext
       = (Inr (sort_key object_property_type_value (props_or_empty (dg_properties d))), [])"
    "props_or_empty (dg_properties d) \<noteq> [] \<Longrightarrow> ext \<noteq> []"
proof -
  let ?ps = "props_or_empty (dg_properties d)"
  from object_properties_write [OF wf] obtain ext where
    ext: "serialize_object_properties ?ps = Inr ext"
      "deserialize_object_properties ext = (Inr (sort_key object_property_type_value ?ps), [])"
      "?ps \<noteq> [] \<Longrightarrow> ext \<noteq> []" by blast
  from ok obtain t where t: "odt_from_properties (?ps \<noteq> []) (dg_end_of_group d) (dg_object_id d = 0)
       (dg_publisher_priority d = None) (dg_object_status d \<noteq> None) = Inr t"
    by (auto simp: odt_from_properties_cases)
  note flags = odt_from_properties_flags [OF t]
  show thesis
  proof (rule that [OF t _ refl ext(2,3)])
    show "datagram_serialize d = Inr (put_vi (odt_to_wire t) @ put_vi (dg_track_alias d) @ put_vi (dg_group_id d)
          @ (if dg_object_id d \<noteq> 0 then put_vi (dg_object_id d) else [])
          @ (case dg_publisher_priority d of Some p \<Rightarrow> [p] | None \<Rightarrow> [])
          @ (if ?ps \<noteq> [] then put_vi (word_of_nat (length ext)) @ ext else [])
          @ (case dg_object_status d of Some s \<Rightarrow> put_vi (object_status_to_wire s)
             | None \<Rightarrow> bytes_or_empty (dg_payload d)))"
      using ext(1) t flags by (cases "dg_publisher_priority d") (simp_all add: datagram_serialize_def Let_def)
  qed
qed

lemma optional_vi:
  "pbind (if c then get_vi else preturn 0) f ((if c then put_vi v else []) @ rest) = f (if c then v else 0) rest"
  by simp

lemma optional_priority:
  "pbind (if pr \<noteq> None then pbind (get_u8_checked ctx) (\<lambda>p. preturn (Some p)) else preturn None) f
     ((case pr of Some p \<Rightarrow> [p] | None \<Rightarrow> []) @ rest) = f pr rest"
  by (cases pr) simp_all

lemma datagram_tail:
  "pbind (if st \<noteq> None
          then pbind get_vi (\<lambda>raw. pbind (plift (object_status_try_from raw)) (\<lambda>s. preturn (None, Some s)))
          else pbind remaining (\<lambda>len. pbind (copy_to_bytes len) (\<lambda>payload. preturn (Some payload, None)))) f
     (case st of Some s \<Rightarrow> put_vi (object_status_to_wire s) | None \<Rightarrow> pl)
   = f (if st = None then Some pl else None, st) []"
  by (cases st) (simp_all add: pbind_assoc pbind_copy_all)

lemma datagram_roundtrip:
  assumes wf: "\<forall>p \<in> set (props_or_empty (dg_properties d)). object_property_wf p"
    and ok: "\<not> (dg_end_of_group d \<and> dg_object_status d \<noteq> None)"
    and len: "datagram_serialize d = Inr bs" "length bs < 2 ^ 64"
  shows "datagram_deserialize bs =
    (if datagram_coherent d then Inr (datagram_normal d) else Inl (ProtocolViolation ''Datagram::deserialize''), [])"
proof -
  let ?ps = "props_or_empty (dg_properties d)"
  from datagram_write [OF wf ok] obtain t ext props where
    t: "odt_from_properties (?ps \<noteq> []) (dg_end_of_group d) (dg_object_id d = 0)
       (dg_publisher_priority d = None) (dg_object_status d \<noteq> None) = Inr t"
    and ser: "datagram_serialize d = Inr (put_vi (odt_to_wire t) @ put_vi (dg_track_alias d) @ put_vi (dg_group_id d)
          @ (if dg_object_id d \<noteq> 0 then put_vi (dg_object_id d) else [])
          @ (case dg_publisher_priority d of Some p \<Rightarrow> [p] | None \<Rightarrow> []) @ props
          @ (case dg_object_status d of Some s \<Rightarrow> put_vi (object_status_to_wire s)
             | None \<Rightarrow> bytes_or_empty (dg_payload d)))" (is "_ = Inr ?out")
    and props: "props = (if ?ps \<noteq> [] then put_vi (word_of_nat (length ext)) @ ext else [])"
    and ext: "deserialize_object_properties ext = (Inr (sort_key object_property_type_value ?ps), [])"
      "?ps \<noteq> [] \<Longrightarrow> ext \<noteq> []" by blast
  note flags = odt_from_properties_flags [OF t]
  from len ser have bs: "bs = ?out" and short: "length ext < 2 ^ 64" if "?ps \<noteq> []"
    using props that by auto
  have read: "pbind (if ?ps \<noteq> [] then read_datagram_properties else preturn None) f (props @ tl)
      = f (dg_properties (datagram_normal d)) tl" for f :: "_ \<Rightarrow> datagram parser" and tl
    using read_datagram_properties_write [OF ext(1) ext(2), of tl] short
    by (auto simp: props datagram_normal_def)
  have "bs = ?out" using len(1) ser by simp
  then have "datagram_deserialize bs =
     (if dg_properties (datagram_normal d) \<noteq> None
         \<and> (case dg_object_status d of Some s \<Rightarrow> s \<noteq> OS_Normal | None \<Rightarrow> False)
      then pfail (ProtocolViolation ''Datagram::deserialize'')
      else preturn (datagram_normal d)) []"
    by (simp only: datagram_deserialize_def vi_chain flags pbind_plift optional_vi read
        optional_priority datagram_tail prod.case)
       (simp add: datagram_normal_def)
  with ok show ?thesis
    by (auto simp: datagram_coherent_def datagram_normal_def split: option.splits)
qed

subsection \<open>Properties\<close>

text \<open>C26. A subgroup object always serialises when its properties are well formed and the stream
  carries properties, and its reader returns its normal form: properties sorted by type, an
  explicit status exactly where there is no payload. An object in normal form is read back
  unchanged.\<close>

theorem subgroup_object_wire:
  assumes "\<forall>p \<in> set (props_or_empty (so_properties ob)). object_property_wf p"
    and "has_properties \<or> props_or_empty (so_properties ob) = []"
  shows "\<exists>bs. subgroup_object_serialize ob prev has_properties = Inr bs
    \<and> (length bs < 2 ^ 64 \<longrightarrow> subgroup_object_deserialize prev has_properties (bs @ rest)
          = (Inr (subgroup_object_normal has_properties ob), rest))"
  using assms by (rule subgroup_object_roundtrip)

theorem subgroup_object_wire_witness:
  "\<exists>bs. subgroup_object_serialize
       \<lparr> so_object_id = 9, so_properties = Some [OP_PriorObjectIdGap 2], so_object_status = None,
         so_payload = Some [1, 2] \<rparr> (Some 6) True = Inr bs"
  using subgroup_object_wire [of "\<lparr> so_object_id = 9, so_properties = Some [OP_PriorObjectIdGap 2],
      so_object_status = None, so_payload = Some [1, 2] \<rparr>" True "Some 6" "[]"]
  by (auto simp: object_property_wf_def)

text \<open>The Object IDs of a subgroup stream ascend only as long as the running ID does not
  exceed 64 bits: the reader adds the delta without a check, and past the bound the ID it
  returns lies at or below the previous one.\<close>

lemma subgroup_object_id_wraps:
  assumes "subgroup_object_deserialize (Some prev) has_properties bs = (Inr ob, rest)"
    and "get_vi bs = (Inr delta, bs')"
  shows "(unat (so_object_id ob) = unat prev + unat delta + 1 \<longleftrightarrow> unat prev + unat delta + 1 < 2 ^ 64)
    \<and> (prev < so_object_id ob \<longleftrightarrow> unat prev + unat delta + 1 < 2 ^ 64)"
proof -
  have id: "so_object_id ob = prev + delta + 1"
    using assms by (auto simp: subgroup_object_deserialize_def pbind_Inr_iff Let_def)
  then have n: "unat (so_object_id ob) = (unat prev + unat delta + 1) mod 2 ^ 64"
    by (simp add: unat_word_ariths mod_simps)
  show ?thesis
  proof (cases "unat prev + unat delta + 1 < 2 ^ 64")
    case True
    with n show ?thesis by (simp add: word_less_nat_alt)
  next
    case False
    then have "(unat prev + unat delta + 1) mod 2 ^ 64 = unat prev + unat delta + 1 - 2 ^ 64"
      using unat_u64_less [of prev] unat_u64_less [of delta] by (subst le_mod_geq) (simp_all del: unat_u64_less)
    with n False unat_u64_less [of delta] show ?thesis
      by (simp add: word_less_nat_alt del: unat_u64_less) (rule conjI; linarith)
  qed
qed

text \<open>C27. A datagram serialises unless it combines a status with END_OF_GROUP; its reader
  returns its normal form, or, for a status other than Normal with properties, reports a
  protocol violation.\<close>

theorem datagram_wire:
  assumes "\<forall>p \<in> set (props_or_empty (dg_properties d)). object_property_wf p"
  shows "((\<exists>bs. datagram_serialize d = Inr bs) \<longleftrightarrow> \<not> (dg_end_of_group d \<and> dg_object_status d \<noteq> None))
    \<and> (datagram_serialize d = Inr bs \<and> length bs < 2 ^ 64 \<longrightarrow>
         datagram_deserialize bs = (if datagram_coherent d then Inr (datagram_normal d)
           else Inl (ProtocolViolation ''Datagram::deserialize''), []))"
proof -
  have "\<not> (dg_end_of_group d \<and> dg_object_status d \<noteq> None)" if "datagram_serialize d = Inr out" for out
    using that by (auto simp: datagram_serialize_def rbind_Inr_iff odt_from_properties_cases Let_def
        split: if_splits)
  moreover have "\<exists>bs. datagram_serialize d = Inr bs"
    if "\<not> (dg_end_of_group d \<and> dg_object_status d \<noteq> None)"
    using datagram_write [OF assms that] by metis
  ultimately show ?thesis using datagram_roundtrip [OF assms] by blast
qed

theorem datagram_wire_witness:
  "(\<exists>bs. datagram_serialize (datagram_new 1 2 3 4 [5]) = Inr bs)
   \<and> \<not> (\<exists>bs. datagram_serialize (datagram_new_status 1 2 3 None None OS_EndOfGroup \<lparr> dg_end_of_group := True \<rparr>) = Inr bs)"
  using datagram_wire [of "datagram_new 1 2 3 4 [5]"]
    datagram_wire [of "datagram_new_status 1 2 3 None None OS_EndOfGroup \<lparr> dg_end_of_group := True \<rparr>"]
  by (simp add: datagram_new_def datagram_new_status_def)

end
