(* ===== verification/Fetch_Object.thy ===== *)
theory Fetch_Object
  imports Data_Objects
begin

text \<open>
  The entries of a FETCH stream (\<open>libs/moqtail-rs/src/model/data/fetch_object.rs\<close>): Objects
  written as differences from the entry before them, and End-of-Range markers. The writer
  and the reader both carry a context (the prior entry); the theory shows that a whole
  stream of entries is read back entry by entry, and states exactly which single entries
  the writer accepts. Group and Object deltas are checked by both sides; the Subgroup ID of
  mode "prior plus one" is computed with wrapping arithmetic, as the release build does.
\<close>

abbreviation (input) "FLAG_SUBGROUP_MODE_MASK \<equiv> (0x03 :: u8)"
abbreviation (input) "FLAG_OBJECT_ID_PRESENT \<equiv> (0x04 :: u8)"
abbreviation (input) "FLAG_GROUP_ID_PRESENT \<equiv> (0x08 :: u8)"
abbreviation (input) "FLAG_PRIORITY_PRESENT \<equiv> (0x10 :: u8)"
abbreviation (input) "FLAG_PROPERTIES_PRESENT \<equiv> (0x20 :: u8)"
abbreviation (input) "FLAG_DATAGRAM \<equiv> (0x40 :: u8)"

abbreviation (input) "SUBGROUP_MODE_ZERO \<equiv> (0 :: u8)"
abbreviation (input) "SUBGROUP_MODE_PRIOR \<equiv> (1 :: u8)"
abbreviation (input) "SUBGROUP_MODE_PRIOR_PLUS_ONE \<equiv> (2 :: u8)"
abbreviation (input) "SUBGROUP_MODE_PRESENT \<equiv> (3 :: u8)"

record fetch_object_context =
  fc_group_id :: u64
  fc_subgroup_id :: "u64 option"
  fc_object_id :: u64
  fc_publisher_priority :: "u8 option"

datatype end_of_range_kind = NonExistent | UnknownRange | TimedOut

fun as_flag_value :: "end_of_range_kind \<Rightarrow> u64" where
  "as_flag_value NonExistent = 0x8C"
| "as_flag_value UnknownRange = 0x10C"
| "as_flag_value TimedOut = 0x20C"

record fetch_object_payload =
  fo_group_id :: u64
  fo_subgroup_id :: u64
  fo_object_id :: u64
  fo_publisher_priority :: u8
  fo_forwarding_preference :: object_forwarding_preference
  fo_properties :: "object_property list option"
  fo_payload :: bytes

datatype fetch_object =
    FetchedObject fetch_object_payload
  | EndOfRange end_of_range_kind u64 u64

fun next_context :: "fetch_object \<Rightarrow> fetch_object_context option \<Rightarrow> fetch_object_context" where
  "next_context (FetchedObject p) prev =
     \<lparr> fc_group_id = fo_group_id p, fc_subgroup_id = Some (fo_subgroup_id p),
       fc_object_id = fo_object_id p, fc_publisher_priority = Some (fo_publisher_priority p) \<rparr>"
| "next_context (EndOfRange kind group_id object_id) prev =
     \<lparr> fc_group_id = group_id, fc_subgroup_id = Option.bind prev fc_subgroup_id,
       fc_object_id = object_id, fc_publisher_priority = Option.bind prev fc_publisher_priority \<rparr>"

subsection \<open>Writing\<close>

definition fetch_group_delta ::
  "fetch_object_context option \<Rightarrow> group_order \<Rightarrow> fetch_object_payload \<Rightarrow> u64 option res" where
  "fetch_group_delta prev group_order p = (case prev of
       None \<Rightarrow> Inr (Some (fo_group_id p))
     | Some pc \<Rightarrow>
         if fc_group_id pc = fo_group_id p then Inr None
         else
           (let delta = (if group_order = GO_Descending
                         then Option.bind (checked_sub (fc_group_id pc) (fo_group_id p)) (\<lambda>d. checked_sub d 1)
                         else Option.bind (checked_sub (fo_group_id p) (fc_group_id pc)) (\<lambda>d. checked_sub d 1))
            in rbind (ok_or (ProtocolViolation ''FetchObject::serialize'') delta) (\<lambda>d. Inr (Some d))))"

definition fetch_object_delta ::
  "fetch_object_context option \<Rightarrow> u64 option \<Rightarrow> fetch_object_payload \<Rightarrow> u64 option res" where
  "fetch_object_delta prev group_delta p = (case prev of
       None \<Rightarrow> Inr (Some (fo_object_id p))
     | Some pc \<Rightarrow>
         if group_delta \<noteq> None then Inr (Some (fo_object_id p))
         else if fc_object_id pc + 1 = fo_object_id p then Inr None
         else rbind (ok_or (ProtocolViolation ''FetchObject::serialize'')
                       (checked_sub (fo_object_id p) (fc_object_id pc))) (\<lambda>d. Inr (Some d)))"

definition fetch_has_priority :: "fetch_object_context option \<Rightarrow> fetch_object_payload \<Rightarrow> bool" where
  "fetch_has_priority prev p = (case prev of
       Some pc \<Rightarrow> fc_publisher_priority pc \<noteq> Some (fo_publisher_priority p) | None \<Rightarrow> True)"

definition fetch_subgroup_mode :: "fetch_object_context option \<Rightarrow> fetch_object_payload \<Rightarrow> u8" where
  "fetch_subgroup_mode prev p =
     (if fo_forwarding_preference p = FP_Datagram \<or> fo_subgroup_id p = 0 then SUBGROUP_MODE_ZERO
      else (case prev of
              Some pc \<Rightarrow>
                if fc_subgroup_id pc = Some (fo_subgroup_id p) then SUBGROUP_MODE_PRIOR
                else if map_option (\<lambda>s. s + 1) (fc_subgroup_id pc) = Some (fo_subgroup_id p)
                then SUBGROUP_MODE_PRIOR_PLUS_ONE
                else SUBGROUP_MODE_PRESENT
            | None \<Rightarrow> SUBGROUP_MODE_PRESENT))"

definition fetch_flags :: "u8 \<Rightarrow> bool \<Rightarrow> bool \<Rightarrow> bool \<Rightarrow> bool \<Rightarrow> bool \<Rightarrow> u8" where
  "fetch_flags subgroup_mode has_object has_group has_priority has_properties is_datagram =
     (let flags = subgroup_mode AND FLAG_SUBGROUP_MODE_MASK;
          flags = (if has_object then flags OR FLAG_OBJECT_ID_PRESENT else flags);
          flags = (if has_group then flags OR FLAG_GROUP_ID_PRESENT else flags);
          flags = (if has_priority then flags OR FLAG_PRIORITY_PRESENT else flags);
          flags = (if has_properties then flags OR FLAG_PROPERTIES_PRESENT else flags)
      in (if is_datagram then flags OR FLAG_DATAGRAM else flags))"

definition put_optional_vi :: "u64 option \<Rightarrow> bytes" where
  "put_optional_vi v = (case v of Some d \<Rightarrow> put_vi d | None \<Rightarrow> [])"

definition serialize_payload ::
  "fetch_object_payload \<Rightarrow> fetch_object_context option \<Rightarrow> group_order \<Rightarrow> bytes res" where
  "serialize_payload p prev group_order =
     (let is_datagram = (fo_forwarding_preference p = FP_Datagram) in
      rbind (fetch_group_delta prev group_order p) (\<lambda>group_delta.
      rbind (fetch_object_delta prev group_delta p) (\<lambda>object_delta.
      let has_priority = fetch_has_priority prev p;
          has_properties = (props_or_empty (fo_properties p) \<noteq> []);
          subgroup_mode = fetch_subgroup_mode prev p;
          flags = fetch_flags subgroup_mode (object_delta \<noteq> None) (group_delta \<noteq> None)
                    has_priority has_properties is_datagram in
      rbind (if has_properties
             then rbind (serialize_object_properties (props_or_empty (fo_properties p)))
                    (\<lambda>ext. Inr (put_vi (word_of_nat (length ext)) @ ext))
             else Inr []) (\<lambda>props.
        Inr (put_vi (ucast flags) @ put_optional_vi group_delta
          @ (if \<not> is_datagram \<and> subgroup_mode = SUBGROUP_MODE_PRESENT then put_vi (fo_subgroup_id p) else [])
          @ put_optional_vi object_delta
          @ (if has_priority then [fo_publisher_priority p] else [])
          @ props @ put_vi (word_of_nat (length (fo_payload p))) @ fo_payload p)))))"

fun fetch_object_serialize ::
  "fetch_object \<Rightarrow> fetch_object_context option \<Rightarrow> group_order \<Rightarrow> bytes res" where
  "fetch_object_serialize (EndOfRange kind group_id object_id) prev group_order =
     Inr (put_vi (as_flag_value kind) @ put_vi group_id @ put_vi object_id)"
| "fetch_object_serialize (FetchedObject p) prev group_order = serialize_payload p prev group_order"

subsection \<open>Reading\<close>

definition read_fetch_group ::
  "bool \<Rightarrow> fetch_object_context option \<Rightarrow> group_order \<Rightarrow> u64 parser" where
  "read_fetch_group has_group_id prev group_order =
     (if has_group_id
      then pbind get_vi (\<lambda>delta. case prev of
             None \<Rightarrow> preturn delta
           | Some pc \<Rightarrow>
               (let computed = (if group_order = GO_Descending
                                then Option.bind (checked_add delta 1) (\<lambda>step. checked_sub (fc_group_id pc) step)
                                else Option.bind (checked_add (fc_group_id pc) delta) (\<lambda>v. checked_add v 1))
                in plift (ok_or (ProtocolViolation ''FetchObject::deserialize'') computed)))
      else pbind (plift (ok_or (ProtocolViolation ''FetchObject::deserialize'') prev))
             (\<lambda>pc. preturn (fc_group_id pc)))"

definition read_fetch_subgroup ::
  "bool \<Rightarrow> u8 \<Rightarrow> fetch_object_context option \<Rightarrow> u64 parser" where
  "read_fetch_subgroup is_datagram subgroup_mode prev =
     (if is_datagram then preturn 0
      else if subgroup_mode = SUBGROUP_MODE_ZERO then preturn 0
      else if subgroup_mode = SUBGROUP_MODE_PRIOR
      then plift (ok_or (ProtocolViolation ''FetchObject::deserialize'') (Option.bind prev fc_subgroup_id))
      else if subgroup_mode = SUBGROUP_MODE_PRIOR_PLUS_ONE
      then pbind (plift (ok_or (ProtocolViolation ''FetchObject::deserialize'')
                           (Option.bind prev fc_subgroup_id))) (\<lambda>s. preturn (s + 1))
      else get_vi)"

definition read_fetch_object_id ::
  "bool \<Rightarrow> bool \<Rightarrow> fetch_object_context option \<Rightarrow> u64 parser" where
  "read_fetch_object_id has_object_id has_group_id prev =
     (if has_object_id
      then pbind get_vi (\<lambda>delta. case prev of
             None \<Rightarrow> preturn delta
           | Some pc \<Rightarrow>
               if has_group_id then preturn delta
               else plift (ok_or (ProtocolViolation ''FetchObject::deserialize'')
                             (checked_add (fc_object_id pc) delta)))
      else pbind (plift (ok_or (ProtocolViolation ''FetchObject::deserialize'') prev)) (\<lambda>pc.
             plift (ok_or (ProtocolViolation ''FetchObject::deserialize'') (checked_add (fc_object_id pc) 1))))"

definition read_fetch_priority :: "bool \<Rightarrow> fetch_object_context option \<Rightarrow> u8 parser" where
  "read_fetch_priority has_priority prev =
     (if has_priority then get_u8_checked ''FetchObject::deserialize(priority)''
      else plift (ok_or (ProtocolViolation ''FetchObject::deserialize'')
                    (Option.bind prev fc_publisher_priority)))"

definition read_fetch_properties :: "bool \<Rightarrow> object_property list option parser" where
  "read_fetch_properties has_properties =
     (if has_properties
      then pbind get_vi (\<lambda>ext_len.
           pbind (plift (try_into_usize ''FetchObject::deserialize(ext_len)'' ext_len)) (\<lambda>ext_len.
           pbind (require_bytes ''FetchObject::deserialize(properties)'' ext_len) (\<lambda>_.
           pbind (copy_to_bytes ext_len) (\<lambda>header_bytes.
           pbind (plift (map_err (\<lambda>_. ProtocolViolation ''FetchObject::deserialize(properties)'')
                    (fst (deserialize_object_properties header_bytes)))) (\<lambda>headers.
             preturn (Some headers))))))
      else preturn None)"

definition read_fetch_payload :: "bytes parser" where
  "read_fetch_payload =
     pbind get_vi (\<lambda>payload_len.
     pbind (plift (try_into_usize ''FetchObject::deserialize(payload_len)'' payload_len)) (\<lambda>payload_len.
     pbind (require_bytes ''FetchObject::deserialize(payload)'' payload_len) (\<lambda>_.
       copy_to_bytes payload_len)))"

definition end_of_range_kind_of :: "u64 \<Rightarrow> end_of_range_kind res" where
  "end_of_range_kind_of flags_raw =
     (if flags_raw = 0x8C then Inr NonExistent
      else if flags_raw = 0x10C then Inr UnknownRange
      else if flags_raw = 0x20C then Inr TimedOut
      else Inl (ProtocolViolation ''FetchObject::deserialize''))"

definition fetch_object_deserialize ::
  "fetch_object_context option \<Rightarrow> group_order \<Rightarrow> fetch_object parser" where
  "fetch_object_deserialize prev group_order =
     pbind get_vi (\<lambda>flags_raw.
       if flags_raw \<ge> 128
       then pbind (plift (end_of_range_kind_of flags_raw)) (\<lambda>kind.
            pbind get_vi (\<lambda>group_id. pbind get_vi (\<lambda>object_id.
              preturn (EndOfRange kind group_id object_id))))
       else
         (let flags = (ucast flags_raw :: u8);
              subgroup_mode = flags AND FLAG_SUBGROUP_MODE_MASK;
              has_object_id = (flags AND FLAG_OBJECT_ID_PRESENT \<noteq> 0);
              has_group_id = (flags AND FLAG_GROUP_ID_PRESENT \<noteq> 0);
              has_priority = (flags AND FLAG_PRIORITY_PRESENT \<noteq> 0);
              has_properties = (flags AND FLAG_PROPERTIES_PRESENT \<noteq> 0);
              is_datagram = (flags AND FLAG_DATAGRAM \<noteq> 0) in
          if prev = None \<and> (\<not> has_object_id \<or> \<not> has_group_id \<or> \<not> has_priority)
          then pfail (ProtocolViolation ''FetchObject::deserialize'')
          else if prev = None \<and> \<not> is_datagram \<and>
             (subgroup_mode = SUBGROUP_MODE_PRIOR \<or> subgroup_mode = SUBGROUP_MODE_PRIOR_PLUS_ONE)
          then pfail (ProtocolViolation ''FetchObject::deserialize'')
          else
            pbind (read_fetch_group has_group_id prev group_order) (\<lambda>group_id.
            pbind (read_fetch_subgroup is_datagram subgroup_mode prev) (\<lambda>subgroup_id.
            pbind (read_fetch_object_id has_object_id has_group_id prev) (\<lambda>object_id.
            pbind (read_fetch_priority has_priority prev) (\<lambda>publisher_priority.
            pbind (read_fetch_properties has_properties) (\<lambda>properties.
            pbind read_fetch_payload (\<lambda>payload.
              preturn (FetchedObject
                \<lparr> fo_group_id = group_id,
                  fo_subgroup_id = (if is_datagram then object_id else subgroup_id),
                  fo_object_id = object_id, fo_publisher_priority = publisher_priority,
                  fo_forwarding_preference = (if is_datagram then FP_Datagram else FP_Subgroup),
                  fo_properties = properties, fo_payload = payload \<rparr>)))))))))"

subsection \<open>Lemmas\<close>

lemma fetch_flags_read:
  assumes "m \<in> {0, 1, 2, 3}"
  shows "fetch_flags m ob g pr ps d AND FLAG_SUBGROUP_MODE_MASK = m"
    "fetch_flags m ob g pr ps d AND FLAG_OBJECT_ID_PRESENT \<noteq> 0 \<longleftrightarrow> ob"
    "fetch_flags m ob g pr ps d AND FLAG_GROUP_ID_PRESENT \<noteq> 0 \<longleftrightarrow> g"
    "fetch_flags m ob g pr ps d AND FLAG_PRIORITY_PRESENT \<noteq> 0 \<longleftrightarrow> pr"
    "fetch_flags m ob g pr ps d AND FLAG_PROPERTIES_PRESENT \<noteq> 0 \<longleftrightarrow> ps"
    "fetch_flags m ob g pr ps d AND FLAG_DATAGRAM \<noteq> 0 \<longleftrightarrow> d"
    "\<not> bit (fetch_flags m ob g pr ps d) 7"
  using assms
  by (auto simp: fetch_flags_def Let_def flag_bits bit_simps u8_eq_bits [of _ "_ :: u8"])

lemma small_flags: "\<not> bit (v :: u8) 7 \<Longrightarrow> \<not> 128 \<le> (ucast v :: u64)"
proof -
  assume "\<not> bit v 7"
  then have "take_bit 7 v = v" by (auto simp: u8_eq_bits bit_simps)
  then have "take_bit 7 (unat v) = unat v" by (metis unsigned_take_bit_eq)
  then have "unat v < 2 ^ 7" by (metis take_bit_nat_less_exp)
  then show ?thesis by (simp add: word_le_nat_alt)
qed

lemma fetch_subgroup_mode_range [simp]: "fetch_subgroup_mode prev p \<in> {0, 1, 2, 3}"
  by (auto simp: fetch_subgroup_mode_def split: option.split)

lemma read_fetch_group_write:
  assumes "fetch_group_delta prev order p = Inr gd"
  shows "read_fetch_group (gd \<noteq> None) prev order (put_optional_vi gd @ rest) = (Inr (fo_group_id p), rest)"
proof (cases prev)
  case None
  with assms show ?thesis
    by (auto simp: fetch_group_delta_def read_fetch_group_def put_optional_vi_def)
next
  case (Some pc)
  show ?thesis
  proof (cases "fc_group_id pc = fo_group_id p")
    case True
    with Some assms show ?thesis
      by (auto simp: fetch_group_delta_def read_fetch_group_def put_optional_vi_def)
  next
    case False
    with Some assms obtain d e where gd: "gd = Some e"
      and desc: "order = GO_Descending \<Longrightarrow> checked_sub (fc_group_id pc) (fo_group_id p) = Some d \<and> checked_sub d 1 = Some e"
      and asc: "order \<noteq> GO_Descending \<Longrightarrow> checked_sub (fo_group_id p) (fc_group_id pc) = Some d \<and> checked_sub d 1 = Some e"
      by (auto simp: fetch_group_delta_def rbind_Inr_iff ok_or_Inr_iff Option.bind_eq_Some_conv
          split: if_splits)
    have "checked_add e 1 = Some d \<and> checked_sub (fc_group_id pc) d = Some (fo_group_id p)"
      if "order = GO_Descending"
      using desc [OF that] by (simp add: wrap_simps)
    moreover have "\<exists>v. checked_add (fc_group_id pc) e = Some v \<and> checked_add v 1 = Some (fo_group_id p)"
      if "order \<noteq> GO_Descending"
    proof -
      from asc [OF that] have n: "unat (fo_group_id p) = unat (fc_group_id pc) + unat e + 1"
        by (simp add: wrap_simps)
      then obtain v where v: "checked_add (fc_group_id pc) e = Some v"
        using unat_u64_less [of "fo_group_id p"] by (cases "checked_add (fc_group_id pc) e") (auto simp: wrap_simps)
      with n show ?thesis by (auto simp: wrap_simps)
    qed
    ultimately show ?thesis using gd Some
      by (auto simp: read_fetch_group_def put_optional_vi_def Let_def)
  qed
qed

definition fetch_object_id_wraps :: "fetch_object_context option \<Rightarrow> fetch_object_payload \<Rightarrow> bool" where
  "fetch_object_id_wraps prev p = (case prev of None \<Rightarrow> False
     | Some pc \<Rightarrow> fc_group_id pc = fo_group_id p \<and> fc_object_id pc = u64_MAX \<and> fo_object_id p = 0)"

lemma fetch_group_delta_None:
  "fetch_group_delta prev order p = Inr None \<longleftrightarrow> (\<exists>pc. prev = Some pc \<and> fc_group_id pc = fo_group_id p)"
  by (auto simp: fetch_group_delta_def rbind_Inr_iff Let_def split: option.splits)

lemma read_fetch_object_id_write:
  assumes gd: "fetch_group_delta prev order p = Inr gd" and od: "fetch_object_delta prev gd p = Inr od"
    and nw: "\<not> fetch_object_id_wraps prev p"
  shows "read_fetch_object_id (od \<noteq> None) (gd \<noteq> None) prev (put_optional_vi od @ rest) = (Inr (fo_object_id p), rest)"
proof (cases "prev = None \<or> gd \<noteq> None")
  case True
  with od show ?thesis
    by (auto simp: fetch_object_delta_def read_fetch_object_id_def put_optional_vi_def split: option.splits)
next
  case False
  with gd obtain pc where pc: "prev = Some pc" "gd = None" "fc_group_id pc = fo_group_id p"
    by (auto simp: fetch_group_delta_None)
  show ?thesis
  proof (cases "fc_object_id pc + 1 = fo_object_id p")
    case True
    with nw pc have "fc_object_id pc \<noteq> u64_MAX" by (auto simp: fetch_object_id_wraps_def)
    with True have "checked_add (fc_object_id pc) 1 = Some (fo_object_id p)"
      by (metis checked_add_1_None checked_add_def)
    with True pc od show ?thesis
      by (auto simp: fetch_object_delta_def read_fetch_object_id_def put_optional_vi_def)
  next
    case False
    with pc od obtain d where "od = Some d" "checked_sub (fo_object_id p) (fc_object_id pc) = Some d"
      by (auto simp: fetch_object_delta_def rbind_Inr_iff ok_or_Inr_iff)
    moreover from this have "checked_add (fc_object_id pc) d = Some (fo_object_id p)"
      by (simp add: wrap_simps)
    ultimately show ?thesis using pc by (simp add: read_fetch_object_id_def put_optional_vi_def)
  qed
qed

lemma read_fetch_subgroup_write:
  "read_fetch_subgroup (fo_forwarding_preference p = FP_Datagram) (fetch_subgroup_mode prev p) prev
     ((if fo_forwarding_preference p \<noteq> FP_Datagram \<and> fetch_subgroup_mode prev p = SUBGROUP_MODE_PRESENT
       then put_vi (fo_subgroup_id p) else []) @ rest)
   = (Inr (if fo_forwarding_preference p = FP_Datagram then 0 else fo_subgroup_id p), rest)"
  by (auto simp: read_fetch_subgroup_def fetch_subgroup_mode_def split: option.splits)

lemma read_fetch_priority_write:
  "read_fetch_priority (fetch_has_priority prev p) prev
     ((if fetch_has_priority prev p then [fo_publisher_priority p] else []) @ rest)
   = (Inr (fo_publisher_priority p), rest)"
  by (auto simp: read_fetch_priority_def fetch_has_priority_def split: option.splits)

lemma read_fetch_properties_write:
  assumes "deserialize_object_properties ext = (Inr ps, [])" "length ext < 2 ^ 64"
  shows "read_fetch_properties True (put_vi (word_of_nat (length ext)) @ ext @ rest) = (Inr (Some ps), rest)"
  using assms by (simp add: read_fetch_properties_def)

lemma read_fetch_payload_write:
  "length b < 2 ^ 64 \<Longrightarrow> read_fetch_payload (put_vi (word_of_nat (length b)) @ b @ rest) = (Inr b, rest)"
  by (simp add: read_fetch_payload_def)

definition fetch_payload_normal :: "fetch_object_payload \<Rightarrow> fetch_object_payload" where
  "fetch_payload_normal p =
     p\<lparr> fo_subgroup_id := (if fo_forwarding_preference p = FP_Datagram then fo_object_id p else fo_subgroup_id p),
        fo_properties := (if props_or_empty (fo_properties p) \<noteq> []
          then Some (sort_key object_property_type_value (props_or_empty (fo_properties p))) else None) \<rparr>"

abbreviation fetch_payload_wf :: "fetch_object_payload \<Rightarrow> bool" where
  "fetch_payload_wf p \<equiv> \<forall>q \<in> set (props_or_empty (fo_properties p)). object_property_wf q"

lemma serialize_payload_roundtrip:
  assumes wf: "fetch_payload_wf p" and ser: "serialize_payload p prev order = Inr bs"
    and len: "length bs < 2 ^ 64" and nw: "\<not> fetch_object_id_wraps prev p"
  shows "fetch_object_deserialize prev order (bs @ rest) = (Inr (FetchedObject (fetch_payload_normal p)), rest)"
proof -
  let ?ps = "props_or_empty (fo_properties p)"
  let ?dg = "fo_forwarding_preference p = FP_Datagram"
  let ?mode = "fetch_subgroup_mode prev p" and ?pr = "fetch_has_priority prev p"
  from object_properties_write [OF wf] obtain ext where
    ext: "serialize_object_properties ?ps = Inr ext"
      "deserialize_object_properties ext = (Inr (sort_key object_property_type_value ?ps), [])" by blast
  from ser obtain gd od where gd: "fetch_group_delta prev order p = Inr gd"
    and od: "fetch_object_delta prev gd p = Inr od"
    by (auto simp: serialize_payload_def rbind_Inr_iff Let_def)
  define props where "props = (if ?ps \<noteq> [] then put_vi (word_of_nat (length ext)) @ ext else [])"
  define flags where "flags = fetch_flags ?mode (od \<noteq> None) (gd \<noteq> None) ?pr (?ps \<noteq> []) ?dg"
  from ser gd od ext have bs: "bs = put_vi (ucast flags) @ put_optional_vi gd
      @ (if \<not> ?dg \<and> ?mode = SUBGROUP_MODE_PRESENT then put_vi (fo_subgroup_id p) else [])
      @ put_optional_vi od @ (if ?pr then [fo_publisher_priority p] else [])
      @ props @ put_vi (word_of_nat (length (fo_payload p))) @ fo_payload p"
    by (auto simp: serialize_payload_def Let_def props_def flags_def)
  note fl = fetch_flags_read [OF fetch_subgroup_mode_range, of prev p "od \<noteq> None" "gd \<noteq> None" ?pr "?ps \<noteq> []" ?dg,
      folded flags_def]
  have first: "od \<noteq> None \<and> gd \<noteq> None \<and> ?pr \<and> (?dg \<or> ?mode \<noteq> SUBGROUP_MODE_PRIOR \<and> ?mode \<noteq> SUBGROUP_MODE_PRIOR_PLUS_ONE)"
    if "prev = None"
    using gd od that
    by (auto simp: fetch_group_delta_def fetch_object_delta_def fetch_has_priority_def fetch_subgroup_mode_def)
  have "length ext < 2 ^ 64" if "?ps \<noteq> []" and pl: "length (fo_payload p) < 2 ^ 64"
    using len that by (auto simp: bs props_def)
  then have props: "read_fetch_properties (?ps \<noteq> []) (props @ tl) = (Inr (fo_properties (fetch_payload_normal p)), tl)" for tl
    using read_fetch_properties_write [OF ext(2), of tl] len
    by (auto simp: bs props_def fetch_payload_normal_def read_fetch_properties_def)
  have pl: "read_fetch_payload (put_vi (word_of_nat (length (fo_payload p))) @ fo_payload p @ rest)
      = (Inr (fo_payload p), rest)"
    using len by (intro read_fetch_payload_write) (simp add: bs)
  note steps = read_fetch_group_write [OF gd] read_fetch_subgroup_write [of p prev]
    read_fetch_object_id_write [OF gd od nw] read_fetch_priority_write [of prev p] props pl
  define ho hg hp dg where "ho = (od \<noteq> None)" and "hg = (gd \<noteq> None)" and "hp = (?ps \<noteq> [])"
    and "dg = ?dg"
  note folded = this [symmetric]
  have guard: "\<not> (prev = None \<and> (\<not> ho \<or> \<not> hg \<or> \<not> ?pr))"
    "\<not> (prev = None \<and> \<not> dg \<and> (?mode = SUBGROUP_MODE_PRIOR \<or> ?mode = SUBGROUP_MODE_PRIOR_PLUS_ONE))"
    using first by (auto simp: ho_def hg_def dg_def)
  have rd: "fetch_object_deserialize prev order (bs @ rest) =
      pbind (read_fetch_group hg prev order) (\<lambda>group_id.
      pbind (read_fetch_subgroup dg ?mode prev) (\<lambda>subgroup_id.
      pbind (read_fetch_object_id ho hg prev) (\<lambda>object_id.
      pbind (read_fetch_priority ?pr prev) (\<lambda>publisher_priority.
      pbind (read_fetch_properties hp) (\<lambda>properties.
      pbind read_fetch_payload (\<lambda>payload.
        preturn (FetchedObject
          \<lparr> fo_group_id = group_id, fo_subgroup_id = (if dg then object_id else subgroup_id),
            fo_object_id = object_id, fo_publisher_priority = publisher_priority,
            fo_forwarding_preference = (if dg then FP_Datagram else FP_Subgroup),
            fo_properties = properties, fo_payload = payload \<rparr>)))))))
       (put_optional_vi gd
      @ (if \<not> dg \<and> ?mode = SUBGROUP_MODE_PRESENT then put_vi (fo_subgroup_id p) else [])
      @ put_optional_vi od @ (if ?pr then [fo_publisher_priority p] else [])
      @ props @ put_vi (word_of_nat (length (fo_payload p))) @ fo_payload p @ rest)"
    unfolding bs fetch_object_deserialize_def append_assoc vi_chain ucast_u8_back Let_def fl folded
    using guard fl(7) small_flags by (simp only: if_False simp_thms)
  have normal: "fetch_payload_normal p =
     \<lparr> fo_group_id = fo_group_id p, fo_subgroup_id = (if dg then fo_object_id p else if dg then 0 else fo_subgroup_id p),
       fo_object_id = fo_object_id p, fo_publisher_priority = fo_publisher_priority p,
       fo_forwarding_preference = (if dg then FP_Datagram else FP_Subgroup),
       fo_properties = fo_properties (fetch_payload_normal p), fo_payload = fo_payload p \<rparr>"
    by (cases p; cases "fo_forwarding_preference p") (simp_all add: fetch_payload_normal_def dg_def)
  show ?thesis
    by (subst normal) (simp add: rd steps [unfolded folded] split del: if_split)
qed

lemma fetch_order_accepts:
  "(\<exists>gd od. fetch_group_delta prev order p = Inr gd \<and> fetch_object_delta prev gd p = Inr od) \<longleftrightarrow>
     (case prev of
        None \<Rightarrow> True
      | Some pc \<Rightarrow>
          if fc_group_id pc = fo_group_id p
          then fc_object_id pc \<le> fo_object_id p \<or> fetch_object_id_wraps prev p
          else if order = GO_Descending then fo_group_id p < fc_group_id pc
          else fc_group_id pc < fo_group_id p)"
proof (cases prev)
  case None
  then show ?thesis by (auto simp: fetch_group_delta_def fetch_object_delta_def)
next
  case (Some pc)
  have step: "(\<exists>d e. checked_sub a b = Some d \<and> checked_sub d 1 = Some e) \<longleftrightarrow> b < a" for a b :: u64
    by (auto simp: checked_sub_def word_less_nat_alt word_le_nat_alt unat_sub split: if_splits)
  have wrap: "fc_object_id pc + 1 = fo_object_id p \<Longrightarrow>
      fc_object_id pc \<le> fo_object_id p \<or> fc_object_id pc = u64_MAX \<and> fo_object_id p = 0"
    using checked_add_1_None [of "fc_object_id pc"] checked_add_Some [of "fc_object_id pc" 1 "fo_object_id p"]
    by (cases "fc_object_id pc = u64_MAX") (auto simp: checked_add_def word_le_nat_alt split: if_splits)
  show ?thesis
  proof (cases "fc_group_id pc = fo_group_id p")
    case True
    with Some wrap show ?thesis
      by (auto simp: fetch_group_delta_def fetch_object_delta_def fetch_object_id_wraps_def
          rbind_Inr_iff ok_or_Inr_iff checked_sub_def)
  next
    case False
    with Some step [of "fc_group_id pc" "fo_group_id p"] step [of "fo_group_id p" "fc_group_id pc"]
    show ?thesis
      by (auto simp: fetch_group_delta_def fetch_object_delta_def rbind_Inr_iff ok_or_Inr_iff
          Option.bind_eq_Some_conv)
  qed
qed

lemma serialize_payload_accepts:
  assumes "fetch_payload_wf p"
  shows "(\<exists>bs. serialize_payload p prev order = Inr bs) \<longleftrightarrow>
    (\<exists>gd od. fetch_group_delta prev order p = Inr gd \<and> fetch_object_delta prev gd p = Inr od)"
proof -
  from object_properties_write [OF assms] obtain ext where
    "serialize_object_properties (props_or_empty (fo_properties p)) = Inr ext" by blast
  then show ?thesis by (auto simp: serialize_payload_def rbind_Inr_iff Let_def)
qed

text \<open>Whole streams: each entry is encoded against the one before it, on both sides.\<close>

fun fetch_stream_write ::
  "group_order \<Rightarrow> fetch_object_context option \<Rightarrow> fetch_object list \<Rightarrow> bytes res" where
  "fetch_stream_write order prev [] = Inr []"
| "fetch_stream_write order prev (e # es) =
     rbind (fetch_object_serialize e prev order) (\<lambda>b.
     rbind (fetch_stream_write order (Some (next_context e prev)) es) (\<lambda>bs. Inr (b @ bs)))"

fun fetch_stream_read ::
  "nat \<Rightarrow> group_order \<Rightarrow> fetch_object_context option \<Rightarrow> fetch_object list parser" where
  "fetch_stream_read 0 order prev = preturn []"
| "fetch_stream_read (Suc n) order prev =
     pbind (fetch_object_deserialize prev order) (\<lambda>e.
     pbind (fetch_stream_read n order (Some (next_context e prev))) (\<lambda>es. preturn (e # es)))"

fun fetch_entry_normal :: "fetch_object \<Rightarrow> fetch_object" where
  "fetch_entry_normal (FetchedObject p) = FetchedObject (fetch_payload_normal p)"
| "fetch_entry_normal (EndOfRange k g ob) = EndOfRange k g ob"

fun fetch_entry_ok :: "fetch_object_context option \<Rightarrow> fetch_object \<Rightarrow> bool" where
  "fetch_entry_ok prev (FetchedObject p) \<longleftrightarrow> fetch_payload_wf p \<and> \<not> fetch_object_id_wraps prev p
     \<and> (fo_forwarding_preference p = FP_Datagram \<longrightarrow> fo_subgroup_id p = fo_object_id p)"
| "fetch_entry_ok prev (EndOfRange k g ob) \<longleftrightarrow> True"

fun fetch_stream_ok :: "fetch_object_context option \<Rightarrow> fetch_object list \<Rightarrow> bool" where
  "fetch_stream_ok prev [] \<longleftrightarrow> True"
| "fetch_stream_ok prev (e # es) \<longleftrightarrow> fetch_entry_ok prev e \<and> fetch_stream_ok (Some (next_context e prev)) es"

lemma end_of_range_kind_wire [simp]:
  "end_of_range_kind_of (as_flag_value k) = Inr k" "128 \<le> as_flag_value k"
  by (cases k; simp add: end_of_range_kind_of_def word_le_nat_alt)+

lemma fetch_entry_roundtrip:
  assumes "fetch_entry_ok prev e" "fetch_object_serialize e prev order = Inr bs" "length bs < 2 ^ 64"
  shows "fetch_object_deserialize prev order (bs @ rest) = (Inr (fetch_entry_normal e), rest)
    \<and> next_context (fetch_entry_normal e) prev = next_context e prev"
proof (cases e)
  case (FetchedObject p)
  with assms serialize_payload_roundtrip [of p prev order bs rest] show ?thesis
    by (simp add: fetch_payload_normal_def)
next
  case (EndOfRange k g ob)
  with assms show ?thesis by (auto simp: fetch_object_deserialize_def)
qed

lemma fetch_stream_roundtrip:
  assumes "fetch_stream_ok prev es" "fetch_stream_write order prev es = Inr bs" "length bs < 2 ^ 64"
  shows "fetch_stream_read (length es) order prev (bs @ rest) = (Inr (map fetch_entry_normal es), rest)"
  using assms
proof (induction es arbitrary: prev bs)
  case Nil
  then show ?case by simp
next
  case (Cons e es)
  from Cons.prems obtain b bs' where b: "fetch_object_serialize e prev order = Inr b"
    and bs': "fetch_stream_write order (Some (next_context e prev)) es = Inr bs'" "bs = b @ bs'"
    by (auto simp: rbind_Inr_iff)
  with Cons.prems fetch_entry_roundtrip [of prev e order b "bs' @ rest"]
    Cons.IH [of "Some (next_context e prev)" bs'] show ?case by simp
qed

lemma prior_plus_one_wraps:
  "fc_subgroup_id pc = Some u64_MAX \<Longrightarrow> read_fetch_subgroup False SUBGROUP_MODE_PRIOR_PLUS_ONE (Some pc) bs = (Inr 0, bs)"
  by (simp add: read_fetch_subgroup_def)

subsection \<open>Properties\<close>

text \<open>C20. A FETCH stream is read back as it was written: when every entry is encoded against the
  entry before it, in any group order, the reader that carries the same context returns the
  normal form of each entry, Objects and End-of-Range markers alike.\<close>

theorem fetch_stream_wire:
  assumes "fetch_stream_ok prev es" "fetch_stream_write order prev es = Inr bs" "length bs < 2 ^ 64"
  shows "fetch_stream_read (length es) order prev (bs @ rest) = (Inr (map fetch_entry_normal es), rest)"
  using assms by (rule fetch_stream_roundtrip)

theorem fetch_stream_wire_witness:
  "let p = \<lparr> fo_group_id = 4, fo_subgroup_id = 0, fo_object_id = 2, fo_publisher_priority = 7,
             fo_forwarding_preference = FP_Subgroup, fo_properties = None, fo_payload = [9] \<rparr>;
       es = [EndOfRange NonExistent 4 1, FetchedObject p]
   in \<exists>bs. fetch_stream_write GO_Ascending None es = Inr bs \<and> fetch_stream_read 2 GO_Ascending None bs = (Inr es, [])"
proof -
  let ?p = "\<lparr> fo_group_id = 4, fo_subgroup_id = 0, fo_object_id = 2, fo_publisher_priority = 7,
             fo_forwarding_preference = FP_Subgroup, fo_properties = None, fo_payload = [9] \<rparr>"
  let ?es = "[EndOfRange NonExistent 4 1, FetchedObject ?p]"
  have ok: "fetch_stream_ok None ?es" by (simp add: fetch_object_id_wraps_def)
  have w: "fetch_stream_write GO_Ascending None ?es =
      Inr (put_vi 0x8C @ put_vi 4 @ put_vi 1 @ put_vi 0x10 @ [7] @ put_vi 1 @ [9])"
    by (simp add: serialize_payload_def fetch_group_delta_def fetch_object_delta_def fetch_flags_def
        fetch_has_priority_def fetch_subgroup_mode_def put_optional_vi_def)
  have "length (put_vi 0x8C @ put_vi 4 @ put_vi 1 @ put_vi 0x10 @ [7 :: u8] @ put_vi 1 @ [9]) < 2 ^ 64"
    using minimal_vi_length_range [of "0x8C"] minimal_vi_length_range [of 4]
      minimal_vi_length_range [of 1] minimal_vi_length_range [of "0x10"]
    by (simp add: length_put_vi)
  from fetch_stream_wire [OF ok w this, of "[]"] w show ?thesis
    by (simp add: fetch_payload_normal_def numeral_2_eq_2)
qed

text \<open>What the writer of a FETCH stream accepts: the first Object always; an Object of the
  same group when its ID is not below the prior one; an Object of another group when the
  group moves in the requested order. The one exception is an Object with ID 0 after ID
  \<open>2^64 - 1\<close> of the same group, which the unchecked increment lets through.\<close>

lemma fetch_writer_order:
  assumes "fetch_payload_wf p"
  shows "(\<exists>bs. fetch_object_serialize (FetchedObject p) prev order = Inr bs) \<longleftrightarrow>
     (case prev of
        None \<Rightarrow> True
      | Some pc \<Rightarrow>
          if fc_group_id pc = fo_group_id p
          then fc_object_id pc \<le> fo_object_id p \<or> (fc_object_id pc = u64_MAX \<and> fo_object_id p = 0)
          else if order = GO_Descending then fo_group_id p < fc_group_id pc
          else fc_group_id pc < fo_group_id p)"
  using serialize_payload_accepts [OF assms, of prev order] fetch_order_accepts [of prev order p]
  by (auto simp: fetch_object_id_wraps_def split: option.splits)

end
