(* ===== verification/Unified_Object.thy ===== *)
theory Unified_Object
  imports Fetch_Object
begin

text \<open>
  The unified view of an Object (\<open>libs/moqtail-rs/src/model/data/object.rs\<close>) and its
  conversions from and to the three wire forms. The theory shows which Objects survive the
  way through the relay, from the form they arrived in back to a wire form.
\<close>

record moq_object =
  ob_track_alias :: u64
  ob_location :: location
  ob_publisher_priority :: u8
  ob_forwarding_preference :: object_forwarding_preference
  ob_subgroup_id :: "u64 option"
  ob_status :: object_status
  ob_properties :: "object_property list option"
  ob_payload :: "bytes option"

definition try_from_datagram :: "datagram \<Rightarrow> u8 \<Rightarrow> (moq_object \<times> bool) res" where
  "try_from_datagram d default_priority =
     (let (status, payload) = (case dg_object_status d of
                                 Some s \<Rightarrow> (s, None) | None \<Rightarrow> (OS_Normal, dg_payload d))
      in Inr (\<lparr> ob_track_alias = dg_track_alias d,
                ob_location = Location (dg_group_id d) (dg_object_id d),
                ob_publisher_priority = (case dg_publisher_priority d of Some p \<Rightarrow> p | None \<Rightarrow> default_priority),
                ob_forwarding_preference = FP_Datagram, ob_subgroup_id = None, ob_status = status,
                ob_properties = dg_properties d, ob_payload = payload \<rparr>, dg_end_of_group d))"

definition try_from_subgroup ::
  "subgroup_object \<Rightarrow> u64 \<Rightarrow> u64 \<Rightarrow> u64 option \<Rightarrow> u8 option \<Rightarrow> u8 \<Rightarrow> moq_object res" where
  "try_from_subgroup so track_alias group_id subgroup_id priority default_priority =
     Inr \<lparr> ob_track_alias = track_alias, ob_location = Location group_id (so_object_id so),
           ob_publisher_priority = (case priority of Some p \<Rightarrow> p | None \<Rightarrow> default_priority),
           ob_forwarding_preference = FP_Subgroup, ob_subgroup_id = subgroup_id,
           ob_status = status_or_normal (so_object_status so), ob_properties = so_properties so,
           ob_payload = so_payload so \<rparr>"

definition try_from_fetch :: "fetch_object_payload \<Rightarrow> u64 \<Rightarrow> moq_object res" where
  "try_from_fetch p track_alias =
     Inr \<lparr> ob_track_alias = track_alias, ob_location = Location (fo_group_id p) (fo_object_id p),
           ob_publisher_priority = fo_publisher_priority p,
           ob_forwarding_preference = fo_forwarding_preference p,
           ob_subgroup_id = (case fo_forwarding_preference p of
              FP_Subgroup \<Rightarrow> Some (fo_subgroup_id p) | FP_Datagram \<Rightarrow> None),
           ob_status = OS_Normal, ob_properties = fo_properties p,
           ob_payload = (if fo_payload p = [] then None else Some (fo_payload p)) \<rparr>"

definition try_into_datagram :: "moq_object \<Rightarrow> u64 \<Rightarrow> bool \<Rightarrow> u8 option \<Rightarrow> datagram res" where
  "try_into_datagram ob track_alias end_of_group default_priority =
     (if ob_forwarding_preference ob \<noteq> FP_Datagram
      then Inl (CastingError ''Object::try_into_datagram(forwarding_preference)'' ''Object'' ''Datagram'')
      else
        (let priority = (if default_priority \<noteq> None \<and> default_priority = Some (ob_publisher_priority ob)
                         then None else Some (ob_publisher_priority ob));
             group_id = l_group (ob_location ob); object_id = l_object (ob_location ob) in
         if ob_status ob \<noteq> OS_Normal
         then
           (if ob_payload ob \<noteq> None
            then Inl (CastingError ''Object::try_into_datagram(payload)'' ''Object'' ''Datagram'')
            else Inr (datagram_new_status track_alias group_id object_id priority (ob_properties ob)
                        (ob_status ob)))
         else
           rbind (ok_or (CastingError ''Object::try_into_datagram(payload)'' ''Object'' ''Datagram'')
                    (ob_payload ob)) (\<lambda>payload.
             Inr (datagram_new_payload track_alias group_id object_id priority (ob_properties ob)
                    payload end_of_group))))"

definition try_into_subgroup :: "moq_object \<Rightarrow> subgroup_object res" where
  "try_into_subgroup ob =
     (if ob_forwarding_preference ob \<noteq> FP_Subgroup
      then Inl (CastingError ''Object::try_into_subgroup(forwarding_preference)'' ''Object'' ''SubgroupObject'')
      else
        rbind (ok_or (CastingError ''Object::try_into_subgroup(subgroup_id)'' ''Object'' ''SubgroupObject'')
                 (ob_subgroup_id ob)) (\<lambda>_.
        rbind (if ob_status ob = OS_Normal
               then rbind (ok_or (CastingError ''Object::try_into_subgroup(payload)'' ''Object'' ''SubgroupObject'')
                             (ob_payload ob)) (\<lambda>payload. Inr (Some payload, None))
               else if ob_payload ob \<noteq> None
               then Inl (CastingError ''Object::try_into_subgroup(payload)'' ''Object'' ''SubgroupObject'')
               else Inr (None, Some (ob_status ob))) (\<lambda>(payload, object_status).
          Inr \<lparr> so_object_id = l_object (ob_location ob), so_properties = ob_properties ob,
                so_object_status = object_status, so_payload = payload \<rparr>)))"

definition try_into_fetch :: "moq_object \<Rightarrow> fetch_object_payload res" where
  "try_into_fetch ob =
     (if ob_status ob \<noteq> OS_Normal
      then Inl (CastingError ''Object::try_into_fetch(status)'' ''Object'' ''FetchObjectPayload'')
      else
        rbind (case ob_forwarding_preference ob of
                 FP_Subgroup \<Rightarrow>
                   ok_or (CastingError ''Object::try_into_fetch(subgroup_id)'' ''Object'' ''FetchObjectPayload'')
                     (ob_subgroup_id ob)
               | FP_Datagram \<Rightarrow>
                   if ob_subgroup_id ob \<noteq> None
                   then Inl (CastingError ''Object::try_into_fetch(subgroup_id)'' ''Object'' ''FetchObjectPayload'')
                   else Inr (l_object (ob_location ob))) (\<lambda>subgroup_id.
          Inr \<lparr> fo_group_id = l_group (ob_location ob), fo_subgroup_id = subgroup_id,
                fo_object_id = l_object (ob_location ob),
                fo_publisher_priority = ob_publisher_priority ob,
                fo_forwarding_preference = ob_forwarding_preference ob,
                fo_properties = ob_properties ob, fo_payload = bytes_or_empty (ob_payload ob) \<rparr>))"

subsection \<open>Properties\<close>

text \<open>A relay that caches what it forwards: an Object read from a subgroup stream with status
  Normal always converts to a fetch object with the same coordinates, properties, priority and
  payload, and that fetch object converts back to an Object with the same content; an Object
  with another status never becomes a fetch object.\<close>

lemma subgroup_to_fetch_content:
  assumes "try_from_subgroup so alias g (Some s) priority dflt = Inr ob"
  shows "(status_or_normal (so_object_status so) \<noteq> OS_Normal \<longrightarrow> (\<exists>e. try_into_fetch ob = Inl e))
    \<and> (status_or_normal (so_object_status so) = OS_Normal \<longrightarrow>
        (\<exists>p. try_into_fetch ob = Inr p
          \<and> fo_group_id p = g \<and> fo_object_id p = so_object_id so \<and> fo_subgroup_id p = s
          \<and> fo_properties p = so_properties so \<and> fo_payload p = bytes_or_empty (so_payload so)
          \<and> (so_payload so \<noteq> Some [] \<longrightarrow> try_from_fetch p alias = Inr ob)))"
  using assms
  by (auto simp: try_from_subgroup_def try_into_fetch_def try_from_fetch_def split: option.splits)

text \<open>C28. Forwarding on a subgroup stream: an Object read from a subgroup stream converts back to
  exactly what was read, except a zero-length Object of status Normal, for which the
  conversion fails.\<close>

theorem subgroup_forwarding_exact:
  assumes "subgroup_object_deserialize prev has_properties bs = (Inr so, rest)"
    and "try_from_subgroup so alias g (Some s) priority dflt = Inr ob"
  shows "(so_object_status so \<noteq> Some OS_Normal \<longrightarrow> try_into_subgroup ob = Inr so)
    \<and> (so_object_status so = Some OS_Normal \<longrightarrow>
         try_into_subgroup ob = Inl (CastingError ''Object::try_into_subgroup(payload)'' ''Object'' ''SubgroupObject''))"
proof -
  from assms(1) have "(so_object_status so = None) = (so_payload so \<noteq> None)"
    by (auto simp: subgroup_object_deserialize_def read_subgroup_body_def pbind_Inr_iff Let_def
        split: if_splits prod.splits)
  with assms(2) show ?thesis
    by (cases so; cases "so_object_status so"; cases "so_payload so")
       (auto simp: try_from_subgroup_def try_into_subgroup_def)
qed

theorem subgroup_forwarding_exact_witness:
  "\<exists>so ob. subgroup_object_deserialize None False [5, 0, 0] = (Inr so, []) \<and> so_object_status so = Some OS_Normal
     \<and> try_from_subgroup so 1 2 (Some 0) None 128 = Inr ob
     \<and> (\<exists>e. try_into_subgroup ob = Inl e)"
proof -
  let ?so = "\<lparr> so_object_id = 5, so_properties = None, so_object_status = Some OS_Normal, so_payload = None \<rparr>"
  have run: "subgroup_object_deserialize None False [5, 0, 0] = (Inr ?so, [])"
    by (simp add: subgroup_object_deserialize_def read_subgroup_properties_def read_subgroup_body_def
        get_vi_def leading_ones_def pbind_def object_status_try_from_def)
  obtain ob where ob: "try_from_subgroup ?so 1 2 (Some 0) None 128 = Inr ob"
    by (simp add: try_from_subgroup_def)
  from subgroup_forwarding_exact [OF run ob] run ob show ?thesis by auto
qed

text \<open>A datagram that was read converts to an Object and back to the same datagram under the
  same alias, with its priority omitted exactly where it equals the default; a Normal status
  datagram, which has no payload, does not convert back.\<close>

lemma datagram_forwarding_exact:
  assumes "datagram_deserialize bs = (Inr d, rest)"
    and "try_from_datagram d dflt = Inr (ob, end_of_group)"
  shows "if dg_object_status d = Some OS_Normal
    then \<exists>e. try_into_datagram ob (dg_track_alias d) end_of_group (Some dflt) = Inl e
    else try_into_datagram ob (dg_track_alias d) end_of_group (Some dflt)
           = Inr (d\<lparr> dg_publisher_priority :=
                (if dg_publisher_priority d = Some dflt then None else dg_publisher_priority d) \<rparr>)"
proof -
  from assms(1) have st: "(dg_object_status d = None) = (dg_payload d \<noteq> None)"
    by (auto simp: datagram_deserialize_def pbind_Inr_iff split: if_splits prod.splits)
  from assms(1) obtain t v where t: "odt_try_new v = Inr t"
    and d: "is_status t \<longleftrightarrow> dg_object_status d \<noteq> None" "dg_end_of_group d = is_end_of_group t"
    by (auto simp: datagram_deserialize_def pbind_Inr_iff split: if_splits)
  have eog: "dg_object_status d \<noteq> None \<Longrightarrow> \<not> dg_end_of_group d"
    using t d by (auto simp: odt_try_new_def is_status_def is_end_of_group_def Let_def split: if_splits)
  show ?thesis
    using assms(2) st eog
    by (cases d; cases "dg_object_status d")
       (auto simp: try_from_datagram_def try_into_datagram_def datagram_new_status_def datagram_new_payload_def
         split: option.splits)
qed

end
