(* ===== verification/Data_Headers.thy ===== *)
theory Data_Headers
  imports Header_Types Varint
begin

text \<open>
  The headers that open a data stream: SUBGROUP_HEADER, FETCH_HEADER and padding
  (\<open>libs/moqtail-rs/src/model/data/subgroup_header.rs\<close>, \<open>fetch_header.rs\<close>, \<open>padding.rs\<close>).
  Which fields a subgroup header carries depends on the bits of its type; the theory shows
  that every header the constructors build, and the header of a stream opened in the middle
  of a subgroup, is read back as it was written.
\<close>

record subgroup_header =
  sh_header_type :: subgroup_header_type
  sh_track_alias :: u64
  sh_group_id :: u64
  sh_subgroup_id :: "u64 option"
  sh_publisher_priority :: "u8 option"

definition new_fixed_zero_id :: "u64 \<Rightarrow> u64 \<Rightarrow> u8 option \<Rightarrow> bool \<Rightarrow> bool \<Rightarrow> bool \<Rightarrow> subgroup_header" where
  "new_fixed_zero_id track_alias group_id priority has_properties end_of_group first_object =
     \<lparr> sh_header_type = sht_from_properties has_properties SIM_Zero end_of_group (priority = None) first_object,
       sh_track_alias = track_alias, sh_group_id = group_id, sh_subgroup_id = Some 0,
       sh_publisher_priority = priority \<rparr>"

definition new_first_object_id :: "u64 \<Rightarrow> u64 \<Rightarrow> u8 option \<Rightarrow> bool \<Rightarrow> bool \<Rightarrow> bool \<Rightarrow> subgroup_header" where
  "new_first_object_id track_alias group_id priority has_properties end_of_group first_object =
     \<lparr> sh_header_type = sht_from_properties has_properties SIM_FirstObjectId end_of_group (priority = None) first_object,
       sh_track_alias = track_alias, sh_group_id = group_id, sh_subgroup_id = None,
       sh_publisher_priority = priority \<rparr>"

definition new_with_explicit_id ::
  "u64 \<Rightarrow> u64 \<Rightarrow> u64 \<Rightarrow> u8 option \<Rightarrow> bool \<Rightarrow> bool \<Rightarrow> bool \<Rightarrow> subgroup_header" where
  "new_with_explicit_id track_alias group_id subgroup_id priority has_properties end_of_group first_object =
     \<lparr> sh_header_type = sht_from_properties has_properties SIM_Explicit end_of_group (priority = None) first_object,
       sh_track_alias = track_alias, sh_group_id = group_id, sh_subgroup_id = Some subgroup_id,
       sh_publisher_priority = priority \<rparr>"

definition for_mid_subgroup_stream :: "subgroup_header \<Rightarrow> subgroup_header" where
  "for_mid_subgroup_stream h =
     (let t = sh_header_type h;
          mode = (case sht_subgroup_id_mode t of
                    SIM_FirstObjectId \<Rightarrow>
                      if sh_subgroup_id h \<noteq> None then SIM_Explicit else SIM_FirstObjectId
                  | mode \<Rightarrow> mode)
      in h\<lparr> sh_header_type := sht_from_properties (sht_has_properties t) mode
              (contains_end_of_group t) (sht_has_default_priority t) False \<rparr>)"

definition subgroup_header_serialize :: "subgroup_header \<Rightarrow> u64 option \<Rightarrow> bytes res" where
  "subgroup_header_serialize h track_alias =
     (let t = sh_header_type h;
          alias = (case track_alias of Some a \<Rightarrow> a | None \<Rightarrow> sh_track_alias h) in
      rbind (if has_explicit_subgroup_id t
             then (case sh_subgroup_id h of
                     Some i \<Rightarrow> Inr (put_vi i)
                   | None \<Rightarrow> Inl (ProtocolViolation ''SubgroupHeader::serialize(header_type)''))
             else Inr []) (\<lambda>subgroup.
      rbind (if \<not> sht_has_default_priority t
             then (case sh_publisher_priority h of
                     Some p \<Rightarrow> Inr [p]
                   | None \<Rightarrow> Inl (ProtocolViolation ''SubgroupHeader::serialize(publisher_priority)''))
             else Inr []) (\<lambda>priority.
        Inr (put_vi (sht_to_wire t) @ put_vi alias @ put_vi (sh_group_id h) @ subgroup @ priority))))"

definition subgroup_header_deserialize :: "subgroup_header parser" where
  "subgroup_header_deserialize =
     pbind get_vi (\<lambda>type_value.
     pbind (plift (sht_try_new type_value)) (\<lambda>t.
     pbind get_vi (\<lambda>track_alias.
     pbind get_vi (\<lambda>group_id.
     pbind (if has_explicit_subgroup_id t then pbind get_vi (\<lambda>i. preturn (Some i))
            else if subgroup_id_is_zero t then preturn (Some 0)
            else preturn None) (\<lambda>subgroup_id.
     pbind (if \<not> sht_has_default_priority t
            then pbind (get_u8_checked ''SubgroupHeader::deserialize(publisher_priority)'')
                   (\<lambda>p. preturn (Some p))
            else preturn None) (\<lambda>priority.
       preturn \<lparr> sh_header_type = t, sh_track_alias = track_alias, sh_group_id = group_id,
                 sh_subgroup_id = subgroup_id, sh_publisher_priority = priority \<rparr>))))))"

datatype fetch_header = FetchHeader (fh_request_id: u64)

definition FetchHeaderType :: u8 where
  "FetchHeaderType = 0x05"

definition fetch_header_serialize :: "fetch_header \<Rightarrow> bytes res" where
  "fetch_header_serialize h = Inr (put_vi (ucast FetchHeaderType) @ put_vi (fh_request_id h))"

text \<open>The reader discards the stream type, and even a failure to read it.\<close>

definition fetch_header_deserialize :: "fetch_header parser" where
  "fetch_header_deserialize =
     (\<lambda>bs. pbind get_vi (\<lambda>request_id. preturn (FetchHeader request_id)) (snd (get_vi bs)))"

definition PADDING_STREAM_TYPE :: u64 where
  "PADDING_STREAM_TYPE = 0x132B3E28"

definition PADDING_DATAGRAM_TYPE :: u64 where
  "PADDING_DATAGRAM_TYPE = 0x132B3E29"

datatype padding_stream = PaddingStream (ps_length: nat)

datatype padding_datagram = PaddingDatagram (pd_length: nat)

definition padding_stream_serialize :: "padding_stream \<Rightarrow> bytes res" where
  "padding_stream_serialize p = Inr (put_vi PADDING_STREAM_TYPE @ replicate (ps_length p) 0)"

definition padding_stream_deserialize :: "padding_stream parser" where
  "padding_stream_deserialize =
     pbind get_vi (\<lambda>type_value.
       if type_value \<noteq> PADDING_STREAM_TYPE
       then pfail (ProtocolViolation ''PaddingStream::deserialize'')
       else pbind remaining (\<lambda>len. pbind (copy_to_bytes len) (\<lambda>_. preturn (PaddingStream len))))"

definition padding_datagram_serialize :: "padding_datagram \<Rightarrow> bytes res" where
  "padding_datagram_serialize p = Inr (put_vi PADDING_DATAGRAM_TYPE @ replicate (pd_length p) 0)"

definition padding_datagram_deserialize :: "padding_datagram parser" where
  "padding_datagram_deserialize =
     pbind get_vi (\<lambda>type_value.
       if type_value \<noteq> PADDING_DATAGRAM_TYPE
       then pfail (ProtocolViolation ''PaddingDatagram::deserialize'')
       else pbind remaining (\<lambda>len. pbind (copy_to_bytes len) (\<lambda>_. preturn (PaddingDatagram len))))"

subsection \<open>Lemmas\<close>

text \<open>A header whose fields agree with its type bits, as the constructors build it.\<close>

definition subgroup_header_wf :: "subgroup_header \<Rightarrow> bool" where
  "subgroup_header_wf h \<longleftrightarrow>
     (let t = sh_header_type h in
      sht_try_new (sht_to_wire t) = Inr t
      \<and> (case sht_subgroup_id_mode t of
           SIM_Zero \<Rightarrow> sh_subgroup_id h = Some 0
         | SIM_FirstObjectId \<Rightarrow> sh_subgroup_id h = None
         | SIM_Explicit \<Rightarrow> sh_subgroup_id h \<noteq> None)
      \<and> (sh_publisher_priority h = None \<longleftrightarrow> sht_has_default_priority t))"

lemma subgroup_header_wf_new:
  "subgroup_header_wf (new_fixed_zero_id a g p hp e f)"
  "subgroup_header_wf (new_first_object_id a g p hp e f)"
  "subgroup_header_wf (new_with_explicit_id a g s p hp e f)"
  by (auto simp: subgroup_header_wf_def new_fixed_zero_id_def new_first_object_id_def
      new_with_explicit_id_def)

lemma get_vi_append_first [simp]:
  "pbind get_vi f (put_vi v) = f v []"
  using get_vi_put_vi [of v "[]"] by simp

interpretation sgh: codec "\<lambda>h. subgroup_header_serialize h None" subgroup_header_deserialize
  subgroup_header_wf
proof
  fix h bs rest
  assume wf: "subgroup_header_wf h"
  then show "\<exists>bs. subgroup_header_serialize h None = Inr bs"
    by (auto simp: subgroup_header_wf_def subgroup_header_serialize_def has_explicit_subgroup_id_def
        Let_def split: option.splits subgroup_id_mode.splits)
  assume "subgroup_header_serialize h None = Inr bs"
  with wf show "subgroup_header_deserialize (bs @ rest) = (Inr h, rest)"
    by (cases h)
       (auto simp: subgroup_header_wf_def subgroup_header_serialize_def subgroup_header_deserialize_def
         has_explicit_subgroup_id_def subgroup_id_is_zero_def rbind_Inr_iff Let_def
         split: option.splits subgroup_id_mode.splits if_splits)
qed

lemma serialize_alias:
  "subgroup_header_serialize h (Some a) = subgroup_header_serialize (h\<lparr> sh_track_alias := a \<rparr>) None"
  by (cases h) (simp add: subgroup_header_serialize_def)

lemma subgroup_header_wf_alias [simp]:
  "subgroup_header_wf (h\<lparr> sh_track_alias := a \<rparr>) = subgroup_header_wf h"
  by (cases h) (simp add: subgroup_header_wf_def split: subgroup_id_mode.split)

lemma sht_wire_stable: "sht_try_new v = Inr t \<Longrightarrow> sht_try_new (sht_to_wire t) = Inr t"
  using sht_try_new_sound by auto

lemma subgroup_header_deserialize_wf:
  assumes "subgroup_header_deserialize bs = (Inr h, rest)"
  shows "subgroup_header_wf h"
  using assms
  by (auto simp: subgroup_header_deserialize_def subgroup_header_wf_def pbind_Inr_iff
      has_explicit_subgroup_id_def subgroup_id_is_zero_def Let_def
      dest: sht_wire_stable split: if_splits subgroup_id_mode.splits)

interpretation fh: codec fetch_header_serialize fetch_header_deserialize "\<lambda>_. True"
  by unfold_locales (auto simp: fetch_header_serialize_def fetch_header_deserialize_def)

text \<open>A header as the relay holds it: the ID of a first-object-ID subgroup may be resolved.\<close>

definition subgroup_header_held :: "subgroup_header \<Rightarrow> bool" where
  "subgroup_header_held h \<longleftrightarrow>
     subgroup_header_wf h
     \<or> (sht_subgroup_id_mode (sh_header_type h) = SIM_FirstObjectId
        \<and> subgroup_header_wf (h\<lparr> sh_subgroup_id := None \<rparr>))"

lemma mid_subgroup_wf: "subgroup_header_held h \<Longrightarrow> subgroup_header_wf (for_mid_subgroup_stream h)"
  by (cases h)
     (auto simp: subgroup_header_held_def subgroup_header_wf_def for_mid_subgroup_stream_def Let_def
       split: subgroup_id_mode.splits)

subsection \<open>Properties\<close>

text \<open>Subgroup headers: every header whose fields agree with its type bits serialises, also
  under another track alias, and reads back as written; the reader yields only such headers.\<close>

lemma subgroup_header_wire:
  "(subgroup_header_wf h \<longrightarrow>
      (\<exists>bs. subgroup_header_serialize h (Some alias) = Inr bs
        \<and> subgroup_header_deserialize (bs @ rest) = (Inr (h\<lparr> sh_track_alias := alias \<rparr>), rest)))
   \<and> (subgroup_header_deserialize input = (Inr h, rest) \<longrightarrow> subgroup_header_wf h)"
  using sgh.enc_total [of "h\<lparr> sh_track_alias := alias \<rparr>"] sgh.dec_enc [of "h\<lparr> sh_track_alias := alias \<rparr>"]
  by (auto simp: serialize_alias intro: subgroup_header_deserialize_wf)

text \<open>A stream opened in the middle of a subgroup: its header always serialises and reads
  back with the subgroup ID the relay holds, never claims the first Object, and keeps the
  other flags; a resolved first-object ID is stated explicitly.\<close>

lemma mid_subgroup_header:
  assumes "subgroup_header_held h"
  shows "\<exists>bs. subgroup_header_serialize (for_mid_subgroup_stream h) None = Inr bs
    \<and> subgroup_header_deserialize (bs @ rest) = (Inr (for_mid_subgroup_stream h), rest)
    \<and> sh_subgroup_id (for_mid_subgroup_stream h) = sh_subgroup_id h
    \<and> \<not> is_first_object (sh_header_type (for_mid_subgroup_stream h))
    \<and> (sh_subgroup_id h \<noteq> None \<longrightarrow>
         \<not> subgroup_id_is_first_object_id (sh_header_type (for_mid_subgroup_stream h)))
    \<and> contains_end_of_group (sh_header_type (for_mid_subgroup_stream h))
        = contains_end_of_group (sh_header_type h)
    \<and> sht_has_properties (sh_header_type (for_mid_subgroup_stream h))
        = sht_has_properties (sh_header_type h)"
proof -
  from sgh.enc_total [OF mid_subgroup_wf [OF assms]] sgh.dec_enc [OF mid_subgroup_wf [OF assms]]
  obtain bs where "subgroup_header_serialize (for_mid_subgroup_stream h) None = Inr bs"
    "subgroup_header_deserialize (bs @ rest) = (Inr (for_mid_subgroup_stream h), rest)" by blast
  then show ?thesis
    by (auto simp: for_mid_subgroup_stream_def Let_def subgroup_id_is_first_object_id_def
        split: subgroup_id_mode.splits)
qed

text \<open>Fetch headers and padding survive their round trips, padding readers discard
  everything and refuse any other type.\<close>

lemma fetch_header_and_padding_wire:
  "(\<exists>bs. fetch_header_serialize h = Inr bs \<and> fetch_header_deserialize (bs @ rest) = (Inr h, rest))
   \<and> (\<exists>bs. padding_stream_serialize p = Inr bs \<and> padding_stream_deserialize bs = (Inr p, []))
   \<and> (\<exists>bs. padding_datagram_serialize q = Inr bs \<and> padding_datagram_deserialize bs = (Inr q, []))
   \<and> (\<exists>e. fst (padding_stream_deserialize (put_vi PADDING_DATAGRAM_TYPE @ rest)) = Inl e)
   \<and> (\<exists>e. fst (padding_datagram_deserialize (put_vi PADDING_STREAM_TYPE @ rest)) = Inl e)"
  by (cases p; cases q)
     (auto simp: fetch_header_serialize_def fetch_header_deserialize_def padding_stream_serialize_def padding_stream_deserialize_def
       padding_datagram_serialize_def padding_datagram_deserialize_def remaining_def copy_to_bytes_def
       PADDING_STREAM_TYPE_def PADDING_DATAGRAM_TYPE_def pbind_def [of remaining] pbind_def [of "copy_to_bytes _"])

end
