(* ===== verification/Stream_Id.thy ===== *)
theory Stream_Id
  imports Prelude
begin

text \<open>
  Identities of the relay's outgoing streams (\<open>apps/relay/src/server/stream_id.rs\<close>). The
  printed form of a stream identity keys the table of open send streams, so two streams
  must never print alike; the theory shows that they do not, and that the composite key
  with the request ID separates concurrent subscriptions.
\<close>

datatype stream_type = ST_Fetch | ST_Subgroup

record stream_id =
  sid_stream_type :: stream_type
  sid_relay_track_id :: u64
  sid_group_id :: "u64 option"
  sid_subgroup_id :: "u64 option"
  sid_fetch_request_id :: "u64 option"

definition stream_id_new ::
  "stream_type \<Rightarrow> u64 \<Rightarrow> u64 option \<Rightarrow> u64 option \<Rightarrow> u64 option \<Rightarrow> stream_id" where
  "stream_id_new t track g s r =
     \<lparr> sid_stream_type = t, sid_relay_track_id = track, sid_group_id = g, sid_subgroup_id = s,
       sid_fetch_request_id = r \<rparr>"

definition new_fetch :: "u64 \<Rightarrow> u64 \<Rightarrow> stream_id" where
  "new_fetch track request = stream_id_new ST_Fetch track None None (Some request)"

definition new_subgroup :: "u64 \<Rightarrow> u64 \<Rightarrow> u64 option \<Rightarrow> stream_id" where
  "new_subgroup track g s = stream_id_new ST_Subgroup track (Some g) s None"

text \<open>Decimal printing of an unsigned integer, as \<open>{}\<close> formats it.\<close>

fun decimal :: "nat \<Rightarrow> string" where
  "decimal n = (if n < 10 then [char_of (48 + n)] else decimal (n div 10) @ [char_of (48 + n mod 10)])"

declare decimal.simps [simp del]

abbreviation show_u64 :: "u64 \<Rightarrow> string" where
  "show_u64 v \<equiv> decimal (unat v)"

text \<open>\<open>Display\<close>; \<open>None\<close> where \<open>group_id.unwrap()\<close> panics.\<close>

definition stream_id_display :: "stream_id \<Rightarrow> string option" where
  "stream_id_display s = (case sid_stream_type s of
       ST_Fetch \<Rightarrow> Some (''fetch_'' @ show_u64 (sid_relay_track_id s) @ ''_''
          @ show_u64 (case sid_fetch_request_id s of Some r \<Rightarrow> r | None \<Rightarrow> 0))
     | ST_Subgroup \<Rightarrow> map_option (\<lambda>g. ''subgroup_'' @ show_u64 (sid_relay_track_id s) @ ''_'' @ show_u64 g @ ''_''
          @ (case sid_subgroup_id s of Some i \<Rightarrow> show_u64 i | None \<Rightarrow> ''unresolved''))
          (sid_group_id s))"

definition get_stream_id :: "stream_id \<Rightarrow> string option" where
  "get_stream_id s = stream_id_display s"

record send_stream_key =
  ssk_request_id :: u64
  ssk_stream_id :: stream_id

definition send_stream_key_display :: "send_stream_key \<Rightarrow> string option" where
  "send_stream_key_display k =
     map_option (\<lambda>s. ''req_'' @ show_u64 (ssk_request_id k) @ ''_'' @ s) (stream_id_display (ssk_stream_id k))"

subsection \<open>Lemmas\<close>

definition digit_value :: "char \<Rightarrow> nat" where
  "digit_value c = of_char c - 48"

lemma decimal_value: "foldl (\<lambda>a c. 10 * a + digit_value c) 0 (decimal n) = n"
  by (induction n rule: decimal.induct)
     (subst decimal.simps, auto simp: digit_value_def)

lemma decimal_inj [simp]: "decimal m = decimal n \<longleftrightarrow> m = n"
  by (metis decimal_value)

lemma decimal_digits: "c \<in> set (decimal n) \<Longrightarrow> 48 \<le> (of_char c :: nat) \<and> (of_char c :: nat) \<le> 57"
proof (induction n rule: decimal.induct)
  case (1 n)
  show ?case
  proof (cases "n < 10")
    case True
    with "1.prems" show ?thesis by (subst (asm) decimal.simps) auto
  next
    case False
    from False "1.prems" have "c \<in> set (decimal (n div 10)) \<or> c = char_of (48 + n mod 10)"
      by (subst (asm) decimal.simps) auto
    with "1.IH" [OF False] show ?thesis by auto
  qed
qed

lemma decimal_no_underscore [simp]: "CHR ''_'' \<notin> set (decimal n)"
  using decimal_digits [of "CHR ''_''" n] by auto

lemma decimal_not_word: "decimal n \<noteq> ''unresolved''"
  using decimal_digits [of "CHR ''u''" n] by auto

lemma split_underscore:
  assumes "a @ CHR ''_'' # x = b @ CHR ''_'' # y" "CHR ''_'' \<notin> set a" "CHR ''_'' \<notin> set b"
  shows "a = b \<and> x = y"
proof -
  have tw: "takeWhile (\<lambda>c. c \<noteq> CHR ''_'') (l @ CHR ''_'' # z) = l" if "CHR ''_'' \<notin> set l" for l z
    using that by (subst takeWhile_append2) auto
  from tw [OF assms(2), of x] tw [OF assms(3), of y] assms(1) show ?thesis by simp
qed

text \<open>The identities the relay builds.\<close>

definition stream_id_wf :: "stream_id \<Rightarrow> bool" where
  "stream_id_wf s \<longleftrightarrow> (case sid_stream_type s of
       ST_Fetch \<Rightarrow> sid_group_id s = None \<and> sid_subgroup_id s = None \<and> sid_fetch_request_id s \<noteq> None
     | ST_Subgroup \<Rightarrow> sid_group_id s \<noteq> None \<and> sid_fetch_request_id s = None)"

lemma stream_id_wf_new: "stream_id_wf (new_fetch t r)" "stream_id_wf (new_subgroup t g s)"
  by (simp_all add: stream_id_wf_def new_fetch_def new_subgroup_def stream_id_new_def)

lemma show_u64_inj [simp]: "show_u64 a = show_u64 b \<longleftrightarrow> a = b"
  by (simp add: word_unat_eq_iff)

lemma field_inj [simp]:
  "show_u64 a @ CHR ''_'' # x = show_u64 b @ CHR ''_'' # y \<longleftrightarrow> a = b \<and> x = y"
  using split_underscore [of "show_u64 a" x "show_u64 b" y] by (auto simp del: decimal_inj)

lemma subgroup_tail_inj [simp]:
  "(case s of Some i \<Rightarrow> show_u64 i | None \<Rightarrow> ''unresolved'')
     = (case t of Some i \<Rightarrow> show_u64 i | None \<Rightarrow> ''unresolved'') \<longleftrightarrow> s = t"
  using decimal_not_word by (auto simp del: decimal_inj split: option.splits dest: sym)

lemma stream_id_display_inj:
  assumes "stream_id_wf s" "stream_id_wf t" "stream_id_display s = stream_id_display t"
  shows "s = t"
  using assms
  by (cases s; cases t; cases "sid_stream_type s"; cases "sid_stream_type t")
     (auto simp: stream_id_wf_def stream_id_display_def simp del: decimal_inj)

subsection \<open>Properties\<close>

text \<open>No two streams share a key: the printed identity of every stream the relay builds
  exists, and two of them are equal only when all their components are; the same holds for
  the composite key of a subscription's send stream.\<close>

lemma stream_keys_distinct:
  assumes "stream_id_wf s" and "stream_id_wf t"
  shows "get_stream_id s \<noteq> None
    \<and> (get_stream_id s = get_stream_id t \<longleftrightarrow> s = t)
    \<and> (send_stream_key_display \<lparr> ssk_request_id = r, ssk_stream_id = s \<rparr>
         = send_stream_key_display \<lparr> ssk_request_id = q, ssk_stream_id = t \<rparr> \<longleftrightarrow> r = q \<and> s = t)"
proof -
  from assms(1) have some: "get_stream_id s \<noteq> None"
    by (auto simp: get_stream_id_def stream_id_display_def stream_id_wf_def split: stream_type.splits)
  moreover have "get_stream_id s = get_stream_id t \<longleftrightarrow> s = t"
    using stream_id_display_inj [OF assms] by (auto simp: get_stream_id_def)
  moreover have "r = q \<and> stream_id_display s = stream_id_display t"
    if "send_stream_key_display \<lparr> ssk_request_id = r, ssk_stream_id = s \<rparr>
         = send_stream_key_display \<lparr> ssk_request_id = q, ssk_stream_id = t \<rparr>"
    using that some
    by (auto simp: send_stream_key_display_def get_stream_id_def map_option_case simp del: decimal_inj
        split: option.splits)
  ultimately show ?thesis by (auto simp: get_stream_id_def)
qed

end
