(* ===== verification/Track_Alias.thy ===== *)
theory Track_Alias
  imports Names
begin

text \<open>
  The table of track aliases (\<open>libs/moqtail-rs/src/model/data/track_alias.rs\<close>): two hash maps
  that must stay inverse to each other. The abstract specification is one partial
  one-to-one relation between aliases and names; every operation refines it.
\<close>

record track_alias_map =
  alias_to_name :: "u64 \<rightharpoonup> full_track_name"
  name_to_alias :: "full_track_name \<rightharpoonup> u64"

definition track_alias_map_new :: track_alias_map where
  "track_alias_map_new = \<lparr> alias_to_name = Map.empty, name_to_alias = Map.empty \<rparr>"

definition add_mapping ::
  "track_alias_map \<Rightarrow> u64 \<Rightarrow> full_track_name \<Rightarrow> unit res \<times> track_alias_map" where
  "add_mapping m alias name =
     (case alias_to_name m alias of
        Some existing_name \<Rightarrow>
          if existing_name = name then (Inr (), m)
          else (Inl (TrackAliasError ''TrackAliasMap::add_mapping(existing_name)''), m)
      | None \<Rightarrow>
          (case name_to_alias m name of
             Some existing_alias \<Rightarrow>
               if existing_alias = alias then (Inr (), m)
               else (Inl (TrackAliasError ''TrackAliasMap::add_mapping(existing_alias)''), m)
           | None \<Rightarrow>
               (Inr (), \<lparr> alias_to_name = (alias_to_name m)(alias \<mapsto> name),
                          name_to_alias = (name_to_alias m)(name \<mapsto> alias) \<rparr>)))"

definition get_name_by_alias :: "track_alias_map \<Rightarrow> u64 \<Rightarrow> full_track_name res" where
  "get_name_by_alias m alias =
     ok_or (TrackAliasError ''TrackAliasMap::get_name_by_alias(alias)'') (alias_to_name m alias)"

definition get_alias_by_name :: "track_alias_map \<Rightarrow> full_track_name \<Rightarrow> u64 res" where
  "get_alias_by_name m name =
     ok_or (TrackAliasError ''TrackAliasMap::get_alias_by_name(name)'') (name_to_alias m name)"

definition remove_mapping_by_alias ::
  "track_alias_map \<Rightarrow> u64 \<Rightarrow> full_track_name option \<times> track_alias_map" where
  "remove_mapping_by_alias m alias =
     (case alias_to_name m alias of
        Some name \<Rightarrow> (Some name, \<lparr> alias_to_name = (alias_to_name m)(alias := None),
                                   name_to_alias = (name_to_alias m)(name := None) \<rparr>)
      | None \<Rightarrow> (None, m))"

definition remove_mapping_by_name ::
  "track_alias_map \<Rightarrow> full_track_name \<Rightarrow> u64 option \<times> track_alias_map" where
  "remove_mapping_by_name m name =
     (case name_to_alias m name of
        Some alias \<Rightarrow> (Some alias, \<lparr> alias_to_name = (alias_to_name m)(alias := None),
                                     name_to_alias = (name_to_alias m)(name := None) \<rparr>)
      | None \<Rightarrow> (None, m))"

definition contains_alias :: "track_alias_map \<Rightarrow> u64 \<Rightarrow> bool" where
  "contains_alias m alias \<longleftrightarrow> alias_to_name m alias \<noteq> None"

definition contains_name :: "track_alias_map \<Rightarrow> full_track_name \<Rightarrow> bool" where
  "contains_name m name \<longleftrightarrow> name_to_alias m name \<noteq> None"

subsection \<open>Specification and refinement\<close>

definition alias_map_inv :: "track_alias_map \<Rightarrow> bool" where
  "alias_map_inv m \<longleftrightarrow> (\<forall>a n. alias_to_name m a = Some n \<longleftrightarrow> name_to_alias m n = Some a)"

definition alias_pairs :: "track_alias_map \<Rightarrow> (u64 \<times> full_track_name) set" where
  "alias_pairs m = {(a, n). alias_to_name m a = Some n}"

lemma alias_map_invI:
  assumes "\<And>a n. alias_to_name m a = Some n \<Longrightarrow> name_to_alias m n = Some a"
    and "\<And>a n. name_to_alias m n = Some a \<Longrightarrow> alias_to_name m a = Some n"
  shows "alias_map_inv m"
  unfolding alias_map_inv_def using assms by blast

lemma alias_map_invD:
  assumes "alias_map_inv m"
  shows "alias_to_name m a = Some n \<Longrightarrow> name_to_alias m n = Some a"
    and "name_to_alias m n = Some a \<Longrightarrow> alias_to_name m a = Some n"
  using assms unfolding alias_map_inv_def by blast+

lemma alias_map_inv_new: "alias_map_inv track_alias_map_new" "alias_pairs track_alias_map_new = {}"
  by (simp_all add: alias_map_inv_def alias_pairs_def track_alias_map_new_def)

lemma alias_pairs_one_to_one:
  assumes "alias_map_inv m" "(a, n) \<in> alias_pairs m" "(b, k) \<in> alias_pairs m"
  shows "a = b \<longleftrightarrow> n = k"
  using assms(2,3) alias_map_invD [OF assms(1)] unfolding alias_pairs_def by (metis (mono_tags, lifting) case_prodD mem_Collect_eq option.inject)

lemma add_mapping_refines:
  assumes inv: "alias_map_inv m" and run: "add_mapping m a n = (r, m')"
  shows "alias_map_inv m'"
    and "r = Inr () \<longleftrightarrow> (\<forall>(b, k) \<in> alias_pairs m. b = a \<longleftrightarrow> k = n)"
    and "alias_pairs m' = (if r = Inr () then insert (a, n) (alias_pairs m) else alias_pairs m)"
proof -
  note d = alias_map_invD [OF inv]
  show "alias_map_inv m'"
    using run inv
    by (auto simp: add_mapping_def split: option.splits if_splits intro!: alias_map_invI)
       (metis d option.distinct(1) option.inject)+
  show "r = Inr () \<longleftrightarrow> (\<forall>(b, k) \<in> alias_pairs m. b = a \<longleftrightarrow> k = n)"
    using run by (auto simp: add_mapping_def alias_pairs_def split: option.splits if_splits)
       (metis d option.distinct(1) option.inject)+
  show "alias_pairs m' = (if r = Inr () then insert (a, n) (alias_pairs m) else alias_pairs m)"
    using run by (auto simp: add_mapping_def alias_pairs_def split: option.splits if_splits)
       (metis d option.distinct(1) option.inject)+
qed

lemma remove_by_alias_refines:
  assumes inv: "alias_map_inv m" and run: "remove_mapping_by_alias m a = (r, m')"
  shows "alias_map_inv m'" and "alias_pairs m' = {(b, k) \<in> alias_pairs m. b \<noteq> a}"
    and "r = Some k \<longleftrightarrow> (a, k) \<in> alias_pairs m"
proof -
  note d = alias_map_invD [OF inv]
  show "alias_map_inv m'"
    using run inv
    by (auto simp: remove_mapping_by_alias_def split: option.splits if_splits intro!: alias_map_invI)
       (metis d option.distinct(1) option.inject)+
  show "alias_pairs m' = {(b, k) \<in> alias_pairs m. b \<noteq> a}" "r = Some k \<longleftrightarrow> (a, k) \<in> alias_pairs m"
    using run by (auto simp: remove_mapping_by_alias_def alias_pairs_def split: option.splits if_splits)
qed

lemma remove_by_name_refines:
  assumes inv: "alias_map_inv m" and run: "remove_mapping_by_name m n = (r, m')"
  shows "alias_map_inv m'" and "alias_pairs m' = {(b, k) \<in> alias_pairs m. k \<noteq> n}"
    and "r = Some a \<longleftrightarrow> (a, n) \<in> alias_pairs m"
proof -
  note d = alias_map_invD [OF inv]
  show "alias_map_inv m'"
    using run inv
    by (auto simp: remove_mapping_by_name_def split: option.splits if_splits intro!: alias_map_invI)
       (metis d option.distinct(1) option.inject)+
  show "alias_pairs m' = {(b, k) \<in> alias_pairs m. k \<noteq> n}" "r = Some a \<longleftrightarrow> (a, n) \<in> alias_pairs m"
    using run by (auto simp: remove_mapping_by_name_def alias_pairs_def split: option.splits if_splits)
       (metis d option.distinct(1) option.inject)+
qed

text \<open>The operations as one step function, for histories of calls.\<close>

datatype alias_op = AddMapping u64 full_track_name | RemoveAlias u64 | RemoveName full_track_name

fun alias_step :: "track_alias_map \<Rightarrow> alias_op \<Rightarrow> track_alias_map" where
  "alias_step m (AddMapping a n) = snd (add_mapping m a n)"
| "alias_step m (RemoveAlias a) = snd (remove_mapping_by_alias m a)"
| "alias_step m (RemoveName n) = snd (remove_mapping_by_name m n)"

lemma alias_step_inv: "alias_map_inv m \<Longrightarrow> alias_map_inv (alias_step m c)"
  using add_mapping_refines(1) remove_by_alias_refines(1) remove_by_name_refines(1)
  by (cases c) (metis alias_step.simps prod.collapse)+

lemma alias_run_inv: "alias_map_inv m \<Longrightarrow> alias_map_inv (foldl alias_step m ops)"
  by (induction ops arbitrary: m) (simp_all add: alias_step_inv)

subsection \<open>Properties\<close>

text \<open>After any sequence of additions and removals the two maps are inverse to each other:
  an alias resolves to a name exactly when the name resolves to the alias, and adding a
  mapping succeeds exactly when it contradicts none that is present.\<close>

lemma track_alias_consistent:
  "let m = foldl alias_step track_alias_map_new ops in
     (get_name_by_alias m a = Inr n \<longleftrightarrow> get_alias_by_name m n = Inr a)
     \<and> (fst (add_mapping m a n) = Inr () \<longleftrightarrow>
          (\<forall>b k. get_name_by_alias m b = Inr k \<longrightarrow> (b = a \<longleftrightarrow> k = n)))
     \<and> (fst (add_mapping m a n) = Inr () \<longrightarrow>
          get_name_by_alias (snd (add_mapping m a n)) a = Inr n)"
proof -
  define m where "m = foldl alias_step track_alias_map_new ops"
  have inv: "alias_map_inv m" unfolding m_def by (intro alias_run_inv alias_map_inv_new)
  obtain r m' where run: "add_mapping m a n = (r, m')" by fastforce
  have pairs: "get_name_by_alias k b = Inr c \<longleftrightarrow> (b, c) \<in> alias_pairs k" for k b c
    by (simp add: get_name_by_alias_def alias_pairs_def ok_or_Inr_iff)
  have sym: "(a, n) \<in> alias_pairs m \<longleftrightarrow> get_alias_by_name m n = Inr a"
    using inv by (simp add: alias_map_inv_def alias_pairs_def get_alias_by_name_def ok_or_Inr_iff)
  show ?thesis
    unfolding m_def [symmetric] Let_def pairs run fst_conv snd_conv
    using sym add_mapping_refines(2,3) [OF inv run] by auto
qed

end
