(* ===== verification/Absent_Ranges.thy ===== *)
theory Absent_Ranges
  imports Locations
begin

text \<open>
  The record of what does not exist (\<open>AbsentRanges\<close> of
  \<open>apps/relay/src/server/track_cache.rs\<close>): inclusive Location ranges in a \<open>BTreeMap\<close> from start to
  end. The map is modelled as the association list of its entries in key order, with the
  operations of \<open>BTreeMap\<close> the code uses. The abstraction is the set of Locations the ranges
  cover: insertion is union, up to the cap on the number of ranges, and the ranges stay
  sorted, disjoint and merged.
\<close>

subsection \<open>The ordered map\<close>

text \<open>\<open>insert\<close>, \<open>remove\<close>, \<open>range(..=k)\<close> and \<open>pop_first\<close>.\<close>

fun btree_insert :: "'k::linorder \<Rightarrow> 'v \<Rightarrow> ('k \<times> 'v) list \<Rightarrow> ('k \<times> 'v) list" where
  "btree_insert k v [] = [(k, v)]"
| "btree_insert k v ((k', v') # m) =
     (if k < k' then (k, v) # (k', v') # m
      else if k = k' then (k, v) # m
      else (k', v') # btree_insert k v m)"

definition btree_remove :: "'k \<Rightarrow> ('k \<times> 'v) list \<Rightarrow> ('k \<times> 'v) list" where
  "btree_remove k m = filter (\<lambda>e. fst e \<noteq> k) m"

definition btree_upto :: "'k::linorder \<Rightarrow> ('k \<times> 'v) list \<Rightarrow> ('k \<times> 'v) list" where
  "btree_upto k m = takeWhile (\<lambda>e. fst e \<le> k) m"

definition btree_pop_first :: "('k \<times> 'v) list \<Rightarrow> ('k \<times> 'v) list" where
  "btree_pop_first m = tl m"

subsection \<open>Operations\<close>

type_synonym absent_ranges = "(location \<times> location) list"

definition MAX_ABSENT_RANGES :: nat where
  "MAX_ABSENT_RANGES = 65536"

definition touching_ranges :: "absent_ranges \<Rightarrow> location \<Rightarrow> location \<Rightarrow> absent_ranges" where
  "touching_ranges ranges lo hi =
     (let limit = (case location_next hi of Some n \<Rightarrow> n | None \<Rightarrow> hi) in
      takeWhile (\<lambda>r. case location_next (snd r) of None \<Rightarrow> True | Some n \<Rightarrow> n \<ge> lo)
        (rev (btree_upto limit ranges)))"

fun absorb_ranges :: "absent_ranges \<Rightarrow> location \<Rightarrow> location \<Rightarrow> absent_ranges \<Rightarrow> location \<times> location \<times> absent_ranges" where
  "absorb_ranges [] lo hi ranges = (lo, hi, ranges)"
| "absorb_ranges ((s, e) # touching) lo hi ranges =
     absorb_ranges touching (min lo s) (max hi e) (btree_remove s ranges)"

function pop_excess :: "absent_ranges \<Rightarrow> absent_ranges" where
  "pop_excess ranges =
     (if length ranges > MAX_ABSENT_RANGES then pop_excess (btree_pop_first ranges) else ranges)"
  by pat_completeness auto
termination
  by (relation "measure length") (auto simp: btree_pop_first_def)

declare pop_excess.simps [simp del]

definition absent_insert :: "absent_ranges \<Rightarrow> location \<Rightarrow> location \<Rightarrow> absent_ranges" where
  "absent_insert ranges lo hi =
     (case absorb_ranges (touching_ranges ranges lo hi) lo hi ranges of
        (lo', hi', ranges') \<Rightarrow> pop_excess (btree_insert lo' hi' ranges'))"

definition end_containing :: "absent_ranges \<Rightarrow> location \<Rightarrow> location option" where
  "end_containing ranges l =
     (case rev (btree_upto l ranges) of
        [] \<Rightarrow> None
      | (_, e) # _ \<Rightarrow> if e \<ge> l then Some e else None)"

subsection \<open>Invariant and abstraction\<close>

text \<open>A range lies before another with at least one Location between them.\<close>

definition clear_before :: "location \<times> location \<Rightarrow> location \<times> location \<Rightarrow> bool" where
  "clear_before a b \<longleftrightarrow> Suc (location_rank (snd a)) < location_rank (fst b)"

definition ranges_inv :: "absent_ranges \<Rightarrow> bool" where
  "ranges_inv ranges \<longleftrightarrow>
     (\<forall>r \<in> set ranges. fst r \<le> snd r) \<and> sorted_wrt clear_before ranges"

definition absent_set :: "absent_ranges \<Rightarrow> location set" where
  "absent_set ranges = (\<Union>r \<in> set ranges. {fst r .. snd r})"

lemma ranges_inv_simps [simp]:
  "ranges_inv []"
  "ranges_inv (r # ranges) \<longleftrightarrow> fst r \<le> snd r \<and> (\<forall>q \<in> set ranges. clear_before r q) \<and> ranges_inv ranges"
  by (auto simp: ranges_inv_def)

lemma absent_set_simps [simp]:
  "absent_set [] = {}"
  "absent_set (r # ranges) = {fst r .. snd r} \<union> absent_set ranges"
  by (auto simp: absent_set_def)

lemma clear_before_less: "clear_before a b \<Longrightarrow> snd a < fst b"
  by (simp add: clear_before_def flip: location_rank_less)

lemma clear_before_trans:
  "clear_before a b \<Longrightarrow> fst b \<le> snd b \<Longrightarrow> clear_before b c \<Longrightarrow> clear_before a c"
  by (simp add: clear_before_def flip: location_rank_le)

lemma next_ge_iff:
  "(case location_next e of None \<Rightarrow> True | Some n \<Rightarrow> n \<ge> lo) \<longleftrightarrow> location_rank lo \<le> Suc (location_rank e)"
proof (cases "location_next e")
  case None
  then have "lo \<le> e" by (simp add: location_next_None)
  with None show ?thesis by (simp flip: location_rank_le)
next
  case (Some n)
  with location_next_Some [OF Some] show ?thesis by (simp flip: location_rank_le)
qed

text \<open>On ranges that satisfy the invariant, the two scans of the code are plain selections.\<close>

lemma btree_upto_filter:
  "ranges_inv ranges \<Longrightarrow> btree_upto k ranges = filter (\<lambda>r. fst r \<le> k) ranges"
proof (induction ranges)
  case (Cons r ranges)
  have "\<not> fst q \<le> k" if "\<not> fst r \<le> k" "q \<in> set ranges" for q
    using Cons.prems that clear_before_less [of r q] by auto
  with Cons show ?case by (auto simp: btree_upto_def filter_empty_conv)
qed (simp add: btree_upto_def)

lemma ranges_inv_filter: "ranges_inv ranges \<Longrightarrow> ranges_inv (filter P ranges)"
  by (auto simp: ranges_inv_def sorted_wrt_filter)

lemma takeWhile_rev_filter:
  "sorted_wrt (\<lambda>a b. P a \<longrightarrow> P b) xs \<Longrightarrow> takeWhile P (rev xs) = rev (filter P xs)"
proof (induction xs)
  case (Cons x xs)
  show ?case
  proof (cases "P x")
    case True
    with Cons.prems have "\<forall>y \<in> set xs. P y" by simp
    with True show ?thesis by (simp add: takeWhile_append2 [of "rev xs", simplified])
  next
    case False
    with Cons show ?thesis by (simp add: takeWhile_tail)
  qed
qed simp

lemma touching_ranges_filter:
  assumes inv: "ranges_inv ranges"
  shows "touching_ranges ranges lo hi = rev (filter (\<lambda>r.
      location_rank (fst r) \<le> Suc (location_rank hi) \<and> location_rank lo \<le> Suc (location_rank (snd r))) ranges)"
proof -
  let ?P = "\<lambda>r. location_rank lo \<le> Suc (location_rank (snd r))"
  define limit where "limit = (case location_next hi of Some n \<Rightarrow> n | None \<Rightarrow> hi)"
  have limit: "fst r \<le> limit \<longleftrightarrow> location_rank (fst r) \<le> Suc (location_rank hi)" for r :: "location \<times> location"
  proof (cases "location_next hi")
    case None
    then have "fst r \<le> hi" by (simp add: location_next_None)
    with None show ?thesis by (simp add: limit_def flip: location_rank_le)
  next
    case (Some n)
    with location_next_Some [OF Some] show ?thesis by (simp add: limit_def flip: location_rank_le)
  qed
  have "sorted_wrt (\<lambda>a b. ?P a \<longrightarrow> ?P b) (btree_upto limit ranges)"
  proof (rule sorted_wrt_mono_rel)
    show "sorted_wrt clear_before (btree_upto limit ranges)"
      using ranges_inv_filter [OF inv] by (simp add: btree_upto_filter [OF inv] ranges_inv_def)
  next
    fix a b assume "b \<in> set (btree_upto limit ranges)" "clear_before a b"
    moreover from this inv have "fst b \<le> snd b"
      by (auto simp: btree_upto_filter ranges_inv_def)
    ultimately show "?P a \<longrightarrow> ?P b" by (auto simp: clear_before_def simp flip: location_rank_le)
  qed
  from takeWhile_rev_filter [OF this] show ?thesis
    unfolding touching_ranges_def Let_def limit_def [symmetric]
    by (simp add: next_ge_iff case_prod_beta btree_upto_filter [OF inv] limit conj_commute)
qed

text \<open>Absorbing a touching range is the union of the two intervals.\<close>

lemma join_intervals:
  assumes "lo \<le> hi" "s \<le> e" "location_rank s \<le> Suc (location_rank hi)" "location_rank lo \<le> Suc (location_rank e)"
  shows "{min lo s .. max hi e} = {lo..hi} \<union> {s..e}"
proof (rule set_eqI)
  fix x
  from assms show "x \<in> {min lo s .. max hi e} \<longleftrightarrow> x \<in> {lo..hi} \<union> {s..e}"
    by (auto simp: min_def max_def simp flip: location_rank_le split: if_splits)
qed

abbreviation touches :: "location \<Rightarrow> location \<Rightarrow> location \<times> location \<Rightarrow> bool" where
  "touches lo hi r \<equiv>
     location_rank (fst r) \<le> Suc (location_rank hi) \<and> location_rank lo \<le> Suc (location_rank (snd r))"

lemma touches_mono:
  "touches lo hi r \<Longrightarrow> lo' \<le> lo \<Longrightarrow> hi \<le> hi' \<Longrightarrow> touches lo' hi' r"
  by (auto simp flip: location_rank_le)

lemma absorb_ranges_union:
  assumes "lo \<le> hi" "\<forall>r \<in> set ts. fst r \<le> snd r \<and> touches lo hi r"
    and "absorb_ranges ts lo hi ranges = (lo', hi', ranges')"
  shows "{lo'..hi'} = {lo..hi} \<union> absent_set ts
    \<and> ranges' = filter (\<lambda>r. fst r \<notin> fst ` set ts) ranges
    \<and> lo' \<in> insert lo (fst ` set ts) \<and> hi' \<in> insert hi (snd ` set ts) \<and> lo' \<le> hi'"
  using assms
proof (induction ts arbitrary: lo hi ranges)
  case Nil
  then show ?case by simp
next
  case (Cons t ts)
  obtain s e where t: "t = (s, e)" by (cases t)
  let ?lo = "min lo s" and ?hi = "max hi e"
  have le: "?lo \<le> ?hi" using Cons.prems(1) by (simp add: min_le_iff_disj le_max_iff_disj)
  have ts: "\<forall>r \<in> set ts. fst r \<le> snd r \<and> touches ?lo ?hi r"
    using Cons.prems(2) touches_mono [of _ hi lo ?lo ?hi] by auto
  have run: "absorb_ranges ts ?lo ?hi (btree_remove s ranges) = (lo', hi', ranges')"
    using Cons.prems(3) t by simp
  have join: "{?lo..?hi} = {lo..hi} \<union> {s..e}" using Cons.prems(1,2) t by (intro join_intervals) auto
  note IH = Cons.IH [OF le ts run]
  have "ranges' = filter (\<lambda>r. fst r \<notin> fst ` set (t # ts)) ranges"
    using IH by (auto simp: t btree_remove_def intro: filter_cong)
  moreover have "{lo'..hi'} = {lo..hi} \<union> absent_set (t # ts)"
    using IH join by (simp add: t Un_assoc)
  moreover have "lo' \<in> insert lo (fst ` set (t # ts))" "hi' \<in> insert hi (snd ` set (t # ts))"
    using IH by (auto simp: t min_def max_def split: if_splits)
  ultimately show ?case using IH by blast
qed

text \<open>Inserting a range that is clear of all others keeps the invariant.\<close>

lemma btree_insert_clear:
  assumes "ranges_inv ranges" "lo \<le> hi"
    and "\<forall>q \<in> set ranges. clear_before q (lo, hi) \<or> clear_before (lo, hi) q"
  shows "ranges_inv (btree_insert lo hi ranges)"
    and "set (btree_insert lo hi ranges) = insert (lo, hi) (set ranges)"
proof -
  have "ranges_inv (btree_insert lo hi ranges) \<and> set (btree_insert lo hi ranges) = insert (lo, hi) (set ranges)"
    using assms
  proof (induction ranges)
    case (Cons r ranges)
    obtain s e where r: "r = (s, e)" by (cases r)
    with Cons.prems have se: "s \<le> e" by simp
    show ?case
    proof (cases "clear_before r (lo, hi)")
      case True
      then have "s < lo" using clear_before_less [OF True] se r by simp
      with Cons True r show ?thesis by auto
    next
      case False
      with Cons.prems have c: "clear_before (lo, hi) r" by auto
      then have "lo < s" using clear_before_less [OF c] Cons.prems(2) r by simp
      moreover have "clear_before (lo, hi) q" if "q \<in> set ranges" for q
        using clear_before_trans [OF c] Cons.prems(1) that by auto
      ultimately show ?thesis using Cons.prems c r by simp
    qed
  qed simp
  then show "ranges_inv (btree_insert lo hi ranges)"
    "set (btree_insert lo hi ranges) = insert (lo, hi) (set ranges)" by auto
qed

lemma pop_excess_drop: "\<exists>n. pop_excess ranges = drop n ranges"
proof (induction ranges rule: pop_excess.induct)
  case (1 ranges)
  show ?case
  proof (cases "length ranges > MAX_ABSENT_RANGES")
    case True
    from "1.IH" [OF True] obtain n where "pop_excess (btree_pop_first ranges) = drop n (tl ranges)"
      by (auto simp: btree_pop_first_def)
    with True have "pop_excess ranges = drop (Suc n) ranges"
      by (subst pop_excess.simps) (simp add: drop_Suc)
    then show ?thesis by blast
  next
    case False
    then have "pop_excess ranges = drop 0 ranges" by (subst pop_excess.simps) simp
    then show ?thesis by blast
  qed
qed

lemma pop_excess_length: "length (pop_excess ranges) = min (length ranges) MAX_ABSENT_RANGES"
  by (induction ranges rule: pop_excess.induct)
     (subst pop_excess.simps, auto simp: btree_pop_first_def)

lemma pop_excess_id: "length ranges \<le> MAX_ABSENT_RANGES \<Longrightarrow> pop_excess ranges = ranges"
  by (subst pop_excess.simps) simp

lemma ranges_total:
  "ranges_inv ranges \<Longrightarrow> q \<in> set ranges \<Longrightarrow> t \<in> set ranges \<Longrightarrow> q = t \<or> clear_before q t \<or> clear_before t q"
  by (induction ranges) auto

lemma clear_before_asym: "clear_before a b \<Longrightarrow> fst a \<le> snd a \<Longrightarrow> fst b \<le> snd b \<Longrightarrow> fst a < fst b \<and> snd a < snd b"
  by (simp add: clear_before_def flip: location_rank_le location_rank_less)

lemma absent_join:
  assumes inv: "ranges_inv ranges" and le: "lo \<le> hi"
    and run: "absorb_ranges (touching_ranges ranges lo hi) lo hi ranges = (lo', hi', ranges')"
  shows "ranges_inv (btree_insert lo' hi' ranges')
    \<and> absent_set (btree_insert lo' hi' ranges') = absent_set ranges \<union> {lo..hi}
    \<and> length (btree_insert lo' hi' ranges') \<le> Suc (length ranges)"
proof -
  let ?ts = "touching_ranges ranges lo hi"
  have ts: "set ?ts = {r \<in> set ranges. touches lo hi r}" by (auto simp: touching_ranges_filter [OF inv])
  have wf: "\<forall>r \<in> set ranges. fst r \<le> snd r" using inv by (simp add: ranges_inv_def)
  have "\<forall>r \<in> set ?ts. fst r \<le> snd r \<and> touches lo hi r" using ts wf by auto
  note ab = absorb_ranges_union [OF le this run]
  have same_start: "q = t" if "q \<in> set ranges" "t \<in> set ranges" "fst q = fst t" for q t
    using ranges_total [OF inv that(1,2)] clear_before_asym [of q t] clear_before_asym [of t q] wf that by auto
  have "fst q \<in> fst ` set ?ts \<longleftrightarrow> q \<in> set ?ts" if "q \<in> set ranges" for q
    using same_start [OF that] ts by blast
  then have rest: "set ranges' = {q \<in> set ranges. \<not> touches lo hi q}"
    using ab ts by auto
  have clear: "clear_before q (lo', hi') \<or> clear_before (lo', hi') q" if q: "q \<in> set ranges'" for q
  proof (cases "location_rank (fst q) \<le> Suc (location_rank hi)")
    case True
    with q rest have far: "Suc (location_rank (snd q)) < location_rank lo" by auto
    have "clear_before q t" if t: "t \<in> set ?ts" for t
    proof -
      have "snd q < snd t" using far t ts by (auto simp flip: location_rank_less)
      moreover from this have "\<not> clear_before t q" using clear_before_asym [of t q] wf q rest t ts by auto
      ultimately show ?thesis using ranges_total [OF inv, of q t] q rest t ts by auto
    qed
    with ab far have "clear_before q (lo', hi')" by (auto simp: clear_before_def)
    then show ?thesis ..
  next
    case False
    have "clear_before t q" if t: "t \<in> set ?ts" for t
    proof -
      have "fst t < fst q" using False t ts by (auto simp flip: location_rank_less)
      moreover from this have "\<not> clear_before q t" using clear_before_asym [of q t] wf q rest t ts by auto
      ultimately show ?thesis using ranges_total [OF inv, of q t] q rest t ts by auto
    qed
    with ab False have "clear_before (lo', hi') q" by (auto simp: clear_before_def)
    then show ?thesis ..
  qed
  have inv': "ranges_inv ranges'" using ab ranges_inv_filter [OF inv] by auto
  from ab have le': "lo' \<le> hi'" by blast
  from clear have "\<forall>q \<in> set ranges'. clear_before q (lo', hi') \<or> clear_before (lo', hi') q" by blast
  note ins = btree_insert_clear [OF inv' le' this]
  have "absent_set (btree_insert lo' hi' ranges') = {lo'..hi'} \<union> absent_set ranges'"
    using ins(2) by (simp add: absent_set_def)
  also have "\<dots> = {lo..hi} \<union> (absent_set ?ts \<union> absent_set ranges')" using ab by auto
  also have "absent_set ?ts \<union> absent_set ranges' = absent_set ranges"
    using ts rest by (auto simp: absent_set_def)
  finally have set: "absent_set (btree_insert lo' hi' ranges') = absent_set ranges \<union> {lo..hi}" by auto
  have "length (btree_insert a b m) \<le> Suc (length m)" for a b and m :: absent_ranges
    by (induction m) auto
  moreover have "length ranges' \<le> length ranges" using ab by simp
  ultimately have "length (btree_insert lo' hi' ranges') \<le> Suc (length ranges)" by (meson Suc_le_mono le_trans)
  with ins(1) set show ?thesis by blast
qed

lemma ranges_inv_drop: "ranges_inv ranges \<Longrightarrow> ranges_inv (drop n ranges)"
  by (auto simp: ranges_inv_def sorted_wrt_drop dest: in_set_dropD)

lemma absent_insert_refines:
  assumes inv: "ranges_inv ranges" and le: "lo \<le> hi"
  shows "ranges_inv (absent_insert ranges lo hi)"
    and "length (absent_insert ranges lo hi) \<le> MAX_ABSENT_RANGES"
    and "absent_set (absent_insert ranges lo hi) \<subseteq> absent_set ranges \<union> {lo..hi}"
    and "length ranges < MAX_ABSENT_RANGES \<Longrightarrow> absent_set (absent_insert ranges lo hi) = absent_set ranges \<union> {lo..hi}"
proof -
  obtain lo' hi' ranges' where run: "absorb_ranges (touching_ranges ranges lo hi) lo hi ranges = (lo', hi', ranges')"
    by (metis surj_pair)
  let ?j = "btree_insert lo' hi' ranges'"
  note j = absent_join [OF inv le run]
  from run have ins: "absent_insert ranges lo hi = pop_excess ?j" by (simp add: absent_insert_def)
  obtain n where n: "pop_excess ?j = drop n ?j" using pop_excess_drop by blast
  show "ranges_inv (absent_insert ranges lo hi)" using j by (simp add: ins n ranges_inv_drop)
  show "length (absent_insert ranges lo hi) \<le> MAX_ABSENT_RANGES" by (simp add: ins pop_excess_length)
  show "absent_set (absent_insert ranges lo hi) \<subseteq> absent_set ranges \<union> {lo..hi}"
  proof -
    have "absent_set (drop n ?j) \<subseteq> absent_set ?j" by (auto simp: absent_set_def dest: in_set_dropD)
    with j show ?thesis by (simp add: ins n)
  qed
  show "absent_set (absent_insert ranges lo hi) = absent_set ranges \<union> {lo..hi}"
    if "length ranges < MAX_ABSENT_RANGES"
    using j that by (simp add: ins pop_excess_id)
qed

lemma end_containing_correct:
  assumes inv: "ranges_inv ranges"
  shows "end_containing ranges l = Some e \<longleftrightarrow> (\<exists>s. (s, e) \<in> set ranges \<and> s \<le> l \<and> l \<le> e)"
    and "end_containing ranges l = None \<longleftrightarrow> l \<notin> absent_set ranges"
proof -
  have last_in: "x \<in> set ranges \<and> fst x \<le> l" if "filter (\<lambda>r. fst r \<le> l) ranges = b @ [x]" for b x
  proof -
    have "x \<in> set (filter (\<lambda>r. fst r \<le> l) ranges)" by (simp add: that)
    then show ?thesis by simp
  qed
  have some: "(\<exists>s. (s, e) \<in> set ranges \<and> s \<le> l \<and> l \<le> e)" if "end_containing ranges l = Some e" for e
  proof -
    from that obtain s m where "rev (filter (\<lambda>r. fst r \<le> l) ranges) = (s, e) # m" "l \<le> e"
      by (auto simp: end_containing_def btree_upto_filter [OF inv] split: list.splits if_splits)
    with last_in [of "rev m" "(s, e)"] show ?thesis by (auto simp: rev_eq_Cons_iff)
  qed
  have none: "l \<notin> {s..e}" if "end_containing ranges l = None" "(s, e) \<in> set ranges" for s e
  proof
    assume l: "l \<in> {s..e}"
    let ?u = "filter (\<lambda>r. fst r \<le> l) ranges"
    from l that(2) have "(s, e) \<in> set ?u" by simp
    then have ne: "?u \<noteq> []" by (metis list.set(1) empty_iff)
    then obtain b x where u: "?u = b @ [x]" by (metis append_butlast_last_id)
    have "ranges_inv ?u" by (rule ranges_inv_filter [OF inv])
    then have "(s, e) = x \<or> clear_before (s, e) x" using \<open>(s, e) \<in> set ?u\<close>
      unfolding u by (auto simp: ranges_inv_def sorted_wrt_append)
    moreover have "fst x \<le> l" using last_in [OF u] by blast
    ultimately have "x = (s, e)" using l clear_before_less [of "(s, e)" x] by auto
    with u l that(1) show False
      by (simp add: end_containing_def btree_upto_filter [OF inv] split: if_splits)
  qed
  show "end_containing ranges l = None \<longleftrightarrow> l \<notin> absent_set ranges"
  proof (cases "end_containing ranges l")
    case None
    then show ?thesis using none by (auto simp: absent_set_def)
  next
    case (Some e)
    then show ?thesis using some [OF Some] by (force simp: absent_set_def)
  qed
  show "end_containing ranges l = Some e \<longleftrightarrow> (\<exists>s. (s, e) \<in> set ranges \<and> s \<le> l \<and> l \<le> e)"
  proof
    assume "\<exists>s. (s, e) \<in> set ranges \<and> s \<le> l \<and> l \<le> e"
    then obtain s where s: "(s, e) \<in> set ranges" "s \<le> l" "l \<le> e" by blast
    with none obtain e' where e': "end_containing ranges l = Some e'" by (cases "end_containing ranges l") auto
    from some [OF e'] obtain s' where s': "(s', e') \<in> set ranges" "s' \<le> l" "l \<le> e'" by blast
    from ranges_total [OF inv s(1) s'(1)] s s' have "e = e'"
      using clear_before_less [of "(s, e)" "(s', e')"] clear_before_less [of "(s', e')" "(s, e)"] by auto
    with e' show "end_containing ranges l = Some e" by simp
  qed (rule some)
qed

subsection \<open>Properties\<close>

text \<open>The record after a sequence of insertions, each with its bounds in order.\<close>

definition absent_run :: "(location \<times> location) list \<Rightarrow> absent_ranges" where
  "absent_run calls = foldl (\<lambda>ranges (lo, hi). absent_insert ranges lo hi) [] calls"

lemma absent_run_facts:
  assumes "\<forall>c \<in> set calls. fst c \<le> snd c"
  shows "ranges_inv (absent_run calls) \<and> length (absent_run calls) \<le> length calls
    \<and> absent_set (absent_run calls) \<subseteq> (\<Union>c \<in> set calls. {fst c .. snd c})
    \<and> (length calls \<le> MAX_ABSENT_RANGES \<longrightarrow> absent_set (absent_run calls) = (\<Union>c \<in> set calls. {fst c .. snd c}))"
  using assms
proof (induction calls rule: rev_induct)
  case Nil
  then show ?case by (simp add: absent_run_def)
next
  case (snoc c calls)
  obtain lo hi where c: "c = (lo, hi)" by (cases c)
  let ?r = "absent_run calls"
  have run: "absent_run (calls @ [c]) = absent_insert ?r lo hi" by (simp add: absent_run_def c)
  from snoc have IH: "ranges_inv ?r" "length ?r \<le> length calls"
    "absent_set ?r \<subseteq> (\<Union>c \<in> set calls. {fst c .. snd c})"
    "length calls \<le> MAX_ABSENT_RANGES \<Longrightarrow> absent_set ?r = (\<Union>c \<in> set calls. {fst c .. snd c})" by auto
  from snoc.prems c have le: "lo \<le> hi" by simp
  note ins = absent_insert_refines [OF IH(1) le]
  have "length (absent_insert ?r lo hi) \<le> Suc (length ?r)"
  proof -
    obtain lo' hi' ranges' where w: "absorb_ranges (touching_ranges ?r lo hi) lo hi ?r = (lo', hi', ranges')"
      by (metis surj_pair)
    with absent_join [OF IH(1) le w] show ?thesis
      by (simp add: absent_insert_def pop_excess_length min_le_iff_disj)
  qed
  moreover have all: "(\<Union>c \<in> set (calls @ [c]). {fst c .. snd c}) = (\<Union>c \<in> set calls. {fst c .. snd c}) \<union> {lo..hi}"
    by (auto simp: c)
  moreover have "absent_set (absent_insert ?r lo hi) \<subseteq> (\<Union>c \<in> set calls. {fst c .. snd c}) \<union> {lo..hi}"
    using ins(3) IH(3) by blast
  moreover have "absent_set (absent_insert ?r lo hi) = (\<Union>c \<in> set calls. {fst c .. snd c}) \<union> {lo..hi}"
    if "length (calls @ [c]) \<le> MAX_ABSENT_RANGES"
    using ins(4) IH(2,4) that by simp
  ultimately show ?case using ins(1) IH(2) unfolding run all by simp
qed

text \<open>C8. What is known absent is exactly what was recorded: after any insertions, whatever their
  order and overlaps, a Location lies in a remembered range only if some insertion covered it,
  and, below the cap on the number of ranges, exactly then; the ranges stay sorted, disjoint and
  merged, and never exceed the cap.\<close>

theorem absent_ranges_exact:
  assumes "\<forall>c \<in> set calls. fst c \<le> snd c"
  shows "(end_containing (absent_run calls) l \<noteq> None \<longrightarrow> (\<exists>c \<in> set calls. fst c \<le> l \<and> l \<le> snd c))
    \<and> (length calls \<le> MAX_ABSENT_RANGES \<longrightarrow>
        (end_containing (absent_run calls) l \<noteq> None \<longleftrightarrow> (\<exists>c \<in> set calls. fst c \<le> l \<and> l \<le> snd c)))
    \<and> sorted_wrt clear_before (absent_run calls)
    \<and> length (absent_run calls) \<le> MAX_ABSENT_RANGES"
proof -
  note f = absent_run_facts [OF assms]
  then have inv: "ranges_inv (absent_run calls)" by blast
  have "length (absent_run calls) \<le> MAX_ABSENT_RANGES"
  proof (cases calls rule: rev_cases)
    case Nil
    then show ?thesis by (simp add: absent_run_def)
  next
    case (snoc cs c)
    with assms absent_run_facts [of cs] show ?thesis
      by (cases c) (simp add: absent_run_def absent_insert_def pop_excess_length split: prod.split)
  qed
  moreover have "\<exists>c \<in> set calls. fst c \<le> l \<and> l \<le> snd c" if "l \<in> absent_set (absent_run calls)"
  proof -
    from f that have "l \<in> (\<Union>c \<in> set calls. {fst c .. snd c})" by blast
    then show ?thesis by auto
  qed
  ultimately show ?thesis
    using f inv by (auto simp: end_containing_correct(2) [OF inv] ranges_inv_def)
qed

theorem absent_ranges_exact_witness:
  "end_containing (absent_run [(Location 1 4, Location 1 6), (Location 2 0, Location 2 3),
       (Location 1 7, Location 1 u64_MAX)]) (Location 1 9) \<noteq> None
   \<and> end_containing (absent_run [(Location 1 4, Location 1 6)]) (Location 1 3) = None"
  using absent_ranges_exact [of "[(Location 1 4, Location 1 6), (Location 2 0, Location 2 3),
       (Location 1 7, Location 1 u64_MAX)]" "Location 1 9"]
    absent_ranges_exact [of "[(Location 1 4, Location 1 6)]" "Location 1 3"]
  by (simp add: MAX_ABSENT_RANGES_def word_le_nat_alt word_less_nat_alt del: not_None_eq)

end
