(* ===== verification/Track_Cache.thy ===== *)
theory Track_Cache
  imports Absent_Ranges Fetch_Object
begin

text \<open>
  The Object cache of a track (\<open>apps/relay/src/server/track_cache.rs\<close>). The store behind it is
  the moka cache, which is not part of the repository: its \<open>get\<close> and the effect of writing a
  group back are parameters (\<open>mget\<close>, \<open>mput\<close>), and what the code relies on is stated as
  \<open>moka_law\<close>: a group reads back as last written unless it was evicted. Eviction and expiry may
  happen between any two calls and are a step of their own. The locks of the source make
  \<open>add_object\<close>, \<open>mark_absent\<close>, \<open>claim_fill\<close> and the drop of a claim atomic; the read of a group
  and of the absent ranges in \<open>objects_if_complete\<close> is one step. A fill lock is identified by a
  number, fresh for each claim, which stands for the pointer identity \<open>Arc::ptr_eq\<close> compares.
  Logging of evictions and the configuration of expiry are left out.
\<close>

datatype cache_key = CacheKey (ck_relay_track_id: u64) (ck_group_id: u64)

record 'c track_cache =
  tc_relay_track_id :: u64
  tc_cache :: 'c
  tc_absent :: absent_ranges
  tc_fills :: "(u64 \<times> u64 \<times> nat) list"
  tc_next_lock :: nat

definition track_cache_new :: "u64 \<Rightarrow> 'c \<Rightarrow> 'c track_cache" where
  "track_cache_new relay_track_id empty_cache =
     \<lparr> tc_relay_track_id = relay_track_id, tc_cache = empty_cache, tc_absent = [], tc_fills = [],
       tc_next_lock = 0 \<rparr>"

text \<open>\<open>binary_search_by_key\<close> and \<open>insert\<close> on a group vector, sorted by Object ID.\<close>

definition insert_object :: "fetch_object_payload \<Rightarrow> fetch_object_payload list \<Rightarrow> fetch_object_payload list" where
  "insert_object ob objects =
     (if \<exists>x \<in> set objects. fo_object_id x = fo_object_id ob then objects
      else
        (let pos = length (takeWhile (\<lambda>x. fo_object_id x < fo_object_id ob) objects)
         in take pos objects @ ob # drop pos objects))"

definition add_object ::
  "('c \<Rightarrow> cache_key \<Rightarrow> fetch_object_payload list option) \<Rightarrow>
   ('c \<Rightarrow> cache_key \<Rightarrow> fetch_object_payload list \<Rightarrow> 'c) \<Rightarrow>
   'c track_cache \<Rightarrow> fetch_object_payload \<Rightarrow> 'c track_cache" where
  "add_object mget mput tc ob =
     (let key = CacheKey (tc_relay_track_id tc) (fo_group_id ob);
          group_objects = (case mget (tc_cache tc) key of Some objects \<Rightarrow> objects | None \<Rightarrow> [])
      in tc\<lparr> tc_cache := mput (tc_cache tc) key (insert_object ob group_objects) \<rparr>)"

definition mark_absent :: "'c track_cache \<Rightarrow> location \<Rightarrow> location \<Rightarrow> 'c track_cache" where
  "mark_absent tc lo hi =
     (if lo \<le> hi then tc\<lparr> tc_absent := absent_insert (tc_absent tc) lo hi \<rparr> else tc)"

definition get_group ::
  "('c \<Rightarrow> cache_key \<Rightarrow> fetch_object_payload list option) \<Rightarrow> 'c track_cache \<Rightarrow> u64 \<Rightarrow>
   fetch_object_payload list option" where
  "get_group mget tc group_id = mget (tc_cache tc) (CacheKey (tc_relay_track_id tc) group_id)"

lemma end_containing_ge: "end_containing ranges l = Some e \<Longrightarrow> l \<le> e"
  by (auto simp: end_containing_def split: list.splits if_splits)

text \<open>The scan of \<open>objects_if_complete\<close>: \<open>held\<close> are the IDs not yet passed, \<open>cursor\<close> the next ID.\<close>

function scan_complete :: "absent_ranges \<Rightarrow> u64 \<Rightarrow> u64 \<Rightarrow> u64 list \<Rightarrow> u64 \<Rightarrow> bool" where
  "scan_complete absent group_id hi held cursor =
     (if \<not> cursor \<le> hi then True
      else (case end_containing absent (Location group_id cursor) of
              Some e \<Rightarrow>
                if l_group e > group_id \<or> l_object e \<ge> hi then True
                else scan_complete absent group_id hi held (l_object e + 1)
            | None \<Rightarrow>
                (case held of
                   h # rest \<Rightarrow>
                     if h = cursor
                     then (case checked_add cursor 1 of
                             Some n \<Rightarrow> scan_complete absent group_id hi rest n
                           | None \<Rightarrow> True)
                     else False
                 | [] \<Rightarrow> False)))"
  by pat_completeness auto
termination
proof (relation "measure (\<lambda>(absent, g, hi, held, cursor). 2 ^ 64 - unat cursor)")
  fix absent :: absent_ranges and g hi :: u64 and held :: "u64 list" and cursor :: u64 and e :: location
  assume e: "end_containing absent (Location g cursor) = Some e" and n: "\<not> (g < l_group e \<or> hi \<le> l_object e)"
  from end_containing_ge [OF e] n have "cursor \<le> l_object e" "l_object e < hi"
    by (cases e; auto)+
  then have "unat cursor < unat (l_object e + 1)"
    by (simp add: word_less_nat_alt word_le_nat_alt unat_word_ariths)
       (metis Suc_lessI le_imp_less_Suc mod_less not_less_eq unat_u64_less word_less_nat_alt)
  then show "((absent, g, hi, held, l_object e + 1), absent, g, hi, held, cursor)
      \<in> measure (\<lambda>(absent, g, hi, held, cursor). 2 ^ 64 - unat cursor)"
    by (simp add: diff_less_mono2)
next
  fix absent :: absent_ranges and g hi cursor h n :: u64 and rest held :: "u64 list"
  assume "checked_add cursor 1 = Some n"
  then have "unat cursor < unat n" by (simp add: wrap_simps)
  then show "((absent, g, hi, rest, n), absent, g, hi, held, cursor)
      \<in> measure (\<lambda>(absent, g, hi, held, cursor). 2 ^ 64 - unat cursor)"
    by (simp add: diff_less_mono2)
qed simp_all

declare scan_complete.simps [simp del]

definition objects_if_complete ::
  "('c \<Rightarrow> cache_key \<Rightarrow> fetch_object_payload list option) \<Rightarrow> 'c track_cache \<Rightarrow>
   u64 \<Rightarrow> u64 \<Rightarrow> u64 \<Rightarrow> fetch_object_payload list option" where
  "objects_if_complete mget tc group_id lo hi =
     (let wanted = (case get_group mget tc group_id of
                      Some objects \<Rightarrow>
                        (let first = length (takeWhile (\<lambda>x. fo_object_id x < lo) objects);
                             last = length (takeWhile (\<lambda>x. fo_object_id x \<le> hi) objects)
                         in take (max last first - first) (drop first objects))
                    | None \<Rightarrow> [])
      in if scan_complete (tc_absent tc) group_id hi (map fo_object_id wanted) lo
         then Some wanted else None)"

text \<open>A claim is its lock; a refused claim returns the lock of the fill in flight.\<close>

definition claim_fill :: "'c track_cache \<Rightarrow> u64 \<Rightarrow> u64 \<Rightarrow> (nat + nat) \<times> 'c track_cache" where
  "claim_fill tc first_group last_group =
     (case find (\<lambda>(lo, hi, busy). lo \<le> last_group \<and> first_group \<le> hi) (tc_fills tc) of
        Some (_, _, busy) \<Rightarrow> (Inl busy, tc)
      | None \<Rightarrow>
          (let busy = tc_next_lock tc
           in (Inr busy, tc\<lparr> tc_fills := tc_fills tc @ [(first_group, last_group, busy)], tc_next_lock := Suc busy \<rparr>)))"

definition drop_claim :: "'c track_cache \<Rightarrow> nat \<Rightarrow> 'c track_cache" where
  "drop_claim tc busy = tc\<lparr> tc_fills := filter (\<lambda>(_, _, b). b \<noteq> busy) (tc_fills tc) \<rparr>"

subsection \<open>The group vectors\<close>

definition group_ok :: "u64 \<Rightarrow> fetch_object_payload list \<Rightarrow> bool" where
  "group_ok g objects \<longleftrightarrow> sorted_wrt (\<lambda>a b. fo_object_id a < fo_object_id b) objects
     \<and> (\<forall>x \<in> set objects. fo_group_id x = g)"

lemma takeWhile_sorted_filter:
  "sorted_wrt (\<lambda>a b. f a < (f b :: 'b::linorder)) xs \<Longrightarrow> takeWhile (\<lambda>x. f x < k) xs = filter (\<lambda>x. f x < k) xs"
  "sorted_wrt (\<lambda>a b. f a < (f b :: 'b::linorder)) xs \<Longrightarrow> takeWhile (\<lambda>x. f x \<le> k) xs = filter (\<lambda>x. f x \<le> k) xs"
proof (induction xs)
  case (Cons x xs)
  {
    case 1
    with Cons(1) show ?case by (auto simp: empty_filter_conv) (meson less_asym less_trans not_less_iff_gr_or_eq)
  next
    case 2
    with Cons(2) show ?case by (auto simp: empty_filter_conv) (meson less_le_trans less_imp_le)
  }
qed simp_all

lemma insert_object_ok:
  assumes "group_ok (fo_group_id ob) objects"
  shows "group_ok (fo_group_id ob) (insert_object ob objects)"
    and "set (insert_object ob objects) =
      (if \<exists>x \<in> set objects. fo_object_id x = fo_object_id ob then set objects else insert ob (set objects))"
proof -
  let ?k = "fo_object_id ob"
  define before after where "before = takeWhile (\<lambda>x. fo_object_id x < ?k) objects"
    and "after = dropWhile (\<lambda>x. fo_object_id x < ?k) objects"
  note defs = this
  have split: "insert_object ob objects = before @ ob # after" if "\<not> (\<exists>x \<in> set objects. fo_object_id x = ?k)"
    using that by (simp add: defs insert_object_def Let_def takeWhile_eq_take [symmetric] dropWhile_eq_drop [symmetric])
  have objects: "objects = before @ after" by (simp add: defs)
  then have parts: "set objects = set before \<union> set after" by (metis set_append)
  show "set (insert_object ob objects) =
      (if \<exists>x \<in> set objects. fo_object_id x = ?k then set objects else insert ob (set objects))"
    using split parts by (auto simp: insert_object_def)
  show "group_ok (fo_group_id ob) (insert_object ob objects)"
  proof (cases "\<exists>x \<in> set objects. fo_object_id x = ?k")
    case True
    with assms show ?thesis by (simp add: insert_object_def)
  next
    case False
    have sorted: "sorted_wrt (\<lambda>a b. fo_object_id a < fo_object_id b) (before @ after)"
      using assms objects by (simp add: group_ok_def)
    have "?k < fo_object_id x" if "x \<in> set after" for x
    proof (cases after)
      case (Cons y ys)
      then have "\<not> fo_object_id y < ?k" using defs(2) by (metis dropWhile_eq_Cons_conv)
      moreover have "y = x \<or> fo_object_id y < fo_object_id x"
        using sorted that Cons by (auto simp: sorted_wrt_append)
      moreover have "fo_object_id x \<noteq> ?k" using False that parts by auto
      ultimately show ?thesis by auto
    next
      case Nil
      with that show ?thesis by (metis list.set(1) empty_iff)
    qed
    moreover have "fo_object_id x < ?k" if "x \<in> set before" for x
      using that by (auto simp: defs dest: set_takeWhileD)
    moreover have "fo_group_id x = fo_group_id ob" if "x \<in> set before \<union> set after" for x
      using assms parts that by (auto simp: group_ok_def)
    ultimately show ?thesis
      using sorted unfolding split [OF False] group_ok_def
      by (auto simp: sorted_wrt_append intro: less_trans)
  qed
qed

lemma slice_sorted:
  assumes "sorted_wrt (\<lambda>a b. fo_object_id a < fo_object_id b) objects"
  shows "take (max (length (takeWhile (\<lambda>x. fo_object_id x \<le> hi) objects))
              (length (takeWhile (\<lambda>x. fo_object_id x < lo) objects))
            - length (takeWhile (\<lambda>x. fo_object_id x < lo) objects))
           (drop (length (takeWhile (\<lambda>x. fo_object_id x < lo) objects)) objects)
     = filter (\<lambda>x. lo \<le> fo_object_id x \<and> fo_object_id x \<le> hi) objects"
  using assms
proof (induction objects)
  case (Cons x objects)
  show ?case
  proof (cases "fo_object_id x < lo")
    case True
    then show ?thesis using Cons by (auto simp: empty_filter_conv)
  next
    case False
    have "takeWhile (\<lambda>x. fo_object_id x \<le> hi) (x # objects) = filter (\<lambda>x. fo_object_id x \<le> hi) (x # objects)"
      using Cons.prems by (rule takeWhile_sorted_filter(2))
    moreover have "lo \<le> fo_object_id y" if "y \<in> set (x # objects)" for y
      using False Cons.prems that by auto
    ultimately have "takeWhile (\<lambda>x. fo_object_id x \<le> hi) (x # objects)
        = filter (\<lambda>x. lo \<le> fo_object_id x \<and> fo_object_id x \<le> hi) (x # objects)"
      by (auto intro: filter_cong)
    then have "take (length (takeWhile (\<lambda>x. fo_object_id x \<le> hi) (x # objects))) (x # objects)
        = filter (\<lambda>x. lo \<le> fo_object_id x \<and> fo_object_id x \<le> hi) (x # objects)"
      by (metis takeWhile_eq_take)
    moreover have none: "takeWhile (\<lambda>x. fo_object_id x < lo) (x # objects) = []" using False by simp
    ultimately show ?thesis by (simp only: none list.size max_0R diff_zero drop_0)
  qed
qed simp

subsection \<open>The scan\<close>

text \<open>What a hit of \<open>end_containing\<close> at the cursor accounts for.\<close>

lemma hit_accounts:
  assumes "ranges_inv absent" "end_containing absent (Location g cursor) = Some e" "cursor \<le> i"
    and "l_group e > g \<or> i \<le> l_object e"
  shows "Location g i \<in> absent_set absent"
proof -
  from assms(1,2) obtain s where s: "(s, e) \<in> set absent" "s \<le> Location g cursor" "Location g cursor \<le> e"
    by (auto simp: end_containing_correct(1))
  have "s \<le> Location g i" using s(2) assms(3) by (meson Location_le(1) order_trans)
  moreover have "Location g i \<le> e" using s(3) assms(4) by (cases e) auto
  ultimately show ?thesis using s(1) by (force simp: absent_set_def)
qed

lemma hit_group:
  assumes "end_containing absent (Location g cursor) = Some e" "\<not> (l_group e > g \<or> l_object e \<ge> hi)"
  shows "cursor \<le> l_object e" "l_object e + 1 \<le> i \<longleftrightarrow> l_object e < i"
proof -
  from end_containing_ge [OF assms(1)] assms(2) have e: "cursor \<le> l_object e" "l_object e < hi"
    by (cases e; auto)+
  then have "unat (l_object e + 1) = Suc (unat (l_object e))"
    by (metis checked_add_1_None checked_add_Some checked_add_def not_less option.distinct(1)
        Suc_eq_plus1 u64_le_MAX unat_1)
  with e show "cursor \<le> l_object e" "l_object e + 1 \<le> i \<longleftrightarrow> l_object e < i"
    by (simp_all add: word_le_nat_alt word_less_nat_alt Suc_le_eq)
qed

lemma checked_add_1_le: "checked_add c 1 = Some n \<Longrightarrow> n \<le> i \<longleftrightarrow> c < i"
  by (simp add: wrap_simps word_le_nat_alt word_less_nat_alt Suc_le_eq)

lemma scan_sound:
  "ranges_inv absent \<Longrightarrow> scan_complete absent g hi held cursor \<Longrightarrow> cursor \<le> i \<Longrightarrow> i \<le> hi \<Longrightarrow>
     i \<in> set held \<or> Location g i \<in> absent_set absent"
proof (induction absent g hi held cursor rule: scan_complete.induct)
  case (1 absent g hi held cursor)
  from "1.prems" have c: "cursor \<le> hi" by simp
  show ?case
  proof (cases "end_containing absent (Location g cursor)")
    case (Some e)
    show ?thesis
    proof (cases "l_group e > g \<or> l_object e \<ge> i")
      case True
      with hit_accounts [OF "1.prems"(1) Some "1.prems"(3)] show ?thesis by blast
    next
      case False
      then have n: "\<not> (l_group e > g \<or> l_object e \<ge> hi)" using "1.prems"(4) by auto
      with "1.prems"(2) c Some have "scan_complete absent g hi held (l_object e + 1)"
        by (subst (asm) scan_complete.simps) (auto split: if_splits)
      with "1.IH"(2) [OF _ Some n "1.prems"(1)] c False hit_group(2) [OF Some n, of i] "1.prems"(4)
      show ?thesis by (simp add: not_le)
    qed
  next
    case None
    with "1.prems"(2) c obtain rest where held: "held = cursor # rest"
      and go: "\<And>n. checked_add cursor 1 = Some n \<Longrightarrow> scan_complete absent g hi rest n"
      by (subst (asm) scan_complete.simps) (auto split: list.splits if_splits option.splits)
    show ?thesis
    proof (cases "i = cursor")
      case False
      with "1.prems"(3) have "cursor < i" by simp
      moreover from this have "cursor \<noteq> u64_MAX" by (metis not_less u64_le_MAX)
      then obtain n where n: "checked_add cursor 1 = Some n" by (metis checked_add_1_None option.exhaust)
      ultimately show ?thesis
        using "1.IH"(1) [OF _ None held refl n "1.prems"(1) go [OF n]] c "1.prems"(4) held
        by (auto simp: checked_add_1_le [OF n])
    qed (simp add: held)
  qed
qed

lemma scan_succeeds:
  "ranges_inv absent \<Longrightarrow> sorted_wrt (<) held \<Longrightarrow> \<forall>h \<in> set held. cursor \<le> h \<and> Location g h \<notin> absent_set absent \<Longrightarrow>
   \<forall>i. cursor \<le> i \<and> i \<le> hi \<longrightarrow> i \<in> set held \<or> Location g i \<in> absent_set absent \<Longrightarrow>
     scan_complete absent g hi held cursor"
proof (induction absent g hi held cursor rule: scan_complete.induct)
  case (1 absent g hi held cursor)
  show ?case
  proof (cases "cursor \<le> hi")
    case c: True
    show ?thesis
    proof (cases "end_containing absent (Location g cursor)")
      case (Some e)
      show ?thesis
      proof (cases "l_group e > g \<or> l_object e \<ge> hi")
        case True
        with c Some show ?thesis by (subst scan_complete.simps) simp
      next
        case False
        have "l_object e < h" if "h \<in> set held" for h
          using hit_accounts [OF "1.prems"(1) Some, of h] "1.prems"(3) that by (auto simp: not_le [symmetric])
        moreover have "\<forall>i. l_object e < i \<and> i \<le> hi \<longrightarrow> i \<in> set held \<or> Location g i \<in> absent_set absent"
          using "1.prems"(4) hit_group(1) [OF Some False] by (meson le_less_trans less_imp_le)
        ultimately have "scan_complete absent g hi held (l_object e + 1)"
          using "1.IH"(2) [OF _ Some False "1.prems"(1,2)] c "1.prems"(3) hit_group [OF Some False]
          by auto
        with c Some False show ?thesis by (subst scan_complete.simps) simp
      qed
    next
      case None
      then have "Location g cursor \<notin> absent_set absent" by (simp add: end_containing_correct(2) "1.prems"(1))
      with "1.prems"(4) c have "cursor \<in> set held" by auto
      with "1.prems"(2,3) obtain rest where held: "held = cursor # rest"
        by (cases held) (auto simp: not_less [symmetric])
      show ?thesis
      proof (cases "checked_add cursor 1")
        case n: None
        with c None held show ?thesis by (subst scan_complete.simps) simp
      next
        case n: (Some n)
        have "\<forall>i. cursor < i \<and> i \<le> hi \<longrightarrow> i \<in> set rest \<or> Location g i \<in> absent_set absent"
          using "1.prems"(4) held by (metis less_imp_le less_irrefl set_ConsD)
        then have "scan_complete absent g hi rest n"
          using "1.IH"(1) [OF _ None held refl n "1.prems"(1)] c "1.prems"(2,3) held
          by (auto simp: checked_add_1_le [OF n])
        with c None held n show ?thesis by (subst scan_complete.simps) simp
      qed
    qed
  next
    case False
    then show ?thesis by (subst scan_complete.simps) simp
  qed
qed

subsection \<open>Histories\<close>

text \<open>What the code relies on of the store: a write is seen as written or, after an eviction,
  not at all; it never changes another group.\<close>

definition moka_law ::
  "('c \<Rightarrow> cache_key \<Rightarrow> fetch_object_payload list option) \<Rightarrow>
   ('c \<Rightarrow> cache_key \<Rightarrow> fetch_object_payload list \<Rightarrow> 'c) \<Rightarrow> bool" where
  "moka_law mget mput \<longleftrightarrow> (\<forall>c k v k'.
     mget (mput c k v) k' = None \<or> mget (mput c k v) k' = (if k' = k then Some v else mget c k'))"

text \<open>The states of a track cache, with what was put in and what was recorded as absent.\<close>

inductive cache_reach ::
  "('c \<Rightarrow> cache_key \<Rightarrow> fetch_object_payload list option) \<Rightarrow>
   ('c \<Rightarrow> cache_key \<Rightarrow> fetch_object_payload list \<Rightarrow> 'c) \<Rightarrow>
   'c track_cache \<Rightarrow> fetch_object_payload set \<Rightarrow> location set \<Rightarrow> bool"
  for mget mput where
  cr_new: "(\<forall>k. mget c k = None) \<Longrightarrow> cache_reach mget mput (track_cache_new t c) {} {}"
| cr_add: "cache_reach mget mput tc A M \<Longrightarrow> cache_reach mget mput (add_object mget mput tc ob) (insert ob A) M"
| cr_mark: "cache_reach mget mput tc A M \<Longrightarrow> cache_reach mget mput (mark_absent tc lo hi) A (M \<union> {lo..hi})"
| cr_evict: "cache_reach mget mput tc A M \<Longrightarrow> \<forall>k. mget c k = None \<or> mget c k = mget (tc_cache tc) k \<Longrightarrow>
     cache_reach mget mput (tc\<lparr> tc_cache := c \<rparr>) A M"
| cr_claim: "cache_reach mget mput tc A M \<Longrightarrow> cache_reach mget mput (snd (claim_fill tc a b)) A M"
| cr_drop: "cache_reach mget mput tc A M \<Longrightarrow> cache_reach mget mput (drop_claim tc busy) A M"

definition store_inv ::
  "('c \<Rightarrow> cache_key \<Rightarrow> fetch_object_payload list option) \<Rightarrow> 'c track_cache \<Rightarrow>
   fetch_object_payload set \<Rightarrow> location set \<Rightarrow> bool" where
  "store_inv mget tc A M \<longleftrightarrow> ranges_inv (tc_absent tc) \<and> absent_set (tc_absent tc) \<subseteq> M
     \<and> (\<forall>g objects. get_group mget tc g = Some objects \<longrightarrow> group_ok g objects \<and> set objects \<subseteq> A)"

lemma store_inv_add:
  assumes law: "moka_law mget mput" and inv: "store_inv mget tc A M"
  shows "store_inv mget (add_object mget mput tc ob) (insert ob A) M"
proof -
  define key where "key = CacheKey (tc_relay_track_id tc) (fo_group_id ob)"
  define old where "old = (case mget (tc_cache tc) key of Some objects \<Rightarrow> objects | None \<Rightarrow> [])"
  have old: "group_ok (fo_group_id ob) old" "set old \<subseteq> A"
    using inv by (cases "mget (tc_cache tc) key";
        fastforce simp: old_def key_def store_inv_def get_group_def group_ok_def)+
  have add: "add_object mget mput tc ob = tc\<lparr> tc_cache := mput (tc_cache tc) key (insert_object ob old) \<rparr>"
    by (simp add: add_object_def key_def old_def Let_def)
  have "group_ok g objects \<and> set objects \<subseteq> insert ob A"
    if "get_group mget (add_object mget mput tc ob) g = Some objects" for g objects
  proof (cases "g = fo_group_id ob")
    case True
    with that law have "objects = insert_object ob old"
      by (auto simp: add get_group_def moka_law_def key_def) (metis option.distinct(1) option.inject)
    with True insert_object_ok [OF old(1)] old(2) show ?thesis by auto
  next
    case False
    with that law have "get_group mget tc g = Some objects"
      by (auto simp: add get_group_def moka_law_def key_def)
         (metis cache_key.inject option.distinct(1))
    with inv show ?thesis by (auto simp: store_inv_def)
  qed
  with inv show ?thesis by (simp add: store_inv_def add)
qed

lemma cache_reach_store:
  assumes law: "moka_law mget mput" and "cache_reach mget mput tc A M"
  shows "store_inv mget tc A M"
  using assms(2)
proof induction
  case (cr_add tc A M ob)
  then show ?case by (intro store_inv_add [OF law])
next
  case (cr_mark tc A M lo hi)
  then show ?case
    using absent_insert_refines(1,3) [of "tc_absent tc" lo hi]
    by (fastforce simp: store_inv_def mark_absent_def get_group_def)
next
  case (cr_evict tc A M c)
  then show ?case unfolding store_inv_def get_group_def by simp (metis option.distinct(1))
qed (auto simp: store_inv_def track_cache_new_def get_group_def claim_fill_def drop_claim_def Let_def
      split: option.splits)

lemma answer_of_store:
  assumes "store_inv mget tc A M" and "objects_if_complete mget tc g lo hi = Some w"
  shows "sorted_wrt (\<lambda>a b. fo_object_id a < fo_object_id b) w
    \<and> (\<forall>x \<in> set w. x \<in> A \<and> fo_group_id x = g \<and> lo \<le> fo_object_id x \<and> fo_object_id x \<le> hi)
    \<and> (\<forall>i. lo \<le> i \<and> i \<le> hi \<longrightarrow> (\<exists>x \<in> set w. fo_object_id x = i) \<or> Location g i \<in> M)"
proof -
  from assms(1) have inv: "ranges_inv (tc_absent tc)" "absent_set (tc_absent tc) \<subseteq> M"
    and ok: "get_group mget tc g = Some objects \<Longrightarrow> group_ok g objects \<and> set objects \<subseteq> A" for objects
    by (auto simp: store_inv_def)
  from assms(2) have scan: "scan_complete (tc_absent tc) g hi (map fo_object_id w) lo"
    by (auto simp: objects_if_complete_def Let_def split: if_splits)
  have w: "w = (case get_group mget tc g of None \<Rightarrow> []
      | Some objects \<Rightarrow> filter (\<lambda>x. lo \<le> fo_object_id x \<and> fo_object_id x \<le> hi) objects)"
    using assms(2) ok slice_sorted [of _ hi lo]
    by (auto simp: objects_if_complete_def Let_def group_ok_def split: option.splits if_splits)
  have "sorted_wrt (\<lambda>a b. fo_object_id a < fo_object_id b) w"
    "\<forall>x \<in> set w. x \<in> A \<and> fo_group_id x = g \<and> lo \<le> fo_object_id x \<and> fo_object_id x \<le> hi"
    using ok by (cases "get_group mget tc g"; fastforce simp: w group_ok_def sorted_wrt_filter)+
  moreover have "(\<exists>x \<in> set w. fo_object_id x = i) \<or> Location g i \<in> M" if "lo \<le> i" "i \<le> hi" for i
    using scan_sound [OF inv(1) scan that] inv(2) by auto
  ultimately show ?thesis by blast
qed

text \<open>The fills in flight never overlap, and their locks are told apart.\<close>

definition overlaps :: "u64 \<times> u64 \<times> nat \<Rightarrow> u64 \<Rightarrow> u64 \<Rightarrow> bool" where
  "overlaps f a b \<longleftrightarrow> fst f \<le> b \<and> a \<le> fst (snd f)"

definition fills_inv :: "'c track_cache \<Rightarrow> bool" where
  "fills_inv tc \<longleftrightarrow>
     sorted_wrt (\<lambda>f h. snd (snd f) < snd (snd h) \<and> \<not> overlaps f (fst h) (fst (snd h))) (tc_fills tc)
     \<and> (\<forall>f \<in> set (tc_fills tc). snd (snd f) < tc_next_lock tc)"

lemma claim_fill_cases:
  "(\<exists>f \<in> set (tc_fills tc). overlaps f a b \<and> claim_fill tc a b = (Inl (snd (snd f)), tc))
   \<or> (\<forall>f \<in> set (tc_fills tc). \<not> overlaps f a b) \<and> claim_fill tc a b =
        (Inr (tc_next_lock tc),
         tc\<lparr> tc_fills := tc_fills tc @ [(a, b, tc_next_lock tc)], tc_next_lock := Suc (tc_next_lock tc) \<rparr>)"
proof (cases "find (\<lambda>(lo, hi, busy). lo \<le> b \<and> a \<le> hi) (tc_fills tc)")
  case None
  then have "\<forall>f \<in> set (tc_fills tc). \<not> overlaps f a b" by (fastforce simp: find_None_iff overlaps_def)
  with None show ?thesis by (simp add: claim_fill_def Let_def)
next
  case (Some f)
  then have "f \<in> set (tc_fills tc)" "overlaps f a b"
    by (auto simp: find_Some_iff overlaps_def in_set_conv_nth)
  with Some show ?thesis by (cases f) (force simp: claim_fill_def)
qed

lemma fills_inv_claim: "fills_inv tc \<Longrightarrow> fills_inv (snd (claim_fill tc a b))"
proof -
  assume inv: "fills_inv tc"
  from claim_fill_cases [of tc a b] consider "snd (claim_fill tc a b) = tc"
    | "\<forall>f \<in> set (tc_fills tc). \<not> overlaps f a b" "snd (claim_fill tc a b) =
        tc\<lparr> tc_fills := tc_fills tc @ [(a, b, tc_next_lock tc)], tc_next_lock := Suc (tc_next_lock tc) \<rparr>"
    by fastforce
  then show ?thesis
  proof cases
    case 2
    moreover have "\<forall>f \<in> set (tc_fills tc). snd (snd f) < Suc (tc_next_lock tc)"
      using inv less_SucI unfolding fills_inv_def by blast
    ultimately show ?thesis using inv by (simp add: fills_inv_def sorted_wrt_append)
  qed (simp add: inv)
qed

lemma cache_reach_fills: "cache_reach mget mput tc A M \<Longrightarrow> fills_inv tc"
proof (induction rule: cache_reach.induct)
  case (cr_claim tc A M a b)
  then show ?case by (intro fills_inv_claim)
next
  case (cr_drop tc A M busy)
  then show ?case by (auto simp: fills_inv_def drop_claim_def sorted_wrt_filter)
qed (auto simp: fills_inv_def track_cache_new_def add_object_def mark_absent_def Let_def)

subsection \<open>Properties\<close>

text \<open>C7. What the cache answers is complete: in every state the cache can reach, through Objects
  put in, ranges recorded as absent and groups evicted at any time, an answer of
  \<open>objects_if_complete\<close> lists, in ascending order, Objects of the asked range that were put in,
  and every ID of the range either has its Object in the answer or was recorded as absent.\<close>

theorem cache_answer_complete:
  assumes "moka_law mget mput" and "cache_reach mget mput tc A M"
    and "objects_if_complete mget tc g lo hi = Some w"
  shows "sorted_wrt (\<lambda>a b. fo_object_id a < fo_object_id b) w
    \<and> (\<forall>x \<in> set w. x \<in> A \<and> fo_group_id x = g \<and> lo \<le> fo_object_id x \<and> fo_object_id x \<le> hi)
    \<and> (\<forall>i. lo \<le> i \<and> i \<le> hi \<longrightarrow> (\<exists>x \<in> set w. fo_object_id x = i) \<or> Location g i \<in> M)"
  using answer_of_store [OF cache_reach_store [OF assms(1,2)] assms(3)] .

theorem cache_answer_complete_witness:
  "let mget = (\<lambda>c k. c k); mput = (\<lambda>c k v. c(k \<mapsto> v));
       ob = \<lparr> fo_group_id = 3, fo_subgroup_id = 0, fo_object_id = 0, fo_publisher_priority = 1,
              fo_forwarding_preference = FP_Subgroup, fo_properties = None, fo_payload = [7] \<rparr>;
       tc = mark_absent (add_object mget mput (track_cache_new 9 Map.empty) ob) (Location 3 1) (Location 3 u64_MAX)
   in objects_if_complete mget tc 3 0 5 = Some [ob]
      \<and> (\<forall>i. 0 \<le> i \<and> i \<le> 5 \<longrightarrow> (\<exists>x \<in> set [ob]. fo_object_id x = i) \<or> Location 3 i \<in> {Location 3 1 .. Location 3 u64_MAX})"
proof -
  let ?mget = "\<lambda>(c :: cache_key \<Rightarrow> fetch_object_payload list option) k. c k"
  let ?mput = "\<lambda>c k (v :: fetch_object_payload list). c(k \<mapsto> v)"
  let ?ob = "\<lparr> fo_group_id = 3, fo_subgroup_id = 0, fo_object_id = 0, fo_publisher_priority = 1,
              fo_forwarding_preference = FP_Subgroup, fo_properties = None, fo_payload = [7] \<rparr>"
  let ?tc = "mark_absent (add_object ?mget ?mput (track_cache_new 9 Map.empty) ?ob) (Location 3 1) (Location 3 u64_MAX)"
  have law: "moka_law ?mget ?mput" by (simp add: moka_law_def)
  have reach: "cache_reach ?mget ?mput ?tc (insert ?ob {}) ({} \<union> {Location 3 1 .. Location 3 u64_MAX})"
    by (intro cr_mark cr_add cr_new) simp
  have absent: "tc_absent ?tc = [(Location 3 1, Location 3 u64_MAX)]"
    by (simp add: mark_absent_def add_object_def track_cache_new_def absent_insert_def touching_ranges_def
        btree_upto_def pop_excess.simps MAX_ABSENT_RANGES_def Let_def)
  have "objects_if_complete ?mget ?tc 3 0 5 = Some [?ob]"
    unfolding objects_if_complete_def absent
    by (simp add: get_group_def mark_absent_def add_object_def insert_object_def track_cache_new_def
        scan_complete.simps [of _ _ _ "[0]"] scan_complete.simps [of _ _ _ "[]"] end_containing_def btree_upto_def
        checked_add_def)
  with cache_answer_complete [OF law reach this] show ?thesis by simp
qed



text \<open>C30. Upstream fills are exclusive: in every reachable state no two fills in flight overlap and
  their locks differ; a claim is refused exactly when it overlaps one, and then with that
  fill's lock; once the overlapping fills are dropped, the claim is granted.\<close>

theorem fills_exclusive:
  assumes "cache_reach mget mput tc A M"
  shows "sorted_wrt (\<lambda>f h. snd (snd f) < snd (snd h) \<and> \<not> overlaps f (fst h) (fst (snd h))) (tc_fills tc)
    \<and> (\<forall>busy. fst (claim_fill tc a b) = Inl busy \<longrightarrow>
         (\<exists>f \<in> set (tc_fills tc). overlaps f a b \<and> snd (snd f) = busy))
    \<and> ((\<exists>lock. fst (claim_fill tc a b) = Inr lock) \<longleftrightarrow> (\<forall>f \<in> set (tc_fills tc). \<not> overlaps f a b))
    \<and> (\<forall>lock. fst (claim_fill tc a b) = Inr lock \<longrightarrow>
         tc_fills (drop_claim (snd (claim_fill tc a b)) lock) = tc_fills tc)"
proof -
  from cache_reach_fills [OF assms] have inv: "fills_inv tc" .
  then have "(aa, bb, tc_next_lock tc) \<notin> set (tc_fills tc)" for aa bb by (fastforce simp: fills_inv_def)
  then have "filter (\<lambda>(_, _, x). x \<noteq> tc_next_lock tc) (tc_fills tc) = tc_fills tc"
    by (intro filter_True) auto
  then show ?thesis
    using inv claim_fill_cases [of tc a b] by (auto simp: fills_inv_def drop_claim_def)
qed

theorem fills_exclusive_witness:
  "let tc = snd (claim_fill (track_cache_new 1 (Map.empty :: cache_key \<Rightarrow> fetch_object_payload list option)) 2 5)
   in fst (claim_fill tc 5 9) = Inl 0 \<and> (\<exists>lock. fst (claim_fill tc 6 9) = Inr lock)"
proof -
  let ?mget = "\<lambda>(c :: cache_key \<Rightarrow> fetch_object_payload list option) k. c k"
  let ?mput = "\<lambda>c k (v :: fetch_object_payload list). c(k \<mapsto> v)"
  let ?tc = "snd (claim_fill (track_cache_new 1 (Map.empty :: cache_key \<Rightarrow> fetch_object_payload list option)) 2 5)"
  have "cache_reach ?mget ?mput ?tc {} {}" by (intro cr_claim cr_new) simp
  from fills_exclusive [OF this, of 6 9] show ?thesis
    by (simp add: claim_fill_def track_cache_new_def overlaps_def word_le_nat_alt)
qed

end
