(* ===== verification/SSTS.thy ===== *)
theory SSTS
  imports Prelude
begin

text \<open>
  The boundary of sender-side track switching (\<open>libs/moqtail-ssts/src/lib.rs\<close>): what an
  algorithm sees of a connection, and the contract of its decisions, stated as the locale
  \<open>abr_algorithm\<close>. An algorithm is a function of its own state and the input; the contract is
  what the trait documents: an entry for every set it was given, and only tracks of the set
  they are returned for. Both algorithms the relay ships with are interpretations of it.
  Hash maps are finite maps; sums of \<open>u64\<close> wrap, as in a release build.
\<close>

type_synonym selection = "u64 \<rightharpoonup> u64 option"

record set_snapshot =
  ss_id :: u64
  ss_algorithm_id :: u64
  ss_rank :: u8
  ss_weight :: u64
  ss_active :: bool
  ss_members :: "(u64 \<times> u64) list"

definition lowest_member :: "set_snapshot \<Rightarrow> u64 option" where
  "lowest_member s = (case ss_members s of [] \<Rightarrow> None | m # _ \<Rightarrow> Some (snd m))"

definition top_member :: "set_snapshot \<Rightarrow> u64 option" where
  "top_member s = (if ss_members s = [] then None else Some (snd (last (ss_members s))))"

definition find_up_to :: "(u64 \<times> u64) list \<Rightarrow> u64 \<Rightarrow> (u64 \<times> u64) option" where
  "find_up_to members budget = find (\<lambda>m. fst m \<le> budget) (rev members)"

definition member_up_to :: "set_snapshot \<Rightarrow> u64 \<Rightarrow> u64 option" where
  "member_up_to s budget_kbps = map_option snd (find_up_to (ss_members s) budget_kbps)"

definition top_threshold_kbps :: "set_snapshot \<Rightarrow> u64 option" where
  "top_threshold_kbps s = (if ss_members s = [] then None else Some (fst (last (ss_members s))))"

definition has_track :: "set_snapshot \<Rightarrow> u64 \<Rightarrow> bool" where
  "has_track s track \<longleftrightarrow> (\<exists>m \<in> set (ss_members s). snd m = track)"

record abr_input =
  ai_client_id :: u64
  ai_group_id :: u64
  ai_bandwidth_estimate_kbps :: u64
  ai_configured_cap_kbps :: u64
  ai_sets :: "set_snapshot list"
  ai_open_streams_per_set :: "u64 \<rightharpoonup> u64"
  ai_stream_timeouts :: u64

definition budget_kbps :: "abr_input \<Rightarrow> u64" where
  "budget_kbps i =
     (let est = ai_bandwidth_estimate_kbps i; cap = ai_configured_cap_kbps i in
      if est = 0 \<and> cap = 0 then u64_MAX
      else if est = 0 then cap
      else if cap = 0 then est
      else min est cap)"

definition open_streams :: "abr_input \<Rightarrow> u64 \<Rightarrow> u64" where
  "open_streams i set_id = (case ai_open_streams_per_set i set_id of Some n \<Rightarrow> n | None \<Rightarrow> 0)"

definition active_stream_depth :: "abr_input \<Rightarrow> u64" where
  "active_stream_depth i = sum_list (map (\<lambda>s. open_streams i (ss_id s)) (filter ss_active (ai_sets i)))"

subsection \<open>The contract of an algorithm\<close>

definition distinct_ids :: "set_snapshot list \<Rightarrow> bool" where
  "distinct_ids sets \<longleftrightarrow> distinct (map ss_id sets)"

definition valid_selection :: "set_snapshot list \<Rightarrow> selection \<Rightarrow> bool" where
  "valid_selection sets sel \<longleftrightarrow>
     dom sel = ss_id ` set sets
     \<and> (\<forall>s \<in> set sets. \<forall>track. sel (ss_id s) = Some (Some track) \<longrightarrow> ss_active s \<and> has_track s track)"

fun abr_run :: "('st \<Rightarrow> abr_input \<Rightarrow> selection \<times> 'st) \<Rightarrow> 'st \<Rightarrow> abr_input list \<Rightarrow> selection list" where
  "abr_run decide st [] = []"
| "abr_run decide st (i # is) = fst (decide st i) # abr_run decide (snd (decide st i)) is"

locale abr_algorithm =
  fixes decide :: "'st \<Rightarrow> abr_input \<Rightarrow> selection \<times> 'st"
  assumes decide_valid: "distinct_ids (ai_sets i) \<Longrightarrow> valid_selection (ai_sets i) (fst (decide st i))"
begin

lemma run_valid:
  assumes "\<forall>i \<in> set is. distinct_ids (ai_sets i)"
  shows "list_all2 (\<lambda>i sel. valid_selection (ai_sets i) sel) is (abr_run decide st is)"
  using assms by (induction "is" arbitrary: st) (simp_all add: decide_valid)

text \<open>A set with no subscriber forwards nothing, and every set has an answer.\<close>

lemma answers:
  assumes "distinct_ids (ai_sets i)" "s \<in> set (ai_sets i)"
  obtains choice where "fst (decide st i) (ss_id s) = Some choice"
    "\<not> ss_active s \<Longrightarrow> choice = None" "\<And>track. choice = Some track \<Longrightarrow> has_track s track"
proof -
  from decide_valid [OF assms(1), of st] assms(2)
  obtain choice where "fst (decide st i) (ss_id s) = Some choice"
    by (force simp: valid_selection_def)
  with decide_valid [OF assms(1), of st] assms(2) that show thesis
    by (cases choice) (auto simp: valid_selection_def)
qed

end

subsection \<open>Lemmas\<close>

lemma find_up_to_Some:
  assumes "find_up_to members b = Some m"
  shows "m \<in> set members \<and> fst m \<le> b"
  using assms by (auto simp: find_up_to_def find_Some_iff) (metis nth_mem set_rev length_rev)

text \<open>On a ladder sorted by threshold, the choice is the highest member the budget covers.\<close>

lemma find_up_to_highest:
  assumes "sorted (map fst members)" "find_up_to members b = Some m" "n \<in> set members" "fst n \<le> b"
  shows "fst n \<le> fst m"
  using assms
proof (induction members rule: rev_induct)
  case (snoc x members)
  show ?case
  proof (cases "fst x \<le> b")
    case True
    with snoc show ?thesis by (auto simp: find_up_to_def sorted_append)
  next
    case False
    with snoc show ?thesis by (auto simp: find_up_to_def sorted_append)
  qed
qed (simp add: find_up_to_def)

lemma find_up_to_None: "find_up_to members b = None \<longleftrightarrow> (\<forall>m \<in> set members. b < fst m)"
  by (auto simp: find_up_to_def find_None_iff not_le)

lemma budget_kbps_bounds:
  "ai_bandwidth_estimate_kbps i \<noteq> 0 \<Longrightarrow> budget_kbps i \<le> ai_bandwidth_estimate_kbps i"
  "ai_configured_cap_kbps i \<noteq> 0 \<Longrightarrow> budget_kbps i \<le> ai_configured_cap_kbps i"
  by (simp_all add: budget_kbps_def Let_def)

end
