(* ===== verification/Allocate.thy ===== *)
theory Allocate
  imports SSTS
begin

text \<open>
  The default bandwidth allocation
  (\<open>libs/moqtail-ssts/src/algorithms/default\<close>): ranks are served in strict priority; inside a
  rank the pool is split by weight, and a set that reached its top track leaves the split
  and returns what it does not use. The theory shows that the loop ends, that the selected
  thresholds never exceed the budget, that a lower-priority set cannot influence a
  higher-priority one, and that the contract of \<open>abr_algorithm\<close> holds.
\<close>

definition UNLIMITED_KBPS :: u64 where
  "UNLIMITED_KBPS = u64_MAX div 4"

type_synonym choices = "(u64 \<times> u64) option list"

definition total_weight :: "set_snapshot list \<Rightarrow> nat list \<Rightarrow> u64" where
  "total_weight tier contending = max (sum_list (map (\<lambda>i. ss_weight (tier ! i)) contending)) 1"

definition target_kbps :: "set_snapshot list \<Rightarrow> nat list \<Rightarrow> u64 \<Rightarrow> nat \<Rightarrow> u64" where
  "target_kbps tier contending pool i =
     saturating_mul pool (ss_weight (tier ! i)) div total_weight tier contending"

definition split_pool :: "set_snapshot list \<Rightarrow> nat list \<Rightarrow> u64 \<Rightarrow> choices \<Rightarrow> choices" where
  "split_pool tier contending pool sel =
     fold (\<lambda>i sel. sel[i := find_up_to (ss_members (tier ! i)) (target_kbps tier contending pool i)])
       contending sel"

definition saturated_sets :: "set_snapshot list \<Rightarrow> nat list \<Rightarrow> choices \<Rightarrow> nat list" where
  "saturated_sets tier contending sel =
     filter (\<lambda>i. case (sel ! i, top_threshold_kbps (tier ! i)) of
                   (Some (threshold, _), Some top_kbps) \<Rightarrow> threshold = top_kbps
                 | _ \<Rightarrow> False) contending"

definition take_back :: "nat list \<Rightarrow> choices \<Rightarrow> u64 \<Rightarrow> u64" where
  "take_back saturated sel pool =
     fold (\<lambda>i pool. case sel ! i of Some (threshold, _) \<Rightarrow> saturating_sub pool threshold | None \<Rightarrow> pool)
       saturated pool"

function tier_loop :: "set_snapshot list \<Rightarrow> choices \<Rightarrow> nat list \<Rightarrow> u64 \<Rightarrow> choices" where
  "tier_loop tier sel contending pool =
     (let sel' = split_pool tier contending pool sel;
          saturated = saturated_sets tier contending sel'
      in if saturated = [] then sel'
         else tier_loop tier sel' (filter (\<lambda>i. i \<notin> set saturated) contending) (take_back saturated sel' pool))"
  by pat_completeness auto
termination
proof (relation "measure (\<lambda>(tier, sel, contending, pool). length contending)")
  fix tier sel contending pool sel' saturated
  assume "saturated = saturated_sets tier contending sel'" "saturated \<noteq> []"
  then obtain i where "i \<in> set contending" "i \<in> set saturated"
    by (auto simp: saturated_sets_def filter_empty_conv)
  then have "length (filter (\<lambda>i. i \<notin> set saturated) contending) < length contending"
    by (intro length_filter_less) auto
  then show "((tier, sel', filter (\<lambda>i. i \<notin> set saturated) contending, take_back saturated sel' pool), tier, sel, contending, pool)
      \<in> measure (\<lambda>(tier, sel, contending, pool). length contending)" by simp
qed simp

declare tier_loop.simps [simp del]

definition allocate_tier :: "set_snapshot list \<Rightarrow> u64 \<Rightarrow> choices" where
  "allocate_tier tier budget_left =
     tier_loop tier (replicate (length tier) None) [0..<length tier] budget_left"

definition record_choices :: "set_snapshot list \<Rightarrow> choices \<Rightarrow> selection \<times> u64 \<Rightarrow> selection \<times> u64" where
  "record_choices tier sel acc =
     fold (\<lambda>(s, choice) (decisions, budget_left).
        (decisions(ss_id s \<mapsto> map_option snd choice),
         saturating_sub budget_left (case choice of Some (threshold, _) \<Rightarrow> threshold | None \<Rightarrow> 0)))
       (zip tier sel) acc"

definition tier_of :: "set_snapshot list \<Rightarrow> u8 \<Rightarrow> set_snapshot list" where
  "tier_of sets rank = filter (\<lambda>s. ss_rank s = rank \<and> ss_active s) sets"

definition rank_step :: "set_snapshot list \<Rightarrow> u8 \<Rightarrow> selection \<times> u64 \<Rightarrow> selection \<times> u64" where
  "rank_step sets rank acc =
     (let tier = tier_of sets rank in
      if tier = [] then acc else record_choices tier (allocate_tier tier (snd acc)) acc)"

definition ranks_of :: "set_snapshot list \<Rightarrow> u8 list" where
  "ranks_of sets = remdups_adj (sort (map ss_rank sets))"

definition allocate :: "u64 \<Rightarrow> set_snapshot list \<Rightarrow> selection" where
  "allocate budget sets =
     fold (\<lambda>s decisions. if decisions (ss_id s) = None then decisions(ss_id s \<mapsto> None) else decisions)
       sets (fst (fold (rank_step sets) (ranks_of sets) (Map.empty, budget)))"

text \<open>The algorithm has no state.\<close>

definition default_decide :: "unit \<Rightarrow> abr_input \<Rightarrow> selection \<times> unit" where
  "default_decide st i = (allocate (min (budget_kbps i) UNLIMITED_KBPS) (ai_sets i), ())"

subsection \<open>One tier\<close>

abbreviation kbps_of :: "(u64 \<times> u64) option \<Rightarrow> nat" where
  "kbps_of choice \<equiv> (case choice of None \<Rightarrow> 0 | Some (t, _) \<Rightarrow> unat t)"

lemma length_split_pool [simp]: "length (split_pool tier contending pool sel) = length sel"
proof -
  have "length (fold (\<lambda>i sel. sel[i := f i]) is sel) = length sel" for f :: "nat \<Rightarrow> (u64 \<times> u64) option" and "is"
    by (induction "is" arbitrary: sel) auto
  then show ?thesis by (simp add: split_pool_def)
qed

lemma split_pool_nth:
  assumes "length sel = n" "set contending \<subseteq> {..<n}" "i < n"
  shows "split_pool tier contending pool sel ! i =
      (if i \<in> set contending then find_up_to (ss_members (tier ! i)) (target_kbps tier contending pool i) else sel ! i)"
proof -
  have "\<forall>k < length sel. fold (\<lambda>i sel. sel[i := f i]) is sel ! k = (if k \<in> set is then f k else sel ! k)"
    for f :: "nat \<Rightarrow> (u64 \<times> u64) option" and "is"
    by (induction "is" arbitrary: sel) (auto simp: nth_list_update)
  with assms show ?thesis by (simp add: split_pool_def)
qed

text \<open>Weighted shares never add up to more than the pool.\<close>

lemma sum_list_word_unat:
  fixes ws :: "u64 list"
  assumes "sum_list (map unat ws) < 2 ^ 64"
  shows "unat (sum_list ws) = sum_list (map unat ws)"
  using assms
proof (induction ws)
  case (Cons w ws)
  then have "unat (sum_list ws) = sum_list (map unat ws)" by simp
  with Cons.prems show ?case by (simp add: unat_word_ariths)
qed simp

lemma shares_le_pool:
  fixes w :: "nat \<Rightarrow> nat"
  assumes "sum_list (map w is) \<le> W"
  shows "sum_list (map (\<lambda>i. p * w i div W) is) \<le> p"
proof (cases "W = 0")
  case False
  have "sum_list (map (\<lambda>i. p * w i div W) is) * W \<le> sum_list (map (\<lambda>i. p * w i) is)"
    by (induction "is") (simp_all add: add_mult_distrib add_mono)
  also have "\<dots> = p * sum_list (map w is)" by (simp add: sum_list_const_mult)
  also have "\<dots> \<le> p * W" using assms by simp
  finally show ?thesis using False by simp
qed (simp add: sum_list_0)

lemma target_le_share:
  assumes "sum_list (map (\<lambda>i. unat (ss_weight (tier ! i))) contending) < 2 ^ 64"
  shows "unat (target_kbps tier contending pool i)
    \<le> unat pool * unat (ss_weight (tier ! i)) div unat (total_weight tier contending)"
    and "sum_list (map (\<lambda>i. unat (ss_weight (tier ! i))) contending) \<le> unat (total_weight tier contending)"
proof -
  show "unat (target_kbps tier contending pool i)
    \<le> unat pool * unat (ss_weight (tier ! i)) div unat (total_weight tier contending)"
    using unat_saturating_mul_le [of pool "ss_weight (tier ! i)"]
    by (simp add: target_kbps_def unat_div div_le_mono)
  have "unat (sum_list (map (\<lambda>i. ss_weight (tier ! i)) contending))
      = sum_list (map (\<lambda>i. unat (ss_weight (tier ! i))) contending)"
    using sum_list_word_unat [of "map (\<lambda>i. ss_weight (tier ! i)) contending"] assms by (simp add: comp_def)
  then show "sum_list (map (\<lambda>i. unat (ss_weight (tier ! i))) contending) \<le> unat (total_weight tier contending)"
    by (metis max.cobounded1 total_weight_def word_le_nat_alt)
qed

text \<open>What the members picked for the contending sets cost is covered by the pool.\<close>

definition weights_fit :: "set_snapshot list \<Rightarrow> bool" where
  "weights_fit sets \<longleftrightarrow> sum_list (map (\<lambda>s. unat (ss_weight s)) sets) < 2 ^ 64"

lemma weights_fit_contending:
  assumes "weights_fit tier" "distinct contending" "set contending \<subseteq> {..<length tier}"
  shows "sum_list (map (\<lambda>i. unat (ss_weight (tier ! i))) contending) < 2 ^ 64"
proof -
  have "sum_list (map (\<lambda>i. unat (ss_weight (tier ! i))) contending)
      = (\<Sum>i\<in>set contending. unat (ss_weight (tier ! i)))"
    using assms(2) by (simp add: sum_list_distinct_conv_sum_set)
  also have "\<dots> \<le> (\<Sum>i<length tier. unat (ss_weight (tier ! i)))"
    using assms(3) by (intro sum_mono2) auto
  also have "\<dots> = sum_list (map (\<lambda>s. unat (ss_weight s)) tier)"
    by (simp add: sum_list_sum_nth atLeast0LessThan)
  finally show ?thesis using assms(1) by (simp add: weights_fit_def)
qed

lemma kbps_of_find_up_to: "kbps_of (find_up_to members b) \<le> unat b"
  using find_up_to_Some [of members b]
  by (cases "find_up_to members b") (auto simp: word_le_nat_alt split: prod.splits)

lemma split_pool_cost:
  assumes "weights_fit tier" "distinct contending" "set contending \<subseteq> {..<length tier}"
    and "length sel = length tier"
  shows "(\<Sum>i\<in>set contending. kbps_of (split_pool tier contending pool sel ! i)) \<le> unat pool"
proof -
  let ?W = "unat (total_weight tier contending)"
  let ?w = "\<lambda>i. unat (ss_weight (tier ! i))"
  note fit = weights_fit_contending [OF assms(1-3)]
  have "kbps_of (split_pool tier contending pool sel ! i) \<le> unat pool * ?w i div ?W"
    if "i \<in> set contending" for i
  proof -
    have "kbps_of (split_pool tier contending pool sel ! i) \<le> unat (target_kbps tier contending pool i)"
      using split_pool_nth [OF assms(4,3), of i] that assms(3) kbps_of_find_up_to by auto
    also have "\<dots> \<le> unat pool * ?w i div ?W" by (rule target_le_share(1) [OF fit])
    finally show ?thesis .
  qed
  then have "(\<Sum>i\<in>set contending. kbps_of (split_pool tier contending pool sel ! i))
      \<le> (\<Sum>i\<in>set contending. unat pool * ?w i div ?W)" by (rule sum_mono)
  also have "\<dots> = sum_list (map (\<lambda>i. unat pool * ?w i div ?W) contending)"
    using assms(2) by (simp add: sum_list_distinct_conv_sum_set)
  also have "\<dots> \<le> unat pool" by (rule shares_le_pool) (rule target_le_share(2) [OF fit])
  finally show ?thesis .
qed

lemma take_back_unat:
  assumes "distinct saturated"
  shows "unat (take_back saturated sel pool) = unat pool - (\<Sum>i\<in>set saturated. kbps_of (sel ! i))"
  using assms
proof (induction saturated arbitrary: pool)
  case (Cons i saturated)
  have "unat (take_back (i # saturated) sel pool) =
      unat (take_back saturated sel (case sel ! i of Some (t, _) \<Rightarrow> saturating_sub pool t | None \<Rightarrow> pool))"
    by (simp add: take_back_def split: option.split)
  also have "\<dots> = unat pool - kbps_of (sel ! i) - (\<Sum>i\<in>set saturated. kbps_of (sel ! i))"
    using Cons by (auto simp: unat_saturating_sub split: option.split)
  finally show ?case using Cons.prems by (simp add: diff_diff_left)
qed (simp add: take_back_def)

lemma tier_loop_budget:
  assumes "weights_fit tier" "distinct contending" "set contending \<subseteq> {..<length tier}"
    and "length sel = length tier"
    and "(\<Sum>i\<in>{..<length tier} - set contending. kbps_of (sel ! i)) + unat pool \<le> R"
  shows "length (tier_loop tier sel contending pool) = length tier
    \<and> (\<Sum>i<length tier. kbps_of (tier_loop tier sel contending pool ! i)) \<le> R"
  using assms
proof (induction tier sel contending pool rule: tier_loop.induct)
  case (1 tier sel contending pool)
  define sel' where "sel' = split_pool tier contending pool sel"
  define sat where "sat = saturated_sets tier contending sel'"
  define rest where "rest = filter (\<lambda>i. i \<notin> set sat) contending"
  let ?cost = "\<lambda>I. \<Sum>i\<in>I. kbps_of (sel' ! i)"
  let ?out = "{..<length tier} - set contending"
  note [simp] = split_pool_nth [OF "1.prems"(4,3), of _ tier pool, folded sel'_def]
  have len: "length sel' = length tier" using "1.prems"(4) by (simp add: sel'_def)
  have outside: "?cost ?out = (\<Sum>i\<in>?out. kbps_of (sel ! i))" by (intro sum.cong) auto
  have inside: "?cost (set contending) \<le> unat pool"
    unfolding sel'_def by (rule split_pool_cost) (use "1.prems" in auto)
  have sub: "set sat \<subseteq> set contending" "distinct sat"
    using "1.prems"(2) by (auto simp: sat_def saturated_sets_def)
  show ?case
  proof (cases "sat = []")
    case True
    have "?cost {..<length tier} = ?cost ?out + ?cost (set contending)"
      using "1.prems"(3) by (subst sum.subset_diff [of "set contending"]) auto
    also have "\<dots> \<le> R" using outside inside "1.prems"(5) by linarith
    finally show ?thesis using True len
      by (subst (1 2) tier_loop.simps) (simp add: Let_def flip: sel'_def sat_def)
  next
    case False
    have "{..<length tier} - set rest = ?out \<union> set sat"
      using "1.prems"(3) sub by (auto simp: rest_def)
    then have "?cost ({..<length tier} - set rest) = ?cost ?out + ?cost (set sat)"
      using sub by (simp add: sum.union_disjoint Int_commute disjoint_iff subset_iff)
    moreover have "?cost (set sat) \<le> ?cost (set contending)" using sub by (intro sum_mono2) auto
    moreover have "unat (take_back sat sel' pool) = unat pool - ?cost (set sat)"
      using sub by (rule_tac take_back_unat)
    ultimately have "?cost ({..<length tier} - set rest) + unat (take_back sat sel' pool) \<le> R"
      using outside inside "1.prems"(5) by linarith
    with "1.IH" [OF sel'_def sat_def False "1.prems"(1)] "1.prems" len
    show ?thesis using False
      by (subst (1 2) tier_loop.simps) (auto simp: Let_def rest_def simp flip: sel'_def sat_def)
  qed
qed

lemma allocate_tier_budget:
  assumes "weights_fit tier"
  shows "(\<Sum>i<length tier. kbps_of (allocate_tier tier b ! i)) \<le> unat b"
  using tier_loop_budget [OF assms, of "[0..<length tier]" "replicate (length tier) None" b "unat b"]
  by (simp_all add: allocate_tier_def atLeast0LessThan)

text \<open>Every choice is a member of its own set.\<close>

lemma tier_loop_members:
  assumes "set contending \<subseteq> {..<length tier}" "length sel = length tier"
    and "\<And>i m. i < length tier \<Longrightarrow> sel ! i = Some m \<Longrightarrow> m \<in> set (ss_members (tier ! i))"
    and "i < length tier" "tier_loop tier sel contending pool ! i = Some m"
  shows "m \<in> set (ss_members (tier ! i))"
  using assms
proof (induction tier sel contending pool rule: tier_loop.induct)
  case (1 tier sel contending pool)
  define sel' where "sel' = split_pool tier contending pool sel"
  define sat where "sat = saturated_sets tier contending sel'"
  have step: "k < length tier \<Longrightarrow> sel' ! k = Some m' \<Longrightarrow> m' \<in> set (ss_members (tier ! k))" for k m'
    using "1.prems"(3) find_up_to_Some split_pool_nth [OF "1.prems"(2,1), of k tier pool]
    by (auto simp: sel'_def split: if_splits)
  show ?case
  proof (cases "sat = []")
    case True
    with "1.prems"(4,5) step show ?thesis
      by (subst (asm) tier_loop.simps) (simp add: Let_def flip: sel'_def sat_def)
  next
    case False
    have "tier_loop tier sel' (filter (\<lambda>i. i \<notin> set sat) contending) (take_back sat sel' pool) ! i = Some m"
      using "1.prems"(5) False by (subst (asm) tier_loop.simps) (simp add: Let_def flip: sel'_def sat_def)
    with "1.IH" [OF sel'_def sat_def False] "1.prems"(1,2,4) step show ?thesis
      by (auto simp: sel'_def)
  qed
qed

lemma allocate_tier_members:
  assumes "i < length tier" "allocate_tier tier b ! i = Some m"
  shows "m \<in> set (ss_members (tier ! i))"
  using tier_loop_members [of "[0..<length tier]" tier "replicate (length tier) None" i b m] assms
  by (auto simp: allocate_tier_def atLeast0LessThan)

lemma length_tier_loop: "length (tier_loop tier sel contending pool) = length sel"
proof (induction tier sel contending pool rule: tier_loop.induct)
  case (1 tier sel contending pool)
  then show ?case by (subst tier_loop.simps) (simp add: Let_def)
qed

lemma length_allocate_tier [simp]: "length (allocate_tier tier b) = length tier"
  by (simp add: allocate_tier_def length_tier_loop)

subsection \<open>All tiers\<close>

lemma record_choices_eq:
  assumes "distinct_ids tier" "length sel = length tier"
  shows "record_choices tier sel (decisions, b) =
      (decisions ++ map_of (zip (map ss_id tier) (map (map_option snd) sel)), snd (record_choices tier sel (decisions, b)))"
    and "unat (snd (record_choices tier sel (decisions, b))) = unat b - (\<Sum>i<length tier. kbps_of (sel ! i))"
proof -
  have "fst (record_choices tier sel (decisions, b)) = decisions ++ map_of (zip (map ss_id tier) (map (map_option snd) sel))
      \<and> unat (snd (record_choices tier sel (decisions, b))) = unat b - sum_list (map kbps_of sel)"
    using assms(2,1)
  proof (induction sel tier arbitrary: decisions b rule: list_induct2)
    case Nil
    then show ?case by (simp add: record_choices_def)
  next
    case (Cons c sel s tier)
    have "record_choices (s # tier) (c # sel) (decisions, b) =
        record_choices tier sel (decisions(ss_id s \<mapsto> map_option snd c),
          saturating_sub b (case c of Some (t, _) \<Rightarrow> t | None \<Rightarrow> 0))"
      by (simp add: record_choices_def)
    moreover have new: "ss_id s \<notin> dom (map_of (zip (map ss_id tier) (map (map_option snd) sel)))"
      using Cons.prems by (auto simp: distinct_ids_def dest!: map_of_SomeD set_zip_leftD)
    moreover have "unat (saturating_sub b (case c of Some (t, _) \<Rightarrow> t | None \<Rightarrow> 0)) = unat b - kbps_of c"
      by (auto simp: unat_saturating_sub split: option.split)
    moreover note map_add_upd_left [OF new, of decisions "map_option snd c"]
    moreover have "(d ++ m)(k \<mapsto> v) = d ++ (m(k \<mapsto> v))" for d m :: selection and k v by simp
    ultimately show ?case using Cons.IH Cons.prems by (simp add: distinct_ids_def fun_upd_def)
  qed
  then show "record_choices tier sel (decisions, b) =
      (decisions ++ map_of (zip (map ss_id tier) (map (map_option snd) sel)), snd (record_choices tier sel (decisions, b)))"
    and "unat (snd (record_choices tier sel (decisions, b))) = unat b - (\<Sum>i<length tier. kbps_of (sel ! i))"
    using assms(2) by (auto simp: prod_eq_iff sum_list_sum_nth atLeast0LessThan)
qed

definition tier_map :: "set_snapshot list \<Rightarrow> u64 \<Rightarrow> selection" where
  "tier_map tier b = map_of (zip (map ss_id tier) (map (map_option snd) (allocate_tier tier b)))"

lemma tier_map_nth:
  assumes "distinct_ids tier" "i < length tier"
  shows "tier_map tier b (ss_id (tier ! i)) = Some (map_option snd (allocate_tier tier b ! i))"
  unfolding tier_map_def
  by (rule map_of_is_SomeI) (use assms in \<open>auto simp: distinct_ids_def in_set_zip intro!: exI [of _ i]\<close>)

lemma dom_tier_map: "dom (tier_map tier b) = ss_id ` set tier"
  by (simp add: tier_map_def dom_map_of_zip)

lemma distinct_ids_tier_of [simp]: "distinct_ids sets \<Longrightarrow> distinct_ids (tier_of sets k)"
  by (simp add: distinct_ids_def tier_of_def distinct_map_filter)

lemma rank_step_eq:
  assumes "distinct_ids sets"
  shows "fst (rank_step sets k (decisions, b)) = decisions ++ tier_map (tier_of sets k) b"
    and "unat (snd (rank_step sets k (decisions, b)))
      = unat b - (\<Sum>i<length (tier_of sets k). kbps_of (allocate_tier (tier_of sets k) b ! i))"
  using record_choices_eq [of "tier_of sets k" "allocate_tier (tier_of sets k) b" decisions b] assms
  by (auto simp: rank_step_def Let_def tier_map_def prod_eq_iff)

lemma ss_id_eq_iff:
  "distinct_ids sets \<Longrightarrow> s \<in> set sets \<Longrightarrow> t \<in> set sets \<Longrightarrow> ss_id s = ss_id t \<longleftrightarrow> s = t"
  by (auto simp: distinct_ids_def distinct_map inj_on_def)

lemma set_tier_of: "set (tier_of sets k) = {s \<in> set sets. ss_rank s = k \<and> ss_active s}"
  by (auto simp: tier_of_def)

lemma distinct_remdups_adj_sorted: "sorted xs \<Longrightarrow> distinct (remdups_adj xs)"
  by (induction xs rule: remdups_adj.induct) auto

lemma ranks_of_eq: "ranks_of sets = sorted_list_of_set (ss_rank ` set sets)"
proof -
  have "sorted (ranks_of sets)" "distinct (ranks_of sets)" "set (ranks_of sets) = ss_rank ` set sets"
    by (simp_all add: ranks_of_def distinct_remdups_adj_sorted)
  then show ?thesis
    using sorted_list_of_set.idem_if_sorted_distinct by metis
qed

text \<open>What a decision costs: the bandwidth threshold of the track that was picked.\<close>

definition selected_kbps :: "selection \<Rightarrow> set_snapshot \<Rightarrow> nat" where
  "selected_kbps decisions s =
     (case decisions (ss_id s) of
        Some (Some track) \<Rightarrow> (case find (\<lambda>m. snd m = track) (ss_members s) of Some m \<Rightarrow> unat (fst m) | None \<Rightarrow> 0)
      | _ \<Rightarrow> 0)"

definition distinct_tracks :: "set_snapshot \<Rightarrow> bool" where
  "distinct_tracks s \<longleftrightarrow> distinct (map snd (ss_members s))"

lemma find_track:
  assumes "distinct_tracks s" "(t, track) \<in> set (ss_members s)"
  shows "find (\<lambda>m. snd m = track) (ss_members s) = Some (t, track)"
proof -
  obtain m where m: "find (\<lambda>m. snd m = track) (ss_members s) = Some m"
    using assms(2) by (cases "find (\<lambda>m. snd m = track) (ss_members s)") (auto simp: find_None_iff)
  then have "m \<in> set (ss_members s)" "snd m = track" by (auto simp: find_Some_iff)
  with assms have "m = (t, track)"
    by (auto simp: distinct_tracks_def distinct_map inj_on_def)
  with m show ?thesis by simp
qed

lemma tier_cost:
  assumes "distinct_ids tier" "\<forall>s \<in> set tier. distinct_tracks s"
  shows "(\<Sum>s\<in>set tier. selected_kbps (decisions ++ tier_map tier b) s)
    = (\<Sum>i<length tier. kbps_of (allocate_tier tier b ! i))"
proof -
  have one: "selected_kbps (decisions ++ tier_map tier b) (tier ! i) = kbps_of (allocate_tier tier b ! i)"
    if "i < length tier" for i
  proof (cases "allocate_tier tier b ! i")
    case (Some m)
    obtain t track where m: "m = (t, track)" by (cases m)
    show ?thesis
      using find_track [OF _ allocate_tier_members [OF that, of b "(t, track)"]] Some that assms
      by (simp add: selected_kbps_def map_add_Some_iff tier_map_nth m)
  qed (use that assms in \<open>simp add: selected_kbps_def map_add_Some_iff tier_map_nth\<close>)
  have "distinct tier" using assms(1) by (simp add: distinct_ids_def distinct_map)
  then have "(\<Sum>s\<in>set tier. selected_kbps (decisions ++ tier_map tier b) s)
      = (\<Sum>i<length tier. selected_kbps (decisions ++ tier_map tier b) (tier ! i))"
    by (simp add: sum_list_distinct_conv_sum_set [symmetric] sum_list_sum_nth atLeast0LessThan)
  also have "\<dots> = (\<Sum>i<length tier. kbps_of (allocate_tier tier b ! i))"
    using one by (intro sum.cong) auto
  finally show ?thesis .
qed

lemma sum_list_filter_le: "sum_list (map f (filter P xs)) \<le> sum_list (map f xs)" for f :: "'a \<Rightarrow> nat"
  by (induction xs) auto

lemma weights_fit_tier_of: "weights_fit sets \<Longrightarrow> weights_fit (tier_of sets k)"
  unfolding weights_fit_def tier_of_def by (rule le_less_trans [OF sum_list_filter_le])

definition served :: "set_snapshot list \<Rightarrow> nat \<Rightarrow> u8 set \<Rightarrow> selection \<times> u64 \<Rightarrow> bool" where
  "served sets budget P acc \<longleftrightarrow>
     dom (fst acc) = ss_id ` {s \<in> set sets. ss_active s \<and> ss_rank s \<in> P}
     \<and> (\<forall>s \<in> set sets. \<forall>track. fst acc (ss_id s) = Some (Some track) \<longrightarrow> has_track s track)
     \<and> (weights_fit sets \<and> (\<forall>s \<in> set sets. distinct_tracks s) \<longrightarrow>
          (\<Sum>s\<in>set sets. selected_kbps (fst acc) s) + unat (snd acc) \<le> budget)"

lemma tier_map_track:
  assumes "distinct_ids sets" "s \<in> set sets" "tier_map (tier_of sets k) b (ss_id s) = Some (Some track)"
  shows "has_track s track"
proof -
  have "ss_id s \<in> ss_id ` set (tier_of sets k)"
    using assms(3) by (auto simp flip: dom_tier_map [of _ b])
  then have "s \<in> set (tier_of sets k)"
    using assms(1,2) by (auto simp: set_tier_of ss_id_eq_iff)
  then obtain i where i: "i < length (tier_of sets k)" "s = tier_of sets k ! i" by (metis in_set_conv_nth)
  with assms(3) tier_map_nth [of "tier_of sets k" i b] assms(1)
  obtain m where "allocate_tier (tier_of sets k) b ! i = Some m" "snd m = track" by auto
  with allocate_tier_members [OF i(1), of b m] i(2) show ?thesis by (auto simp: has_track_def)
qed

lemma served_step:
  assumes "distinct_ids sets" "served sets budget P acc" "k \<notin> P"
  shows "served sets budget (insert k P) (rank_step sets k acc)"
proof -
  obtain decisions b where acc: "acc = (decisions, b)" by (cases acc)
  let ?tier = "tier_of sets k"
  let ?new = "decisions ++ tier_map ?tier b"
  have fresh: "decisions (ss_id s) = None" if "s \<in> set ?tier" for s
  proof -
    have "ss_id s \<notin> dom decisions"
      using assms that by (auto simp: acc served_def set_tier_of ss_id_eq_iff)
    then show ?thesis by blast
  qed
  have other: "?new (ss_id s) = decisions (ss_id s)" if "s \<in> set sets - set ?tier" for s
  proof -
    have "ss_id s \<notin> dom (tier_map ?tier b)"
      using assms(1) that by (auto simp: dom_tier_map set_tier_of ss_id_eq_iff)
    then show ?thesis by (simp add: map_add_dom_app_simps)
  qed
  have "(\<Sum>s\<in>set sets. selected_kbps ?new s) + unat (snd (rank_step sets k acc)) \<le> budget"
    if fit: "weights_fit sets" "\<forall>s \<in> set sets. distinct_tracks s"
  proof -
    have sub: "set ?tier \<subseteq> set sets" by (auto simp: set_tier_of)
    have "(\<Sum>s\<in>set ?tier. selected_kbps decisions s) = 0"
      using fresh by (intro sum.neutral) (simp add: selected_kbps_def)
    moreover have "(\<Sum>s\<in>set sets - set ?tier. selected_kbps ?new s)
        = (\<Sum>s\<in>set sets - set ?tier. selected_kbps decisions s)"
      using other by (intro sum.cong) (auto simp: selected_kbps_def)
    moreover have "(\<Sum>s\<in>set ?tier. selected_kbps ?new s) = (\<Sum>i<length ?tier. kbps_of (allocate_tier ?tier b ! i))"
      using assms(1) fit(2) by (intro tier_cost) (auto simp: set_tier_of)
    moreover note allocate_tier_budget [OF weights_fit_tier_of [OF fit(1)], of k b]
    moreover have "(\<Sum>s\<in>set sets. selected_kbps decisions s) + unat b \<le> budget"
      using assms(2) fit by (simp add: acc served_def)
    ultimately show ?thesis
      using sum.subset_diff [OF sub, of "selected_kbps ?new"] sum.subset_diff [OF sub, of "selected_kbps decisions"]
      by (simp add: acc rank_step_eq assms(1))
  qed
  moreover have "dom ?new = ss_id ` {s \<in> set sets. ss_active s \<and> ss_rank s \<in> insert k P}"
    using assms(2) by (auto simp: acc served_def dom_tier_map set_tier_of)
  moreover have "\<forall>s \<in> set sets. \<forall>track. ?new (ss_id s) = Some (Some track) \<longrightarrow> has_track s track"
    using assms(1,2) by (auto simp: acc served_def map_add_Some_iff intro: tier_map_track)
  ultimately show ?thesis by (simp add: served_def acc rank_step_eq assms(1))
qed

lemma served_fold:
  assumes "distinct_ids sets" "served sets budget P acc" "distinct ks" "set ks \<inter> P = {}"
  shows "served sets budget (set ks \<union> P) (fold (rank_step sets) ks acc)"
  using assms(2-4)
proof (induction ks arbitrary: P acc)
  case (Cons k ks)
  from Cons.IH [of "insert k P" "rank_step sets k acc"] served_step [OF assms(1) Cons.prems(1), of k] Cons.prems(2,3)
  show ?case by auto
qed simp

lemma or_default_eq:
  "fold (\<lambda>s d. if d (ss_id s) = None then d(ss_id s \<mapsto> None) else d) sets decisions =
   (\<lambda>i. if decisions i = None \<and> i \<in> ss_id ` set sets then Some None else decisions i)"
  by (induction sets arbitrary: decisions) (auto simp: fun_eq_iff)

lemma served_all:
  assumes "distinct_ids sets"
  shows "served sets (unat b) (ss_rank ` set sets) (fold (rank_step sets) (ranks_of sets) (Map.empty, b))"
proof -
  have "served sets (unat b) {} (Map.empty, b)" by (simp add: served_def selected_kbps_def)
  from served_fold [OF assms this, of "ranks_of sets"] show ?thesis by (simp add: ranks_of_eq)
qed

lemma allocate_eq:
  "allocate b sets = (let d = fst (fold (rank_step sets) (ranks_of sets) (Map.empty, b)) in
     (\<lambda>i. if d i = None \<and> i \<in> ss_id ` set sets then Some None else d i))"
  by (simp add: allocate_def or_default_eq Let_def)

lemma allocate_valid:
  assumes "distinct_ids sets"
  shows "valid_selection sets (allocate b sets)"
proof -
  let ?d = "fst (fold (rank_step sets) (ranks_of sets) (Map.empty, b))"
  have dom: "dom ?d = ss_id ` {s \<in> set sets. ss_active s}"
    and own: "\<And>s track. s \<in> set sets \<Longrightarrow> ?d (ss_id s) = Some (Some track) \<Longrightarrow> has_track s track"
    using served_all [OF assms, of b] by (auto simp: served_def)
  have "dom (allocate b sets) = ss_id ` set sets"
    using dom by (auto simp: allocate_eq Let_def dom_def split: if_splits)
  moreover have "ss_active s \<and> has_track s track"
    if "s \<in> set sets" "allocate b sets (ss_id s) = Some (Some track)" for s track
  proof -
    have "?d (ss_id s) = Some (Some track)" using that by (simp add: allocate_eq Let_def split: if_splits)
    moreover from this have "ss_id s \<in> dom ?d" by blast
    ultimately show ?thesis using own that(1) dom assms by (auto simp: ss_id_eq_iff)
  qed
  ultimately show ?thesis by (simp add: valid_selection_def)
qed

interpretation default_abr: abr_algorithm default_decide
  by unfold_locales (simp add: default_decide_def allocate_valid)

subsection \<open>Strict priority\<close>

lemma sorted_filter_split:
  "sorted xs \<Longrightarrow> xs = filter (\<lambda>k. k \<le> r) xs @ filter (\<lambda>k. r < k) xs" for r :: "'a :: linorder"
proof (induction xs)
  case (Cons x xs)
  then have "\<not> x \<le> r \<Longrightarrow> filter (\<lambda>k. k \<le> r) xs = []"
    by (auto simp: filter_empty_conv)
  with Cons show ?case by auto
qed simp

lemma ranks_of_filter: "ranks_of (filter (\<lambda>t. ss_rank t \<le> r) sets) = filter (\<lambda>k. k \<le> r) (ranks_of sets)"
  by (rule sorted_distinct_set_unique) (auto simp: ranks_of_eq sorted_wrt_filter)

lemma rank_step_filter:
  "k \<le> r \<Longrightarrow> rank_step (filter (\<lambda>t. ss_rank t \<le> r) sets) k = rank_step sets k"
proof -
  assume "k \<le> r"
  then have "tier_of (filter (\<lambda>t. ss_rank t \<le> r) sets) k = tier_of sets k"
    by (auto simp: tier_of_def intro!: filter_cong)
  then show ?thesis by (auto simp: rank_step_def fun_eq_iff)
qed

lemma lower_ranks_keep:
  assumes "distinct_ids sets" "s \<in> set sets" "\<forall>k \<in> set ks. ss_rank s < k"
  shows "fst (fold (rank_step sets) ks acc) (ss_id s) = fst acc (ss_id s)"
  using assms(3)
proof (induction ks arbitrary: acc)
  case (Cons k ks)
  have "ss_id s \<notin> dom (tier_map (tier_of sets k) (snd acc))"
    using assms(1,2) Cons.prems by (auto simp: dom_tier_map set_tier_of ss_id_eq_iff)
  then have "fst (rank_step sets k acc) (ss_id s) = fst acc (ss_id s)"
    using rank_step_eq(1) [OF assms(1), of k "fst acc" "snd acc"] by (simp add: map_add_dom_app_simps)
  with Cons show ?case by simp
qed simp

text \<open>A connection with an audio set, a video set and a preview set of a lower rank.\<close>

definition example_sets :: "set_snapshot list" where
  "example_sets =
     [\<lparr>ss_id = 1, ss_algorithm_id = 0, ss_rank = 0, ss_weight = 1, ss_active = True, ss_members = [(64, 10)]\<rparr>,
      \<lparr>ss_id = 2, ss_algorithm_id = 0, ss_rank = 0, ss_weight = 3, ss_active = True, ss_members = [(500, 20), (900, 21)]\<rparr>,
      \<lparr>ss_id = 3, ss_algorithm_id = 0, ss_rank = 1, ss_weight = 1, ss_active = True, ss_members = [(30, 30), (400, 31)]\<rparr>]"

lemma example_sets_ok:
  "distinct_ids example_sets" "weights_fit example_sets" "\<forall>s \<in> set example_sets. distinct_tracks s"
  by (simp_all add: example_sets_def distinct_ids_def weights_fit_def distinct_tracks_def)

text \<open>C31. The choice made for a set does not depend on the sets of lower priority.\<close>

theorem allocate_strict_priority:
  assumes "distinct_ids sets" "s \<in> set sets" "ss_rank s \<le> r"
  shows "allocate b sets (ss_id s) = allocate b (filter (\<lambda>t. ss_rank t \<le> r) sets) (ss_id s)"
proof -
  let ?high = "filter (\<lambda>t. ss_rank t \<le> r) sets"
  obtain low where low: "ranks_of sets = ranks_of ?high @ low" "\<forall>k \<in> set low. r < k"
  proof
    show "ranks_of sets = ranks_of ?high @ filter (\<lambda>k. r < k) (ranks_of sets)"
      unfolding ranks_of_filter by (rule sorted_filter_split) (simp add: ranks_of_eq)
  qed simp
  have "fst (fold (rank_step sets) (ranks_of sets) acc) (ss_id s)
      = fst (fold (rank_step sets) (ranks_of ?high) acc) (ss_id s)" for acc
    using lower_ranks_keep [OF assms(1,2), of low] low(2) assms(3)
    by (simp add: low(1) le_less_trans)
  moreover have "fold (rank_step ?high) (ranks_of ?high) acc = fold (rank_step sets) (ranks_of ?high) acc" for acc
    by (rule fold_cong) (auto simp: ranks_of_filter rank_step_filter)
  ultimately show ?thesis using assms(2,3) by (auto simp: allocate_eq Let_def)
qed

theorem allocate_strict_priority_witness:
  "allocate 1000 example_sets 2 = allocate 1000 (take 2 example_sets) 2"
  using allocate_strict_priority [OF example_sets_ok(1), of "example_sets ! 1" 0 1000]
  by (simp add: example_sets_def)

text \<open>C22. The thresholds of the tracks selected in a group never exceed the budget.\<close>

theorem allocate_within_budget:
  assumes "distinct_ids sets" "weights_fit sets" "\<forall>s \<in> set sets. distinct_tracks s"
  shows "(\<Sum>s\<in>set sets. selected_kbps (allocate b sets) s) \<le> unat b"
proof -
  let ?d = "fst (fold (rank_step sets) (ranks_of sets) (Map.empty, b))"
  have "selected_kbps (allocate b sets) s = selected_kbps ?d s" for s
    by (simp add: selected_kbps_def allocate_eq Let_def)
  then show ?thesis using served_all [OF assms(1), of b] assms(2,3) by (simp add: served_def)
qed

theorem allocate_within_budget_witness:
  "(\<Sum>s\<in>set example_sets. selected_kbps (allocate 1000 example_sets) s) \<le> 1000"
  using allocate_within_budget [OF example_sets_ok, of 1000] by simp

end
