(* ===== verification/Backpressure.thy ===== *)
theory Backpressure
  imports SSTS
begin

text \<open>
  The backpressure tier selector (\<open>libs/moqtail-ssts/src/algorithms/backpressure\<close>): a state
  machine over one observation per group, and the decision built on it. The theory shows the
  invariant of its reachable states, that no counter wraps, that the tier moves one step at a
  time, what makes it rise and fall, and that the contract of \<open>abr_algorithm\<close> holds.
\<close>

subsection \<open>The tier state machine (\<open>state.rs\<close>)\<close>

abbreviation (input) DEPTH_TARGET :: u64 where "DEPTH_TARGET \<equiv> 1"
abbreviation (input) DOWNSHIFT_DEPTH :: u64 where "DOWNSHIFT_DEPTH \<equiv> 2"
abbreviation (input) UPSHIFT_GOP_STREAK :: u64 where "UPSHIFT_GOP_STREAK \<equiv> 5"
abbreviation (input) COOLDOWN_HIGH_STREAK :: u64 where "COOLDOWN_HIGH_STREAK \<equiv> 2"

record observation =
  ob_depth :: u64
  ob_timed_out :: bool

definition observation_new :: "u64 \<Rightarrow> u64 \<Rightarrow> observation" where
  "observation_new depth timeouts_since_last =
     \<lparr>ob_depth = depth + timeouts_since_last, ob_timed_out = (timeouts_since_last > 0)\<rparr>"

datatype cause = Depth | RisingDepth | Timeout

datatype event =
    Held
  | CooldownExit
  | Upshift u64 u64
  | Downshift u64 u64 cause

record tier_state =
  current_index :: u64
  clear_streak :: u64
  post_downshift_depth :: "u64 option"
  cooldown_high_streak :: u64

definition tier_state_default :: tier_state where
  "tier_state_default =
     \<lparr>current_index = 0, clear_streak = 0, post_downshift_depth = None, cooldown_high_streak = 0\<rparr>"

definition clamp_to :: "tier_state \<Rightarrow> u64 \<Rightarrow> tier_state" where
  "clamp_to st max_index = st\<lparr>current_index := min (current_index st) max_index\<rparr>"

definition observe_clear :: "tier_state \<Rightarrow> event \<times> tier_state" where
  "observe_clear st =
     (let exited = post_downshift_depth st \<noteq> None;
          st = st\<lparr>post_downshift_depth := None\<rparr>;
          st = (if exited then st\<lparr>cooldown_high_streak := 0\<rparr> else st);
          st = st\<lparr>clear_streak := clear_streak st + 1\<rparr>
      in if clear_streak st < UPSHIFT_GOP_STREAK then (if exited then CooldownExit else Held, st)
         else (let from_index = current_index st;
                   st = st\<lparr>current_index := from_index + 1, clear_streak := 0\<rparr>
               in (Upshift from_index (current_index st), st)))"

definition observe_congested :: "tier_state \<Rightarrow> u64 \<Rightarrow> event \<times> tier_state" where
  "observe_congested st depth =
     (let st = st\<lparr>clear_streak := 0\<rparr> in
      if depth < DOWNSHIFT_DEPTH \<or> current_index st = 0 then (Held, st)
      else (let from_index = current_index st;
                st = st\<lparr>current_index := from_index - 1, post_downshift_depth := Some depth,
                        cooldown_high_streak := 0\<rparr>
            in (Downshift from_index (current_index st) Depth, st)))"

definition observe_cooldown :: "tier_state \<Rightarrow> observation \<Rightarrow> u64 \<Rightarrow> event \<times> tier_state" where
  "observe_cooldown st ob reference =
     (let depth = ob_depth ob;
          st = st\<lparr>clear_streak := 0, post_downshift_depth := Some depth\<rparr>
      in if ob_timed_out ob \<and> current_index st > 0
         then (let st = st\<lparr>current_index := current_index st - 1, cooldown_high_streak := 0\<rparr>
               in (Downshift (current_index st + 1) (current_index st) Timeout, st))
         else if depth \<le> reference then (Held, st\<lparr>cooldown_high_streak := 0\<rparr>)
         else (let st = st\<lparr>cooldown_high_streak := cooldown_high_streak st + 1\<rparr> in
               if cooldown_high_streak st < COOLDOWN_HIGH_STREAK \<or> current_index st = 0 then (Held, st)
               else (let st = st\<lparr>current_index := current_index st - 1, cooldown_high_streak := 0\<rparr>
                     in (Downshift (current_index st + 1) (current_index st) RisingDepth, st))))"

definition observe :: "tier_state \<Rightarrow> observation \<Rightarrow> event \<times> tier_state" where
  "observe st ob =
     (if ob_depth ob \<le> DEPTH_TARGET then observe_clear st
      else (case post_downshift_depth st of
              Some reference \<Rightarrow> observe_cooldown st ob reference
            | None \<Rightarrow> observe_congested st (ob_depth ob)))"

subsection \<open>The decision (\<open>mod.rs\<close>)\<close>

abbreviation (input) usize_of :: "'a list \<Rightarrow> u64" where
  "usize_of xs \<equiv> of_nat (length xs)"

definition max_index :: "set_snapshot list \<Rightarrow> u64" where
  "max_index sets =
     saturating_sub (if sets = [] then 1 else Max (set (map (\<lambda>s. usize_of (ss_members s)) sets))) 1"

definition select_tier :: "u64 \<Rightarrow> set_snapshot \<Rightarrow> u64 option" where
  "select_tier tier s =
     (if ss_active s \<and> ss_members s \<noteq> []
      then (let i = unat (min tier (usize_of (ss_members s) - 1)) in
            if i < length (ss_members s) then Some (snd (ss_members s ! i)) else None)
      else None)"

definition backpressure_decide :: "tier_state \<Rightarrow> abr_input \<Rightarrow> selection \<times> tier_state" where
  "backpressure_decide st i =
     (let ob = observation_new (active_stream_depth i) (ai_stream_timeouts i);
          st = snd (observe st ob);
          st = clamp_to st (max_index (ai_sets i))
      in (map_of (rev (map (\<lambda>s. (ss_id s, select_tier (current_index st) s)) (ai_sets i))), st))"

subsection \<open>Reachable states\<close>

text \<open>
  A connection observes a group, then the tier is capped at the longest ladder. The index
  grows by one per observation, so the states of a connection that made fewer than \<open>2 ^ 64\<close>
  observations are those with a number of steps below that.
\<close>

inductive tier_reach :: "nat \<Rightarrow> tier_state \<Rightarrow> bool" where
  start: "tier_reach 0 tier_state_default"
| observed: "tier_reach n st \<Longrightarrow> tier_reach (Suc n) (snd (observe st ob))"
| clamped: "tier_reach n st \<Longrightarrow> tier_reach n (clamp_to st m)"

definition tier_inv :: "nat \<Rightarrow> tier_state \<Rightarrow> bool" where
  "tier_inv n st \<longleftrightarrow>
     unat (clear_streak st) < 5
     \<and> 5 * unat (current_index st) + unat (clear_streak st) \<le> n
     \<and> (case post_downshift_depth st of
           None \<Rightarrow> cooldown_high_streak st = 0
         | Some d \<Rightarrow> 2 \<le> unat d \<and> clear_streak st = 0 \<and> unat (cooldown_high_streak st) \<le> unat d)"

lemmas observe_defs =
  observe_def observe_clear_def observe_congested_def observe_cooldown_def Let_def

text \<open>One case per branch of the machine, with the words read as numbers.\<close>

lemma unat_dec: "0 < (w :: u64) \<Longrightarrow> unat (w - 1) = unat w - 1"
  by (simp add: unat_minus_one word_gt_0)

lemma unat_inc: "unat (w :: u64) < 2 ^ 64 - 1 \<Longrightarrow> unat (w + 1) = unat w + 1"
  by (simp add: unat_word_ariths)

lemma unat_inc_below: "unat w < unat v \<Longrightarrow> unat (w + 1) = unat w + 1" for w v :: u64
proof -
  assume "unat w < unat v"
  with unat_u64_less [of v] have "unat w < 18446744073709551615" by linarith
  then show ?thesis by (simp add: unat_inc)
qed

lemma tier_inv_clear:
  assumes "tier_inv n st" "n < 2 ^ 64 - 1"
  shows "tier_inv (Suc n) (snd (observe_clear st))"
  using assms unat_inc [of "clear_streak st"] unat_inc [of "current_index st"]
  by (auto simp: tier_inv_def observe_clear_def Let_def word_less_nat_alt split: option.splits)

lemma tier_inv_congested:
  assumes "tier_inv n st" "post_downshift_depth st = None" "1 < depth"
  shows "tier_inv (Suc n) (snd (observe_congested st depth))"
  using assms unat_dec [of "current_index st"]
  by (auto simp: tier_inv_def observe_congested_def Let_def word_less_nat_alt word_gt_0 unat_gt_0)

lemma tier_inv_cooldown:
  assumes "tier_inv n st" "post_downshift_depth st = Some d" "1 < ob_depth ob"
  shows "tier_inv (Suc n) (snd (observe_cooldown st ob d))"
proof -
  have "unat (cooldown_high_streak st + 1) \<le> unat (ob_depth ob)" if "\<not> ob_depth ob \<le> d"
    using that assms(1,2) unat_inc_below [of "cooldown_high_streak st" "ob_depth ob"]
    by (simp add: tier_inv_def word_le_nat_alt)
  then show ?thesis using assms unat_dec [of "current_index st"]
    by (auto simp: tier_inv_def observe_cooldown_def Let_def word_less_nat_alt word_gt_0 unat_gt_0)
qed

lemma tier_inv_observe:
  assumes "tier_inv n st" "n < 2 ^ 64 - 1"
  shows "tier_inv (Suc n) (snd (observe st ob))"
  using assms tier_inv_clear tier_inv_congested tier_inv_cooldown
  by (auto simp: observe_def not_le split: option.split)

lemma tier_inv_clamp: "tier_inv n st \<Longrightarrow> tier_inv n (clamp_to st m)"
  by (auto simp: tier_inv_def clamp_to_def min_def word_le_nat_alt split: option.splits)

lemma tier_inv_reach:
  assumes "tier_reach n st" "n < 2 ^ 64"
  shows "tier_inv n st"
  using assms
proof (induction rule: tier_reach.induct)
  case start
  show ?case by (simp add: tier_inv_def tier_state_default_def)
next
  case (observed n st ob)
  then show ?case by (simp add: tier_inv_observe)
next
  case (clamped n st m)
  then show ?case by (simp add: tier_inv_clamp)
qed

subsection \<open>What moves the tier\<close>

lemma observe_clear_index:
  assumes "tier_inv n st" "n < 2 ^ 64 - 1"
  shows "unat (current_index (snd (observe_clear st))) =
    (if clear_streak st = 4 then unat (current_index st) + 1 else unat (current_index st))"
    and "unat (clear_streak (snd (observe_clear st))) = (unat (clear_streak st) + 1) mod 5"
proof -
  have inc: "unat (clear_streak st + 1) = unat (clear_streak st) + 1"
    "unat (current_index st + 1) = unat (current_index st) + 1"
    using assms by (intro unat_inc; simp add: tier_inv_def)+
  have four: "clear_streak st = 4 \<longleftrightarrow> unat (clear_streak st) = 4"
    by (simp add: word_unat_eq_iff)
  have "unat (clear_streak st) < 5" using assms(1) by (simp add: tier_inv_def)
  then have "unat (clear_streak st) < 4 \<or> unat (clear_streak st) = 4" by auto
  then show "unat (current_index (snd (observe_clear st))) =
      (if clear_streak st = 4 then unat (current_index st) + 1 else unat (current_index st))"
    and "unat (clear_streak (snd (observe_clear st))) = (unat (clear_streak st) + 1) mod 5"
    by (auto simp: observe_clear_def Let_def word_less_nat_alt inc four)
qed

lemma observe_loaded_index:
  assumes "1 < ob_depth ob"
  shows "current_index (snd (observe st ob)) = current_index st
    \<or> 0 < current_index st \<and> current_index (snd (observe st ob)) = current_index st - 1"
  using assms by (auto simp: observe_defs word_gt_0 not_le split: option.split)

text \<open>What the tier does on a group: it rises by one exactly on the fifth clear group in a row
  and falls by one exactly when the machine reports a downshift, which happens on the first
  congested group outside cooldown, on a timeout, or on the second rise of the depth in a row.\<close>

definition tier_falls :: "tier_state \<Rightarrow> observation \<Rightarrow> bool" where
  "tier_falls st ob \<longleftrightarrow> 1 < ob_depth ob \<and> 0 < current_index st \<and>
     (case post_downshift_depth st of
        None \<Rightarrow> True
      | Some reference \<Rightarrow> ob_timed_out ob
          \<or> reference < ob_depth ob \<and> 0 < cooldown_high_streak st)"

lemma tier_falls_cooldown:
  assumes "tier_inv n st" "post_downshift_depth st = Some d" "1 < ob_depth ob" "d < ob_depth ob"
  shows "cooldown_high_streak st + 1 < 2 \<longleftrightarrow> cooldown_high_streak st = 0"
  using assms unat_inc_below [of "cooldown_high_streak st" "ob_depth ob"]
  by (simp add: tier_inv_def word_less_nat_alt word_le_nat_alt unat_eq_zero)

text \<open>In every state a connection reaches within \<open>2 ^ 64\<close> observations the counters are in
  bounds (so no addition of the machine wraps), five clear groups are spent for every tier
  above the lowest one, and a cooldown carries the depth it compares with.\<close>

lemma tier_reach_bounds:
  assumes "tier_reach n st" "n < 2 ^ 64"
  shows "clear_streak st < 5
    \<and> 5 * unat (current_index st) + unat (clear_streak st) \<le> n
    \<and> (post_downshift_depth st = None \<longrightarrow> cooldown_high_streak st = 0)
    \<and> (\<forall>d. post_downshift_depth st = Some d \<longrightarrow>
           2 \<le> d \<and> clear_streak st = 0 \<and> cooldown_high_streak st \<le> d)"
  using tier_inv_reach [OF assms]
  by (auto simp: tier_inv_def word_less_nat_alt word_le_nat_alt)

lemma observe_loaded_exact:
  assumes "tier_inv n st" "1 < ob_depth ob" "0 < current_index st"
  shows "current_index (snd (observe st ob)) = (if tier_falls st ob then current_index st - 1 else current_index st)"
proof (cases "post_downshift_depth st")
  case None
  then show ?thesis using assms
    by (auto simp: observe_def observe_congested_def tier_falls_def Let_def word_less_nat_alt word_le_nat_alt word_gt_0)
next
  case (Some d)
  then show ?thesis using assms tier_falls_cooldown [OF assms(1) Some assms(2)]
    by (auto simp: observe_def observe_cooldown_def tier_falls_def Let_def not_le word_gt_0)
qed

text \<open>From every state a connection reaches, one observation moves the tier by at most one:
  up exactly on the fifth clear group in a row, down exactly on the first congested group
  outside cooldown, on a timeout in cooldown or on the second successive rise of the depth in
  cooldown, and never below the lowest tier.\<close>

lemma tier_moves_exact:
  assumes "tier_reach n st" "n < 2 ^ 64 - 1"
  shows "int (unat (current_index (snd (observe st ob)))) - int (unat (current_index st)) =
    (if ob_depth ob \<le> 1 then (if clear_streak st = 4 then 1 else 0)
     else if tier_falls st ob then -1 else 0)"
proof -
  have inv: "tier_inv n st" using tier_inv_reach assms by simp
  consider "ob_depth ob \<le> 1" | "1 < ob_depth ob" "0 < current_index st" | "1 < ob_depth ob" "current_index st = 0"
    by (metis not_le word_gt_0)
  then show ?thesis
  proof cases
    case 1
    with observe_clear_index(1) [OF inv assms(2)] show ?thesis by (simp add: observe_def)
  next
    case 2
    then have "1 \<le> unat (current_index st)" by (simp add: word_gt_0 Suc_le_eq unat_gt_0)
    with 2 observe_loaded_exact [OF inv 2] unat_dec [OF 2(2)] show ?thesis
      by (auto simp: of_nat_diff simp del: of_nat_unat)
  next
    case 3
    with observe_loaded_index [of ob st] show ?thesis by (auto simp: tier_falls_def)
  qed
qed

subsection \<open>Climbing the ladder\<close>

definition clear_input :: "abr_input \<Rightarrow> bool" where
  "clear_input i \<longleftrightarrow> active_stream_depth i + ai_stream_timeouts i \<le> 1"

definition after_groups :: "tier_state \<Rightarrow> abr_input list \<Rightarrow> tier_state" where
  "after_groups st is = fold (\<lambda>i st. snd (backpressure_decide st i)) is st"

lemma backpressure_decide_state:
  "snd (backpressure_decide st i) =
     clamp_to (snd (observe st (observation_new (active_stream_depth i) (ai_stream_timeouts i)))) (max_index (ai_sets i))"
  by (simp add: backpressure_decide_def Let_def)

lemma clear_decide:
  assumes "tier_inv n st" "n < 2 ^ 64 - 1" "clear_input i"
  shows "tier_inv (Suc n) (snd (backpressure_decide st i))"
    and "unat (current_index (snd (backpressure_decide st i))) =
      min (unat (max_index (ai_sets i))) (unat (current_index st) + (unat (clear_streak st) + 1) div 5)"
    and "unat (clear_streak (snd (backpressure_decide st i))) = (unat (clear_streak st) + 1) mod 5"
proof -
  have obs: "observe st (observation_new (active_stream_depth i) (ai_stream_timeouts i)) = observe_clear st"
    using assms(3) by (simp add: observe_def observation_new_def clear_input_def)
  note idx = observe_clear_index [OF assms(1,2)]
  have five: "unat (clear_streak st) < 5" using assms(1) by (simp add: tier_inv_def)
  have "clear_streak st = 4 \<longleftrightarrow> unat (clear_streak st) = 4" by (simp add: word_unat_eq_iff)
  with five have "(if clear_streak st = 4 then unat (current_index st) + 1 else unat (current_index st))
      = unat (current_index st) + (unat (clear_streak st) + 1) div 5" by auto
  then show "unat (current_index (snd (backpressure_decide st i))) =
      min (unat (max_index (ai_sets i))) (unat (current_index st) + (unat (clear_streak st) + 1) div 5)"
    using idx(1) by (simp add: backpressure_decide_state obs clamp_to_def min_def word_le_nat_alt)
  show "unat (clear_streak (snd (backpressure_decide st i))) = (unat (clear_streak st) + 1) mod 5"
    using idx(2) by (simp add: backpressure_decide_state obs clamp_to_def)
  show "tier_inv (Suc n) (snd (backpressure_decide st i))"
    using tier_inv_clamp [OF tier_inv_clear [OF assms(1,2)]] by (simp add: backpressure_decide_state obs)
qed

lemma climb_arith:
  "min m (min m (i + (s + 1) div 5) + ((s + 1) mod 5 + k) div 5) = min m (i + (s + Suc k) div 5)" for m i s k :: nat
proof -
  have "(s + Suc k) div 5 = (s + 1) div 5 + ((s + 1) mod 5 + k) div 5"
    by presburger
  then show ?thesis by (simp add: min_def)
qed

lemma climb:
  assumes "tier_inv n st" "n + length is < 2 ^ 64 - 1"
    and "\<forall>i \<in> set is. clear_input i \<and> max_index (ai_sets i) = m" "current_index st \<le> m"
  shows "unat (current_index (after_groups st is)) =
    min (unat m) (unat (current_index st) + (unat (clear_streak st) + length is) div 5)"
  using assms
proof (induction "is" arbitrary: n st)
  case Nil
  then have "unat (clear_streak st) < 5" by (simp add: tier_inv_def)
  with Nil show ?case by (simp add: after_groups_def word_le_nat_alt)
next
  case (Cons i "is")
  let ?st = "snd (backpressure_decide st i)"
  note step = clear_decide [of n st i]
  have "unat (current_index (after_groups ?st is)) =
      min (unat m) (unat (current_index ?st) + (unat (clear_streak ?st) + length is) div 5)"
    using Cons.prems step by (intro Cons.IH [of "Suc n"]) (auto simp: word_le_nat_alt)
  then show ?case
    using Cons.prems step climb_arith [of "unat m" "unat (current_index st)" "unat (clear_streak st)" "length is"]
    by (simp add: after_groups_def)
qed

text \<open>A connection that stays clear climbs to the top of its longest ladder: after five
  clear groups per tier the selector serves the highest tier, and stays there.\<close>

lemma clear_connection_reaches_top:
  assumes "\<forall>i \<in> set is. clear_input i \<and> max_index (ai_sets i) = m"
    and "5 * unat m \<le> length is" "length is < 2 ^ 64 - 1"
  shows "current_index (after_groups tier_state_default is) = m"
proof -
  have "unat (current_index (after_groups tier_state_default is)) = min (unat m) (length is div 5)"
    using climb [of 0 tier_state_default "is" m] assms
    by (simp add: tier_inv_def tier_state_default_def)
  also have "\<dots> = unat m" using assms(2) by (simp add: min_def)
  finally show ?thesis by (simp add: word_unat_eq_iff)
qed

subsection \<open>The contract\<close>

lemma select_tier_own: "select_tier tier s = Some track \<Longrightarrow> ss_active s \<and> has_track s track"
  by (auto simp: select_tier_def has_track_def Let_def split: if_splits)

lemma backpressure_valid:
  assumes "distinct_ids (ai_sets i)"
  shows "valid_selection (ai_sets i) (fst (backpressure_decide st i))"
proof -
  define f where "f = select_tier (current_index (snd (backpressure_decide st i)))"
  have sel: "fst (backpressure_decide st i) = map_of (rev (map (\<lambda>s. (ss_id s, f s)) (ai_sets i)))"
    by (simp add: f_def backpressure_decide_def Let_def)
  have "distinct (map fst (map (\<lambda>s. (ss_id s, f s)) (ai_sets i)))"
    using assms by (simp add: distinct_ids_def comp_def)
  then have "fst (backpressure_decide st i) (ss_id s) = Some (f s)" if "s \<in> set (ai_sets i)" for s
    using that by (auto simp: sel map_of_eq_Some_iff distinct_map rev_map [symmetric] intro!: map_of_is_SomeI)
  moreover have "dom (fst (backpressure_decide st i)) = ss_id ` set (ai_sets i)"
    by (auto simp: sel dom_map_of_conv_image_fst image_image)
  ultimately show ?thesis using select_tier_own by (auto simp: valid_selection_def f_def)
qed

interpretation backpressure_abr: abr_algorithm backpressure_decide
  by unfold_locales (rule backpressure_valid)

end
