(* ===== verification/Registry.thy ===== *)
theory Registry
  imports Allocate Backpressure
begin

text \<open>
  The algorithms a relay runs (\<open>libs/moqtail-ssts/src/registry.rs\<close>): the factories with their
  wire ids, and the instance a connection gets. An instance is one of the two algorithms with
  its state; it satisfies the contract of \<open>abr_algorithm\<close> because both of them do.
\<close>

abbreviation (input) PRIVATE_ALGORITHM_ID_BASE :: u64 where "PRIVATE_ALGORITHM_ID_BASE \<equiv> 0xff01"

datatype abr_factory = DefaultAlgorithmFactory | BackpressureAlgorithmFactory

datatype abr_instance = DefaultAlgorithm | BackpressureAlgorithm tier_state

fun factory_id :: "abr_factory \<Rightarrow> u64" where
  "factory_id DefaultAlgorithmFactory = 0"
| "factory_id BackpressureAlgorithmFactory = PRIVATE_ALGORITHM_ID_BASE"

fun factory_create :: "abr_factory \<Rightarrow> abr_instance" where
  "factory_create DefaultAlgorithmFactory = DefaultAlgorithm"
| "factory_create BackpressureAlgorithmFactory = BackpressureAlgorithm tier_state_default"

definition registry_factories :: "abr_factory list" where
  "registry_factories = [DefaultAlgorithmFactory, BackpressureAlgorithmFactory]"

definition registry_ids :: "u64 list" where
  "registry_ids = map factory_id registry_factories"

definition registry_get :: "u64 \<Rightarrow> abr_factory option" where
  "registry_get i = find (\<lambda>f. factory_id f = i) registry_factories"

definition registry_create :: "u64 \<Rightarrow> abr_instance option" where
  "registry_create i = map_option factory_create (registry_get i)"

fun instance_decide :: "abr_instance \<Rightarrow> abr_input \<Rightarrow> selection \<times> abr_instance" where
  "instance_decide DefaultAlgorithm i = (fst (default_decide () i), DefaultAlgorithm)"
| "instance_decide (BackpressureAlgorithm st) i =
     (case backpressure_decide st i of (sel, st') \<Rightarrow> (sel, BackpressureAlgorithm st'))"

interpretation instance_abr: abr_algorithm instance_decide
proof
  fix i :: abr_input and a
  assume "distinct_ids (ai_sets i)"
  then show "valid_selection (ai_sets i) (fst (instance_decide a i))"
    using default_abr.decide_valid [of i "()"] backpressure_abr.decide_valid [of i]
    by (cases a) (simp_all add: split_beta)
qed

text \<open>C32. The relay can create exactly the algorithms it advertises, and whatever instance it
  creates, every decision it makes over the life of a connection has an entry for each set it
  was given, no other entry, and forwards only a track of the set it decides for, for sets
  with a subscriber.\<close>

theorem registry_instances_valid:
  assumes "\<forall>i \<in> set is. distinct_ids (ai_sets i)"
  shows "(registry_create k = None \<longleftrightarrow> k \<notin> set registry_ids)
    \<and> (\<forall>a. registry_create k = Some a \<longrightarrow>
         list_all2 (\<lambda>i sel. valid_selection (ai_sets i) sel) is (abr_run instance_decide a is))"
proof -
  have "registry_create k = None \<longleftrightarrow> k \<notin> set registry_ids"
    by (auto simp: registry_create_def registry_get_def registry_ids_def registry_factories_def)
  then show ?thesis using instance_abr.run_valid [OF assms] by blast
qed

theorem registry_instances_valid_witness:
  "registry_create 0 = Some DefaultAlgorithm
   \<and> list_all2 (\<lambda>i sel. valid_selection (ai_sets i) sel)
       [\<lparr>ai_client_id = 1, ai_group_id = 0, ai_bandwidth_estimate_kbps = 0, ai_configured_cap_kbps = 0,
         ai_sets = example_sets, ai_open_streams_per_set = Map.empty, ai_stream_timeouts = 0\<rparr>]
       (abr_run instance_decide DefaultAlgorithm
         [\<lparr>ai_client_id = 1, ai_group_id = 0, ai_bandwidth_estimate_kbps = 0, ai_configured_cap_kbps = 0,
           ai_sets = example_sets, ai_open_streams_per_set = Map.empty, ai_stream_timeouts = 0\<rparr>])"
proof -
  have create: "registry_create 0 = Some DefaultAlgorithm"
    by (simp add: registry_create_def registry_get_def registry_factories_def)
  then show ?thesis
    using registry_instances_valid [of "[\<lparr>ai_client_id = 1, ai_group_id = 0, ai_bandwidth_estimate_kbps = 0,
        ai_configured_cap_kbps = 0, ai_sets = example_sets, ai_open_streams_per_set = Map.empty,
        ai_stream_timeouts = 0\<rparr>]" 0] example_sets_ok(1)
    by simp
qed

end
