(* ===== verification/Location_Filter.thy ===== *)
theory Location_Filter
  imports Locations Wire_Enums
begin

text \<open>
  Location filters (\<open>libs/moqtail-rs/src/model/parameter/location_filter.rs\<close>): the range of
  Locations a subscription or a fetch selects, how its ends resolve against the Largest
  Object, and its wire form, where the End Group is a delta from the Start Group. The wide
  (\<open>u128\<close>) arithmetic of a relative start is written over natural numbers.
\<close>

datatype location_filter =
    LF_None
  | LF_RelativeStart u64
  | LF_AbsoluteStart location
  | LF_AbsoluteStartGroupEnd location u64
  | LF_AbsoluteRange location location
  | LF_NextObject

fun lf_filter_type :: "location_filter \<Rightarrow> location_filter_type" where
  "lf_filter_type LF_None = LFT_None"
| "lf_filter_type (LF_RelativeStart _) = LFT_RelativeStart"
| "lf_filter_type (LF_AbsoluteStart _) = LFT_AbsoluteStart"
| "lf_filter_type (LF_AbsoluteStartGroupEnd _ _) = LFT_AbsoluteStartGroupEnd"
| "lf_filter_type (LF_AbsoluteRange _ _) = LFT_AbsoluteRange"
| "lf_filter_type LF_NextObject = LFT_NextObject"

fun start_location :: "location_filter \<Rightarrow> location option \<Rightarrow> location option" where
  "start_location LF_None largest = None"
| "start_location (LF_RelativeStart start_group) largest = Some (case largest of
       Some l \<Rightarrow> Location (word_of_nat (min (unat (l_group l) + 1 - unat start_group) (2 ^ 64 - 1))) 0
     | None \<Rightarrow> Location 0 0)"
| "start_location (LF_AbsoluteStart start) largest = Some start"
| "start_location (LF_AbsoluteStartGroupEnd start _) largest = Some start"
| "start_location (LF_AbsoluteRange start _) largest = Some start"
| "start_location LF_NextObject largest = Some (case largest of
       Some l \<Rightarrow> Location (l_group l) (saturating_add (l_object l) 1)
     | None \<Rightarrow> Location 0 0)"

fun end_location :: "location_filter \<Rightarrow> location option" where
  "end_location (LF_AbsoluteStartGroupEnd _ end_group) = Some (Location end_group u64_MAX)"
| "end_location (LF_AbsoluteRange _ end) = Some end"
| "end_location _ = None"

definition fetch_range :: "location_filter \<Rightarrow> location option \<Rightarrow> (location \<times> location) option" where
  "fetch_range f largest = (case largest of
       None \<Rightarrow> None
     | Some l \<Rightarrow>
         (let start = (case start_location f (Some l) of Some s \<Rightarrow> s | None \<Rightarrow> location_default);
              end = (case end_location f of Some e \<Rightarrow> (if e < l then e else l) | None \<Rightarrow> l)
          in if start \<le> end then Some (start, end) else None))"

definition lf_end_group :: "u64 \<Rightarrow> u64 \<Rightarrow> u64 res" where
  "lf_end_group start_group delta =
     ok_or (ProtocolViolation ''LocationFilter::deserialize'') (checked_add start_group delta)"

definition end_group_delta :: "u64 \<Rightarrow> u64 \<Rightarrow> u64 res" where
  "end_group_delta start_group end_group =
     ok_or (ProtocolViolation ''LocationFilter::serialize'') (checked_sub end_group start_group)"

definition put_location :: "location \<Rightarrow> bytes" where
  "put_location l = put_vi (l_group l) @ put_vi (l_object l)"

definition location_filter_serialize :: "location_filter \<Rightarrow> bytes res" where
  "location_filter_serialize f =
     rbind (case f of
         LF_None \<Rightarrow> Inr []
       | LF_NextObject \<Rightarrow> Inr []
       | LF_RelativeStart start_group \<Rightarrow> Inr (put_vi start_group)
       | LF_AbsoluteStart start \<Rightarrow> Inr (put_location start)
       | LF_AbsoluteStartGroupEnd start end_group \<Rightarrow>
           rbind (end_group_delta (l_group start) end_group) (\<lambda>d. Inr (put_location start @ put_vi d))
       | LF_AbsoluteRange start end \<Rightarrow>
           rbind (end_group_delta (l_group start) (l_group end)) (\<lambda>d.
             Inr (put_location start @ put_vi d @ put_vi (l_object end))))
       (\<lambda>fields. Inr (put_vi (location_filter_type_to_wire (lf_filter_type f)) @ fields))"

definition location_filter_fields :: "location_filter_type \<Rightarrow> location_filter parser" where
  "location_filter_fields t = (case t of
       LFT_None \<Rightarrow> preturn LF_None
     | LFT_RelativeStart \<Rightarrow> pbind get_vi (\<lambda>g. preturn (LF_RelativeStart g))
     | LFT_AbsoluteStart \<Rightarrow> pbind location_deserialize (\<lambda>s. preturn (LF_AbsoluteStart s))
     | LFT_AbsoluteStartGroupEnd \<Rightarrow>
         pbind location_deserialize (\<lambda>s.
         pbind get_vi (\<lambda>d.
         pbind (plift (lf_end_group (l_group s) d)) (\<lambda>g. preturn (LF_AbsoluteStartGroupEnd s g))))
     | LFT_AbsoluteRange \<Rightarrow>
         pbind location_deserialize (\<lambda>s.
         pbind get_vi (\<lambda>d.
         pbind (plift (lf_end_group (l_group s) d)) (\<lambda>g.
         pbind get_vi (\<lambda>ob. preturn (LF_AbsoluteRange s (Location g ob))))))
     | LFT_NextObject \<Rightarrow> preturn LF_NextObject)"

definition location_filter_deserialize :: "location_filter parser" where
  "location_filter_deserialize =
     pbind get_vi (\<lambda>raw.
     pbind (plift (map_err (\<lambda>_. ProtocolViolation ''LocationFilter::deserialize'')
                     (location_filter_type_try_from raw)))
       location_filter_fields)"

subsection \<open>The codec\<close>

text \<open>The filters that have an encoding: no End Group before the Start Group.\<close>

fun location_filter_wf :: "location_filter \<Rightarrow> bool" where
  "location_filter_wf (LF_AbsoluteStartGroupEnd start end_group) \<longleftrightarrow> l_group start \<le> end_group"
| "location_filter_wf (LF_AbsoluteRange start end) \<longleftrightarrow> l_group start \<le> l_group end"
| "location_filter_wf _ \<longleftrightarrow> True"

lemma checked_sub_add:
  "b \<le> a \<Longrightarrow> checked_sub a b = Some (a - b)"
  "b \<le> a \<Longrightarrow> checked_add b (a - b) = Some a"
  by (simp_all add: checked_sub_def checked_add_Some unat_sub word_le_nat_alt)

lemma location_filter_roundtrip:
  assumes "location_filter_wf f" "location_filter_serialize f = Inr bs"
  shows "location_filter_deserialize (bs @ rest) = (Inr f, rest)"
proof -
  let ?t = "lf_filter_type f"
  obtain fields where bs: "bs = put_vi (location_filter_type_to_wire ?t) @ fields"
    using assms(2) by (auto simp: location_filter_serialize_def rbind_Inr_iff)
  have "location_filter_fields ?t (fields @ rest) = (Inr f, rest)"
    using assms bs
    by (cases f) (auto simp: location_filter_serialize_def location_filter_fields_def rbind_Inr_iff
        put_location_def end_group_delta_def lf_end_group_def checked_sub_add)
  then show ?thesis
    by (simp add: bs location_filter_deserialize_def lft_enum.try_to)
qed

lemma location_filter_serialize_ok: "(\<exists>bs. location_filter_serialize f = Inr bs) \<longleftrightarrow> location_filter_wf f"
  by (cases f) (auto simp: location_filter_serialize_def end_group_delta_def rbind_Inr_iff ok_or_Inr_iff checked_sub_def)

interpretation lf: codec location_filter_serialize location_filter_deserialize location_filter_wf
  by unfold_locales (auto simp: location_filter_serialize_ok intro: location_filter_roundtrip)

lemma location_filter_deserialize_wf:
  assumes "location_filter_deserialize bs = (Inr f, rest)"
  shows "location_filter_wf f"
proof -
  obtain t bs' where "location_filter_fields t bs' = (Inr f, rest)"
    using assms by (auto simp: location_filter_deserialize_def pbind_Inr_iff)
  then show ?thesis
    by (cases t) (auto simp: location_filter_fields_def pbind_Inr_iff lf_end_group_def
        ok_or_Inr_iff checked_add_Some word_le_nat_alt)
qed

lemma location_filter_deserialize_consuming [simp, intro]: "consuming location_filter_deserialize"
proof -
  have "consuming (location_filter_fields t)" for t
    by (cases t) (auto simp: location_filter_fields_def intro!: consuming_pbind)
  then show ?thesis by (auto simp: location_filter_deserialize_def)
qed

subsection \<open>Properties\<close>

text \<open>A location filter serialises exactly when its End Group is not before its Start Group,
  then reads back as written; the reader yields only such filters.\<close>

lemma location_filter_wire:
  "(location_filter_wf f \<longleftrightarrow>
     (\<exists>bs. location_filter_serialize f = Inr bs
        \<and> (\<forall>rest. location_filter_deserialize (bs @ rest) = (Inr f, rest))))
   \<and> (\<forall>bs rest. location_filter_deserialize bs = (Inr f, rest) \<longrightarrow> location_filter_wf f)"
  using location_filter_serialize_ok [of f] location_filter_roundtrip [of f] location_filter_deserialize_wf by blast

lemma saturating_next_object:
  "l_object l \<noteq> u64_MAX \<Longrightarrow> l < Location (l_group l) (saturating_add (l_object l) 1)"
  using checked_add_1_None [of "l_object l"] checked_add_Some [of "l_object l" 1]
  by (auto simp: location_le_iff saturating_add_def word_less_nat_alt split: option.split)

text \<open>C37. A fetch selects exactly the Locations up to the Largest Object that the filter's own
  ends admit; a Next Object filter therefore fetches nothing, except when the Largest Object
  has the last Object ID of its group, which has no next Object.\<close>

theorem fetch_range_exact:
  "((\<exists>s e. fetch_range f largest = Some (s, e) \<and> s \<le> l \<and> l \<le> e) \<longleftrightarrow>
     (\<exists>lg. largest = Some lg \<and> l \<le> lg
        \<and> (\<forall>s. start_location f largest = Some s \<longrightarrow> s \<le> l)
        \<and> (\<forall>e. end_location f = Some e \<longrightarrow> l \<le> e)))
   \<and> (fetch_range LF_NextObject largest \<noteq> None \<longleftrightarrow>
        (\<exists>lg. largest = Some lg \<and> l_object lg = u64_MAX))"
proof
  show "(\<exists>s e. fetch_range f largest = Some (s, e) \<and> s \<le> l \<and> l \<le> e) \<longleftrightarrow>
     (\<exists>lg. largest = Some lg \<and> l \<le> lg
        \<and> (\<forall>s. start_location f largest = Some s \<longrightarrow> s \<le> l)
        \<and> (\<forall>e. end_location f = Some e \<longrightarrow> l \<le> e))"
    by (cases largest)
      (auto simp: fetch_range_def Let_def location_default_def split: option.split)
  show "fetch_range LF_NextObject largest \<noteq> None \<longleftrightarrow>
     (\<exists>lg. largest = Some lg \<and> l_object lg = u64_MAX)"
  proof (cases largest)
    case (Some lg)
    then show ?thesis
      using saturating_next_object [of lg]
      by (cases "l_object lg = u64_MAX") (auto simp: fetch_range_def location_le_iff not_le)
  qed (simp add: fetch_range_def)
qed

theorem fetch_range_exact_witness:
  "(\<exists>s e. fetch_range (LF_AbsoluteStart (Location 2 0)) (Some (Location 5 7)) = Some (s, e)
      \<and> s \<le> Location 5 7 \<and> Location 5 7 \<le> e)
   \<and> fetch_range LF_NextObject (Some (Location 5 7)) = None"
  using fetch_range_exact [of "LF_AbsoluteStart (Location 2 0)" "Some (Location 5 7)" "Location 5 7"]
  by (cases "fetch_range LF_NextObject (Some (Location 5 7))") auto

end
