(* ===== verification/Range_Filter.thy ===== *)
theory Range_Filter
  imports Varint Wire_Enums
begin

text \<open>
  Range filters (\<open>libs/moqtail-rs/src/model/parameter/range_filter.rs\<close>): sets of inclusive
  ranges over one field of an Object or a track, held as the deltas the wire carries. The
  theory relates the deltas to the ranges they stand for, and shows what the constructor, the
  validator and the codec accept.
\<close>

datatype range_filter_kind =
    RFK_Subgroup | RFK_ObjectId | RFK_Priority | RFK_ObjectProperty | RFK_TrackProperty

definition range_filter_kinds :: "range_filter_kind list" where
  "range_filter_kinds = [RFK_Subgroup, RFK_ObjectId, RFK_Priority, RFK_ObjectProperty, RFK_TrackProperty]"

fun parameter_type :: "range_filter_kind \<Rightarrow> message_parameter_type" where
  "parameter_type RFK_Subgroup = MPT_SubgroupFilter"
| "parameter_type RFK_ObjectId = MPT_ObjectIdFilter"
| "parameter_type RFK_Priority = MPT_PriorityFilter"
| "parameter_type RFK_ObjectProperty = MPT_ObjectPropertyFilter"
| "parameter_type RFK_TrackProperty = MPT_TrackPropertyFilter"

definition from_parameter_type :: "message_parameter_type \<Rightarrow> range_filter_kind option" where
  "from_parameter_type t = find (\<lambda>kind. parameter_type kind = t) range_filter_kinds"

definition has_property_type :: "range_filter_kind \<Rightarrow> bool" where
  "has_property_type kind \<longleftrightarrow> kind = RFK_ObjectProperty \<or> kind = RFK_TrackProperty"

record range =
  r_start :: u64
  r_end :: "u64 option"

definition range_contains :: "range \<Rightarrow> u64 \<Rightarrow> bool" where
  "range_contains r v \<longleftrightarrow> r_start r \<le> v \<and> (case r_end r of None \<Rightarrow> True | Some e \<Rightarrow> v \<le> e)"

datatype range_filter_error =
    Overflow
  | PriorityOutOfRange u64
  | OddPropertyType u64
  | PropertyTypeMismatch range_filter_kind
  | Unordered
  | Duplicate range_filter_kind u8 "u64 option"
  | TrackFilterOnObjects
  | TooManyRanges u64 u64

record range_filter =
  rf_set_id :: u8
  rf_property_type :: "u64 option"
  rf_deltas :: "(u64 \<times> u64 option) list"

text \<open>The loop of \<open>RangeFilter::new\<close>; \<open>i + 1 == ranges.len()\<close> is that no range is left.\<close>

fun range_deltas :: "u64 \<Rightarrow> range list \<Rightarrow> range_filter_error + (u64 \<times> u64 option) list" where
  "range_deltas prior_end [] = Inr []"
| "range_deltas prior_end (r # rs) =
     rbind (ok_or Unordered (checked_sub (r_start r) prior_end)) (\<lambda>start.
       case r_end r of
         Some end \<Rightarrow>
           rbind (ok_or Unordered (checked_sub end (r_start r))) (\<lambda>d.
           rbind (range_deltas end rs) (\<lambda>ds. Inr ((start, Some d) # ds)))
       | None \<Rightarrow> if rs = [] then Inr [(start, None)] else Inl Unordered)"

definition range_filter_new :: "u8 \<Rightarrow> u64 option \<Rightarrow> range list \<Rightarrow> range_filter_error + range_filter" where
  "range_filter_new set_id property_type ranges =
     rbind (range_deltas 0 ranges) (\<lambda>ds.
       Inr \<lparr>rf_set_id = set_id, rf_property_type = property_type, rf_deltas = ds\<rparr>)"

definition range_count :: "range_filter \<Rightarrow> nat" where
  "range_count f = length (rf_deltas f)"

fun resolve_deltas :: "u64 \<Rightarrow> (u64 \<times> u64 option) list \<Rightarrow> range_filter_error + range list" where
  "resolve_deltas prior_end [] = Inr []"
| "resolve_deltas prior_end ((start_delta, end_delta) # ds) =
     rbind (ok_or Overflow (checked_add prior_end start_delta)) (\<lambda>start.
       case end_delta of
         Some delta \<Rightarrow>
           rbind (ok_or Overflow (checked_add start delta)) (\<lambda>end.
           rbind (resolve_deltas end ds) (\<lambda>rs. Inr (\<lparr>r_start = start, r_end = Some end\<rparr> # rs)))
       | None \<Rightarrow> rbind (resolve_deltas prior_end ds) (\<lambda>rs. Inr (\<lparr>r_start = start, r_end = None\<rparr> # rs)))"

definition rf_ranges :: "range_filter \<Rightarrow> range_filter_error + range list" where
  "rf_ranges f = resolve_deltas 0 (rf_deltas f)"

definition range_bounds :: "range list \<Rightarrow> u64 list" where
  "range_bounds rs = concat (map (\<lambda>r. r_start r # (case r_end r of Some e \<Rightarrow> [e] | None \<Rightarrow> [])) rs)"

definition rf_validate :: "range_filter \<Rightarrow> range_filter_kind \<Rightarrow> range_filter_error + range list" where
  "rf_validate f kind =
     rbind (case (has_property_type kind, rf_property_type f) of
              (True, Some t) \<Rightarrow> if t mod 2 \<noteq> 0 then Inl (OddPropertyType t) else Inr ()
            | (False, None) \<Rightarrow> Inr ()
            | _ \<Rightarrow> Inl (PropertyTypeMismatch kind)) (\<lambda>_.
     rbind (rf_ranges f) (\<lambda>rs.
       case (if kind = RFK_Priority then find (\<lambda>v. 255 < v) (range_bounds rs) else None) of
         Some value \<Rightarrow> Inl (PriorityOutOfRange value)
       | None \<Rightarrow> Inr rs))"

fun put_deltas :: "(u64 \<times> u64 option) list \<Rightarrow> bytes res" where
  "put_deltas [] = Inr []"
| "put_deltas ((start, end) # ds) =
     rbind (case end of
              Some e \<Rightarrow> Inr (put_vi start @ put_vi e)
            | None \<Rightarrow> if ds = [] then Inr (put_vi start)
                      else Inl (ProtocolViolation ''RangeFilter::serialize'')) (\<lambda>b.
     rbind (put_deltas ds) (\<lambda>bs. Inr (b @ bs)))"

definition range_filter_serialize :: "range_filter \<Rightarrow> bytes res" where
  "range_filter_serialize f =
     rbind (put_deltas (rf_deltas f)) (\<lambda>bs.
       Inr ([rf_set_id f] @ (case rf_property_type f of Some t \<Rightarrow> put_vi t | None \<Rightarrow> []) @ bs))"

definition read_delta :: "(u64 \<times> u64 option) parser" where
  "read_delta =
     pbind get_vi (\<lambda>start.
     pbind remaining (\<lambda>n.
       if n = 0 then preturn (start, None)
       else pbind get_vi (\<lambda>e. preturn (start, Some e))))"

lemma read_delta_progressing: "progressing read_delta"
  unfolding read_delta_def by (rule progressing_pbind) (auto intro!: consuming_pbind)

function read_deltas :: "(u64 \<times> u64 option) list parser" where
  "read_deltas bs =
     (if bs = [] then (Inr [], [])
      else case read_delta bs of
             (Inl e, bs') \<Rightarrow> (Inl e, bs')
           | (Inr d, bs') \<Rightarrow>
               (case read_deltas bs' of (Inl e, bs'') \<Rightarrow> (Inl e, bs'') | (Inr ds, bs'') \<Rightarrow> (Inr (d # ds), bs'')))"
  by pat_completeness auto
termination
  by (relation "measure length")
     (auto dest!: sym [of _ "read_delta _"] read_delta_progressing [unfolded progressing_def, rule_format])

declare read_deltas.simps [simp del]

definition range_filter_deserialize :: "range_filter_kind \<Rightarrow> range_filter parser" where
  "range_filter_deserialize kind =
     pbind (get_u8_checked ''RangeFilter::deserialize(SetID)'') (\<lambda>set_id.
     pbind (if has_property_type kind then pbind get_vi (\<lambda>t. preturn (Some t)) else preturn None) (\<lambda>property_type.
     pbind read_deltas (\<lambda>ds.
       preturn \<lparr>rf_set_id = set_id, rf_property_type = property_type, rf_deltas = ds\<rparr>)))"

subsection \<open>Ranges and deltas\<close>

text \<open>Ranges that ascend from \<open>p\<close>, of which only the last may be open.\<close>

fun ascending_ranges :: "u64 \<Rightarrow> range list \<Rightarrow> bool" where
  "ascending_ranges p [] \<longleftrightarrow> True"
| "ascending_ranges p (r # rs) \<longleftrightarrow> p \<le> r_start r \<and>
     (case r_end r of None \<Rightarrow> rs = [] | Some e \<Rightarrow> r_start r \<le> e \<and> ascending_ranges e rs)"

fun open_last :: "(u64 \<times> u64 option) list \<Rightarrow> bool" where
  "open_last [] \<longleftrightarrow> True"
| "open_last ((s, e) # ds) \<longleftrightarrow> (e = None \<longrightarrow> ds = []) \<and> open_last ds"

lemma checked_sub_iff: "checked_sub a b = Some d \<longleftrightarrow> checked_add b d = Some a"
  by (simp add: checked_sub_Some checked_add_Some)

lemma checked_sub_ok: "(\<exists>d. checked_sub a b = Some d) \<longleftrightarrow> b \<le> a"
  by (simp add: checked_sub_def)

lemma range_deltas_iff:
  "range_deltas p rs = Inr ds \<longleftrightarrow> open_last ds \<and> resolve_deltas p ds = Inr rs"
proof (induction rs arbitrary: p ds)
  case Nil
  show ?case by (cases ds) (auto simp: rbind_Inr_iff split: option.splits)
next
  case (Cons r rs)
  show ?case
  proof (cases "r_end r")
    case None
    then show ?thesis
      by (cases ds; cases r) (auto simp: rbind_Inr_iff ok_or_Inr_iff checked_sub_iff split: option.splits)
  next
    case (Some e)
    then show ?thesis
      by (cases ds; cases r) (auto simp: rbind_Inr_iff ok_or_Inr_iff checked_sub_iff Cons.IH split: option.splits)
  qed
qed

lemma range_deltas_ok: "(\<exists>ds. range_deltas p rs = Inr ds) \<longleftrightarrow> ascending_ranges p rs"
proof (induction rs arbitrary: p)
  case (Cons r rs)
  then show ?case
    by (cases "r_end r") (auto simp: rbind_Inr_iff ok_or_Inr_iff simp flip: checked_sub_ok)
qed simp

subsection \<open>The codec\<close>

lemma read_deltas_put_deltas:
  assumes "open_last ds"
  shows "\<exists>bs. put_deltas ds = Inr bs \<and> read_deltas bs = (Inr ds, [])"
  using assms
proof (induction ds)
  case Nil
  then show ?case by (simp add: read_deltas.simps)
next
  case (Cons d ds)
  obtain start e where d: "d = (start, e)" by (cases d)
  have nonempty: "put_vi start \<noteq> []" using length_put_vi [of start] minimal_vi_length_range [of start] by auto
  show ?case
  proof (cases e)
    case None
    with Cons.prems d nonempty show ?thesis
      using vi_chain [of _ start "[]"]
      by (subst read_deltas.simps) (simp add: read_delta_def read_deltas.simps [of "[]"] remaining_def)
  next
    case (Some e')
    from Cons obtain bs where bs: "put_deltas ds = Inr bs" "read_deltas bs = (Inr ds, [])"
      by (auto simp: d)
    have "put_vi e' \<noteq> []" using length_put_vi [of e'] minimal_vi_length_range [of e'] by auto
    then have "read_delta (put_vi start @ put_vi e' @ bs) = (Inr (start, Some e'), bs)"
      by (simp add: read_delta_def pbind_def [of remaining] remaining_def)
    with bs d Some nonempty show ?thesis by (subst read_deltas.simps) simp
  qed
qed

lemma read_deltas_open_last: "read_deltas bs = (Inr ds, rest) \<Longrightarrow> open_last ds \<and> rest = []"
proof (induction bs arbitrary: ds rest rule: read_deltas.induct)
  case (1 bs)
  show ?case
  proof (cases "bs = []")
    case True
    with "1.prems" show ?thesis by (simp add: read_deltas.simps)
  next
    case False
    with "1.prems" obtain d bs' ds' where
      d: "read_delta bs = (Inr d, bs')" and ds: "read_deltas bs' = (Inr ds', rest)" "ds = d # ds'"
      by (subst (asm) read_deltas.simps) (auto split: prod.splits sum.splits)
    have "snd d = None \<longrightarrow> bs' = []"
      using d by (auto simp: read_delta_def pbind_Inr_iff remaining_def split: if_splits)
    with "1.IH" [OF False d [symmetric] refl ds(1)] ds show ?thesis
      by (cases d) (auto simp: read_deltas.simps)
  qed
qed

definition range_filter_wf :: "range_filter_kind \<Rightarrow> range_filter \<Rightarrow> bool" where
  "range_filter_wf kind f \<longleftrightarrow> has_property_type kind = (rf_property_type f \<noteq> None) \<and> open_last (rf_deltas f)"

lemma range_filter_roundtrip:
  assumes "range_filter_wf kind f"
  shows "\<exists>bs. range_filter_serialize f = Inr bs \<and> bs \<noteq> [] \<and> range_filter_deserialize kind bs = (Inr f, [])"
proof -
  from assms obtain bs where "put_deltas (rf_deltas f) = Inr bs" "read_deltas bs = (Inr (rf_deltas f), [])"
    using read_deltas_put_deltas by (auto simp: range_filter_wf_def)
  with assms show ?thesis
    by (auto simp: range_filter_serialize_def range_filter_deserialize_def range_filter_wf_def
        pbind_def [of "pbind _ _"] pbind_def [of "get_u8_checked _"])
qed

lemma range_filter_deserialize_wf:
  "range_filter_deserialize kind bs = (Inr f, rest) \<Longrightarrow> range_filter_wf kind f"
  by (auto simp: range_filter_deserialize_def range_filter_wf_def pbind_Inr_iff
      dest: read_deltas_open_last split: if_splits)

lemma range_filter_new_iff:
  "range_filter_new set_id pt rs = Inr f \<longleftrightarrow>
     rf_set_id f = set_id \<and> rf_property_type f = pt \<and> open_last (rf_deltas f) \<and> rf_ranges f = Inr rs"
  by (cases f) (auto simp: range_filter_new_def rf_ranges_def rbind_Inr_iff range_deltas_iff)

lemma range_filter_new_ok: "(\<exists>f. range_filter_new set_id pt rs = Inr f) \<longleftrightarrow> ascending_ranges 0 rs"
  using range_deltas_ok [of 0 rs] by (auto simp: range_filter_new_def rbind_Inr_iff)

subsection \<open>Properties\<close>

text \<open>A range filter can be built exactly from ascending ranges of which at most the last is
  open. It then serialises, reads back as written for its kind and resolves to the ranges it
  was built from; conversely every filter that was read resolves to ascending ranges or
  overflows.\<close>

lemma range_filter_carries_ranges:
  "((\<exists>f. range_filter_new set_id pt rs = Inr f) \<longleftrightarrow> ascending_ranges 0 rs)
   \<and> (range_filter_new set_id pt rs = Inr f \<and> has_property_type kind = (pt \<noteq> None) \<longrightarrow>
        rf_ranges f = Inr rs
        \<and> (\<exists>bs. range_filter_serialize f = Inr bs \<and> range_filter_deserialize kind bs = (Inr f, [])))
   \<and> (range_filter_deserialize kind input = (Inr f, rest) \<longrightarrow>
        (case rf_ranges f of Inr rs' \<Rightarrow> ascending_ranges 0 rs' | Inl e \<Rightarrow> e = Overflow))"
proof (intro conjI impI)
  show "(\<exists>f. range_filter_new set_id pt rs = Inr f) \<longleftrightarrow> ascending_ranges 0 rs"
    by (rule range_filter_new_ok)
next
  assume "range_filter_new set_id pt rs = Inr f \<and> has_property_type kind = (pt \<noteq> None)"
  then have "rf_ranges f = Inr rs" "range_filter_wf kind f"
    by (auto simp: range_filter_new_iff range_filter_wf_def)
  with range_filter_roundtrip show "rf_ranges f = Inr rs"
    and "\<exists>bs. range_filter_serialize f = Inr bs \<and> range_filter_deserialize kind bs = (Inr f, [])" by blast+
next
  assume "range_filter_deserialize kind input = (Inr f, rest)"
  then have "open_last (rf_deltas f)" using range_filter_deserialize_wf by (auto simp: range_filter_wf_def)
  moreover have "resolve_deltas p ds = Inl e \<Longrightarrow> e = Overflow" for p ds e
    by (induction p ds rule: resolve_deltas.induct)
      (auto simp: rbind_def ok_or_def split: option.splits sum.splits)
  ultimately show "case rf_ranges f of Inr rs' \<Rightarrow> ascending_ranges 0 rs' | Inl e \<Rightarrow> e = Overflow"
    using range_filter_new_iff [of "rf_set_id f" "rf_property_type f" _ f] range_filter_new_ok
    by (auto simp: rf_ranges_def split: sum.split) blast
qed

text \<open>Validating a filter for a kind succeeds exactly when the Property Type is present for
  the property kinds only and even, no bound overflows, and a priority filter stays within
  one byte; then the result is the ranges.\<close>

lemma rf_validate_exact:
  "rf_validate f kind = Inr rs \<longleftrightarrow>
     rf_ranges f = Inr rs
     \<and> has_property_type kind = (rf_property_type f \<noteq> None)
     \<and> (\<forall>t. rf_property_type f = Some t \<longrightarrow> even t)
     \<and> (kind = RFK_Priority \<longrightarrow> (\<forall>r \<in> set rs. r_start r \<le> 255 \<and> (\<forall>e. r_end r = Some e \<longrightarrow> e \<le> 255)))"
proof -
  have bounds: "find (\<lambda>v. 255 < v) (range_bounds rs) = None \<longleftrightarrow>
      (\<forall>r \<in> set rs. r_start r \<le> 255 \<and> (\<forall>e. r_end r = Some e \<longrightarrow> e \<le> 255))" for rs
    by (fastforce simp: find_None_iff range_bounds_def not_less split: option.splits)
  show ?thesis
    by (cases "has_property_type kind"; cases "rf_property_type f"; cases "kind = RFK_Priority")
      (auto simp: rf_validate_def rbind_Inr_iff bounds even_iff_mod_2_eq_zero
        simp flip: bounds split: if_splits option.splits)
qed

end
