(* ===== verification/Message_Parameter.thy ===== *)
theory Message_Parameter
  imports Pair Names Location_Filter Range_Filter
begin

text \<open>
  Message parameters (\<open>libs/moqtail-rs/src/model/parameter/message_parameter.rs\<close> and
  \<open>authorization_token.rs\<close>): the typed parameters of control messages, which message may
  carry which, their wire form (types delta-encoded and ascending, the layout of a value
  chosen by its type) and the update of a parameter list. FILL_PARAMETERS holds parameters
  of its own; the source recurses into itself to read them, after refusing every type that
  is not allowed there, so the inner call never meets another FILL_PARAMETERS. The reader is
  therefore written in two layers, and \<open>mp_deserialize_fill_type\<close> shows that the layers agree on every
  type the loop lets through. Capacity hints of \<open>Vec::with_capacity\<close> are not modelled.
\<close>

subsection \<open>Authorization tokens\<close>

record authorization_token =
  at_alias_type :: u64
  at_token_alias :: "u64 option"
  at_token_type :: "u64 option"
  at_token_value :: "bytes option"

definition token_new_delete :: "u64 \<Rightarrow> authorization_token" where
  "token_new_delete a = \<lparr>at_alias_type = token_alias_type_to_wire TAT_Delete, at_token_alias = Some a,
     at_token_type = None, at_token_value = None\<rparr>"

definition token_new_register :: "u64 \<Rightarrow> u64 \<Rightarrow> bytes \<Rightarrow> authorization_token" where
  "token_new_register a t v = \<lparr>at_alias_type = token_alias_type_to_wire TAT_Register, at_token_alias = Some a,
     at_token_type = Some t, at_token_value = Some v\<rparr>"

definition token_new_use_alias :: "u64 \<Rightarrow> authorization_token" where
  "token_new_use_alias a = \<lparr>at_alias_type = token_alias_type_to_wire TAT_UseAlias, at_token_alias = Some a,
     at_token_type = None, at_token_value = None\<rparr>"

definition token_new_use_value :: "u64 \<Rightarrow> bytes \<Rightarrow> authorization_token" where
  "token_new_use_value t v = \<lparr>at_alias_type = token_alias_type_to_wire TAT_UseValue, at_token_alias = None,
     at_token_type = Some t, at_token_value = Some v\<rparr>"

definition token_serialize :: "authorization_token \<Rightarrow> bytes res" where
  "token_serialize tok =
     (let x = at_alias_type tok;
          alias_only = (case at_token_alias tok of Some a \<Rightarrow> put_vi a | None \<Rightarrow> [])
      in rbind
        (if x = token_alias_type_to_wire TAT_Delete then Inr alias_only
         else if x = token_alias_type_to_wire TAT_Register
         then Inr (case (at_token_alias tok, at_token_type tok, at_token_value tok) of
                     (Some a, Some t, Some v) \<Rightarrow> put_vi a @ put_vi t @ v | _ \<Rightarrow> [])
         else if x = token_alias_type_to_wire TAT_UseAlias then Inr alias_only
         else if x = token_alias_type_to_wire TAT_UseValue
         then Inr (case (at_token_type tok, at_token_value tok) of
                     (Some t, Some v) \<Rightarrow> put_vi t @ v | _ \<Rightarrow> [])
         else Inl (InvalidType ''AuthorizationToken::serialize: unknown alias_type''))
        (\<lambda>fields. Inr (put_vi x @ fields)))"

text \<open>\<open>buf.clone()\<close>: what is left, without consuming it.\<close>

definition peek_rest :: "bytes parser" where
  "peek_rest = (\<lambda>bs. (Inr bs, bs))"

definition token_deserialize :: "authorization_token parser" where
  "token_deserialize =
     pbind get_vi (\<lambda>raw.
     pbind (plift (token_alias_type_try_from raw)) (\<lambda>alias_type.
       case alias_type of
         TAT_Delete \<Rightarrow> pbind get_vi (\<lambda>a. preturn (token_new_delete a))
       | TAT_Register \<Rightarrow> pbind get_vi (\<lambda>a. pbind get_vi (\<lambda>t.
           pbind peek_rest (\<lambda>v. preturn (token_new_register a t v))))
       | TAT_UseAlias \<Rightarrow> pbind get_vi (\<lambda>a. preturn (token_new_use_alias a))
       | TAT_UseValue \<Rightarrow> pbind get_vi (\<lambda>t. pbind peek_rest (\<lambda>v. preturn (token_new_use_value t v)))))"

subsection \<open>Parameters\<close>

datatype message_parameter =
    MP_ObjectDeliveryTimeout u64
  | MP_SubgroupDeliveryTimeout u64
  | MP_RendezvousTimeout u64
  | MP_FillTimeout u64
  | MP_AuthorizationToken authorization_token
  | MP_Expires u64
  | MP_LargestObject location
  | MP_Forward bool
  | MP_SubscriberPriority u8
  | MP_GroupOrder group_order
  | MP_LocationFilter location_filter
  | MP_SwitchFrom u64 switch_mode bool
  | MP_FillParameters "message_parameter list"
  | MP_RangeFilter range_filter_kind "range_filter option"
  | MP_NewGroupRequest u64
  | MP_TrackNamespacePrefix tuple
  | MP_IncludeProperties bool
  | MP_SwitchingSetAssignment u64 u64 u64 u64 u64 u8

fun mp_type :: "message_parameter \<Rightarrow> message_parameter_type" where
  "mp_type (MP_ObjectDeliveryTimeout _) = MPT_ObjectDeliveryTimeout"
| "mp_type (MP_SubgroupDeliveryTimeout _) = MPT_SubgroupDeliveryTimeout"
| "mp_type (MP_RendezvousTimeout _) = MPT_RendezvousTimeout"
| "mp_type (MP_FillTimeout _) = MPT_FillTimeout"
| "mp_type (MP_AuthorizationToken _) = MPT_AuthorizationToken"
| "mp_type (MP_Expires _) = MPT_Expires"
| "mp_type (MP_LargestObject _) = MPT_LargestObject"
| "mp_type (MP_Forward _) = MPT_Forward"
| "mp_type (MP_SubscriberPriority _) = MPT_SubscriberPriority"
| "mp_type (MP_GroupOrder _) = MPT_GroupOrder"
| "mp_type (MP_LocationFilter _) = MPT_LocationFilter"
| "mp_type (MP_SwitchFrom _ _ _) = MPT_SwitchFrom"
| "mp_type (MP_FillParameters _) = MPT_FillParameters"
| "mp_type (MP_RangeFilter kind _) = parameter_type kind"
| "mp_type (MP_NewGroupRequest _) = MPT_NewGroupRequest"
| "mp_type (MP_TrackNamespacePrefix _) = MPT_TrackNamespacePrefix"
| "mp_type (MP_IncludeProperties _) = MPT_IncludeProperties"
| "mp_type (MP_SwitchingSetAssignment _ _ _ _ _ _) = MPT_SwitchingSetAssignment"

abbreviation mpt_wire :: "message_parameter_type \<Rightarrow> u64" where
  "mpt_wire \<equiv> message_parameter_type_to_wire"

definition type_value :: "message_parameter \<Rightarrow> u64" where
  "type_value p = mpt_wire (mp_type p)"

fun is_valid_for :: "message_parameter \<Rightarrow> control_message_type \<Rightarrow> bool" where
  "is_valid_for (MP_AuthorizationToken _) m \<longleftrightarrow> m \<in> {CMT_Publish, CMT_Subscribe, CMT_RequestUpdate,
     CMT_SubscribeNamespace, CMT_SubscribeTracks, CMT_PublishNamespace, CMT_TrackStatus, CMT_Fetch}"
| "is_valid_for (MP_ObjectDeliveryTimeout _) m \<longleftrightarrow> m \<in> {CMT_Subscribe, CMT_Publish, CMT_RequestUpdate}"
| "is_valid_for (MP_SubgroupDeliveryTimeout _) m \<longleftrightarrow> m \<in> {CMT_Subscribe, CMT_Publish, CMT_RequestUpdate}"
| "is_valid_for (MP_RendezvousTimeout _) m \<longleftrightarrow> m = CMT_Subscribe"
| "is_valid_for (MP_FillTimeout _) m \<longleftrightarrow> m = CMT_Fetch"
| "is_valid_for (MP_SubscriberPriority _) m \<longleftrightarrow> m \<in> {CMT_Subscribe, CMT_Publish, CMT_Fetch, CMT_RequestUpdate}"
| "is_valid_for (MP_GroupOrder _) m \<longleftrightarrow> m \<in> {CMT_Subscribe, CMT_SubscribeTracks, CMT_Fetch, CMT_Publish}"
| "is_valid_for (MP_LocationFilter _) m \<longleftrightarrow>
     m \<in> {CMT_Subscribe, CMT_Fetch, CMT_Publish, CMT_SubscribeTracks, CMT_RequestUpdate}"
| "is_valid_for (MP_FillParameters _) m \<longleftrightarrow> m \<in> {CMT_Subscribe, CMT_SubscribeTracks, CMT_RequestUpdate}"
| "is_valid_for (MP_SwitchFrom _ _ _) m \<longleftrightarrow> m \<in> {CMT_Subscribe, CMT_RequestUpdate}"
| "is_valid_for (MP_Expires _) m \<longleftrightarrow> m \<in> {CMT_SubscribeOk, CMT_Publish, CMT_PublishOk, CMT_RequestOk}"
| "is_valid_for (MP_LargestObject _) m \<longleftrightarrow> m \<in> {CMT_SubscribeOk, CMT_Publish, CMT_FetchOk, CMT_RequestOk}"
| "is_valid_for (MP_Forward _) m \<longleftrightarrow>
     m \<in> {CMT_Subscribe, CMT_RequestUpdate, CMT_Publish, CMT_SubscribeNamespace, CMT_SubscribeTracks}"
| "is_valid_for (MP_NewGroupRequest _) m \<longleftrightarrow> m \<in> {CMT_Subscribe, CMT_RequestUpdate}"
| "is_valid_for (MP_IncludeProperties _) m \<longleftrightarrow> m \<in> {CMT_Subscribe, CMT_TrackStatus, CMT_Fetch, CMT_SubscribeTracks}"
| "is_valid_for (MP_RangeFilter kind _) m \<longleftrightarrow>
     (if kind = RFK_TrackProperty then m \<in> {CMT_SubscribeTracks, CMT_RequestUpdate}
      else m \<in> {CMT_Subscribe, CMT_Fetch, CMT_SubscribeTracks, CMT_RequestUpdate})"
| "is_valid_for (MP_TrackNamespacePrefix _) m \<longleftrightarrow> m = CMT_RequestUpdate"
| "is_valid_for (MP_SwitchingSetAssignment _ _ _ _ _ _) m \<longleftrightarrow>
     m \<in> {CMT_PublishOk, CMT_RequestOk, CMT_Subscribe, CMT_RequestUpdate}"

datatype value_shape = VS_VarInt | VS_Uint8 | VS_BareLocation | VS_LocationFilter | VS_LengthPrefixedBytes

definition is_object_range_filter :: "u64 \<Rightarrow> bool" where
  "is_object_range_filter t \<longleftrightarrow> t = mpt_wire MPT_SubgroupFilter \<or> t = mpt_wire MPT_ObjectIdFilter
     \<or> t = mpt_wire MPT_PriorityFilter \<or> t = mpt_wire MPT_ObjectPropertyFilter"

definition is_valid_fill_parameter :: "u64 \<Rightarrow> bool" where
  "is_valid_fill_parameter t \<longleftrightarrow> t = mpt_wire MPT_FillTimeout \<or> t = mpt_wire MPT_SubscriberPriority
     \<or> t = mpt_wire MPT_LocationFilter \<or> t = mpt_wire MPT_GroupOrder \<or> is_object_range_filter t"

definition value_shape_of :: "u64 \<Rightarrow> value_shape" where
  "value_shape_of t =
     (if t = mpt_wire MPT_Forward \<or> t = mpt_wire MPT_SubscriberPriority
         \<or> t = mpt_wire MPT_GroupOrder \<or> t = mpt_wire MPT_IncludeProperties then VS_Uint8
      else if t = mpt_wire MPT_LargestObject then VS_BareLocation
      else if t = mpt_wire MPT_LocationFilter then VS_LocationFilter
      else if t = mpt_wire MPT_TrackNamespacePrefix \<or> t = mpt_wire MPT_SwitchFrom
         \<or> is_object_range_filter t \<or> t = mpt_wire MPT_TrackPropertyFilter then VS_LengthPrefixedBytes
      else if is_multiple_of_2 t then VS_VarInt
      else VS_LengthPrefixedBytes)"

definition read_message_parameter_value :: "u64 \<Rightarrow> key_value_pair parser" where
  "read_message_parameter_value t = (case value_shape_of t of
       VS_Uint8 \<Rightarrow> pbind (get_u8_checked ''read_message_parameter_value(uint8)'') (\<lambda>b. preturn (KVarInt t (ucast b)))
     | VS_BareLocation \<Rightarrow> pbind get_vi (\<lambda>g. pbind get_vi (\<lambda>ob. plift (kvp_new_bytes t (put_vi g @ put_vi ob))))
     | VS_LocationFilter \<Rightarrow> pbind location_filter_deserialize (\<lambda>f.
         plift (rbind (location_filter_serialize f) (kvp_new_bytes t)))
     | VS_LengthPrefixedBytes \<Rightarrow> deserialize_bytes_value t
     | VS_VarInt \<Rightarrow> pbind get_vi (\<lambda>v. preturn (KVarInt t v)))"

definition put_parameter_value :: "key_value_pair \<Rightarrow> bytes res" where
  "put_parameter_value kvp = (case (value_shape_of (get_type kvp), kvp) of
       (VS_Uint8, KVarInt _ v) \<Rightarrow>
         if v < 256 then Inr [ucast v] else Inl (ProtocolViolation ''serialize_message_parameters'')
     | (VS_BareLocation, KBytes _ b) \<Rightarrow> Inr b
     | (VS_LocationFilter, KBytes _ b) \<Rightarrow> Inr b
     | (_, KVarInt _ v) \<Rightarrow> Inr (put_vi v)
     | (_, KBytes _ b) \<Rightarrow> Inr (put_vi (word_of_nat (length b)) @ b))"

fun put_parameters :: "u64 \<Rightarrow> key_value_pair list \<Rightarrow> bytes res" where
  "put_parameters prev_type [] = Inr []"
| "put_parameters prev_type (kvp # kvps) =
     rbind (ok_or (ProtocolViolation ''serialize_message_parameters'') (checked_sub (get_type kvp) prev_type)) (\<lambda>d.
     rbind (put_parameter_value kvp) (\<lambda>b.
     rbind (put_parameters (get_type kvp) kvps) (\<lambda>bs. Inr (put_vi d @ b @ bs))))"

definition write_parameters :: "key_value_pair list \<Rightarrow> bytes res" where
  "write_parameters kvps = put_parameters 0 (sort_key get_type kvps)"

abbreviation (input) SWITCH_FROM_PUBLISH_DONE :: u8 where "SWITCH_FROM_PUBLISH_DONE \<equiv> 0x80"

fun mp_try_into :: "message_parameter \<Rightarrow> key_value_pair res" where
  "mp_try_into (MP_ObjectDeliveryTimeout v) = kvp_try_new_varint (mpt_wire MPT_ObjectDeliveryTimeout) v"
| "mp_try_into (MP_SubgroupDeliveryTimeout v) = kvp_try_new_varint (mpt_wire MPT_SubgroupDeliveryTimeout) v"
| "mp_try_into (MP_RendezvousTimeout v) = kvp_try_new_varint (mpt_wire MPT_RendezvousTimeout) v"
| "mp_try_into (MP_FillTimeout v) = kvp_try_new_varint (mpt_wire MPT_FillTimeout) v"
| "mp_try_into (MP_Expires v) = kvp_try_new_varint (mpt_wire MPT_Expires) v"
| "mp_try_into (MP_Forward forward) = kvp_try_new_varint (mpt_wire MPT_Forward) (if forward then 1 else 0)"
| "mp_try_into (MP_IncludeProperties inc) = Inr (KVarInt (mpt_wire MPT_IncludeProperties) (if inc then 1 else 0))"
| "mp_try_into (MP_SubscriberPriority p) = kvp_try_new_varint (mpt_wire MPT_SubscriberPriority) (ucast p)"
| "mp_try_into (MP_GroupOrder ord) = kvp_try_new_varint (mpt_wire MPT_GroupOrder) (ucast (group_order_to_wire ord))"
| "mp_try_into (MP_NewGroupRequest g) = kvp_try_new_varint (mpt_wire MPT_NewGroupRequest) g"
| "mp_try_into (MP_AuthorizationToken tok) =
     rbind (token_serialize tok) (kvp_try_new_bytes (mpt_wire MPT_AuthorizationToken))"
| "mp_try_into (MP_LargestObject l) = kvp_try_new_bytes (mpt_wire MPT_LargestObject) (put_location l)"
| "mp_try_into (MP_FillParameters ps) =
     (if \<exists>p \<in> set ps. \<not> is_valid_fill_parameter (type_value p)
      then Inl (ProtocolViolation ''MessageParameter::try_into(FillParameters)'')
      else rbind (collect_results (map mp_try_into ps)) (\<lambda>kvps.
           rbind (write_parameters kvps) (\<lambda>bs.
             kvp_try_new_bytes (mpt_wire MPT_FillParameters) (put_vi (word_of_nat (length ps)) @ bs))))"
| "mp_try_into (MP_SwitchFrom request_id mode publish_done) =
     kvp_new_bytes (mpt_wire MPT_SwitchFrom)
       (put_vi request_id @ put_vi (switch_mode_to_wire mode) @ [if publish_done then SWITCH_FROM_PUBLISH_DONE else 0])"
| "mp_try_into (MP_SwitchingSetAssignment sid alg threshold weight activate rnk) =
     kvp_try_new_bytes (mpt_wire MPT_SwitchingSetAssignment)
       (put_vi sid @ put_vi alg @ put_vi threshold @ put_vi weight @ put_vi activate @ [rnk])"
| "mp_try_into (MP_LocationFilter f) =
     rbind (location_filter_serialize f) (kvp_new_bytes (mpt_wire MPT_LocationFilter))"
| "mp_try_into (MP_RangeFilter kind filt) =
     rbind (case filt of
              Some f \<Rightarrow> if has_property_type kind \<noteq> (rf_property_type f \<noteq> None)
                        then Inl (ProtocolViolation ''MessageParameter::try_into(RangeFilter)'')
                        else range_filter_serialize f
            | None \<Rightarrow> Inr [])
       (kvp_new_bytes (mpt_wire (parameter_type kind)))"
| "mp_try_into (MP_TrackNamespacePrefix prefix) =
     rbind (tuple_serialize prefix) (kvp_new_bytes (mpt_wire MPT_TrackNamespacePrefix))"

definition serialize_message_parameters :: "message_parameter list \<Rightarrow> bytes res" where
  "serialize_message_parameters ps = rbind (collect_results (map mp_try_into ps)) write_parameters"

definition mp_serialize :: "message_parameter \<Rightarrow> bytes res" where
  "mp_serialize p = serialize_message_parameters [p]"

subsection \<open>Reading parameters\<close>

definition mp_of_varint :: "message_parameter_type \<Rightarrow> u64 \<Rightarrow> message_parameter res" where
  "mp_of_varint t v = (case t of
       MPT_ObjectDeliveryTimeout \<Rightarrow> Inr (MP_ObjectDeliveryTimeout v)
     | MPT_SubgroupDeliveryTimeout \<Rightarrow> Inr (MP_SubgroupDeliveryTimeout v)
     | MPT_RendezvousTimeout \<Rightarrow> Inr (MP_RendezvousTimeout v)
     | MPT_FillTimeout \<Rightarrow> Inr (MP_FillTimeout v)
     | MPT_Expires \<Rightarrow> Inr (MP_Expires v)
     | MPT_Forward \<Rightarrow>
         if v = 0 then Inr (MP_Forward False)
         else if v = 1 then Inr (MP_Forward True)
         else Inl (ProtocolViolation ''MessageParameter::deserialize'')
     | MPT_IncludeProperties \<Rightarrow>
         if v = 0 then Inr (MP_IncludeProperties False)
         else if v = 1 then Inr (MP_IncludeProperties True)
         else Inl (ProtocolViolation ''MessageParameter::deserialize'')
     | MPT_SubscriberPriority \<Rightarrow>
         if 255 < v then Inl (ProtocolViolation ''MessageParameter::deserialize'')
         else Inr (MP_SubscriberPriority (ucast v))
     | MPT_GroupOrder \<Rightarrow>
         if v = 0 then Inr (MP_GroupOrder GO_Original)
         else if v = 1 then Inr (MP_GroupOrder GO_Ascending)
         else if v = 2 then Inr (MP_GroupOrder GO_Descending)
         else Inl (ProtocolViolation ''MessageParameter::deserialize'')
     | MPT_NewGroupRequest \<Rightarrow> Inr (MP_NewGroupRequest v)
     | _ \<Rightarrow> Inl (ProtocolViolation ''MessageParameter::deserialize''))"

text \<open>\<open>payload.has_remaining()\<close> after the fields of a value.\<close>

definition no_excess :: "parse_error \<Rightarrow> unit parser" where
  "no_excess e = pbind remaining (\<lambda>n. if n = 0 then preturn () else pfail e)"

definition read_track_namespace_prefix :: "message_parameter parser" where
  "read_track_namespace_prefix =
     pbind tuple_deserialize (\<lambda>prefix.
     pbind (no_excess (KeyValueFormattingError ''MessageParameter::deserialize(TrackNamespacePrefix)'')) (\<lambda>_.
       preturn (MP_TrackNamespacePrefix prefix)))"

definition read_switch_from :: "message_parameter parser" where
  "read_switch_from =
     pbind get_vi (\<lambda>request_id.
     pbind get_vi (\<lambda>raw.
     pbind (plift (switch_mode_try_from raw)) (\<lambda>mode.
     pbind (get_u8_checked ''MessageParameter::deserialize(SwitchFrom flags)'') (\<lambda>flags.
       if flags AND NOT SWITCH_FROM_PUBLISH_DONE \<noteq> 0
       then pfail (ProtocolViolation ''MessageParameter::deserialize'')
       else pbind (no_excess (KeyValueFormattingError ''MessageParameter::deserialize(SwitchFrom)'')) (\<lambda>_.
         preturn (MP_SwitchFrom request_id mode (flags AND SWITCH_FROM_PUBLISH_DONE \<noteq> 0)))))))"

definition read_rank :: "u8 parser" where
  "read_rank = (\<lambda>bs. case bs of [] \<Rightarrow> (Inr 0, []) | b # bs' \<Rightarrow> (Inr b, bs'))"

definition read_switching_set :: "message_parameter parser" where
  "read_switching_set =
     pbind get_vi (\<lambda>sid.
     pbind get_vi (\<lambda>alg.
     pbind get_vi (\<lambda>threshold.
     pbind get_vi (\<lambda>weight.
       if \<not> (1 \<le> weight \<and> weight \<le> 10)
       then pfail (ProtocolViolation ''MessageParameter::deserialize'')
       else pbind get_vi (\<lambda>activate.
         pbind read_rank (\<lambda>rnk.
         pbind (no_excess (ProtocolViolation ''MessageParameter::deserialize'')) (\<lambda>_.
           preturn (MP_SwitchingSetAssignment sid alg threshold weight activate rnk))))))))"

definition read_location_filter :: "message_parameter parser" where
  "read_location_filter =
     pbind location_filter_deserialize (\<lambda>f.
     pbind (no_excess (KeyValueFormattingError ''MessageParameter::deserialize(LocationFilter)'')) (\<lambda>_.
       preturn (MP_LocationFilter f)))"

text \<open>Every range filter type has a kind, so the \<open>expect\<close> of the source cannot fail
  (\<open>from_parameter_type_eq\<close> below); the model gives that branch a value of its own.\<close>

definition read_range_filter :: "message_parameter_type \<Rightarrow> bytes \<Rightarrow> message_parameter res" where
  "read_range_filter t value = (case from_parameter_type t of
       None \<Rightarrow> Inl (OtherError ''every range filter parameter type has a kind'')
     | Some kind \<Rightarrow>
         if value = [] then Inr (MP_RangeFilter kind None)
         else rbind (fst (range_filter_deserialize kind value)) (\<lambda>f. Inr (MP_RangeFilter kind (Some f))))"

text \<open>The arms of \<open>MessageParameter::deserialize\<close> but FILL_PARAMETERS.\<close>

definition mp_of_bytes :: "message_parameter_type \<Rightarrow> bytes \<Rightarrow> message_parameter res" where
  "mp_of_bytes t value = (case t of
       MPT_AuthorizationToken \<Rightarrow> rbind (fst (token_deserialize value)) (\<lambda>tok. Inr (MP_AuthorizationToken tok))
     | MPT_LargestObject \<Rightarrow> rbind (fst (location_deserialize value)) (\<lambda>l. Inr (MP_LargestObject l))
     | MPT_TrackNamespacePrefix \<Rightarrow> fst (read_track_namespace_prefix value)
     | MPT_SwitchFrom \<Rightarrow> fst (read_switch_from value)
     | MPT_SwitchingSetAssignment \<Rightarrow> fst (read_switching_set value)
     | MPT_SubgroupFilter \<Rightarrow> read_range_filter t value
     | MPT_ObjectIdFilter \<Rightarrow> read_range_filter t value
     | MPT_PriorityFilter \<Rightarrow> read_range_filter t value
     | MPT_ObjectPropertyFilter \<Rightarrow> read_range_filter t value
     | MPT_TrackPropertyFilter \<Rightarrow> read_range_filter t value
     | MPT_LocationFilter \<Rightarrow> fst (read_location_filter value)
     | _ \<Rightarrow> Inl (ProtocolViolation ''MessageParameter::deserialize''))"

definition param_type_of :: "u64 \<Rightarrow> message_parameter_type res" where
  "param_type_of t =
     map_err (\<lambda>_. ProtocolViolation ''MessageParameter::deserialize'') (message_parameter_type_try_from t)"

definition mp_deserialize_plain :: "key_value_pair \<Rightarrow> message_parameter res" where
  "mp_deserialize_plain kvp = (case kvp of
       KVarInt t v \<Rightarrow> rbind (param_type_of t) (\<lambda>pt. mp_of_varint pt v)
     | KBytes t b \<Rightarrow> rbind (param_type_of t) (\<lambda>pt. mp_of_bytes pt b))"

fun fill_loop :: "nat \<Rightarrow> u64 \<Rightarrow> message_parameter list parser" where
  "fill_loop 0 prev_type = preturn []"
| "fill_loop (Suc n) prev_type =
     pbind get_vi (\<lambda>d.
     pbind (plift (ok_or (ProtocolViolation ''MessageParameter::deserialize(FillParameters)'')
                     (checked_add prev_type d))) (\<lambda>t.
       if \<not> is_valid_fill_parameter t
       then pfail (ProtocolViolation ''MessageParameter::deserialize(FillParameters)'')
       else pbind (read_message_parameter_value t) (\<lambda>kvp.
            pbind (plift (mp_deserialize_plain kvp)) (\<lambda>p.
            pbind (fill_loop n t) (\<lambda>ps. preturn (p # ps))))))"

definition read_fill_parameters :: "message_parameter parser" where
  "read_fill_parameters =
     pbind get_vi (\<lambda>count.
     pbind (fill_loop (unat count) 0) (\<lambda>ps.
     pbind (no_excess (ProtocolViolation ''MessageParameter::deserialize(FillParameters)'')) (\<lambda>_.
       preturn (MP_FillParameters ps))))"

definition mp_deserialize :: "key_value_pair \<Rightarrow> message_parameter res" where
  "mp_deserialize kvp = (case kvp of
       KVarInt t v \<Rightarrow> rbind (param_type_of t) (\<lambda>pt. mp_of_varint pt v)
     | KBytes t b \<Rightarrow> rbind (param_type_of t) (\<lambda>pt.
         if pt = MPT_FillParameters then fst (read_fill_parameters b) else mp_of_bytes pt b))"

fun read_parameters :: "nat \<Rightarrow> u64 \<Rightarrow> control_message_type \<Rightarrow> message_parameter list parser" where
  "read_parameters 0 prev_type m = preturn []"
| "read_parameters (Suc n) prev_type m =
     pbind get_vi (\<lambda>d.
     pbind (plift (ok_or (ProtocolViolation ''deserialize_message_parameters'') (checked_add prev_type d))) (\<lambda>t.
     pbind (read_message_parameter_value t) (\<lambda>kvp.
     pbind (plift (mp_deserialize kvp)) (\<lambda>p.
       if \<not> is_valid_for p m then pfail (ProtocolViolation ''deserialize_message_parameters'')
       else pbind (read_parameters n t m) (\<lambda>ps. preturn (p # ps))))))"

definition deserialize_message_parameters :: "u64 \<Rightarrow> control_message_type \<Rightarrow> message_parameter list parser" where
  "deserialize_message_parameters count m = read_parameters (unat count) 0 m"

subsection \<open>Lists of parameters\<close>

definition get_param :: "message_parameter list \<Rightarrow> message_parameter_type \<Rightarrow> message_parameter option" where
  "get_param ps t = find (\<lambda>p. type_value p = mpt_wire t) ps"

definition get_param_or ::
  "message_parameter list \<Rightarrow> message_parameter_type \<Rightarrow> message_parameter \<Rightarrow> message_parameter" where
  "get_param_or ps t dflt = (case get_param ps t of Some p \<Rightarrow> p | None \<Rightarrow> dflt)"

fun set_param :: "message_parameter list \<Rightarrow> message_parameter \<Rightarrow> message_parameter list" where
  "set_param [] param = [param]"
| "set_param (p # ps) param = (if type_value p = type_value param then param # ps else p # set_param ps param)"

definition include_properties :: "message_parameter list \<Rightarrow> bool" where
  "include_properties ps \<longleftrightarrow> MP_IncludeProperties False \<notin> set ps"

definition is_removal :: "message_parameter \<Rightarrow> bool" where
  "is_removal p \<longleftrightarrow> (case p of MP_RangeFilter _ None \<Rightarrow> True | _ \<Rightarrow> False)"

definition apply_message_parameter_update ::
  "message_parameter list \<Rightarrow> message_parameter list \<Rightarrow> message_parameter list" where
  "apply_message_parameter_update current updates =
     filter (\<lambda>p. \<not> (\<exists>u \<in> set updates. type_value u = type_value p)) current
     @ filter (\<lambda>u. \<not> is_removal u) updates"

subsection \<open>One parameter\<close>

lemma from_parameter_type_eq: "from_parameter_type (parameter_type kind) = Some kind"
  by (cases kind) (simp_all add: from_parameter_type_def range_filter_kinds_def)

lemma param_type_of_eq: "param_type_of t = Inr pt \<longleftrightarrow> t = mpt_wire pt"
  by (simp add: param_type_of_def mpt_enum.accepts_iff)

lemma param_type_of_wire [simp]: "param_type_of (mpt_wire pt) = Inr pt"
  by (simp add: param_type_of_eq)

lemma valid_fill_not_fill: "is_valid_fill_parameter (mpt_wire pt) \<Longrightarrow> pt \<noteq> MPT_FillParameters"
  by (auto simp: is_valid_fill_parameter_def is_object_range_filter_def)

lemma mp_deserialize_fill_type:
  assumes "is_valid_fill_parameter (get_type kvp)"
  shows "mp_deserialize kvp = mp_deserialize_plain kvp"
  using assms valid_fill_not_fill
  by (cases kvp; cases "param_type_of (get_type kvp)")
    (auto simp: mp_deserialize_def mp_deserialize_plain_def param_type_of_eq)

text \<open>The values whose form is the one their type prescribes.\<close>

definition shape_ok :: "key_value_pair \<Rightarrow> bool" where
  "shape_ok kvp = (case (value_shape_of (get_type kvp), kvp) of
       (VS_Uint8, KVarInt _ v) \<Rightarrow> v < 256
     | (VS_VarInt, KVarInt _ _) \<Rightarrow> True
     | (VS_BareLocation, KBytes _ b) \<Rightarrow> \<exists>l. b = put_location l
     | (VS_LocationFilter, KBytes _ b) \<Rightarrow> \<exists>f. location_filter_serialize f = Inr b
     | (VS_LengthPrefixedBytes, KBytes _ b) \<Rightarrow> length b \<le> MAX_VALUE_LENGTH
     | _ \<Rightarrow> False)"

lemma length_put_vi_le: "length (put_vi v) \<le> 9"
  using minimal_vi_length_range [of v] by (simp add: length_put_vi)

lemma length_put_location: "length (put_location l) \<le> 18"
  using length_put_vi_le [of "l_group l"] length_put_vi_le [of "l_object l"] by (simp add: put_location_def)

lemma length_five_vi: "length (put_vi a @ put_vi b @ put_vi c @ put_vi d @ put_vi e) \<le> 45"
  using length_put_vi_le [of a] length_put_vi_le [of b] length_put_vi_le [of c] length_put_vi_le [of d]
    length_put_vi_le [of e] by simp

lemma length_location_filter:
  assumes "location_filter_serialize f = Inr bs"
  shows "length bs \<le> 45"
proof (cases f)
  case LF_None
  then show ?thesis using assms length_five_vi [of 0 0 0 0 0] by (auto simp: location_filter_serialize_def)
next
  case (LF_RelativeStart g)
  then show ?thesis using assms length_five_vi [of 1 g 0 0 0] by (auto simp: location_filter_serialize_def)
next
  case (LF_AbsoluteStart l)
  then show ?thesis using assms length_five_vi [of 2 "l_group l" "l_object l" 0 0]
    by (auto simp: location_filter_serialize_def put_location_def)
next
  case (LF_AbsoluteStartGroupEnd l e)
  then obtain d where "bs = put_vi 3 @ put_location l @ put_vi d"
    using assms by (auto simp: location_filter_serialize_def rbind_Inr_iff)
  then show ?thesis using length_five_vi [of 3 "l_group l" "l_object l" d 0] by (simp add: put_location_def)
next
  case (LF_AbsoluteRange l e)
  then obtain d where "bs = put_vi 4 @ put_location l @ put_vi d @ put_vi (l_object e)"
    using assms by (auto simp: location_filter_serialize_def rbind_Inr_iff)
  then show ?thesis using length_five_vi [of 4 "l_group l" "l_object l" d "l_object e"]
    by (simp add: put_location_def)
next
  case LF_NextObject
  then show ?thesis using assms length_five_vi [of 5 0 0 0 0] by (auto simp: location_filter_serialize_def)
qed

lemma kvp_new_bytes_short: "length b \<le> MAX_VALUE_LENGTH \<Longrightarrow> kvp_new_bytes t b = Inr (KBytes t b)"
  by (simp add: kvp_new_bytes_def)

lemma kvp_new_bytes_small: "length b \<le> 100 \<Longrightarrow> kvp_new_bytes t b = Inr (KBytes t b)"
  by (simp add: kvp_new_bytes_def MAX_VALUE_LENGTH_def)

lemma ucast_u8_u64: "v < 256 \<Longrightarrow> (ucast (ucast v :: u8) :: u64) = v"
  by (simp add: word_unat_eq_iff unsigned_ucast_eq unsigned_take_bit_eq take_bit_nat_eq_self word_less_nat_alt)

lemma parameter_value_roundtrip:
  assumes "shape_ok kvp"
  shows "\<exists>bs. put_parameter_value kvp = Inr bs
    \<and> (\<forall>rest. read_message_parameter_value (get_type kvp) (bs @ rest) = (Inr kvp, rest))"
proof (cases kvp)
  case (KVarInt t v)
  with assms show ?thesis
    by (auto simp: shape_ok_def put_parameter_value_def read_message_parameter_value_def ucast_u8_u64
        split: value_shape.splits)
next
  case (KBytes t b)
  consider l where "value_shape_of t = VS_BareLocation" "b = put_location l"
    | f where "value_shape_of t = VS_LocationFilter" "location_filter_serialize f = Inr b"
    | "value_shape_of t = VS_LengthPrefixedBytes" "length b \<le> MAX_VALUE_LENGTH"
    using assms KBytes by (auto simp: shape_ok_def split: value_shape.splits)
  then show ?thesis
  proof cases
    case 1
    with length_put_location [of l] KBytes show ?thesis
      by (simp add: put_parameter_value_def read_message_parameter_value_def put_location_def kvp_new_bytes_small)
  next
    case 2
    then have wf: "location_filter_wf f" using location_filter_serialize_ok by blast
    from 2 KBytes lf.dec_enc [OF wf 2(2)] length_location_filter [OF 2(2)] show ?thesis
      by (simp add: put_parameter_value_def read_message_parameter_value_def kvp_new_bytes_small)
  next
    case 3
    with KBytes show ?thesis
      by (simp add: put_parameter_value_def read_message_parameter_value_def deserialize_bytes_value_append)
  qed
qed

text \<open>A sorted list of such values is written, and read back by either loop.\<close>

lemma parameters_roundtrip:
  assumes "\<forall>k \<in> set ks. shape_ok k" "ascending_from p ks"
  shows "\<exists>bs. put_parameters p ks = Inr bs
    \<and> (\<forall>m ps rest. list_all2 (\<lambda>k q. mp_deserialize k = Inr q \<and> is_valid_for q m) ks ps \<longrightarrow>
         read_parameters (length ks) p m (bs @ rest) = (Inr ps, rest))
    \<and> (\<forall>ps rest. list_all2 (\<lambda>k q. mp_deserialize_plain k = Inr q \<and> is_valid_fill_parameter (get_type k)) ks ps \<longrightarrow>
         fill_loop (length ks) p (bs @ rest) = (Inr ps, rest))"
  using assms
proof (induction ks arbitrary: p)
  case Nil
  then show ?case by simp
next
  case (Cons k ks)
  from Cons.prems parameter_value_roundtrip [of k] obtain b where
    b: "put_parameter_value k = Inr b"
      "\<And>rest. read_message_parameter_value (get_type k) (b @ rest) = (Inr k, rest)" by auto
  from Cons.prems Cons.IH [of "get_type k"] obtain bs where
    bs: "put_parameters (get_type k) ks = Inr bs"
      "\<And>m ps rest. list_all2 (\<lambda>k q. mp_deserialize k = Inr q \<and> is_valid_for q m) ks ps \<Longrightarrow>
         read_parameters (length ks) (get_type k) m (bs @ rest) = (Inr ps, rest)"
      "\<And>ps rest. list_all2 (\<lambda>k q. mp_deserialize_plain k = Inr q \<and> is_valid_fill_parameter (get_type k)) ks ps \<Longrightarrow>
         fill_loop (length ks) (get_type k) (bs @ rest) = (Inr ps, rest)" by auto
  have le: "p \<le> get_type k" using Cons.prems by simp
  note delta = checked_sub_add [OF le]
  show ?case
    using b bs delta
    by (auto simp: list_all2_Cons1)
qed

subsection \<open>Tokens and nested values\<close>

definition token_wf :: "authorization_token \<Rightarrow> bool" where
  "token_wf tok \<longleftrightarrow>
     (\<exists>a. tok = token_new_delete a) \<or> (\<exists>a t v. tok = token_new_register a t v)
     \<or> (\<exists>a. tok = token_new_use_alias a) \<or> (\<exists>t v. tok = token_new_use_value t v)"

lemmas token_defs = token_new_delete_def token_new_register_def token_new_use_alias_def token_new_use_value_def

lemma token_roundtrip:
  assumes "token_wf tok"
  shows "\<exists>bs. token_serialize tok = Inr bs \<and> fst (token_deserialize bs) = Inr tok"
  using assms vi_chain [where rest = "[]"]
  by (auto simp: token_wf_def token_serialize_def token_defs token_deserialize_def token_alias_type_try_from_def
      Let_def pbind_def [of peek_rest] peek_rest_def)

lemma token_deserialize_wf:
  assumes "token_deserialize bs = (Inr tok, rest)"
  shows "token_wf tok"
proof -
  from assms obtain raw bs' alias_type where "get_vi bs = (Inr raw, bs')"
    and "token_alias_type_try_from raw = Inr alias_type"
    by (auto simp: token_deserialize_def pbind_Inr_iff)
  with assms show ?thesis
    by (cases alias_type) (fastforce simp: token_deserialize_def token_wf_def pbind_Inr_iff)+
qed

subsection \<open>The parameters that can be sent\<close>

text \<open>
  A parameter other than FILL_PARAMETERS that serialises to what its reader accepts: tokens
  the constructors build, filters with an encoding, weights in range, values of at most
  65535 bytes.
\<close>

definition fits :: "bytes res \<Rightarrow> bool" where
  "fits r \<longleftrightarrow> (\<forall>b. r = Inr b \<longrightarrow> length b \<le> MAX_VALUE_LENGTH)"

fun plain_wf :: "message_parameter \<Rightarrow> bool" where
  "plain_wf (MP_AuthorizationToken tok) \<longleftrightarrow> token_wf tok \<and> fits (token_serialize tok)"
| "plain_wf (MP_LocationFilter f) \<longleftrightarrow> location_filter_wf f"
| "plain_wf (MP_RangeFilter kind filt) \<longleftrightarrow>
     (\<forall>f. filt = Some f \<longrightarrow> range_filter_wf kind f \<and> fits (range_filter_serialize f))"
| "plain_wf (MP_TrackNamespacePrefix t) \<longleftrightarrow> tuple_wf t \<and> fits (tuple_serialize t)"
| "plain_wf (MP_SwitchingSetAssignment _ _ _ weight _ _) \<longleftrightarrow> 1 \<le> weight \<and> weight \<le> 10"
| "plain_wf (MP_FillParameters _) \<longleftrightarrow> False"
| "plain_wf _ \<longleftrightarrow> True"

definition sendable :: "message_parameter \<Rightarrow> key_value_pair \<Rightarrow> message_parameter \<Rightarrow> bool" where
  "sendable p k q \<longleftrightarrow> mp_try_into p = Inr k \<and> get_type k = type_value p \<and> shape_ok k \<and> mp_deserialize k = Inr q"

lemma sendable_varint:
  assumes "even (mpt_wire t)" "value_shape_of (mpt_wire t) = VS_VarInt" "mp_of_varint t v = Inr p" "mp_type p = t"
    and "mp_try_into p = kvp_try_new_varint (mpt_wire t) v"
  shows "\<exists>k. sendable p k p"
  using assms by (auto simp: sendable_def kvp_try_new_varint_def type_value_def shape_ok_def mp_deserialize_def)

lemma sendable_uint8:
  assumes "value_shape_of (mpt_wire t) = VS_Uint8" "v < 256" "mp_of_varint t v = Inr p" "mp_type p = t"
    and "mp_try_into p = Inr (KVarInt (mpt_wire t) v)"
  shows "\<exists>k. sendable p k p"
  using assms by (auto simp: sendable_def type_value_def shape_ok_def mp_deserialize_def)

lemma sendable_bytes:
  assumes "t \<noteq> MPT_FillParameters" "mp_of_bytes t b = Inr p" "mp_type p = t" "length b \<le> MAX_VALUE_LENGTH"
    and "mp_try_into p = kvp_new_bytes (mpt_wire t) b" "shape_ok (KBytes (mpt_wire t) b)"
  shows "\<exists>k. sendable p k p"
  using assms by (auto simp: sendable_def type_value_def mp_deserialize_def kvp_new_bytes_short)

lemmas shape_defs = value_shape_of_def is_object_range_filter_def

lemma no_excess_empty [simp]: "no_excess e [] = (Inr (), [])"
  by (simp add: no_excess_def remaining_def pbind_def)

lemma token_sendable:
  assumes "token_wf tok" "fits (token_serialize tok)"
  shows "\<exists>k. sendable (MP_AuthorizationToken tok) k (MP_AuthorizationToken tok)"
proof -
  from token_roundtrip [OF assms(1)] obtain b where
    b: "token_serialize tok = Inr b" "fst (token_deserialize b) = Inr tok" by blast
  show ?thesis
    by (rule sendable_bytes [of MPT_AuthorizationToken b])
      (use b assms(2) in \<open>simp_all add: fits_def mp_of_bytes_def kvp_try_new_bytes_def shape_ok_def shape_defs\<close>)
qed

lemma largest_sendable: "\<exists>k. sendable (MP_LargestObject l) k (MP_LargestObject l)"
proof -
  have "location_deserialize (put_location l) = (Inr l, [])"
    using loc.dec_enc [of l "put_location l" "[]"] by (simp add: location_serialize_def put_location_def)
  moreover have "length (put_location l) \<le> MAX_VALUE_LENGTH"
    using length_put_location [of l] by (simp add: MAX_VALUE_LENGTH_def)
  ultimately show ?thesis
    by (intro sendable_bytes [of MPT_LargestObject "put_location l"])
      (auto simp: mp_of_bytes_def kvp_try_new_bytes_def shape_ok_def shape_defs)
qed

lemma location_filter_sendable:
  assumes "location_filter_wf f"
  shows "\<exists>k. sendable (MP_LocationFilter f) k (MP_LocationFilter f)"
proof -
  from assms obtain b where b: "location_filter_serialize f = Inr b" using location_filter_serialize_ok by blast
  have "fst (read_location_filter b) = Inr (MP_LocationFilter f)"
    using lf.dec_enc [OF assms b, of "[]"] by (simp add: read_location_filter_def)
  moreover have "length b \<le> MAX_VALUE_LENGTH"
    using length_location_filter [OF b] by (simp add: MAX_VALUE_LENGTH_def)
  ultimately show ?thesis
    by (intro sendable_bytes [of MPT_LocationFilter b])
      (use b in \<open>auto simp: mp_of_bytes_def shape_ok_def shape_defs\<close>)
qed

lemma switch_from_sendable: "\<exists>k. sendable (MP_SwitchFrom r m d) k (MP_SwitchFrom r m d)"
proof -
  let ?b = "put_vi r @ put_vi (switch_mode_to_wire m) @ [if d then SWITCH_FROM_PUBLISH_DONE else 0]"
  have "fst (read_switch_from ?b) = Inr (MP_SwitchFrom r m d)"
    by (simp add: read_switch_from_def sm_enum.try_to)
  moreover have "length ?b \<le> MAX_VALUE_LENGTH"
    using length_five_vi [of r "switch_mode_to_wire m" 0 0 0] by (simp add: MAX_VALUE_LENGTH_def)
  ultimately show ?thesis
    by (intro sendable_bytes [of MPT_SwitchFrom ?b])
      (auto simp: mp_of_bytes_def shape_ok_def shape_defs)
qed

lemma switching_set_sendable:
  assumes "1 \<le> weight" "weight \<le> 10"
  shows "\<exists>k. sendable (MP_SwitchingSetAssignment sid alg th weight act rnk) k
           (MP_SwitchingSetAssignment sid alg th weight act rnk)"
proof -
  let ?b = "put_vi sid @ put_vi alg @ put_vi th @ put_vi weight @ put_vi act @ [rnk]"
  have "fst (read_switching_set ?b) = Inr (MP_SwitchingSetAssignment sid alg th weight act rnk)"
    using assms by (simp add: read_switching_set_def read_rank_def pbind_def [of "\<lambda>bs. case bs of [] \<Rightarrow> _ | _ \<Rightarrow> _"])
  moreover have "length ?b \<le> MAX_VALUE_LENGTH"
    using length_five_vi [of sid alg th weight act] by (simp add: MAX_VALUE_LENGTH_def)
  ultimately show ?thesis
    by (intro sendable_bytes [of MPT_SwitchingSetAssignment ?b])
      (auto simp: mp_of_bytes_def kvp_try_new_bytes_def shape_ok_def shape_defs)
qed

lemma namespace_prefix_sendable:
  assumes "tuple_wf t" "fits (tuple_serialize t)"
  shows "\<exists>k. sendable (MP_TrackNamespacePrefix t) k (MP_TrackNamespacePrefix t)"
proof -
  from tuple.enc_total [OF assms(1)] obtain b where b: "tuple_serialize t = Inr b" by blast
  have "fst (read_track_namespace_prefix b) = Inr (MP_TrackNamespacePrefix t)"
    using tuple.dec_enc [OF assms(1) b, of "[]"] by (simp add: read_track_namespace_prefix_def)
  then show ?thesis using assms(2)
    by (intro sendable_bytes [of MPT_TrackNamespacePrefix b])
      (auto simp: b fits_def mp_of_bytes_def shape_ok_def shape_defs simp del: tuple_serialize_eq)
qed

lemma range_filter_sendable:
  assumes "plain_wf (MP_RangeFilter kind filt)"
  shows "\<exists>k. sendable (MP_RangeFilter kind filt) k (MP_RangeFilter kind filt)"
proof -
  have "\<exists>b. (case filt of Some f \<Rightarrow> has_property_type kind = (rf_property_type f \<noteq> None) \<and> range_filter_serialize f = Inr b
              | None \<Rightarrow> b = [])
    \<and> read_range_filter (parameter_type kind) b = Inr (MP_RangeFilter kind filt) \<and> length b \<le> MAX_VALUE_LENGTH"
  proof (cases filt)
    case (Some f)
    with assms range_filter_roundtrip [of kind f] show ?thesis
      by (auto simp: read_range_filter_def from_parameter_type_eq fits_def range_filter_wf_def)
  qed (simp add: read_range_filter_def from_parameter_type_eq)
  then obtain b where "mp_try_into (MP_RangeFilter kind filt) = kvp_new_bytes (mpt_wire (parameter_type kind)) b"
    "read_range_filter (parameter_type kind) b = Inr (MP_RangeFilter kind filt)" "length b \<le> MAX_VALUE_LENGTH"
    by (cases filt) auto
  then show ?thesis
    by (intro sendable_bytes [of "parameter_type kind" b])
      (cases kind; simp add: mp_of_bytes_def shape_ok_def shape_defs)+
qed

lemma plain_sendable:
  assumes "plain_wf p"
  shows "\<exists>k. sendable p k p"
proof (cases p)
  case (MP_Forward b)
  then show ?thesis
    by (intro sendable_uint8 [of MPT_Forward "if b then 1 else 0"])
      (auto simp: mp_of_varint_def kvp_try_new_varint_def shape_defs)
next
  case (MP_IncludeProperties b)
  then show ?thesis
    by (intro sendable_uint8 [of MPT_IncludeProperties "if b then 1 else 0"])
      (auto simp: mp_of_varint_def shape_defs)
next
  case (MP_SubscriberPriority q)
  have "(ucast q :: u64) < 256" by (simp add: word_less_nat_alt)
  then show ?thesis using MP_SubscriberPriority
    by (intro sendable_uint8 [of MPT_SubscriberPriority "ucast q"])
      (auto simp: mp_of_varint_def kvp_try_new_varint_def shape_defs)
next
  case (MP_GroupOrder ord)
  then show ?thesis
    by (intro sendable_uint8 [of MPT_GroupOrder "ucast (group_order_to_wire ord)"])
      (cases ord; auto simp: mp_of_varint_def kvp_try_new_varint_def shape_defs)+
next
  case (MP_ObjectDeliveryTimeout v)
  then show ?thesis by (intro sendable_varint [of MPT_ObjectDeliveryTimeout v]) (simp_all add: mp_of_varint_def shape_defs)
next
  case (MP_SubgroupDeliveryTimeout v)
  then show ?thesis by (intro sendable_varint [of MPT_SubgroupDeliveryTimeout v]) (simp_all add: mp_of_varint_def shape_defs)
next
  case (MP_RendezvousTimeout v)
  then show ?thesis by (intro sendable_varint [of MPT_RendezvousTimeout v]) (simp_all add: mp_of_varint_def shape_defs)
next
  case (MP_FillTimeout v)
  then show ?thesis by (intro sendable_varint [of MPT_FillTimeout v]) (simp_all add: mp_of_varint_def shape_defs)
next
  case (MP_Expires v)
  then show ?thesis by (intro sendable_varint [of MPT_Expires v]) (simp_all add: mp_of_varint_def shape_defs)
next
  case (MP_NewGroupRequest v)
  then show ?thesis by (intro sendable_varint [of MPT_NewGroupRequest v]) (simp_all add: mp_of_varint_def shape_defs)
qed (use assms token_sendable largest_sendable location_filter_sendable switch_from_sendable switching_set_sendable
    namespace_prefix_sendable range_filter_sendable in \<open>simp_all del: mp_try_into.simps\<close>)

subsection \<open>Parameter lists\<close>

lemma parameter_list:
  assumes "\<forall>p \<in> set ps. \<exists>k. sendable p k (g p)"
  shows "\<exists>bs. serialize_message_parameters ps = Inr bs
    \<and> (\<forall>m rest. (\<forall>p \<in> set ps. is_valid_for (g p) m) \<longrightarrow>
         read_parameters (length ps) 0 m (bs @ rest) = (Inr (map g (sort_key type_value ps)), rest))
    \<and> (\<forall>rest. (\<forall>p \<in> set ps. is_valid_fill_parameter (type_value p)) \<longrightarrow>
         fill_loop (length ps) 0 (bs @ rest) = (Inr (map g (sort_key type_value ps)), rest))"
proof -
  from bchoice [OF assms] obtain f where f: "\<forall>p \<in> set ps. sendable p (f p) (g p)" ..
  have into: "collect_results (map mp_try_into ps) = Inr (map f ps)"
    using f by (simp add: collect_results_Inr_iff sendable_def)
  have sorted_f: "sort_key get_type (map f ps) = map f (sort_key type_value ps)"
    using f by (intro sort_key_map) (simp add: sendable_def)
  have "\<forall>k \<in> set (map f (sort_key type_value ps)). shape_ok k" using f by (auto simp: sendable_def)
  moreover have "ascending_from 0 (map f (sort_key type_value ps))"
    using ascending_sort [of "map f ps"] by (simp add: sorted_f)
  ultimately obtain bs where bs: "put_parameters 0 (map f (sort_key type_value ps)) = Inr bs"
    "\<And>m qs rest. list_all2 (\<lambda>k q. mp_deserialize k = Inr q \<and> is_valid_for q m) (map f (sort_key type_value ps)) qs \<Longrightarrow>
       read_parameters (length ps) 0 m (bs @ rest) = (Inr qs, rest)"
    "\<And>qs rest. list_all2 (\<lambda>k q. mp_deserialize_plain k = Inr q \<and> is_valid_fill_parameter (get_type k))
         (map f (sort_key type_value ps)) qs \<Longrightarrow> fill_loop (length ps) 0 (bs @ rest) = (Inr qs, rest)"
    using parameters_roundtrip [of "map f (sort_key type_value ps)" 0] by auto
  have "serialize_message_parameters ps = Inr bs"
    by (simp add: serialize_message_parameters_def into write_parameters_def sorted_f bs(1))
  moreover have "read_parameters (length ps) 0 m (bs @ rest) = (Inr (map g (sort_key type_value ps)), rest)"
    if "\<forall>p \<in> set ps. is_valid_for (g p) m" for m rest
    using f that by (intro bs(2)) (auto simp: list_all2_map1 list_all2_map2 sendable_def intro!: list.rel_refl_strong)
  moreover have "fill_loop (length ps) 0 (bs @ rest) = (Inr (map g (sort_key type_value ps)), rest)"
    if "\<forall>p \<in> set ps. is_valid_fill_parameter (type_value p)" for rest
    using f that
    by (intro bs(3))
      (auto simp: list_all2_map1 list_all2_map2 sendable_def simp flip: mp_deserialize_fill_type intro!: list.rel_refl_strong)
  ultimately show ?thesis by blast
qed

definition mp_wf :: "message_parameter \<Rightarrow> bool" where
  "mp_wf p \<longleftrightarrow> (case p of
       MP_FillParameters ps \<Rightarrow>
         (\<forall>q \<in> set ps. plain_wf q \<and> is_valid_fill_parameter (type_value q)) \<and> length ps < 2 ^ 64
         \<and> fits (rbind (serialize_message_parameters ps) (\<lambda>bs. Inr (put_vi (word_of_nat (length ps)) @ bs)))
     | _ \<Rightarrow> plain_wf p)"

text \<open>What is read back: the parameters inside FILL_PARAMETERS come sorted.\<close>

definition mp_norm :: "message_parameter \<Rightarrow> message_parameter" where
  "mp_norm p = (case p of MP_FillParameters ps \<Rightarrow> MP_FillParameters (sort_key type_value ps) | _ \<Rightarrow> p)"

lemma mp_norm_valid [simp]: "is_valid_for (mp_norm p) m = is_valid_for p m"
  by (cases p) (simp_all add: mp_norm_def)

lemma fill_sendable:
  assumes "mp_wf (MP_FillParameters ps)"
  shows "\<exists>k. sendable (MP_FillParameters ps) k (MP_FillParameters (sort_key type_value ps))"
proof -
  let ?q = "MP_FillParameters (sort_key type_value ps)"
  have "\<forall>p \<in> set ps. \<exists>k. sendable p k p" using assms plain_sendable by (simp add: mp_wf_def)
  from parameter_list [of ps "\<lambda>p. p", OF this] assms obtain bs where
    bs: "serialize_message_parameters ps = Inr bs"
      "fill_loop (length ps) 0 bs = (Inr (sort_key type_value ps), [])"
    by (auto simp: mp_wf_def) (metis append_Nil2)
  let ?b = "put_vi (word_of_nat (length ps)) @ bs"
  have len: "length ?b \<le> MAX_VALUE_LENGTH" using assms bs(1) by (simp add: mp_wf_def fits_def)
  have "mp_try_into (MP_FillParameters ps) = Inr (KBytes (mpt_wire MPT_FillParameters) ?b)"
    using assms bs(1) len
    by (auto simp: mp_wf_def serialize_message_parameters_def rbind_Inr_iff kvp_try_new_bytes_def kvp_new_bytes_short)
  moreover have "fst (read_fill_parameters ?b) = Inr ?q"
    using bs(2) assms by (simp add: read_fill_parameters_def mp_wf_def)
  ultimately show ?thesis using len
    by (auto simp: sendable_def type_value_def shape_ok_def shape_defs mp_deserialize_def
        param_type_of_wire [of MPT_FillParameters, simplified])
qed

lemma mp_sendable: "mp_wf p \<Longrightarrow> \<exists>k. sendable p k (mp_norm p)"
  using plain_sendable [of p] fill_sendable by (cases p) (auto simp: mp_wf_def mp_norm_def)

subsection \<open>What the readers accept\<close>

fun plain_ok :: "message_parameter \<Rightarrow> bool" where
  "plain_ok (MP_AuthorizationToken tok) \<longleftrightarrow> token_wf tok"
| "plain_ok (MP_LocationFilter f) \<longleftrightarrow> location_filter_wf f"
| "plain_ok (MP_RangeFilter kind filt) \<longleftrightarrow> (\<forall>f. filt = Some f \<longrightarrow> range_filter_wf kind f)"
| "plain_ok (MP_SwitchingSetAssignment _ _ _ weight _ _) \<longleftrightarrow> 1 \<le> weight \<and> weight \<le> 10"
| "plain_ok (MP_FillParameters _) \<longleftrightarrow> False"
| "plain_ok _ \<longleftrightarrow> True"

definition mp_ok :: "message_parameter \<Rightarrow> bool" where
  "mp_ok p \<longleftrightarrow> (case p of
       MP_FillParameters ps \<Rightarrow>
         (\<forall>q \<in> set ps. plain_ok q \<and> is_valid_fill_parameter (type_value q)) \<and> sorted (map type_value ps)
     | _ \<Rightarrow> plain_ok p)"

lemma mp_of_varint_ok: "mp_of_varint pt v = Inr p \<Longrightarrow> plain_ok p \<and> mp_type p = pt"
  by (cases pt) (auto simp: mp_of_varint_def split: if_splits)

lemma fst_eq_Inr: "fst x = Inr y \<Longrightarrow> \<exists>r. x = (Inr y, r)"
  by (cases x) auto

lemma read_range_filter_ok:
  assumes "read_range_filter pt b = Inr p"
  shows "plain_ok p \<and> mp_type p = pt"
proof -
  from assms obtain kind where kind: "from_parameter_type pt = Some kind"
    by (auto simp: read_range_filter_def split: option.splits)
  then have "parameter_type kind = pt" by (auto simp: from_parameter_type_def find_Some_iff)
  with assms kind show ?thesis
    by (auto simp: read_range_filter_def rbind_Inr_iff dest!: fst_eq_Inr range_filter_deserialize_wf split: if_splits)
qed

lemma mp_of_bytes_ok:
  assumes "mp_of_bytes pt b = Inr p"
  shows "plain_ok p \<and> mp_type p = pt"
  using assms read_range_filter_ok [of pt b p]
  by (cases pt)
    (auto simp: mp_of_bytes_def rbind_Inr_iff read_track_namespace_prefix_def read_switch_from_def
      read_switching_set_def read_location_filter_def pbind_Inr_iff token_deserialize_wf location_filter_deserialize_wf
      dest!: fst_eq_Inr split: if_splits)

lemma mp_deserialize_plain_ok:
  assumes "mp_deserialize_plain k = Inr p"
  shows "plain_ok p \<and> type_value p = get_type k"
  using assms mp_of_varint_ok mp_of_bytes_ok
  by (cases k) (fastforce simp: mp_deserialize_plain_def rbind_Inr_iff param_type_of_eq type_value_def)+

lemma read_value_type:
  "read_message_parameter_value t bs = (Inr k, rest) \<Longrightarrow> get_type k = t"
  by (cases "value_shape_of t")
    (auto simp: read_message_parameter_value_def pbind_Inr_iff rbind_Inr_iff kvp_new_bytes_def
      deserialize_bytes_value_def split: if_splits)

lemma fill_loop_ok:
  "fill_loop n p bs = (Inr ps, rest) \<Longrightarrow>
     length ps = n \<and> sorted (p # map type_value ps)
     \<and> (\<forall>q \<in> set ps. plain_ok q \<and> is_valid_fill_parameter (type_value q))"
proof (induction n arbitrary: p bs ps)
  case (Suc n)
  then obtain d bs1 t k bs2 q qs bs3 where
    "checked_add p d = Some t" "is_valid_fill_parameter t"
    "read_message_parameter_value t bs1 = (Inr k, bs2)" "mp_deserialize_plain k = Inr q"
    and qs: "fill_loop n t bs3 = (Inr qs, rest)" "ps = q # qs"
    by (auto simp: pbind_Inr_iff ok_or_Inr_iff split: if_splits)
  then have "p \<le> t" "type_value q = t" "plain_ok q" "is_valid_fill_parameter (type_value q)"
    using mp_deserialize_plain_ok [of k q] read_value_type [of t bs1 k bs2]
    by (auto simp: checked_add_Some word_le_nat_alt)
  with Suc.IH [OF qs(1)] qs(2) show ?case by auto
qed simp

lemma mp_deserialize_ok:
  assumes "mp_deserialize k = Inr p"
  shows "mp_ok p \<and> type_value p = get_type k"
proof (cases "\<exists>b. k = KBytes (mpt_wire MPT_FillParameters) b")
  case True
  then obtain b ps n bs rest where "fill_loop n 0 bs = (Inr ps, rest)" "p = MP_FillParameters ps"
    "get_type k = mpt_wire MPT_FillParameters"
    using assms
    by (auto simp: mp_deserialize_def param_type_of_wire [of MPT_FillParameters, simplified] read_fill_parameters_def
        pbind_Inr_iff dest!: fst_eq_Inr)
  with fill_loop_ok show ?thesis by (fastforce simp: mp_ok_def type_value_def)
next
  case False
  then have "mp_deserialize k = mp_deserialize_plain k"
    by (cases k; cases "param_type_of (get_type k)")
      (auto simp: mp_deserialize_def mp_deserialize_plain_def param_type_of_eq)
  with assms mp_deserialize_plain_ok show ?thesis
    by (cases p) (fastforce simp: mp_ok_def)+
qed

lemma read_parameters_ok:
  "read_parameters n p m bs = (Inr ps, rest) \<Longrightarrow>
     length ps = n \<and> sorted (p # map type_value ps) \<and> (\<forall>q \<in> set ps. mp_ok q \<and> is_valid_for q m)"
proof (induction n arbitrary: p bs ps)
  case (Suc n)
  then obtain d bs1 t k bs2 q qs bs3 where
    "checked_add p d = Some t" "is_valid_for q m"
    "read_message_parameter_value t bs1 = (Inr k, bs2)" "mp_deserialize k = Inr q"
    and qs: "read_parameters n t m bs3 = (Inr qs, rest)" "ps = q # qs"
    by (auto simp: pbind_Inr_iff ok_or_Inr_iff split: if_splits)
  then have "p \<le> t" "type_value q = t" "mp_ok q" "is_valid_for q m"
    using mp_deserialize_ok [of k q] read_value_type [of t bs1 k bs2]
    by (auto simp: checked_add_Some word_le_nat_alt)
  with Suc.IH [OF qs(1)] qs(2) show ?case by auto
qed simp

subsection \<open>Properties\<close>

text \<open>C35. Message parameters survive the wire: a list of well-formed parameters allowed in a
  message serialises, and is read back as its stable sort by type, with the parameters inside
  FILL_PARAMETERS sorted as well, leaving exactly what followed.\<close>

theorem message_parameters_roundtrip:
  assumes "\<forall>p \<in> set ps. mp_wf p \<and> is_valid_for p m" "length ps < 2 ^ 64"
  shows "\<exists>bs. serialize_message_parameters ps = Inr bs
    \<and> deserialize_message_parameters (word_of_nat (length ps)) m (bs @ rest)
        = (Inr (map mp_norm (sort_key type_value ps)), rest)"
proof -
  have "\<forall>p \<in> set ps. \<exists>k. sendable p k (mp_norm p)" using assms(1) mp_sendable by blast
  from parameter_list [OF this] assms show ?thesis
    by (force simp: deserialize_message_parameters_def)
qed

theorem message_parameters_roundtrip_witness:
  "\<exists>bs. serialize_message_parameters [MP_Forward True, MP_ObjectDeliveryTimeout 7, MP_SubscriberPriority 3] = Inr bs
     \<and> deserialize_message_parameters 3 CMT_Subscribe (bs @ [1])
         = (Inr [MP_ObjectDeliveryTimeout 7, MP_Forward True, MP_SubscriberPriority 3], [1])"
proof -
  let ?ps = "[MP_Forward True, MP_ObjectDeliveryTimeout 7, MP_SubscriberPriority 3]"
  have "sort_key type_value ?ps = [MP_ObjectDeliveryTimeout 7, MP_Forward True, MP_SubscriberPriority 3]"
    by (simp add: type_value_def)
  then show ?thesis
    using message_parameters_roundtrip [of ?ps CMT_Subscribe "[1]"] by (simp add: mp_wf_def mp_norm_def)
qed

text \<open>C36. Whatever the reader of message parameters accepts is as many parameters as announced,
  in ascending order of type, each allowed in the message that carried it and with a value
  in range: a location filter with an encoding, a range filter that fits its kind, a weight
  from 1 to 10, and inside FILL_PARAMETERS only the parameters that may stand there.\<close>

theorem message_parameters_reader_sound:
  assumes "deserialize_message_parameters count m bs = (Inr ps, rest)"
  shows "length ps = unat count \<and> sorted (map type_value ps) \<and> (\<forall>p \<in> set ps. mp_ok p \<and> is_valid_for p m)"
  using read_parameters_ok [OF assms [unfolded deserialize_message_parameters_def]] by simp

theorem message_parameters_reader_sound_witness:
  "deserialize_message_parameters 1 CMT_Subscribe [0x10, 1, 9] = (Inr [MP_Forward True], [9])
   \<and> mp_ok (MP_Forward True) \<and> is_valid_for (MP_Forward True) CMT_Subscribe"
proof -
  have "deserialize_message_parameters 1 CMT_Subscribe [0x10, 1, 9] = (Inr [MP_Forward True], [9])"
    by (simp add: deserialize_message_parameters_def get_vi_def leading_ones_def checked_add_def pbind_def
        read_message_parameter_value_def shape_defs mp_deserialize_def mp_of_varint_def
        param_type_of_wire [of MPT_Forward, simplified])
  with message_parameters_reader_sound [OF this] show ?thesis by simp
qed

text \<open>An update states the whole of every type it names: after it, the parameters of a type
  the update carries are exactly the update's own without removals, and the parameters of
  every other type are unchanged.\<close>

lemma parameter_update_exact:
  "filter (\<lambda>p. type_value p = t) (apply_message_parameter_update current updates) =
     (if \<exists>u \<in> set updates. type_value u = t
      then filter (\<lambda>u. type_value u = t \<and> \<not> is_removal u) updates
      else filter (\<lambda>p. type_value p = t) current)"
proof (cases "\<exists>u \<in> set updates. type_value u = t")
  case True
  then have "filter (\<lambda>p. type_value p = t) (filter (\<lambda>p. \<not> (\<exists>u \<in> set updates. type_value u = type_value p)) current) = []"
    by (auto simp: filter_empty_conv)
  with True show ?thesis
    by (simp add: apply_message_parameter_update_def conj_commute)
next
  case False
  then have "filter (\<lambda>p. type_value p = t) (filter (\<lambda>p. \<not> (\<exists>u \<in> set updates. type_value u = type_value p)) current)
      = filter (\<lambda>p. type_value p = t) current"
    by (induction current) auto
  moreover have "filter (\<lambda>p. type_value p = t) (filter (\<lambda>u. \<not> is_removal u) updates) = []"
    using False by (auto simp: filter_empty_conv)
  ultimately show ?thesis using False by (simp add: apply_message_parameter_update_def)
qed

end
