(* ===== verification/Track_Property.thy ===== *)
theory Track_Property
  imports Object_Property
begin

text \<open>
  Track properties (\<open>libs/moqtail-rs/src/model/property/track_property.rs\<close>): the typed view of
  the pairs a track carries. Types the relay does not know are kept, apart from the mandatory
  range, which is kept under its own constructor so that a handler can refuse the request.
\<close>

datatype track_property =
    TP_ObjectDeliveryTimeout u64
  | TP_SubgroupDeliveryTimeout u64
  | TP_MaxCacheDuration u64
  | TP_ImmutableProperties "key_value_pair list"
  | TP_DefaultPublisherPriority u8
  | TP_DefaultPublisherGroupOrder group_order
  | TP_DynamicGroups bool
  | TP_Unknown key_value_pair
  | TP_UnknownMandatory key_value_pair

definition is_mandatory_track :: "u64 \<Rightarrow> bool" where
  "is_mandatory_track t \<longleftrightarrow> 0x4000 \<le> t \<and> t \<le> 0x7fff"

definition has_unsupported_mandatory :: "track_property list \<Rightarrow> bool" where
  "has_unsupported_mandatory ps \<longleftrightarrow> (\<exists>p \<in> set ps. case p of TP_UnknownMandatory _ \<Rightarrow> True | _ \<Rightarrow> False)"

abbreviation tpt_wire :: "track_property_type \<Rightarrow> u64" where
  "tpt_wire \<equiv> track_property_type_to_wire"

fun track_property_type_value :: "track_property \<Rightarrow> u64" where
  "track_property_type_value (TP_ObjectDeliveryTimeout _) = tpt_wire TPT_ObjectDeliveryTimeout"
| "track_property_type_value (TP_SubgroupDeliveryTimeout _) = tpt_wire TPT_SubgroupDeliveryTimeout"
| "track_property_type_value (TP_MaxCacheDuration _) = tpt_wire TPT_MaxCacheDuration"
| "track_property_type_value (TP_ImmutableProperties _) = tpt_wire TPT_ImmutableProperties"
| "track_property_type_value (TP_DefaultPublisherPriority _) = tpt_wire TPT_DefaultPublisherPriority"
| "track_property_type_value (TP_DefaultPublisherGroupOrder _) = tpt_wire TPT_DefaultPublisherGroupOrder"
| "track_property_type_value (TP_DynamicGroups _) = tpt_wire TPT_DynamicGroups"
| "track_property_type_value (TP_Unknown kvp) = get_type kvp"
| "track_property_type_value (TP_UnknownMandatory kvp) = get_type kvp"

fun track_property_try_into :: "track_property \<Rightarrow> key_value_pair res" where
  "track_property_try_into (TP_ObjectDeliveryTimeout v) = kvp_try_new_varint (tpt_wire TPT_ObjectDeliveryTimeout) v"
| "track_property_try_into (TP_SubgroupDeliveryTimeout v) = kvp_try_new_varint (tpt_wire TPT_SubgroupDeliveryTimeout) v"
| "track_property_try_into (TP_MaxCacheDuration v) = kvp_try_new_varint (tpt_wire TPT_MaxCacheDuration) v"
| "track_property_try_into (TP_ImmutableProperties properties) =
     rbind (serialize_kvp_list properties) (kvp_try_new_bytes (tpt_wire TPT_ImmutableProperties))"
| "track_property_try_into (TP_DefaultPublisherPriority p) =
     kvp_try_new_varint (tpt_wire TPT_DefaultPublisherPriority) (ucast p)"
| "track_property_try_into (TP_DefaultPublisherGroupOrder ord) =
     kvp_try_new_varint (tpt_wire TPT_DefaultPublisherGroupOrder) (ucast (group_order_to_wire ord))"
| "track_property_try_into (TP_DynamicGroups enabled) =
     kvp_try_new_varint (tpt_wire TPT_DynamicGroups) (if enabled then 1 else 0)"
| "track_property_try_into (TP_Unknown kvp) = Inr kvp"
| "track_property_try_into (TP_UnknownMandatory kvp) = Inr kvp"

definition track_property_serialize :: "track_property \<Rightarrow> bytes res" where
  "track_property_serialize p = rbind (track_property_try_into p) kvp_serialize"

definition track_property_deserialize :: "key_value_pair \<Rightarrow> track_property res" where
  "track_property_deserialize kvp =
     (case track_property_type_try_from (get_type kvp) of
        Inl _ \<Rightarrow> if is_mandatory_track (get_type kvp) then Inr (TP_UnknownMandatory kvp) else Inr (TP_Unknown kvp)
      | Inr TPT_ObjectDeliveryTimeout \<Rightarrow>
          rbind (kvp_varint_value kvp ''TrackProperty::deserialize(ObjectDeliveryTimeout)'')
            (\<lambda>v. Inr (TP_ObjectDeliveryTimeout v))
      | Inr TPT_SubgroupDeliveryTimeout \<Rightarrow>
          rbind (kvp_varint_value kvp ''TrackProperty::deserialize(SubgroupDeliveryTimeout)'')
            (\<lambda>v. Inr (TP_SubgroupDeliveryTimeout v))
      | Inr TPT_MaxCacheDuration \<Rightarrow>
          rbind (kvp_varint_value kvp ''TrackProperty::deserialize(MaxCacheDuration)'')
            (\<lambda>v. Inr (TP_MaxCacheDuration v))
      | Inr TPT_ImmutableProperties \<Rightarrow>
          rbind (kvp_bytes_value kvp ''TrackProperty::deserialize(ImmutableProperties)'') (\<lambda>buf.
          rbind (fst (deserialize_kvp_list_until_empty buf)) (\<lambda>properties.
            if \<exists>inner \<in> set properties. get_type inner = tpt_wire TPT_ImmutableProperties
            then Inl (ProtocolViolation ''TrackProperty::deserialize(ImmutableProperties)'')
            else Inr (TP_ImmutableProperties properties)))
      | Inr TPT_DefaultPublisherPriority \<Rightarrow>
          rbind (kvp_varint_value kvp ''TrackProperty::deserialize(DefaultPublisherPriority)'') (\<lambda>v.
            if 255 < v then Inl (ProtocolViolation ''TrackProperty::deserialize(DefaultPublisherPriority)'')
            else Inr (TP_DefaultPublisherPriority (ucast v)))
      | Inr TPT_DefaultPublisherGroupOrder \<Rightarrow>
          rbind (kvp_varint_value kvp ''TrackProperty::deserialize(DefaultPublisherGroupOrder)'') (\<lambda>v.
            if v = 1 then Inr (TP_DefaultPublisherGroupOrder GO_Ascending)
            else if v = 2 then Inr (TP_DefaultPublisherGroupOrder GO_Descending)
            else Inl (ProtocolViolation ''TrackProperty::deserialize(DefaultPublisherGroupOrder)''))
      | Inr TPT_DynamicGroups \<Rightarrow>
          rbind (kvp_varint_value kvp ''TrackProperty::deserialize(DynamicGroups)'') (\<lambda>v.
            if v = 0 then Inr (TP_DynamicGroups False)
            else if v = 1 then Inr (TP_DynamicGroups True)
            else Inl (ProtocolViolation ''TrackProperty::deserialize(DynamicGroups)''))
      | Inr _ \<Rightarrow> Inr (TP_Unknown kvp))"

definition serialize_track_properties :: "track_property list \<Rightarrow> bytes res" where
  "serialize_track_properties exts = rbind (collect_results (map track_property_try_into exts)) serialize_kvp_list"

definition deserialize_track_properties :: "track_property list parser" where
  "deserialize_track_properties =
     pbind deserialize_kvp_list_until_empty (\<lambda>kvps. plift (collect_results (map track_property_deserialize kvps)))"

subsection \<open>Lemmas\<close>

text \<open>The properties a reader yields. The group order of a track is never \<open>Original\<close>.\<close>

definition known_track_types :: "u64 set" where
  "known_track_types = {2, 4, 6, 0xB, 0xE, 0x22, 0x30}"

definition track_property_wf :: "track_property \<Rightarrow> bool" where
  "track_property_wf p \<longleftrightarrow> (case p of
       TP_ImmutableProperties ks \<Rightarrow>
         (\<forall>k \<in> set ks. kvp_wf k \<and> get_type k \<noteq> 0xB) \<and> sorted (map get_type ks)
         \<and> (case serialize_kvp_list ks of Inl _ \<Rightarrow> False | Inr b \<Rightarrow> length b \<le> MAX_VALUE_LENGTH)
     | TP_DefaultPublisherGroupOrder ord \<Rightarrow> ord \<noteq> GO_Original
     | TP_Unknown k \<Rightarrow> kvp_wf k \<and> get_type k \<notin> known_track_types \<and> \<not> is_mandatory_track (get_type k)
     | TP_UnknownMandatory k \<Rightarrow> kvp_wf k \<and> is_mandatory_track (get_type k)
     | _ \<Rightarrow> True)"

text \<open>The nested list of ImmutableProperties, for either kind of property.\<close>

lemma immutable_roundtrip:
  assumes "\<forall>k \<in> set ks. kvp_wf k" "sorted (map get_type ks)" "serialize_kvp_list ks = Inr b"
  shows "deserialize_kvp_list_until_empty b = (Inr ks, [])"
  using kvps_roundtrip [of ks 0] assms
  by (auto simp: serialize_kvp_list_def deserialize_kvp_list_until_empty_def sort_key_id)

lemma track_property_roundtrip:
  assumes "track_property_wf p"
  shows "\<exists>k. track_property_try_into p = Inr k \<and> kvp_wf k
    \<and> get_type k = track_property_type_value p \<and> track_property_deserialize k = Inr p"
proof (cases p)
  case (TP_ImmutableProperties ks)
  with assms obtain b where b: "serialize_kvp_list ks = Inr b" "length b \<le> MAX_VALUE_LENGTH"
    and wf: "\<forall>k \<in> set ks. kvp_wf k \<and> get_type k \<noteq> 0xB" "sorted (map get_type ks)"
    by (auto simp: track_property_wf_def split: sum.splits)
  with immutable_roundtrip [of ks b] TP_ImmutableProperties show ?thesis
    by (auto simp: track_property_deserialize_def kvp_try_new_bytes_def kvp_new_bytes_def
        track_property_type_try_from_def kvp_bytes_value_def)
next
  case (TP_Unknown k)
  with assms show ?thesis
    by (auto simp: track_property_wf_def track_property_deserialize_def known_track_types_def
        track_property_type_try_from_def)
next
  case (TP_UnknownMandatory k)
  then have "0x4000 \<le> get_type k" "kvp_wf k" "is_mandatory_track (get_type k)"
    using assms by (auto simp: track_property_wf_def is_mandatory_track_def)
  with TP_UnknownMandatory show ?thesis
    by (auto simp: track_property_deserialize_def track_property_type_try_from_def)
next
  case (TP_DefaultPublisherGroupOrder ord)
  with assms show ?thesis
    by (cases ord) (simp_all add: track_property_wf_def track_property_deserialize_def kvp_try_new_varint_def
      track_property_type_try_from_def kvp_varint_value_def)
qed (simp_all add: track_property_deserialize_def kvp_try_new_varint_def
      track_property_type_try_from_def kvp_varint_value_def)

lemma track_property_sound:
  assumes "kvp_wf k" "track_property_deserialize k = Inr p"
  shows "track_property_wf p \<and> track_property_type_value p = get_type k"
proof (cases "track_property_type_try_from (get_type k)")
  case (Inl e)
  then have "get_type k \<notin> known_track_types"
    by (auto simp: track_property_type_try_from_def known_track_types_def split: if_splits)
  with Inl assms show ?thesis
    by (auto simp: track_property_deserialize_def track_property_wf_def split: if_splits)
next
  case (Inr t)
  then have ty: "get_type k = tpt_wire t" by (simp add: tpt_enum.accepts_iff)
  show ?thesis
  proof (cases "t = TPT_ImmutableProperties")
    case True
    with Inr assms obtain ty buf ks r where k: "k = KBytes ty buf"
      and ks: "deserialize_kvp_list_until_empty buf = (Inr ks, r)"
      and p: "p = TP_ImmutableProperties ks" "\<forall>i \<in> set ks. get_type i \<noteq> 0xB"
      by (cases k; cases "deserialize_kvp_list_until_empty (kv_bytes k)")
         (auto simp: track_property_deserialize_def kvp_bytes_value_def rbind_Inr_iff split: if_splits)
    from kvp_list_rewrites [OF ks] obtain b where "serialize_kvp_list ks = Inr b"
      "length b \<le> length buf" "\<forall>k \<in> set ks. kvp_wf k" "sorted (map get_type ks)" by blast
    with assms(1) k p True ty show ?thesis by (auto simp: track_property_wf_def)
  next
    case False
    with Inr ty assms show ?thesis
      by (cases t)
         (auto simp: track_property_deserialize_def track_property_wf_def rbind_Inr_iff known_track_types_def
           is_mandatory_track_def split: if_splits)
  qed
qed

interpretation tp_view: kvp_view track_property_try_into track_property_deserialize
  track_property_type_value track_property_wf
  using track_property_roundtrip track_property_sound by unfold_locales blast+

lemma track_properties_eq:
  "serialize_track_properties = serialize_view track_property_try_into"
  "deserialize_track_properties = deserialize_view track_property_deserialize"
  by (simp_all add: fun_eq_iff serialize_track_properties_def deserialize_track_properties_def
      serialize_view_def deserialize_view_def)

lemmas track_properties_write = tp_view.list_write [folded track_properties_eq]
lemmas track_properties_read = tp_view.list_read [folded track_properties_eq]
lemmas track_properties_forward = tp_view.list_forward [folded track_properties_eq]

subsection \<open>Properties\<close>

text \<open>Track properties: well-formed ones serialise and read back as their stable sort by
  type; whatever was read can be written again and reads back unchanged, unknown properties
  included; and a read list reports an unsupported mandatory property exactly when it holds
  one of the mandatory range.\<close>

lemma track_properties_wire:
  "((\<forall>p \<in> set ps. track_property_wf p) \<longrightarrow>
      (\<exists>b. serialize_track_properties ps = Inr b
         \<and> deserialize_track_properties b = (Inr (sort_key track_property_type_value ps), [])))
   \<and> (deserialize_track_properties bs = (Inr ps, rest) \<longrightarrow>
        (\<exists>b. serialize_track_properties ps = Inr b \<and> deserialize_track_properties b = (Inr ps, []))
        \<and> (has_unsupported_mandatory ps \<longleftrightarrow> (\<exists>p \<in> set ps. is_mandatory_track (track_property_type_value p))))"
proof (intro conjI impI)
  assume "\<forall>p \<in> set ps. track_property_wf p"
  from track_properties_write [OF this] show "\<exists>b. serialize_track_properties ps = Inr b
    \<and> deserialize_track_properties b = (Inr (sort_key track_property_type_value ps), [])" by blast
next
  assume run: "deserialize_track_properties bs = (Inr ps, rest)"
  from track_properties_forward [OF run]
  show "\<exists>b. serialize_track_properties ps = Inr b \<and> deserialize_track_properties b = (Inr ps, [])" by blast
  have "(case p of TP_UnknownMandatory _ \<Rightarrow> True | _ \<Rightarrow> False) = is_mandatory_track (track_property_type_value p)"
    if "track_property_wf p" for p
    using that by (cases p) (auto simp: track_property_wf_def is_mandatory_track_def)
  with track_properties_read [OF run]
  show "has_unsupported_mandatory ps \<longleftrightarrow> (\<exists>p \<in> set ps. is_mandatory_track (track_property_type_value p))"
    by (auto simp: has_unsupported_mandatory_def)
qed

end
