(* ===== verification/Control_Frames.thy ===== *)
theory Control_Frames
  imports Message_Parameter Track_Property
begin

text \<open>
  What the control messages share (\<open>libs/moqtail-rs/src/model/control/*.rs\<close>): the frame around
  a payload (type, 16-bit length, payload), the track name field, and the counted parameter
  list. Every \<open>serialize\<close> of a control message ends with the same conversion of the payload
  length to \<open>u16\<close>; \<open>frame\<close> is that code with the context each message reports. The relation
  \<open>reads\<close> says that a reader consumes exactly a given byte string; its rules follow the
  sequencing of the readers, so that the round trip of a message is the list of its fields.
\<close>

subsection \<open>Frames\<close>

definition put_u16 :: "nat \<Rightarrow> bytes" where
  "put_u16 n = [word_of_nat (n div 256), word_of_nat (n mod 256)]"

definition get_u16 :: "bytes \<Rightarrow> nat" where
  "get_u16 bs = unat (bs ! 0) * 256 + unat (bs ! 1)"

definition frame :: "string \<Rightarrow> control_message_type \<Rightarrow> bytes \<Rightarrow> bytes res" where
  "frame ctx t payload =
     (if length payload < 2 ^ 16
      then Inr (put_vi (control_message_type_to_wire t) @ put_u16 (length payload) @ payload)
      else Inl (CastingError ctx ''usize'' ''u16''))"

lemma length_put_u16 [simp]: "length (put_u16 n) = 2"
  by (simp add: put_u16_def)

lemma get_u16_put_u16: "n < 2 ^ 16 \<Longrightarrow> get_u16 (put_u16 n @ bs) = n"
  by (simp add: get_u16_def put_u16_def unsigned_of_nat take_bit_nat_eq_self)

subsection \<open>Exact readers\<close>

definition reads :: "'a parser \<Rightarrow> bytes \<Rightarrow> 'a \<Rightarrow> bool" where
  "reads p bs x \<longleftrightarrow> (\<forall>rest. p (bs @ rest) = (Inr x, rest))"

definition reads_all :: "'a parser \<Rightarrow> bytes \<Rightarrow> 'a \<Rightarrow> bool" where
  "reads_all p bs x \<longleftrightarrow> p bs = (Inr x, [])"

named_theorems reads_intros \<open>which bytes a reader consumes\<close>

lemma reads_pbind: "reads p b x \<Longrightarrow> reads (f x) bs y \<Longrightarrow> reads (pbind p f) (b @ bs) y"
  by (simp add: reads_def)

lemma reads_all_pbind: "reads p b x \<Longrightarrow> reads_all (f x) bs y \<Longrightarrow> reads_all (pbind p f) (b @ bs) y"
  by (simp add: reads_def reads_all_def)

lemma reads_all_pbind_last: "reads_all p b x \<Longrightarrow> reads_all (f x) [] y \<Longrightarrow> reads_all (pbind p f) b y"
  by (simp add: reads_all_def)

lemma reads_pbind_last: "reads p b x \<Longrightarrow> reads (f x) [] y \<Longrightarrow> reads (pbind p f) b y"
  by (simp add: reads_def)

lemma reads_pbind_none: "reads p [] x \<Longrightarrow> reads (f x) bs y \<Longrightarrow> reads (pbind p f) bs y"
  by (simp add: reads_def)

lemma reads_imp_all: "reads p b x \<Longrightarrow> reads_all p b x"
  unfolding reads_def reads_all_def by (metis append_Nil2)

lemma reads_preturn [reads_intros]: "reads (preturn x) [] x" "reads_all (preturn x) [] x"
  by (simp_all add: reads_def reads_all_def)

lemma reads_get_vi [reads_intros]: "reads get_vi (put_vi v) v"
  by (simp add: reads_def)

lemma reads_get_u8 [reads_intros]: "reads (get_u8_checked ctx) [b] b"
  by (simp add: reads_def)

lemma reads_location [reads_intros]: "location_serialize l = Inr b \<Longrightarrow> reads location_deserialize b l"
  using loc.dec_enc [of l b] by (simp add: reads_def)

lemma reads_tuple [reads_intros]: "tuple_wf t \<Longrightarrow> tuple_serialize t = Inr b \<Longrightarrow> reads tuple_deserialize b t"
  using tuple.dec_enc [of t b] by (simp add: reads_def)

lemma reads_reason [reads_intros]:
  "reason_phrase_wf p \<Longrightarrow> reason_phrase_serialize p = Inr b \<Longrightarrow> reads reason_phrase_deserialize b p"
  using reason_phrase.dec_enc [of p b] by (simp add: reads_def)

lemma reads_redirect [reads_intros]:
  "redirect_wf r \<Longrightarrow> redirect_serialize r = Inr b \<Longrightarrow> reads redirect_deserialize b r"
  using redirect.dec_enc [of r b] by (simp add: reads_def)

subsection \<open>Track names\<close>

definition put_name :: "tuple_field \<Rightarrow> bytes" where
  "put_name nm = put_vi (word_of_nat (length nm)) @ nm"

text \<open>Some messages convert the length with \<open>try_into\<close>, others with \<open>as usize\<close>.\<close>

definition read_name :: "string \<Rightarrow> string \<Rightarrow> tuple_field parser" where
  "read_name len_ctx ctx =
     pbind get_vi (\<lambda>n_u64.
     pbind (plift (try_into_usize len_ctx n_u64)) (\<lambda>n.
     pbind (require_bytes ctx n) (\<lambda>_. copy_to_bytes n)))"

definition read_name_as :: "string \<Rightarrow> tuple_field parser" where
  "read_name_as ctx =
     pbind get_vi (\<lambda>n. pbind (require_bytes ctx (unat n)) (\<lambda>_. copy_to_bytes (unat n)))"

lemma reads_name [reads_intros]:
  "short_bytes nm \<Longrightarrow> reads (read_name len_ctx ctx) (put_name nm) nm"
  "short_bytes nm \<Longrightarrow> reads (read_name_as ctx) (put_name nm) nm"
  by (simp_all add: reads_def read_name_def read_name_as_def put_name_def)

subsection \<open>Parameters and track properties\<close>

definition put_params :: "message_parameter list \<Rightarrow> bytes res" where
  "put_params ps = rbind (serialize_message_parameters ps) (\<lambda>b. Inr (put_vi (word_of_nat (length ps)) @ b))"

definition read_params :: "control_message_type \<Rightarrow> message_parameter list parser" where
  "read_params m = pbind get_vi (\<lambda>count. deserialize_message_parameters count m)"

definition params_wf :: "control_message_type \<Rightarrow> message_parameter list \<Rightarrow> bool" where
  "params_wf m ps \<longleftrightarrow> (\<forall>p \<in> set ps. mp_wf p \<and> is_valid_for p m) \<and> length ps < 2 ^ 64"

definition params_norm :: "message_parameter list \<Rightarrow> message_parameter list" where
  "params_norm ps = map mp_norm (sort_key type_value ps)"

definition props_wf :: "track_property list \<Rightarrow> bool" where
  "props_wf ps \<longleftrightarrow> (\<forall>p \<in> set ps. track_property_wf p)"

definition props_norm :: "track_property list \<Rightarrow> track_property list" where
  "props_norm ps = sort_key track_property_type_value ps"

lemma params_total: "params_wf m ps \<Longrightarrow> \<exists>b. put_params ps = Inr b"
  using parameter_list [of ps mp_norm] mp_sendable by (auto simp: put_params_def params_wf_def rbind_Inr_iff)

lemma reads_params [reads_intros]:
  assumes "params_wf m ps" "put_params ps = Inr b"
  shows "reads (read_params m) b (params_norm ps)"
proof -
  have "\<forall>p \<in> set ps. \<exists>k. sendable p k (mp_norm p)" using assms(1) mp_sendable by (auto simp: params_wf_def)
  from parameter_list [OF this] assms show ?thesis
    by (auto simp: reads_def read_params_def put_params_def params_wf_def params_norm_def rbind_Inr_iff
        deserialize_message_parameters_def)
qed

lemma props_total: "props_wf ps \<Longrightarrow> \<exists>b. serialize_track_properties ps = Inr b"
  using track_properties_write [of ps] by (auto simp: props_wf_def)

lemma reads_props [reads_intros]:
  assumes "props_wf ps" "serialize_track_properties ps = Inr b"
  shows "reads_all deserialize_track_properties b (props_norm ps)"
  using track_properties_write [of ps] assms by (auto simp: reads_all_def props_wf_def props_norm_def)

end
