(* ===== verification/Control_Messages.thy ===== *)
theory Control_Messages
  imports Control_Frames
begin

text \<open>
  The control messages (\<open>libs/moqtail-rs/src/model/control/*.rs\<close>), one record, payload writer
  and payload reader each, in the order of the sources; \<open>serialize\<close> puts the frame around the
  payload. The locale \<open>control_payload\<close> states what a message promises: its payload is
  written, and the reader consumes all of it and returns the message with parameters and
  properties in the order of the wire. All eighteen messages are interpretations of it.
\<close>

locale control_payload =
  fixes payload :: "'m \<Rightarrow> bytes res"
    and parse :: "'m parser"
    and wf :: "'m \<Rightarrow> bool"
    and norm :: "'m \<Rightarrow> 'm"
  assumes payload_total: "wf m \<Longrightarrow> \<exists>b. payload m = Inr b"
    and parse_payload: "wf m \<Longrightarrow> payload m = Inr b \<Longrightarrow> reads_all parse b (norm m)"
begin

text \<open>A framed message exists unless the payload is too long for its 16-bit length.\<close>

lemma framed:
  assumes "wf m"
  obtains b where "payload m = Inr b" "parse b = (Inr (norm m), [])"
    "rbind (payload m) (frame ctx t) = frame ctx t b"
  using payload_total [OF assms] parse_payload [OF assms] by (auto simp: reads_all_def)

end

lemma reads_all_preturn: "x = y \<Longrightarrow> reads_all (preturn x) [] y"
  by (simp add: reads_all_def)

definition read_flag :: "string \<Rightarrow> bool parser" where
  "read_flag ctx =
     pbind (get_u8_checked ctx) (\<lambda>b.
       if b = 0 then preturn False else if b = 1 then preturn True else pfail (ProtocolViolation ctx))"

definition put_flag :: "bool \<Rightarrow> bytes" where
  "put_flag f = [if f then 1 else 0]"

lemma reads_flag [reads_intros]: "reads (read_flag ctx) (put_flag f) f"
  by (simp add: reads_def read_flag_def put_flag_def)

lemma from_wire_to_wire [simp]:
  "publish_done_status_code_from_wire (publish_done_status_code_to_wire c) = c"
  "request_error_code_from_wire (request_error_code_to_wire d) = d"
  by (simp_all add: publish_done_status_code_from_wire_def request_error_code_from_wire_def pds_enum.try_to rec_enum.try_to)

lemmas reads_step = reads_all_pbind reads_all_pbind_last reads_all_preturn reads_intros reads_flag reads_imp_all

lemma tuple_total: "\<exists>b. tuple_serialize t = Inr b"
  by simp

lemmas payload_total_simps = tuple_total rbind_Inr_iff location_serialize_def reason_phrase_serialize_def

lemmas payload_read_simps = rbind_Inr_iff

declare tuple_serialize_eq [simp del]

subsection \<open>Namespace\<close>

record namespace_msg =
  nsp_track_namespace_suffix :: tuple

definition namespace_payload :: "namespace_msg \<Rightarrow> bytes res" where
  "namespace_payload m =
     rbind (tuple_serialize (nsp_track_namespace_suffix m)) (\<lambda>ns.
     Inr (ns))"

definition namespace_serialize :: "namespace_msg \<Rightarrow> bytes res" where
  "namespace_serialize m = rbind (namespace_payload m) (frame ''Namespace::serialize(payload_length)'' CMT_Namespace)"

definition namespace_parse_payload :: "namespace_msg parser" where
  "namespace_parse_payload =
     pbind tuple_deserialize (\<lambda>x0.
       preturn \<lparr>nsp_track_namespace_suffix = x0\<rparr>)"

definition namespace_wf :: "namespace_msg \<Rightarrow> bool" where
  "namespace_wf m \<longleftrightarrow> tuple_wf (nsp_track_namespace_suffix m)"

definition namespace_norm :: "namespace_msg \<Rightarrow> namespace_msg" where
  "namespace_norm m = m"

lemmas namespace_defs =
  namespace_payload_def namespace_parse_payload_def namespace_wf_def namespace_norm_def

interpretation nsp_msg: control_payload namespace_payload namespace_parse_payload namespace_wf namespace_norm
  by unfold_locales
    (auto simp: namespace_defs payload_total_simps dest!: params_total props_total; fail |
     clarsimp simp: namespace_defs payload_read_simps, (rule reads_step | assumption | simp; fail)+)+

subsection \<open>NamespaceDone\<close>

record namespace_done_msg =
  nsd_track_namespace_suffix :: tuple

definition namespace_done_payload :: "namespace_done_msg \<Rightarrow> bytes res" where
  "namespace_done_payload m =
     rbind (tuple_serialize (nsd_track_namespace_suffix m)) (\<lambda>ns.
     Inr (ns))"

definition namespace_done_serialize :: "namespace_done_msg \<Rightarrow> bytes res" where
  "namespace_done_serialize m = rbind (namespace_done_payload m) (frame ''NamespaceDone::serialize(payload_length)'' CMT_NamespaceDone)"

definition namespace_done_parse_payload :: "namespace_done_msg parser" where
  "namespace_done_parse_payload =
     pbind tuple_deserialize (\<lambda>x0.
       preturn \<lparr>nsd_track_namespace_suffix = x0\<rparr>)"

definition namespace_done_wf :: "namespace_done_msg \<Rightarrow> bool" where
  "namespace_done_wf m \<longleftrightarrow> tuple_wf (nsd_track_namespace_suffix m)"

definition namespace_done_norm :: "namespace_done_msg \<Rightarrow> namespace_done_msg" where
  "namespace_done_norm m = m"

lemmas namespace_done_defs =
  namespace_done_payload_def namespace_done_parse_payload_def namespace_done_wf_def namespace_done_norm_def

interpretation nsd_msg: control_payload namespace_done_payload namespace_done_parse_payload namespace_done_wf namespace_done_norm
  by unfold_locales
    (auto simp: namespace_done_defs payload_total_simps dest!: params_total props_total; fail |
     clarsimp simp: namespace_done_defs payload_read_simps, (rule reads_step | assumption | simp; fail)+)+

subsection \<open>PublishNamespace\<close>

record publish_namespace_msg =
  pns_request_id :: u64
  pns_track_namespace :: tuple
  pns_parameters :: "message_parameter list"

definition publish_namespace_payload :: "publish_namespace_msg \<Rightarrow> bytes res" where
  "publish_namespace_payload m =
     rbind (tuple_serialize (pns_track_namespace m)) (\<lambda>ns.
     rbind (put_params (pns_parameters m)) (\<lambda>ps.
     Inr (put_vi (pns_request_id m) @ ns @ ps)))"

definition publish_namespace_serialize :: "publish_namespace_msg \<Rightarrow> bytes res" where
  "publish_namespace_serialize m = rbind (publish_namespace_payload m) (frame ''PublishNamespace::serialize(payload_length)'' CMT_PublishNamespace)"

definition publish_namespace_parse_payload :: "publish_namespace_msg parser" where
  "publish_namespace_parse_payload =
     pbind get_vi (\<lambda>x0.
     pbind tuple_deserialize (\<lambda>x1.
     pbind (read_params CMT_PublishNamespace) (\<lambda>x2.
       preturn \<lparr>pns_request_id = x0, pns_track_namespace = x1, pns_parameters = x2\<rparr>)))"

definition publish_namespace_wf :: "publish_namespace_msg \<Rightarrow> bool" where
  "publish_namespace_wf m \<longleftrightarrow> tuple_wf (pns_track_namespace m) \<and> params_wf CMT_PublishNamespace (pns_parameters m)"

definition publish_namespace_norm :: "publish_namespace_msg \<Rightarrow> publish_namespace_msg" where
  "publish_namespace_norm m = m\<lparr>pns_parameters := params_norm (pns_parameters m)\<rparr>"

lemmas publish_namespace_defs =
  publish_namespace_payload_def publish_namespace_parse_payload_def publish_namespace_wf_def publish_namespace_norm_def

interpretation pns_msg: control_payload publish_namespace_payload publish_namespace_parse_payload publish_namespace_wf publish_namespace_norm
  by unfold_locales
    (auto simp: publish_namespace_defs payload_total_simps dest!: params_total props_total; fail |
     clarsimp simp: publish_namespace_defs payload_read_simps, (rule reads_step | assumption | simp; fail)+)+

subsection \<open>RequestOk\<close>

record request_ok_msg =
  rok_parameters :: "message_parameter list"
  rok_track_properties :: "track_property list"

definition request_ok_payload :: "request_ok_msg \<Rightarrow> bytes res" where
  "request_ok_payload m =
     rbind (put_params (rok_parameters m)) (\<lambda>ps.
     rbind (serialize_track_properties (rok_track_properties m)) (\<lambda>ex.
     Inr (ps @ ex)))"

definition request_ok_serialize :: "request_ok_msg \<Rightarrow> bytes res" where
  "request_ok_serialize m = rbind (request_ok_payload m) (frame ''RequestOk::serialize(payload_length)'' CMT_RequestOk)"

definition request_ok_parse_payload :: "request_ok_msg parser" where
  "request_ok_parse_payload =
     pbind (read_params CMT_RequestOk) (\<lambda>x0.
     pbind deserialize_track_properties (\<lambda>x1.
       preturn \<lparr>rok_parameters = x0, rok_track_properties = x1\<rparr>))"

definition request_ok_wf :: "request_ok_msg \<Rightarrow> bool" where
  "request_ok_wf m \<longleftrightarrow> params_wf CMT_RequestOk (rok_parameters m) \<and> props_wf (rok_track_properties m)"

definition request_ok_norm :: "request_ok_msg \<Rightarrow> request_ok_msg" where
  "request_ok_norm m = m\<lparr>rok_parameters := params_norm (rok_parameters m), rok_track_properties := props_norm (rok_track_properties m)\<rparr>"

lemmas request_ok_defs =
  request_ok_payload_def request_ok_parse_payload_def request_ok_wf_def request_ok_norm_def

interpretation rok_msg: control_payload request_ok_payload request_ok_parse_payload request_ok_wf request_ok_norm
  by unfold_locales
    (auto simp: request_ok_defs payload_total_simps dest!: params_total props_total; fail |
     clarsimp simp: request_ok_defs payload_read_simps, (rule reads_step | assumption | simp; fail)+)+

subsection \<open>Publish\<close>

record publish_msg =
  pub_request_id :: u64
  pub_track_namespace :: tuple
  pub_track_name :: tuple_field
  pub_track_alias :: u64
  pub_parameters :: "message_parameter list"
  pub_track_properties :: "track_property list"

definition publish_payload :: "publish_msg \<Rightarrow> bytes res" where
  "publish_payload m =
     rbind (tuple_serialize (pub_track_namespace m)) (\<lambda>ns.
     rbind (put_params (pub_parameters m)) (\<lambda>ps.
     rbind (serialize_track_properties (pub_track_properties m)) (\<lambda>ex.
     Inr (put_vi (pub_request_id m) @ ns @ put_name (pub_track_name m) @ put_vi (pub_track_alias m) @ ps @ ex))))"

definition publish_serialize :: "publish_msg \<Rightarrow> bytes res" where
  "publish_serialize m = rbind (publish_payload m) (frame ''Publish::serialize(payload_length)'' CMT_Publish)"

definition publish_parse_payload :: "publish_msg parser" where
  "publish_parse_payload =
     pbind get_vi (\<lambda>x0.
     pbind tuple_deserialize (\<lambda>x1.
     pbind (read_name_as ''Publish::parse_payload(track_name)'') (\<lambda>x2.
     pbind get_vi (\<lambda>x3.
     pbind (read_params CMT_Publish) (\<lambda>x4.
     pbind deserialize_track_properties (\<lambda>x5.
       preturn \<lparr>pub_request_id = x0, pub_track_namespace = x1, pub_track_name = x2, pub_track_alias = x3, pub_parameters = x4, pub_track_properties = x5\<rparr>))))))"

definition publish_wf :: "publish_msg \<Rightarrow> bool" where
  "publish_wf m \<longleftrightarrow> tuple_wf (pub_track_namespace m) \<and> short_bytes (pub_track_name m) \<and> params_wf CMT_Publish (pub_parameters m) \<and> props_wf (pub_track_properties m)"

definition publish_norm :: "publish_msg \<Rightarrow> publish_msg" where
  "publish_norm m = m\<lparr>pub_parameters := params_norm (pub_parameters m), pub_track_properties := props_norm (pub_track_properties m)\<rparr>"

lemmas publish_defs =
  publish_payload_def publish_parse_payload_def publish_wf_def publish_norm_def

interpretation pub_msg: control_payload publish_payload publish_parse_payload publish_wf publish_norm
  by unfold_locales
    (auto simp: publish_defs payload_total_simps dest!: params_total props_total; fail |
     clarsimp simp: publish_defs payload_read_simps, (rule reads_step | assumption | simp; fail)+)+

subsection \<open>PublishDone\<close>

record publish_done_msg =
  pdn_status_code :: publish_done_status_code
  pdn_stream_count :: u64
  pdn_reason_phrase :: bytes

definition publish_done_payload :: "publish_done_msg \<Rightarrow> bytes res" where
  "publish_done_payload m =
     rbind (reason_phrase_serialize (pdn_reason_phrase m)) (\<lambda>rp.
     Inr (put_vi (publish_done_status_code_to_wire (pdn_status_code m)) @ put_vi (pdn_stream_count m) @ rp))"

definition publish_done_serialize :: "publish_done_msg \<Rightarrow> bytes res" where
  "publish_done_serialize m = rbind (publish_done_payload m) (frame ''PublishDone::serialize(payload_length)'' CMT_PublishDone)"

definition publish_done_parse_payload :: "publish_done_msg parser" where
  "publish_done_parse_payload =
     pbind get_vi (\<lambda>x0.
     pbind get_vi (\<lambda>x1.
     pbind reason_phrase_deserialize (\<lambda>x2.
       preturn \<lparr>pdn_status_code = publish_done_status_code_from_wire x0, pdn_stream_count = x1, pdn_reason_phrase = x2\<rparr>)))"

definition publish_done_wf :: "publish_done_msg \<Rightarrow> bool" where
  "publish_done_wf m \<longleftrightarrow> reason_phrase_wf (pdn_reason_phrase m)"

definition publish_done_norm :: "publish_done_msg \<Rightarrow> publish_done_msg" where
  "publish_done_norm m = m"

lemmas publish_done_defs =
  publish_done_payload_def publish_done_parse_payload_def publish_done_wf_def publish_done_norm_def

interpretation pdn_msg: control_payload publish_done_payload publish_done_parse_payload publish_done_wf publish_done_norm
  by unfold_locales
    (auto simp: publish_done_defs payload_total_simps dest!: params_total props_total; fail |
     clarsimp simp: publish_done_defs payload_read_simps, (rule reads_step | assumption | simp; fail)+)+

subsection \<open>Fetch\<close>

record fetch_msg =
  fet_request_id :: u64
  fet_track_namespace :: tuple
  fet_track_name :: tuple_field
  fet_parameters :: "message_parameter list"

definition fetch_payload :: "fetch_msg \<Rightarrow> bytes res" where
  "fetch_payload m =
     rbind (tuple_serialize (fet_track_namespace m)) (\<lambda>ns.
     rbind (put_params (fet_parameters m)) (\<lambda>ps.
     Inr (put_vi (fet_request_id m) @ ns @ put_name (fet_track_name m) @ ps)))"

definition fetch_serialize :: "fetch_msg \<Rightarrow> bytes res" where
  "fetch_serialize m = rbind (fetch_payload m) (frame ''Fetch::serialize(payload_length)'' CMT_Fetch)"

definition fetch_parse_payload :: "fetch_msg parser" where
  "fetch_parse_payload =
     pbind get_vi (\<lambda>x0.
     pbind tuple_deserialize (\<lambda>x1.
     pbind (read_name_as ''Fetch::parse_payload(track_name)'') (\<lambda>x2.
     pbind (read_params CMT_Fetch) (\<lambda>x3.
       preturn \<lparr>fet_request_id = x0, fet_track_namespace = x1, fet_track_name = x2, fet_parameters = x3\<rparr>))))"

definition fetch_wf :: "fetch_msg \<Rightarrow> bool" where
  "fetch_wf m \<longleftrightarrow> tuple_wf (fet_track_namespace m) \<and> short_bytes (fet_track_name m) \<and> params_wf CMT_Fetch (fet_parameters m)"

definition fetch_norm :: "fetch_msg \<Rightarrow> fetch_msg" where
  "fetch_norm m = m\<lparr>fet_parameters := params_norm (fet_parameters m)\<rparr>"

lemmas fetch_defs =
  fetch_payload_def fetch_parse_payload_def fetch_wf_def fetch_norm_def

interpretation fet_msg: control_payload fetch_payload fetch_parse_payload fetch_wf fetch_norm
  by unfold_locales
    (auto simp: fetch_defs payload_total_simps dest!: params_total props_total; fail |
     clarsimp simp: fetch_defs payload_read_simps, (rule reads_step | assumption | simp; fail)+)+

subsection \<open>FetchOk\<close>

record fetch_ok_msg =
  fok_end_of_track :: bool
  fok_end_location :: location
  fok_subscribe_parameters :: "message_parameter list"
  fok_track_properties :: "track_property list"

definition fetch_ok_payload :: "fetch_ok_msg \<Rightarrow> bytes res" where
  "fetch_ok_payload m =
     rbind (location_serialize (fok_end_location m)) (\<lambda>l.
     rbind (put_params (fok_subscribe_parameters m)) (\<lambda>ps.
     rbind (serialize_track_properties (fok_track_properties m)) (\<lambda>ex.
     Inr (put_flag (fok_end_of_track m) @ l @ ps @ ex))))"

definition fetch_ok_serialize :: "fetch_ok_msg \<Rightarrow> bytes res" where
  "fetch_ok_serialize m = rbind (fetch_ok_payload m) (frame ''FetchOk::serialize'' CMT_FetchOk)"

definition fetch_ok_parse_payload :: "fetch_ok_msg parser" where
  "fetch_ok_parse_payload =
     pbind (read_flag ''FetchOk::parse_payload(end_of_track)'') (\<lambda>x0.
     pbind location_deserialize (\<lambda>x1.
     pbind (read_params CMT_FetchOk) (\<lambda>x2.
     pbind deserialize_track_properties (\<lambda>x3.
       preturn \<lparr>fok_end_of_track = x0, fok_end_location = x1, fok_subscribe_parameters = x2, fok_track_properties = x3\<rparr>))))"

definition fetch_ok_wf :: "fetch_ok_msg \<Rightarrow> bool" where
  "fetch_ok_wf m \<longleftrightarrow> params_wf CMT_FetchOk (fok_subscribe_parameters m) \<and> props_wf (fok_track_properties m)"

definition fetch_ok_norm :: "fetch_ok_msg \<Rightarrow> fetch_ok_msg" where
  "fetch_ok_norm m = m\<lparr>fok_subscribe_parameters := params_norm (fok_subscribe_parameters m), fok_track_properties := props_norm (fok_track_properties m)\<rparr>"

lemmas fetch_ok_defs =
  fetch_ok_payload_def fetch_ok_parse_payload_def fetch_ok_wf_def fetch_ok_norm_def

interpretation fok_msg: control_payload fetch_ok_payload fetch_ok_parse_payload fetch_ok_wf fetch_ok_norm
  by unfold_locales
    (auto simp: fetch_ok_defs payload_total_simps dest!: params_total props_total; fail |
     clarsimp simp: fetch_ok_defs payload_read_simps, (rule reads_step | assumption | simp; fail)+)+

subsection \<open>Subscribe\<close>

record subscribe_msg =
  sub_request_id :: u64
  sub_track_namespace :: tuple
  sub_track_name :: tuple_field
  sub_subscribe_parameters :: "message_parameter list"

definition subscribe_payload :: "subscribe_msg \<Rightarrow> bytes res" where
  "subscribe_payload m =
     rbind (tuple_serialize (sub_track_namespace m)) (\<lambda>ns.
     rbind (put_params (sub_subscribe_parameters m)) (\<lambda>ps.
     Inr (put_vi (sub_request_id m) @ ns @ put_name (sub_track_name m) @ ps)))"

definition subscribe_serialize :: "subscribe_msg \<Rightarrow> bytes res" where
  "subscribe_serialize m = rbind (subscribe_payload m) (frame ''Subscribe::serialize'' CMT_Subscribe)"

definition subscribe_parse_payload :: "subscribe_msg parser" where
  "subscribe_parse_payload =
     pbind get_vi (\<lambda>x0.
     pbind tuple_deserialize (\<lambda>x1.
     pbind (read_name ''Subscribe::parse_payload(track_name_len)'' ''Subscribe::parse_payload(track_name)'') (\<lambda>x2.
     pbind (read_params CMT_Subscribe) (\<lambda>x3.
       preturn \<lparr>sub_request_id = x0, sub_track_namespace = x1, sub_track_name = x2, sub_subscribe_parameters = x3\<rparr>))))"

definition subscribe_wf :: "subscribe_msg \<Rightarrow> bool" where
  "subscribe_wf m \<longleftrightarrow> tuple_wf (sub_track_namespace m) \<and> short_bytes (sub_track_name m) \<and> params_wf CMT_Subscribe (sub_subscribe_parameters m)"

definition subscribe_norm :: "subscribe_msg \<Rightarrow> subscribe_msg" where
  "subscribe_norm m = m\<lparr>sub_subscribe_parameters := params_norm (sub_subscribe_parameters m)\<rparr>"

lemmas subscribe_defs =
  subscribe_payload_def subscribe_parse_payload_def subscribe_wf_def subscribe_norm_def

interpretation sub_msg: control_payload subscribe_payload subscribe_parse_payload subscribe_wf subscribe_norm
  by unfold_locales
    (auto simp: subscribe_defs payload_total_simps dest!: params_total props_total; fail |
     clarsimp simp: subscribe_defs payload_read_simps, (rule reads_step | assumption | simp; fail)+)+

subsection \<open>SubscribeOk\<close>

record subscribe_ok_msg =
  sok_track_alias :: u64
  sok_subscribe_parameters :: "message_parameter list"
  sok_track_properties :: "track_property list"

definition subscribe_ok_payload :: "subscribe_ok_msg \<Rightarrow> bytes res" where
  "subscribe_ok_payload m =
     rbind (put_params (sok_subscribe_parameters m)) (\<lambda>ps.
     rbind (serialize_track_properties (sok_track_properties m)) (\<lambda>ex.
     Inr (put_vi (sok_track_alias m) @ ps @ ex)))"

definition subscribe_ok_serialize :: "subscribe_ok_msg \<Rightarrow> bytes res" where
  "subscribe_ok_serialize m = rbind (subscribe_ok_payload m) (frame ''SubscribeOk::serialize(payload_length)'' CMT_SubscribeOk)"

definition subscribe_ok_parse_payload :: "subscribe_ok_msg parser" where
  "subscribe_ok_parse_payload =
     pbind get_vi (\<lambda>x0.
     pbind (read_params CMT_SubscribeOk) (\<lambda>x1.
     pbind deserialize_track_properties (\<lambda>x2.
       preturn \<lparr>sok_track_alias = x0, sok_subscribe_parameters = x1, sok_track_properties = x2\<rparr>)))"

definition subscribe_ok_wf :: "subscribe_ok_msg \<Rightarrow> bool" where
  "subscribe_ok_wf m \<longleftrightarrow> params_wf CMT_SubscribeOk (sok_subscribe_parameters m) \<and> props_wf (sok_track_properties m)"

definition subscribe_ok_norm :: "subscribe_ok_msg \<Rightarrow> subscribe_ok_msg" where
  "subscribe_ok_norm m = m\<lparr>sok_subscribe_parameters := params_norm (sok_subscribe_parameters m), sok_track_properties := props_norm (sok_track_properties m)\<rparr>"

lemmas subscribe_ok_defs =
  subscribe_ok_payload_def subscribe_ok_parse_payload_def subscribe_ok_wf_def subscribe_ok_norm_def

interpretation sok_msg: control_payload subscribe_ok_payload subscribe_ok_parse_payload subscribe_ok_wf subscribe_ok_norm
  by unfold_locales
    (auto simp: subscribe_ok_defs payload_total_simps dest!: params_total props_total; fail |
     clarsimp simp: subscribe_ok_defs payload_read_simps, (rule reads_step | assumption | simp; fail)+)+

subsection \<open>RequestUpdate\<close>

record request_update_msg =
  rup_request_id :: u64
  rup_parameters :: "message_parameter list"

definition request_update_payload :: "request_update_msg \<Rightarrow> bytes res" where
  "request_update_payload m =
     rbind (put_params (rup_parameters m)) (\<lambda>ps.
     Inr (put_vi (rup_request_id m) @ ps))"

definition request_update_serialize :: "request_update_msg \<Rightarrow> bytes res" where
  "request_update_serialize m = rbind (request_update_payload m) (frame ''RequestUpdate::serialize(payload_length)'' CMT_RequestUpdate)"

definition request_update_parse_payload :: "request_update_msg parser" where
  "request_update_parse_payload =
     pbind get_vi (\<lambda>x0.
     pbind (read_params CMT_RequestUpdate) (\<lambda>x1.
       preturn \<lparr>rup_request_id = x0, rup_parameters = x1\<rparr>))"

definition request_update_wf :: "request_update_msg \<Rightarrow> bool" where
  "request_update_wf m \<longleftrightarrow> params_wf CMT_RequestUpdate (rup_parameters m)"

definition request_update_norm :: "request_update_msg \<Rightarrow> request_update_msg" where
  "request_update_norm m = m\<lparr>rup_parameters := params_norm (rup_parameters m)\<rparr>"

lemmas request_update_defs =
  request_update_payload_def request_update_parse_payload_def request_update_wf_def request_update_norm_def

interpretation rup_msg: control_payload request_update_payload request_update_parse_payload request_update_wf request_update_norm
  by unfold_locales
    (auto simp: request_update_defs payload_total_simps dest!: params_total props_total; fail |
     clarsimp simp: request_update_defs payload_read_simps, (rule reads_step | assumption | simp; fail)+)+

subsection \<open>TrackStatus\<close>

record track_status_msg =
  tst_request_id :: u64
  tst_track_namespace :: tuple
  tst_track_name :: tuple_field
  tst_subscribe_parameters :: "message_parameter list"

definition track_status_payload :: "track_status_msg \<Rightarrow> bytes res" where
  "track_status_payload m =
     rbind (tuple_serialize (tst_track_namespace m)) (\<lambda>ns.
     rbind (put_params (tst_subscribe_parameters m)) (\<lambda>ps.
     Inr (put_vi (tst_request_id m) @ ns @ put_name (tst_track_name m) @ ps)))"

definition track_status_serialize :: "track_status_msg \<Rightarrow> bytes res" where
  "track_status_serialize m = rbind (track_status_payload m) (frame ''TrackStatus::serialize'' CMT_TrackStatus)"

definition track_status_parse_payload :: "track_status_msg parser" where
  "track_status_parse_payload =
     pbind get_vi (\<lambda>x0.
     pbind tuple_deserialize (\<lambda>x1.
     pbind (read_name ''TrackStatus::parse_payload(track_name_len)'' ''TrackStatus::parse_payload(track_name)'') (\<lambda>x2.
     pbind (read_params CMT_TrackStatus) (\<lambda>x3.
       preturn \<lparr>tst_request_id = x0, tst_track_namespace = x1, tst_track_name = x2, tst_subscribe_parameters = x3\<rparr>))))"

definition track_status_wf :: "track_status_msg \<Rightarrow> bool" where
  "track_status_wf m \<longleftrightarrow> tuple_wf (tst_track_namespace m) \<and> short_bytes (tst_track_name m) \<and> params_wf CMT_TrackStatus (tst_subscribe_parameters m)"

definition track_status_norm :: "track_status_msg \<Rightarrow> track_status_msg" where
  "track_status_norm m = m\<lparr>tst_subscribe_parameters := params_norm (tst_subscribe_parameters m)\<rparr>"

lemmas track_status_defs =
  track_status_payload_def track_status_parse_payload_def track_status_wf_def track_status_norm_def

interpretation tst_msg: control_payload track_status_payload track_status_parse_payload track_status_wf track_status_norm
  by unfold_locales
    (auto simp: track_status_defs payload_total_simps dest!: params_total props_total; fail |
     clarsimp simp: track_status_defs payload_read_simps, (rule reads_step | assumption | simp; fail)+)+

subsection \<open>SubscribeNamespace\<close>

record subscribe_namespace_msg =
  sns_request_id :: u64
  sns_track_namespace_prefix :: tuple
  sns_parameters :: "message_parameter list"

definition subscribe_namespace_payload :: "subscribe_namespace_msg \<Rightarrow> bytes res" where
  "subscribe_namespace_payload m =
     rbind (tuple_serialize (sns_track_namespace_prefix m)) (\<lambda>ns.
     rbind (put_params (sns_parameters m)) (\<lambda>ps.
     Inr (put_vi (sns_request_id m) @ ns @ ps)))"

definition subscribe_namespace_serialize :: "subscribe_namespace_msg \<Rightarrow> bytes res" where
  "subscribe_namespace_serialize m = rbind (subscribe_namespace_payload m) (frame ''Announce::serialize'' CMT_SubscribeNamespace)"

definition subscribe_namespace_parse_payload :: "subscribe_namespace_msg parser" where
  "subscribe_namespace_parse_payload =
     pbind get_vi (\<lambda>x0.
     pbind tuple_deserialize (\<lambda>x1.
     pbind (read_params CMT_SubscribeNamespace) (\<lambda>x2.
       preturn \<lparr>sns_request_id = x0, sns_track_namespace_prefix = x1, sns_parameters = x2\<rparr>)))"

definition subscribe_namespace_wf :: "subscribe_namespace_msg \<Rightarrow> bool" where
  "subscribe_namespace_wf m \<longleftrightarrow> tuple_wf (sns_track_namespace_prefix m) \<and> params_wf CMT_SubscribeNamespace (sns_parameters m)"

definition subscribe_namespace_norm :: "subscribe_namespace_msg \<Rightarrow> subscribe_namespace_msg" where
  "subscribe_namespace_norm m = m\<lparr>sns_parameters := params_norm (sns_parameters m)\<rparr>"

lemmas subscribe_namespace_defs =
  subscribe_namespace_payload_def subscribe_namespace_parse_payload_def subscribe_namespace_wf_def subscribe_namespace_norm_def

interpretation sns_msg: control_payload subscribe_namespace_payload subscribe_namespace_parse_payload subscribe_namespace_wf subscribe_namespace_norm
  by unfold_locales
    (auto simp: subscribe_namespace_defs payload_total_simps dest!: params_total props_total; fail |
     clarsimp simp: subscribe_namespace_defs payload_read_simps, (rule reads_step | assumption | simp; fail)+)+

subsection \<open>SubscribeTracks\<close>

record subscribe_tracks_msg =
  str_request_id :: u64
  str_track_namespace_prefix :: tuple
  str_parameters :: "message_parameter list"

definition subscribe_tracks_payload :: "subscribe_tracks_msg \<Rightarrow> bytes res" where
  "subscribe_tracks_payload m =
     rbind (tuple_serialize (str_track_namespace_prefix m)) (\<lambda>ns.
     rbind (put_params (str_parameters m)) (\<lambda>ps.
     Inr (put_vi (str_request_id m) @ ns @ ps)))"

definition subscribe_tracks_serialize :: "subscribe_tracks_msg \<Rightarrow> bytes res" where
  "subscribe_tracks_serialize m = rbind (subscribe_tracks_payload m) (frame ''SubscribeTracks::serialize'' CMT_SubscribeTracks)"

definition subscribe_tracks_parse_payload :: "subscribe_tracks_msg parser" where
  "subscribe_tracks_parse_payload =
     pbind get_vi (\<lambda>x0.
     pbind tuple_deserialize (\<lambda>x1.
     pbind (read_params CMT_SubscribeTracks) (\<lambda>x2.
       preturn \<lparr>str_request_id = x0, str_track_namespace_prefix = x1, str_parameters = x2\<rparr>)))"

definition subscribe_tracks_wf :: "subscribe_tracks_msg \<Rightarrow> bool" where
  "subscribe_tracks_wf m \<longleftrightarrow> tuple_wf (str_track_namespace_prefix m) \<and> params_wf CMT_SubscribeTracks (str_parameters m)"

definition subscribe_tracks_norm :: "subscribe_tracks_msg \<Rightarrow> subscribe_tracks_msg" where
  "subscribe_tracks_norm m = m\<lparr>str_parameters := params_norm (str_parameters m)\<rparr>"

lemmas subscribe_tracks_defs =
  subscribe_tracks_payload_def subscribe_tracks_parse_payload_def subscribe_tracks_wf_def subscribe_tracks_norm_def

interpretation str_msg: control_payload subscribe_tracks_payload subscribe_tracks_parse_payload subscribe_tracks_wf subscribe_tracks_norm
  by unfold_locales
    (auto simp: subscribe_tracks_defs payload_total_simps dest!: params_total props_total; fail |
     clarsimp simp: subscribe_tracks_defs payload_read_simps, (rule reads_step | assumption | simp; fail)+)+

subsection \<open>PublishSkipped\<close>

record publish_skipped_msg =
  psk_track_namespace_suffix :: tuple
  psk_track_name :: tuple_field

definition publish_skipped_payload :: "publish_skipped_msg \<Rightarrow> bytes res" where
  "publish_skipped_payload m =
     rbind (tuple_serialize (psk_track_namespace_suffix m)) (\<lambda>ns.
     Inr (ns @ put_name (psk_track_name m)))"

definition publish_skipped_serialize :: "publish_skipped_msg \<Rightarrow> bytes res" where
  "publish_skipped_serialize m = rbind (publish_skipped_payload m) (frame ''PublishSkipped::serialize(payload_length)'' CMT_PublishSkipped)"

definition publish_skipped_parse_payload :: "publish_skipped_msg parser" where
  "publish_skipped_parse_payload =
     pbind tuple_deserialize (\<lambda>x0.
     pbind (read_name_as ''PublishSkipped::parse_payload(track_name)'') (\<lambda>x1.
       preturn \<lparr>psk_track_namespace_suffix = x0, psk_track_name = x1\<rparr>))"

definition publish_skipped_wf :: "publish_skipped_msg \<Rightarrow> bool" where
  "publish_skipped_wf m \<longleftrightarrow> tuple_wf (psk_track_namespace_suffix m) \<and> short_bytes (psk_track_name m)"

definition publish_skipped_norm :: "publish_skipped_msg \<Rightarrow> publish_skipped_msg" where
  "publish_skipped_norm m = m"

lemmas publish_skipped_defs =
  publish_skipped_payload_def publish_skipped_parse_payload_def publish_skipped_wf_def publish_skipped_norm_def

interpretation psk_msg: control_payload publish_skipped_payload publish_skipped_parse_payload publish_skipped_wf publish_skipped_norm
  by unfold_locales
    (auto simp: publish_skipped_defs payload_total_simps dest!: params_total props_total; fail |
     clarsimp simp: publish_skipped_defs payload_read_simps, (rule reads_step | assumption | simp; fail)+)+

subsection \<open>RequestError\<close>

record request_error_msg =
  rer_error_code :: request_error_code
  rer_retry_interval :: u64
  rer_reason_phrase :: bytes
  rer_redirect :: "redirect option"

definition request_error_new :: "request_error_code \<Rightarrow> u64 \<Rightarrow> bytes \<Rightarrow> request_error_msg" where
  "request_error_new error_code retry_interval reason_phrase =
     \<lparr>rer_error_code = error_code, rer_retry_interval = retry_interval,
      rer_reason_phrase = reason_phrase, rer_redirect = None\<rparr>"

definition request_error_new_redirect :: "u64 \<Rightarrow> bytes \<Rightarrow> redirect \<Rightarrow> request_error_msg" where
  "request_error_new_redirect retry_interval reason_phrase redirect =
     \<lparr>rer_error_code = REC_Redirect, rer_retry_interval = retry_interval,
      rer_reason_phrase = reason_phrase, rer_redirect = Some redirect\<rparr>"

definition request_error_payload :: "request_error_msg \<Rightarrow> bytes res" where
  "request_error_payload m =
     rbind (reason_phrase_serialize (rer_reason_phrase m)) (\<lambda>rp.
     rbind (case rer_redirect m of Some r \<Rightarrow> redirect_serialize r | None \<Rightarrow> Inr []) (\<lambda>rd.
     Inr (put_vi (request_error_code_to_wire (rer_error_code m)) @ put_vi (rer_retry_interval m) @ rp @ rd)))"

definition request_error_serialize :: "request_error_msg \<Rightarrow> bytes res" where
  "request_error_serialize m =
     rbind (request_error_payload m) (frame ''RequestError::serialize(payload_length)'' CMT_RequestError)"

definition read_redirect :: "request_error_code \<Rightarrow> redirect option parser" where
  "read_redirect error_code =
     (if error_code = REC_Redirect then pbind redirect_deserialize (\<lambda>r. preturn (Some r)) else preturn None)"

definition request_error_parse_payload :: "request_error_msg parser" where
  "request_error_parse_payload =
     pbind get_vi (\<lambda>raw.
     pbind get_vi (\<lambda>retry.
     pbind reason_phrase_deserialize (\<lambda>rp.
     pbind (read_redirect (request_error_code_from_wire raw)) (\<lambda>rd.
       preturn \<lparr>rer_error_code = request_error_code_from_wire raw, rer_retry_interval = retry,
                rer_reason_phrase = rp, rer_redirect = rd\<rparr>))))"

definition request_error_wf :: "request_error_msg \<Rightarrow> bool" where
  "request_error_wf m \<longleftrightarrow> reason_phrase_wf (rer_reason_phrase m)
     \<and> (case rer_redirect m of
          None \<Rightarrow> rer_error_code m \<noteq> REC_Redirect
        | Some r \<Rightarrow> rer_error_code m = REC_Redirect \<and> redirect_wf r)"

definition request_error_norm :: "request_error_msg \<Rightarrow> request_error_msg" where
  "request_error_norm m = m"

lemmas request_error_defs =
  request_error_payload_def request_error_parse_payload_def request_error_wf_def request_error_norm_def

lemma reads_read_redirect:
  assumes "case rd of None \<Rightarrow> c \<noteq> REC_Redirect | Some r \<Rightarrow> c = REC_Redirect \<and> redirect_wf r"
    and "(case rd of Some r \<Rightarrow> redirect_serialize r | None \<Rightarrow> Inr []) = Inr b"
  shows "reads (read_redirect c) b rd"
  using assms redirect.dec_enc by (cases rd) (auto simp: reads_def read_redirect_def)

interpretation rer_msg: control_payload request_error_payload request_error_parse_payload request_error_wf request_error_norm
proof (unfold_locales, goal_cases)
  case (1 m)
  then show ?case
    using redirect.enc_total by (auto simp: request_error_defs payload_total_simps split: option.splits)
next
  case (2 m b)
  then obtain rp rd where
    b: "b = put_vi (request_error_code_to_wire (rer_error_code m)) @ put_vi (rer_retry_interval m) @ rp @ rd"
    and rp: "reads reason_phrase_deserialize rp (rer_reason_phrase m)"
    and rd: "reads (read_redirect (rer_error_code m)) rd (rer_redirect m)"
    by (auto simp: request_error_defs payload_read_simps intro: reads_reason reads_read_redirect)
  show ?case
    unfolding b request_error_parse_payload_def request_error_norm_def
    by (rule reads_all_pbind reads_get_vi rp)+
       (simp, rule reads_all_pbind_last [OF reads_imp_all [OF rd]], simp add: reads_all_def)
qed

subsection \<open>GoAway\<close>

abbreviation (input) MAX_NEW_SESSION_URI_LEN :: nat where
  "MAX_NEW_SESSION_URI_LEN \<equiv> 8192"

record goaway_msg =
  gaw_new_session_uri :: "bytes option"
  gaw_timeout :: u64

definition goaway_new :: "bytes option \<Rightarrow> u64 \<Rightarrow> goaway_msg" where
  "goaway_new new_session_uri timeout =
     \<lparr>gaw_new_session_uri = Option.bind new_session_uri (\<lambda>uri. if uri = [] then None else Some uri),
      gaw_timeout = timeout\<rparr>"

definition goaway_payload :: "goaway_msg \<Rightarrow> bytes res" where
  "goaway_payload m =
     Inr ((case gaw_new_session_uri m of
             Some uri \<Rightarrow> put_vi (word_of_nat (length uri)) @ uri
           | None \<Rightarrow> put_vi 0)
          @ put_vi (gaw_timeout m))"

definition goaway_serialize :: "goaway_msg \<Rightarrow> bytes res" where
  "goaway_serialize m = rbind (goaway_payload m) (frame ''GoAway::serialize(payload_length)'' CMT_GoAway)"

definition goaway_parse_payload :: "goaway_msg parser" where
  "goaway_parse_payload =
     pbind get_vi (\<lambda>v.
     pbind (plift (try_into_usize ''GoAway::parse_payload(uri_length)'' v)) (\<lambda>uri_length.
       if MAX_NEW_SESSION_URI_LEN < uri_length
       then pfail (ProtocolViolation ''GoAway::parse_payload(uri_length)'')
       else
         pbind (if uri_length = 0 then preturn None
                else
                  pbind (require_bytes ''GoAway::parse_payload(uri_length)'' uri_length) (\<lambda>_.
                  pbind (copy_to_bytes uri_length) (\<lambda>raw.
                  pbind (plift (string_from_utf8 ''GoAway::parse_payload(new_session_uri)'' raw)) (\<lambda>uri.
                    preturn (Some uri))))) (\<lambda>uri.
         pbind get_vi (\<lambda>timeout.
           preturn \<lparr>gaw_new_session_uri = uri, gaw_timeout = timeout\<rparr>))))"

definition goaway_wf :: "goaway_msg \<Rightarrow> bool" where
  "goaway_wf m \<longleftrightarrow>
     (\<forall>u. gaw_new_session_uri m = Some u \<longrightarrow>
        u \<noteq> [] \<and> valid_utf8 u \<and> length u \<le> MAX_NEW_SESSION_URI_LEN)"

definition goaway_norm :: "goaway_msg \<Rightarrow> goaway_msg" where
  "goaway_norm m = m"

lemmas goaway_defs = goaway_payload_def goaway_parse_payload_def goaway_wf_def goaway_norm_def

interpretation gaw_msg: control_payload goaway_payload goaway_parse_payload goaway_wf goaway_norm
proof (unfold_locales, goal_cases)
  case (1 m)
  show ?case by (simp add: goaway_payload_def)
next
  case (2 m b)
  have vi: "get_vi (put_vi w) = (Inr w, [])" for w
    using get_vi_put_vi [of w "[]"] by simp
  from 2 show ?case
    by (cases "gaw_new_session_uri m") (auto simp: goaway_defs reads_all_def vi)
qed

subsection \<open>Setup\<close>

datatype setup_sender = Client | Server

datatype transport_kind = WebTransport | Quic

record setup_msg =
  stp_setup_options :: "key_value_pair list"

definition setup_payload :: "setup_msg \<Rightarrow> bytes res" where
  "setup_payload m = serialize_kvp_list (stp_setup_options m)"

definition setup_serialize :: "setup_msg \<Rightarrow> bytes res" where
  "setup_serialize m = rbind (setup_payload m) (frame ''Setup::serialize(payload_length)'' CMT_Setup)"

definition setup_parse_payload :: "setup_msg parser" where
  "setup_parse_payload =
     pbind deserialize_kvp_list_until_empty (\<lambda>kvps. preturn \<lparr>stp_setup_options = kvps\<rparr>)"

definition setup_wf :: "setup_msg \<Rightarrow> bool" where
  "setup_wf m \<longleftrightarrow> (\<forall>k \<in> set (stp_setup_options m). kvp_wf k)"

definition setup_norm :: "setup_msg \<Rightarrow> setup_msg" where
  "setup_norm m = m\<lparr>stp_setup_options := sort_key get_type (stp_setup_options m)\<rparr>"

lemmas setup_defs = setup_payload_def setup_parse_payload_def setup_wf_def setup_norm_def

interpretation stp_msg: control_payload setup_payload setup_parse_payload setup_wf setup_norm
proof (unfold_locales, goal_cases)
  case (1 m)
  then show ?case
    using kvps_roundtrip [OF _ ascending_sort, of "stp_setup_options m"]
    by (auto simp: setup_defs serialize_kvp_list_def)
next
  case (2 m b)
  then show ?case
    using kvps_roundtrip [OF _ ascending_sort, of "stp_setup_options m"]
    by (cases m) (auto simp: setup_defs serialize_kvp_list_def deserialize_kvp_list_until_empty_def reads_all_def)
qed

fun find_map :: "('a \<Rightarrow> 'b option) \<Rightarrow> 'a list \<Rightarrow> 'b option" where
  "find_map f [] = None"
| "find_map f (x # xs) = (case f x of Some y \<Rightarrow> Some y | None \<Rightarrow> find_map f xs)"

text \<open>The loop of \<open>validate_incoming\<close>: an option that is not for a server, or not for WebTransport.\<close>

definition setup_option_code :: "key_value_pair \<Rightarrow> termination_code option" where
  "setup_option_code kvp =
     (case setup_option_type_try_from (get_type kvp) of
        Inr SOT_Authority \<Rightarrow> Some TC_InvalidAuthority
      | Inr SOT_Path \<Rightarrow> Some TC_InvalidPath
      | _ \<Rightarrow> None)"

fun validate_options :: "key_value_pair list \<Rightarrow> setup_sender \<Rightarrow> transport_kind \<Rightarrow> termination_code + unit" where
  "validate_options [] sender transport = Inr ()"
| "validate_options (kvp # kvps) sender transport =
     (case setup_option_code kvp of
        None \<Rightarrow> validate_options kvps sender transport
      | Some code \<Rightarrow>
          if sender = Server \<or> transport = WebTransport then Inl code
          else validate_options kvps sender transport)"

definition validate_incoming :: "setup_msg \<Rightarrow> setup_sender \<Rightarrow> transport_kind \<Rightarrow> termination_code + unit" where
  "validate_incoming m = validate_options (stp_setup_options m)"

lemma validate_options_Inl:
  "validate_options ks s t = Inl c \<longleftrightarrow>
     (s = Server \<or> t = WebTransport) \<and> find_map setup_option_code ks = Some c"
  by (induction ks) (auto split: option.splits)

subsection \<open>Accessors\<close>

definition as_location_filter :: "message_parameter \<Rightarrow> location_filter option" where
  "as_location_filter p = (case p of MP_LocationFilter f \<Rightarrow> Some f | _ \<Rightarrow> None)"

definition fetch_get_location_filter :: "fetch_msg \<Rightarrow> location_filter" where
  "fetch_get_location_filter m =
     (case find_map as_location_filter (fet_parameters m) of Some f \<Rightarrow> f | None \<Rightarrow> LF_None)"

definition fetch_new_with_location_filter ::
  "u64 \<Rightarrow> tuple \<Rightarrow> tuple_field \<Rightarrow> location_filter \<Rightarrow> message_parameter list \<Rightarrow> fetch_msg" where
  "fetch_new_with_location_filter request_id ns nm filt parameters =
     \<lparr>fet_request_id = request_id, fet_track_namespace = ns, fet_track_name = nm,
      fet_parameters = parameters @ [MP_LocationFilter filt]\<rparr>"

definition fetch_group_order :: "fetch_msg \<Rightarrow> group_order" where
  "fetch_group_order m =
     (case find_map (\<lambda>p. case p of MP_GroupOrder g \<Rightarrow> Some g | _ \<Rightarrow> None) (fet_parameters m) of
        Some g \<Rightarrow> g | None \<Rightarrow> GO_Ascending)"

definition subscribe_get_location_filter :: "subscribe_msg \<Rightarrow> location_filter option" where
  "subscribe_get_location_filter m = find_map as_location_filter (sub_subscribe_parameters m)"

definition subscribe_new_with_location_filter ::
  "u64 \<Rightarrow> tuple \<Rightarrow> tuple_field \<Rightarrow> location_filter \<Rightarrow> message_parameter list \<Rightarrow> subscribe_msg" where
  "subscribe_new_with_location_filter request_id ns nm filt parameters =
     \<lparr>sub_request_id = request_id, sub_track_namespace = ns, sub_track_name = nm,
      sub_subscribe_parameters = parameters @ [MP_LocationFilter filt]\<rparr>"

definition validate_track_properties :: "request_ok_msg \<Rightarrow> bool \<Rightarrow> unit res" where
  "validate_track_properties m answers_track_status =
     (if \<not> answers_track_status \<and> rok_track_properties m \<noteq> []
      then Inl (ProtocolViolation ''RequestOk::validate_track_properties'') else Inr ())"

end
