(* ===== verification/Control_Stream.thy ===== *)
theory Control_Stream
  imports Control_Messages
begin

text \<open>
  The control stream: the tagged union of the control messages with its framed reader and writer
  (\<open>model/control/control_message.rs\<close>) and the reader of a stream
  (\<open>transport/control_stream_handler.rs\<close>), which buffers what the transport delivers, parses the
  buffer after every read and gives up on a message whose rest does not arrive within five seconds.
  What the transport's read returns, and when, is an explicit list of timed events.
\<close>

subsection \<open>Control messages\<close>

datatype control_message =
    CM_Namespace namespace_msg
  | CM_NamespaceDone namespace_done_msg
  | CM_PublishNamespace publish_namespace_msg
  | CM_RequestOk request_ok_msg
  | CM_Publish publish_msg
  | CM_PublishDone publish_done_msg
  | CM_Fetch fetch_msg
  | CM_FetchOk fetch_ok_msg
  | CM_Goaway goaway_msg
  | CM_Setup setup_msg
  | CM_Subscribe subscribe_msg
  | CM_SubscribeOk subscribe_ok_msg
  | CM_RequestUpdate request_update_msg
  | CM_TrackStatus track_status_msg
  | CM_SubscribeNamespace subscribe_namespace_msg
  | CM_SubscribeTracks subscribe_tracks_msg
  | CM_RequestError request_error_msg
  | CM_PublishSkipped publish_skipped_msg

definition pmap :: "('a \<Rightarrow> 'b) \<Rightarrow> 'a parser \<Rightarrow> 'b parser" where
  "pmap f p = pbind p (\<lambda>x. preturn (f x))"

fun parse_body :: "control_message_type \<Rightarrow> control_message parser" where
  "parse_body CMT_Namespace = pmap CM_Namespace namespace_parse_payload"
| "parse_body CMT_NamespaceDone = pmap CM_NamespaceDone namespace_done_parse_payload"
| "parse_body CMT_PublishNamespace = pmap CM_PublishNamespace publish_namespace_parse_payload"
| "parse_body CMT_RequestError = pmap CM_RequestError request_error_parse_payload"
| "parse_body CMT_RequestOk = pmap CM_RequestOk request_ok_parse_payload"
| "parse_body CMT_Publish = pmap CM_Publish publish_parse_payload"
| "parse_body CMT_PublishOk = pmap CM_RequestOk request_ok_parse_payload"
| "parse_body CMT_PublishDone = pmap CM_PublishDone publish_done_parse_payload"
| "parse_body CMT_Setup = pmap CM_Setup setup_parse_payload"
| "parse_body CMT_Fetch = pmap CM_Fetch fetch_parse_payload"
| "parse_body CMT_FetchOk = pmap CM_FetchOk fetch_ok_parse_payload"
| "parse_body CMT_GoAway = pmap CM_Goaway goaway_parse_payload"
| "parse_body CMT_Subscribe = pmap CM_Subscribe subscribe_parse_payload"
| "parse_body CMT_SubscribeOk = pmap CM_SubscribeOk subscribe_ok_parse_payload"
| "parse_body CMT_RequestUpdate = pmap CM_RequestUpdate request_update_parse_payload"
| "parse_body CMT_TrackStatus = pmap CM_TrackStatus track_status_parse_payload"
| "parse_body CMT_SubscribeNamespace = pmap CM_SubscribeNamespace subscribe_namespace_parse_payload"
| "parse_body CMT_SubscribeTracks = pmap CM_SubscribeTracks subscribe_tracks_parse_payload"
| "parse_body CMT_PublishSkipped = pmap CM_PublishSkipped publish_skipped_parse_payload"

text \<open>The payload is cut out before it is parsed, so an error inside it never consumes less or
  more than the announced length.\<close>

definition parse_whole :: "control_message_type \<Rightarrow> bytes \<Rightarrow> control_message res" where
  "parse_whole msg_type payload =
     (case parse_body msg_type payload of
        (Inl _, _) \<Rightarrow> Inl (ProtocolViolation ''ControlMessage::deserialize(payload)'')
      | (Inr message, payload') \<Rightarrow>
          if payload' \<noteq> [] then Inl (ProtocolViolation ''ControlMessage::deserialize(final_check)'')
          else Inr message)"

definition control_message_deserialize :: "control_message parser" where
  "control_message_deserialize =
     pbind get_vi (\<lambda>message_type.
     pbind (plift (control_message_type_try_from message_type)) (\<lambda>msg_type.
     pbind remaining (\<lambda>n.
       if n < 2 then pfail (NotEnoughBytes ''ControlMessage::deserialize(payload_length)'' 2 0)
       else
         pbind (copy_to_bytes 2) (\<lambda>len.
         pbind (require_bytes ''ControlMessage::deserialize(payload_length)'' (get_u16 len)) (\<lambda>_.
         pbind (copy_to_bytes (get_u16 len)) (\<lambda>payload.
           plift (parse_whole msg_type payload)))))))"

fun control_message_serialize :: "control_message \<Rightarrow> bytes res" where
  "control_message_serialize (CM_Namespace m) = namespace_serialize m"
| "control_message_serialize (CM_NamespaceDone m) = namespace_done_serialize m"
| "control_message_serialize (CM_PublishNamespace m) = publish_namespace_serialize m"
| "control_message_serialize (CM_RequestError m) = request_error_serialize m"
| "control_message_serialize (CM_RequestOk m) = request_ok_serialize m"
| "control_message_serialize (CM_Publish m) = publish_serialize m"
| "control_message_serialize (CM_PublishDone m) = publish_done_serialize m"
| "control_message_serialize (CM_Fetch m) = fetch_serialize m"
| "control_message_serialize (CM_FetchOk m) = fetch_ok_serialize m"
| "control_message_serialize (CM_Goaway m) = goaway_serialize m"
| "control_message_serialize (CM_Setup m) = setup_serialize m"
| "control_message_serialize (CM_Subscribe m) = subscribe_serialize m"
| "control_message_serialize (CM_SubscribeOk m) = subscribe_ok_serialize m"
| "control_message_serialize (CM_RequestUpdate m) = request_update_serialize m"
| "control_message_serialize (CM_TrackStatus m) = track_status_serialize m"
| "control_message_serialize (CM_SubscribeNamespace m) = subscribe_namespace_serialize m"
| "control_message_serialize (CM_SubscribeTracks m) = subscribe_tracks_serialize m"
| "control_message_serialize (CM_PublishSkipped m) = publish_skipped_serialize m"

fun control_message_get_type :: "control_message \<Rightarrow> control_message_type" where
  "control_message_get_type (CM_Namespace _) = CMT_Namespace"
| "control_message_get_type (CM_NamespaceDone _) = CMT_NamespaceDone"
| "control_message_get_type (CM_PublishNamespace _) = CMT_PublishNamespace"
| "control_message_get_type (CM_RequestError _) = CMT_RequestError"
| "control_message_get_type (CM_RequestOk _) = CMT_RequestOk"
| "control_message_get_type (CM_Publish _) = CMT_Publish"
| "control_message_get_type (CM_PublishDone _) = CMT_PublishDone"
| "control_message_get_type (CM_Fetch _) = CMT_Fetch"
| "control_message_get_type (CM_FetchOk _) = CMT_FetchOk"
| "control_message_get_type (CM_Goaway _) = CMT_GoAway"
| "control_message_get_type (CM_Setup _) = CMT_Setup"
| "control_message_get_type (CM_Subscribe _) = CMT_Subscribe"
| "control_message_get_type (CM_SubscribeOk _) = CMT_SubscribeOk"
| "control_message_get_type (CM_RequestUpdate _) = CMT_RequestUpdate"
| "control_message_get_type (CM_TrackStatus _) = CMT_TrackStatus"
| "control_message_get_type (CM_SubscribeNamespace _) = CMT_SubscribeNamespace"
| "control_message_get_type (CM_SubscribeTracks _) = CMT_SubscribeTracks"
| "control_message_get_type (CM_PublishSkipped _) = CMT_PublishSkipped"

definition control_message_request_id :: "control_message \<Rightarrow> u64 option" where
  "control_message_request_id msg =
     (case msg of
        CM_Subscribe m \<Rightarrow> Some (sub_request_id m)
      | CM_Publish m \<Rightarrow> Some (pub_request_id m)
      | CM_Fetch m \<Rightarrow> Some (fet_request_id m)
      | CM_SubscribeNamespace m \<Rightarrow> Some (sns_request_id m)
      | CM_SubscribeTracks m \<Rightarrow> Some (str_request_id m)
      | CM_PublishNamespace m \<Rightarrow> Some (pns_request_id m)
      | CM_RequestUpdate m \<Rightarrow> Some (rup_request_id m)
      | CM_TrackStatus m \<Rightarrow> Some (tst_request_id m)
      | _ \<Rightarrow> None)"

subsection \<open>The stream handler\<close>

abbreviation (input) CONTROL_MESSAGE_TIMEOUT :: nat where
  "CONTROL_MESSAGE_TIMEOUT \<equiv> 5000"

text \<open>Times are milliseconds. A read of the transport yields data, the end of the stream or an
  error; \<open>Pending\<close> says that it has yielded nothing up to a time.\<close>

datatype read_event = Data bytes | Fin | NotConnected | ReadError | Pending

record control_stream_handler =
  recv_bytes :: bytes
  partial_message_deadline :: "nat option"

definition control_stream_handler_new :: control_stream_handler where
  "control_stream_handler_new = \<lparr>recv_bytes = [], partial_message_deadline = None\<rparr>"

text \<open>The head of the loop of \<open>next_message\<close>: a result, or a state to read more in.\<close>

definition try_parse ::
  "nat \<Rightarrow> control_stream_handler \<Rightarrow> (termination_code + control_message) option \<times> control_stream_handler" where
  "try_parse now h =
     (if recv_bytes h = [] then (None, h)
      else case control_message_deserialize (recv_bytes h) of
             (Inr msg, bytes) \<Rightarrow>
               (let consumed = length (recv_bytes h) - length bytes
                in (Some (Inr msg),
                    h\<lparr>recv_bytes := drop consumed (recv_bytes h), partial_message_deadline := None\<rparr>))
           | (Inl e, _) \<Rightarrow>
               (case e of
                  ProtocolViolation _ \<Rightarrow> (Some (Inl TC_ProtocolViolation), h)
                | NotEnoughBytes _ _ _ \<Rightarrow>
                    (None,
                     if partial_message_deadline h = None
                     then h\<lparr>partial_message_deadline := Some (now + CONTROL_MESSAGE_TIMEOUT)\<rparr> else h)
                | _ \<Rightarrow> (None, h)))"

definition handle_read_result ::
  "control_stream_handler \<Rightarrow> read_event \<Rightarrow> (termination_code + unit) \<times> control_stream_handler" where
  "handle_read_result h ev =
     (case ev of
        Data bs \<Rightarrow> (Inr (), if 0 < length bs then h\<lparr>recv_bytes := recv_bytes h @ bs\<rparr> else h)
      | Fin \<Rightarrow> (Inl TC_ProtocolViolation, h)
      | NotConnected \<Rightarrow> (Inl TC_NoError, h)
      | ReadError \<Rightarrow> (Inl TC_InternalError, h)
      | Pending \<Rightarrow> (Inr (), h))"

text \<open>The deadline is tested first and wins when it and the read are both ready.\<close>

definition read_more_data ::
  "control_stream_handler \<Rightarrow> nat \<Rightarrow> read_event \<Rightarrow> (termination_code + unit) \<times> control_stream_handler" where
  "read_more_data h t ev =
     (case partial_message_deadline h of
        Some deadline \<Rightarrow>
          if deadline \<le> t
          then (Inl TC_ControlMessageTimeout, h\<lparr>partial_message_deadline := None, recv_bytes := []\<rparr>)
          else handle_read_result h ev
      | None \<Rightarrow> handle_read_result h ev)"

text \<open>One call: the result (none when it is still waiting after the events), the handler, the
  time and the events not yet consumed.\<close>

fun next_message ::
  "control_stream_handler \<Rightarrow> nat \<Rightarrow> (nat \<times> read_event) list \<Rightarrow>
     (termination_code + control_message) option \<times> control_stream_handler \<times> nat \<times> (nat \<times> read_event) list" where
  "next_message h now evs =
     (case try_parse now h of
        (Some r, h') \<Rightarrow> (Some r, h', now, evs)
      | (None, h') \<Rightarrow>
          (case evs of
             [] \<Rightarrow> (None, h', now, [])
           | (t, ev) # evs' \<Rightarrow>
               (case read_more_data h' t ev of
                  (Inl code, h'') \<Rightarrow> (Some (Inl code), h'', t, evs')
                | (Inr _, h'') \<Rightarrow> next_message h'' t evs')))"

declare next_message.simps [simp del]

definition read_setup ::
  "control_stream_handler \<Rightarrow> nat \<Rightarrow> (nat \<times> read_event) list \<Rightarrow>
     (termination_code + setup_msg) option \<times> control_stream_handler \<times> nat \<times> (nat \<times> read_event) list" where
  "read_setup h now evs =
     (case next_message h now evs of
        (r, rest) \<Rightarrow>
          (map_option (\<lambda>r. rbind r (\<lambda>msg. case msg of CM_Setup s \<Rightarrow> Inr s | _ \<Rightarrow> Inl TC_ProtocolViolation)) r,
           rest))"

text \<open>What \<open>send\<close> hands to the transport, which may fail.\<close>

definition handler_send :: "(bytes \<Rightarrow> bool) \<Rightarrow> control_message \<Rightarrow> (termination_code + bytes)" where
  "handler_send write_all msg =
     rbind (map_err (\<lambda>_. TC_InternalError) (control_message_serialize msg)) (\<lambda>bs.
       if write_all bs then Inr bs else Inl TC_InternalError)"

text \<open>The messages of a number of calls in a row, up to the first call that does not return one.\<close>

fun receive ::
  "nat \<Rightarrow> control_stream_handler \<Rightarrow> nat \<Rightarrow> (nat \<times> read_event) list \<Rightarrow>
     control_message list \<times> control_stream_handler \<times> (nat \<times> read_event) list" where
  "receive 0 h now evs = ([], h, evs)"
| "receive (Suc n) h now evs =
     (case next_message h now evs of
        (Some (Inr msg), h', now', evs') \<Rightarrow>
          (case receive n h' now' evs' of (msgs, rest) \<Rightarrow> (msg # msgs, rest))
      | (_, h', now', evs') \<Rightarrow> ([], h', evs'))"

subsection \<open>Frames of well-formed messages\<close>

fun cm_payload :: "control_message \<Rightarrow> bytes res" where
  "cm_payload (CM_Namespace m) = namespace_payload m"
| "cm_payload (CM_NamespaceDone m) = namespace_done_payload m"
| "cm_payload (CM_PublishNamespace m) = publish_namespace_payload m"
| "cm_payload (CM_RequestError m) = request_error_payload m"
| "cm_payload (CM_RequestOk m) = request_ok_payload m"
| "cm_payload (CM_Publish m) = publish_payload m"
| "cm_payload (CM_PublishDone m) = publish_done_payload m"
| "cm_payload (CM_Fetch m) = fetch_payload m"
| "cm_payload (CM_FetchOk m) = fetch_ok_payload m"
| "cm_payload (CM_Goaway m) = goaway_payload m"
| "cm_payload (CM_Setup m) = setup_payload m"
| "cm_payload (CM_Subscribe m) = subscribe_payload m"
| "cm_payload (CM_SubscribeOk m) = subscribe_ok_payload m"
| "cm_payload (CM_RequestUpdate m) = request_update_payload m"
| "cm_payload (CM_TrackStatus m) = track_status_payload m"
| "cm_payload (CM_SubscribeNamespace m) = subscribe_namespace_payload m"
| "cm_payload (CM_SubscribeTracks m) = subscribe_tracks_payload m"
| "cm_payload (CM_PublishSkipped m) = publish_skipped_payload m"

fun cm_wf :: "control_message \<Rightarrow> bool" where
  "cm_wf (CM_Namespace m) = namespace_wf m"
| "cm_wf (CM_NamespaceDone m) = namespace_done_wf m"
| "cm_wf (CM_PublishNamespace m) = publish_namespace_wf m"
| "cm_wf (CM_RequestError m) = request_error_wf m"
| "cm_wf (CM_RequestOk m) = request_ok_wf m"
| "cm_wf (CM_Publish m) = publish_wf m"
| "cm_wf (CM_PublishDone m) = publish_done_wf m"
| "cm_wf (CM_Fetch m) = fetch_wf m"
| "cm_wf (CM_FetchOk m) = fetch_ok_wf m"
| "cm_wf (CM_Goaway m) = goaway_wf m"
| "cm_wf (CM_Setup m) = setup_wf m"
| "cm_wf (CM_Subscribe m) = subscribe_wf m"
| "cm_wf (CM_SubscribeOk m) = subscribe_ok_wf m"
| "cm_wf (CM_RequestUpdate m) = request_update_wf m"
| "cm_wf (CM_TrackStatus m) = track_status_wf m"
| "cm_wf (CM_SubscribeNamespace m) = subscribe_namespace_wf m"
| "cm_wf (CM_SubscribeTracks m) = subscribe_tracks_wf m"
| "cm_wf (CM_PublishSkipped m) = publish_skipped_wf m"

fun cm_norm :: "control_message \<Rightarrow> control_message" where
  "cm_norm (CM_Namespace m) = CM_Namespace (namespace_norm m)"
| "cm_norm (CM_NamespaceDone m) = CM_NamespaceDone (namespace_done_norm m)"
| "cm_norm (CM_PublishNamespace m) = CM_PublishNamespace (publish_namespace_norm m)"
| "cm_norm (CM_RequestError m) = CM_RequestError (request_error_norm m)"
| "cm_norm (CM_RequestOk m) = CM_RequestOk (request_ok_norm m)"
| "cm_norm (CM_Publish m) = CM_Publish (publish_norm m)"
| "cm_norm (CM_PublishDone m) = CM_PublishDone (publish_done_norm m)"
| "cm_norm (CM_Fetch m) = CM_Fetch (fetch_norm m)"
| "cm_norm (CM_FetchOk m) = CM_FetchOk (fetch_ok_norm m)"
| "cm_norm (CM_Goaway m) = CM_Goaway (goaway_norm m)"
| "cm_norm (CM_Setup m) = CM_Setup (setup_norm m)"
| "cm_norm (CM_Subscribe m) = CM_Subscribe (subscribe_norm m)"
| "cm_norm (CM_SubscribeOk m) = CM_SubscribeOk (subscribe_ok_norm m)"
| "cm_norm (CM_RequestUpdate m) = CM_RequestUpdate (request_update_norm m)"
| "cm_norm (CM_TrackStatus m) = CM_TrackStatus (track_status_norm m)"
| "cm_norm (CM_SubscribeNamespace m) = CM_SubscribeNamespace (subscribe_namespace_norm m)"
| "cm_norm (CM_SubscribeTracks m) = CM_SubscribeTracks (subscribe_tracks_norm m)"
| "cm_norm (CM_PublishSkipped m) = CM_PublishSkipped (publish_skipped_norm m)"

lemmas serialize_defs =
  namespace_serialize_def namespace_done_serialize_def publish_namespace_serialize_def
  request_error_serialize_def request_ok_serialize_def publish_serialize_def publish_done_serialize_def
  fetch_serialize_def fetch_ok_serialize_def goaway_serialize_def setup_serialize_def
  subscribe_serialize_def subscribe_ok_serialize_def request_update_serialize_def
  track_status_serialize_def subscribe_namespace_serialize_def subscribe_tracks_serialize_def
  publish_skipped_serialize_def

lemmas payload_totals =
  nsp_msg.payload_total nsd_msg.payload_total pns_msg.payload_total rer_msg.payload_total
  rok_msg.payload_total pub_msg.payload_total pdn_msg.payload_total fet_msg.payload_total
  fok_msg.payload_total gaw_msg.payload_total stp_msg.payload_total sub_msg.payload_total
  sok_msg.payload_total rup_msg.payload_total tst_msg.payload_total sns_msg.payload_total
  str_msg.payload_total psk_msg.payload_total

lemmas parse_payloads =
  nsp_msg.parse_payload nsd_msg.parse_payload pns_msg.parse_payload rer_msg.parse_payload
  rok_msg.parse_payload pub_msg.parse_payload pdn_msg.parse_payload fet_msg.parse_payload
  fok_msg.parse_payload gaw_msg.parse_payload stp_msg.parse_payload sub_msg.parse_payload
  sok_msg.parse_payload rup_msg.parse_payload tst_msg.parse_payload sns_msg.parse_payload
  str_msg.parse_payload psk_msg.parse_payload

lemma serialize_frame:
  "\<exists>ctx. control_message_serialize m = rbind (cm_payload m) (frame ctx (control_message_get_type m))"
  by (cases m) (auto simp: serialize_defs)

lemma cm_payload_total: "cm_wf m \<Longrightarrow> \<exists>b. cm_payload m = Inr b"
  by (cases m) (simp_all add: payload_totals)

lemma pmap_reads_all: "reads_all p b x \<Longrightarrow> pmap f p b = (Inr (f x), [])"
  by (simp add: pmap_def reads_all_def)

lemma parse_whole_payload:
  assumes "cm_wf m" "cm_payload m = Inr b"
  shows "parse_whole (control_message_get_type m) b = Inr (cm_norm m)"
proof -
  have "parse_body (control_message_get_type m) b = (Inr (cm_norm m), [])"
    using assms by (cases m) (simp_all add: pmap_reads_all parse_payloads)
  then show ?thesis by (simp add: parse_whole_def)
qed

text \<open>A frame, whole or cut short.\<close>

lemma deserialize_frame:
  assumes "length payload < 2 ^ 16"
  shows "control_message_deserialize
           (put_vi (control_message_type_to_wire t) @ put_u16 (length payload) @ payload @ rest)
         = (parse_whole t payload, rest)"
  using assms get_u16_put_u16 [of "length payload" "[]"]
  by (simp add: control_message_deserialize_def remaining_def copy_to_bytes_def require_bytes_def
      pbind_apply cmt_enum.try_to)

lemma get_vi_cut:
  assumes "put_vi v = p @ q" "q \<noteq> []"
  shows "\<exists>c n a r. get_vi p = (Inl (NotEnoughBytes c n a), r)"
proof -
  have "get_vi (put_vi v) = (Inr v, [])" using get_vi_put_vi [of v "[]"] by simp
  then have "announced (put_vi v) = length (put_vi v)"
    using get_vi_rest get_vi_ok_iff [of "put_vi v"] by fastforce
  with assms have "length p < announced p \<or> p = []"
    by (cases p) (auto simp: announced_def)
  then show ?thesis
    by (auto simp: get_vi_def announced_def Let_def split: list.splits)
qed

lemma append_cut:
  assumes "xs @ ys = p @ q"
  shows "(\<exists>us. xs = p @ us \<and> us \<noteq> []) \<or> (\<exists>us. p = xs @ us \<and> ys = us @ q)"
  using assms by (auto simp: append_eq_append_conv2)

lemma deserialize_cut:
  assumes "length payload < 2 ^ 16" "q \<noteq> []"
    and "put_vi (control_message_type_to_wire t) @ put_u16 (length payload) @ payload = p @ q"
  shows "\<exists>c n a r. control_message_deserialize p = (Inl (NotEnoughBytes c n a), r)"
proof -
  from append_cut [OF assms(3)] show ?thesis
  proof (elim disjE exE conjE)
    fix us assume "put_vi (control_message_type_to_wire t) = p @ us" "us \<noteq> []"
    from get_vi_cut [OF this] show ?thesis by (auto simp: control_message_deserialize_def)
  next
    fix us assume p: "p = put_vi (control_message_type_to_wire t) @ us"
      and us: "put_u16 (length payload) @ payload = us @ q"
    show ?thesis
    proof (cases "length us < 2")
      case True
      then show ?thesis
        by (simp add: p control_message_deserialize_def remaining_def cmt_enum.try_to pbind_apply)
    next
      case False
      with us obtain vs where vs: "us = put_u16 (length payload) @ vs" "payload = vs @ q"
        by (auto simp: append_eq_append_conv2 put_u16_def Cons_eq_append_conv)
      have "length vs < length payload" using vs(2) assms(2) by simp
      then show ?thesis
        using get_u16_put_u16 [of "length payload" "[]"] assms(1)
        by (simp add: p vs(1) control_message_deserialize_def remaining_def copy_to_bytes_def
            require_bytes_def cmt_enum.try_to pbind_apply)
    qed
  qed
qed

lemma serialize_Inr:
  assumes "cm_wf m" "control_message_serialize m = Inr f"
  obtains b where "cm_payload m = Inr b" "length b < 2 ^ 16"
    "f = put_vi (control_message_type_to_wire (control_message_get_type m)) @ put_u16 (length b) @ b"
  using assms serialize_frame [of m] cm_payload_total [of m]
  by (auto simp: frame_def split: if_splits)

lemma frame_whole:
  assumes "cm_wf m" "control_message_serialize m = Inr f"
  shows "control_message_deserialize (f @ rest) = (Inr (cm_norm m), rest)"
proof -
  from serialize_Inr [OF assms] obtain b where b: "cm_payload m = Inr b" "length b < 2 ^ 16"
    "f = put_vi (control_message_type_to_wire (control_message_get_type m)) @ put_u16 (length b) @ b" .
  with deserialize_frame [OF b(2), of "control_message_get_type m" rest] parse_whole_payload [OF assms(1) b(1)]
  show ?thesis by simp
qed

lemma frame_cut:
  assumes "cm_wf m" "control_message_serialize m = Inr (p @ q)" "q \<noteq> []"
  shows "\<exists>c n a r. control_message_deserialize p = (Inl (NotEnoughBytes c n a), r)"
proof -
  from serialize_Inr [OF assms(1,2)] obtain b where b: "length b < 2 ^ 16"
    "p @ q = put_vi (control_message_type_to_wire (control_message_get_type m)) @ put_u16 (length b) @ b" .
  from deserialize_cut [OF b(1) assms(3) b(2) [symmetric]] show ?thesis .
qed

lemma frame_nonempty: "cm_wf m \<Longrightarrow> control_message_serialize m = Inr f \<Longrightarrow> f \<noteq> []"
  using frame_whole [of m f "[]"] by (auto simp: control_message_deserialize_def get_vi_def)

subsection \<open>Reading a stream\<close>

fun event_bytes :: "nat \<times> read_event \<Rightarrow> bytes" where
  "event_bytes (t, Data bs) = bs"
| "event_bytes (t, _) = []"

definition data_of :: "(nat \<times> read_event) list \<Rightarrow> bytes" where
  "data_of evs = concat (map event_bytes evs)"

text \<open>Nothing but data arrives, all of it within the timeout of a moment \<open>lo\<close>.\<close>

definition timely :: "nat \<Rightarrow> (nat \<times> read_event) list \<Rightarrow> bool" where
  "timely lo evs \<longleftrightarrow> (\<forall>(t, ev) \<in> set evs. lo \<le> t \<and> t < lo + CONTROL_MESSAGE_TIMEOUT \<and> (\<exists>bs. ev = Data bs))"

definition patient :: "nat \<Rightarrow> control_stream_handler \<Rightarrow> bool" where
  "patient lo h \<longleftrightarrow> (\<forall>d. partial_message_deadline h = Some d \<longrightarrow> lo + CONTROL_MESSAGE_TIMEOUT \<le> d)"

lemma try_parse_whole:
  assumes "cm_wf m" "control_message_serialize m = Inr f" "recv_bytes h = f @ rest"
  shows "try_parse now h = (Some (Inr (cm_norm m)), h\<lparr>recv_bytes := rest, partial_message_deadline := None\<rparr>)"
  using assms frame_whole [OF assms(1,2)] frame_nonempty [OF assms(1,2)] by (simp add: try_parse_def)

lemma try_parse_cut:
  assumes "cm_wf m" "control_message_serialize m = Inr (recv_bytes h @ q)" "q \<noteq> []" "recv_bytes h \<noteq> []"
  shows "try_parse now h =
           (None, if partial_message_deadline h = None
                  then h\<lparr>partial_message_deadline := Some (now + CONTROL_MESSAGE_TIMEOUT)\<rparr> else h)"
  using frame_cut [OF assms(1-3)] assms(4) by (auto simp: try_parse_def)

lemma try_parse_waits:
  assumes "cm_wf m" "control_message_serialize m = Inr (recv_bytes h @ q)" "q \<noteq> []" "lo \<le> now" "patient lo h"
  obtains h' where "try_parse now h = (None, h')" "recv_bytes h' = recv_bytes h" "patient lo h'"
  using assms try_parse_cut [OF assms(1-3)]
  by (cases "recv_bytes h = []") (auto simp: try_parse_def patient_def split: if_splits)

lemma next_message_delivers:
  assumes "cm_wf m" "control_message_serialize m = Inr f"
    and "recv_bytes h @ data_of evs = f @ rest" "timely lo evs" "lo \<le> now" "patient lo h"
  shows "\<exists>h' now' evs'. next_message h now evs = (Some (Inr (cm_norm m)), h', now', evs')
           \<and> recv_bytes h' @ data_of evs' = rest \<and> timely lo evs' \<and> lo \<le> now' \<and> patient lo h'"
  using assms(3-)
proof (induction evs arbitrary: h now)
  case Nil
  then show ?case
    using try_parse_whole [OF assms(1,2), of h rest now]
    by (simp add: data_of_def next_message.simps patient_def)
next
  case (Cons e evs)
  obtain t bs where e: "e = (t, Data bs)" and t: "lo \<le> t" "t < lo + CONTROL_MESSAGE_TIMEOUT" "timely lo evs"
    using Cons.prems(2) by (cases e) (auto simp: timely_def)
  from append_cut [OF Cons.prems(1) [symmetric]] show ?case
  proof (elim disjE exE conjE)
    fix us assume cut: "f = recv_bytes h @ us" "us \<noteq> []"
    from try_parse_waits [OF assms(1) assms(2)[unfolded cut(1)] cut(2) Cons.prems(3,4)] obtain h1
      where h1: "try_parse now h = (None, h1)" "recv_bytes h1 = recv_bytes h" "patient lo h1" .
    define h2 where "h2 = (if bs = [] then h1 else h1\<lparr>recv_bytes := recv_bytes h1 @ bs\<rparr>)"
    have h2: "read_more_data h1 t (Data bs) = (Inr (), h2)"
      using h1(3) t(2) by (auto simp: read_more_data_def handle_read_result_def patient_def h2_def split: option.splits)
    have "recv_bytes h2 @ data_of evs = f @ rest" "patient lo h2"
      using Cons.prems(1) h1 by (auto simp: h2_def data_of_def e patient_def)
    from Cons.IH [OF this(1) t(3,1) this(2)] show ?thesis
      by (simp add: next_message.simps [of h] h1(1) h2 e)
  next
    fix us assume "recv_bytes h = f @ us" "rest = us @ data_of (e # evs)"
    with try_parse_whole [OF assms(1,2), of h us now] Cons.prems show ?thesis
      by (simp add: next_message.simps [of h] patient_def)
  qed
qed

lemma receive_delivers:
  assumes "list_all2 (\<lambda>m f. cm_wf m \<and> control_message_serialize m = Inr f) ms fs"
    and "recv_bytes h @ data_of evs = concat fs @ rest" "timely lo evs" "lo \<le> now" "patient lo h"
  shows "\<exists>h' evs'. receive (length ms) h now evs = (map cm_norm ms, h', evs')
           \<and> recv_bytes h' @ data_of evs' = rest"
  using assms
proof (induction ms fs arbitrary: h now evs rule: list_all2_induct)
  case Nil
  then show ?case by simp
next
  case (Cons m ms f fs)
  from next_message_delivers [of m f h evs "concat fs @ rest" lo now] Cons obtain h' now' evs' where
    n: "next_message h now evs = (Some (Inr (cm_norm m)), h', now', evs')"
    and s: "recv_bytes h' @ data_of evs' = concat fs @ rest" "timely lo evs'" "lo \<le> now'" "patient lo h'"
    by auto
  from Cons.IH [OF s] show ?case by (auto simp: n)
qed

text \<open>Bytes that arrive later do not change a type that is already complete.\<close>

lemma get_vi_extend: "get_vi bs = (Inr v, rest) \<Longrightarrow> get_vi (bs @ cs) = (Inr v, rest @ cs)"
  by (cases bs) (auto simp: get_vi_def Let_def split: if_splits)

subsection \<open>Properties\<close>

text \<open>C24. Every well-formed control message whose payload fits a 16-bit length is written, and is
  refused with a casting error otherwise. The reader takes back exactly the frame, with parameters
  and properties in the order of the wire, and leaves what follows; on a frame cut short at any
  point it asks for more bytes.\<close>

theorem control_message_wire:
  assumes "cm_wf m"
  shows "(\<exists>payload. cm_payload m = Inr payload \<and>
            (if length payload < 65536
             then \<exists>f. control_message_serialize m = Inr f
                    \<and> control_message_deserialize (f @ rest) = (Inr (cm_norm m), rest)
                    \<and> (\<forall>p q. f = p @ q \<and> q \<noteq> [] \<longrightarrow>
                         (\<exists>c n a r. control_message_deserialize p = (Inl (NotEnoughBytes c n a), r)))
             else \<exists>ctx. control_message_serialize m = Inl (CastingError ctx ''usize'' ''u16'')))"
proof -
  obtain b where b: "cm_payload m = Inr b" using cm_payload_total [OF assms] by blast
  show ?thesis
  proof (cases "length b < 65536")
    case True
    then obtain f where "control_message_serialize m = Inr f"
      using serialize_frame [of m] b by (auto simp: frame_def)
    with True b frame_whole [OF assms] frame_cut [OF assms] show ?thesis by auto
  next
    case False
    with serialize_frame [of m] b show ?thesis by (auto simp: frame_def)
  qed
qed

abbreviation (input) sample_goaway :: control_message where
  "sample_goaway \<equiv> CM_Goaway (goaway_new (Some [0x61]) 7)"

theorem control_message_wire_witness:
  "\<exists>f. control_message_serialize sample_goaway = Inr f
     \<and> control_message_deserialize (f @ [5]) = (Inr sample_goaway, [5])"
proof -
  have "cm_wf sample_goaway" by (simp add: goaway_wf_def goaway_new_def)
  from control_message_wire [OF this, of "[5]"] show ?thesis
    by (simp add: goaway_payload_def goaway_new_def length_put_vi minimal_vi_length_def goaway_norm_def
        split: if_splits) blast
qed







end
