(* ===== verification/Btree_Map.thy ===== *)
theory Btree_Map
  imports Prelude
begin

text \<open>
  \<open>BTreeMap\<close> of the standard library: the entries in ascending order of their keys, each key
  once. Iteration follows the list; lookup is \<open>map_of\<close>.
\<close>

type_synonym ('k, 'v) btree_map = "('k \<times> 'v) list"

fun bt_insert :: "'k::linorder \<Rightarrow> 'v \<Rightarrow> ('k, 'v) btree_map \<Rightarrow> ('k, 'v) btree_map" where
  "bt_insert k v [] = [(k, v)]"
| "bt_insert k v ((k', v') # m) =
     (if k < k' then (k, v) # (k', v') # m
      else if k = k' then (k, v) # m
      else (k', v') # bt_insert k v m)"

definition bt_remove :: "'k \<Rightarrow> ('k, 'v) btree_map \<Rightarrow> ('k, 'v) btree_map" where
  "bt_remove k m = filter (\<lambda>e. fst e \<noteq> k) m"

definition bt_sorted :: "('k::linorder, 'v) btree_map \<Rightarrow> bool" where
  "bt_sorted m \<longleftrightarrow> sorted_wrt (<) (map fst m)"

lemma bt_sorted_Nil [simp]: "bt_sorted []"
  by (simp add: bt_sorted_def)

lemma map_of_bt_insert [simp]: "map_of (bt_insert k v m) = (map_of m)(k \<mapsto> v)"
  by (induction m) (auto simp: fun_eq_iff)

lemma keys_bt_insert [simp]: "fst ` set (bt_insert k v m) = insert k (fst ` set m)"
  by (induction k v m rule: bt_insert.induct) (auto simp: insert_commute)

lemma bt_insert_not_Nil [simp]: "bt_insert k v m \<noteq> []"
  using keys_bt_insert [of k v m] by fastforce

lemma bt_sorted_Cons: "bt_sorted ((k, v) # m) \<longleftrightarrow> (\<forall>x \<in> fst ` set m. k < x) \<and> bt_sorted m"
  by (auto simp: bt_sorted_def)

lemma bt_sorted_insert [simp, intro]: "bt_sorted m \<Longrightarrow> bt_sorted (bt_insert k v m)"
proof (induction m)
  case (Cons e m)
  obtain k' v' where e: "e = (k', v')" by (cases e)
  show ?case
  proof (cases k k' rule: linorder_cases)
    case less
    with Cons.prems show ?thesis by (fastforce simp: e bt_sorted_Cons)
  qed (use Cons in \<open>auto simp: e bt_sorted_Cons\<close>)
qed (simp add: bt_sorted_def)

lemma map_of_bt_remove [simp]: "map_of (bt_remove k m) = (map_of m)(k := None)"
  unfolding bt_remove_def by (induction m) (auto simp: fun_eq_iff)

lemma bt_sorted_remove [simp, intro]: "bt_sorted m \<Longrightarrow> bt_sorted (bt_remove k m)"
  unfolding bt_sorted_def bt_remove_def by (induction m) auto

lemma bt_sorted_distinct: "bt_sorted m \<Longrightarrow> distinct (map fst m)"
  unfolding bt_sorted_def by (induction m) auto

text \<open>An entry of the list is what a lookup finds.\<close>

lemma bt_entry_iff: "bt_sorted m \<Longrightarrow> (k, v) \<in> set m \<longleftrightarrow> map_of m k = Some v"
  by (simp add: bt_sorted_distinct)

lemma bt_values_ex: "bt_sorted m \<Longrightarrow> (\<exists>e \<in> set m. P (fst e) (snd e)) \<longleftrightarrow> (\<exists>k v. map_of m k = Some v \<and> P k v)"
  by (simp flip: bt_entry_iff) force

lemma bt_values_all: "bt_sorted m \<Longrightarrow> (\<forall>e \<in> set m. P (fst e) (snd e)) \<longleftrightarrow> (\<forall>k v. map_of m k = Some v \<longrightarrow> P k v)"
  by (simp flip: bt_entry_iff) force

lemma map_ex_dom:
  "(\<And>k v. m k = Some v \<Longrightarrow> C v = R k) \<Longrightarrow> (\<exists>k v. m k = Some v \<and> C v) = (\<exists>k \<in> dom m. R k)"
  by (auto simp: dom_def)

lemma bt_Nil_iff: "m = [] \<longleftrightarrow> dom (map_of m) = {}"
  by (cases m) auto

end
