(* ===== verification/Combined_Filter.thy ===== *)
theory Combined_Filter
  imports Btree_Map Message_Parameter Track_Property Unified_Object
begin

text \<open>
  What the Range Filters of a request add up to
  (\<open>libs/moqtail-rs/src/model/parameter/combined_filter.rs\<close>): the filter is built from the
  parameters, narrowed to a track by its properties and matched against Objects. The theory shows
  that it decides the documented rule: the ranges of a filter are alternatives, the filters of one
  SetID must all pass, and one SetID that passes is enough.
\<close>

record filter_set =
  fs_subgroup :: "range list option"
  fs_object_id :: "range list option"
  fs_priority :: "range list option"
  fs_object_properties :: "(u64, range list) btree_map"
  fs_track_properties :: "(u64, range list) btree_map"

definition filter_set_default :: filter_set where
  "filter_set_default =
     \<lparr>fs_subgroup = None, fs_object_id = None, fs_priority = None, fs_object_properties = [],
      fs_track_properties = []\<rparr>"

record object_fields =
  of_subgroup_id :: "u64 option"
  of_object_id :: u64
  of_publisher_priority :: u8
  of_properties :: "object_property list option"

definition object_fields_from :: "moq_object \<Rightarrow> object_fields" where
  "object_fields_from ob =
     \<lparr>of_subgroup_id = ob_subgroup_id ob, of_object_id = l_object (ob_location ob),
      of_publisher_priority = ob_publisher_priority ob, of_properties = ob_properties ob\<rparr>"

record combined_filter =
  cf_sets :: "(u8, filter_set) btree_map"
  cf_range_count :: u64

definition combined_filter_default :: combined_filter where
  "combined_filter_default = \<lparr>cf_sets = [], cf_range_count = 0\<rparr>"

subsection \<open>Building\<close>

fun set_criterion :: "range_filter_kind \<Rightarrow> u64 option \<Rightarrow> range list \<Rightarrow> filter_set \<Rightarrow> filter_set" where
  "set_criterion RFK_Subgroup _ rs fset = fset\<lparr>fs_subgroup := Some rs\<rparr>"
| "set_criterion RFK_ObjectId _ rs fset = fset\<lparr>fs_object_id := Some rs\<rparr>"
| "set_criterion RFK_Priority _ rs fset = fset\<lparr>fs_priority := Some rs\<rparr>"
| "set_criterion RFK_ObjectProperty t rs fset =
     fset\<lparr>fs_object_properties := bt_insert (case t of Some t \<Rightarrow> t | None \<Rightarrow> 0) rs (fs_object_properties fset)\<rparr>"
| "set_criterion RFK_TrackProperty t rs fset =
     fset\<lparr>fs_track_properties := bt_insert (case t of Some t \<Rightarrow> t | None \<Rightarrow> 0) rs (fs_track_properties fset)\<rparr>"

definition add_range_filter ::
  "range_filter_kind \<Rightarrow> range_filter \<Rightarrow> range list \<Rightarrow> combined_filter \<Rightarrow> combined_filter" where
  "add_range_filter kind rf rs f =
     (let fset = (case map_of (cf_sets f) (rf_set_id rf) of Some s \<Rightarrow> s | None \<Rightarrow> filter_set_default)
      in \<lparr>cf_sets = bt_insert (rf_set_id rf) (set_criterion kind (rf_property_type rf) rs fset) (cf_sets f),
          cf_range_count = cf_range_count f + word_of_nat (length rs)\<rparr>)"

fun combine ::
  "message_parameter list \<Rightarrow> (range_filter_kind \<times> u8 \<times> u64 option) set \<Rightarrow> combined_filter \<Rightarrow>
     range_filter_error + combined_filter" where
  "combine [] seen f = Inr f"
| "combine (p # ps) seen f =
     (case p of
        MP_RangeFilter kind (Some rf) \<Rightarrow>
          if (kind, rf_set_id rf, rf_property_type rf) \<in> seen
          then Inl (Duplicate kind (rf_set_id rf) (rf_property_type rf))
          else
            rbind (rf_validate rf kind) (\<lambda>rs.
              combine ps (insert (kind, rf_set_id rf, rf_property_type rf) seen) (add_range_filter kind rf rs f))
      | _ \<Rightarrow> combine ps seen f)"

definition combined_filter_new :: "message_parameter list \<Rightarrow> range_filter_error + combined_filter" where
  "combined_filter_new params = combine params {} combined_filter_default"

definition cf_is_empty :: "combined_filter \<Rightarrow> bool" where
  "cf_is_empty f \<longleftrightarrow> cf_sets f = []"

definition has_track_filters :: "combined_filter \<Rightarrow> bool" where
  "has_track_filters f \<longleftrightarrow> (\<exists>e \<in> set (cf_sets f). fs_track_properties (snd e) \<noteq> [])"

definition for_objects :: "message_parameter list \<Rightarrow> range_filter_error + combined_filter" where
  "for_objects params =
     rbind (combined_filter_new params) (\<lambda>f.
       if has_track_filters f then Inl TrackFilterOnObjects else Inr f)"

subsection \<open>Matching\<close>

definition within :: "range list \<Rightarrow> u64 \<Rightarrow> bool" where
  "within rs v \<longleftrightarrow> (\<exists>r \<in> set rs. range_contains r v)"

definition set_range_count :: "filter_set \<Rightarrow> u64" where
  "set_range_count fset =
     sum_list (map (\<lambda>rs. word_of_nat (length rs))
       (List.map_filter id [fs_subgroup fset, fs_object_id fset, fs_priority fset]
        @ map snd (fs_object_properties fset) @ map snd (fs_track_properties fset)))"

definition properties_pass :: "(u64, range list) btree_map \<Rightarrow> (u64, u64) btree_map \<Rightarrow> bool" where
  "properties_pass required values \<longleftrightarrow>
     (\<forall>e \<in> set required. case map_of values (fst e) of Some v \<Rightarrow> within (snd e) v | None \<Rightarrow> False)"

fun collect_kvps :: "key_value_pair list \<Rightarrow> (u64, u64) btree_map \<Rightarrow> (u64, u64) btree_map" where
  "collect_kvps [] values = values"
| "collect_kvps (KVarInt t v # kvps) values =
     collect_kvps kvps (if map_of values t = None then bt_insert t v values else values)"
| "collect_kvps (KBytes _ _ # kvps) values = collect_kvps kvps values"

fun collect_object_property :: "object_property \<Rightarrow> (u64, u64) btree_map \<Rightarrow> (u64, u64) btree_map" where
  "collect_object_property (OP_ImmutableProperties properties) values = collect_kvps properties values"
| "collect_object_property other values =
     (case object_property_try_into other of Inr kvp \<Rightarrow> collect_kvps [kvp] values | Inl _ \<Rightarrow> values)"

definition object_property_values :: "object_property list option \<Rightarrow> (u64, u64) btree_map" where
  "object_property_values properties =
     fold collect_object_property (case properties of Some ps \<Rightarrow> ps | None \<Rightarrow> []) []"

definition collect_track_property :: "track_property \<Rightarrow> (u64, u64) btree_map \<Rightarrow> (u64, u64) btree_map" where
  "collect_track_property p values =
     (case p of
        TP_ImmutableProperties properties \<Rightarrow> collect_kvps properties values
      | other \<Rightarrow>
          (case track_property_try_into other of Inr kvp \<Rightarrow> collect_kvps [kvp] values | Inl _ \<Rightarrow> values))"

definition track_property_values :: "track_property list \<Rightarrow> (u64, u64) btree_map" where
  "track_property_values properties = fold collect_track_property properties []"

fun narrow_sets ::
  "(u8, filter_set) btree_map \<Rightarrow> (u64, u64) btree_map \<Rightarrow> combined_filter \<Rightarrow> combined_filter" where
  "narrow_sets [] values narrowed = narrowed"
| "narrow_sets ((set_id, fset) # rest) values narrowed =
     (if \<not> properties_pass (fs_track_properties fset) values then narrow_sets rest values narrowed
      else
        (let fset' = fset\<lparr>fs_track_properties := []\<rparr>
         in narrow_sets rest values
              \<lparr>cf_sets = bt_insert set_id fset' (cf_sets narrowed),
               cf_range_count = cf_range_count narrowed + set_range_count fset'\<rparr>))"

definition narrow_for_track :: "combined_filter \<Rightarrow> track_property list \<Rightarrow> combined_filter option" where
  "narrow_for_track f properties =
     (if cf_is_empty f then Some combined_filter_default
      else
        (let narrowed = narrow_sets (cf_sets f) (track_property_values properties) combined_filter_default
         in if cf_sets narrowed = [] then None else Some narrowed))"

definition set_matches :: "filter_set \<Rightarrow> object_fields \<Rightarrow> bool" where
  "set_matches fset flds \<longleftrightarrow>
     \<not> (case fs_subgroup fset of
          Some rs \<Rightarrow> \<not> (case of_subgroup_id flds of Some i \<Rightarrow> within rs i | None \<Rightarrow> False) | None \<Rightarrow> False)
     \<and> \<not> (case fs_object_id fset of Some rs \<Rightarrow> \<not> within rs (of_object_id flds) | None \<Rightarrow> False)
     \<and> \<not> (case fs_priority fset of
            Some rs \<Rightarrow> \<not> within rs (ucast (of_publisher_priority flds)) | None \<Rightarrow> False)
     \<and> (fs_object_properties fset = []
        \<or> properties_pass (fs_object_properties fset) (object_property_values (of_properties flds)))"

definition cf_matches :: "combined_filter \<Rightarrow> object_fields \<Rightarrow> bool" where
  "cf_matches f flds \<longleftrightarrow> cf_is_empty f \<or> (\<exists>e \<in> set (cf_sets f). set_matches (snd e) flds)"

definition matches_object :: "combined_filter \<Rightarrow> moq_object \<Rightarrow> bool" where
  "matches_object f ob = cf_matches f (object_fields_from ob)"

subsection \<open>The range limit\<close>

fun check_filter_ranges :: "message_parameter list \<Rightarrow> u64 \<Rightarrow> bool \<Rightarrow> u64 \<Rightarrow> range_filter_error + unit" where
  "check_filter_ranges [] limit any count =
     (if any \<and> (limit = 0 \<or> limit < count) then Inl (TooManyRanges count limit) else Inr ())"
| "check_filter_ranges (MP_RangeFilter _ filt # ps) limit any count =
     check_filter_ranges ps limit True
       (count + (case filt of Some f \<Rightarrow> word_of_nat (range_count f) | None \<Rightarrow> 0))"
| "check_filter_ranges (MP_FillParameters parameters # ps) limit any count =
     rbind (check_filter_ranges parameters limit False 0) (\<lambda>_. check_filter_ranges ps limit any count)"
| "check_filter_ranges (_ # ps) limit any count = check_filter_ranges ps limit any count"

definition check_filter_range_limit :: "message_parameter list \<Rightarrow> u64 \<Rightarrow> range_filter_error + unit" where
  "check_filter_range_limit params limit = check_filter_ranges params limit False 0"

subsection \<open>The rule\<close>

text \<open>The filters of a request that are applied, and what one of them asks of an Object or a track.\<close>

fun active :: "message_parameter list \<Rightarrow> (range_filter_kind \<times> range_filter) list" where
  "active [] = []"
| "active (p # ps) = (case p of MP_RangeFilter kind (Some rf) \<Rightarrow> [(kind, rf)] | _ \<Rightarrow> []) @ active ps"

definition filter_key :: "range_filter_kind \<times> range_filter \<Rightarrow> range_filter_kind \<times> u8 \<times> u64 option" where
  "filter_key e = (fst e, rf_set_id (snd e), rf_property_type (snd e))"

definition holds_for :: "range list \<Rightarrow> u64 option \<Rightarrow> bool" where
  "holds_for rs v \<longleftrightarrow> (\<exists>x. v = Some x \<and> within rs x)"

definition object_passes :: "object_fields \<Rightarrow> range_filter_kind \<Rightarrow> u64 option \<Rightarrow> range list \<Rightarrow> bool" where
  "object_passes flds kind t rs \<longleftrightarrow> (case kind of
       RFK_Subgroup \<Rightarrow> holds_for rs (of_subgroup_id flds)
     | RFK_ObjectId \<Rightarrow> within rs (of_object_id flds)
     | RFK_Priority \<Rightarrow> within rs (ucast (of_publisher_priority flds))
     | RFK_ObjectProperty \<Rightarrow> holds_for rs (Option.bind t (map_of (object_property_values (of_properties flds))))
     | RFK_TrackProperty \<Rightarrow> True)"

definition track_passes :: "track_property list \<Rightarrow> range_filter_kind \<Rightarrow> u64 option \<Rightarrow> range list \<Rightarrow> bool" where
  "track_passes properties kind t rs \<longleftrightarrow>
     kind = RFK_TrackProperty \<longrightarrow> holds_for rs (Option.bind t (map_of (track_property_values properties)))"

definition admits ::
  "message_parameter list \<Rightarrow> (range_filter_kind \<Rightarrow> u64 option \<Rightarrow> range list \<Rightarrow> bool) \<Rightarrow> bool" where
  "admits ps passes \<longleftrightarrow>
     active ps = []
     \<or> (\<exists>e \<in> set (active ps). \<forall>(kind, rf) \<in> set (active ps). rf_set_id rf = rf_set_id (snd e) \<longrightarrow>
          (\<exists>rs. rf_ranges rf = Inr rs \<and> passes kind (rf_property_type rf) rs))"

subsection \<open>What a filter holds\<close>

definition criterion :: "filter_set \<Rightarrow> range_filter_kind \<Rightarrow> u64 option \<Rightarrow> range list option" where
  "criterion fset kind t = (case (kind, t) of
       (RFK_Subgroup, None) \<Rightarrow> fs_subgroup fset
     | (RFK_ObjectId, None) \<Rightarrow> fs_object_id fset
     | (RFK_Priority, None) \<Rightarrow> fs_priority fset
     | (RFK_ObjectProperty, Some t) \<Rightarrow> map_of (fs_object_properties fset) t
     | (RFK_TrackProperty, Some t) \<Rightarrow> map_of (fs_track_properties fset) t
     | _ \<Rightarrow> None)"

definition cf_lookup :: "combined_filter \<Rightarrow> range_filter_kind \<times> u8 \<times> u64 option \<Rightarrow> range list option" where
  "cf_lookup f q = (case q of (kind, sid, t) \<Rightarrow> Option.bind (map_of (cf_sets f) sid) (\<lambda>fset. criterion fset kind t))"

definition cf_wf :: "combined_filter \<Rightarrow> bool" where
  "cf_wf f \<longleftrightarrow> bt_sorted (cf_sets f)
     \<and> (\<forall>sid fset. map_of (cf_sets f) sid = Some fset \<longrightarrow>
          bt_sorted (fs_object_properties fset) \<and> bt_sorted (fs_track_properties fset))"

lemma cf_default [simp]: "cf_wf combined_filter_default" "cf_lookup combined_filter_default = Map.empty"
  "cf_sets combined_filter_default = []"
  by (auto simp: cf_wf_def combined_filter_default_def cf_lookup_def fun_eq_iff)

lemma criterion_set:
  assumes "has_property_type kind = (t \<noteq> None)"
  shows "criterion (set_criterion kind t rs fset) kind' t' =
           (if kind' = kind \<and> t' = t then Some rs else criterion fset kind' t')"
  using assms by (cases kind; cases t; cases kind'; cases t') (auto simp: criterion_def has_property_type_def)

lemma criterion_default [simp]: "criterion filter_set_default kind t = None"
  by (cases kind; cases t) (auto simp: criterion_def filter_set_default_def)

lemma add_range_filter:
  assumes "cf_wf f" "has_property_type kind = (rf_property_type rf \<noteq> None)"
  shows "cf_wf (add_range_filter kind rf rs f)"
    and "cf_lookup (add_range_filter kind rf rs f) = (cf_lookup f)(filter_key (kind, rf) \<mapsto> rs)"
    and "dom (map_of (cf_sets (add_range_filter kind rf rs f))) = insert (rf_set_id rf) (dom (map_of (cf_sets f)))"
proof -
  show "cf_wf (add_range_filter kind rf rs f)"
    using assms(1) by (cases kind)
      (auto simp: cf_wf_def add_range_filter_def Let_def filter_set_default_def split: option.splits if_splits)
  show "cf_lookup (add_range_filter kind rf rs f) = (cf_lookup f)(filter_key (kind, rf) \<mapsto> rs)"
    using criterion_set [OF assms(2), of rs]
    by (auto simp: fun_eq_iff cf_lookup_def add_range_filter_def filter_key_def Let_def split: option.splits)
qed (auto simp: add_range_filter_def Let_def)

lemma combine_step:
  "(\<exists>kind rf. p = MP_RangeFilter kind (Some rf))
   \<or> (active (p # ps) = active ps \<and> combine (p # ps) seen f = combine ps seen f)"
proof (cases "\<exists>kind rf. p = MP_RangeFilter kind (Some rf)")
  case False
  then show ?thesis by (cases p) (auto split: option.splits)
qed simp

lemma combine_Inr:
  "(\<exists>g. combine ps seen f = Inr g) \<longleftrightarrow>
     distinct (map filter_key (active ps)) \<and> filter_key ` set (active ps) \<inter> seen = {}
     \<and> (\<forall>e \<in> set (active ps). \<exists>rs. rf_validate (snd e) (fst e) = Inr rs)"
proof (induction ps arbitrary: seen f)
  case (Cons p ps)
  consider (act) kind rf where "p = MP_RangeFilter kind (Some rf)"
    | (no) "active (p # ps) = active ps" "combine (p # ps) seen f = combine ps seen f"
    using combine_step [of p ps seen f] by blast
  then show ?case
  proof cases
    case (act kind rf)
    then show ?thesis
      using Cons.IH by (cases "rf_validate rf kind") (auto simp: filter_key_def)
  next
    case no
    then show ?thesis using Cons.IH by simp
  qed
qed simp

lemma combine_holds:
  "combine ps seen f = Inr g \<Longrightarrow> cf_wf f \<Longrightarrow>
     cf_wf g
     \<and> dom (map_of (cf_sets g)) = dom (map_of (cf_sets f)) \<union> (\<lambda>e. rf_set_id (snd e)) ` set (active ps)
     \<and> (\<forall>e \<in> set (active ps). \<exists>rs. rf_ranges (snd e) = Inr rs \<and> cf_lookup g (filter_key e) = Some rs)
     \<and> (\<forall>q. q \<notin> filter_key ` set (active ps) \<longrightarrow> cf_lookup g q = cf_lookup f q)"
proof (induction ps arbitrary: seen f)
  case (Cons p ps)
  consider (act) kind rf where "p = MP_RangeFilter kind (Some rf)"
    | (no) "active (p # ps) = active ps" "combine (p # ps) seen f = combine ps seen f"
    using combine_step [of p ps seen f] by blast
  then show ?case
  proof cases
    case (act kind rf)
    with Cons.prems obtain rs where rs: "rf_validate rf kind = Inr rs"
      and c: "combine ps (insert (filter_key (kind, rf)) seen) (add_range_filter kind rf rs f) = Inr g"
      by (auto simp: rbind_Inr_iff filter_key_def split: if_splits)
    from rs have v: "rf_ranges rf = Inr rs" "has_property_type kind = (rf_property_type rf \<noteq> None)"
      by (auto simp: rf_validate_exact)
    have new: "filter_key (kind, rf) \<notin> filter_key ` set (active ps)"
      using c combine_Inr [of ps "insert (filter_key (kind, rf)) seen"] by blast
    note add = add_range_filter [OF Cons.prems(2) v(2), of rs]
    from Cons.IH [OF c add(1)] new v(1) add(2,3) show ?thesis
      by (simp add: act del: split_paired_All)
  next
    case no
    then show ?thesis using Cons by simp
  qed
qed auto

subsection \<open>Sets and their criteria\<close>

lemma holds_for_case [simp]: "(case v of Some x \<Rightarrow> within rs x | None \<Rightarrow> False) = holds_for rs v"
  by (cases v) (simp_all add: holds_for_def)

lemma properties_pass_iff:
  "bt_sorted req \<Longrightarrow> properties_pass req values \<longleftrightarrow>
     (\<forall>t rs. map_of req t = Some rs \<longrightarrow> holds_for rs (map_of values t))"
  unfolding properties_pass_def holds_for_case by (rule bt_values_all)

lemma range_filter_kind_all:
  "(\<forall>kind. P kind) \<longleftrightarrow> P RFK_Subgroup \<and> P RFK_ObjectId \<and> P RFK_Priority \<and> P RFK_ObjectProperty \<and> P RFK_TrackProperty"
  by (metis range_filter_kind.exhaust)

lemma set_matches_iff:
  assumes "bt_sorted (fs_object_properties fset)"
  shows "set_matches fset flds \<longleftrightarrow> (\<forall>kind t rs. criterion fset kind t = Some rs \<longrightarrow> object_passes flds kind t rs)"
proof -
  have "fs_object_properties fset = [] \<or> properties_pass (fs_object_properties fset) vs \<longleftrightarrow>
      (\<forall>t rs. map_of (fs_object_properties fset) t = Some rs \<longrightarrow> holds_for rs (map_of vs t))" for vs
    using properties_pass_iff [OF assms] by auto
  then show ?thesis
    by (subst range_filter_kind_all)
      (auto simp: set_matches_def criterion_def object_passes_def split_option_all split: option.splits)
qed

lemma track_pass_iff:
  assumes "bt_sorted (fs_track_properties fset)"
  shows "properties_pass (fs_track_properties fset) (track_property_values properties) \<longleftrightarrow>
           (\<forall>kind t rs. criterion fset kind t = Some rs \<longrightarrow> track_passes properties kind t rs)"
  unfolding properties_pass_iff [OF assms]
  by (subst range_filter_kind_all) (auto simp: criterion_def track_passes_def split_option_all)

text \<open>One set of a built filter against the filters of its SetID.\<close>

lemma set_criteria_iff:
  assumes "combined_filter_new ps = Inr f" "map_of (cf_sets f) sid = Some fset"
  shows "(\<forall>kind t rs. criterion fset kind t = Some rs \<longrightarrow> P kind t rs) \<longleftrightarrow>
           (\<forall>(kind, rf) \<in> set (active ps). rf_set_id rf = sid \<longrightarrow>
              (\<exists>rs. rf_ranges rf = Inr rs \<and> P kind (rf_property_type rf) rs))"
proof -
  note h = combine_holds [OF assms(1)[unfolded combined_filter_new_def] cf_default(1), simplified]
  have crit: "criterion fset kind t = cf_lookup f (kind, sid, t)" for kind t
    using assms(2) by (simp add: cf_lookup_def)
  show ?thesis
  proof
    assume "\<forall>kind t rs. criterion fset kind t = Some rs \<longrightarrow> P kind t rs"
    then show "\<forall>(kind, rf) \<in> set (active ps). rf_set_id rf = sid \<longrightarrow>
              (\<exists>rs. rf_ranges rf = Inr rs \<and> P kind (rf_property_type rf) rs)"
      using h by (fastforce simp: crit filter_key_def)
  next
    assume all: "\<forall>(kind, rf) \<in> set (active ps). rf_set_id rf = sid \<longrightarrow>
              (\<exists>rs. rf_ranges rf = Inr rs \<and> P kind (rf_property_type rf) rs)"
    show "\<forall>kind t rs. criterion fset kind t = Some rs \<longrightarrow> P kind t rs"
    proof (intro allI impI)
      fix kind t rs assume "criterion fset kind t = Some rs"
      then have l: "cf_lookup f (kind, sid, t) = Some rs" by (simp add: crit)
      with h have "(kind, sid, t) \<in> filter_key ` set (active ps)" by force
      then obtain rf where "(kind, rf) \<in> set (active ps)" "rf_set_id rf = sid" "rf_property_type rf = t"
        by (auto simp: filter_key_def)
      with all h l show "P kind t rs" by (fastforce simp: filter_key_def)
    qed
  qed
qed

subsection \<open>Narrowing\<close>

lemma narrow_sets_holds:
  "distinct (map fst ss) \<Longrightarrow> bt_sorted (cf_sets n) \<Longrightarrow> fst ` set ss \<inter> dom (map_of (cf_sets n)) = {} \<Longrightarrow>
     bt_sorted (cf_sets (narrow_sets ss values n))
     \<and> map_of (cf_sets (narrow_sets ss values n)) sid =
         (case map_of ss sid of
            Some fset \<Rightarrow>
              if properties_pass (fs_track_properties fset) values then Some (fset\<lparr>fs_track_properties := []\<rparr>) else None
          | None \<Rightarrow> map_of (cf_sets n) sid)"
proof (induction ss arbitrary: n)
  case (Cons e rest)
  obtain set_id fset where e: "e = (set_id, fset)" by (cases e)
  have rest: "map_of rest set_id = None" "map_of (cf_sets n) set_id = None"
    using Cons.prems e by (auto simp: map_of_eq_None_iff domIff)
  show ?case
  proof (cases "properties_pass (fs_track_properties fset) values")
    case True
    define n' where "n' = \<lparr>cf_sets = bt_insert set_id (fset\<lparr>fs_track_properties := []\<rparr>) (cf_sets n),
       cf_range_count = cf_range_count n + set_range_count (fset\<lparr>fs_track_properties := []\<rparr>)\<rparr>"
    have "fst ` set rest \<inter> dom (map_of (cf_sets n')) = {}" "bt_sorted (cf_sets n')" "distinct (map fst rest)"
      using Cons.prems e by (auto simp: n'_def)
    with Cons.IH [of n'] have IH: "bt_sorted (cf_sets (narrow_sets rest values n'))"
      "map_of (cf_sets (narrow_sets rest values n')) sid =
         (case map_of rest sid of
            Some fset \<Rightarrow>
              if properties_pass (fs_track_properties fset) values then Some (fset\<lparr>fs_track_properties := []\<rparr>) else None
          | None \<Rightarrow> map_of (cf_sets n') sid)"
      by auto
    have step: "narrow_sets ((set_id, fset) # rest) values n = narrow_sets rest values n'"
      "map_of (cf_sets n') = (map_of (cf_sets n))(set_id \<mapsto> fset\<lparr>fs_track_properties := []\<rparr>)"
      using True by (simp_all add: n'_def Let_def)
    show ?thesis unfolding e step(1) using IH step(2) True rest by (auto split: option.split)
  next
    case False
    with Cons.IH [of n] Cons.prems rest show ?thesis by (auto simp: e)
  qed
qed simp

lemma set_matches_no_track: "set_matches (fset\<lparr>fs_track_properties := []\<rparr>) flds = set_matches fset flds"
  by (simp add: set_matches_def)

lemma cf_matches_iff:
  "bt_sorted (cf_sets f) \<Longrightarrow>
     cf_matches f flds \<longleftrightarrow> cf_sets f = [] \<or> (\<exists>sid fset. map_of (cf_sets f) sid = Some fset \<and> set_matches fset flds)"
  using bt_values_ex [of "cf_sets f" "\<lambda>_ fset. set_matches fset flds"] by (simp add: cf_matches_def cf_is_empty_def)

lemma narrow_matches_iff:
  assumes "cf_wf f"
  shows "(\<exists>g. narrow_for_track f properties = Some g \<and> cf_matches g flds) \<longleftrightarrow>
           cf_sets f = []
           \<or> (\<exists>sid fset. map_of (cf_sets f) sid = Some fset \<and> set_matches fset flds
                \<and> properties_pass (fs_track_properties fset) (track_property_values properties))"
proof (cases "cf_sets f = []")
  case True
  then show ?thesis by (simp add: narrow_for_track_def cf_is_empty_def cf_matches_def)
next
  case False
  define g where "g = narrow_sets (cf_sets f) (track_property_values properties) combined_filter_default"
  have d: "distinct (map fst (cf_sets f))" using assms bt_sorted_distinct by (auto simp: cf_wf_def)
  note g = narrow_sets_holds [OF d, of combined_filter_default "track_property_values properties",
      folded g_def, simplified]
  have sorted: "bt_sorted (cf_sets g)" using g by simp
  have "narrow_for_track f properties = (if cf_sets g = [] then None else Some g)"
    using False by (simp add: narrow_for_track_def cf_is_empty_def g_def Let_def)
  moreover have "cf_sets g \<noteq> [] \<and> cf_matches g flds \<longleftrightarrow> (\<exists>sid fset. map_of (cf_sets g) sid = Some fset \<and> set_matches fset flds)"
    using cf_matches_iff [OF sorted] by auto
  moreover have look: "map_of (cf_sets g) sid = Some fset' \<longleftrightarrow>
      (\<exists>fset. map_of (cf_sets f) sid = Some fset \<and> fset' = fset\<lparr>fs_track_properties := []\<rparr>
         \<and> properties_pass (fs_track_properties fset) (track_property_values properties))" for sid fset'
    using conjunct2 [OF g, of sid] by (auto split: option.splits if_splits)
  have "(\<exists>sid fset. map_of (cf_sets g) sid = Some fset \<and> set_matches fset flds) \<longleftrightarrow>
      (\<exists>sid fset. map_of (cf_sets f) sid = Some fset \<and> set_matches fset flds
         \<and> properties_pass (fs_track_properties fset) (track_property_values properties))"
    unfolding look using set_matches_no_track by blast
  moreover have "(\<exists>g'. narrow_for_track f properties = Some g' \<and> cf_matches g' flds) \<longleftrightarrow> cf_sets g \<noteq> [] \<and> cf_matches g flds"
    by (simp add: calculation(1))
  ultimately show ?thesis using False by simp
qed

subsection \<open>Built filters decide the rule\<close>

lemma built_filter:
  assumes "combined_filter_new ps = Inr f"
  shows "cf_wf f"
    and "cf_sets f = [] \<longleftrightarrow> active ps = []"
    and "dom (map_of (cf_sets f)) = (\<lambda>e. rf_set_id (snd e)) ` set (active ps)"
proof -
  note h = combine_holds [OF assms [unfolded combined_filter_new_def] cf_default(1), simplified]
  show "cf_wf f" using h by blast
  show sids: "dom (map_of (cf_sets f)) = (\<lambda>e. rf_set_id (snd e)) ` set (active ps)" using h by blast
  show "cf_sets f = [] \<longleftrightarrow> active ps = []" using bt_Nil_iff [of "cf_sets f"] by (simp add: sids)
qed

lemma built_set_exists:
  assumes "combined_filter_new ps = Inr f"
  shows "(\<exists>sid fset. map_of (cf_sets f) sid = Some fset \<and> (\<forall>kind t rs. criterion fset kind t = Some rs \<longrightarrow> P kind t rs))
      \<longleftrightarrow> (\<exists>e \<in> set (active ps). \<forall>(kind, rf) \<in> set (active ps). rf_set_id rf = rf_set_id (snd e) \<longrightarrow>
             (\<exists>rs. rf_ranges rf = Inr rs \<and> P kind (rf_property_type rf) rs))" (is "?lhs \<longleftrightarrow> ?rhs")
proof -
  have "?lhs \<longleftrightarrow> (\<exists>sid \<in> dom (map_of (cf_sets f)). \<forall>(kind, rf) \<in> set (active ps). rf_set_id rf = sid \<longrightarrow>
           (\<exists>rs. rf_ranges rf = Inr rs \<and> P kind (rf_property_type rf) rs))"
    by (rule map_ex_dom) (rule set_criteria_iff [OF assms])
  then show ?thesis unfolding built_filter(3) [OF assms] bex_simps by blast
qed

lemma built_sorted:
  assumes "combined_filter_new ps = Inr f"
  shows "bt_sorted (cf_sets f)"
    and "map_of (cf_sets f) sid = Some fset \<Longrightarrow> bt_sorted (fs_object_properties fset)"
    and "map_of (cf_sets f) sid = Some fset \<Longrightarrow> bt_sorted (fs_track_properties fset)"
  using built_filter(1) [OF assms] by (auto simp: cf_wf_def)

lemma built_matches:
  assumes "combined_filter_new ps = Inr f"
  shows "cf_matches f flds \<longleftrightarrow> admits ps (object_passes flds)"
  unfolding cf_matches_iff [OF built_sorted(1) [OF assms]] admits_def built_filter(2) [OF assms]
    built_set_exists [OF assms, symmetric]
  using set_matches_iff [OF built_sorted(2) [OF assms]] by blast

lemma built_narrow:
  assumes "combined_filter_new ps = Inr f"
  shows "(\<exists>g. narrow_for_track f properties = Some g \<and> cf_matches g flds) \<longleftrightarrow>
           admits ps (\<lambda>kind t rs. object_passes flds kind t rs \<and> track_passes properties kind t rs)"
proof -
  have "set_matches fset flds \<and> properties_pass (fs_track_properties fset) (track_property_values properties) \<longleftrightarrow>
      (\<forall>kind t rs. criterion fset kind t = Some rs \<longrightarrow> object_passes flds kind t rs \<and> track_passes properties kind t rs)"
    if "map_of (cf_sets f) sid = Some fset" for sid fset
    using set_matches_iff [OF built_sorted(2) [OF assms that]] track_pass_iff [OF built_sorted(3) [OF assms that]]
    by blast
  then show ?thesis
    unfolding narrow_matches_iff [OF built_filter(1) [OF assms]] admits_def built_filter(2) [OF assms]
      built_set_exists [OF assms, of "\<lambda>kind t rs. object_passes flds kind t rs \<and> track_passes properties kind t rs", symmetric]
    by blast
qed

subsection \<open>The limit on ranges\<close>

lemma length_resolve_deltas: "resolve_deltas p ds = Inr rs \<Longrightarrow> length rs = length ds"
  by (induction p ds arbitrary: rs rule: resolve_deltas.induct) (auto simp: rbind_Inr_iff split: option.splits)

lemma combine_range_count:
  "combine ps seen f = Inr g \<Longrightarrow>
     cf_range_count g = cf_range_count f + sum_list (map (\<lambda>e. word_of_nat (range_count (snd e))) (active ps))"
proof (induction ps arbitrary: seen f)
  case (Cons p ps)
  consider (act) kind rf where "p = MP_RangeFilter kind (Some rf)"
    | (no) "active (p # ps) = active ps" "combine (p # ps) seen f = combine ps seen f"
    using combine_step [of p ps seen f] by blast
  then show ?case
  proof cases
    case (act kind rf)
    with Cons.prems obtain rs where "rf_validate rf kind = Inr rs"
      "combine ps (insert (kind, rf_set_id rf, rf_property_type rf) seen) (add_range_filter kind rf rs f) = Inr g"
      by (auto simp: rbind_Inr_iff split: if_splits)
    with Cons.IH [OF this(2)] show ?thesis
      using length_resolve_deltas [of 0 "rf_deltas rf" rs]
      by (simp add: act rf_validate_exact rf_ranges_def range_count_def add_range_filter_def Let_def)
  qed (use Cons in simp)
qed simp

lemma check_ranges_counts:
  "check_filter_ranges ps limit any count = Inr () \<Longrightarrow> any \<or> active ps \<noteq> [] \<Longrightarrow>
     limit \<noteq> 0 \<and> count + sum_list (map (\<lambda>e. word_of_nat (range_count (snd e))) (active ps)) \<le> limit"
proof (induction ps limit any count rule: check_filter_ranges.induct)
  case (2 kind filt ps limit any count)
  then show ?case by (cases filt) (auto simp: add.assoc)
qed (auto simp: rbind_Inr_iff not_less split: if_splits)

text \<open>A request the limit lets through builds a filter of at most that many ranges.\<close>

lemma range_limit_respected:
  assumes "check_filter_range_limit ps limit = Inr ()" "combined_filter_new ps = Inr f" "active ps \<noteq> []"
  shows "limit \<noteq> 0 \<and> cf_range_count f \<le> limit"
  using check_ranges_counts [OF assms(1)[unfolded check_filter_range_limit_def]] assms(3)
    combine_range_count [OF assms(2)[unfolded combined_filter_new_def]]
  by (simp add: combined_filter_default_def)

subsection \<open>Properties\<close>

text \<open>C18. Range Filters decide the documented rule. They are accepted exactly when no filter repeats
  a kind, SetID and Property Type and each can be applied. An accepted filter passes an Object
  exactly when there is no filter, or some SetID all of whose filters have a range the Object's
  value lies in; narrowing it to a track first adds exactly the track criteria of that SetID.\<close>

theorem combined_filter_exact:
  "((\<exists>f. combined_filter_new ps = Inr f) \<longleftrightarrow>
      distinct (map filter_key (active ps))
      \<and> (\<forall>e \<in> set (active ps). \<exists>rs. rf_validate (snd e) (fst e) = Inr rs))
   \<and> (combined_filter_new ps = Inr f \<longrightarrow>
        (cf_matches f flds \<longleftrightarrow> admits ps (object_passes flds))
        \<and> ((\<exists>g. narrow_for_track f properties = Some g \<and> cf_matches g flds) \<longleftrightarrow>
             admits ps (\<lambda>kind t rs. object_passes flds kind t rs \<and> track_passes properties kind t rs)))"
proof (intro conjI impI)
  show "(\<exists>f. combined_filter_new ps = Inr f) \<longleftrightarrow>
      distinct (map filter_key (active ps))
      \<and> (\<forall>e \<in> set (active ps). \<exists>rs. rf_validate (snd e) (fst e) = Inr rs)"
    unfolding combined_filter_new_def combine_Inr by auto
next
  assume f: "combined_filter_new ps = Inr f"
  show "cf_matches f flds \<longleftrightarrow> admits ps (object_passes flds)"
    using f by (rule built_matches)
  show "(\<exists>g. narrow_for_track f properties = Some g \<and> cf_matches g flds) \<longleftrightarrow>
             admits ps (\<lambda>kind t rs. object_passes flds kind t rs \<and> track_passes properties kind t rs)"
    using f by (rule built_narrow)
qed

theorem combined_filter_exact_witness:
  "\<exists>f. combined_filter_new
         [MP_RangeFilter RFK_ObjectId (Some \<lparr>rf_set_id = 1, rf_property_type = None, rf_deltas = [(4, Some 2)]\<rparr>)] = Inr f
     \<and> cf_matches f \<lparr>of_subgroup_id = None, of_object_id = 5, of_publisher_priority = 0, of_properties = None\<rparr>
     \<and> \<not> cf_matches f \<lparr>of_subgroup_id = None, of_object_id = 7, of_publisher_priority = 0, of_properties = None\<rparr>"
proof -
  let ?rf = "\<lparr>rf_set_id = 1, rf_property_type = None, rf_deltas = [(4, Some 2)]\<rparr>"
  let ?ps = "[MP_RangeFilter RFK_ObjectId (Some ?rf)]"
  have rs: "rf_ranges ?rf = Inr [\<lparr>r_start = 4, r_end = Some 6\<rparr>]"
    by (simp add: rf_ranges_def checked_add_def)
  then have "rf_validate ?rf RFK_ObjectId = Inr [\<lparr>r_start = 4, r_end = Some 6\<rparr>]"
    by (simp add: rf_validate_exact has_property_type_def)
  then obtain f where f: "combined_filter_new ?ps = Inr f"
    using conjunct1 [OF combined_filter_exact, of ?ps] by auto
  with combined_filter_exact [of ?ps f] rs show ?thesis
    by (auto simp: admits_def object_passes_def within_def range_contains_def)
qed

end
