(* ===== verification/Relay_Filters.thy ===== *)
theory Relay_Filters
  imports Combined_Filter
begin

text \<open>
  The filters the relay applies for a subscriber (\<open>apps/relay/src/server/filter_constructor.rs\<close>)
  and what a fill carries (\<open>apps/relay/src/server/fill.rs\<close>). A request is checked as a whole before
  anything is applied. The theory shows that the parameters a pushed track is subscribed with decide
  exactly what narrowing the combined filter to that track decides, and that the filter of a fill,
  which the code builds without looking at the error, always exists for a request that was accepted.
\<close>

subsection \<open>Checking requests\<close>

fun check_fills :: "message_parameter list \<Rightarrow> range_filter_error + unit" where
  "check_fills [] = Inr ()"
| "check_fills (p # ps) =
     (case p of
        MP_FillParameters parameters \<Rightarrow> rbind (for_objects parameters) (\<lambda>_. check_fills ps)
      | _ \<Rightarrow> check_fills ps)"

definition object_filter :: "message_parameter list \<Rightarrow> u64 \<Rightarrow> range_filter_error + combined_filter" where
  "object_filter params limit =
     rbind (check_filter_range_limit params limit) (\<lambda>_.
     rbind (check_fills params) (\<lambda>_. for_objects params))"

definition updated_filter ::
  "message_parameter list \<Rightarrow> message_parameter list \<Rightarrow> u64 \<Rightarrow> range_filter_error + combined_filter" where
  "updated_filter current update limit =
     rbind (check_filter_range_limit update limit) (\<lambda>_.
       object_filter (apply_message_parameter_update current update) limit)"

definition tracks_filter :: "message_parameter list \<Rightarrow> u64 \<Rightarrow> range_filter_error + combined_filter" where
  "tracks_filter params limit =
     rbind (check_filter_range_limit params limit) (\<lambda>_.
     rbind (check_fills params) (\<lambda>_. combined_filter_new params))"

definition updated_tracks_filter ::
  "message_parameter list \<Rightarrow> message_parameter list \<Rightarrow> u64 \<Rightarrow> range_filter_error + combined_filter" where
  "updated_tracks_filter current update limit =
     rbind (check_filter_range_limit update limit) (\<lambda>_.
       tracks_filter (apply_message_parameter_update current update) limit)"

subsection \<open>The filters of a pushed track\<close>

fun group_filters ::
  "message_parameter list \<Rightarrow> (u8, message_parameter list) btree_map \<Rightarrow> (u8, message_parameter list) btree_map" where
  "group_filters [] sets = sets"
| "group_filters (p # ps) sets =
     (case p of
        MP_RangeFilter _ (Some f) \<Rightarrow>
          group_filters ps (bt_insert (rf_set_id f)
            ((case map_of sets (rf_set_id f) of Some fs \<Rightarrow> fs | None \<Rightarrow> []) @ [p]) sets)
      | _ \<Rightarrow> group_filters ps sets)"

definition is_track_filter :: "message_parameter \<Rightarrow> bool" where
  "is_track_filter p \<longleftrightarrow> (case p of MP_RangeFilter RFK_TrackProperty _ \<Rightarrow> True | _ \<Rightarrow> False)"

definition set_passes :: "message_parameter list \<Rightarrow> track_property list \<Rightarrow> bool" where
  "set_passes filters track_properties \<longleftrightarrow>
     (case combined_filter_new (filter is_track_filter filters) of
        Inr net \<Rightarrow> narrow_for_track net track_properties \<noteq> None
      | Inl _ \<Rightarrow> False)"

fun keep_filters ::
  "(u8, message_parameter list) btree_map \<Rightarrow> track_property list \<Rightarrow> bool \<Rightarrow> message_parameter list \<Rightarrow>
     message_parameter list option" where
  "keep_filters [] track_properties any_passed kept = (if any_passed then Some kept else None)"
| "keep_filters ((_, filters) # sets) track_properties any_passed kept =
     (if \<not> set_passes filters track_properties then keep_filters sets track_properties any_passed kept
      else
        (let objects = filter (\<lambda>p. \<not> is_track_filter p) filters in
         if objects = [] then Some []
         else keep_filters sets track_properties True (kept @ objects)))"

definition filters_for_track ::
  "message_parameter list \<Rightarrow> track_property list \<Rightarrow> message_parameter list option" where
  "filters_for_track params track_properties =
     (let sets = group_filters params [] in
      if sets = [] then Some [] else keep_filters sets track_properties False [])"

subsection \<open>Fills\<close>

definition is_range_filter :: "message_parameter \<Rightarrow> bool" where
  "is_range_filter p \<longleftrightarrow> (case p of MP_RangeFilter _ _ \<Rightarrow> True | _ \<Rightarrow> False)"

definition fill_range_filter :: "message_parameter list \<Rightarrow> message_parameter list \<Rightarrow> combined_filter" where
  "fill_range_filter subscription fill =
     (case for_objects (apply_message_parameter_update (filter is_range_filter subscription)
             (filter is_range_filter fill)) of
        Inr f \<Rightarrow> f | Inl _ \<Rightarrow> combined_filter_default)"

definition fill_fetch_range :: "location_filter \<Rightarrow> location option \<Rightarrow> (location \<times> location) option" where
  "fill_fetch_range filt largest = fetch_range filt largest"

definition fill_parameters :: "message_parameter list \<Rightarrow> message_parameter list option" where
  "fill_parameters parameters =
     (case find (\<lambda>p. type_value p = mpt_wire MPT_FillParameters) parameters of
        Some (MP_FillParameters ps) \<Rightarrow> Some ps | _ \<Rightarrow> None)"

fun fill_filter :: "message_parameter list \<Rightarrow> location_filter \<Rightarrow> location_filter" where
  "fill_filter [] subscription_filter = subscription_filter"
| "fill_filter (p # ps) subscription_filter =
     (case p of MP_LocationFilter f \<Rightarrow> f | _ \<Rightarrow> fill_filter ps subscription_filter)"

fun fill_overrides :: "message_parameter list \<Rightarrow> u8 \<Rightarrow> group_order \<Rightarrow> u8 \<times> group_order" where
  "fill_overrides [] priority order = (priority, order)"
| "fill_overrides (p # ps) priority order =
     (case p of
        MP_SubscriberPriority pr \<Rightarrow> fill_overrides ps pr order
      | MP_GroupOrder g \<Rightarrow> fill_overrides ps priority g
      | _ \<Rightarrow> fill_overrides ps priority order)"

subsection \<open>The relay's own priorities\<close>

text \<open>\<open>compute_stream_priority\<close> (\<open>utils.rs\<close>): the \<open>i64\<close> arithmetic stays within \<open>int\<close>; the cast to
  \<open>i32\<close> keeps the low 32 bits as a signed number.\<close>

definition as_i32 :: "int \<Rightarrow> int" where
  "as_i32 v = (v + 2 ^ 31) mod 2 ^ 32 - 2 ^ 31"

definition compute_stream_priority :: "u8 \<Rightarrow> u8 \<Rightarrow> group_order \<Rightarrow> u64 \<Rightarrow> int" where
  "compute_stream_priority sub_prio pub_prio order group_id =
     (let priority_index = (255 - uint sub_prio) * 256 + (255 - uint pub_prio);
          band_min = - (2 ^ 31) + priority_index * 65536;
          group_slot = uint group_id mod 65536
      in case order of
           GO_Ascending \<Rightarrow> as_i32 (band_min + 65536 - 1 - group_slot)
         | GO_Original \<Rightarrow> as_i32 (band_min + 65536 - 1 - group_slot)
         | GO_Descending \<Rightarrow> as_i32 (band_min + group_slot))"


subsection \<open>Filters of a part of the parameters\<close>

definition set_of :: "range_filter_kind \<times> range_filter \<Rightarrow> u8" where
  "set_of e = rf_set_id (snd e)"

definition passes_by :: "(range_filter_kind \<Rightarrow> u64 option \<Rightarrow> range list \<Rightarrow> bool) \<Rightarrow> range_filter_kind \<times> range_filter \<Rightarrow> bool" where
  "passes_by P e \<longleftrightarrow> (\<exists>rs. rf_ranges (snd e) = Inr rs \<and> P (fst e) (rf_property_type (snd e)) rs)"

lemma active_cases:
  obtains (act) kind rf where "p = MP_RangeFilter kind (Some rf)"
  | (no) "active (p # ps) = active ps" "\<And>kind rf. p \<noteq> MP_RangeFilter kind (Some rf)"
proof (cases "\<exists>kind rf. p = MP_RangeFilter kind (Some rf)")
  case False
  then have "active (p # ps) = active ps" by (cases p) (auto split: option.splits)
  with False show thesis by (intro no) auto
qed (use act in blast)

lemma active_append [simp]: "active (ps @ qs) = active ps @ active qs"
  by (induction ps) auto

lemma active_filter:
  assumes "\<And>kind rf. P (MP_RangeFilter kind (Some rf)) = Q (kind, rf)"
  shows "active (filter P ps) = filter Q (active ps)"
proof (induction ps)
  case (Cons p ps)
  show ?case
  proof (cases rule: active_cases [where p = p and ps = ps])
    case (act kind rf)
    then show ?thesis using Cons assms by simp
  next
    case no
    have "active (p # filter P ps) = active (filter P ps)"
      by (cases rule: active_cases [where p = p and ps = "filter P ps"]) (use no in auto)
    with no Cons show ?thesis by auto
  qed
qed simp

lemma admits_iff:
  "admits ps P \<longleftrightarrow> active ps = []
     \<or> (\<exists>sid \<in> set_of ` set (active ps). \<forall>e \<in> set (active ps). set_of e = sid \<longrightarrow> passes_by P e)"
  unfolding admits_def set_of_def passes_by_def by (auto simp: split_beta)

definition buildable :: "(range_filter_kind \<times> range_filter) list \<Rightarrow> bool" where
  "buildable es \<longleftrightarrow> distinct (map filter_key es) \<and> (\<forall>e \<in> set es. \<exists>rs. rf_validate (snd e) (fst e) = Inr rs)"

lemma new_iff: "(\<exists>f. combined_filter_new ps = Inr f) \<longleftrightarrow> buildable (active ps)"
  unfolding combined_filter_new_def combine_Inr buildable_def by auto

lemma buildable_filter: "buildable es \<Longrightarrow> buildable (filter Q es)"
  by (auto simp: buildable_def distinct_map_filter)

lemma has_track_filters_iff:
  assumes "combined_filter_new ps = Inr f"
  shows "has_track_filters f \<longleftrightarrow> (\<exists>e \<in> set (active ps). fst e = RFK_TrackProperty)"
proof -
  note h = combine_holds [OF assms [unfolded combined_filter_new_def] cf_default(1), simplified]
  have "has_track_filters f \<longleftrightarrow> (\<exists>sid fset. map_of (cf_sets f) sid = Some fset \<and> fs_track_properties fset \<noteq> [])"
    unfolding has_track_filters_def by (rule bt_values_ex [OF built_sorted(1) [OF assms]])
  also have "\<dots> \<longleftrightarrow> (\<exists>sid t rs. cf_lookup f (RFK_TrackProperty, sid, Some t) = Some rs)"
  proof -
    have "fs_track_properties fset \<noteq> [] \<longleftrightarrow> (\<exists>t rs. criterion fset RFK_TrackProperty (Some t) = Some rs)" for fset
      using bt_Nil_iff [of "fs_track_properties fset"] by (auto simp: criterion_def dom_def)
    then show ?thesis by (force simp: cf_lookup_def bind_eq_Some_conv)
  qed
  also have "\<dots> \<longleftrightarrow> (\<exists>e \<in> set (active ps). fst e = RFK_TrackProperty)"
  proof
    assume "\<exists>sid t rs. cf_lookup f (RFK_TrackProperty, sid, Some t) = Some rs"
    then obtain sid t rs where l: "cf_lookup f (RFK_TrackProperty, sid, Some t) = Some rs" by blast
    then have "(RFK_TrackProperty, sid, Some t) \<in> filter_key ` set (active ps)" using h by (metis option.distinct(1))
    then show "\<exists>e \<in> set (active ps). fst e = RFK_TrackProperty" by (force simp: filter_key_def)
  next
    assume "\<exists>e \<in> set (active ps). fst e = RFK_TrackProperty"
    then obtain rf where e: "(RFK_TrackProperty, rf) \<in> set (active ps)" by auto
    with new_iff assms obtain rs where "rf_validate rf RFK_TrackProperty = Inr rs"
      by (fastforce simp: buildable_def)
    then obtain t where "rf_property_type rf = Some t" by (auto simp: rf_validate_exact has_property_type_def)
    with e h show "\<exists>sid t rs. cf_lookup f (RFK_TrackProperty, sid, Some t) = Some rs"
      by (force simp: filter_key_def)
  qed
  finally show ?thesis .
qed

lemma for_objects_iff:
  "(\<exists>f. for_objects ps = Inr f) \<longleftrightarrow> buildable (active ps) \<and> (\<forall>e \<in> set (active ps). fst e \<noteq> RFK_TrackProperty)"
  unfolding for_objects_def new_iff [symmetric] using has_track_filters_iff by (fastforce simp: rbind_Inr_iff)

lemma for_objects_matches:
  "for_objects ps = Inr f \<Longrightarrow> cf_matches f flds \<longleftrightarrow> admits ps (object_passes flds)"
  by (rule built_matches) (auto simp: for_objects_def rbind_Inr_iff split: if_splits)

lemma narrow_exists_iff:
  assumes "combined_filter_new ps = Inr f"
  shows "(\<exists>g. narrow_for_track f properties = Some g) \<longleftrightarrow> admits ps (track_passes properties)"
proof -
  define g where "g = narrow_sets (cf_sets f) (track_property_values properties) combined_filter_default"
  have "cf_sets g \<noteq> [] \<longleftrightarrow> (\<exists>sid fset. map_of (cf_sets f) sid = Some fset
      \<and> properties_pass (fs_track_properties fset) (track_property_values properties))"
    using conjunct2 [OF narrow_sets_holds [OF bt_sorted_distinct [OF built_sorted(1) [OF assms]],
          of combined_filter_default "track_property_values properties", folded g_def, simplified]]
    by (auto simp: bt_Nil_iff [of "cf_sets g"] dom_def split: option.splits if_splits)
  also have "\<dots> \<longleftrightarrow> (\<exists>sid fset. map_of (cf_sets f) sid = Some fset
      \<and> (\<forall>kind t rs. criterion fset kind t = Some rs \<longrightarrow> track_passes properties kind t rs))"
    using track_pass_iff [OF built_sorted(3) [OF assms]] by blast
  finally show ?thesis
    unfolding admits_def built_filter(2) [OF assms, symmetric] built_set_exists [OF assms, symmetric]
    by (auto simp: narrow_for_track_def cf_is_empty_def g_def [symmetric] Let_def)
qed

subsection \<open>Grouping by SetID\<close>

definition in_set :: "u8 \<Rightarrow> message_parameter \<Rightarrow> bool" where
  "in_set sid p \<longleftrightarrow> (case p of MP_RangeFilter kind (Some rf) \<Rightarrow> rf_set_id rf = sid | _ \<Rightarrow> False)"

lemma in_set_range [simp]: "in_set sid (MP_RangeFilter kind (Some rf)) \<longleftrightarrow> rf_set_id rf = sid"
  by (simp add: in_set_def)

lemma group_filters_sorted: "bt_sorted m \<Longrightarrow> bt_sorted (group_filters ps m)"
  by (induction ps m rule: group_filters.induct) (auto split: message_parameter.splits option.splits)

lemma group_filters_step:
  "group_filters (p # ps) m = (case p of MP_RangeFilter kind (Some rf) \<Rightarrow>
       group_filters ps (bt_insert (rf_set_id rf) ((case map_of m (rf_set_id rf) of Some fs \<Rightarrow> fs | None \<Rightarrow> []) @ [p]) m)
     | _ \<Rightarrow> group_filters ps m)"
  by (simp split: message_parameter.split option.split)

lemma map_of_group_filters:
  "map_of (group_filters ps m) sid =
     (if map_of m sid = None \<and> filter (in_set sid) ps = [] then None
      else Some ((case map_of m sid of Some fs \<Rightarrow> fs | None \<Rightarrow> []) @ filter (in_set sid) ps))"
proof (induction ps arbitrary: m)
  case (Cons p ps)
  show ?case
  proof (cases rule: active_cases [where p = p and ps = ps])
    case (act kind rf)
    show ?thesis unfolding act group_filters_step message_parameter.case option.case Cons.IH
      by (auto split: option.split)
  next
    case no
    then have "\<not> in_set sid p" "group_filters (p # ps) m = group_filters ps m"
      by (auto simp: in_set_def group_filters_step split: message_parameter.split option.split)
    with Cons.IH show ?thesis by simp
  qed
qed (auto split: option.split)

lemma group_filters_entry:
  "(sid, fs) \<in> set (group_filters ps []) \<longleftrightarrow> fs = filter (in_set sid) ps \<and> fs \<noteq> []"
  using bt_entry_iff [OF group_filters_sorted [OF bt_sorted_Nil], of sid fs ps]
  by (auto simp: map_of_group_filters split: if_splits)

lemma active_in_set: "active (filter (in_set sid) ps) = filter (\<lambda>e. set_of e = sid) (active ps)"
  by (rule active_filter) (simp add: in_set_def set_of_def)

lemma active_track: "active (filter is_track_filter ps) = filter (\<lambda>e. fst e = RFK_TrackProperty) (active ps)"
  by (rule active_filter) (simp add: is_track_filter_def split: range_filter_kind.split)

lemma active_object:
  "active (filter (\<lambda>p. \<not> is_track_filter p) ps) = filter (\<lambda>e. fst e \<noteq> RFK_TrackProperty) (active ps)"
  by (rule active_filter) (simp add: is_track_filter_def split: range_filter_kind.split)

lemma in_set_active: "filter Q (filter (in_set sid) ps) = [] \<longleftrightarrow> active (filter Q (filter (in_set sid) ps)) = []"
proof (induction ps)
  case (Cons p ps)
  then show ?case
    by (cases rule: active_cases [where p = p and ps = ps])
      (auto simp: in_set_def split: message_parameter.splits option.splits)
qed simp

lemma in_set_sets: "filter (in_set sid) ps \<noteq> [] \<longleftrightarrow> sid \<in> set_of ` set (active ps)"
  using in_set_active [of "\<lambda>_. True" sid ps] by (auto simp: active_in_set filter_empty_conv)

lemma in_set_objects:
  "filter (\<lambda>p. \<not> is_track_filter p) (filter (in_set sid) ps) = [] \<longleftrightarrow>
     (\<forall>e \<in> set (active ps). set_of e = sid \<longrightarrow> fst e = RFK_TrackProperty)"
  unfolding in_set_active active_object active_in_set by (auto simp: filter_empty_conv)

subsection \<open>The sets that are kept\<close>

definition sid_passes ::
  "message_parameter list \<Rightarrow> (range_filter_kind \<Rightarrow> u64 option \<Rightarrow> range list \<Rightarrow> bool) \<Rightarrow> u8 \<Rightarrow> bool" where
  "sid_passes ps P sid \<longleftrightarrow> (\<forall>e \<in> set (active ps). set_of e = sid \<longrightarrow> passes_by P e)"

lemma admits_sid: "admits ps P \<longleftrightarrow> active ps = [] \<or> (\<exists>sid \<in> set_of ` set (active ps). sid_passes ps P sid)"
  unfolding sid_passes_def by (rule admits_iff)

lemma passes_by_track:
  assumes "buildable (active ps)" "e \<in> set (active ps)"
  shows "fst e \<noteq> RFK_TrackProperty \<Longrightarrow> passes_by (track_passes properties) e"
    and "fst e = RFK_TrackProperty \<Longrightarrow> passes_by (object_passes flds) e"
    and "passes_by (\<lambda>kind t rs. object_passes flds kind t rs \<and> track_passes properties kind t rs) e
       \<longleftrightarrow> passes_by (object_passes flds) e \<and> passes_by (track_passes properties) e"
  using assms by (auto simp: passes_by_def track_passes_def object_passes_def buildable_def rf_validate_exact)

lemma set_passes_iff:
  assumes "buildable (active ps)"
  shows "set_passes (filter (in_set sid) ps) properties \<longleftrightarrow> sid_passes ps (track_passes properties) sid"
proof -
  let ?qs = "filter is_track_filter (filter (in_set sid) ps)"
  have a: "active ?qs = filter (\<lambda>e. fst e = RFK_TrackProperty \<and> set_of e = sid) (active ps)"
    unfolding active_track active_in_set by (simp add: conj_commute)
  have "buildable (active ?qs)" unfolding a by (rule buildable_filter [OF assms])
  then obtain net where net: "combined_filter_new ?qs = Inr net" using new_iff by blast
  then have "set_passes (filter (in_set sid) ps) properties \<longleftrightarrow> (\<exists>g. narrow_for_track net properties = Some g)"
    unfolding set_passes_def by (simp only: sum.case not_None_eq)
  also have "\<dots> \<longleftrightarrow> admits ?qs (track_passes properties)" by (rule narrow_exists_iff [OF net])
  also have "\<dots> \<longleftrightarrow> (\<forall>e \<in> set (active ?qs). passes_by (track_passes properties) e)"
  proof -
    have "set_of e = sid" if "e \<in> set (active ?qs)" for e using that unfolding a by simp
    then show ?thesis unfolding admits_iff by (cases "active ?qs") auto
  qed
  also have "\<dots> \<longleftrightarrow> sid_passes ps (track_passes properties) sid"
    using passes_by_track(1) [OF assms, of _ properties] unfolding a sid_passes_def set_filter by blast
  finally show ?thesis .
qed

definition passing :: "(u8, message_parameter list) btree_map \<Rightarrow> track_property list \<Rightarrow> (u8, message_parameter list) btree_map" where
  "passing sets properties = filter (\<lambda>e. set_passes (snd e) properties) sets"

definition objects_of :: "u8 \<times> message_parameter list \<Rightarrow> message_parameter list" where
  "objects_of e = filter (\<lambda>p. \<not> is_track_filter p) (snd e)"

lemma keep_filters_eq:
  "keep_filters sets properties any_passed kept =
     (if \<exists>e \<in> set (passing sets properties). objects_of e = [] then Some []
      else if any_passed \<or> passing sets properties \<noteq> []
      then Some (kept @ concat (map objects_of (passing sets properties))) else None)"
proof (induction sets arbitrary: any_passed kept)
  case (Cons e sets)
  show ?case
  proof (cases "set_passes (snd e) properties")
    case True
    then have "passing (e # sets) properties = e # passing sets properties" by (simp add: passing_def)
    with True show ?thesis by (cases e) (auto simp: Cons.IH Let_def objects_of_def)
  next
    case False
    then have "passing (e # sets) properties = passing sets properties" by (simp add: passing_def)
    with False show ?thesis by (cases e) (simp add: Cons.IH)
  qed
qed (simp add: passing_def)

lemma objects_active:
  assumes "snd e = filter (in_set (fst e)) ps"
  shows "active (objects_of e) = filter (\<lambda>a. fst a \<noteq> RFK_TrackProperty) (filter (\<lambda>a. set_of a = fst e) (active ps))"
  unfolding objects_of_def assms by (simp only: active_object active_in_set)

lemma kept_active:
  assumes "\<forall>e \<in> set es. snd e = filter (in_set (fst e)) ps"
  shows "set (active (concat (map objects_of es))) =
           {e \<in> set (active ps). fst e \<noteq> RFK_TrackProperty \<and> set_of e \<in> fst ` set es}"
  using assms by (induction es) (auto simp: objects_active)

lemma kept_buildable:
  assumes "\<forall>e \<in> set es. snd e = filter (in_set (fst e)) ps" "distinct (map fst es)" "buildable (active ps)"
  shows "buildable (active (concat (map objects_of es)))"
  using assms(1,2)
proof (induction es)
  case (Cons e es)
  let ?xs = "active (objects_of e)" and ?ys = "active (concat (map objects_of es))"
  have xs: "?xs = filter (\<lambda>a. fst a \<noteq> RFK_TrackProperty) (filter (\<lambda>a. set_of a = fst e) (active ps))"
    using Cons.prems(1) by (intro objects_active) simp
  have "buildable ?xs" unfolding xs by (intro buildable_filter assms(3))
  moreover have "buildable ?ys" using Cons by simp
  moreover have "filter_key ` set ?xs \<inter> filter_key ` set ?ys = {}"
  proof -
    have "rf_set_id (snd a) = fst e" if "a \<in> set ?xs" for a using that by (simp add: xs set_of_def)
    moreover have "rf_set_id (snd a) \<noteq> fst e" if "a \<in> set ?ys" for a
    proof -
      have "set_of a \<in> fst ` set es" using that Cons.prems(1) kept_active [of es ps] by simp
      moreover have "fst e \<notin> fst ` set es" using Cons.prems(2) by simp
      ultimately show ?thesis unfolding set_of_def by metis
    qed
    ultimately show ?thesis by (fastforce simp: filter_key_def)
  qed
  ultimately show ?case by (auto simp: buildable_def)
qed (simp add: buildable_def)

text \<open>What the grouped filters of an accepted request come to.\<close>

lemma passing_groups:
  assumes "buildable (active ps)"
  shows "\<forall>e \<in> set (passing (group_filters ps []) properties). snd e = filter (in_set (fst e)) ps"
    and "distinct (map fst (passing (group_filters ps []) properties))"
    and "fst ` set (passing (group_filters ps []) properties) =
           {sid \<in> set_of ` set (active ps). sid_passes ps (track_passes properties) sid}"
proof -
  have entry: "(sid, fs) \<in> set (passing (group_filters ps []) properties) \<longleftrightarrow>
      fs = filter (in_set sid) ps \<and> sid \<in> set_of ` set (active ps) \<and> sid_passes ps (track_passes properties) sid" for sid fs
    unfolding passing_def set_filter mem_Collect_eq group_filters_entry snd_conv
    using set_passes_iff [OF assms] in_set_sets [of sid ps] by metis
  show "\<forall>e \<in> set (passing (group_filters ps []) properties). snd e = filter (in_set (fst e)) ps"
    using entry by auto
  show "fst ` set (passing (group_filters ps []) properties) =
      {sid \<in> set_of ` set (active ps). sid_passes ps (track_passes properties) sid}"
  proof -
    have fst_image: "sid \<in> fst ` X \<longleftrightarrow> (\<exists>fs. (sid, fs) \<in> X)" for sid and X :: "(u8 \<times> message_parameter list) set"
      by force
    show ?thesis unfolding set_eq_iff fst_image entry by simp
  qed
  show "distinct (map fst (passing (group_filters ps []) properties))"
    using bt_sorted_distinct [OF group_filters_sorted [OF bt_sorted_Nil]] by (simp add: passing_def distinct_map_filter)
qed

lemma group_filters_Nil: "group_filters ps [] = [] \<longleftrightarrow> active ps = []"
  using in_set_sets [of _ ps] by (auto simp: bt_Nil_iff map_of_group_filters dom_def split: if_splits)

lemma for_objects_Nil: "for_objects [] = Inr combined_filter_default"
  by (simp add: for_objects_def combined_filter_new_def has_track_filters_def)

lemma cf_matches_default: "cf_matches combined_filter_default flds"
  by (simp add: cf_matches_def cf_is_empty_def)

lemma narrowed_matches:
  assumes "combined_filter_new ps = Inr f" "narrow_for_track f properties = Some g" "active ps \<noteq> []"
  shows "cf_matches g flds \<longleftrightarrow>
    (\<exists>sid \<in> set_of ` set (active ps). sid_passes ps (track_passes properties) sid \<and> sid_passes ps (object_passes flds) sid)"
proof -
  have b: "buildable (active ps)" using assms(1) new_iff by blast
  have "cf_matches g flds \<longleftrightarrow> (\<exists>g. narrow_for_track f properties = Some g \<and> cf_matches g flds)" using assms(2) by simp
  then show ?thesis
    unfolding built_narrow [OF assms(1)] admits_sid sid_passes_def using assms(3) passes_by_track(3) [OF b] by blast
qed

lemma kept_matches:
  assumes b: "buildable (active ps)"
    and ne: "passing (group_filters ps []) properties \<noteq> []"
    and obj: "\<forall>e \<in> set (passing (group_filters ps []) properties). objects_of e \<noteq> []"
    and h: "for_objects (concat (map objects_of (passing (group_filters ps []) properties))) = Inr h"
  shows "cf_matches h flds \<longleftrightarrow>
    (\<exists>sid \<in> set_of ` set (active ps). sid_passes ps (track_passes properties) sid \<and> sid_passes ps (object_passes flds) sid)"
proof -
  let ?pass = "passing (group_filters ps []) properties"
  note g = passing_groups [OF b, of properties]
  note act = kept_active [OF g(1)]
  have some: "\<exists>a \<in> set (active ps). set_of a = sid \<and> fst a \<noteq> RFK_TrackProperty" if "sid \<in> fst ` set ?pass" for sid
    using that obj g(1) in_set_objects [of sid ps] by (fastforce simp: objects_of_def)
  have sids: "set_of ` set (active (concat (map objects_of ?pass))) = fst ` set ?pass"
    unfolding act using some by fastforce
  have "active (concat (map objects_of ?pass)) \<noteq> []" using sids ne by (metis image_is_empty set_empty)
  moreover have "sid_passes (concat (map objects_of ?pass)) (object_passes flds) sid \<longleftrightarrow> sid_passes ps (object_passes flds) sid"
    if "sid \<in> fst ` set ?pass" for sid
    unfolding sid_passes_def act using that passes_by_track(2) [OF b] by blast
  ultimately show ?thesis unfolding for_objects_matches [OF h] admits_sid sids using g(3) by auto
qed

lemma filters_for_track_cases:
  assumes b: "buildable (active ps)" and ne: "active ps \<noteq> []"
  shows "filters_for_track ps properties = None \<longleftrightarrow> \<not> admits ps (track_passes properties)"
    and "\<exists>e \<in> set (passing (group_filters ps []) properties). objects_of e = [] \<Longrightarrow>
           filters_for_track ps properties = Some []
           \<and> (\<exists>sid \<in> set_of ` set (active ps). sid_passes ps (track_passes properties) sid \<and> sid_passes ps (object_passes flds) sid)"
    and "passing (group_filters ps []) properties \<noteq> [] \<Longrightarrow>
           \<forall>e \<in> set (passing (group_filters ps []) properties). objects_of e \<noteq> [] \<Longrightarrow>
           filters_for_track ps properties = Some (concat (map objects_of (passing (group_filters ps []) properties)))"
proof -
  let ?pass = "passing (group_filters ps []) properties"
  note g = passing_groups [OF b, of properties]
  have f: "filters_for_track ps properties = keep_filters (group_filters ps []) properties False []"
    using ne by (simp add: filters_for_track_def Let_def group_filters_Nil)
  have "?pass = [] \<longleftrightarrow> \<not> admits ps (track_passes properties)"
    unfolding admits_sid using ne g(3) by (metis (mono_tags, lifting) empty_iff image_is_empty mem_Collect_eq set_empty set_eq_iff)
  then show "filters_for_track ps properties = None \<longleftrightarrow> \<not> admits ps (track_passes properties)"
    unfolding f keep_filters_eq by auto
  show "filters_for_track ps properties = Some []
      \<and> (\<exists>sid \<in> set_of ` set (active ps). sid_passes ps (track_passes properties) sid \<and> sid_passes ps (object_passes flds) sid)"
    if "\<exists>e \<in> set ?pass. objects_of e = []"
  proof -
    from that obtain e where e: "e \<in> set ?pass" "objects_of e = []" by blast
    then have "\<forall>a \<in> set (active ps). set_of a = fst e \<longrightarrow> fst a = RFK_TrackProperty"
      using g(1) in_set_objects [of "fst e" ps] by (metis objects_of_def)
    then have "sid_passes ps (object_passes flds) (fst e)"
      unfolding sid_passes_def using passes_by_track(2) [OF b] by blast
    moreover have "fst e \<in> {sid \<in> set_of ` set (active ps). sid_passes ps (track_passes properties) sid}"
      using e(1) g(3) by blast
    ultimately show ?thesis using that unfolding f keep_filters_eq by auto
  qed
  show "filters_for_track ps properties = Some (concat (map objects_of ?pass))"
    if "?pass \<noteq> []" "\<forall>e \<in> set ?pass. objects_of e \<noteq> []"
    using that unfolding f keep_filters_eq by auto
qed

lemma filters_for_track_sound:
  assumes f: "combined_filter_new ps = Inr f" and n: "narrow_for_track f properties = Some g" and ne: "active ps \<noteq> []"
  obtains kept h where "filters_for_track ps properties = Some kept" "for_objects kept = Inr h"
    "\<And>flds. cf_matches h flds \<longleftrightarrow> cf_matches g flds"
proof -
  let ?pass = "passing (group_filters ps []) properties"
  have b: "buildable (active ps)" using f new_iff by blast
  note c = filters_for_track_cases [OF b ne, of properties]
  show thesis
  proof (cases "\<exists>e \<in> set ?pass. objects_of e = []")
    case True
    from c(2) [OF True] show thesis
      by (intro that [OF _ for_objects_Nil]) (simp_all add: cf_matches_default narrowed_matches [OF f n ne])
  next
    case False
    have "?pass \<noteq> []"
      using c(1) n narrow_exists_iff [OF f] passing_groups(3) [OF b, of properties] ne by (auto simp: admits_sid)
    with False have kept: "filters_for_track ps properties = Some (concat (map objects_of ?pass))" by (intro c(3)) auto
    note g = passing_groups [OF b, of properties]
    have "buildable (active (concat (map objects_of ?pass)))" by (rule kept_buildable [OF g(1,2) b])
    moreover have "\<forall>e \<in> set (active (concat (map objects_of ?pass))). fst e \<noteq> RFK_TrackProperty"
      using kept_active [OF g(1)] by simp
    ultimately obtain h where h: "for_objects (concat (map objects_of ?pass)) = Inr h" using for_objects_iff by blast
    show thesis
      using kept_matches [OF b \<open>?pass \<noteq> []\<close> _ h] False narrowed_matches [OF f n ne] by (intro that [OF kept h]) blast
  qed
qed

subsection \<open>Fills of accepted requests\<close>

definition names_kind :: "message_parameter list \<Rightarrow> range_filter_kind \<Rightarrow> bool" where
  "names_kind fill kind \<longleftrightarrow> (\<exists>r. MP_RangeFilter kind r \<in> set fill)"

lemma check_fills_member:
  "check_fills ps = Inr () \<Longrightarrow> MP_FillParameters fill \<in> set ps \<Longrightarrow> \<exists>h. for_objects fill = Inr h"
  by (induction ps) (auto simp: rbind_Inr_iff split: message_parameter.splits)

lemma fill_parameters_member: "fill_parameters ps = Some fill \<Longrightarrow> MP_FillParameters fill \<in> set ps"
  by (auto simp: fill_parameters_def find_Some_iff in_set_conv_nth split: option.splits message_parameter.splits)

abbreviation fill_merge :: "message_parameter list \<Rightarrow> message_parameter list \<Rightarrow> message_parameter list" where
  "fill_merge subscription fill \<equiv>
     apply_message_parameter_update (filter is_range_filter subscription) (filter is_range_filter fill)"

lemma range_type_eq: "type_value (MP_RangeFilter kind r) = type_value (MP_RangeFilter kind' r') \<longleftrightarrow> kind = kind'"
  by (cases kind; cases kind') (simp_all add: type_value_def)

lemma is_range_filter_iff: "is_range_filter u \<longleftrightarrow> (\<exists>kind r. u = MP_RangeFilter kind r)"
  by (cases u) (simp_all add: is_range_filter_def)

lemma active_range: "active (filter is_range_filter ps) = active ps"
  using active_filter [of is_range_filter "\<lambda>_. True" ps] by (simp add: is_range_filter_def)

lemma active_merge:
  "active (fill_merge subscription fill) = filter (\<lambda>e. \<not> names_kind fill (fst e)) (active subscription) @ active fill"
proof -
  have "(\<exists>u \<in> set (filter is_range_filter fill). type_value u = type_value (MP_RangeFilter kind (Some rf))) \<longleftrightarrow>
      names_kind fill kind" for kind rf
    by (auto simp: is_range_filter_iff names_kind_def range_type_eq)
  then have "active (filter (\<lambda>p. \<not> (\<exists>u \<in> set (filter is_range_filter fill). type_value u = type_value p)) (filter is_range_filter subscription))
      = filter (\<lambda>e. \<not> names_kind fill (fst e)) (active (filter is_range_filter subscription))"
    by (intro active_filter) simp
  moreover have "active (filter (\<lambda>u. \<not> is_removal u) (filter is_range_filter fill)) = filter (\<lambda>_. True) (active (filter is_range_filter fill))"
    by (rule active_filter) (simp add: is_removal_def)
  ultimately show ?thesis unfolding apply_message_parameter_update_def active_append active_range by simp
qed

lemma fill_merge_objects:
  assumes "\<exists>f. for_objects subscription = Inr f" "\<exists>f. for_objects fill = Inr f"
  shows "\<exists>f. for_objects (fill_merge subscription fill) = Inr f"
proof -
  have "names_kind fill (fst e)" if "e \<in> set (active fill)" for e
    using that by (induction fill) (auto simp: names_kind_def split: message_parameter.splits option.splits)
  then have "filter_key ` set (filter (\<lambda>e. \<not> names_kind fill (fst e)) (active subscription)) \<inter> filter_key ` set (active fill) = {}"
    by (auto simp: filter_key_def)
  with assms show ?thesis
    unfolding for_objects_iff active_merge by (auto simp: buildable_def distinct_map_filter)
qed

subsection \<open>Stream priorities\<close>

lemma i32_bound: "(2 :: int) ^ 31 = 2147483648"
  by simp

lemma as_i32_id: "- (2 ^ 31) \<le> v \<Longrightarrow> v < 2 ^ 31 \<Longrightarrow> as_i32 v = v"
  by (simp add: as_i32_def)

definition group_rank :: "group_order \<Rightarrow> u64 \<Rightarrow> int" where
  "group_rank order g = (case order of GO_Descending \<Rightarrow> uint g mod 65536 | _ \<Rightarrow> 65535 - uint g mod 65536)"

lemma group_rank_bounds: "0 \<le> group_rank order g" "group_rank order g < 65536"
  by (cases order; simp add: group_rank_def; smt (verit) pos_mod_bound pos_mod_sign)+

lemma uint_u8: "0 \<le> uint (w :: u8)" "uint (w :: u8) \<le> 255"
  using uint_lt2p [of w] by simp_all

lemma band_bounds:
  fixes s p :: u8
  shows "- (2 ^ 31) \<le> 2147418112 - 16777216 * uint s - 65536 * uint p + group_rank order g"
    and "2147418112 - 16777216 * uint s - 65536 * uint p + group_rank order g < 2 ^ 31"
proof -
  note b = uint_u8 [of s] uint_u8 [of p] group_rank_bounds [of order g]
  show "- (2 ^ 31) \<le> 2147418112 - 16777216 * uint s - 65536 * uint p + group_rank order g"
    unfolding i32_bound using b by linarith
  show "2147418112 - 16777216 * uint s - 65536 * uint p + group_rank order g < 2 ^ 31"
    unfolding i32_bound using b by linarith
qed

lemma stream_priority_eq:
  "compute_stream_priority s p order g = 2147418112 - 16777216 * uint s - 65536 * uint p + group_rank order g"
proof -
  have "compute_stream_priority s p order g = as_i32 (2147418112 - 16777216 * uint s - 65536 * uint p + group_rank order g)"
    by (cases order) (simp_all add: compute_stream_priority_def group_rank_def Let_def algebra_simps)
  then show ?thesis by (simp only: as_i32_id [OF band_bounds])
qed

subsection \<open>Properties\<close>

text \<open>C19. A pushed track is subscribed with what the request's filters leave for it. For filters that
  were accepted, \<open>filters_for_track\<close> declines a track exactly when narrowing the combined filter to
  the track's properties leaves no SetID; otherwise the Range Filters it returns are valid for a
  subscription and let exactly the Objects through that the narrowed filter lets through.\<close>

theorem filters_for_track_exact:
  assumes "combined_filter_new ps = Inr f"
  shows "case narrow_for_track f properties of
           None \<Rightarrow> filters_for_track ps properties = None
         | Some g \<Rightarrow> (\<exists>kept h. filters_for_track ps properties = Some kept \<and> for_objects kept = Inr h
                        \<and> (\<forall>flds. cf_matches h flds \<longleftrightarrow> cf_matches g flds))"
proof (cases "active ps = []")
  case True
  then have "narrow_for_track f properties = Some combined_filter_default" "filters_for_track ps properties = Some []"
    using built_filter(2) [OF assms] group_filters_Nil [of ps]
    by (simp_all add: narrow_for_track_def cf_is_empty_def filters_for_track_def)
  then show ?thesis by (simp add: for_objects_Nil)
next
  case False
  show ?thesis
  proof (cases "narrow_for_track f properties")
    case None
    then have "\<not> admits ps (track_passes properties)" using narrow_exists_iff [OF assms, of properties] by auto
    with None False show ?thesis using filters_for_track_cases(1) [OF _ False] assms new_iff by auto
  next
    case (Some g)
    from filters_for_track_sound [OF assms Some False] show ?thesis unfolding Some option.case by blast
  qed
qed

theorem filters_for_track_exact_witness:
  "\<exists>f. combined_filter_new
         [MP_RangeFilter RFK_TrackProperty (Some \<lparr>rf_set_id = 1, rf_property_type = Some 16, rf_deltas = [(4, Some 2)]\<rparr>)] = Inr f
     \<and> filters_for_track
         [MP_RangeFilter RFK_TrackProperty (Some \<lparr>rf_set_id = 1, rf_property_type = Some 16, rf_deltas = [(4, Some 2)]\<rparr>)] [] = None"
proof -
  let ?rf = "\<lparr>rf_set_id = 1, rf_property_type = Some 16, rf_deltas = [(4, Some 2)]\<rparr>"
  let ?ps = "[MP_RangeFilter RFK_TrackProperty (Some ?rf)]"
  have rs: "rf_ranges ?rf = Inr [\<lparr>r_start = 4, r_end = Some 6\<rparr>]" by (simp add: rf_ranges_def checked_add_def)
  then have "buildable (active ?ps)" by (simp add: buildable_def rf_validate_exact has_property_type_def)
  then obtain f where f: "combined_filter_new ?ps = Inr f" using new_iff by blast
  have "\<not> admits ?ps (track_passes [])"
    using rs by (simp add: admits_def track_passes_def holds_for_def track_property_values_def)
  then have "narrow_for_track f [] = None" using narrow_exists_iff [OF f, of "[]"] by auto
  with filters_for_track_exact [OF f, of "[]"] f show ?thesis by auto
qed

text \<open>The filter of a fill always exists. When a request was accepted and carries FILL_PARAMETERS,
  the Range Filters of the fill merged with those of the subscription build a filter, so
  \<open>fill_range_filter\<close> never falls back to letting everything through; it holds the subscription's
  filters of the kinds the fill does not name and the fill's own, and decides by them.\<close>

lemma fill_range_filter_exact:
  assumes "object_filter params limit = Inr f" "fill_parameters params = Some fill"
  shows "for_objects (fill_merge params fill) = Inr (fill_range_filter params fill)
    \<and> active (fill_merge params fill) = filter (\<lambda>e. \<not> names_kind fill (fst e)) (active params) @ active fill
    \<and> (cf_matches (fill_range_filter params fill) flds \<longleftrightarrow> admits (fill_merge params fill) (object_passes flds))"
proof -
  have "check_fills params = Inr ()" "\<exists>g. for_objects params = Inr g"
    using assms(1) by (auto simp: object_filter_def rbind_Inr_iff)
  then have "\<exists>g. for_objects (fill_merge params fill) = Inr g"
    using check_fills_member fill_parameters_member [OF assms(2)] by (intro fill_merge_objects) auto
  then have h: "for_objects (fill_merge params fill) = Inr (fill_range_filter params fill)"
    by (auto simp: fill_range_filter_def)
  then show ?thesis using for_objects_matches [OF h] active_merge by blast
qed

text \<open>C40. Stream priorities order streams as the scheduling parameters ask. Every priority fits an
  \<open>i32\<close> without truncation; a smaller subscriber priority, and on a tie a smaller publisher priority,
  always gives the larger stream priority, whatever the groups; and within one band streams are
  ordered by their group IDs modulo 65536, falling for ascending and rising for descending order.\<close>

theorem stream_priority_order:
  "- (2 ^ 31) \<le> compute_stream_priority s p order g \<and> compute_stream_priority s p order g < 2 ^ 31
   \<and> (s < s' \<or> s = s' \<and> p < p' \<longrightarrow>
        compute_stream_priority s' p' order' g' < compute_stream_priority s p order g)
   \<and> (compute_stream_priority s p GO_Ascending g' < compute_stream_priority s p GO_Ascending g \<longleftrightarrow> g mod 65536 < g' mod 65536)
   \<and> (compute_stream_priority s p GO_Descending g < compute_stream_priority s p GO_Descending g' \<longleftrightarrow> g mod 65536 < g' mod 65536)"
proof (intro conjI impI)
  note b = uint_u8 [of s] uint_u8 [of p] uint_u8 [of s'] uint_u8 [of p'] group_rank_bounds [of order g] group_rank_bounds [of order' g']
  show "- (2 ^ 31) \<le> compute_stream_priority s p order g" "compute_stream_priority s p order g < 2 ^ 31"
    unfolding stream_priority_eq by (rule band_bounds)+
  show "compute_stream_priority s' p' order' g' < compute_stream_priority s p order g" if "s < s' \<or> s = s' \<and> p < p'"
  proof -
    from that have "uint s < uint s' \<or> uint s = uint s' \<and> uint p < uint p'" by (auto simp: word_less_def)
    then show ?thesis unfolding stream_priority_eq using b by linarith
  qed
  have "g mod 65536 < g' mod 65536 \<longleftrightarrow> uint g mod 65536 < uint g' mod 65536"
    by (simp add: word_less_def uint_mod)
  then show "compute_stream_priority s p GO_Ascending g' < compute_stream_priority s p GO_Ascending g \<longleftrightarrow> g mod 65536 < g' mod 65536"
    "compute_stream_priority s p GO_Descending g < compute_stream_priority s p GO_Descending g' \<longleftrightarrow> g mod 65536 < g' mod 65536"
    unfolding stream_priority_eq group_rank_def by auto
qed

theorem stream_priority_order_witness:
  "compute_stream_priority 5 200 GO_Ascending 7 < compute_stream_priority 4 255 GO_Descending 9"
  using stream_priority_order [of 4 255 GO_Descending 9 5 200 GO_Ascending 7] by simp

end
