(* ===== verification/Switching_Set.thy ===== *)
theory Switching_Set
  imports SSTS Names
begin

text \<open>
  Switching sets of a connection (\<open>apps/relay/src/server/ssts/switching_set.rs\<close>): tracks of the
  same content at different throughput levels, with the index from tracks and relay track ids to
  sets and the number of live streams per set. The manager's methods run under one lock, so each is
  a function of the state. Hash maps are maps; the epoch counter wraps as the atomic does.
  A relay track id names one track: \<open>owner\<close> is that naming, and an assignment uses it.
\<close>

datatype switching_set_error = TrackInDifferentSet | TrackNotInSet

record switching_set_member =
  sm_full_track_name :: full_track_name
  sm_relay_track_id :: u64
  sm_threshold :: u64
  sm_request_id :: u64
  sm_holders :: "u64 set"

record switching_set =
  sw_id :: u64
  sw_algorithm_id :: u64
  sw_members :: "switching_set_member list"
  sw_weight :: u64
  sw_activate :: u64
  sw_rank :: u8

definition sw_is_active :: "switching_set \<Rightarrow> bool" where
  "sw_is_active s \<longleftrightarrow> 0 < sw_activate s \<and> sw_activate s \<le> word_of_nat (length (sw_members s))"

definition snapshot_from :: "switching_set \<Rightarrow> set_snapshot" where
  "snapshot_from s =
     \<lparr>ss_id = sw_id s, ss_algorithm_id = sw_algorithm_id s, ss_rank = sw_rank s, ss_weight = sw_weight s,
      ss_active = sw_is_active s,
      ss_members = map (\<lambda>m. (sm_threshold m, sm_relay_track_id m)) (sw_members s)\<rparr>"

record switching_set_manager =
  ssm_sets :: "u64 \<rightharpoonup> switching_set"
  track_to_set :: "full_track_name \<rightharpoonup> u64"
  relay_track_to_set :: "u64 \<rightharpoonup> u64"
  ssm_open_streams :: "u64 \<rightharpoonup> u64"
  ssm_epoch :: u64

definition ssm_new :: switching_set_manager where
  "ssm_new = \<lparr>ssm_sets = Map.empty, track_to_set = Map.empty, relay_track_to_set = Map.empty,
              ssm_open_streams = Map.empty, ssm_epoch = 0\<rparr>"

definition bump_epoch :: "switching_set_manager \<Rightarrow> switching_set_manager" where
  "bump_epoch m = m\<lparr>ssm_epoch := ssm_epoch m + 1\<rparr>"

definition note_stream_opened :: "switching_set_manager \<Rightarrow> u64 \<Rightarrow> switching_set_manager" where
  "note_stream_opened m relay_track_id =
     (case relay_track_to_set m relay_track_id of
        Some set_id \<Rightarrow>
          m\<lparr>ssm_open_streams := (ssm_open_streams m)(set_id \<mapsto>
              (case ssm_open_streams m set_id of Some n \<Rightarrow> n | None \<Rightarrow> 0) + 1)\<rparr>
      | None \<Rightarrow> m)"

definition note_stream_closed :: "switching_set_manager \<Rightarrow> u64 \<Rightarrow> switching_set_manager" where
  "note_stream_closed m relay_track_id =
     (case relay_track_to_set m relay_track_id of
        None \<Rightarrow> m
      | Some set_id \<Rightarrow>
          (case ssm_open_streams m set_id of
             None \<Rightarrow> m
           | Some count \<Rightarrow>
               (let count' = saturating_sub count 1
                in m\<lparr>ssm_open_streams := (ssm_open_streams m)(set_id := if count' = 0 then None else Some count')\<rparr>)))"

text \<open>\<open>iter_mut().find(p)\<close> and an assignment through it.\<close>

fun update_first :: "('a \<Rightarrow> bool) \<Rightarrow> ('a \<Rightarrow> 'a) \<Rightarrow> 'a list \<Rightarrow> 'a list" where
  "update_first P f [] = []"
| "update_first P f (x # xs) = (if P x then f x # xs else x # update_first P f xs)"

abbreviation is_track :: "full_track_name \<Rightarrow> switching_set_member \<Rightarrow> bool" where
  "is_track n x \<equiv> sm_full_track_name x = n"

definition assigned_set ::
  "switching_set_manager \<Rightarrow> u64 \<Rightarrow> u64 \<Rightarrow> u64 \<Rightarrow> u64 \<Rightarrow> u8 \<Rightarrow> switching_set" where
  "assigned_set m set_id algorithm_id weight activate rank =
     (case ssm_sets m set_id of
        Some s \<Rightarrow> s\<lparr>sw_algorithm_id := algorithm_id, sw_weight := weight, sw_activate := activate, sw_rank := rank\<rparr>
      | None \<Rightarrow> \<lparr>sw_id = set_id, sw_algorithm_id = algorithm_id, sw_members = [], sw_weight = weight,
                 sw_activate = activate, sw_rank = rank\<rparr>)"

definition assign ::
  "switching_set_manager \<Rightarrow> full_track_name \<Rightarrow> u64 \<Rightarrow> u64 \<Rightarrow> u64 \<Rightarrow> u64 \<Rightarrow> u64 \<Rightarrow> u64 \<Rightarrow> u64 \<Rightarrow> u8 \<Rightarrow>
     (switching_set_error + unit) \<times> switching_set_manager" where
  "assign m full_track_name relay_track_id request_id set_id algorithm_id threshold weight activate rank =
     (if \<exists>existing. track_to_set m full_track_name = Some existing \<and> existing \<noteq> set_id
      then (Inl TrackInDifferentSet, m)
      else
        (let s = assigned_set m set_id algorithm_id weight activate rank;
             existing = find (is_track full_track_name) (sw_members s);
             member = \<lparr>sm_full_track_name = full_track_name, sm_relay_track_id = relay_track_id,
                       sm_threshold = threshold, sm_request_id = request_id,
                       sm_holders = insert request_id (case existing of Some e \<Rightarrow> sm_holders e | None \<Rightarrow> {})\<rparr>;
             members = (case existing of
                          Some _ \<Rightarrow> update_first (is_track full_track_name) (\<lambda>_. member) (sw_members s)
                        | None \<Rightarrow> sw_members s @ [member]);
             relays = (case existing of
                         Some e \<Rightarrow>
                           if sm_relay_track_id e \<noteq> relay_track_id
                           then (relay_track_to_set m)(sm_relay_track_id e := None) else relay_track_to_set m
                       | None \<Rightarrow> relay_track_to_set m)
         in (Inr (),
             bump_epoch
               (m\<lparr>ssm_sets := (ssm_sets m)(set_id \<mapsto> s\<lparr>sw_members := sort_key sm_threshold members\<rparr>),
                  track_to_set := (track_to_set m)(full_track_name \<mapsto> set_id),
                  relay_track_to_set := relays(relay_track_id \<mapsto> set_id)\<rparr>))))"

definition ssm_remove :: "switching_set_manager \<Rightarrow> full_track_name \<Rightarrow> switching_set_manager" where
  "ssm_remove m full_track_name =
     (case track_to_set m full_track_name of
        None \<Rightarrow> m
      | Some set_id \<Rightarrow>
          (let m1 = bump_epoch (m\<lparr>track_to_set := (track_to_set m)(full_track_name := None)\<rparr>) in
           case ssm_sets m1 set_id of
             None \<Rightarrow> m1
           | Some s \<Rightarrow>
               (let relay_track_id = map_option sm_relay_track_id (find (is_track full_track_name) (sw_members s));
                    members = filter (\<lambda>x. \<not> is_track full_track_name x) (sw_members s);
                    m2 = m1\<lparr>relay_track_to_set :=
                             (case relay_track_id of
                                Some r \<Rightarrow> (relay_track_to_set m1)(r := None) | None \<Rightarrow> relay_track_to_set m1)\<rparr>
                in if members = []
                   then m2\<lparr>ssm_sets := (ssm_sets m2)(set_id := None),
                           ssm_open_streams := (ssm_open_streams m2)(set_id := None)\<rparr>
                   else m2\<lparr>ssm_sets := (ssm_sets m2)(set_id \<mapsto> s\<lparr>sw_members := members\<rparr>)\<rparr>)))"

definition ssm_release :: "switching_set_manager \<Rightarrow> full_track_name \<Rightarrow> u64 \<Rightarrow> switching_set_manager" where
  "ssm_release m full_track_name request_id =
     (case Option.bind (track_to_set m full_track_name) (\<lambda>set_id. map_option (Pair set_id) (ssm_sets m set_id)) of
        None \<Rightarrow> m
      | Some (set_id, s) \<Rightarrow>
          (case find (is_track full_track_name) (sw_members s) of
             None \<Rightarrow> m
           | Some member \<Rightarrow>
               (let holders = sm_holders member - {request_id};
                    m' = m\<lparr>ssm_sets := (ssm_sets m)(set_id \<mapsto>
                             s\<lparr>sw_members := update_first (is_track full_track_name) (\<lambda>x. x\<lparr>sm_holders := holders\<rparr>) (sw_members s)\<rparr>)\<rparr>
                in if request_id \<in> sm_holders member \<and> holders = {} then ssm_remove m' full_track_name else m')))"

text \<open>The warning of \<open>update_assignment\<close>: the set, the algorithm it runs, the one asked for and the
  request that established the track.\<close>

datatype assignment_warning = AlgorithmIgnored u64 u64 u64 "u64 option"

definition update_assignment ::
  "switching_set_manager \<Rightarrow> full_track_name \<Rightarrow> u64 option \<Rightarrow> u64 option \<Rightarrow> u64 option \<Rightarrow> u64 option \<Rightarrow> u8 option \<Rightarrow>
     (switching_set_error + assignment_warning list) \<times> switching_set_manager" where
  "update_assignment m full_track_name algorithm_id threshold weight activate rank =
     (case track_to_set m full_track_name of
        None \<Rightarrow> (Inl TrackNotInSet, m)
      | Some set_id \<Rightarrow>
          (case ssm_sets m set_id of
             None \<Rightarrow> (Inl TrackNotInSet, m)
           | Some s \<Rightarrow>
               (let member = find (is_track full_track_name) (sw_members s);
                    warnings = (case algorithm_id of
                                  Some a \<Rightarrow>
                                    if a \<noteq> sw_algorithm_id s
                                    then [AlgorithmIgnored (sw_id s) (sw_algorithm_id s) a (map_option sm_request_id member)]
                                    else []
                                | None \<Rightarrow> []);
                    s1 = s\<lparr>sw_weight := (case weight of Some w \<Rightarrow> w | None \<Rightarrow> sw_weight s),
                           sw_activate := (case activate of Some a \<Rightarrow> a | None \<Rightarrow> sw_activate s),
                           sw_rank := (case rank of Some r \<Rightarrow> r | None \<Rightarrow> sw_rank s)\<rparr>;
                    members = (case (threshold, member) of
                                 (Some t, Some x) \<Rightarrow>
                                   if sm_threshold x \<noteq> t
                                   then sort_key sm_threshold
                                          (update_first (is_track full_track_name) (\<lambda>x. x\<lparr>sm_threshold := t\<rparr>) (sw_members s))
                                   else sw_members s
                               | _ \<Rightarrow> sw_members s)
                in (Inr warnings,
                    bump_epoch (m\<lparr>ssm_sets := (ssm_sets m)(set_id \<mapsto> s1\<lparr>sw_members := members\<rparr>)\<rparr>)))))"

definition get_set_for_track :: "switching_set_manager \<Rightarrow> full_track_name \<Rightarrow> switching_set option" where
  "get_set_for_track m full_track_name = Option.bind (track_to_set m full_track_name) (ssm_sets m)"

subsection \<open>The invariant\<close>

definition set_ok :: "(u64 \<Rightarrow> full_track_name) \<Rightarrow> u64 \<Rightarrow> switching_set \<Rightarrow> bool" where
  "set_ok owner set_id s \<longleftrightarrow>
     sw_id s = set_id \<and> sw_members s \<noteq> [] \<and> sorted (map sm_threshold (sw_members s))
     \<and> distinct (map sm_full_track_name (sw_members s))
     \<and> (\<forall>x \<in> set (sw_members s). sm_holders x \<noteq> {} \<and> owner (sm_relay_track_id x) = sm_full_track_name x)"

definition tracks_of :: "switching_set option \<Rightarrow> full_track_name set" where
  "tracks_of so = (case so of Some s \<Rightarrow> sm_full_track_name ` set (sw_members s) | None \<Rightarrow> {})"

definition relays_of :: "switching_set option \<Rightarrow> u64 set" where
  "relays_of so = (case so of Some s \<Rightarrow> sm_relay_track_id ` set (sw_members s) | None \<Rightarrow> {})"

definition ssm_inv :: "(u64 \<Rightarrow> full_track_name) \<Rightarrow> switching_set_manager \<Rightarrow> bool" where
  "ssm_inv owner m \<longleftrightarrow>
     (\<forall>set_id s. ssm_sets m set_id = Some s \<longrightarrow> set_ok owner set_id s)
     \<and> (\<forall>n set_id. track_to_set m n = Some set_id \<longleftrightarrow> n \<in> tracks_of (ssm_sets m set_id))
     \<and> (\<forall>r set_id. relay_track_to_set m r = Some set_id \<longleftrightarrow> r \<in> relays_of (ssm_sets m set_id))
     \<and> dom (ssm_open_streams m) \<subseteq> dom (ssm_sets m)"

lemma of_Some:
  "tracks_of (Some s) = sm_full_track_name ` set (sw_members s)"
  "relays_of (Some s) = sm_relay_track_id ` set (sw_members s)"
  by (simp_all add: tracks_of_def relays_of_def)

text \<open>The calls of a connection's life.\<close>

datatype ssm_call =
    Assign full_track_name u64 u64 u64 u64 u64 u64 u64 u8
  | Release full_track_name u64
  | Remove full_track_name
  | Update full_track_name "u64 option" "u64 option" "u64 option" "u64 option" "u8 option"
  | StreamOpened u64
  | StreamClosed u64

fun ssm_apply :: "ssm_call \<Rightarrow> switching_set_manager \<Rightarrow> switching_set_manager" where
  "ssm_apply (Assign n r q s a t w act rk) m = snd (assign m n r q s a t w act rk)"
| "ssm_apply (Release n q) m = ssm_release m n q"
| "ssm_apply (Remove n) m = ssm_remove m n"
| "ssm_apply (Update n a t w act rk) m = snd (update_assignment m n a t w act rk)"
| "ssm_apply (StreamOpened r) m = note_stream_opened m r"
| "ssm_apply (StreamClosed r) m = note_stream_closed m r"

fun owned_call :: "(u64 \<Rightarrow> full_track_name) \<Rightarrow> ssm_call \<Rightarrow> bool" where
  "owned_call owner (Assign n r _ _ _ _ _ _ _) \<longleftrightarrow> owner r = n"
| "owned_call owner _ \<longleftrightarrow> True"

subsection \<open>Preservation\<close>

lemma set_update_first:
  "distinct (map g xs) \<Longrightarrow> x \<in> set xs \<Longrightarrow> g x = k \<Longrightarrow>
     set (update_first (\<lambda>y. g y = k) f xs) = insert (f x) (set xs - {x})"
  by (induction xs) (auto simp: distinct_map)

lemma map_update_first:
  "(\<And>y. P y \<Longrightarrow> g (f y) = g y) \<Longrightarrow> map g (update_first P f xs) = map g xs"
  by (induction xs) auto

lemma find_member:
  assumes "distinct (map sm_full_track_name xs)" "x \<in> set xs"
  shows "find (is_track (sm_full_track_name x)) xs = Some x"
  using assms by (induction xs) auto

lemma find_member_None: "find (is_track n) xs = None \<longleftrightarrow> n \<notin> sm_full_track_name ` set xs"
  by (auto simp: find_None_iff)

lemma ssm_invD:
  assumes "ssm_inv owner m"
  shows "ssm_sets m set_id = Some s \<Longrightarrow> set_ok owner set_id s"
    and "track_to_set m n = Some set_id \<longleftrightarrow> n \<in> tracks_of (ssm_sets m set_id)"
    and "relay_track_to_set m r = Some set_id \<longleftrightarrow> r \<in> relays_of (ssm_sets m set_id)"
    and "dom (ssm_open_streams m) \<subseteq> dom (ssm_sets m)"
  using assms unfolding ssm_inv_def by blast+

lemma relay_owner:
  assumes "\<And>s. so = Some s \<Longrightarrow> set_ok owner set_id s" "r \<in> relays_of so"
  shows "owner r \<in> tracks_of so"
  using assms by (cases so) (auto simp: relays_of_def tracks_of_def set_ok_def)

lemma ssm_inv_put:
  assumes inv: "ssm_inv owner m"
    and ok: "\<And>s. so = Some s \<Longrightarrow> set_ok owner set_id s"
    and other: "\<And>n s. n \<in> tracks_of so \<Longrightarrow> track_to_set m n = Some s \<Longrightarrow> s = set_id"
    and sets: "ssm_sets m' = (ssm_sets m)(set_id := so)"
    and tracks: "\<And>n. track_to_set m' n = (if n \<in> tracks_of so then Some set_id
        else if track_to_set m n = Some set_id then None else track_to_set m n)"
    and relays: "\<And>r. relay_track_to_set m' r = (if r \<in> relays_of so then Some set_id
        else if relay_track_to_set m r = Some set_id then None else relay_track_to_set m r)"
    and opened: "dom (ssm_open_streams m') \<subseteq> dom (ssm_sets m')"
  shows "ssm_inv owner m'"
proof -
  note D = ssm_invD [OF inv]
  have no_relay: "s = set_id" if "r \<in> relays_of so" "relay_track_to_set m r = Some s" for r s
  proof -
    have "owner r \<in> tracks_of (ssm_sets m s)"
      using relay_owner [of "ssm_sets m s" owner s r] D(1,3) that(2) by blast
    then have "track_to_set m (owner r) = Some s" using D(2) by blast
    with other [OF relay_owner [OF ok that(1)]] show ?thesis by blast
  qed
  show ?thesis
    unfolding ssm_inv_def
  proof (intro conjI allI impI)
    show "set_ok owner sid s" if "ssm_sets m' sid = Some s" for sid s
      using that D(1) ok by (auto simp: sets split: if_splits)
    show "track_to_set m' n = Some sid \<longleftrightarrow> n \<in> tracks_of (ssm_sets m' sid)" for n sid
      using other [of n sid] D(2) [of n sid] by (cases "sid = set_id") (auto simp: sets tracks)
    show "relay_track_to_set m' r = Some sid \<longleftrightarrow> r \<in> relays_of (ssm_sets m' sid)" for r sid
      using no_relay [of r sid] D(3) [of r sid] by (cases "sid = set_id") (auto simp: sets relays)
    show "dom (ssm_open_streams m') \<subseteq> dom (ssm_sets m')" by (rule opened)
  qed
qed

text \<open>Replacing a member, or adding it.\<close>

definition upsert :: "switching_set_member \<Rightarrow> switching_set_member list \<Rightarrow> switching_set_member list" where
  "upsert x xs =
     (case find (is_track (sm_full_track_name x)) xs of
        Some _ \<Rightarrow> update_first (is_track (sm_full_track_name x)) (\<lambda>_. x) xs
      | None \<Rightarrow> xs @ [x])"

lemma upsert_members:
  assumes "distinct (map sm_full_track_name xs)"
    and "\<forall>y \<in> set xs. owner (sm_relay_track_id y) = sm_full_track_name y" "owner (sm_relay_track_id x) = sm_full_track_name x"
  shows "distinct (map sm_full_track_name (upsert x xs))"
    and "sm_full_track_name ` set (upsert x xs) = insert (sm_full_track_name x) (sm_full_track_name ` set xs)"
    and "sm_relay_track_id ` set (upsert x xs) = insert (sm_relay_track_id x)
           (sm_relay_track_id ` set xs - set_option (map_option sm_relay_track_id (find (is_track (sm_full_track_name x)) xs)))"
    and "set (upsert x xs) \<subseteq> insert x (set xs)"
proof -
  have "distinct (map sm_full_track_name (upsert x xs))
    \<and> sm_full_track_name ` set (upsert x xs) = insert (sm_full_track_name x) (sm_full_track_name ` set xs)
    \<and> sm_relay_track_id ` set (upsert x xs) = insert (sm_relay_track_id x)
           (sm_relay_track_id ` set xs - set_option (map_option sm_relay_track_id (find (is_track (sm_full_track_name x)) xs)))
    \<and> set (upsert x xs) \<subseteq> insert x (set xs)"
  proof (cases "find (is_track (sm_full_track_name x)) xs")
    case None
    then have "sm_full_track_name x \<notin> sm_full_track_name ` set xs" by (simp add: find_member_None)
    with None assms(1) show ?thesis by (auto simp: upsert_def)
  next
    case (Some e)
    then have e: "e \<in> set xs" "sm_full_track_name e = sm_full_track_name x" by (auto simp: find_Some_iff)
    have set: "set (upsert x xs) = insert x (set xs - {e})"
      using set_update_first [OF assms(1) e] Some by (simp add: upsert_def)
    have names: "map sm_full_track_name (upsert x xs) = map sm_full_track_name xs"
      using Some map_update_first [of "is_track (sm_full_track_name x)" sm_full_track_name "\<lambda>_. x" xs]
      by (simp add: upsert_def)
    then have "sm_full_track_name ` set (upsert x xs) = sm_full_track_name ` set xs"
      by (metis set_map)
    moreover have "sm_full_track_name x \<in> sm_full_track_name ` set xs" using e by (metis imageI)
    moreover have "sm_relay_track_id ` (set xs - {e}) = sm_relay_track_id ` set xs - {sm_relay_track_id e}"
    proof -
      have "sm_relay_track_id y \<noteq> sm_relay_track_id e" if "y \<in> set xs" "y \<noteq> e" for y
        using that e assms(1,2) by (metis distinct_map inj_on_def)
      then show ?thesis by auto
    qed
    ultimately show ?thesis
      using assms(1) names e(1) Some by (auto simp: set insert_absorb)
  qed
  then show "distinct (map sm_full_track_name (upsert x xs))"
    and "sm_full_track_name ` set (upsert x xs) = insert (sm_full_track_name x) (sm_full_track_name ` set xs)"
    and "sm_relay_track_id ` set (upsert x xs) = insert (sm_relay_track_id x)
           (sm_relay_track_id ` set xs - set_option (map_option sm_relay_track_id (find (is_track (sm_full_track_name x)) xs)))"
    and "set (upsert x xs) \<subseteq> insert x (set xs)" by blast+
qed

lemma distinct_map_sort_key [simp]: "distinct (map g (sort_key f xs)) \<longleftrightarrow> distinct (map g xs)"
  by (simp add: distinct_map)

lemma assign_inv:
  assumes inv: "ssm_inv owner m" and own: "owner r = n"
  shows "ssm_inv owner (snd (assign m n r q sid a t w act rk))"
proof (cases "\<exists>existing. track_to_set m n = Some existing \<and> existing \<noteq> sid")
  case True
  then show ?thesis using inv by (simp add: assign_def)
next
  case False
  define s where "s = assigned_set m sid a w act rk"
  define e where "e = find (is_track n) (sw_members s)"
  define x where "x = \<lparr>sm_full_track_name = n, sm_relay_track_id = r, sm_threshold = t, sm_request_id = q,
     sm_holders = insert q (case e of Some e \<Rightarrow> sm_holders e | None \<Rightarrow> {})\<rparr>"
  define s' where "s' = s\<lparr>sw_members := sort_key sm_threshold (upsert x (sw_members s))\<rparr>"
  define m' where "m' = snd (assign m n r q sid a t w act rk)"
  note D = ssm_invD [OF inv]
  have old: "ssm_sets m sid = Some s0 \<Longrightarrow> sw_members s0 = sw_members s" for s0
    by (simp add: s_def assigned_set_def)
  have mem: "distinct (map sm_full_track_name (sw_members s))"
    "\<forall>y \<in> set (sw_members s). owner (sm_relay_track_id y) = sm_full_track_name y \<and> sm_holders y \<noteq> {}"
    "tracks_of (ssm_sets m sid) = sm_full_track_name ` set (sw_members s)"
    "relays_of (ssm_sets m sid) = sm_relay_track_id ` set (sw_members s)" "sw_id s = sid"
    using D(1) [of sid] by (auto simp: s_def assigned_set_def set_ok_def tracks_of_def relays_of_def split: option.splits)
  have xn: "sm_full_track_name x = n" "sm_relay_track_id x = r" by (simp_all add: x_def)
  have owns: "\<forall>y \<in> set (sw_members s). owner (sm_relay_track_id y) = sm_full_track_name y" using mem(2) by blast
  note up = upsert_members [OF mem(1) owns, of x, unfolded xn, folded e_def, OF own]
  have ok: "set_ok owner sid s'"
  proof -
    have "upsert x (sw_members s) \<noteq> []" using up(2) by auto
    then have "sw_members s' \<noteq> []" by (metis s'_def set_empty set_sort switching_set.select_convs(3) switching_set.surjective switching_set.update_convs(3))
    moreover have "sm_holders x \<noteq> {}" by (simp add: x_def)
    ultimately show ?thesis using up(1,4) mem(2,5) own xn by (auto simp: set_ok_def s'_def)
  qed
  have new: "tracks_of (Some s') = insert n (tracks_of (ssm_sets m sid))"
    "relays_of (Some s') = insert r (relays_of (ssm_sets m sid) - set_option (map_option sm_relay_track_id e))"
    by (simp_all add: of_Some mem(3,4) s'_def up(2,3))
  have m': "ssm_sets m' = (ssm_sets m)(sid \<mapsto> s')" "track_to_set m' = (track_to_set m)(n \<mapsto> sid)"
    "relay_track_to_set m' =
       (case e of Some e \<Rightarrow> if sm_relay_track_id e \<noteq> r then (relay_track_to_set m)(sm_relay_track_id e := None) else relay_track_to_set m
        | None \<Rightarrow> relay_track_to_set m)(r \<mapsto> sid)"
    "ssm_open_streams m' = ssm_open_streams m"
    unfolding m'_def assign_def if_not_P [OF False] Let_def s_def [symmetric] s'_def upsert_def xn
      e_def [symmetric] x_def [symmetric] by (simp_all add: bump_epoch_def)
  have found: "sm_relay_track_id y \<in> relays_of (ssm_sets m sid)" if "e = Some y" for y
    using that by (auto simp: e_def mem(4) find_Some_iff)
  show ?thesis
    unfolding m'_def [symmetric]
  proof (rule ssm_inv_put [OF inv _ _ m'(1)])
    show "set_ok owner sid s''" if "Some s' = Some s''" for s'' using ok that by simp
    show "s0 = sid" if "n' \<in> tracks_of (Some s')" "track_to_set m n' = Some s0" for n' s0
      using that False D(2) [of n' sid] by (auto simp: new)
    show "track_to_set m' n' = (if n' \<in> tracks_of (Some s') then Some sid
        else if track_to_set m n' = Some sid then None else track_to_set m n')" for n'
      using D(2) [of n' sid] by (auto simp: m' new)
    show "relay_track_to_set m' r' = (if r' \<in> relays_of (Some s') then Some sid
        else if relay_track_to_set m r' = Some sid then None else relay_track_to_set m r')" for r'
      using D(3) [of r' sid] found by (cases e) (auto simp: m' new)
    show "dom (ssm_open_streams m') \<subseteq> dom (ssm_sets m')" using D(4) by (auto simp: m')
  qed
qed

text \<open>A track the index knows is a member of its set.\<close>

lemma indexed_member:
  assumes "ssm_inv owner m" "track_to_set m n = Some sid"
  obtains s x where "ssm_sets m sid = Some s" "set_ok owner sid s" "x \<in> set (sw_members s)"
    "sm_full_track_name x = n" "find (is_track n) (sw_members s) = Some x"
proof -
  from assms have "n \<in> tracks_of (ssm_sets m sid)" using ssm_invD(2) by blast
  then obtain s x where s: "ssm_sets m sid = Some s" "x \<in> set (sw_members s)" "sm_full_track_name x = n"
    by (auto simp: tracks_of_def split: option.splits)
  moreover have "set_ok owner sid s" using assms(1) s(1) by (rule ssm_invD(1))
  ultimately show thesis using that find_member [of "sw_members s" x] by (auto simp: set_ok_def)
qed

lemma remove_inv:
  assumes inv: "ssm_inv owner m"
  shows "ssm_inv owner (ssm_remove m n)"
proof (cases "track_to_set m n")
  case None
  then show ?thesis using inv by (simp add: ssm_remove_def)
next
  case (Some sid)
  from indexed_member [OF inv Some] obtain s x where s: "ssm_sets m sid = Some s" "set_ok owner sid s"
    and x: "x \<in> set (sw_members s)" "sm_full_track_name x = n" "find (is_track n) (sw_members s) = Some x" .
  define ms where "ms = filter (\<lambda>y. \<not> is_track n y) (sw_members s)"
  define so where "so = (if ms = [] then None else Some (s\<lparr>sw_members := ms\<rparr>))"
  note D = ssm_invD [OF inv]
  have m': "ssm_sets (ssm_remove m n) = (ssm_sets m)(sid := so)"
    "track_to_set (ssm_remove m n) = (track_to_set m)(n := None)"
    "relay_track_to_set (ssm_remove m n) = (relay_track_to_set m)(sm_relay_track_id x := None)"
    "ssm_open_streams (ssm_remove m n) = (if ms = [] then (ssm_open_streams m)(sid := None) else ssm_open_streams m)"
    using Some s(1) x(3) by (auto simp: ssm_remove_def Let_def bump_epoch_def ms_def so_def)
  have so: "tracks_of so = tracks_of (ssm_sets m sid) - {n}"
    by (auto simp: so_def tracks_of_def s(1) ms_def filter_empty_conv)
  have one: "y = x" if "y \<in> set (sw_members s)" "sm_full_track_name y = n" for y
    using that x(1,2) s(2) by (metis distinct_map inj_on_def set_ok_def)
  have ro: "relays_of so = relays_of (ssm_sets m sid) - {sm_relay_track_id x}"
  proof -
    have "sm_relay_track_id y \<noteq> sm_relay_track_id x" if "y \<in> set (sw_members s)" "sm_full_track_name y \<noteq> n" for y
      using that s(2) x by (metis set_ok_def)
    then show ?thesis using one by (auto simp: so_def relays_of_def s(1) ms_def filter_empty_conv)
  qed
  have found: "sm_relay_track_id x \<in> relays_of (ssm_sets m sid)" using x(1) by (simp add: s(1) of_Some)
  show ?thesis
  proof (rule ssm_inv_put [OF inv _ _ m'(1)])
    show "set_ok owner sid s'" if "so = Some s'" for s'
      using that s(2) sorted_filter [of sm_threshold "sw_members s"]
      by (auto simp: so_def set_ok_def ms_def distinct_map_filter split: if_splits)
    show "s0 = sid" if "n' \<in> tracks_of so" "track_to_set m n' = Some s0" for n' s0
      using that D(2) [of n' sid] by (auto simp: so)
    show "track_to_set (ssm_remove m n) n' = (if n' \<in> tracks_of so then Some sid
        else if track_to_set m n' = Some sid then None else track_to_set m n')" for n'
      using D(2) [of n' sid] Some by (auto simp: m' so)
    show "relay_track_to_set (ssm_remove m n) r' = (if r' \<in> relays_of so then Some sid
        else if relay_track_to_set m r' = Some sid then None else relay_track_to_set m r')" for r'
      using D(3) [of r' sid] found by (auto simp: m' ro)
    show "dom (ssm_open_streams (ssm_remove m n)) \<subseteq> dom (ssm_sets (ssm_remove m n))"
      using D(4) by (auto simp: m' so_def)
  qed
qed

text \<open>A set whose members keep their names and relay track ids.\<close>

lemma same_members_inv:
  assumes inv: "ssm_inv owner m" and s: "ssm_sets m sid = Some s" and ok: "set_ok owner sid s'"
    and names: "sm_full_track_name ` set (sw_members s') = sm_full_track_name ` set (sw_members s)"
    and relays: "sm_relay_track_id ` set (sw_members s') = sm_relay_track_id ` set (sw_members s)"
  shows "ssm_inv owner (m\<lparr>ssm_sets := (ssm_sets m)(sid \<mapsto> s')\<rparr>)"
proof (rule ssm_inv_put [OF inv, where so = "Some s'" and set_id = sid])
  note D = ssm_invD [OF inv]
  have so: "tracks_of (Some s') = tracks_of (ssm_sets m sid)" "relays_of (Some s') = relays_of (ssm_sets m sid)"
    by (simp_all add: tracks_of_def relays_of_def s names relays)
  show "s0 = sid" if "n' \<in> tracks_of (Some s')" "track_to_set m n' = Some s0" for n' s0
    using that D(2) [of n' sid] by (auto simp: so)
  show "track_to_set (m\<lparr>ssm_sets := (ssm_sets m)(sid \<mapsto> s')\<rparr>) n' = (if n' \<in> tracks_of (Some s') then Some sid
        else if track_to_set m n' = Some sid then None else track_to_set m n')" for n'
    using D(2) [of n' sid] by (auto simp: so)
  show "relay_track_to_set (m\<lparr>ssm_sets := (ssm_sets m)(sid \<mapsto> s')\<rparr>) r' = (if r' \<in> relays_of (Some s') then Some sid
        else if relay_track_to_set m r' = Some sid then None else relay_track_to_set m r')" for r'
    using D(3) [of r' sid] by (auto simp: so)
  show "dom (ssm_open_streams (m\<lparr>ssm_sets := (ssm_sets m)(sid \<mapsto> s')\<rparr>)) \<subseteq> dom (ssm_sets (m\<lparr>ssm_sets := (ssm_sets m)(sid \<mapsto> s')\<rparr>))"
    using D(4) by auto
qed (use ok in simp_all)

lemma filter_update_first:
  "(\<And>y. P y \<Longrightarrow> P (f y)) \<Longrightarrow> filter (\<lambda>y. \<not> P y) (update_first P f xs) = filter (\<lambda>y. \<not> P y) xs"
  by (induction xs) auto

lemma image_update_first:
  "(\<And>y. P y \<Longrightarrow> g (f y) = g y) \<Longrightarrow> g ` set (update_first P f xs) = g ` set xs"
  by (metis map_update_first set_map)

lemma find_update_first:
  "(\<And>y. P y \<Longrightarrow> P (f y)) \<Longrightarrow> find P (update_first P f xs) = map_option f (find P xs)"
  by (induction xs) auto

lemma update_first_set: "set (update_first P f xs) \<subseteq> set xs \<union> f ` {x \<in> set xs. P x}"
  by (induction xs) auto

lemma update_first_Nil [simp]: "update_first P f xs = [] \<longleftrightarrow> xs = []"
  by (cases xs) auto

lemma sort_key_Nil_iff [simp]: "sort_key f xs = [] \<longleftrightarrow> xs = []"
  by (metis set_empty set_sort)

lemma set_ok_update:
  assumes ok: "set_ok owner sid s" and keep: "\<And>y. sm_full_track_name (f y) = sm_full_track_name y"
      "\<And>y. sm_relay_track_id (f y) = sm_relay_track_id y" "\<And>y. y \<in> set (sw_members s) \<Longrightarrow> sm_holders (f y) \<noteq> {}"
    and s': "sw_id s' = sw_id s" "sorted (map sm_threshold (sw_members s'))"
      "sw_members s' = update_first P f (sw_members s) \<or> sw_members s' = sort_key sm_threshold (update_first P f (sw_members s))"
  shows "set_ok owner sid s'"
    and "sm_full_track_name ` set (sw_members s') = sm_full_track_name ` set (sw_members s)"
    and "sm_relay_track_id ` set (sw_members s') = sm_relay_track_id ` set (sw_members s)"
proof -
  have set: "set (sw_members s') = set (update_first P f (sw_members s))" using s'(3) by auto
  have "distinct (map sm_full_track_name (sw_members s'))"
    using ok s'(3) by (auto simp: set_ok_def map_update_first keep)
  moreover have "sm_holders y \<noteq> {} \<and> owner (sm_relay_track_id y) = sm_full_track_name y" if "y \<in> set (sw_members s')" for y
  proof -
    from that consider "y \<in> set (sw_members s)" | x where "x \<in> set (sw_members s)" "y = f x"
      using subsetD [OF update_first_set [of P f "sw_members s"], of y] by (auto simp: set)
    then show ?thesis using ok keep by cases (auto simp: set_ok_def)
  qed
  moreover have "sw_members s' \<noteq> []" using ok s'(3) by (auto simp: set_ok_def)
  ultimately show "set_ok owner sid s'" using ok s'(1,2) by (simp add: set_ok_def)
  show "sm_full_track_name ` set (sw_members s') = sm_full_track_name ` set (sw_members s)"
    "sm_relay_track_id ` set (sw_members s') = sm_relay_track_id ` set (sw_members s)"
    by (simp_all add: set image_update_first keep)
qed

lemma release_remove:
  assumes "track_to_set m n = Some sid" "ssm_sets m sid = Some s"
  shows "ssm_remove (m\<lparr>ssm_sets := (ssm_sets m)(sid \<mapsto>
            s\<lparr>sw_members := update_first (is_track n) (\<lambda>x. x\<lparr>sm_holders := hs\<rparr>) (sw_members s)\<rparr>)\<rparr>) n = ssm_remove m n"
proof -
  have "map_option sm_relay_track_id (find (is_track n) (update_first (is_track n) (\<lambda>x. x\<lparr>sm_holders := hs\<rparr>) (sw_members s))) =
      map_option sm_relay_track_id (find (is_track n) (sw_members s))"
    by (subst find_update_first) (auto simp: option.map_comp comp_def)
  with assms show ?thesis
    by (cases m; cases "find (is_track n) (sw_members s)")
      (simp_all add: ssm_remove_def Let_def bump_epoch_def filter_update_first find_update_first)
qed

lemma release_inv:
  assumes inv: "ssm_inv owner m"
  shows "ssm_inv owner (ssm_release m n q)"
proof (cases "track_to_set m n")
  case None
  then show ?thesis using inv by (simp add: ssm_release_def)
next
  case (Some sid)
  from indexed_member [OF inv Some] obtain s x where s: "ssm_sets m sid = Some s" "set_ok owner sid s"
    and x: "x \<in> set (sw_members s)" "sm_full_track_name x = n" "find (is_track n) (sw_members s) = Some x" .
  define hs where "hs = sm_holders x - {q}"
  define s' where "s' = s\<lparr>sw_members := update_first (is_track n) (\<lambda>x. x\<lparr>sm_holders := hs\<rparr>) (sw_members s)\<rparr>"
  have step: "ssm_release m n q =
      (if q \<in> sm_holders x \<and> hs = {} then ssm_remove (m\<lparr>ssm_sets := (ssm_sets m)(sid \<mapsto> s')\<rparr>) n
       else m\<lparr>ssm_sets := (ssm_sets m)(sid \<mapsto> s')\<rparr>)"
    using Some s(1) x(3) by (simp add: ssm_release_def Let_def s'_def hs_def)
  show ?thesis
  proof (cases "q \<in> sm_holders x \<and> hs = {}")
    case True
    then show ?thesis
      using remove_inv [OF inv] release_remove [OF Some s(1)] by (simp add: step s'_def)
  next
    case False
    have "hs \<noteq> {}" using False s(2) x(1) by (auto simp: hs_def set_ok_def)
    then have ok: "set_ok owner sid s'" "sm_full_track_name ` set (sw_members s') = sm_full_track_name ` set (sw_members s)"
      "sm_relay_track_id ` set (sw_members s') = sm_relay_track_id ` set (sw_members s)"
      using s(2) by (intro set_ok_update [OF s(2), of "\<lambda>x. x\<lparr>sm_holders := hs\<rparr>" s' "is_track n"];
          simp add: s'_def map_update_first set_ok_def)+
    then have "ssm_inv owner (m\<lparr>ssm_sets := (ssm_sets m)(sid \<mapsto> s')\<rparr>)"
      by (rule same_members_inv [OF inv s(1)])
    with False show ?thesis by (simp only: step if_False)
  qed
qed

lemma update_inv:
  assumes inv: "ssm_inv owner m"
  shows "ssm_inv owner (snd (update_assignment m n a t w act rk))"
proof (cases "track_to_set m n")
  case None
  then show ?thesis using inv by (simp add: update_assignment_def)
next
  case (Some sid)
  from indexed_member [OF inv Some] obtain s x where s: "ssm_sets m sid = Some s" "set_ok owner sid s"
    and x: "x \<in> set (sw_members s)" "sm_full_track_name x = n" "find (is_track n) (sw_members s) = Some x" .
  define ms where "ms = (case t of
      Some t \<Rightarrow> if sm_threshold x \<noteq> t
                then sort_key sm_threshold (update_first (is_track n) (\<lambda>x. x\<lparr>sm_threshold := t\<rparr>) (sw_members s)) else sw_members s
    | None \<Rightarrow> sw_members s)"
  define s' where "s' = s\<lparr>sw_weight := (case w of Some w \<Rightarrow> w | None \<Rightarrow> sw_weight s),
      sw_activate := (case act of Some a \<Rightarrow> a | None \<Rightarrow> sw_activate s),
      sw_rank := (case rk of Some r \<Rightarrow> r | None \<Rightarrow> sw_rank s), sw_members := ms\<rparr>"
  have step: "snd (update_assignment m n a t w act rk) = bump_epoch (m\<lparr>ssm_sets := (ssm_sets m)(sid \<mapsto> s')\<rparr>)"
    using Some s(1) x(3) by (cases t) (simp_all add: update_assignment_def Let_def s'_def ms_def)
  have s': "sw_id s' = sw_id s"
      "sw_members s' = sw_members s
       \<or> (\<exists>t. sw_members s' = sort_key sm_threshold (update_first (is_track n) (\<lambda>x. x\<lparr>sm_threshold := t\<rparr>) (sw_members s)))"
    by (auto simp: s'_def ms_def split: option.splits)
  have bump: "ssm_inv owner (bump_epoch k) = ssm_inv owner k" for k
    by (simp add: ssm_inv_def bump_epoch_def)
  from s'(2) have "ssm_inv owner (m\<lparr>ssm_sets := (ssm_sets m)(sid \<mapsto> s')\<rparr>)"
  proof (elim disjE exE)
    assume "sw_members s' = sw_members s"
    then show ?thesis
      using s s'(1) by (intro same_members_inv [OF inv s(1)]) (simp_all add: set_ok_def)
  next
    fix t assume t: "sw_members s' = sort_key sm_threshold (update_first (is_track n) (\<lambda>x. x\<lparr>sm_threshold := t\<rparr>) (sw_members s))"
    then have ok: "set_ok owner sid s'" "sm_full_track_name ` set (sw_members s') = sm_full_track_name ` set (sw_members s)"
      "sm_relay_track_id ` set (sw_members s') = sm_relay_track_id ` set (sw_members s)"
      using s(2) s'(1) by (intro set_ok_update [OF s(2), of "\<lambda>x. x\<lparr>sm_threshold := t\<rparr>" s' "is_track n"];
          simp add: set_ok_def)+
    then show ?thesis by (rule same_members_inv [OF inv s(1)])
  qed
  then show ?thesis by (simp add: step bump)
qed

lemma streams_inv:
  assumes inv: "ssm_inv owner m"
  shows "ssm_inv owner (note_stream_opened m r)" "ssm_inv owner (note_stream_closed m r)"
proof -
  have "sid \<in> dom (ssm_sets m)" if "relay_track_to_set m r = Some sid" for sid
    using ssm_invD(3) [OF inv] that by (fastforce simp: relays_of_def split: option.splits)
  then show "ssm_inv owner (note_stream_opened m r)" "ssm_inv owner (note_stream_closed m r)"
    using inv by (auto simp: ssm_inv_def note_stream_opened_def note_stream_closed_def Let_def split: option.splits)
qed

lemma apply_inv: "ssm_inv owner m \<Longrightarrow> owned_call owner c \<Longrightarrow> ssm_inv owner (ssm_apply c m)"
  by (cases c) (simp_all add: assign_inv release_inv remove_inv update_inv streams_inv)

lemma run_inv: "\<forall>c \<in> set cs. owned_call owner c \<Longrightarrow> ssm_inv owner m \<Longrightarrow> ssm_inv owner (fold ssm_apply cs m)"
  by (induction cs arbitrary: m) (simp_all add: apply_inv)

lemma ssm_new_inv: "ssm_inv owner ssm_new"
  by (simp add: ssm_inv_def ssm_new_def tracks_of_def relays_of_def)

lemma snapshot_ladder:
  assumes "set_ok owner sid s"
  shows "sorted (map fst (ss_members (snapshot_from s))) \<and> distinct (map snd (ss_members (snapshot_from s)))"
proof -
  have "inj_on sm_relay_track_id (set (sw_members s))"
  proof (rule inj_onI)
    fix x y assume xy: "x \<in> set (sw_members s)" "y \<in> set (sw_members s)" "sm_relay_track_id x = sm_relay_track_id y"
    have names: "owner (sm_relay_track_id z) = sm_full_track_name z" if "z \<in> set (sw_members s)" for z
      using assms that by (simp add: set_ok_def)
    have "sm_full_track_name x = sm_full_track_name y" using names [OF xy(1)] names [OF xy(2)] xy(3) by simp
    moreover have "inj_on sm_full_track_name (set (sw_members s))" using assms by (simp add: set_ok_def distinct_map)
    ultimately show "x = y" using xy(1,2) by (auto dest: inj_onD)
  qed
  with assms show ?thesis by (auto simp: set_ok_def snapshot_from_def comp_def distinct_map)
qed

subsection \<open>Properties\<close>

text \<open>C21. Whatever calls a connection makes, the switching sets stay consistent: a track is in at
  most one set, the indexes from tracks and relay track ids agree with the sets, no set is empty,
  members are sorted by threshold and each is held by a subscription, and streams are counted only for
  sets that exist. An assignment is refused exactly when the track is in another set, and the ladder an
  algorithm is shown ascends and names each track once.\<close>

theorem switching_sets_consistent:
  assumes "\<forall>c \<in> set cs. owned_call owner c"
  shows "ssm_inv owner (fold ssm_apply cs ssm_new)
    \<and> (fst (assign (fold ssm_apply cs ssm_new) n r q sid a t w act rk) = Inl TrackInDifferentSet \<longleftrightarrow>
         (\<exists>s. s \<noteq> sid \<and> n \<in> tracks_of (ssm_sets (fold ssm_apply cs ssm_new) s)))
    \<and> (\<forall>sid s. ssm_sets (fold ssm_apply cs ssm_new) sid = Some s \<longrightarrow>
         sorted (map fst (ss_members (snapshot_from s))) \<and> distinct (map snd (ss_members (snapshot_from s))))"
proof -
  have inv: "ssm_inv owner (fold ssm_apply cs ssm_new)" using run_inv [OF assms ssm_new_inv] .
  moreover have "fst (assign (fold ssm_apply cs ssm_new) n r q sid a t w act rk) = Inl TrackInDifferentSet \<longleftrightarrow>
      (\<exists>s. s \<noteq> sid \<and> n \<in> tracks_of (ssm_sets (fold ssm_apply cs ssm_new) s))"
    using ssm_invD(2) [OF inv, of n] by (auto simp: assign_def Let_def)
  ultimately show ?thesis using snapshot_ladder [OF ssm_invD(1) [OF inv]] by blast
qed

abbreviation (input) sample_track :: full_track_name where
  "sample_track \<equiv> \<lparr>ftn_namespace = [[1]], ftn_name = [2]\<rparr>"

theorem switching_sets_consistent_witness:
  "fst (assign (fold ssm_apply [Assign sample_track 10 1 7 0 500 1 1 0, StreamOpened 10] ssm_new)
          sample_track 10 2 8 0 500 1 1 0) = Inl TrackInDifferentSet"
  using switching_sets_consistent [of "[Assign sample_track 10 1 7 0 500 1 1 0, StreamOpened 10]" "\<lambda>_. sample_track"
      sample_track 10 2 8 0 500 1 1 0]
  by (auto simp: assign_def assigned_set_def ssm_new_def Let_def bump_epoch_def note_stream_opened_def of_Some)

end
