(* ===== verification/Setup_Option.thy ===== *)
theory Setup_Option
  imports Message_Parameter Control_Messages
begin

text \<open>
  The options a SETUP carries (\<open>libs/moqtail-rs/src/model/parameter/setup_option.rs\<close>): each is
  one Key-Value-Pair. A Rust \<open>String\<close> is its bytes with \<open>valid_utf8\<close>.
\<close>

datatype setup_option =
    SO_Path bytes
  | SO_AuthorizationToken authorization_token
  | SO_MaxAuthTokenCacheSize u64
  | SO_Authority bytes
  | SO_MaxFilterRanges u64
  | SO_MoqtImplementation bytes
  | SO_MaxRequestUpdates u64
  | SO_SstsAlgorithms "u64 list"

abbreviation sot_wire :: "setup_option_type \<Rightarrow> u64" where
  "sot_wire \<equiv> setup_option_type_to_wire"

definition put_algorithms :: "u64 list \<Rightarrow> bytes" where
  "put_algorithms algorithms = concat (map put_vi algorithms)"

fun setup_option_try_into :: "setup_option \<Rightarrow> key_value_pair res" where
  "setup_option_try_into (SO_Path p) = kvp_try_new_bytes (sot_wire SOT_Path) p"
| "setup_option_try_into (SO_AuthorizationToken tok) =
     rbind (token_serialize tok) (kvp_try_new_bytes (sot_wire SOT_AuthorizationToken))"
| "setup_option_try_into (SO_MaxAuthTokenCacheSize n) = kvp_try_new_varint (sot_wire SOT_MaxAuthTokenCacheSize) n"
| "setup_option_try_into (SO_MaxFilterRanges n) = kvp_try_new_varint (sot_wire SOT_MaxFilterRanges) n"
| "setup_option_try_into (SO_MoqtImplementation info) = kvp_try_new_bytes (sot_wire SOT_MoqtImplementation) info"
| "setup_option_try_into (SO_MaxRequestUpdates n) = kvp_try_new_varint (sot_wire SOT_MaxRequestUpdates) n"
| "setup_option_try_into (SO_Authority a) = kvp_try_new_bytes (sot_wire SOT_Authority) a"
| "setup_option_try_into (SO_SstsAlgorithms algorithms) =
     kvp_try_new_bytes (sot_wire SOT_SstsAlgorithms) (put_algorithms algorithms)"

text \<open>\<open>serialize\<close> builds the same pair, but reports a token it cannot encode as an error of its own.\<close>

definition setup_option_serialize :: "setup_option \<Rightarrow> bytes res" where
  "setup_option_serialize so =
     rbind (case so of
              SO_AuthorizationToken tok \<Rightarrow>
                rbind (map_err (\<lambda>_. OtherError ''SetupOption::serialize'') (token_serialize tok))
                  (kvp_try_new_bytes (sot_wire SOT_AuthorizationToken))
            | _ \<Rightarrow> setup_option_try_into so)
       kvp_serialize"

function read_algorithms :: "bytes \<Rightarrow> u64 list res" where
  "read_algorithms bs =
     (if bs = [] then Inr []
      else case get_vi bs of
             (Inl e, _) \<Rightarrow> Inl e
           | (Inr v, bs') \<Rightarrow> rbind (read_algorithms bs') (\<lambda>vs. Inr (v # vs)))"
  by pat_completeness auto
termination
  by (relation "measure length")
     (auto dest!: sym [of _ "get_vi _"] get_vi_progressing [unfolded progressing_def, rule_format])

declare read_algorithms.simps [simp del]

definition setup_option_of_varint :: "setup_option_type \<Rightarrow> u64 \<Rightarrow> setup_option res" where
  "setup_option_of_varint t v = (case t of
       SOT_MaxAuthTokenCacheSize \<Rightarrow> Inr (SO_MaxAuthTokenCacheSize v)
     | SOT_MaxFilterRanges \<Rightarrow> Inr (SO_MaxFilterRanges v)
     | SOT_MaxRequestUpdates \<Rightarrow> Inr (SO_MaxRequestUpdates v)
     | _ \<Rightarrow> Inl (KeyValueFormattingError ''SetupOption::deserialize''))"

definition setup_option_of_bytes :: "setup_option_type \<Rightarrow> bytes \<Rightarrow> setup_option res" where
  "setup_option_of_bytes t b = (case t of
       SOT_Path \<Rightarrow> rbind (string_from_utf8 ''SetupOption::deserialize'' b) (\<lambda>s. Inr (SO_Path s))
     | SOT_AuthorizationToken \<Rightarrow> rbind (fst (token_deserialize b)) (\<lambda>tok. Inr (SO_AuthorizationToken tok))
     | SOT_MoqtImplementation \<Rightarrow>
         rbind (string_from_utf8 ''SetupOption::deserialize'' b) (\<lambda>s. Inr (SO_MoqtImplementation s))
     | SOT_Authority \<Rightarrow> rbind (string_from_utf8 ''SetupOption::deserialize'' b) (\<lambda>s. Inr (SO_Authority s))
     | SOT_SstsAlgorithms \<Rightarrow> rbind (read_algorithms b) (\<lambda>vs. Inr (SO_SstsAlgorithms vs))
     | _ \<Rightarrow> Inl (KeyValueFormattingError ''SetupOption::deserialize''))"

definition setup_option_deserialize :: "key_value_pair \<Rightarrow> setup_option res" where
  "setup_option_deserialize kvp =
     rbind (setup_option_type_try_from (get_type kvp)) (\<lambda>t.
       case kvp of KVarInt _ v \<Rightarrow> setup_option_of_varint t v | KBytes _ b \<Rightarrow> setup_option_of_bytes t b)"

subsection \<open>Lemmas\<close>

lemma read_put_algorithms: "read_algorithms (put_algorithms vs) = Inr vs"
proof (induction vs)
  case (Cons v vs)
  have "put_vi v \<noteq> []" using length_put_vi [of v] minimal_vi_length_range [of v] by auto
  with Cons show ?case
    by (subst read_algorithms.simps) (simp add: put_algorithms_def)
qed (simp add: put_algorithms_def read_algorithms.simps)

text \<open>The options that fit a pair: strings are UTF-8, values are at most 65535 bytes.\<close>

fun setup_option_wf :: "setup_option \<Rightarrow> bool" where
  "setup_option_wf (SO_Path b) \<longleftrightarrow> valid_utf8 b \<and> length b \<le> MAX_VALUE_LENGTH"
| "setup_option_wf (SO_Authority b) \<longleftrightarrow> valid_utf8 b \<and> length b \<le> MAX_VALUE_LENGTH"
| "setup_option_wf (SO_MoqtImplementation b) \<longleftrightarrow> valid_utf8 b \<and> length b \<le> MAX_VALUE_LENGTH"
| "setup_option_wf (SO_AuthorizationToken tok) \<longleftrightarrow> token_wf tok \<and> fits (token_serialize tok)"
| "setup_option_wf (SO_SstsAlgorithms vs) \<longleftrightarrow> length (put_algorithms vs) \<le> MAX_VALUE_LENGTH"
| "setup_option_wf _ \<longleftrightarrow> True"

lemma setup_option_roundtrip:
  assumes "setup_option_wf so"
  shows "\<exists>kvp. setup_option_try_into so = Inr kvp \<and> kvp_wf kvp \<and> setup_option_deserialize kvp = Inr so"
proof (cases so)
  case (SO_AuthorizationToken tok)
  with assms obtain b where "token_serialize tok = Inr b" "fst (token_deserialize b) = Inr tok"
    using token_roundtrip [of tok] by auto
  with SO_AuthorizationToken assms show ?thesis
    by (simp add: kvp_try_new_bytes_def kvp_new_bytes_def setup_option_deserialize_def
        setup_option_of_bytes_def setup_option_type_try_from_def fits_def)
qed (use assms in \<open>simp_all add: kvp_try_new_bytes_def kvp_new_bytes_def kvp_try_new_varint_def
       setup_option_deserialize_def setup_option_of_bytes_def setup_option_of_varint_def
       setup_option_type_try_from_def read_put_algorithms\<close>)

end
