(* ===== verification/Abr_Controller.thy ===== *)
theory Abr_Controller
  imports Registry Switching_Set Setup_Option
begin

text \<open>
  The decision loop of sender-side track switching (\<open>apps/relay/src/server/ssts/mod.rs\<close> and
  \<open>ssts/controller.rs\<close>): the algorithms negotiated in SETUP, the per-group decisions the forward
  gate reads, and the loop that runs the algorithms on every event of a connection. The state the
  tasks share is one record, and an event is one step on it. The order in which the hash map yields
  the sets, the bandwidth estimate and the configured cap are what the environment supplies.
\<close>

subsection \<open>Negotiation and shared state\<close>

definition advertised_algorithms :: "setup_msg \<Rightarrow> u64 list" where
  "advertised_algorithms setup =
     (case find_map (\<lambda>kvp. case setup_option_deserialize kvp of
                             Inr (SO_SstsAlgorithms algorithms) \<Rightarrow> Some algorithms | _ \<Rightarrow> None)
             (stp_setup_options setup) of
        Some algorithms \<Rightarrow> algorithms | None \<Rightarrow> [])"

type_synonym group_decisions = "u64 \<rightharpoonup> selection"

record ssts_state =
  negotiated_algorithms :: "u64 list"
  switching_sets :: switching_set_manager
  group_decisions :: group_decisions

definition ssts_state_new :: "setup_msg \<Rightarrow> u64 list \<Rightarrow> ssts_state" where
  "ssts_state_new client_setup relay_algorithms =
     \<lparr>negotiated_algorithms = filter (\<lambda>i. i \<in> set relay_algorithms) (advertised_algorithms client_setup),
      switching_sets = ssm_new, group_decisions = Map.empty\<rparr>"

definition ssts_enabled :: "ssts_state \<Rightarrow> bool" where
  "ssts_enabled st \<longleftrightarrow> negotiated_algorithms st \<noteq> []"

definition has_group_decision :: "ssts_state \<Rightarrow> u64 \<Rightarrow> bool" where
  "has_group_decision st group_id \<longleftrightarrow> group_decisions st group_id \<noteq> None"

definition record_group_decision :: "ssts_state \<Rightarrow> u64 \<Rightarrow> selection \<Rightarrow> u64 \<Rightarrow> bool \<times> ssts_state" where
  "record_group_decision st group_id decision oldest_kept =
     (case group_decisions st group_id of
        None \<Rightarrow>
          (True, st\<lparr>group_decisions :=
             (\<lambda>group. if oldest_kept \<le> group \<or> group = group_id
                      then ((group_decisions st)(group_id \<mapsto> decision)) group else None)\<rparr>)
      | Some _ \<Rightarrow> (False, st))"

datatype assignment_error = NotNegotiated | AlgorithmNotNegotiated u64

definition validate_assignment :: "ssts_state \<Rightarrow> u64 \<Rightarrow> assignment_error + unit" where
  "validate_assignment st algorithm_id =
     (if negotiated_algorithms st = [] then Inl NotNegotiated
      else if algorithm_id \<notin> set (negotiated_algorithms st) then Inl (AlgorithmNotNegotiated algorithm_id)
      else Inr ())"

text \<open>\<open>order\<close> is the order in which the hash map of the sets is iterated.\<close>

definition decision_snapshot :: "u64 list \<Rightarrow> ssts_state \<Rightarrow> set_snapshot list \<times> (u64 \<rightharpoonup> u64)" where
  "decision_snapshot order st =
     (map (\<lambda>i. snapshot_from (the (ssm_sets (switching_sets st) i))) order, ssm_open_streams (switching_sets st))"

subsection \<open>The controller\<close>

abbreviation (input) DECISION_WINDOW :: u64 where
  "DECISION_WINDOW \<equiv> 5"

record controller =
  ct_running :: "(u64 \<times> abr_instance) list"
  ct_last_group :: "u64 option"
  ct_largest_group :: u64
  ct_stream_timeouts :: u64

record abr_env =
  env_client_id :: u64
  env_bandwidth_kbps :: u64
  env_cap_kbps :: u64
  env_order :: "u64 list"

definition controller_start :: "ssts_state \<Rightarrow> controller option" where
  "controller_start st =
     (let running = List.map_filter (\<lambda>i. map_option (\<lambda>f. (i, factory_create f)) (registry_get i))
                      (negotiated_algorithms st)
      in if running = [] then None
         else Some \<lparr>ct_running = running, ct_last_group = None, ct_largest_group = 0, ct_stream_timeouts = 0\<rparr>)"

definition validated_choice :: "selection \<Rightarrow> set_snapshot \<Rightarrow> u64 option" where
  "validated_choice sel s =
     (case sel (ss_id s) of
        Some (Some track_id) \<Rightarrow> if has_track s track_id then Some track_id else None
      | Some None \<Rightarrow> None
      | None \<Rightarrow> None)"

definition validate :: "selection \<Rightarrow> set_snapshot list \<Rightarrow> selection" where
  "validate sel sets = fold (\<lambda>s validated. validated(ss_id s \<mapsto> validated_choice sel s)) sets Map.empty"

fun run_algorithms ::
  "(set_snapshot list \<Rightarrow> abr_input) \<Rightarrow> set_snapshot list \<Rightarrow> (u64 \<times> abr_instance) list \<Rightarrow> selection \<Rightarrow>
     (u64 \<times> abr_instance) list \<times> selection" where
  "run_algorithms input sets [] decisions = ([], decisions)"
| "run_algorithms input sets ((i, algorithm) # running) decisions =
     (let algorithm_sets = filter (\<lambda>s. ss_algorithm_id s = i) sets in
      if algorithm_sets = []
      then (case run_algorithms input sets running decisions of
              (running', decisions') \<Rightarrow> ((i, algorithm) # running', decisions'))
      else
        (case instance_decide algorithm (input algorithm_sets) of
           (sel, algorithm') \<Rightarrow>
             (case run_algorithms input sets running (decisions ++ validate sel algorithm_sets) of
                (running', decisions') \<Rightarrow> ((i, algorithm') # running', decisions'))))"

definition decide_input ::
  "abr_env \<Rightarrow> u64 \<Rightarrow> (u64 \<rightharpoonup> u64) \<Rightarrow> u64 \<Rightarrow> set_snapshot list \<Rightarrow> abr_input" where
  "decide_input env group_id opened timeouts sets =
     \<lparr>ai_client_id = env_client_id env, ai_group_id = group_id,
      ai_bandwidth_estimate_kbps = env_bandwidth_kbps env, ai_configured_cap_kbps = env_cap_kbps env,
      ai_sets = sets, ai_open_streams_per_set = opened, ai_stream_timeouts = timeouts\<rparr>"

definition give_unowned :: "set_snapshot list \<Rightarrow> selection \<Rightarrow> selection" where
  "give_unowned sets decisions =
     fold (\<lambda>s d. d(ss_id s \<mapsto> None)) (filter (\<lambda>s. decisions (ss_id s) = None) sets) decisions"

definition controller_decide ::
  "abr_env \<Rightarrow> u64 \<Rightarrow> controller \<times> ssts_state \<Rightarrow> controller \<times> ssts_state" where
  "controller_decide env group_id cs =
     (let (c, st) = cs; (sets, opened) = decision_snapshot (env_order env) st in
      if sets = [] then (c, st)
      else
        (let (running, decisions) =
               run_algorithms (decide_input env group_id opened (ct_stream_timeouts c)) sets (ct_running c) Map.empty
         in (c\<lparr>ct_running := running, ct_stream_timeouts := 0\<rparr>,
             snd (record_group_decision st group_id (give_unowned sets decisions)
                    (saturating_sub (ct_largest_group c) DECISION_WINDOW)))))"

datatype abr_event = NewGroup u64 | StreamTimeout u64 | Ticked

definition redecide :: "abr_env \<Rightarrow> controller \<times> ssts_state \<Rightarrow> controller \<times> ssts_state" where
  "redecide env cs = (case ct_last_group (fst cs) of Some g \<Rightarrow> controller_decide env g cs | None \<Rightarrow> cs)"

fun controller_step :: "abr_env \<Rightarrow> abr_event \<Rightarrow> controller \<times> ssts_state \<Rightarrow> controller \<times> ssts_state" where
  "controller_step env (NewGroup g) (c, st) =
     (let c' = c\<lparr>ct_last_group := Some (max g (case ct_last_group c of Some l \<Rightarrow> l | None \<Rightarrow> 0)),
                 ct_largest_group := max (ct_largest_group c) g\<rparr>
      in if has_group_decision st g then (c', st) else controller_decide env g (c', st))"
| "controller_step env (StreamTimeout g) (c, st) =
     redecide env (c\<lparr>ct_largest_group := max (ct_largest_group c) g,
                     ct_stream_timeouts := ct_stream_timeouts c + 1\<rparr>, st)"
| "controller_step env Ticked cs = redecide env cs"

subsection \<open>What is recorded\<close>

lemma fold_upd:
  "distinct (map k xs) \<Longrightarrow>
     fold (\<lambda>x m. m(k x \<mapsto> f x)) xs m i = (case find (\<lambda>x. k x = i) xs of Some x \<Rightarrow> Some (f x) | None \<Rightarrow> m i)"
proof (induction xs arbitrary: m)
  case (Cons x xs)
  have "find (\<lambda>y. k y = i) xs = None" if "k x = i"
    using Cons.prems that by (auto simp: find_None_iff image_iff)
  with Cons show ?case by (auto split: option.splits)
qed simp

text \<open>Every entry is for a set that was shown, and forwards nothing or a track of that set while it
  is active.\<close>

definition sel_ok :: "set_snapshot list \<Rightarrow> selection \<Rightarrow> bool" where
  "sel_ok sets d \<longleftrightarrow> (\<forall>i c. d i = Some c \<longrightarrow>
     (\<exists>s \<in> set sets. ss_id s = i \<and> (\<forall>t. c = Some t \<longrightarrow> has_track s t \<and> ss_active s)))"

lemma validate_ok:
  assumes "distinct_ids sets" "valid_selection sets sel" "set sets \<subseteq> set all"
  shows "sel_ok all (validate sel sets)"
  unfolding sel_ok_def validate_def
proof (intro allI impI)
  fix i c
  assume "fold (\<lambda>s validated. validated(ss_id s \<mapsto> validated_choice sel s)) sets Map.empty i = Some c"
  then obtain s where s: "find (\<lambda>s. ss_id s = i) sets = Some s" "c = validated_choice sel s"
    using assms(1) by (auto simp: fold_upd distinct_ids_def split: option.splits)
  then have "s \<in> set sets" "ss_id s = i" by (auto simp: find_Some_iff)
  moreover have "has_track s t \<and> ss_active s" if "c = Some t" for t
    using that s(2) assms(2) \<open>s \<in> set sets\<close>
    by (auto simp: validated_choice_def valid_selection_def split: option.splits if_splits)
  ultimately show "\<exists>s \<in> set all. ss_id s = i \<and> (\<forall>t. c = Some t \<longrightarrow> has_track s t \<and> ss_active s)"
    using assms(3) by blast
qed

lemma run_algorithms_ok:
  assumes "distinct_ids sets" "\<And>ss. ai_sets (input ss) = ss" "sel_ok sets d"
  shows "sel_ok sets (snd (run_algorithms input sets running d))"
  using assms(3)
proof (induction running arbitrary: d)
  case (Cons r running)
  obtain i a where r: "r = (i, a)" by (cases r)
  define ss where "ss = filter (\<lambda>s. ss_algorithm_id s = i) sets"
  obtain sel a' where dec: "instance_decide a (input ss) = (sel, a')" by (cases "instance_decide a (input ss)")
  have ids: "distinct_ids ss" using assms(1) by (simp add: distinct_ids_def ss_def distinct_map_filter)
  have "valid_selection ss sel"
    using instance_abr.decide_valid [of "input ss" a] ids by (simp add: assms(2) dec)
  then have "sel_ok sets (validate sel ss)" by (rule validate_ok [OF ids]) (auto simp: ss_def)
  then have "sel_ok sets (d ++ validate sel ss)"
    using Cons.prems by (auto simp: sel_ok_def map_add_def split: option.splits)
  from Cons.IH [OF this] Cons.IH [OF Cons.prems] show ?case
    by (simp add: r Let_def ss_def [symmetric] dec split_beta)
qed simp

lemma give_unowned_ok:
  assumes "distinct_ids sets" "sel_ok sets d"
  shows "sel_ok sets (give_unowned sets d) \<and> dom (give_unowned sets d) = ss_id ` set sets"
proof -
  have ids: "distinct (map ss_id (filter (\<lambda>s. d (ss_id s) = None) sets))"
    using assms(1) by (simp add: distinct_ids_def distinct_map_filter)
  have g: "give_unowned sets d i =
      (case find (\<lambda>s. ss_id s = i) (filter (\<lambda>s. d (ss_id s) = None) sets) of Some _ \<Rightarrow> Some None | None \<Rightarrow> d i)" for i
    unfolding give_unowned_def by (simp add: fold_upd [OF ids])
  have "sel_ok sets (give_unowned sets d)"
    unfolding sel_ok_def
  proof (intro allI impI)
    fix i c assume c: "give_unowned sets d i = Some c"
    show "\<exists>s \<in> set sets. ss_id s = i \<and> (\<forall>t. c = Some t \<longrightarrow> has_track s t \<and> ss_active s)"
    proof (cases "find (\<lambda>s. ss_id s = i) (filter (\<lambda>s. d (ss_id s) = None) sets)")
      case None
      with c assms(2) show ?thesis by (simp add: g sel_ok_def)
    next
      case (Some s)
      then have "s \<in> set (filter (\<lambda>s. d (ss_id s) = None) sets) \<and> ss_id s = i"
        by (rule find_SomeD)
      with c Some show ?thesis by (auto simp: g)
    qed
  qed
  moreover have "give_unowned sets d (ss_id s) \<noteq> None" if "s \<in> set sets" for s
    using that by (auto simp: g find_None_iff split: option.splits)
  ultimately show ?thesis by (auto simp: sel_ok_def dom_def)
qed

text \<open>The snapshots of a consistent manager.\<close>

definition enumerates :: "u64 list \<Rightarrow> ssts_state \<Rightarrow> bool" where
  "enumerates order st \<longleftrightarrow> distinct order \<and> set order = dom (ssm_sets (switching_sets st))"

lemma snapshot_sets:
  assumes "enumerates order st" "ssm_inv owner (switching_sets st)"
  defines "sets \<equiv> fst (decision_snapshot order st)"
  shows "map ss_id sets = order"
    and "s \<in> set sets \<Longrightarrow> \<exists>w. ssm_sets (switching_sets st) (ss_id s) = Some w \<and> s = snapshot_from w"
proof -
  have *: "ssm_sets (switching_sets st) i = Some (the (ssm_sets (switching_sets st) i))
      \<and> ss_id (snapshot_from (the (ssm_sets (switching_sets st) i))) = i" if "i \<in> set order" for i
    using that assms(1) ssm_invD(1) [OF assms(2), of i] by (auto simp: enumerates_def snapshot_from_def set_ok_def)
  then show "map ss_id sets = order"
    by (simp add: sets_def decision_snapshot_def comp_def map_idI)
  show "\<exists>w. ssm_sets (switching_sets st) (ss_id s) = Some w \<and> s = snapshot_from w" if "s \<in> set sets"
  proof -
    from that obtain i where "i \<in> set order" "s = snapshot_from (the (ssm_sets (switching_sets st) i))"
      by (auto simp: sets_def decision_snapshot_def)
    with * [of i] show ?thesis by (intro exI [of _ "the (ssm_sets (switching_sets st) i)"]) simp
  qed
qed

lemma snapshot_track:
  assumes "ssm_inv owner m" "ssm_sets m i = Some w" "has_track (snapshot_from w) t"
  shows "relay_track_to_set m t = Some i"
  using assms ssm_invD(3) [OF assms(1), of t i] by (auto simp: has_track_def snapshot_from_def of_Some)

definition decision_ok :: "ssts_state \<Rightarrow> selection \<Rightarrow> bool" where
  "decision_ok st d \<longleftrightarrow>
     dom d = dom (ssm_sets (switching_sets st))
     \<and> (\<forall>i t. d i = Some (Some t) \<longrightarrow>
          relay_track_to_set (switching_sets st) t = Some i
          \<and> sw_is_active (the (ssm_sets (switching_sets st) i)))"

lemma controller_decide_state:
  assumes "enumerates (env_order env) st" "ssm_inv owner (switching_sets st)"
  shows "\<exists>c' d. decision_ok st d \<and>
     controller_decide env g (c, st) =
       (if ssm_sets (switching_sets st) = Map.empty then (c, st)
        else (c', snd (record_group_decision st g d (saturating_sub (ct_largest_group c) DECISION_WINDOW))))"
proof -
  define sets where "sets = fst (decision_snapshot (env_order env) st)"
  define inp where "inp = decide_input env g (snd (decision_snapshot (env_order env) st)) (ct_stream_timeouts c)"
  define d where "d = give_unowned sets (snd (run_algorithms inp sets (ct_running c) Map.empty))"
  note snap = snapshot_sets [OF assms, folded sets_def]
  have ids: "distinct_ids sets" using snap(1) assms(1) by (simp add: distinct_ids_def enumerates_def)
  have "sel_ok sets (snd (run_algorithms inp sets (ct_running c) Map.empty))"
    by (rule run_algorithms_ok [OF ids]) (simp_all add: inp_def decide_input_def sel_ok_def)
  from give_unowned_ok [OF ids this] have d: "sel_ok sets d" "dom d = ss_id ` set sets" by (simp_all add: d_def)
  have dom: "ss_id ` set sets = dom (ssm_sets (switching_sets st))"
    using snap(1) assms(1) by (metis enumerates_def set_map)
  have "decision_ok st d"
    unfolding decision_ok_def
  proof (intro conjI allI impI)
    show "dom d = dom (ssm_sets (switching_sets st))" using d(2) dom by simp
    fix i t assume "d i = Some (Some t)"
    then obtain s where s: "s \<in> set sets" "ss_id s = i" "has_track s t" "ss_active s"
      using d(1) unfolding sel_ok_def by blast
    from snap(2) [OF s(1)] s(2) obtain w where "ssm_sets (switching_sets st) i = Some w" "s = snapshot_from w" by auto
    with s(3,4) snapshot_track [OF assms(2)]
    show "relay_track_to_set (switching_sets st) t = Some i" "sw_is_active (the (ssm_sets (switching_sets st) i))"
      by (auto simp: snapshot_from_def)
  qed
  moreover have "sets = [] \<longleftrightarrow> ssm_sets (switching_sets st) = Map.empty"
    using dom by (metis dom_eq_empty_conv image_is_empty set_empty)
  ultimately show ?thesis
    by (intro exI [of _ "fst (controller_decide env g (c, st))"] exI [of _ d])
       (auto simp: controller_decide_def Let_def sets_def inp_def d_def split_beta)
qed

lemma record_cases:
  "group_decisions (snd (record_group_decision st g d oldest)) g' =
     (case group_decisions st g of
        Some _ \<Rightarrow> group_decisions st g'
      | None \<Rightarrow> if g' = g then Some d else if oldest \<le> g' then group_decisions st g' else None)"
  by (auto simp: record_group_decision_def split: option.split)

text \<open>The largest group an event makes known.\<close>

fun event_largest :: "abr_event \<Rightarrow> controller \<Rightarrow> u64" where
  "event_largest (NewGroup g) c = max (ct_largest_group c) g"
| "event_largest (StreamTimeout g) c = max (ct_largest_group c) g"
| "event_largest Ticked c = ct_largest_group c"

text \<open>Every step either leaves the decisions alone or records one for a group without a decision.\<close>

lemma controller_step_shape:
  assumes "enumerates (env_order env) st" "ssm_inv owner (switching_sets st)"
  shows "\<exists>g d c'. decision_ok st d \<and>
     (controller_step env ev (c, st) = (c', st)
      \<or> ssm_sets (switching_sets st) \<noteq> Map.empty
        \<and> controller_step env ev (c, st) =
            (c', snd (record_group_decision st g d (saturating_sub (event_largest ev c) DECISION_WINDOW))))"
proof -
  have step: "\<exists>d c'. decision_ok st d \<and> (controller_decide env g (k, st) = (c', st)
      \<or> ssm_sets (switching_sets st) \<noteq> Map.empty
        \<and> controller_decide env g (k, st) =
            (c', snd (record_group_decision st g d (saturating_sub (ct_largest_group k) DECISION_WINDOW))))" for g k
    using controller_decide_state [OF assms, of g k] by metis
  have redecide: "\<exists>g d c'. decision_ok st d \<and> (redecide env (k, st) = (c', st)
      \<or> ssm_sets (switching_sets st) \<noteq> Map.empty
        \<and> redecide env (k, st) =
            (c', snd (record_group_decision st g d (saturating_sub (ct_largest_group k) DECISION_WINDOW))))" for k
    using step by (cases "ct_last_group k") (simp_all add: redecide_def, blast+)
  show ?thesis
  proof (cases ev)
    case (NewGroup g)
    show ?thesis
      using step [of g "c\<lparr>ct_last_group := Some (max g (case ct_last_group c of Some l \<Rightarrow> l | None \<Rightarrow> 0)),
                 ct_largest_group := max (ct_largest_group c) g\<rparr>"]
      by (auto simp: NewGroup Let_def)
  next
    case (StreamTimeout g)
    show ?thesis
      using redecide [of "c\<lparr>ct_largest_group := max (ct_largest_group c) g, ct_stream_timeouts := ct_stream_timeouts c + 1\<rparr>"]
      by (simp add: StreamTimeout)
  next
    case Ticked
    show ?thesis using redecide [of c] by (simp add: Ticked)
  qed
qed

subsection \<open>A sample connection\<close>

definition sample_state :: ssts_state where
  "sample_state = \<lparr>negotiated_algorithms = [0],
     switching_sets = snd (assign ssm_new \<lparr>ftn_namespace = [[1]], ftn_name = [2]\<rparr> 10 1 7 0 500 1 1 0),
     group_decisions = Map.empty\<rparr>"

definition sample_env :: abr_env where
  "sample_env = \<lparr>env_client_id = 1, env_bandwidth_kbps = 0, env_cap_kbps = 0, env_order = [7]\<rparr>"

definition sample_controller :: controller where
  "sample_controller = \<lparr>ct_running = [(0, DefaultAlgorithm)], ct_last_group = None, ct_largest_group = 0,
     ct_stream_timeouts = 0\<rparr>"

lemma sample_ok:
  "enumerates (env_order sample_env) sample_state"
  "ssm_inv (\<lambda>_. \<lparr>ftn_namespace = [[1]], ftn_name = [2]\<rparr>) (switching_sets sample_state)"
  "ssm_sets (switching_sets sample_state) \<noteq> Map.empty"
  using assign_inv [OF ssm_new_inv [of "\<lambda>_. \<lparr>ftn_namespace = [[1]], ftn_name = [2]\<rparr>"]]
  by (auto simp: enumerates_def sample_env_def sample_state_def assign_def ssm_new_def Let_def bump_epoch_def fun_eq_iff)

subsection \<open>Properties\<close>

text \<open>C23. Every decision the loop records has an answer for each switching set of the connection
  and for no other, and forwards for a set nothing or a track that belongs to that set, and only
  while the set is active. A recorded answer is kept unchanged while its group is within the window
  below the largest group.\<close>

theorem recorded_decisions_ok:
  assumes "enumerates (env_order env) st" "ssm_inv owner (switching_sets st)"
    and "controller_step env ev (c, st) = (c', st')"
  shows "switching_sets st' = switching_sets st
    \<and> (\<forall>g d. group_decisions st' g = Some d \<longrightarrow> group_decisions st g = Some d \<or> decision_ok st d)
    \<and> (\<forall>g d. group_decisions st g = Some d \<and> saturating_sub (event_largest ev c) 5 \<le> g \<longrightarrow> group_decisions st' g = Some d)"
proof -
  from controller_step_shape [OF assms(1,2), of ev c] assms(3) obtain g d where d: "decision_ok st d"
    and st': "st' = st \<or> st' = snd (record_group_decision st g d (saturating_sub (event_largest ev c) DECISION_WINDOW))"
    by auto
  from st' show ?thesis
  proof
    assume st': "st' = snd (record_group_decision st g d (saturating_sub (event_largest ev c) DECISION_WINDOW))"
    have "switching_sets st' = switching_sets st"
      by (simp add: st' record_group_decision_def split: option.split)
    then show ?thesis
      using d by (auto simp: st' record_cases split: option.splits if_splits)
  qed simp
qed

theorem recorded_decisions_ok_witness:
  "\<exists>d. group_decisions (snd (controller_step sample_env (NewGroup 3) (sample_controller, sample_state))) 3 = Some d
     \<and> decision_ok sample_state d"
proof -
  obtain c' st' where step: "controller_step sample_env (NewGroup 3) (sample_controller, sample_state) = (c', st')"
    by fastforce
  from controller_decide_state [OF sample_ok(1,2), of 3 "sample_controller\<lparr>ct_last_group := Some 3, ct_largest_group := 3\<rparr>"]
  obtain d where "group_decisions st' 3 = Some d"
    using sample_ok(3) step
    by (auto simp: has_group_decision_def record_cases sample_state_def sample_controller_def max_def)
  moreover have "group_decisions sample_state 3 = None" by (simp add: sample_state_def)
  ultimately show ?thesis using recorded_decisions_ok [OF sample_ok(1,2) step] unfolding step snd_conv by fastforce
qed

text \<open>C38. The forward gate is never left without an answer: after a new group is announced on a
  connection that has switching sets, that group has a decision.\<close>

theorem new_group_answered:
  assumes "enumerates (env_order env) st" "ssm_inv owner (switching_sets st)" "ssm_sets (switching_sets st) \<noteq> Map.empty"
  shows "has_group_decision (snd (controller_step env (NewGroup g) (c, st))) g"
proof -
  define k where "k = c\<lparr>ct_last_group := Some (max g (case ct_last_group c of Some l \<Rightarrow> l | None \<Rightarrow> 0)),
                 ct_largest_group := max (ct_largest_group c) g\<rparr>"
  from controller_decide_state [OF assms(1,2), of g k] assms(3) obtain k' d where
    "controller_decide env g (k, st) =
       (k', snd (record_group_decision st g d (saturating_sub (ct_largest_group k) DECISION_WINDOW)))" by auto
  then show ?thesis
    by (auto simp: k_def [symmetric] Let_def has_group_decision_def record_cases split: option.splits)
qed

theorem new_group_answered_witness:
  "has_group_decision (snd (controller_step sample_env (NewGroup 3) (sample_controller, sample_state))) 3"
  by (rule new_group_answered [OF sample_ok])

end
