(* ===== verification/Streaming.thy ===== *)
theory Streaming
  imports Varint
begin

text \<open>
  Readers on a buffer that still grows. A stream reader parses what has arrived so far and, when the
  reader reports \<open>NotEnoughBytes\<close>, tries again with more. That is right only for readers whose verdict
  on a prefix stays true: what they returned they return again, and what they refused they refuse
  again, whatever arrives later. The theory defines that property, shows it of the building blocks of
  the readers, and derives how a loop that drains such a reader behaves when its input is cut into
  arbitrary pieces.
\<close>

definition not_enough :: "parse_error \<Rightarrow> bool" where
  "not_enough e \<longleftrightarrow> (\<exists>c n a. e = NotEnoughBytes c n a)"

lemma not_enough_simps [simp]:
  "not_enough (NotEnoughBytes c n a)" "\<not> not_enough (ProtocolViolation c)" "\<not> not_enough (CastingError c f t)"
  "\<not> not_enough (InvalidType c)" "\<not> not_enough (OtherError c)"
  by (simp_all add: not_enough_def)

definition streaming :: "'a parser \<Rightarrow> bool" where
  "streaming p \<longleftrightarrow>
     (\<forall>bs ds. case p bs of
        (Inr x, rest) \<Rightarrow> p (bs @ ds) = (Inr x, rest @ ds)
      | (Inl e, _) \<Rightarrow> not_enough e \<or> (\<exists>e' r. p (bs @ ds) = (Inl e', r) \<and> \<not> not_enough e'))"

named_theorems streaming_intros "readers whose verdict on a prefix stays true"

lemma streamingI:
  assumes "\<And>bs ds x rest. p bs = (Inr x, rest) \<Longrightarrow> p (bs @ ds) = (Inr x, rest @ ds)"
    and "\<And>bs ds e rest. p bs = (Inl e, rest) \<Longrightarrow> \<not> not_enough e \<Longrightarrow>
           \<exists>e' r. p (bs @ ds) = (Inl e', r) \<and> \<not> not_enough e'"
  shows "streaming p"
  unfolding streaming_def
proof (intro allI)
  fix bs ds
  show "case p bs of (Inr x, rest) \<Rightarrow> p (bs @ ds) = (Inr x, rest @ ds)
      | (Inl e, _) \<Rightarrow> not_enough e \<or> (\<exists>e' r. p (bs @ ds) = (Inl e', r) \<and> \<not> not_enough e')"
    using assms [of bs] by (cases "p bs"; cases "fst (p bs)") auto
qed

lemma streamingD:
  assumes "streaming p"
  shows "p bs = (Inr x, rest) \<Longrightarrow> p (bs @ ds) = (Inr x, rest @ ds)"
    and "p bs = (Inl e, rest) \<Longrightarrow> \<not> not_enough e \<Longrightarrow> \<exists>e' r. p (bs @ ds) = (Inl e', r) \<and> \<not> not_enough e'"
  using assms [unfolded streaming_def, rule_format, of bs ds] by auto

lemma streaming_pure [streaming_intros]: "streaming (preturn x)" "streaming (pfail e)" "streaming (plift r)"
  by (auto intro: streamingI)

lemma streaming_pbind [streaming_intros]:
  assumes "streaming p" "\<And>x. streaming (f x)"
  shows "streaming (pbind p f)"
proof (rule streamingI)
  fix bs ds y rest assume "pbind p f bs = (Inr y, rest)"
  then obtain x r where "p bs = (Inr x, r)" "f x r = (Inr y, rest)" by (auto simp: pbind_Inr_iff)
  then show "pbind p f (bs @ ds) = (Inr y, rest @ ds)"
    using streamingD(1) [OF assms(1)] streamingD(1) [OF assms(2)] by auto
next
  fix bs ds e rest assume a: "pbind p f bs = (Inl e, rest)" "\<not> not_enough e"
  obtain r rs where r: "p bs = (r, rs)" by (cases "p bs")
  show "\<exists>e' r. pbind p f (bs @ ds) = (Inl e', r) \<and> \<not> not_enough e'"
  proof (cases r)
    case (Inl e0)
    with a r streamingD(2) [OF assms(1), of bs e0 rs ds] show ?thesis by auto
  next
    case (Inr x)
    with a r streamingD(1) [OF assms(1), of bs x rs ds] streamingD(2) [OF assms(2), of x rs e rest ds] show ?thesis by auto
  qed
qed

lemma streaming_if [streaming_intros]: "streaming p \<Longrightarrow> streaming q \<Longrightarrow> streaming (if b then p else q)"
  by simp

lemma consuming_if: "consuming p \<Longrightarrow> consuming q \<Longrightarrow> consuming (if b then p else q)"
  by simp

lemma consuming_option: "consuming p \<Longrightarrow> (\<And>x. consuming (q x)) \<Longrightarrow> consuming (case m of None \<Rightarrow> p | Some x \<Rightarrow> q x)"
  by (cases m) auto

lemma streaming_get_vi [streaming_intros]: "streaming get_vi"
proof (rule streamingI)
  fix bs ds x rest assume "get_vi bs = (Inr x, rest)"
  then show "get_vi (bs @ ds) = (Inr x, rest @ ds)"
    by (cases bs) (auto simp: get_vi_def Let_def split: if_splits)
next
  fix bs ds e rest assume "get_vi bs = (Inl e, rest)" "\<not> not_enough e"
  then show "\<exists>e' r. get_vi (bs @ ds) = (Inl e', r) \<and> \<not> not_enough e'"
    by (cases bs) (auto simp: get_vi_def Let_def split: if_splits)
qed

lemma streaming_get_u8 [streaming_intros]: "streaming (get_u8_checked ctx)"
proof (rule streamingI)
  fix bs ds x rest assume "get_u8_checked ctx bs = (Inr x, rest)"
  then show "get_u8_checked ctx (bs @ ds) = (Inr x, rest @ ds)" by (cases bs) (auto simp: get_u8_checked_def)
next
  fix bs ds e rest assume "get_u8_checked ctx bs = (Inl e, rest)" "\<not> not_enough e"
  then show "\<exists>e' r. get_u8_checked ctx (bs @ ds) = (Inl e', r) \<and> \<not> not_enough e'"
    by (cases bs) (auto simp: get_u8_checked_def)
qed

text \<open>A block is taken only after its length was checked.\<close>

lemma streaming_block [streaming_intros]:
  assumes "\<And>b. streaming (f b)"
  shows "streaming (pbind (require_bytes ctx n) (\<lambda>_. pbind (copy_to_bytes n) f))"
proof (rule streamingI)
  fix bs ds x rest
  assume a: "pbind (require_bytes ctx n) (\<lambda>_. pbind (copy_to_bytes n) f) bs = (Inr x, rest)"
  then have n: "n \<le> length bs" by (auto simp: pbind_Inr_iff require_bytes_def split: if_splits)
  with a have "f (take n bs) (drop n bs) = (Inr x, rest)" by (simp add: pbind_apply copy_to_bytes_def)
  from streamingD(1) [OF assms this] n
  show "pbind (require_bytes ctx n) (\<lambda>_. pbind (copy_to_bytes n) f) (bs @ ds) = (Inr x, rest @ ds)"
    by (simp add: pbind_apply copy_to_bytes_def)
next
  fix bs ds e rest
  assume a: "pbind (require_bytes ctx n) (\<lambda>_. pbind (copy_to_bytes n) f) bs = (Inl e, rest)" "\<not> not_enough e"
  then have n: "n \<le> length bs" by (cases "n \<le> length bs") (auto simp: pbind_apply require_bytes_def)
  with a have "f (take n bs) (drop n bs) = (Inl e, rest)" by (simp add: pbind_apply copy_to_bytes_def)
  from streamingD(2) [OF assms this a(2)] n
  show "\<exists>e' r. pbind (require_bytes ctx n) (\<lambda>_. pbind (copy_to_bytes n) f) (bs @ ds) = (Inl e', r) \<and> \<not> not_enough e'"
    by (simp add: pbind_apply copy_to_bytes_def)
qed

lemma streaming_copy_last [streaming_intros]:
  "streaming (pbind (require_bytes ctx n) (\<lambda>_. copy_to_bytes n))"
proof -
  have "pbind (copy_to_bytes n) preturn = copy_to_bytes n" by (simp add: fun_eq_iff pbind_def copy_to_bytes_def)
  with streaming_block [of preturn ctx n] show ?thesis by (simp add: streaming_pure)
qed

text \<open>What was read from a buffer reports on every cut of it: the same result while the cut keeps
  what was consumed, and a request for more before that.\<close>

lemma streaming_cut:
  assumes "streaming p" "p (bs @ ds) = (Inr x, rest)"
  shows "(\<exists>e r. p bs = (Inl e, r) \<and> not_enough e) \<or> (\<exists>r. p bs = (Inr x, r) \<and> rest = r @ ds)"
proof (cases "p bs")
  case (Pair r rs)
  show ?thesis
  proof (cases r)
    case (Inl e)
    with Pair assms(2) streamingD(2) [OF assms(1), of bs e rs ds] show ?thesis by auto
  next
    case (Inr y)
    with Pair assms(2) streamingD(1) [OF assms(1), of bs y rs ds] show ?thesis by auto
  qed
qed

end
