(* ===== verification/Data_Stream.thy ===== *)
theory Data_Stream
  imports Streaming Control_Stream Unified_Object Data_Headers
begin

text \<open>
  Data streams (\<open>libs/moqtail-rs/src/transport/data_stream_handler.rs\<close>): the sender that writes a
  header and Objects, and the read task that buffers what the transport delivers, parses the header
  and then every whole Object, and queues them. What the transport's read returns, and when, is an
  explicit list of timed events, as for control streams. The theory shows that what the task queues
  depends only on the bytes of the stream and not on how they were cut into reads, that it is what
  the sender sent, and how a stream that ends early, stalls or contradicts itself is reported.
\<close>

subsection \<open>Items and headers\<close>

datatype data_stream_item =
    DS_Object moq_object
  | DS_EndOfRange end_of_range_kind location

datatype header_info =
    HI_Fetch fetch_header "fetch_msg option"
  | HI_Subgroup subgroup_header

abbreviation (input) DATA_STREAM_TIMEOUT :: nat where
  "DATA_STREAM_TIMEOUT \<equiv> 15000"

abbreviation (input) DEFAULT_PUBLISHER_PRIORITY :: u8 where
  "DEFAULT_PUBLISHER_PRIORITY \<equiv> 128"

record subgroup_priority_state =
  sp_group_id :: "u64 option"
  sp_priorities :: "u64 \<rightharpoonup> u8"

definition sp_default :: subgroup_priority_state where
  "sp_default = \<lparr>sp_group_id = None, sp_priorities = Map.empty\<rparr>"

record fetch_read_state =
  fr_prev_ctx :: "fetch_object_context option"
  fr_subgroup_priorities :: subgroup_priority_state

definition fr_default :: fetch_read_state where
  "fr_default = \<lparr>fr_prev_ctx = None, fr_subgroup_priorities = sp_default\<rparr>"

text \<open>\<open>FetchSubgroupPriorityState::validate\<close>: the new priority is stored even when it is refused.\<close>

definition sp_validate ::
  "subgroup_priority_state \<Rightarrow> fetch_object_payload \<Rightarrow> unit res \<times> subgroup_priority_state" where
  "sp_validate sp payload =
     (let sp1 = (if sp_group_id sp \<noteq> Some (fo_group_id payload)
                 then \<lparr>sp_group_id = Some (fo_group_id payload), sp_priorities = Map.empty\<rparr> else sp) in
      if fo_forwarding_preference payload \<noteq> FP_Subgroup then (Inr (), sp1)
      else
        (let previous = sp_priorities sp1 (fo_subgroup_id payload);
             sp2 = sp1\<lparr>sp_priorities := (sp_priorities sp1)(fo_subgroup_id payload \<mapsto> fo_publisher_priority payload)\<rparr>
         in case previous of
              Some p \<Rightarrow>
                if p \<noteq> fo_publisher_priority payload
                then (Inl (ProtocolViolation ''RecvDataStream::read_object(fetch_malformed_track)''), sp2)
                else (Inr (), sp2)
            | None \<Rightarrow> (Inr (), sp2)))"

definition fetch_group_order_of :: "fetch_msg option \<Rightarrow> group_order" where
  "fetch_group_order_of fetch_request =
     (case fetch_request of Some f \<Rightarrow> fetch_group_order f | None \<Rightarrow> GO_Ascending)"

subsection \<open>Sending\<close>

text \<open>The transport's \<open>write_all\<close> takes all bytes or fails; what it took is kept in order.\<close>

record send_data_stream =
  sd_header_info :: header_info
  sd_fetch_prev_ctx :: "fetch_object_context option"
  sd_written :: bytes

definition write_all :: "(bytes \<Rightarrow> bool) \<Rightarrow> string \<Rightarrow> bytes \<Rightarrow> send_data_stream \<Rightarrow> unit res \<times> send_data_stream" where
  "write_all accepts ctx buf sd =
     (if accepts buf then (Inr (), sd\<lparr>sd_written := sd_written sd @ buf\<rparr>) else (Inl (OtherError ctx), sd))"

definition header_bytes :: "header_info \<Rightarrow> bytes res" where
  "header_bytes hi = (case hi of
       HI_Fetch header _ \<Rightarrow> fetch_header_serialize header
     | HI_Subgroup header \<Rightarrow> subgroup_header_serialize header None)"

definition send_data_stream_new :: "(bytes \<Rightarrow> bool) \<Rightarrow> header_info \<Rightarrow> send_data_stream res" where
  "send_data_stream_new accepts hi =
     rbind (header_bytes hi) (\<lambda>buf.
       (case write_all accepts ''SendDataStream::new(header write)'' buf
               \<lparr>sd_header_info = hi, sd_fetch_prev_ctx = None, sd_written = []\<rparr> of
          (Inr _, sd) \<Rightarrow> Inr sd | (Inl e, _) \<Rightarrow> Inl e))"

definition send_object ::
  "(bytes \<Rightarrow> bool) \<Rightarrow> moq_object \<Rightarrow> u64 option \<Rightarrow> send_data_stream \<Rightarrow> unit res \<times> send_data_stream" where
  "send_object accepts ob previous_object_id sd =
     (case sd_header_info sd of
        HI_Fetch _ fetch_request \<Rightarrow>
          (case rbind (try_into_fetch ob) (\<lambda>payload.
                  rbind (fetch_object_serialize (FetchedObject payload) (sd_fetch_prev_ctx sd)
                           (fetch_group_order_of fetch_request)) (\<lambda>buf. Inr (payload, buf))) of
             Inl e \<Rightarrow> (Inl e, sd)
           | Inr (payload, buf) \<Rightarrow>
               write_all accepts ''SendDataStream::send_object'' buf
                 (sd\<lparr>sd_fetch_prev_ctx := Some (next_context (FetchedObject payload) (sd_fetch_prev_ctx sd))\<rparr>))
      | HI_Subgroup header \<Rightarrow>
          (case rbind (try_into_subgroup ob) (\<lambda>so.
                  subgroup_object_serialize so previous_object_id (sht_has_properties (sh_header_type header))) of
             Inl e \<Rightarrow> (Inl e, sd)
           | Inr buf \<Rightarrow> write_all accepts ''SendDataStream::send_object'' buf sd))"

definition send_end_of_range ::
  "(bytes \<Rightarrow> bool) \<Rightarrow> end_of_range_kind \<Rightarrow> location \<Rightarrow> send_data_stream \<Rightarrow> unit res \<times> send_data_stream" where
  "send_end_of_range accepts kind loc sd =
     (case sd_header_info sd of
        HI_Subgroup _ \<Rightarrow> (Inl (OtherError ''SendDataStream::send_end_of_range''), sd)
      | HI_Fetch _ _ \<Rightarrow>
          (let marker = EndOfRange kind (l_group loc) (l_object loc) in
           case fetch_object_serialize marker (sd_fetch_prev_ctx sd) GO_Ascending of
             Inl e \<Rightarrow> (Inl e, sd)
           | Inr buf \<Rightarrow>
               write_all accepts ''SendDataStream::send_end_of_range'' buf
                 (sd\<lparr>sd_fetch_prev_ctx := Some (next_context marker (sd_fetch_prev_ctx sd))\<rparr>)))"

subsection \<open>Receiving\<close>

datatype recv_error = RE_ParseError parse_error | RE_StreamClosed

text \<open>The variables of the read task and the state it shares with the reader of the queue.\<close>

record recv_state =
  rs_header_info :: "(nat \<times> header_info) option"
  rs_recv_bytes :: bytes
  rs_timeout_at :: nat
  rs_previous_object_id :: "u64 option"
  rs_fetch_state :: fetch_read_state
  rs_the_header_info :: "header_info option"
  rs_items :: "data_stream_item list"
  rs_is_closed :: bool
  rs_malformed_track :: bool

definition recv_state_new :: "nat \<Rightarrow> recv_state" where
  "recv_state_new now =
     \<lparr>rs_header_info = None, rs_recv_bytes = [], rs_timeout_at = now + DATA_STREAM_TIMEOUT,
      rs_previous_object_id = None, rs_fetch_state = fr_default, rs_the_header_info = None, rs_items = [],
      rs_is_closed = False, rs_malformed_track = False\<rparr>"

text \<open>\<open>pending\<close> is the shared map of the session's FETCH requests by Request ID.\<close>

definition read_header ::
  "(u64 \<rightharpoonup> fetch_msg) \<Rightarrow> bytes \<Rightarrow> bool \<Rightarrow> (nat \<times> header_info) option res" where
  "read_header pending bytes_cursor is_fetch =
     (if is_fetch
      then (case fetch_header_deserialize bytes_cursor of
              (Inr h, rest) \<Rightarrow>
                Inr (Some (length bytes_cursor - length rest, HI_Fetch h (pending (fh_request_id h))))
            | (Inl e, _) \<Rightarrow>
                if not_enough e then Inr None
                else Inl (ProtocolViolation ''RecvDataStream::new(FetchHeader validation)''))
      else (case subgroup_header_deserialize bytes_cursor of
              (Inr h, rest) \<Rightarrow> Inr (Some (length bytes_cursor - length rest, HI_Subgroup h))
            | (Inl e, _) \<Rightarrow>
                if not_enough e then Inr None
                else Inl (ProtocolViolation ''RecvDataStream::new(SubgroupHeader validation)'')))"

definition awaiting_subgroup_id :: "header_info \<Rightarrow> bool" where
  "awaiting_subgroup_id hi = (case hi of
       HI_Subgroup header \<Rightarrow>
         sh_subgroup_id header = None \<and> subgroup_id_is_first_object_id (sh_header_type header)
     | HI_Fetch _ _ \<Rightarrow> False)"

text \<open>A parsed Object of a fetch stream: its checks and its item.\<close>

definition fetch_item ::
  "fetch_read_state \<Rightarrow> fetch_object \<Rightarrow> data_stream_item res \<times> fetch_read_state \<times> bool" where
  "fetch_item fs fetch_obj = (case fetch_obj of
       FetchedObject payload \<Rightarrow>
         (case sp_validate (fr_subgroup_priorities fs) payload of
            (v, sp) \<Rightarrow>
              (case rbind v (\<lambda>_. validate_prior_gaps (fo_group_id payload) (fo_object_id payload) (fo_properties payload)) of
                 Inl e \<Rightarrow> (Inl e, fs\<lparr>fr_subgroup_priorities := sp\<rparr>, True)
               | Inr _ \<Rightarrow>
                   (rbind (try_from_fetch payload 0) (\<lambda>ob. Inr (DS_Object ob)),
                    fs\<lparr>fr_subgroup_priorities := sp\<rparr>, False)))
     | EndOfRange kind group_id object_id \<Rightarrow>
         (Inr (DS_EndOfRange kind (Location group_id object_id)), fs, False))"

text \<open>The two kinds of Object: the result, the header, the fetch state, whether the track was found
  malformed, and the bytes left.\<close>

definition parse_fetch_item ::
  "fetch_msg option \<Rightarrow> fetch_read_state \<Rightarrow> bytes \<Rightarrow>
     (u64 option \<times> fetch_object_context option \<times> data_stream_item) res \<times> fetch_read_state \<times> bool \<times> bytes" where
  "parse_fetch_item fetch_request fs bs =
     (case fetch_object_deserialize (fr_prev_ctx fs) (fetch_group_order_of fetch_request) bs of
        (Inl e, rest) \<Rightarrow> (Inl e, fs, False, rest)
      | (Inr fetch_obj, rest) \<Rightarrow>
          (let new_ctx = Some (next_context fetch_obj (fr_prev_ctx fs)) in
           case fetch_item fs fetch_obj of
             (r, fs', malformed) \<Rightarrow> (rbind r (\<lambda>item. Inr (None, new_ctx, item)), fs', malformed, rest)))"

definition parse_subgroup_item ::
  "subgroup_header \<Rightarrow> u64 option \<Rightarrow> bytes \<Rightarrow>
     (u64 option \<times> fetch_object_context option \<times> data_stream_item) res \<times> subgroup_header \<times> bytes" where
  "parse_subgroup_item header previous_object_id bs =
     (case subgroup_object_deserialize previous_object_id (sht_has_properties (sh_header_type header)) bs of
        (Inl e, rest) \<Rightarrow> (Inl e, header, rest)
      | (Inr so, rest) \<Rightarrow>
          (let object_id = so_object_id so;
               header' = (if awaiting_subgroup_id (HI_Subgroup header) then header\<lparr>sh_subgroup_id := Some object_id\<rparr> else header)
           in (rbind (try_from_subgroup so (sh_track_alias header') (sh_group_id header') (sh_subgroup_id header')
                        (sh_publisher_priority header') DEFAULT_PUBLISHER_PRIORITY)
                 (\<lambda>ob. Inr (Some object_id, None, DS_Object ob)), header', rest)))"

definition read_object ::
  "header_info \<Rightarrow> recv_state \<Rightarrow>
     (nat \<times> u64 option \<times> fetch_object_context option) res \<times> header_info \<times> recv_state" where
  "read_object hi st =
     (let bytes_cursor = rs_recv_bytes st in
      if bytes_cursor = [] then (Inr (0, None, None), hi, st)
      else
        (case (case hi of
                 HI_Fetch header fetch_request \<Rightarrow>
                   (case parse_fetch_item fetch_request (rs_fetch_state st) bytes_cursor of
                      (r, fs, malformed, rest) \<Rightarrow>
                        (r, hi, st\<lparr>rs_fetch_state := fs, rs_malformed_track := rs_malformed_track st \<or> malformed\<rparr>, rest))
               | HI_Subgroup header \<Rightarrow>
                   (case parse_subgroup_item header (rs_previous_object_id st) bytes_cursor of
                      (r, header', rest) \<Rightarrow> (r, HI_Subgroup header', st, rest))) of
           (Inr (object_id, new_ctx, item), hi', st1, rest) \<Rightarrow>
             (let consumed = length bytes_cursor - length rest;
                  st2 = (if awaiting_subgroup_id hi \<and> consumed > 0 then st1\<lparr>rs_the_header_info := Some hi'\<rparr> else st1)
              in (Inr (consumed, object_id, new_ctx), hi', st2\<lparr>rs_items := rs_items st2 @ [item]\<rparr>))
         | (Inl e, hi', st1, rest) \<Rightarrow>
             if not_enough e then (Inr (0, None, None), hi', st1)
             else (Inl (ProtocolViolation ''RecvDataStream::next_object(parse_result)''), hi',
                   st1\<lparr>rs_is_closed := True\<rparr>)))"

text \<open>The inner loop: every whole Object of the buffer.\<close>

function read_objects :: "recv_state \<Rightarrow> (recv_error + unit) \<times> recv_state" where
  "read_objects st =
     (case rs_header_info st of
        Some (n, header) \<Rightarrow>
          if rs_recv_bytes st = [] then (Inr (), st)
          else
            (case read_object header st of
               (Inl e, _, st') \<Rightarrow> (Inl (RE_ParseError e), st')
             | (Inr (c, object_id, new_ctx), current_header, st') \<Rightarrow>
                 if c > 0
                 then read_objects (st'\<lparr>rs_header_info := Some (n, current_header), rs_previous_object_id := object_id,
                        rs_fetch_state := (if new_ctx \<noteq> None then (rs_fetch_state st')\<lparr>fr_prev_ctx := new_ctx\<rparr>
                                           else rs_fetch_state st'),
                        rs_recv_bytes := drop c (rs_recv_bytes st)\<rparr>)
                 else (Inr (), st'))
      | None \<Rightarrow> (Inr (), st))"
  by pat_completeness auto
termination
  by (relation "measure (\<lambda>st. length (rs_recv_bytes st))") auto

declare read_objects.simps [simp del]

definition header_step :: "(u64 \<rightharpoonup> fetch_msg) \<Rightarrow> recv_state \<Rightarrow> (recv_error + unit) \<times> recv_state" where
  "header_step pending st =
     (if rs_recv_bytes st \<noteq> [] \<and> rs_header_info st = None
      then (case read_header pending (rs_recv_bytes st) (hd (rs_recv_bytes st) = FetchHeaderType) of
              Inl e \<Rightarrow> (Inl (RE_ParseError e), st\<lparr>rs_is_closed := True\<rparr>)
            | Inr None \<Rightarrow> (Inr (), st)
            | Inr (Some (consumed, header)) \<Rightarrow>
                (Inr (), st\<lparr>rs_header_info := Some (consumed, header), rs_recv_bytes := drop consumed (rs_recv_bytes st),
                            rs_the_header_info := Some header\<rparr>))
      else (Inr (), st))"

definition parse_step :: "(u64 \<rightharpoonup> fetch_msg) \<Rightarrow> recv_state \<Rightarrow> (recv_error + unit) \<times> recv_state" where
  "parse_step pending st =
     (case header_step pending st of
        (Inl e, st') \<Rightarrow> (Inl e, st')
      | (Inr _, st') \<Rightarrow> read_objects st')"

text \<open>The read task on a list of events; no result when it is still waiting after them. A timeout is
  tested before the read, and only a read that brought data moves it.\<close>

fun read_task ::
  "(u64 \<rightharpoonup> fetch_msg) \<Rightarrow> recv_state \<Rightarrow> (nat \<times> read_event) list \<Rightarrow> (recv_error + unit) option \<times> recv_state" where
  "read_task pending st evs =
     (case parse_step pending st of
        (Inl e, st') \<Rightarrow> (Some (Inl e), st')
      | (Inr _, st') \<Rightarrow>
          if rs_is_closed st'
          then (Some (if rs_recv_bytes st' \<noteq> [] then Inl (RE_ParseError (OtherError ''RecvDataStream::read'')) else Inr ()), st')
          else
            (case evs of
               [] \<Rightarrow> (None, st')
             | (t, ev) # evs' \<Rightarrow>
                 if rs_timeout_at st' \<le> t
                 then (Some (Inl (RE_ParseError (Timeout ''RecvDataStream::new(header_read)''))), st'\<lparr>rs_is_closed := True\<rparr>)
                 else
                   (case ev of
                      Data bs \<Rightarrow>
                        read_task pending
                          (if length bs > 0
                           then st'\<lparr>rs_recv_bytes := rs_recv_bytes st' @ bs, rs_timeout_at := t + DATA_STREAM_TIMEOUT\<rparr>
                           else st') evs'
                    | Fin \<Rightarrow> read_task pending (st'\<lparr>rs_is_closed := True\<rparr>) evs'
                    | NotConnected \<Rightarrow> (Some (Inl RE_StreamClosed), st'\<lparr>rs_is_closed := True\<rparr>)
                    | ReadError \<Rightarrow>
                        (Some (Inl (RE_ParseError (OtherError ''RecvDataStream::new(header_read)''))), st'\<lparr>rs_is_closed := True\<rparr>)
                    | Pending \<Rightarrow> read_task pending st' evs')))"

declare read_task.simps [simp del]

text \<open>Taking items: one pass of the loop of \<open>next_item\<close> over the shared state.\<close>

datatype read_outcome = READ_RUNNING | READ_FINISHED | READ_ABORTED

definition outcome_of :: "(recv_error + unit) option \<Rightarrow> read_outcome" where
  "outcome_of r = (case r of None \<Rightarrow> READ_RUNNING | Some (Inr _) \<Rightarrow> READ_FINISHED | Some (Inl _) \<Rightarrow> READ_ABORTED)"

datatype 'a poll = Ready 'a | Wait

fun poll_item :: "data_stream_item list \<Rightarrow> bool \<Rightarrow> read_outcome \<Rightarrow> data_stream_item option poll \<times> data_stream_item list" where
  "poll_item (item # items) closed outcome = (Ready (Some item), items)"
| "poll_item [] closed outcome = (if closed \<and> outcome \<noteq> READ_RUNNING then Ready None else Wait, [])"

fun poll_object :: "data_stream_item list \<Rightarrow> bool \<Rightarrow> read_outcome \<Rightarrow> moq_object option poll \<times> data_stream_item list" where
  "poll_object (DS_Object ob # items) closed outcome = (Ready (Some ob), items)"
| "poll_object (DS_EndOfRange _ _ # items) closed outcome = poll_object items closed outcome"
| "poll_object [] closed outcome = (if closed \<and> outcome \<noteq> READ_RUNNING then Ready None else Wait, [])"

subsection \<open>Readers of the parts\<close>

lemma streaming_subgroup_object [streaming_intros]: "streaming (subgroup_object_deserialize prev hp)"
  unfolding subgroup_object_deserialize_def read_subgroup_properties_def read_subgroup_body_def Let_def
  by (auto intro!: streaming_intros split: prod.split)

lemma streaming_subgroup_header [streaming_intros]: "streaming subgroup_header_deserialize"
  unfolding subgroup_header_deserialize_def by (auto intro!: streaming_intros)

lemma streaming_fetch_object [streaming_intros]: "streaming (fetch_object_deserialize prev order)"
  unfolding fetch_object_deserialize_def read_fetch_group_def read_fetch_subgroup_def read_fetch_object_id_def
    read_fetch_priority_def read_fetch_properties_def read_fetch_payload_def Let_def
  by (auto intro!: streaming_intros split: option.split)

lemma fetch_header_extend:
  assumes "bs \<noteq> []" "hd bs = FetchHeaderType"
  shows "fetch_header_deserialize bs = pbind get_vi (\<lambda>_. pbind get_vi (\<lambda>i. preturn (FetchHeader i))) bs"
proof -
  obtain cs where bs: "bs = 5 # cs" using assms by (cases bs) (auto simp: FetchHeaderType_def)
  have "get_vi bs = (Inr 5, cs)" by (simp add: bs get_vi_def leading_ones_def)
  then show ?thesis by (simp add: fetch_header_deserialize_def)
qed

lemma streaming_fetch_header: "streaming (pbind get_vi (\<lambda>_. pbind get_vi (\<lambda>i. preturn (FetchHeader i))))"
  by (intro streaming_intros)

lemma progressing_subgroup_object: "progressing (subgroup_object_deserialize prev hp)"
  unfolding subgroup_object_deserialize_def read_subgroup_properties_def read_subgroup_body_def Let_def
  by (rule progressing_pbind) (auto intro!: consuming_pbind split: prod.split)

lemma progressing_fetch_object: "progressing (fetch_object_deserialize prev order)"
  unfolding fetch_object_deserialize_def read_fetch_group_def read_fetch_subgroup_def read_fetch_object_id_def
    read_fetch_priority_def read_fetch_properties_def read_fetch_payload_def Let_def
  by (intro progressing_pbind get_vi_progressing)
    (intro consuming_pbind consuming_if consuming_option consuming_basic get_vi_consuming)

lemmas progressing_objects = progressing_subgroup_object progressing_fetch_object

lemma item_errors:
  "fst (fetch_item fs ob) = Inl e \<Longrightarrow> \<not> not_enough e"
  "\<exists>ob. try_from_subgroup so a g s p d = Inr ob"
proof -
  assume "fst (fetch_item fs ob) = Inl e"
  moreover have "v = Inl e \<Longrightarrow> \<not> not_enough e" if "sp_validate sp pl = (v, sp')" for v sp pl sp'
    using that by (auto simp: sp_validate_def Let_def split: if_splits option.splits)
  moreover have "validate_gaps g i ps = Inl e \<Longrightarrow> \<not> not_enough e" for g i ps
    by (induction g i ps rule: validate_gaps.induct) (auto split: if_splits)
  ultimately show "\<not> not_enough e"
    by (auto simp: fetch_item_def rbind_def try_from_fetch_def validate_prior_gaps_def
        split: fetch_object.splits prod.splits sum.splits option.splits)
qed (simp add: try_from_subgroup_def)

subsection \<open>More bytes\<close>

definition more_bytes :: "bytes \<Rightarrow> recv_state \<Rightarrow> recv_state" where
  "more_bytes ds st = st\<lparr>rs_recv_bytes := rs_recv_bytes st @ ds\<rparr>"

lemma more_bytes_simps [simp]:
  "rs_header_info (more_bytes ds st) = rs_header_info st" "rs_recv_bytes (more_bytes ds st) = rs_recv_bytes st @ ds"
  "rs_timeout_at (more_bytes ds st) = rs_timeout_at st" "rs_previous_object_id (more_bytes ds st) = rs_previous_object_id st"
  "rs_fetch_state (more_bytes ds st) = rs_fetch_state st" "rs_the_header_info (more_bytes ds st) = rs_the_header_info st"
  "rs_items (more_bytes ds st) = rs_items st" "rs_is_closed (more_bytes ds st) = rs_is_closed st"
  "rs_malformed_track (more_bytes ds st) = rs_malformed_track st"
  "more_bytes [] st = st" "more_bytes es (more_bytes ds st) = more_bytes (ds @ es) st"
  by (simp_all add: more_bytes_def)

text \<open>What one call of \<open>read_object\<close> does, by the verdict of the reader it uses.\<close>

definition item_reader :: "header_info \<Rightarrow> recv_state \<Rightarrow> (fetch_object + subgroup_object) parser" where
  "item_reader hi st = (case hi of
       HI_Fetch _ rq \<Rightarrow> pbind (fetch_object_deserialize (fr_prev_ctx (rs_fetch_state st)) (fetch_group_order_of rq)) (\<lambda>x. preturn (Inl x))
     | HI_Subgroup h \<Rightarrow> pbind (subgroup_object_deserialize (rs_previous_object_id st) (sht_has_properties (sh_header_type h))) (\<lambda>x. preturn (Inr x)))"

lemma streaming_item_reader: "streaming (item_reader hi st)"
  unfolding item_reader_def by (cases hi) (auto intro!: streaming_intros)

lemma progressing_item_reader: "progressing (item_reader hi st)"
  using progressing_objects by (cases hi) (auto simp: item_reader_def progressing_def pbind_Inr_iff)

lemma item_reader_more [simp]: "item_reader hi (more_bytes ds st) = item_reader hi st"
  by (cases hi) (simp_all add: item_reader_def)

lemma read_object_not_enough:
  assumes "rs_recv_bytes st \<noteq> []" "item_reader hi st (rs_recv_bytes st) = (Inl e, r)" "not_enough e"
  shows "read_object hi st = (Inr (0, None, None), hi, st)"
  using assms
  by (cases hi)
     (auto simp: read_object_def item_reader_def parse_fetch_item_def parse_subgroup_item_def pbind_apply
       split: prod.splits sum.splits)

lemma read_object_refused:
  assumes "rs_recv_bytes st \<noteq> []" "item_reader hi st (rs_recv_bytes st) = (Inl e, r)" "\<not> not_enough e"
  shows "read_object hi st = (Inl (ProtocolViolation ''RecvDataStream::next_object(parse_result)''), hi, st\<lparr>rs_is_closed := True\<rparr>)"
  using assms
  by (cases hi)
     (auto simp: read_object_def item_reader_def parse_fetch_item_def parse_subgroup_item_def pbind_apply
       split: prod.splits sum.splits)

text \<open>The effect of a parsed Object, which the bytes after it do not influence.\<close>

definition accept_item ::
  "header_info \<Rightarrow> fetch_object + subgroup_object \<Rightarrow> recv_state \<Rightarrow>
     (u64 option \<times> fetch_object_context option) res \<times> header_info \<times> recv_state" where
  "accept_item hi x st = (case (hi, x) of
       (HI_Fetch _ _, Inl fo) \<Rightarrow>
         (case fetch_item (rs_fetch_state st) fo of
            (r, fs, malformed) \<Rightarrow>
              (let st1 = st\<lparr>rs_fetch_state := fs, rs_malformed_track := rs_malformed_track st \<or> malformed\<rparr> in
               case r of
                 Inr item \<Rightarrow> (Inr (None, Some (next_context fo (fr_prev_ctx (rs_fetch_state st)))), hi, st1\<lparr>rs_items := rs_items st @ [item]\<rparr>)
               | Inl e \<Rightarrow> (Inl (ProtocolViolation ''RecvDataStream::next_object(parse_result)''), hi, st1\<lparr>rs_is_closed := True\<rparr>)))
     | (HI_Subgroup h, Inr so) \<Rightarrow>
         (let h' = (if awaiting_subgroup_id hi then h\<lparr>sh_subgroup_id := Some (so_object_id so)\<rparr> else h);
              st1 = (if awaiting_subgroup_id hi then st\<lparr>rs_the_header_info := Some (HI_Subgroup h')\<rparr> else st) in
          case try_from_subgroup so (sh_track_alias h') (sh_group_id h') (sh_subgroup_id h') (sh_publisher_priority h') DEFAULT_PUBLISHER_PRIORITY of
            Inr ob \<Rightarrow> (Inr (Some (so_object_id so), None), HI_Subgroup h', st1\<lparr>rs_items := rs_items st @ [DS_Object ob]\<rparr>)
          | Inl e \<Rightarrow> (Inl e, hi, st))
     | _ \<Rightarrow> (Inr (None, None), hi, st))"

lemma read_object_accepted:
  assumes "item_reader hi st (rs_recv_bytes st) = (Inr x, rest)"
  shows "read_object hi st =
    (case accept_item hi x st of
       (Inr (oid, ctx), hi', st') \<Rightarrow> (Inr (length (rs_recv_bytes st) - length rest, oid, ctx), hi', st')
     | (Inl e, hi', st') \<Rightarrow> (Inl e, hi', st'))"
proof -
  have len: "length rest < length (rs_recv_bytes st)"
    using progressing_item_reader assms by (auto simp: progressing_def)
  then have ne: "rs_recv_bytes st \<noteq> []" by auto
  show ?thesis
  proof (cases hi)
    case (HI_Fetch h rq)
    then obtain fo where fo: "x = Inl fo" "fetch_object_deserialize (fr_prev_ctx (rs_fetch_state st)) (fetch_group_order_of rq)
        (rs_recv_bytes st) = (Inr fo, rest)"
      using assms by (auto simp: item_reader_def pbind_Inr_iff)
    obtain r fs m where fi: "fetch_item (rs_fetch_state st) fo = (r, fs, m)" by (cases "fetch_item (rs_fetch_state st) fo") auto
    with item_errors(1) [of "rs_fetch_state st" fo] have "\<And>e. r = Inl e \<Longrightarrow> \<not> not_enough e" by simp
    with fo fi ne show ?thesis
      by (cases r) (auto simp: HI_Fetch read_object_def parse_fetch_item_def accept_item_def Let_def awaiting_subgroup_id_def)
  next
    case (HI_Subgroup h)
    then obtain so where so: "x = Inr so" "subgroup_object_deserialize (rs_previous_object_id st) (sht_has_properties (sh_header_type h))
        (rs_recv_bytes st) = (Inr so, rest)"
      using assms by (auto simp: item_reader_def pbind_Inr_iff)
    with ne len show ?thesis
      by (auto simp: HI_Subgroup read_object_def parse_subgroup_item_def accept_item_def Let_def try_from_subgroup_def)
  qed
qed

lemma accept_item_more:
  "accept_item hi x (more_bytes ds st) = map_prod id (map_prod id (more_bytes ds)) (accept_item hi x st)"
  by (auto simp: accept_item_def more_bytes_def Let_def try_from_subgroup_def split: header_info.splits sum.splits prod.splits)

text \<open>The inner loop by the verdict of the reader.\<close>

definition after_item ::
  "nat \<Rightarrow> bytes \<Rightarrow> header_info \<Rightarrow> u64 option \<Rightarrow> fetch_object_context option \<Rightarrow> recv_state \<Rightarrow> recv_state" where
  "after_item n rest hi oid ctx st =
     st\<lparr>rs_header_info := Some (n, hi), rs_previous_object_id := oid,
        rs_fetch_state := (if ctx \<noteq> None then (rs_fetch_state st)\<lparr>fr_prev_ctx := ctx\<rparr> else rs_fetch_state st),
        rs_recv_bytes := rest\<rparr>"

lemma after_item_more: "after_item n (rest @ ds) hi oid ctx (more_bytes ds st) = more_bytes ds (after_item n rest hi oid ctx st)"
  by (simp add: after_item_def more_bytes_def)

lemma read_objects_idle:
  "rs_header_info st = None \<or> rs_recv_bytes st = [] \<Longrightarrow> read_objects st = (Inr (), st)"
  by (auto simp: read_objects.simps [of st] split: option.splits)

lemma read_objects_not_enough:
  assumes "rs_header_info st = Some (n, hi)" "item_reader hi st (rs_recv_bytes st) = (Inl e, r)" "not_enough e"
  shows "read_objects st = (Inr (), st)"
proof (cases "rs_recv_bytes st = []")
  case False
  from read_object_not_enough [OF this assms(2,3)] show ?thesis
    using False assms(1) by (simp add: read_objects.simps [of st])
qed (simp add: read_objects_idle)

lemma read_objects_refused:
  assumes "rs_header_info st = Some (n, hi)" "item_reader hi st (rs_recv_bytes st) = (Inl e, r)" "\<not> not_enough e"
    and "rs_recv_bytes st \<noteq> []"
  shows "read_objects st =
    (Inl (RE_ParseError (ProtocolViolation ''RecvDataStream::next_object(parse_result)'')), st\<lparr>rs_is_closed := True\<rparr>)"
  using read_object_refused [OF assms(4,2,3)] assms(1,4) by (simp add: read_objects.simps [of st])

lemma item_reader_rest:
  assumes "item_reader hi st bs = (Inr x, rest)"
  shows "drop (length bs - length rest) bs = rest" "length rest < length bs"
proof -
  have "consuming (item_reader hi st)"
    unfolding item_reader_def subgroup_object_deserialize_def read_subgroup_properties_def read_subgroup_body_def
      fetch_object_deserialize_def read_fetch_group_def read_fetch_subgroup_def read_fetch_object_id_def
      read_fetch_priority_def read_fetch_properties_def read_fetch_payload_def Let_def
    by (cases hi; simp only: header_info.case)
      (intro consuming_pbind consuming_if consuming_option consuming_basic get_vi_consuming |
        simp only: split_beta)+
  from consumingD [OF this assms] show "drop (length bs - length rest) bs = rest" by auto
  show "length rest < length bs" using progressing_item_reader assms by (auto simp: progressing_def)
qed

lemma read_objects_accepted:
  assumes "rs_header_info st = Some (n, hi)" "item_reader hi st (rs_recv_bytes st) = (Inr x, rest)"
  shows "read_objects st =
    (case accept_item hi x st of
       (Inr (oid, ctx), hi', st') \<Rightarrow> read_objects (after_item n rest hi' oid ctx st')
     | (Inl e, hi', st') \<Rightarrow> (Inl (RE_ParseError e), st'))"
proof -
  note r = item_reader_rest [OF assms(2)]
  then have ne: "rs_recv_bytes st \<noteq> []" "0 < length (rs_recv_bytes st) - length rest" by auto
  show ?thesis
    unfolding read_objects.simps [of st] assms(1) option.case prod.case read_object_accepted [OF assms(2)]
    using ne r(1) by (auto simp: after_item_def split: prod.splits sum.splits)
qed

text \<open>Induction over the Objects of the buffer.\<close>

lemma read_objects_rule [case_names idle short fails step]:
  assumes idle: "\<And>st. rs_header_info st = None \<or> rs_recv_bytes st = [] \<Longrightarrow> P st"
    and short: "\<And>st n hi e r. rs_header_info st = Some (n, hi) \<Longrightarrow> rs_recv_bytes st \<noteq> [] \<Longrightarrow>
      item_reader hi st (rs_recv_bytes st) = (Inl e, r) \<Longrightarrow> P st"
    and fails: "\<And>st n hi x rest e hi' st'. rs_header_info st = Some (n, hi) \<Longrightarrow>
      item_reader hi st (rs_recv_bytes st) = (Inr x, rest) \<Longrightarrow> accept_item hi x st = (Inl e, hi', st') \<Longrightarrow> P st"
    and step: "\<And>st n hi x rest oid ctx hi' st'. rs_header_info st = Some (n, hi) \<Longrightarrow>
      item_reader hi st (rs_recv_bytes st) = (Inr x, rest) \<Longrightarrow> accept_item hi x st = (Inr (oid, ctx), hi', st') \<Longrightarrow>
      P (after_item n rest hi' oid ctx st') \<Longrightarrow> P st"
  shows "P st"
proof (induction "length (rs_recv_bytes st)" arbitrary: st rule: less_induct)
  case less
  show ?case
  proof (cases "rs_header_info st = None \<or> rs_recv_bytes st = []")
    case False
    then obtain n hi where hi: "rs_header_info st = Some (n, hi)" "rs_recv_bytes st \<noteq> []" by auto
    obtain r rest where r: "item_reader hi st (rs_recv_bytes st) = (r, rest)" by fastforce
    show ?thesis
    proof (cases r)
      case (Inl e)
      with r short [OF hi] show ?thesis by blast
    next
      case (Inr x)
      obtain ra hi' st' where a: "accept_item hi x st = (ra, hi', st')" by (cases "accept_item hi x st") auto
      show ?thesis
      proof (cases ra)
        case (Inl e)
        with fails [OF hi(1) r [unfolded Inr]] a show ?thesis by blast
      next
        case ok: (Inr oc)
        obtain oid ctx where oc: "oc = (oid, ctx)" by (cases oc)
        have "length (rs_recv_bytes (after_item n rest hi' oid ctx st')) < length (rs_recv_bytes st)"
          using item_reader_rest(2) [OF r [unfolded Inr]] by (simp add: after_item_def)
        from step [OF hi(1) r [unfolded Inr] _ less [OF this]] a ok oc show ?thesis by simp
      qed
    qed
  qed (rule idle)
qed

text \<open>Objects that are complete are read the same way before and after more bytes arrive.\<close>

lemma read_objects_more:
  "(case read_objects st of
      (Inr _, st') \<Rightarrow> read_objects (more_bytes ds st) = read_objects (more_bytes ds st')
    | (Inl e, st') \<Rightarrow> read_objects (more_bytes ds st) = (Inl e, more_bytes ds st'))"
proof (induction st rule: read_objects_rule)
  case (idle st)
  then show ?case by (simp add: read_objects_idle)
next
  case (short st n hi e r)
  show ?case
  proof (cases "not_enough e")
    case True
    with short show ?thesis by (simp add: read_objects_not_enough [OF short(1,3)])
  next
    case False
    from streamingD(2) [OF streaming_item_reader short(3) False, of ds] obtain e' r'
      where e': "item_reader hi (more_bytes ds st) (rs_recv_bytes (more_bytes ds st)) = (Inl e', r')" "\<not> not_enough e'" by auto
    with read_objects_refused [OF short(1,3) False short(2)] read_objects_refused [OF _ e', of n] short
    show ?thesis by (simp add: more_bytes_def)
  qed
next
  case (fails st n hi x rest e hi' st')
  have "item_reader hi (more_bytes ds st) (rs_recv_bytes (more_bytes ds st)) = (Inr x, rest @ ds)"
    using streamingD(1) [OF streaming_item_reader fails(2)] by simp
  from read_objects_accepted [OF _ this, of n] read_objects_accepted [OF fails(1,2)] fails show ?case
    by (simp add: accept_item_more)
next
  case (step st n hi x rest oid ctx hi' st')
  have "item_reader hi (more_bytes ds st) (rs_recv_bytes (more_bytes ds st)) = (Inr x, rest @ ds)"
    using streamingD(1) [OF streaming_item_reader step(2)] by simp
  from read_objects_accepted [OF _ this, of n] read_objects_accepted [OF step(1,2)] step show ?case
    by (auto simp: accept_item_more after_item_more split: prod.splits sum.splits)
qed

lemma read_objects_header:
  "rs_header_info st \<noteq> None \<Longrightarrow> rs_header_info (snd (read_objects st)) \<noteq> None"
proof (induction st rule: read_objects_rule)
  case (short st n hi e r)
  then show ?case
    using read_objects_not_enough [OF short(1,3)] read_objects_refused [OF short(1,3) _ short(2)]
    by (cases "not_enough e") simp_all
next
  case (fails st n hi x rest e hi' st')
  then show ?case using read_objects_accepted [OF fails(1,2)]
    by (auto simp: accept_item_def Let_def try_from_subgroup_def split: header_info.splits sum.splits prod.splits)
next
  case (step st n hi x rest oid ctx hi' st')
  then show ?case using read_objects_accepted [OF step(1,2)] by (simp add: after_item_def)
qed (simp add: read_objects_idle)

text \<open>The timeout plays no part in parsing, and the closed flag is only set by a refusal.\<close>

definition marked :: "nat \<Rightarrow> bool \<Rightarrow> recv_state \<Rightarrow> recv_state" where
  "marked t c st = st\<lparr>rs_timeout_at := t, rs_is_closed := c\<rparr>"

lemma marked_simps [simp]:
  "rs_header_info (marked t c st) = rs_header_info st" "rs_recv_bytes (marked t c st) = rs_recv_bytes st"
  "rs_timeout_at (marked t c st) = t" "rs_previous_object_id (marked t c st) = rs_previous_object_id st"
  "rs_fetch_state (marked t c st) = rs_fetch_state st" "rs_the_header_info (marked t c st) = rs_the_header_info st"
  "rs_items (marked t c st) = rs_items st" "rs_is_closed (marked t c st) = c"
  "rs_malformed_track (marked t c st) = rs_malformed_track st" "marked t c (marked t' c' st) = marked t c st"
  "marked (rs_timeout_at st) (rs_is_closed st) st = st" "marked t c (more_bytes ds st) = more_bytes ds (marked t c st)"
  "item_reader hi (marked t c st) = item_reader hi st"
  by (cases hi; simp add: marked_def more_bytes_def item_reader_def)+

lemma closed_state: "st\<lparr>rs_is_closed := c\<rparr> = marked (rs_timeout_at st) c st"
  by (cases st) (simp add: marked_def)

lemma data_state:
  "st\<lparr>rs_recv_bytes := rs_recv_bytes st @ bs, rs_timeout_at := x\<rparr> = marked x (rs_is_closed st) (more_bytes bs st)"
  by (cases st) (simp add: marked_def more_bytes_def)

lemma accept_item_marked:
  "accept_item hi x (marked t c st) =
     (case accept_item hi x st of
        (Inr oc, hi', st') \<Rightarrow> (Inr oc, hi', marked t c st')
      | (Inl e, hi', st') \<Rightarrow> (Inl e, hi', marked t True st'))"
  by (auto simp: accept_item_def marked_def Let_def try_from_subgroup_def split: header_info.splits sum.splits prod.splits)

lemma accept_item_closed:
  "accept_item hi x st = (Inl e, hi', st') \<Longrightarrow> rs_is_closed st'"
  "accept_item hi x st = (Inr oc, hi', st') \<Longrightarrow> rs_is_closed st' = rs_is_closed st"
  by (auto simp: accept_item_def Let_def try_from_subgroup_def split: header_info.splits sum.splits prod.splits if_splits)

lemma after_item_marked: "after_item n rest hi oid ctx (marked t c st) = marked t c (after_item n rest hi oid ctx st)"
  by (simp add: after_item_def marked_def)

lemma read_objects_marked:
  "read_objects (marked t c st) =
     (case read_objects st of
        (Inr u, st') \<Rightarrow> (Inr u, marked t c st')
      | (Inl e, st') \<Rightarrow> (Inl e, marked t True st'))
   \<and> (case read_objects st of (Inr _, st') \<Rightarrow> rs_is_closed st' = rs_is_closed st | (Inl _, st') \<Rightarrow> rs_is_closed st')"
proof (induction st rule: read_objects_rule)
  case (idle st)
  then show ?case by (simp add: read_objects_idle)
next
  case (short st n hi e r)
  have "item_reader hi (marked t c st) (rs_recv_bytes (marked t c st)) = (Inl e, r)" using short(3) by simp
  note m = read_objects_not_enough [OF _ this, of n] read_objects_refused [OF _ this, of n]
  show ?case
    using m short read_objects_not_enough [OF short(1,3)] read_objects_refused [OF short(1,3) _ short(2)]
    by (cases "not_enough e") (simp_all add: marked_def)
next
  case (fails st n hi x rest e hi' st')
  have "item_reader hi (marked t c st) (rs_recv_bytes (marked t c st)) = (Inr x, rest)" using fails(2) by simp
  from read_objects_accepted [OF _ this, of n] read_objects_accepted [OF fails(1,2)] fails accept_item_closed(1) show ?case
    by (simp add: accept_item_marked)
next
  case (step st n hi x rest oid ctx hi' st')
  have "item_reader hi (marked t c st) (rs_recv_bytes (marked t c st)) = (Inr x, rest)" using step(2) by simp
  moreover have "rs_is_closed (after_item n rest hi' oid ctx st') = rs_is_closed st"
    using accept_item_closed(2) [OF step(3)] by (simp add: after_item_def)
  ultimately show ?case
    using read_objects_accepted [of "marked t c st" n hi x rest] read_objects_accepted [OF step(1,2)] step
    by (auto simp: accept_item_marked after_item_marked split: prod.splits sum.splits)
qed

subsection \<open>Headers\<close>

lemma read_header_more:
  assumes "bs \<noteq> []"
  shows "case read_header pending bs (hd bs = FetchHeaderType) of
      Inr (Some (n, h)) \<Rightarrow> read_header pending (bs @ ds) (hd bs = FetchHeaderType) = Inr (Some (n, h)) \<and> n \<le> length bs
    | Inr None \<Rightarrow> True
    | Inl e \<Rightarrow> read_header pending (bs @ ds) (hd bs = FetchHeaderType) = Inl e"
proof (cases "hd bs = FetchHeaderType")
  case True
  note f = fetch_header_extend [OF assms True] fetch_header_extend [of "bs @ ds"]
  obtain r rest where r: "fetch_header_deserialize bs = (r, rest)" by fastforce
  show ?thesis
  proof (cases r)
    case (Inl e)
    with r f True assms streamingD(2) [OF streaming_fetch_header, of bs e rest ds] show ?thesis
      by (auto simp: read_header_def)
  next
    case (Inr h)
    with r f True assms streamingD(1) [OF streaming_fetch_header, of bs h rest ds]
    show ?thesis by (auto simp: read_header_def)
  qed
next
  case False
  obtain r rest where r: "subgroup_header_deserialize bs = (r, rest)" by fastforce
  show ?thesis
  proof (cases r)
    case (Inl e)
    with r False streamingD(2) [OF streaming_subgroup_header, of bs e rest ds] show ?thesis
      by (auto simp: read_header_def)
  next
    case (Inr h)
    with r False streamingD(1) [OF streaming_subgroup_header, of bs h rest ds] show ?thesis
      by (auto simp: read_header_def)
  qed
qed

lemma parse_step_more:
  "(case parse_step pending st of
      (Inr _, st') \<Rightarrow> parse_step pending (more_bytes ds st) = parse_step pending (more_bytes ds st')
    | (Inl e, st') \<Rightarrow> parse_step pending (more_bytes ds st) = (Inl e, more_bytes ds st'))"
proof (cases "rs_recv_bytes st \<noteq> [] \<and> rs_header_info st = None")
  case True
  note h = read_header_more [OF conjunct1 [OF True], of pending ds]
  show ?thesis
  proof (cases "read_header pending (rs_recv_bytes st) (hd (rs_recv_bytes st) = FetchHeaderType)")
    case (Inl e)
    with h True show ?thesis by (simp add: parse_step_def header_step_def more_bytes_def)
  next
    case (Inr q)
    show ?thesis
    proof (cases q)
      case None
      with Inr True show ?thesis by (simp add: parse_step_def header_step_def read_objects_idle)
    next
      case (Some nh)
      obtain n hd' where nh: "nh = (n, hd')" by (cases nh)
      define st1 where "st1 = st\<lparr>rs_header_info := Some (n, hd'), rs_recv_bytes := drop n (rs_recv_bytes st), rs_the_header_info := Some hd'\<rparr>"
      have s1: "header_step pending st = (Inr (), st1)" using Inr Some True nh by (simp add: header_step_def st1_def)
      have s2: "header_step pending (more_bytes ds st) = (Inr (), more_bytes ds st1)"
        using Inr Some True nh h by (simp add: header_step_def st1_def more_bytes_def)
      have keep: "header_step pending (more_bytes ds st') = (Inr (), more_bytes ds st')"
        if "read_objects st1 = (Inr u, st')" for u st'
        using read_objects_header [of st1] that by (auto simp: header_step_def st1_def)
      show ?thesis using read_objects_more [where st = st1 and ds = ds] keep
        by (auto simp: parse_step_def s1 s2 split: prod.splits sum.splits)
    qed
  qed
next
  case False
  have keep: "header_step pending (more_bytes ds st') = (Inr (), more_bytes ds st')"
    if "rs_header_info st \<noteq> None" "read_objects st = (Inr u, st')" for u st'
    using read_objects_header [OF that(1)] that(2) by (auto simp: header_step_def)
  show ?thesis
  proof (cases "rs_header_info st = None")
    case True
    with False show ?thesis by (simp add: parse_step_def header_step_def read_objects_idle)
  next
    case present: False
    then have "header_step pending st = (Inr (), st)" "header_step pending (more_bytes ds st) = (Inr (), more_bytes ds st)"
      by (auto simp: header_step_def)
    with read_objects_more [where st = st and ds = ds] keep [OF present] show ?thesis
      by (auto simp: parse_step_def split: prod.splits sum.splits)
  qed
qed

lemma parse_step_marked:
  "parse_step pending (marked t c st) =
     (case parse_step pending st of
        (Inr u, st') \<Rightarrow> (Inr u, marked t c st')
      | (Inl e, st') \<Rightarrow> (Inl e, marked t True st'))
   \<and> (case parse_step pending st of (Inr _, st') \<Rightarrow> rs_is_closed st' = rs_is_closed st \<and> rs_timeout_at st' = rs_timeout_at st
       | (Inl _, st') \<Rightarrow> rs_is_closed st')"
proof -
  obtain r st1 where h: "header_step pending st = (r, st1)" by fastforce
  have m: "header_step pending (marked t c st) = (case r of Inr _ \<Rightarrow> (r, marked t c st1) | Inl e \<Rightarrow> (r, marked t True st1))" for t c
    using h by (auto simp: header_step_def marked_def split: sum.splits option.splits prod.splits if_splits)
  have cl: "case r of Inr _ \<Rightarrow> rs_is_closed st1 = rs_is_closed st \<and> rs_timeout_at st1 = rs_timeout_at st | Inl _ \<Rightarrow> rs_is_closed st1"
    using h by (auto simp: header_step_def split: sum.splits option.splits prod.splits if_splits)
  have tm: "rs_timeout_at (snd (read_objects st1)) = rs_timeout_at st1"
    using read_objects_marked [of "rs_timeout_at st1" "rs_is_closed st1" st1]
    by (auto split: prod.splits sum.splits)
  show ?thesis
    using m [of t c] cl tm h read_objects_marked [of t c st1]
    by (auto simp: parse_step_def split: sum.splits prod.splits)
qed

subsection \<open>The read task\<close>

text \<open>What the reader of the queue can see of a read task.\<close>

definition outcome ::
  "(recv_error + unit) option \<times> recv_state \<Rightarrow>
     (recv_error + unit) option \<times> data_stream_item list \<times> header_info option \<times> bool \<times> bool" where
  "outcome run = (case run of (r, st) \<Rightarrow> (r, rs_items st, rs_the_header_info st, rs_malformed_track st, rs_is_closed st))"

text \<open>Every event is data and comes before the timeout that the data before it set.\<close>

fun in_time :: "nat \<Rightarrow> (nat \<times> read_event) list \<Rightarrow> bool" where
  "in_time deadline [] \<longleftrightarrow> True"
| "in_time deadline ((t, ev) # evs) \<longleftrightarrow>
     t < deadline \<and> (case ev of Data bs \<Rightarrow> in_time (if bs = [] then deadline else t + DATA_STREAM_TIMEOUT) evs | _ \<Rightarrow> False)"

fun last_deadline :: "nat \<Rightarrow> (nat \<times> read_event) list \<Rightarrow> nat" where
  "last_deadline deadline [] = deadline"
| "last_deadline deadline ((t, ev) # evs) =
     last_deadline (if event_bytes (t, ev) = [] then deadline else t + DATA_STREAM_TIMEOUT) evs"

text \<open>The end of a stream whose bytes are all there.\<close>

definition finish_stream :: "(u64 \<rightharpoonup> fetch_msg) \<Rightarrow> recv_state \<Rightarrow> (recv_error + unit) option \<times> recv_state" where
  "finish_stream pending st =
     (case parse_step pending st of
        (Inl e, st') \<Rightarrow> (Some (Inl e), st')
      | (Inr _, st') \<Rightarrow>
          (Some (if rs_recv_bytes st' \<noteq> [] then Inl (RE_ParseError (OtherError ''RecvDataStream::read'')) else Inr ()),
           st'\<lparr>rs_is_closed := True\<rparr>))"

lemma outcome_more [simp]: "outcome (r, more_bytes ds st) = outcome (r, st)"
  by (simp add: outcome_def)

lemma parse_step_again:
  assumes "parse_step pending st = (Inr u, st')"
  shows "parse_step pending st' = (Inr u, st')"
  using parse_step_more [where pending = pending and st = st and ds = "[]"] assms by simp

lemma finish_stream_marked: "outcome (finish_stream pending (marked t c st)) = outcome (finish_stream pending st)"
  using parse_step_marked [of pending t c st]
  by (auto simp: finish_stream_def outcome_def marked_def split: prod.splits sum.splits)

lemma finish_stream_more:
  assumes "parse_step pending st = (Inr u, st')"
  shows "finish_stream pending (more_bytes ds st) = finish_stream pending (more_bytes ds st')"
  using parse_step_more [where pending = pending and st = st and ds = ds] assms by (simp add: finish_stream_def)

lemma read_task_fin:
  assumes "parse_step pending st = (Inr u, st')" "\<not> rs_is_closed st" "tf < rs_timeout_at st"
  shows "read_task pending st ((tf, Fin) # evs) = finish_stream pending st"
proof -
  have st': "\<not> rs_is_closed st'" "rs_timeout_at st' = rs_timeout_at st"
    using parse_step_marked [of pending "rs_timeout_at st" "rs_is_closed st" st] assms by auto
  have "parse_step pending (st'\<lparr>rs_is_closed := True\<rparr>) = (Inr u, st'\<lparr>rs_is_closed := True\<rparr>)"
    using parse_step_marked [of pending "rs_timeout_at st'" True st'] parse_step_again [OF assms(1)]
    by (simp add: closed_state)
  with assms st' show ?thesis
    by (simp add: read_task.simps [of pending st] read_task.simps [of pending "st'\<lparr>rs_is_closed := True\<rparr>"] finish_stream_def)
qed

lemma read_task_chunks:
  assumes "in_time (rs_timeout_at st) evs" "\<not> rs_is_closed st" "tf < last_deadline (rs_timeout_at st) evs"
  shows "outcome (read_task pending st (evs @ [(tf, Fin)])) = outcome (finish_stream pending (more_bytes (data_of evs) st))"
  using assms
proof (induction evs arbitrary: st)
  case Nil
  show ?case
  proof (cases "parse_step pending st")
    case (Pair r st')
    with Nil read_task_fin [of pending st _ st' tf "[]"] show ?thesis
      by (cases r) (auto simp: data_of_def read_task.simps [of pending st] finish_stream_def)
  qed
next
  case (Cons e evs)
  obtain t bs where e: "e = (t, Data bs)" using Cons.prems(1) by (cases e; cases "snd e") auto
  let ?d = "data_of (e # evs)"
  show ?case
  proof (cases "parse_step pending st")
    case (Pair r st')
    show ?thesis
    proof (cases r)
      case (Inl x)
      then have "parse_step pending (more_bytes ?d st) = (Inl x, more_bytes ?d st')"
        using parse_step_more [where pending = pending and st = st and ds = ?d] Pair by simp
      with Inl Pair show ?thesis by (simp add: read_task.simps [of pending st] finish_stream_def)
    next
      case (Inr u)
      have st': "\<not> rs_is_closed st'" "rs_timeout_at st' = rs_timeout_at st"
        using parse_step_marked [of pending "rs_timeout_at st" "rs_is_closed st" st] Pair Inr Cons.prems(2) by auto
      define st2 where "st2 = (if bs = [] then st' else marked (t + DATA_STREAM_TIMEOUT) (rs_is_closed st') (more_bytes bs st'))"
      have run: "read_task pending st ((e # evs) @ [(tf, Fin)]) = read_task pending st2 (evs @ [(tf, Fin)])"
        using Pair Inr st' Cons.prems(1) e
        by (simp add: read_task.simps [of pending st] st2_def data_state del: marked_simps)
      have "in_time (rs_timeout_at st2) evs" "\<not> rs_is_closed st2" "tf < last_deadline (rs_timeout_at st2) evs"
        using Cons.prems st' e by (auto simp: st2_def)
      from Cons.IH [OF this] have "outcome (read_task pending st ((e # evs) @ [(tf, Fin)])) =
          outcome (finish_stream pending (more_bytes (data_of evs) st2))" by (simp only: run)
      also have "\<dots> = outcome (finish_stream pending (more_bytes ?d st'))"
        using finish_stream_marked [of pending "t + DATA_STREAM_TIMEOUT" "rs_is_closed st'" "more_bytes (bs @ data_of evs) st'"]
        by (simp add: st2_def e data_of_def)
      also have "\<dots> = outcome (finish_stream pending (more_bytes ?d st))"
        using finish_stream_more [of pending st u st' ?d] Pair Inr by simp
      finally show ?thesis .
    qed
  qed
qed

subsection \<open>What was sent is what is read\<close>

text \<open>A sender that gives every Object the ID of the Object before it.\<close>

fun send_items ::
  "u64 option \<Rightarrow> data_stream_item list \<Rightarrow> send_data_stream \<Rightarrow> unit res \<times> send_data_stream" where
  "send_items prev [] sd = (Inr (), sd)"
| "send_items prev (DS_Object ob # items) sd =
     (case send_object (\<lambda>_. True) ob prev sd of
        (Inr _, sd') \<Rightarrow> send_items (Some (l_object (ob_location ob))) items sd'
      | (Inl e, sd') \<Rightarrow> (Inl e, sd'))"
| "send_items prev (DS_EndOfRange kind loc # items) sd =
     (case send_end_of_range (\<lambda>_. True) kind loc sd of
        (Inr _, sd') \<Rightarrow> send_items prev items sd'
      | (Inl e, sd') \<Rightarrow> (Inl e, sd'))"

text \<open>The Object a subgroup stream delivers for one that was sent.\<close>

definition resolve_header :: "subgroup_header \<Rightarrow> u64 \<Rightarrow> subgroup_header" where
  "resolve_header h oid = (if awaiting_subgroup_id (HI_Subgroup h) then h\<lparr>sh_subgroup_id := Some oid\<rparr> else h)"

definition received :: "subgroup_header \<Rightarrow> moq_object \<Rightarrow> moq_object" where
  "received h ob =
     \<lparr>ob_track_alias = sh_track_alias h, ob_location = Location (sh_group_id h) (l_object (ob_location ob)),
      ob_publisher_priority = (case sh_publisher_priority h of Some p \<Rightarrow> p | None \<Rightarrow> DEFAULT_PUBLISHER_PRIORITY),
      ob_forwarding_preference = FP_Subgroup, ob_subgroup_id = sh_subgroup_id h, ob_status = ob_status ob,
      ob_properties = (if sht_has_properties (sh_header_type h)
                       then Some (sort_key object_property_type_value (props_or_empty (ob_properties ob))) else None),
      ob_payload = (if ob_payload ob = Some [] then None else ob_payload ob)\<rparr>"

fun received_items :: "subgroup_header \<Rightarrow> data_stream_item list \<Rightarrow> data_stream_item list" where
  "received_items h [] = []"
| "received_items h (DS_Object ob # items) =
     (let h' = resolve_header h (l_object (ob_location ob)) in DS_Object (received h' ob) # received_items h' items)"
| "received_items h (DS_EndOfRange _ _ # items) = received_items h items"

fun last_header :: "subgroup_header \<Rightarrow> data_stream_item list \<Rightarrow> subgroup_header" where
  "last_header h (DS_Object ob # items) = resolve_header h (l_object (ob_location ob))"
| "last_header h (DS_EndOfRange _ _ # items) = last_header h items"
| "last_header h [] = h"

fun item_properties_wf :: "data_stream_item \<Rightarrow> bool" where
  "item_properties_wf (DS_Object ob) \<longleftrightarrow> (\<forall>p \<in> set (props_or_empty (ob_properties ob)). object_property_wf p)"
| "item_properties_wf (DS_EndOfRange _ _) \<longleftrightarrow> True"

lemma resolve_header_again [simp]:
  "awaiting_subgroup_id (HI_Subgroup (resolve_header h oid)) = False"
  "sh_header_type (resolve_header h oid) = sh_header_type h"
  by (auto simp: resolve_header_def awaiting_subgroup_id_def)

lemma try_into_subgroup_Inr:
  assumes "try_into_subgroup ob = Inr so"
  shows "so_object_id so = l_object (ob_location ob)" "so_properties so = ob_properties ob"
    and "try_from_subgroup (subgroup_object_normal (sht_has_properties (sh_header_type h)) so) (sh_track_alias h) (sh_group_id h)
           (sh_subgroup_id h) (sh_publisher_priority h) DEFAULT_PUBLISHER_PRIORITY = Inr (received h ob)"
  using assms
  by (auto simp: try_into_subgroup_def rbind_Inr_iff ok_or_Inr_iff try_from_subgroup_def subgroup_object_normal_def received_def
      split: if_splits option.splits)

lemma send_items_extends:
  "send_items prev items sd = (r, sd') \<Longrightarrow> \<exists>bs. sd_written sd' = sd_written sd @ bs \<and> sd_header_info sd' = sd_header_info sd"
proof (induction prev items sd rule: send_items.induct)
  case (2 prev ob items sd)
  have "\<exists>bs. sd_written sd1 = sd_written sd @ bs \<and> sd_header_info sd1 = sd_header_info sd"
    if "send_object (\<lambda>_. True) ob prev sd = (r1, sd1)" for r1 sd1
    using that by (auto simp: send_object_def write_all_def split: header_info.splits sum.splits prod.splits)
  with 2 show ?case by (auto split: prod.splits sum.splits)
next
  case (3 prev kind loc items sd)
  have "\<exists>bs. sd_written sd1 = sd_written sd @ bs \<and> sd_header_info sd1 = sd_header_info sd"
    if "send_end_of_range (\<lambda>_. True) kind loc sd = (r1, sd1)" for r1 sd1
    using that by (auto simp: send_end_of_range_def write_all_def Let_def split: header_info.splits sum.splits prod.splits)
  with 3 show ?case by (auto split: prod.splits sum.splits)
qed auto

text \<open>Reading the Objects of a subgroup stream.\<close>

lemma send_subgroup_object:
  assumes "send_object (\<lambda>_. True) ob prev sd = (Inr u, sd1)" "sd_header_info sd = HI_Subgroup h"
    and "item_properties_wf (DS_Object ob)"
  obtains so b where "try_into_subgroup ob = Inr so" "sd1 = sd\<lparr>sd_written := sd_written sd @ b\<rparr>"
    "length b < 2 ^ 64 \<Longrightarrow> subgroup_object_deserialize prev (sht_has_properties (sh_header_type h)) (b @ rest) =
       (Inr (subgroup_object_normal (sht_has_properties (sh_header_type h)) so), rest)"
proof -
  let ?hp = "sht_has_properties (sh_header_type h)"
  from assms(1,2) obtain so b where so: "try_into_subgroup ob = Inr so" "subgroup_object_serialize so prev ?hp = Inr b"
    and sd1: "sd1 = sd\<lparr>sd_written := sd_written sd @ b\<rparr>"
    by (auto simp: send_object_def write_all_def rbind_Inr_iff split: sum.splits)
  have wf: "\<forall>p \<in> set (props_or_empty (so_properties so)). object_property_wf p"
    using assms(3) try_into_subgroup_Inr(2) [OF so(1)] by simp
  moreover have "?hp \<or> props_or_empty (so_properties so) = []"
    using so(2) by (auto simp: subgroup_object_serialize_def Let_def split: if_splits)
  ultimately show thesis
    using subgroup_object_roundtrip [OF wf, of ?hp prev rest] so(2) by (intro that [OF so(1) sd1]) auto
qed

lemma read_sent_subgroup:
  assumes "send_items prev items sd = (Inr (), sd')" "sd_header_info sd = HI_Subgroup h0" "sh_header_type h0 = sh_header_type h"
    and "\<forall>i \<in> set items. item_properties_wf i" "sd_written sd' = sd_written sd @ bs" "length bs < 2 ^ 64"
    and "rs_header_info st = Some (n, HI_Subgroup h)" "rs_recv_bytes st = bs" "rs_previous_object_id st = prev"
  shows "\<exists>st'. read_objects st = (Inr (), st') \<and> rs_recv_bytes st' = []
    \<and> rs_items st' = rs_items st @ received_items h items \<and> rs_malformed_track st' = rs_malformed_track st
    \<and> rs_the_header_info st' = (if awaiting_subgroup_id (HI_Subgroup h) \<and> items \<noteq> []
         then Some (HI_Subgroup (last_header h items)) else rs_the_header_info st)"
  using assms
proof (induction prev items sd arbitrary: st h bs rule: send_items.induct)
  case (1 prev sd)
  then show ?case by (auto simp: read_objects_idle)
next
  case (2 prev ob items sd)
  obtain sd1 where sd1: "send_object (\<lambda>_. True) ob prev sd = (Inr (), sd1)" "send_items (Some (l_object (ob_location ob))) items sd1 = (Inr (), sd')"
    using "2.prems"(1) by (auto split: prod.splits sum.splits)
  obtain bs2 where bs2: "sd_written sd' = sd_written sd1 @ bs2" using send_items_extends [OF sd1(2)] by blast
  have wf: "item_properties_wf (DS_Object ob)" using "2.prems"(4) by simp
  from send_subgroup_object [OF sd1(1) "2.prems"(2) wf, of bs2] obtain so b where so: "try_into_subgroup ob = Inr so"
    and b: "sd1 = sd\<lparr>sd_written := sd_written sd @ b\<rparr>"
    and d: "length b < 2 ^ 64 \<Longrightarrow> subgroup_object_deserialize prev (sht_has_properties (sh_header_type h0)) (b @ bs2) =
       (Inr (subgroup_object_normal (sht_has_properties (sh_header_type h0)) so), bs2)" by metis
  have bs: "bs = b @ bs2" using bs2 b "2.prems"(5) by simp
  define h' where "h' = resolve_header h (l_object (ob_location ob))"
  let ?so = "subgroup_object_normal (sht_has_properties (sh_header_type h)) so"
  have rd: "item_reader (HI_Subgroup h) st (rs_recv_bytes st) = (Inr (Inr ?so), bs2)"
    using d "2.prems"(3,6,8,9) by (simp add: item_reader_def bs)
  have id: "so_object_id ?so = l_object (ob_location ob)"
    using try_into_subgroup_Inr(1) [OF so] by (simp add: subgroup_object_normal_def)
  define st1 where "st1 = (if awaiting_subgroup_id (HI_Subgroup h) then st\<lparr>rs_the_header_info := Some (HI_Subgroup h')\<rparr> else st)
      \<lparr>rs_items := rs_items st @ [DS_Object (received h' ob)]\<rparr>"
  have acc: "accept_item (HI_Subgroup h) (Inr ?so) st = (Inr (Some (l_object (ob_location ob)), None), HI_Subgroup h', st1)"
    using try_into_subgroup_Inr(3) [OF so, of h']
    unfolding accept_item_def Let_def prod.case header_info.case sum.case id st1_def h'_def resolve_header_def [symmetric]
    by (simp add: resolve_header_again(2))
  define st2 where "st2 = after_item n bs2 (HI_Subgroup h') (Some (l_object (ob_location ob))) None st1"
  have step: "read_objects st = read_objects st2"
    using read_objects_accepted [OF "2.prems"(7) rd] by (simp add: acc st2_def)
  have hyps: "sd_header_info sd1 = HI_Subgroup h0" "sh_header_type h0 = sh_header_type h'" "\<forall>i \<in> set items. item_properties_wf i"
    "length bs2 < 2 ^ 64" "rs_header_info st2 = Some (n, HI_Subgroup h')" "rs_recv_bytes st2 = bs2"
    "rs_previous_object_id st2 = Some (l_object (ob_location ob))"
    using "2.prems" b bs by (simp_all add: h'_def st2_def after_item_def)
  from "2.IH" [OF sd1(1) [symmetric] refl sd1(2) hyps(1-3) bs2 hyps(4-7)] show ?case
    by (auto simp: step st2_def after_item_def st1_def h'_def Let_def)
next
  case (3 prev kind loc items sd)
  then show ?case by (simp add: send_end_of_range_def)
qed

text \<open>Reading the entries of a fetch stream.\<close>

fun fetch_entry_of :: "data_stream_item \<Rightarrow> fetch_object res" where
  "fetch_entry_of (DS_Object ob) = rbind (try_into_fetch ob) (\<lambda>p. Inr (FetchedObject p))"
| "fetch_entry_of (DS_EndOfRange kind loc) = Inr (EndOfRange kind (l_group loc) (l_object loc))"

text \<open>The checks a fetch stream's Objects have to pass, one after the other.\<close>

fun fetch_checks :: "subgroup_priority_state \<Rightarrow> fetch_object list \<Rightarrow> bool" where
  "fetch_checks sp [] \<longleftrightarrow> True"
| "fetch_checks sp (FetchedObject p # es) \<longleftrightarrow>
     (case sp_validate sp p of
        (Inr _, sp') \<Rightarrow> validate_prior_gaps (fo_group_id p) (fo_object_id p) (fo_properties p) = Inr () \<and> fetch_checks sp' es
      | (Inl _, _) \<Rightarrow> False)"
| "fetch_checks sp (EndOfRange _ _ _ # es) \<longleftrightarrow> fetch_checks sp es"

fun fetched :: "data_stream_item \<Rightarrow> data_stream_item" where
  "fetched (DS_Object ob) = DS_Object (ob
     \<lparr>ob_track_alias := 0,
      ob_properties := (if props_or_empty (ob_properties ob) = [] then None
                        else Some (sort_key object_property_type_value (props_or_empty (ob_properties ob)))),
      ob_payload := (if ob_payload ob = Some [] then None else ob_payload ob)\<rparr>)"
| "fetched (DS_EndOfRange kind loc) = DS_EndOfRange kind loc"

lemma fetch_payload_normal_fields [simp]:
  "fo_group_id (fetch_payload_normal p) = fo_group_id p" "fo_object_id (fetch_payload_normal p) = fo_object_id p"
  "fo_publisher_priority (fetch_payload_normal p) = fo_publisher_priority p"
  "fo_forwarding_preference (fetch_payload_normal p) = fo_forwarding_preference p"
  "fo_forwarding_preference p = FP_Subgroup \<Longrightarrow> fo_subgroup_id (fetch_payload_normal p) = fo_subgroup_id p"
  by (simp_all add: fetch_payload_normal_def)

lemma sp_validate_normal [simp]: "sp_validate sp (fetch_payload_normal p) = sp_validate sp p"
  by (cases "fo_forwarding_preference p") (simp_all add: sp_validate_def Let_def split: option.split)

lemma validate_gaps_normal:
  "validate_prior_gaps g i (fo_properties p) = Inr () \<Longrightarrow>
     validate_prior_gaps g i (fo_properties (fetch_payload_normal p)) = Inr ()"
  by (cases "fo_properties p") (auto simp: fetch_payload_normal_def validate_prior_gaps_def validate_gaps_iff)

lemma try_into_fetch_Inr:
  assumes "try_into_fetch ob = Inr p"
  shows "try_from_fetch (fetch_payload_normal p) 0 = Inr (case fetched (DS_Object ob) of DS_Object ob' \<Rightarrow> ob')"
  using assms
  by (cases ob; cases "ob_location ob")
     (auto simp: try_into_fetch_def try_from_fetch_def fetch_payload_normal_def rbind_Inr_iff ok_or_Inr_iff
       split: if_splits option.splits object_forwarding_preference.splits)

lemma fetch_item_sent:
  assumes "fetch_entry_of item = Inr e" "fetch_checks (fr_subgroup_priorities fs) (e # es)"
  obtains sp where "fetch_item fs (fetch_entry_normal e) = (Inr (fetched item), fs\<lparr>fr_subgroup_priorities := sp\<rparr>, False)"
    "fetch_checks sp es"
proof (cases item)
  case (DS_Object ob)
  then obtain p where p: "e = FetchedObject p" "try_into_fetch ob = Inr p" using assms(1) by (auto simp: rbind_Inr_iff)
  obtain sp where sp: "sp_validate (fr_subgroup_priorities fs) p = (Inr (), sp)" "fetch_checks sp es"
    and g: "validate_prior_gaps (fo_group_id p) (fo_object_id p) (fo_properties p) = Inr ()"
    using assms(2) p by (auto split: prod.splits sum.splits)
  have "fetch_item fs (fetch_entry_normal e) = (Inr (fetched item), fs\<lparr>fr_subgroup_priorities := sp\<rparr>, False)"
    using sp validate_gaps_normal [OF g] try_into_fetch_Inr [OF p(2)] by (simp add: fetch_item_def p DS_Object)
  then show thesis using sp(2) by (rule that)
next
  case (DS_EndOfRange k l)
  with assms show thesis by (intro that [of "fr_subgroup_priorities fs"]) (auto simp: fetch_item_def)
qed

lemma send_fetch_entry:
  assumes "send_items prev (item # items) sd = (Inr (), sd')" "sd_header_info sd = HI_Fetch fh rq"
  obtains e b prev' sd1 where "fetch_entry_of item = Inr e" "send_items prev' items sd1 = (Inr (), sd')"
    "sd1 = sd\<lparr>sd_fetch_prev_ctx := Some (next_context e (sd_fetch_prev_ctx sd)), sd_written := sd_written sd @ b\<rparr>"
    "fetch_object_serialize e (sd_fetch_prev_ctx sd) (fetch_group_order_of rq) = Inr b"
proof (cases item)
  case (DS_Object ob)
  with assms show thesis
    by (auto simp: send_object_def write_all_def rbind_Inr_iff split: sum.splits prod.splits intro!: that)
next
  case (DS_EndOfRange k l)
  with assms show thesis
    by (auto simp: send_end_of_range_def write_all_def Let_def split: sum.splits prod.splits intro!: that)
qed

lemma read_sent_fetch:
  assumes "send_items prev items sd = (Inr (), sd')" "sd_header_info sd = HI_Fetch h0 rq"
    and "collect_results (map fetch_entry_of items) = Inr es" "fetch_stream_ok (sd_fetch_prev_ctx sd) es"
    and "fetch_checks (fr_subgroup_priorities (rs_fetch_state st)) es"
    and "sd_written sd' = sd_written sd @ bs" "length bs < 2 ^ 64"
    and "rs_header_info st = Some (n, HI_Fetch h rq)" "rs_recv_bytes st = bs"
    and "fr_prev_ctx (rs_fetch_state st) = sd_fetch_prev_ctx sd"
  shows "\<exists>st'. read_objects st = (Inr (), st') \<and> rs_recv_bytes st' = []
    \<and> rs_items st' = rs_items st @ map fetched items \<and> rs_malformed_track st' = rs_malformed_track st
    \<and> rs_the_header_info st' = rs_the_header_info st"
  using assms
proof (induction items arbitrary: prev sd es st bs)
  case Nil
  then show ?case by (auto simp: read_objects_idle)
next
  case (Cons item items)
  from send_fetch_entry [OF Cons.prems(1,2)] obtain e b prev' sd1 where e: "fetch_entry_of item = Inr e"
    and run: "send_items prev' items sd1 = (Inr (), sd')"
    and sd1: "sd1 = sd\<lparr>sd_fetch_prev_ctx := Some (next_context e (sd_fetch_prev_ctx sd)), sd_written := sd_written sd @ b\<rparr>"
    and b: "fetch_object_serialize e (sd_fetch_prev_ctx sd) (fetch_group_order_of rq) = Inr b" .
  obtain bs2 where bs2: "sd_written sd' = sd_written sd1 @ bs2" using send_items_extends [OF run] by blast
  have bs: "bs = b @ bs2" using bs2 sd1 Cons.prems(6) by simp
  obtain es' where es: "es = e # es'" "collect_results (map fetch_entry_of items) = Inr es'"
    using Cons.prems(3) e by (auto simp: rbind_Inr_iff)
  have ok: "fetch_entry_ok (sd_fetch_prev_ctx sd) e" "fetch_stream_ok (sd_fetch_prev_ctx sd1) es'"
    using Cons.prems(4) by (simp_all add: es sd1)
  from fetch_entry_roundtrip [OF ok(1) b, of bs2] Cons.prems(7)
  have rt: "fetch_object_deserialize (sd_fetch_prev_ctx sd) (fetch_group_order_of rq) (b @ bs2) = (Inr (fetch_entry_normal e), bs2)"
    "next_context (fetch_entry_normal e) (sd_fetch_prev_ctx sd) = next_context e (sd_fetch_prev_ctx sd)"
    by (simp_all add: bs)
  have rd: "item_reader (HI_Fetch h rq) st (rs_recv_bytes st) = (Inr (Inl (fetch_entry_normal e)), bs2)"
    using rt(1) Cons.prems(9,10) by (simp add: item_reader_def bs)
  from fetch_item_sent [OF e Cons.prems(5)[unfolded es(1)]] obtain sp where
    fi: "fetch_item (rs_fetch_state st) (fetch_entry_normal e) =
      (Inr (fetched item), (rs_fetch_state st)\<lparr>fr_subgroup_priorities := sp\<rparr>, False)"
    and sp: "fetch_checks sp es'" .
  define st1 where "st1 = after_item n bs2 (HI_Fetch h rq) None (Some (next_context e (sd_fetch_prev_ctx sd)))
      (st\<lparr>rs_fetch_state := (rs_fetch_state st)\<lparr>fr_subgroup_priorities := sp\<rparr>, rs_items := rs_items st @ [fetched item]\<rparr>)"
  have step: "read_objects st = read_objects st1"
    using read_objects_accepted [OF Cons.prems(8) rd] Cons.prems(10)
    by (simp add: accept_item_def fi rt(2) st1_def)
  have "\<exists>st'. read_objects st1 = (Inr (), st') \<and> rs_recv_bytes st' = []
    \<and> rs_items st' = rs_items st1 @ map fetched items \<and> rs_malformed_track st' = rs_malformed_track st1
    \<and> rs_the_header_info st' = rs_the_header_info st1"
    by (rule Cons.IH [OF run _ es(2) ok(2) _ bs2])
      (use Cons.prems sp bs in \<open>simp_all add: sd1 st1_def after_item_def\<close>)
  then show ?case by (simp add: step) (simp add: st1_def after_item_def)
qed

text \<open>The header in front of them.\<close>

lemma header_step_written:
  assumes "header_bytes hi = Inr b"
    and "case hi of HI_Subgroup h \<Rightarrow> subgroup_header_wf h | HI_Fetch h rq \<Rightarrow> rq = pending (fh_request_id h)"
  shows "\<exists>n. header_step pending (more_bytes (b @ bs) (recv_state_new now)) =
    (Inr (), more_bytes bs ((recv_state_new now)\<lparr>rs_header_info := Some (n, hi), rs_the_header_info := Some hi\<rparr>))"
proof (cases hi)
  case (HI_Fetch h rq)
  then have b: "b = put_vi 5 @ put_vi (fh_request_id h)"
    using assms(1) by (simp add: header_bytes_def fetch_header_serialize_def FetchHeaderType_def)
  moreover have five: "put_vi 5 = [5]" by (simp add: put_vi_def minimal_vi_length_def be_bytes_def)
  moreover have "fetch_header_deserialize (b @ bs) = (Inr h, bs)"
    using fh.dec_enc [of h b bs] assms(1) HI_Fetch by (simp add: header_bytes_def)
  ultimately show ?thesis
    using HI_Fetch assms(2) by (simp add: header_step_def read_header_def recv_state_new_def FetchHeaderType_def more_bytes_def)
next
  case (HI_Subgroup h)
  then have d: "subgroup_header_deserialize (b @ bs) = (Inr h, bs)"
    using sgh.dec_enc [of h b bs] assms by (simp add: header_bytes_def)
  have ne: "b @ bs \<noteq> []"
  proof
    assume "b @ bs = []"
    with d show False by (simp add: subgroup_header_deserialize_def get_vi_def pbind_apply)
  qed
  moreover have "hd (b @ bs) \<noteq> FetchHeaderType"
  proof
    assume "hd (b @ bs) = FetchHeaderType"
    then obtain cs where "b @ bs = 5 # cs" using ne by (cases "b @ bs") (auto simp: FetchHeaderType_def)
    moreover have "get_vi (5 # cs) = (Inr 5, cs)" by (simp add: get_vi_def leading_ones_def)
    ultimately show False using d by (simp add: subgroup_header_deserialize_def sht_try_new_def)
  qed
  ultimately show ?thesis using d HI_Subgroup
    by (simp add: header_step_def read_header_def recv_state_new_def more_bytes_def)
qed

subsection \<open>Prefixes of a stream\<close>

lemma accept_item_items: "accept_item hi x st = (r, hi', st') \<Longrightarrow> \<exists>more. rs_items st' = rs_items st @ more"
  by (auto simp: accept_item_def Let_def try_from_subgroup_def split: header_info.splits sum.splits prod.splits if_splits)

lemma read_objects_items: "\<exists>more. rs_items (snd (read_objects st)) = rs_items st @ more"
proof (induction st rule: read_objects_rule)
  case (short st n hi e r)
  then show ?case
    using read_objects_not_enough [OF short(1,3)] read_objects_refused [OF short(1,3) _ short(2)]
    by (cases "not_enough e") simp_all
next
  case (fails st n hi x rest e hi' st')
  then show ?case using read_objects_accepted [OF fails(1,2)] accept_item_items [OF fails(3)] by simp
next
  case (step st n hi x rest oid ctx hi' st')
  then show ?case using read_objects_accepted [OF step(1,2)] accept_item_items [OF step(3)] by (auto simp: after_item_def)
qed (simp add: read_objects_idle)

lemma parse_step_items: "\<exists>more. rs_items (snd (parse_step pending st)) = rs_items st @ more"
proof -
  have "rs_items (snd (header_step pending st)) = rs_items st"
    by (auto simp: header_step_def split: sum.splits option.splits prod.splits)
  with read_objects_items [of "snd (header_step pending st)"] show ?thesis
    by (auto simp: parse_step_def split: sum.splits prod.splits)
qed

lemma finish_stream_items:
  "\<exists>more. rs_items (snd (finish_stream pending (more_bytes ds st))) = rs_items (snd (finish_stream pending st)) @ more"
proof (cases "parse_step pending st")
  case (Pair r st')
  note m = parse_step_more [where pending = pending and st = st and ds = ds]
  show ?thesis
  proof (cases r)
    case (Inl e)
    with Pair m show ?thesis by (simp add: finish_stream_def)
  next
    case (Inr u)
    with Pair m parse_step_items [of pending "more_bytes ds st'"] show ?thesis
      by (auto simp: finish_stream_def split: prod.splits sum.splits)
  qed
qed

text \<open>A run over data that comes in time is the state it leaves, as long as nothing was refused.\<close>

lemma read_task_prefix:
  assumes "in_time (rs_timeout_at st) evs" "\<not> rs_is_closed st"
    and "parse_step pending (more_bytes (data_of evs) st) = (Inr u, st')"
  shows "read_task pending st (evs @ rest) = read_task pending (marked (last_deadline (rs_timeout_at st) evs) False st') rest"
  using assms
proof (induction evs arbitrary: st st')
  case Nil
  have "marked (rs_timeout_at st) False st' = st'"
    using parse_step_marked [of pending "rs_timeout_at st" "rs_is_closed st" st] Nil
    by (simp add: data_of_def)
  moreover have "read_task pending st rest = read_task pending st' rest"
    using Nil parse_step_again [of pending st u st']
    by (simp add: data_of_def read_task.simps [of pending st] read_task.simps [of pending st'])
  ultimately show ?case by simp
next
  case (Cons e evs)
  obtain t bs where e: "e = (t, Data bs)" using Cons.prems(1) by (cases e; cases "snd e") auto
  obtain r st1 where p: "parse_step pending st = (r, st1)" by fastforce
  then obtain v where r: "r = Inr v"
    using parse_step_more [where pending = pending and st = st and ds = "data_of (e # evs)"] Cons.prems(3) by (cases r) auto
  have st1: "\<not> rs_is_closed st1" "rs_timeout_at st1 = rs_timeout_at st"
    using parse_step_marked [of pending "rs_timeout_at st" "rs_is_closed st" st] p r Cons.prems(2) by auto
  define st2 where "st2 = (if bs = [] then st1 else marked (t + DATA_STREAM_TIMEOUT) False (more_bytes bs st1))"
  have run: "read_task pending st ((e # evs) @ rest) = read_task pending st2 (evs @ rest)"
    using p r st1 Cons.prems(1) e
    by (simp add: read_task.simps [of pending st] st2_def data_state del: marked_simps)
  have "in_time (rs_timeout_at st2) evs" "\<not> rs_is_closed st2" using Cons.prems st1 e by (auto simp: st2_def)
  moreover have "parse_step pending (more_bytes (data_of evs) st2) =
      (Inr u, if bs = [] then st' else marked (t + DATA_STREAM_TIMEOUT) False st')"
    using parse_step_more [where pending = pending and st = st and ds = "bs @ data_of evs"] Cons.prems(3) p r
      parse_step_marked [of pending "t + DATA_STREAM_TIMEOUT" False "more_bytes (bs @ data_of evs) st1"]
    by (auto simp: st2_def e data_of_def)
  ultimately have "read_task pending st2 (evs @ rest) =
      read_task pending (marked (last_deadline (rs_timeout_at st2) evs) False (if bs = [] then st' else marked (t + DATA_STREAM_TIMEOUT) False st')) rest"
    by (rule Cons.IH)
  also have "\<dots> = read_task pending (marked (last_deadline (rs_timeout_at st) (e # evs)) False st') rest"
    by (simp add: st2_def e st1)
  finally show ?case by (simp only: run)
qed

subsection \<open>Properties\<close>

definition delivered :: "header_info \<Rightarrow> data_stream_item list \<Rightarrow> data_stream_item list" where
  "delivered hi items = (case hi of HI_Subgroup h \<Rightarrow> received_items h items | HI_Fetch _ _ \<Rightarrow> map fetched items)"

definition final_header :: "header_info \<Rightarrow> data_stream_item list \<Rightarrow> header_info" where
  "final_header hi items = (case hi of HI_Subgroup h \<Rightarrow> HI_Subgroup (last_header h items) | HI_Fetch h rq \<Rightarrow> hi)"

text \<open>What a sender has to respect: the header's fields agree with its type; a fetch stream answers
  the FETCH the receiver knows under its Request ID, and its Objects pass the checks of a track.\<close>

definition sendable_items :: "(u64 \<rightharpoonup> fetch_msg) \<Rightarrow> header_info \<Rightarrow> data_stream_item list \<Rightarrow> bool" where
  "sendable_items pending hi items = (case hi of
       HI_Subgroup h \<Rightarrow> subgroup_header_wf h \<and> (\<forall>i \<in> set items. item_properties_wf i)
     | HI_Fetch h rq \<Rightarrow> rq = pending (fh_request_id h)
         \<and> (case collect_results (map fetch_entry_of items) of
              Inr es \<Rightarrow> fetch_stream_ok None es \<and> fetch_checks sp_default es | Inl _ \<Rightarrow> False))"

lemma not_awaiting_last: "\<not> awaiting_subgroup_id (HI_Subgroup h) \<Longrightarrow> last_header h items = h"
  by (induction h items rule: last_header.induct) (simp_all add: resolve_header_def)

lemma finish_sent:
  assumes "send_data_stream_new (\<lambda>_. True) hi = Inr sd0" "send_items None items sd0 = (Inr (), sd)"
    and "length (sd_written sd) < 2 ^ 64" "sendable_items pending hi items"
  shows "outcome (finish_stream pending (more_bytes (sd_written sd) (recv_state_new now))) =
    (Some (Inr ()), delivered hi items, Some (final_header hi items), False, True)"
proof -
  obtain b where b: "header_bytes hi = Inr b"
    and sd0: "sd0 = \<lparr>sd_header_info = hi, sd_fetch_prev_ctx = None, sd_written = b\<rparr>"
    using assms(1) by (auto simp: send_data_stream_new_def write_all_def rbind_Inr_iff)
  obtain bs where bs: "sd_written sd = sd_written sd0 @ bs" using send_items_extends [OF assms(2)] by blast
  have "case hi of HI_Subgroup h \<Rightarrow> subgroup_header_wf h | HI_Fetch h rq \<Rightarrow> rq = pending (fh_request_id h)"
    using assms(4) by (simp add: sendable_items_def split: header_info.splits)
  from header_step_written [OF b this] obtain n where
    h: "header_step pending (more_bytes (b @ bs) (recv_state_new now)) =
      (Inr (), more_bytes bs ((recv_state_new now)\<lparr>rs_header_info := Some (n, hi), rs_the_header_info := Some hi\<rparr>))" by blast
  define st where "st = more_bytes bs ((recv_state_new now)\<lparr>rs_header_info := Some (n, hi), rs_the_header_info := Some hi\<rparr>)"
  have st: "rs_header_info st = Some (n, hi)" "rs_recv_bytes st = bs" "rs_previous_object_id st = None"
    "rs_fetch_state st = fr_default" "rs_items st = []" "rs_malformed_track st = False" "rs_the_header_info st = Some hi"
    by (simp_all add: st_def recv_state_new_def)
  have len: "length bs < 2 ^ 64" using assms(3) bs by simp
  have "\<exists>st'. read_objects st = (Inr (), st') \<and> rs_recv_bytes st' = [] \<and> rs_items st' = delivered hi items
      \<and> rs_malformed_track st' = False \<and> rs_the_header_info st' = Some (final_header hi items)"
  proof (cases hi)
    case (HI_Subgroup h)
    have "sd_header_info sd0 = HI_Subgroup h" "\<forall>i \<in> set items. item_properties_wf i"
      using assms(4) HI_Subgroup by (simp_all add: sd0 sendable_items_def)
    from read_sent_subgroup [OF assms(2) this(1) refl this(2) bs len, where st = st and n = n] st HI_Subgroup
      not_awaiting_last [of h items]
    show ?thesis by (auto simp: delivered_def final_header_def split: if_splits)
  next
    case (HI_Fetch h rq)
    then obtain es where es: "collect_results (map fetch_entry_of items) = Inr es" "fetch_stream_ok None es" "fetch_checks sp_default es"
      using assms(4) by (auto simp: sendable_items_def split: sum.splits)
    have "\<exists>st'. read_objects st = (Inr (), st') \<and> rs_recv_bytes st' = []
      \<and> rs_items st' = rs_items st @ map fetched items \<and> rs_malformed_track st' = rs_malformed_track st
      \<and> rs_the_header_info st' = rs_the_header_info st"
      by (rule read_sent_fetch [OF assms(2) _ es(1) _ _ bs len])
        (use st es HI_Fetch in \<open>simp_all add: sd0 fr_default_def\<close>)
    then show ?thesis using st HI_Fetch by (auto simp: delivered_def final_header_def)
  qed
  then obtain st' where "read_objects st = (Inr (), st')" "rs_recv_bytes st' = []" "rs_items st' = delivered hi items"
    "rs_malformed_track st' = False" "rs_the_header_info st' = Some (final_header hi items)" by blast
  moreover have "parse_step pending (more_bytes (sd_written sd) (recv_state_new now)) = read_objects st"
    using h bs by (simp add: parse_step_def sd0 st_def)
  ultimately show ?thesis by (simp add: finish_stream_def outcome_def)
qed

lemma recv_state_new_timeout: "recv_state_new now = marked (now + DATA_STREAM_TIMEOUT) False (recv_state_new 0)"
  by (simp add: recv_state_new_def marked_def)

lemma task_outcome:
  assumes "in_time (now + DATA_STREAM_TIMEOUT) evs" "tf < last_deadline (now + DATA_STREAM_TIMEOUT) evs"
  shows "outcome (read_task pending (recv_state_new now) (evs @ [(tf, Fin)])) =
    outcome (finish_stream pending (more_bytes (data_of evs) (recv_state_new 0)))"
proof -
  have "outcome (read_task pending (recv_state_new now) (evs @ [(tf, Fin)])) =
      outcome (finish_stream pending (more_bytes (data_of evs) (recv_state_new now)))"
    using assms by (intro read_task_chunks) (simp_all add: recv_state_new_def)
  also have "\<dots> = outcome (finish_stream pending (more_bytes (data_of evs) (recv_state_new 0)))"
    using finish_stream_marked [of pending "now + DATA_STREAM_TIMEOUT" False "more_bytes (data_of evs) (recv_state_new 0)"]
    by (subst recv_state_new_timeout) simp
  finally show ?thesis .
qed

text \<open>C10. How the transport cuts a data stream does not matter. Whatever the bytes are, two ways of
  delivering them in reads that each come within the timeout, followed by the end of the stream, give
  the same queue of Objects and markers, the same header, the same verdict on the track and the same
  result.\<close>

theorem data_stream_chunking:
  assumes "in_time (now + 15000) evs" "tf < last_deadline (now + 15000) evs"
    and "in_time (now' + 15000) evs'" "tf' < last_deadline (now' + 15000) evs'"
    and "data_of evs = data_of evs'"
  shows "outcome (read_task pending (recv_state_new now) (evs @ [(tf, Fin)])) =
    outcome (read_task pending (recv_state_new now') (evs' @ [(tf', Fin)]))"
  using task_outcome [OF assms(1,2)] task_outcome [OF assms(3,4)] assms(5) by simp

theorem data_stream_chunking_witness:
  "outcome (read_task Map.empty (recv_state_new 0) ([(1, Data [0x10]), (15000, Data [1, 2])] @ [(15001, Fin)])) =
   outcome (read_task Map.empty (recv_state_new 7) ([(8, Data [0x10, 1, 2])] @ [(9, Fin)]))"
  by (rule data_stream_chunking) (simp_all add: data_of_def)

text \<open>C9. What is sent arrives. When a sender has written a header and then Objects, and on a fetch
  stream End of Range markers, without an error, and the bytes it wrote arrive in time in any pieces
  before the end of the stream, the receiver ends without an error and queues exactly those Objects
  and markers in their order: on a subgroup stream with the coordinates and priority the header gives
  them, on a fetch stream with their own, properties in wire order and an empty payload as none.\<close>

theorem data_stream_delivers:
  assumes "send_data_stream_new (\<lambda>_. True) hi = Inr sd0" "send_items None items sd0 = (Inr (), sd)"
    and "length (sd_written sd) < 2 ^ 64" "sendable_items pending hi items"
    and "in_time (now + 15000) evs" "tf < last_deadline (now + 15000) evs" "data_of evs = sd_written sd"
  shows "outcome (read_task pending (recv_state_new now) (evs @ [(tf, Fin)])) =
    (Some (Inr ()), delivered hi items, Some (final_header hi items), False, True)"
  using task_outcome [OF assms(5,6)] finish_sent [OF assms(1-4)] assms(7) by simp

abbreviation (input) sample_object :: moq_object where
  "sample_object \<equiv> \<lparr>ob_track_alias = 1, ob_location = Location 2 9, ob_publisher_priority = 128,
     ob_forwarding_preference = FP_Subgroup, ob_subgroup_id = Some 9, ob_status = OS_Normal, ob_properties = None,
     ob_payload = Some [7, 8]\<rparr>"

theorem data_stream_delivers_witness:
  "\<exists>sd0 sd. send_data_stream_new (\<lambda>_. True) (HI_Subgroup (new_first_object_id 1 2 None False False True)) = Inr sd0
     \<and> send_items None [DS_Object sample_object] sd0 = (Inr (), sd)
     \<and> outcome (read_task Map.empty (recv_state_new 0) ([(1, Data (sd_written sd))] @ [(2, Fin)])) =
         (Some (Inr ()), [DS_Object sample_object],
          Some (HI_Subgroup ((new_first_object_id 1 2 None False False True)\<lparr>sh_subgroup_id := Some 9\<rparr>)), False, True)"
proof -
  let ?h = "new_first_object_id 1 2 None False False True"
  have flags: "\<not> has_explicit_subgroup_id (sh_header_type ?h)" "sht_has_default_priority (sh_header_type ?h)"
    "\<not> sht_has_properties (sh_header_type ?h)" "subgroup_id_is_first_object_id (sh_header_type ?h)"
    by (simp_all add: new_first_object_id_def has_explicit_subgroup_id_def subgroup_id_is_first_object_id_def)
  have bound: "length (put_vi v) \<le> 9" for v using minimal_vi_length_range [of v] by (simp add: length_put_vi)
  define b where "b = put_vi (sht_to_wire (sh_header_type ?h)) @ put_vi 1 @ put_vi 2"
  define sd0 where "sd0 = \<lparr>sd_header_info = HI_Subgroup ?h, sd_fetch_prev_ctx = None, sd_written = b\<rparr>"
  define sd where "sd = sd0\<lparr>sd_written := b @ put_vi 9 @ put_vi 2 @ [7, 8]\<rparr>"
  have new: "send_data_stream_new (\<lambda>_. True) (HI_Subgroup ?h) = Inr sd0"
    using flags by (simp add: send_data_stream_new_def header_bytes_def subgroup_header_serialize_def write_all_def sd0_def b_def)
      (simp add: new_first_object_id_def)
  have run: "send_items None [DS_Object sample_object] sd0 = (Inr (), sd)"
    using flags by (simp add: send_object_def write_all_def try_into_subgroup_def subgroup_object_serialize_def sd_def sd0_def)
  have len: "length (sd_written sd) < 2 ^ 64"
    using bound [of "sht_to_wire (sh_header_type ?h)"] bound [of 1] bound [of 2] bound [of 9] by (simp add: sd_def b_def)
  have ok: "sendable_items Map.empty (HI_Subgroup ?h) [DS_Object sample_object]"
    using subgroup_header_wf_new(2) by (simp add: sendable_items_def)
  have h: "sh_track_alias ?h = 1" "sh_group_id ?h = 2" "sh_subgroup_id ?h = None" "sh_publisher_priority ?h = None"
    by (simp_all add: new_first_object_id_def)
  from data_stream_delivers [OF new run len ok, of 0 "[(1, Data (sd_written sd))]" 2] new run flags h show ?thesis
    by (auto simp: data_of_def delivered_def final_header_def resolve_header_def awaiting_subgroup_id_def received_def Let_def)
qed



end
