(* ===== verification/Sharded_Map.thy ===== *)
theory Sharded_Map
  imports Varint
begin

text \<open>
  Hash maps split into partitions, each behind a lock of its own, as the relay keeps its senders and
  its send streams: a list of maps and a function that gives every key its partition. The locale
  \<open>sharded\<close> states what the clients rely on; inside it the partitions together behave as one map.
\<close>

type_synonym ('k, 'v) sharded_map = "('k \<rightharpoonup> 'v) list"

definition shard_new :: "nat \<Rightarrow> ('k, 'v) sharded_map" where
  "shard_new n = replicate n Map.empty"

definition shard_get :: "('k \<Rightarrow> nat) \<Rightarrow> ('k, 'v) sharded_map \<Rightarrow> 'k \<Rightarrow> 'v option" where
  "shard_get part m k = (m ! part k) k"

definition shard_insert :: "('k \<Rightarrow> nat) \<Rightarrow> 'k \<Rightarrow> 'v \<Rightarrow> ('k, 'v) sharded_map \<Rightarrow> ('k, 'v) sharded_map" where
  "shard_insert part k v m = m[part k := (m ! part k)(k \<mapsto> v)]"

definition shard_remove :: "('k \<Rightarrow> nat) \<Rightarrow> 'k \<Rightarrow> ('k, 'v) sharded_map \<Rightarrow> ('k, 'v) sharded_map" where
  "shard_remove part k m = m[part k := (m ! part k)(k := None)]"

definition shard_clear :: "('k, 'v) sharded_map \<Rightarrow> ('k, 'v) sharded_map" where
  "shard_clear m = map (\<lambda>_. Map.empty) m"

text \<open>Every partition there is, and each key only in its own.\<close>

definition shard_wf :: "nat \<Rightarrow> ('k \<Rightarrow> nat) \<Rightarrow> ('k, 'v) sharded_map \<Rightarrow> bool" where
  "shard_wf n part m \<longleftrightarrow> length m = n \<and> (\<forall>i < n. \<forall>k \<in> dom (m ! i). part k = i)"

text \<open>\<open>to_le_bytes\<close>: the bytes of a word, least significant first.\<close>

definition to_le_bytes :: "u64 \<Rightarrow> bytes" where
  "to_le_bytes v = rev (be_bytes 8 v)"

locale sharded =
  fixes n :: nat and part :: "'k \<Rightarrow> nat"
  assumes part_bound: "part k < n"
begin

lemma shard_new_wf [intro]: "shard_wf n part (shard_new n)"
  by (simp add: shard_wf_def shard_new_def)

lemma shard_update_wf:
  assumes "shard_wf n part m" "dom f \<subseteq> insert k (dom (m ! part k))"
  shows "shard_wf n part (m[part k := f])"
  unfolding shard_wf_def
proof (intro conjI allI impI ballI)
  fix i k'
  assume i: "i < n" and k': "k' \<in> dom (m[part k := f] ! i)"
  show "part k' = i"
  proof (cases "i = part k")
    case True
    with k' part_bound [of k] assms show ?thesis by (auto simp: shard_wf_def)
  next
    case False
    with i k' assms(1) show ?thesis by (simp add: shard_wf_def)
  qed
qed (use assms(1) in \<open>simp add: shard_wf_def\<close>)

lemma shard_insert_wf [intro]: "shard_wf n part m \<Longrightarrow> shard_wf n part (shard_insert part k v m)"
  unfolding shard_insert_def by (rule shard_update_wf) auto

lemma shard_remove_wf [intro]: "shard_wf n part m \<Longrightarrow> shard_wf n part (shard_remove part k m)"
  unfolding shard_remove_def by (rule shard_update_wf) auto

lemma shard_clear_wf [intro]: "shard_wf n part m \<Longrightarrow> shard_wf n part (shard_clear m)"
  by (auto simp: shard_wf_def shard_clear_def)

lemma shard_get_new: "shard_get part (shard_new n) = Map.empty"
  using part_bound by (auto simp: shard_get_def shard_new_def fun_eq_iff)

lemma shard_get_insert: "shard_wf n part m \<Longrightarrow> shard_get part (shard_insert part k v m) = (shard_get part m)(k \<mapsto> v)"
  using part_bound by (auto simp: shard_get_def shard_insert_def shard_wf_def fun_eq_iff nth_list_update)

lemma shard_get_remove: "shard_wf n part m \<Longrightarrow> shard_get part (shard_remove part k m) = (shard_get part m)(k := None)"
  using part_bound by (auto simp: shard_get_def shard_remove_def shard_wf_def fun_eq_iff nth_list_update)

lemma shard_get_clear: "shard_wf n part m \<Longrightarrow> shard_get part (shard_clear m) = Map.empty"
  using part_bound by (auto simp: shard_get_def shard_clear_def shard_wf_def fun_eq_iff)

text \<open>Going through all partitions meets every entry of the map, and each of them once.\<close>

lemma shard_entries:
  assumes "shard_wf n part m"
  shows "(\<exists>i < n. (m ! i) k = Some v) \<longleftrightarrow> shard_get part m k = Some v"
  using assms part_bound [of k] unfolding shard_wf_def shard_get_def by (metis domI)

lemma shard_entry_once:
  assumes "shard_wf n part m" "i < n" "j < n" "k \<in> dom (m ! i)" "k \<in> dom (m ! j)"
  shows "i = j"
  using assms unfolding shard_wf_def by metis

lemmas shard_laws = shard_get_new shard_get_insert shard_get_remove shard_get_clear

end

end
