(* ===== verification/Subscription_Manager.thy ===== *)
theory Subscription_Manager
  imports Sharded_Map Btree_Map Control_Messages "HOL-Library.Product_Lexorder"
begin

text \<open>
  The subscriptions of a track (\<open>apps/relay/src/server/subscription_manager.rs\<close>): the subscriptions by
  connection and Request ID, the Request IDs of each connection, and the senders of their event
  channels in sixteen partitions. The theory shows that the three tables agree after any history and
  that every subscription hears exactly the events sent while it is there, once each and in order.
  A channel is kept as what was sent into it and whether its receiver still exists; the hash of the
  \<open>fnv\<close> crate that picks the partition is a parameter.
\<close>

type_synonym subscription_id = "u64 \<times> u64"

datatype subscription_origin = OriginSubscribe subscribe_msg | OriginPublish publish_msg

fun origin_request_id :: "subscription_origin \<Rightarrow> u64" where
  "origin_request_id (OriginSubscribe s) = sub_request_id s"
| "origin_request_id (OriginPublish p) = pub_request_id p"

record subscription =
  sn_relay_track_id :: u64
  sn_track_alias :: u64
  sn_full_track_name :: full_track_name
  sn_origin :: subscription_origin
  sn_connection_id :: u64
  sn_event_rx :: nat

datatype track_alias_mode = PerTrack | PerSubscription

text \<open>\<open>pick_track_alias\<close> of \<open>client.rs\<close>: the alias and the counter after it.\<close>

fun pick_track_alias :: "track_alias_mode \<Rightarrow> u64 \<Rightarrow> u64 \<Rightarrow> u64 \<times> u64" where
  "pick_track_alias PerTrack relay_track_id next_alias = (relay_track_id, next_alias)"
| "pick_track_alias PerSubscription relay_track_id next_alias = (next_alias, next_alias + 1)"

record 'e channel =
  ch_sent :: "'e list"
  ch_open :: bool

record 'e subscription_manager =
  mg_relay_track_id :: u64
  mg_full_track_name :: full_track_name
  mg_subscriptions :: "(subscription_id, subscription) btree_map"
  mg_request_ids :: "(u64, u64 set) btree_map"
  mg_senders :: "(subscription_id, nat) sharded_map"
  mg_channels :: "'e channel list"

abbreviation (input) SUBSCRIBER_PARTITION_COUNT :: nat where
  "SUBSCRIBER_PARTITION_COUNT \<equiv> 16"

definition manager_new :: "u64 \<Rightarrow> full_track_name \<Rightarrow> 'e subscription_manager" where
  "manager_new relay_track_id full_track_name =
     \<lparr>mg_relay_track_id = relay_track_id, mg_full_track_name = full_track_name, mg_subscriptions = [],
      mg_request_ids = [], mg_senders = shard_new SUBSCRIBER_PARTITION_COUNT, mg_channels = []\<rparr>"

definition partition_index :: "(bytes \<Rightarrow> u64) \<Rightarrow> subscription_id \<Rightarrow> nat" where
  "partition_index fnv_hash sid =
     unat (fnv_hash (to_le_bytes (fst sid) @ to_le_bytes (snd sid))) mod SUBSCRIBER_PARTITION_COUNT"

definition get_subscriber_sender :: "(bytes \<Rightarrow> u64) \<Rightarrow> 'e subscription_manager \<Rightarrow> subscription_id \<Rightarrow> nat option" where
  "get_subscriber_sender fnv_hash m sid = shard_get (partition_index fnv_hash) (mg_senders m) sid"

definition get_all_subscriptions :: "'e subscription_manager \<Rightarrow> subscription list" where
  "get_all_subscriptions m = map snd (mg_subscriptions m)"

text \<open>The result, the client's alias counter, and the manager.\<close>

definition add_subscription ::
  "(bytes \<Rightarrow> u64) \<Rightarrow> track_alias_mode \<Rightarrow> u64 \<Rightarrow> subscription_origin \<Rightarrow> u64 \<Rightarrow> 'e subscription_manager \<Rightarrow>
   subscription option \<times> u64 \<times> 'e subscription_manager" where
  "add_subscription fnv_hash mode connection_id origin_message next_alias m =
     (let rx = length (mg_channels m);
          (track_alias, next_alias') = (case origin_message of
             OriginPublish p \<Rightarrow> (pub_track_alias p, next_alias)
           | OriginSubscribe _ \<Rightarrow> pick_track_alias mode (mg_relay_track_id m) next_alias);
          subscription = \<lparr>sn_relay_track_id = mg_relay_track_id m, sn_track_alias = track_alias,
             sn_full_track_name = mg_full_track_name m, sn_origin = origin_message,
             sn_connection_id = connection_id, sn_event_rx = rx\<rparr>;
          sid = (connection_id, origin_request_id origin_message)
      in case map_of (mg_subscriptions m) sid of
           Some _ \<Rightarrow> (None, next_alias', m)
         | None \<Rightarrow> (Some subscription, next_alias',
             m\<lparr>mg_subscriptions := bt_insert sid subscription (mg_subscriptions m),
               mg_request_ids := bt_insert connection_id
                 (insert (snd sid) (case map_of (mg_request_ids m) connection_id of Some s \<Rightarrow> s | None \<Rightarrow> {}))
                 (mg_request_ids m),
               mg_senders := shard_insert (partition_index fnv_hash) sid rx (mg_senders m),
               mg_channels := mg_channels m @ [\<lparr>ch_sent = [], ch_open = True\<rparr>]\<rparr>))"

definition has_any_subscription :: "'e subscription_manager \<Rightarrow> u64 \<Rightarrow> bool" where
  "has_any_subscription m subscriber_id =
     (case map_of (mg_request_ids m) subscriber_id of Some s \<Rightarrow> s \<noteq> {} | None \<Rightarrow> False)"

definition subscription_exists :: "'e subscription_manager \<Rightarrow> subscription_id \<Rightarrow> bool" where
  "subscription_exists m sid =
     (case map_of (mg_request_ids m) (fst sid) of Some s \<Rightarrow> snd sid \<in> s | None \<Rightarrow> False)"

definition get_subscription :: "'e subscription_manager \<Rightarrow> subscription_id \<Rightarrow> subscription option" where
  "get_subscription m sid = map_of (mg_subscriptions m) sid"

text \<open>The subscription that is cancelled, and the manager.\<close>

definition remove_subscription ::
  "(bytes \<Rightarrow> u64) \<Rightarrow> subscription_id \<Rightarrow> 'e subscription_manager \<Rightarrow> subscription option \<times> 'e subscription_manager" where
  "remove_subscription fnv_hash sid m =
     (map_of (mg_subscriptions m) sid,
      m\<lparr>mg_subscriptions := bt_remove sid (mg_subscriptions m),
        mg_request_ids := (case map_of (mg_request_ids m) (fst sid) of
            None \<Rightarrow> mg_request_ids m
          | Some s \<Rightarrow> (if s - {snd sid} = {} then bt_remove (fst sid) (mg_request_ids m)
                       else bt_insert (fst sid) (s - {snd sid}) (mg_request_ids m))),
        mg_senders := shard_remove (partition_index fnv_hash) sid (mg_senders m)\<rparr>)"

text \<open>The subscriptions let go, whose entries in the tables of their clients are removed.\<close>

definition detach_all :: "'e subscription_manager \<Rightarrow> (subscription_id, subscription) btree_map \<times> 'e subscription_manager" where
  "detach_all m = (mg_subscriptions m,
     m\<lparr>mg_subscriptions := [], mg_request_ids := [], mg_senders := shard_clear (mg_senders m)\<rparr>)"

text \<open>\<open>order\<close> is the order in which the hash set of Request IDs is iterated.\<close>

definition remove_subscriptions :: "(bytes \<Rightarrow> u64) \<Rightarrow> u64 list \<Rightarrow> u64 \<Rightarrow> 'e subscription_manager \<Rightarrow> 'e subscription_manager" where
  "remove_subscriptions fnv_hash order subscriber_id m =
     fold (\<lambda>request_id m. snd (remove_subscription fnv_hash (subscriber_id, request_id) m)) order m"

definition subscriber_count :: "'e subscription_manager \<Rightarrow> nat" where
  "subscriber_count m = length (mg_subscriptions m)"

text \<open>\<open>order i\<close> is the order in which partition \<open>i\<close> is iterated.\<close>

definition send_one ::
  "'e \<Rightarrow> (subscription_id \<rightharpoonup> nat) \<Rightarrow> subscription_id \<Rightarrow> subscription_id list \<times> 'e channel list \<Rightarrow>
   subscription_id list \<times> 'e channel list" where
  "send_one event senders sid st = (case senders sid of
       None \<Rightarrow> st
     | Some c \<Rightarrow> (if ch_open (snd st ! c)
                  then (fst st, (snd st)[c := (snd st ! c)\<lparr>ch_sent := ch_sent (snd st ! c) @ [event]\<rparr>])
                  else (fst st @ [sid], snd st)))"

definition send_event_to_subscribers ::
  "(nat \<Rightarrow> subscription_id list) \<Rightarrow> 'e \<Rightarrow> 'e subscription_manager \<Rightarrow> subscription_id list \<times> 'e subscription_manager" where
  "send_event_to_subscribers order event m =
     (let (failed, channels) =
        fold (\<lambda>i. fold (send_one event (mg_senders m ! i)) (order i)) [0..<length (mg_senders m)] ([], mg_channels m)
      in (failed, m\<lparr>mg_channels := channels\<rparr>))"

subsection \<open>The tables agree\<close>

interpretation subscriber_shards: sharded 16 "partition_index fnv_hash"
  by unfold_locales (simp add: partition_index_def)

definition mg_inv :: "(bytes \<Rightarrow> u64) \<Rightarrow> 'e subscription_manager \<Rightarrow> bool" where
  "mg_inv fnv_hash m \<longleftrightarrow>
     bt_sorted (mg_subscriptions m) \<and> bt_sorted (mg_request_ids m)
     \<and> (\<forall>c. map_of (mg_request_ids m) c =
             (let s = {r. map_of (mg_subscriptions m) (c, r) \<noteq> None} in if s = {} then None else Some s))
     \<and> shard_wf 16 (partition_index fnv_hash) (mg_senders m)
     \<and> shard_get (partition_index fnv_hash) (mg_senders m) = map_option sn_event_rx \<circ> map_of (mg_subscriptions m)
     \<and> (\<forall>sid s. map_of (mg_subscriptions m) sid = Some s \<longrightarrow> sn_event_rx s < length (mg_channels m))
     \<and> (\<forall>sid sid' s s'. map_of (mg_subscriptions m) sid = Some s \<and> map_of (mg_subscriptions m) sid' = Some s'
          \<and> sn_event_rx s = sn_event_rx s' \<longrightarrow> sid = sid')"

lemma mg_invD:
  assumes "mg_inv h m"
  shows "bt_sorted (mg_subscriptions m)" "bt_sorted (mg_request_ids m)"
    "map_of (mg_request_ids m) c =
       (let s = {r. map_of (mg_subscriptions m) (c, r) \<noteq> None} in if s = {} then None else Some s)"
    "shard_wf 16 (partition_index h) (mg_senders m)"
    "shard_get (partition_index h) (mg_senders m) = map_option sn_event_rx \<circ> map_of (mg_subscriptions m)"
    "map_of (mg_subscriptions m) sid = Some s \<Longrightarrow> sn_event_rx s < length (mg_channels m)"
    "map_of (mg_subscriptions m) sid = Some s \<Longrightarrow> map_of (mg_subscriptions m) sid' = Some s' \<Longrightarrow>
       sn_event_rx s = sn_event_rx s' \<Longrightarrow> sid = sid'"
  using assms unfolding mg_inv_def by blast+

text \<open>What each subscription has heard, and whether its receiver still exists.\<close>

definition heard :: "'e subscription_manager \<Rightarrow> subscription_id \<rightharpoonup> 'e list \<times> bool" where
  "heard m sid = map_option (\<lambda>s. let ch = mg_channels m ! sn_event_rx s in (ch_sent ch, ch_open ch))
     (map_of (mg_subscriptions m) sid)"

lemma dom_heard: "dom (heard m) = dom (map_of (mg_subscriptions m))"
  by (auto simp: heard_def dom_def)

lemma manager_new_inv: "mg_inv h (manager_new t n)" "heard (manager_new t n) = Map.empty"
  by (auto simp: mg_inv_def manager_new_def heard_def Let_def subscriber_shards.shard_get_new fun_eq_iff)

lemma request_ids_of_insert:
  "{r. (f((c, r') \<mapsto> v)) (c, r) \<noteq> None} = insert r' {r. f (c, r) \<noteq> None}"
  "c \<noteq> c' \<Longrightarrow> {r. (f((c', r') := x)) (c, r) \<noteq> None} = {r. f (c, r) \<noteq> None}"
  "{r. (f((c, r') := None)) (c, r) \<noteq> None} = {r. f (c, r) \<noteq> None} - {r'}"
  by auto

definition mg_with :: "(bytes \<Rightarrow> u64) \<Rightarrow> subscription_id \<Rightarrow> subscription \<Rightarrow> 'e subscription_manager \<Rightarrow> 'e subscription_manager" where
  "mg_with h sid s m =
     m\<lparr>mg_subscriptions := bt_insert sid s (mg_subscriptions m),
       mg_request_ids := bt_insert (fst sid)
         (insert (snd sid) (case map_of (mg_request_ids m) (fst sid) of Some s \<Rightarrow> s | None \<Rightarrow> {})) (mg_request_ids m),
       mg_senders := shard_insert (partition_index h) sid (length (mg_channels m)) (mg_senders m),
       mg_channels := mg_channels m @ [\<lparr>ch_sent = [], ch_open = True\<rparr>]\<rparr>"

lemma add_subscription_cases:
  assumes "add_subscription h mode c ori a m = (r, a', m')"
  obtains (known) s where "map_of (mg_subscriptions m) (c, origin_request_id ori) = Some s" "m' = m" "r = None"
  | (fresh) s where "map_of (mg_subscriptions m) (c, origin_request_id ori) = None" "r = Some s"
      "sn_event_rx s = length (mg_channels m)" "m' = mg_with h (c, origin_request_id ori) s m"
proof (cases "map_of (mg_subscriptions m) (c, origin_request_id ori)")
  case (Some s)
  with assms known show thesis by (auto simp: add_subscription_def Let_def split: prod.splits)
next
  case None
  obtain x y where "(case ori of OriginPublish p \<Rightarrow> (pub_track_alias p, a)
    | OriginSubscribe _ \<Rightarrow> pick_track_alias mode (mg_relay_track_id m) a) = (x, y)" by force
  with assms None have "r = Some \<lparr>sn_relay_track_id = mg_relay_track_id m, sn_track_alias = x,
      sn_full_track_name = mg_full_track_name m, sn_origin = ori, sn_connection_id = c,
      sn_event_rx = length (mg_channels m)\<rparr> \<and> m' = mg_with h (c, origin_request_id ori) (the r) m"
    by (auto simp: add_subscription_def Let_def mg_with_def)
  with None fresh show thesis by fastforce
qed

lemma mg_with_inv:
  assumes inv: "mg_inv h m" and s: "map_of (mg_subscriptions m) sid = None" "sn_event_rx s = length (mg_channels m)"
  shows "mg_inv h (mg_with h sid s m)" and "heard (mg_with h sid s m) = (heard m)(sid \<mapsto> ([], True))"
proof -
  note I = mg_invD [OF inv]
  have reqs: "map_of (mg_request_ids (mg_with h sid s m)) c =
      (let s = {r. map_of (mg_subscriptions (mg_with h sid s m)) (c, r) \<noteq> None} in if s = {} then None else Some s)" for c
    by (cases sid) (auto simp: mg_with_def I(3) Let_def)
  have rx: "sn_event_rx t < length (mg_channels m)" if "map_of (mg_subscriptions m) sid' = Some t" for sid' t
    using that by (rule I(6))
  show "mg_inv h (mg_with h sid s m)"
    unfolding mg_inv_def
  proof (intro conjI allI impI)
    show "map_of (mg_request_ids (mg_with h sid s m)) c =
      (let s = {r. map_of (mg_subscriptions (mg_with h sid s m)) (c, r) \<noteq> None} in if s = {} then None else Some s)" for c
      by (rule reqs)
    show "shard_get (partition_index h) (mg_senders (mg_with h sid s m)) =
        map_option sn_event_rx \<circ> map_of (mg_subscriptions (mg_with h sid s m))"
      using I(4,5) s(2) by (auto simp: mg_with_def subscriber_shards.shard_laws fun_eq_iff)
    show "sn_event_rx t < length (mg_channels (mg_with h sid s m))"
      if "map_of (mg_subscriptions (mg_with h sid s m)) sid' = Some t" for sid' t
      using that s(2) by (auto simp: mg_with_def split: if_splits dest: rx)
    show "sid' = sid''" if "map_of (mg_subscriptions (mg_with h sid s m)) sid' = Some t
        \<and> map_of (mg_subscriptions (mg_with h sid s m)) sid'' = Some u \<and> sn_event_rx t = sn_event_rx u" for sid' sid'' t u
      using that s(2) rx [of sid' t] rx [of sid'' u] I(7) [of sid' t sid'' u] by (auto simp: mg_with_def split: if_splits)
  qed (use I(1,2,4) in \<open>auto simp: mg_with_def\<close>)
  show "heard (mg_with h sid s m) = (heard m)(sid \<mapsto> ([], True))"
    using s by (auto simp: heard_def mg_with_def fun_eq_iff nth_append Let_def dest: rx intro!: option.map_cong)
qed

lemma add_subscription_inv:
  assumes inv: "mg_inv h m" and add: "add_subscription h mode c ori a m = (r, a', m')"
  shows "mg_inv h m'"
    and "heard m' = (if heard m (c, origin_request_id ori) = None
                     then (heard m)((c, origin_request_id ori) \<mapsto> ([], True)) else heard m)"
proof -
  have "mg_inv h m' \<and> heard m' = (if heard m (c, origin_request_id ori) = None
                     then (heard m)((c, origin_request_id ori) \<mapsto> ([], True)) else heard m)"
    using add
  proof (cases rule: add_subscription_cases)
    case (fresh s)
    with mg_with_inv [OF inv] show ?thesis by (auto simp: heard_def)
  qed (use inv in \<open>auto simp: heard_def\<close>)
  then show "mg_inv h m'" and "heard m' = (if heard m (c, origin_request_id ori) = None
                     then (heard m)((c, origin_request_id ori) \<mapsto> ([], True)) else heard m)" by blast+
qed

lemma remove_subscription_inv:
  assumes inv: "mg_inv h m"
  shows "mg_inv h (snd (remove_subscription h sid m))"
    and "heard (snd (remove_subscription h sid m)) = (heard m)(sid := None)"
proof -
  note I = mg_invD [OF inv]
  let ?m = "snd (remove_subscription h sid m)"
  show "mg_inv h ?m"
    unfolding mg_inv_def
  proof (intro conjI allI impI)
    show "map_of (mg_request_ids ?m) c =
      (let s = {r. map_of (mg_subscriptions ?m) (c, r) \<noteq> None} in if s = {} then None else Some s)" for c
      by (cases sid) (auto simp: remove_subscription_def I(3) Let_def)
    show "shard_get (partition_index h) (mg_senders ?m) = map_option sn_event_rx \<circ> map_of (mg_subscriptions ?m)"
      using I(4,5) by (auto simp: remove_subscription_def subscriber_shards.shard_laws fun_eq_iff)
    show "sid' = sid''" if "map_of (mg_subscriptions ?m) sid' = Some t
        \<and> map_of (mg_subscriptions ?m) sid'' = Some u \<and> sn_event_rx t = sn_event_rx u" for sid' sid'' t u
      using that I(7) [of sid' t sid'' u] by (auto simp: remove_subscription_def split: if_splits)
  qed (use I(1,2,4) I(6) in \<open>auto simp: remove_subscription_def split: if_splits option.splits\<close>)
  show "heard ?m = (heard m)(sid := None)"
    by (auto simp: heard_def remove_subscription_def fun_eq_iff)
qed

lemma remove_subscriptions_inv:
  assumes "mg_inv h m"
  shows "mg_inv h (remove_subscriptions h order c m)
    \<and> heard (remove_subscriptions h order c m) = (\<lambda>sid. if fst sid = c \<and> snd sid \<in> set order then None else heard m sid)"
  using assms
proof (induction order arbitrary: m)
  case (Cons r rs)
  from Cons.IH [OF remove_subscription_inv(1) [OF Cons.prems, of "(c, r)"]] Cons.prems
  show ?case by (auto simp: remove_subscriptions_def remove_subscription_inv(2) fun_eq_iff)
qed (simp add: remove_subscriptions_def)

lemma detach_all_inv:
  assumes "mg_inv h m"
  shows "mg_inv h (snd (detach_all m))" and "heard (snd (detach_all m)) = Map.empty"
  using mg_invD [OF assms]
  by (auto simp: mg_inv_def detach_all_def heard_def Let_def subscriber_shards.shard_laws subscriber_shards.shard_clear_wf fun_eq_iff)

subsection \<open>Sending an event\<close>

text \<open>What \<open>HashMap::iter\<close> promises: every entry of a partition, once.\<close>

definition iterates :: "(nat \<Rightarrow> subscription_id list) \<Rightarrow> 'e subscription_manager \<Rightarrow> bool" where
  "iterates order m \<longleftrightarrow> (\<forall>i < length (mg_senders m). distinct (order i) \<and> set (order i) = dom (mg_senders m ! i))"

definition hear :: "'e \<Rightarrow> 'e channel \<Rightarrow> 'e channel" where
  "hear event ch = (if ch_open ch then ch\<lparr>ch_sent := ch_sent ch @ [event]\<rparr> else ch)"

lemma hear_simps [simp]: "ch_open (hear e ch) = ch_open ch" "ch_sent (hear e ch) = (if ch_open ch then ch_sent ch @ [e] else ch_sent ch)"
  by (simp_all add: hear_def)

lemma send_one_hear:
  assumes "g sid = Some c" "c < length chans"
  shows "send_one e g sid (failed, chans) =
    (if ch_open (chans ! c) then failed else failed @ [sid], chans[c := hear e (chans ! c)])"
  using assms by (simp add: send_one_def hear_def)

lemma fold_send_one:
  assumes "distinct xs" "inj_on g (set xs)" "\<forall>sid \<in> set xs. \<exists>c < length chans. g sid = Some c"
  shows "fold (send_one e g) xs (failed, chans) =
    (failed @ filter (\<lambda>sid. \<not> ch_open (chans ! the (g sid))) xs,
     map (\<lambda>c. if c \<in> (the \<circ> g) ` set xs then hear e (chans ! c) else chans ! c) [0..<length chans])"
  using assms
proof (induction xs arbitrary: failed chans)
  case Nil
  then show ?case by (simp add: map_nth)
next
  case (Cons sid xs)
  then obtain c where c: "g sid = Some c" "c < length chans" by auto
  have other: "the (g x) \<noteq> c" if "x \<in> set xs" for x
  proof -
    from Cons.prems(3) that obtain d where "g x = Some d" by auto
    with Cons.prems(1,2) that c show ?thesis by (auto simp: inj_on_def)
  qed
  have "filter (\<lambda>sid. \<not> ch_open (chans[c := hear e (chans ! c)] ! the (g sid))) xs =
      filter (\<lambda>sid. \<not> ch_open (chans ! the (g sid))) xs"
    using c by (auto intro!: filter_cong simp: nth_list_update)
  moreover have "map (\<lambda>d. if d \<in> (the \<circ> g) ` set xs then hear e (chans[c := hear e (chans ! c)] ! d)
        else chans[c := hear e (chans ! c)] ! d) [0..<length chans] =
      map (\<lambda>d. if d \<in> (the \<circ> g) ` set (sid # xs) then hear e (chans ! d) else chans ! d) [0..<length chans]"
    using c other by (auto intro!: map_cong simp: nth_list_update)
  ultimately show ?case
    using Cons.IH [of "chans[c := hear e (chans ! c)]"] Cons.prems c
    by (simp add: send_one_hear)
qed

lemma fold_concat: "fold (\<lambda>i. fold f (order i)) is st = fold f (concat (map order is)) st"
  by (induction "is" arbitrary: st) simp_all

lemma send_event_flat:
  assumes inv: "mg_inv h m" and it: "iterates order m"
  defines "xs \<equiv> concat (map order [0..<length (mg_senders m)])"
    and "g \<equiv> shard_get (partition_index h) (mg_senders m)"
  shows "distinct xs" "set xs = dom (map_of (mg_subscriptions m))"
    "fold (\<lambda>i. fold (send_one e (mg_senders m ! i)) (order i)) [0..<length (mg_senders m)] st = fold (send_one e g) xs st"
proof -
  note I = mg_invD [OF inv]
  have len: "length (mg_senders m) = 16" using I(4) by (simp add: shard_wf_def)
  have ord: "distinct (order i)" "set (order i) = dom (mg_senders m ! i)" if "i < 16" for i
    using it that len by (auto simp: iterates_def)
  have "set (order i) \<inter> set (order j) = {}" if "i < 16" "j < 16" "i \<noteq> j" for i j
    using subscriber_shards.shard_entry_once [OF I(4) that(1,2)] that ord(2) by blast
  then have "distinct (concat (map order is))" if "distinct is" "set is \<subseteq> {..<16}" for "is"
    using that ord(1) by (induction "is") (auto simp: subset_iff)
  then show "distinct xs" using len by (simp add: xs_def subset_iff)
  have "sid \<in> set xs \<longleftrightarrow> (\<exists>i < 16. \<exists>v. (mg_senders m ! i) sid = Some v)" for sid
    by (auto simp: xs_def len ord(2))
  moreover have "(\<exists>i < 16. \<exists>v. (mg_senders m ! i) sid = Some v) \<longleftrightarrow> (\<exists>v. g sid = Some v)" for sid
    using subscriber_shards.shard_entries [OF I(4), of sid] unfolding g_def by blast
  ultimately show "set xs = dom (map_of (mg_subscriptions m))" by (auto simp: g_def I(5))
  have same: "send_one e (mg_senders m ! i) sid = send_one e g sid" if "i < 16" "sid \<in> set (order i)" for i sid
  proof -
    have "partition_index h sid = i" using I(4) ord(2) that by (auto simp: shard_wf_def)
    then show ?thesis by (simp add: send_one_def g_def shard_get_def fun_eq_iff)
  qed
  have "fold (\<lambda>i. fold (send_one e (mg_senders m ! i)) (order i)) [0..<length (mg_senders m)] st =
      fold (\<lambda>i. fold (send_one e g) (order i)) [0..<length (mg_senders m)] st"
    using len by (intro fold_cong refl) (auto intro!: fold_cong simp: same)
  then show "fold (\<lambda>i. fold (send_one e (mg_senders m ! i)) (order i)) [0..<length (mg_senders m)] st = fold (send_one e g) xs st"
    by (simp add: fold_concat xs_def)
qed

lemma send_event_inv:
  fixes e :: 'e
  assumes inv: "mg_inv h m" and it: "iterates order m"
  defines "r \<equiv> send_event_to_subscribers order e m"
  shows "mg_inv h (snd r)"
    and "heard (snd r) = (\<lambda>sid. map_option (\<lambda>(es, open). (if open then es @ [e] else es, open)) (heard m sid))"
    and "distinct (fst r)" and "set (fst r) = {sid. \<exists>es. heard m sid = Some (es, False)}"
proof -
  note I = mg_invD [OF inv]
  let ?g = "shard_get (partition_index h) (mg_senders m)"
  let ?xs = "concat (map order [0..<length (mg_senders m)])"
  note F = send_event_flat [OF inv it]
  have g: "?g sid = map_option sn_event_rx (map_of (mg_subscriptions m) sid)" for sid by (simp add: I(5))
  have inj: "inj_on ?g (set ?xs)"
    unfolding F(2) by (auto simp: inj_on_def g dest: I(7))
  have bound: "\<forall>sid \<in> set ?xs. \<exists>c < length (mg_channels m). ?g sid = Some c"
    unfolding F(2) by (auto simp: g dest: I(6))
  have r: "r = (filter (\<lambda>sid. \<not> ch_open (mg_channels m ! the (?g sid))) ?xs,
      m\<lparr>mg_channels := map (\<lambda>c. if c \<in> (the \<circ> ?g) ` set ?xs then hear e (mg_channels m ! c) else mg_channels m ! c)
         [0..<length (mg_channels m)]\<rparr>)"
    unfolding r_def send_event_to_subscribers_def F(3) fold_send_one [OF F(1) inj bound] by simp
  show "mg_inv h (snd r)" using inv by (simp add: r mg_inv_def)
  have "sn_event_rx s \<in> (the \<circ> ?g) ` set ?xs" if "map_of (mg_subscriptions m) sid = Some s" for sid s
    unfolding F(2) using that by (force simp: g image_iff)
  then have "mg_channels (snd r) ! sn_event_rx s = hear e (mg_channels m ! sn_event_rx s)"
    if "map_of (mg_subscriptions m) sid = Some s" for sid s
    using that I(6) [OF that] by (simp add: r del: set_concat)
  moreover have "mg_subscriptions (snd r) = mg_subscriptions m" by (simp add: r)
  ultimately show "heard (snd r) = (\<lambda>sid. map_option (\<lambda>(es, open). (if open then es @ [e] else es, open)) (heard m sid))"
    by (auto simp: heard_def fun_eq_iff option.map_comp Let_def intro!: option.map_cong)
  show "distinct (fst r)" using F(1) by (simp add: r)
  show "set (fst r) = {sid. \<exists>es. heard m sid = Some (es, False)}"
    by (auto simp: r F(2) g heard_def Let_def simp del: set_concat)
qed

subsection \<open>What a subscriber hears\<close>

text \<open>The receiver of a subscription is dropped when its task ends.\<close>

definition drop_receiver :: "subscription_id \<Rightarrow> 'e subscription_manager \<Rightarrow> 'e subscription_manager" where
  "drop_receiver sid m = (case map_of (mg_subscriptions m) sid of
       None \<Rightarrow> m
     | Some s \<Rightarrow> m\<lparr>mg_channels := (mg_channels m)[sn_event_rx s := (mg_channels m ! sn_event_rx s)\<lparr>ch_open := False\<rparr>]\<rparr>)"

lemma drop_receiver_inv:
  assumes inv: "mg_inv h m"
  shows "mg_inv h (drop_receiver sid m)"
    and "heard (drop_receiver sid m) = (heard m)(sid := map_option (\<lambda>(es, _). (es, False)) (heard m sid))"
proof -
  note I = mg_invD [OF inv]
  show "mg_inv h (drop_receiver sid m)" using inv by (auto simp: mg_inv_def drop_receiver_def split: option.splits)
  show "heard (drop_receiver sid m) = (heard m)(sid := map_option (\<lambda>(es, _). (es, False)) (heard m sid))"
  proof (cases "map_of (mg_subscriptions m) sid")
    case (Some s)
    have "(mg_channels m)[sn_event_rx s := ch] ! sn_event_rx t = mg_channels m ! sn_event_rx t"
      if "map_of (mg_subscriptions m) sid' = Some t" "sid' \<noteq> sid" for sid' t ch
      using I(7) [OF that(1) Some] that(2) by (metis nth_list_update_neq)
    with Some I(6) [OF Some] show ?thesis
      by (auto simp: drop_receiver_def heard_def fun_eq_iff Let_def intro!: option.map_cong)
  qed (auto simp: drop_receiver_def heard_def fun_eq_iff)
qed

text \<open>The specification: each subscription with what it has heard since it was added.\<close>

datatype 'e fan_op = Added subscription_id | Removed subscription_id | ConnectionRemoved u64 | Detached
  | Sent 'e | ReceiverGone subscription_id

fun heard_step :: "(subscription_id \<rightharpoonup> 'e list \<times> bool) \<Rightarrow> 'e fan_op \<Rightarrow> subscription_id \<rightharpoonup> 'e list \<times> bool" where
  "heard_step f (Added sid) = (if f sid = None then f(sid \<mapsto> ([], True)) else f)"
| "heard_step f (Removed sid) = f(sid := None)"
| "heard_step f (ConnectionRemoved c) = (\<lambda>sid. if fst sid = c then None else f sid)"
| "heard_step f Detached = Map.empty"
| "heard_step f (Sent e) = (\<lambda>sid. map_option (\<lambda>(es, open). (if open then es @ [e] else es, open)) (f sid))"
| "heard_step f (ReceiverGone sid) = f(sid := map_option (\<lambda>(es, _). (es, False)) (f sid))"

inductive manager_run :: "(bytes \<Rightarrow> u64) \<Rightarrow> 'e subscription_manager \<Rightarrow> 'e fan_op list \<Rightarrow> 'e subscription_manager \<Rightarrow> bool"
  for fnv_hash m0 where
  mr_start: "manager_run fnv_hash m0 [] m0"
| mr_add: "manager_run fnv_hash m0 ops m \<Longrightarrow> add_subscription fnv_hash mode c ori a m = (r, a', m') \<Longrightarrow>
    manager_run fnv_hash m0 (ops @ [Added (c, origin_request_id ori)]) m'"
| mr_remove: "manager_run fnv_hash m0 ops m \<Longrightarrow>
    manager_run fnv_hash m0 (ops @ [Removed sid]) (snd (remove_subscription fnv_hash sid m))"
| mr_remove_all: "manager_run fnv_hash m0 ops m \<Longrightarrow>
    set order = (case map_of (mg_request_ids m) c of Some s \<Rightarrow> s | None \<Rightarrow> {}) \<Longrightarrow>
    manager_run fnv_hash m0 (ops @ [ConnectionRemoved c]) (remove_subscriptions fnv_hash order c m)"
| mr_detach: "manager_run fnv_hash m0 ops m \<Longrightarrow> manager_run fnv_hash m0 (ops @ [Detached]) (snd (detach_all m))"
| mr_send: "manager_run fnv_hash m0 ops m \<Longrightarrow> iterates order m \<Longrightarrow>
    manager_run fnv_hash m0 (ops @ [Sent e]) (snd (send_event_to_subscribers order e m))"
| mr_gone: "manager_run fnv_hash m0 ops m \<Longrightarrow> manager_run fnv_hash m0 (ops @ [ReceiverGone sid]) (drop_receiver sid m)"

lemma request_ids_heard:
  assumes "mg_inv h m"
  shows "(case map_of (mg_request_ids m) c of Some s \<Rightarrow> s | None \<Rightarrow> {}) = {r. heard m (c, r) \<noteq> None}"
  by (auto simp: mg_invD(3) [OF assms] Let_def heard_def)

lemma manager_run_refines:
  assumes "manager_run h m0 ops m" "mg_inv h m0"
  shows "mg_inv h m \<and> heard m = foldl heard_step (heard m0) ops"
  using assms
proof (induction rule: manager_run.induct)
  case (mr_remove_all ops m order c)
  then have "mg_inv h m" "heard m = foldl heard_step (heard m0) ops" by auto
  moreover from this have "(\<lambda>sid. if fst sid = c \<and> snd sid \<in> set order then None else heard m sid) =
      heard_step (heard m) (ConnectionRemoved c)"
    using mr_remove_all.hyps(2) by (auto simp: request_ids_heard fun_eq_iff simp del: not_Some_eq not_None_eq)
  ultimately show ?case using remove_subscriptions_inv [of h m order c] by simp
qed (auto simp: add_subscription_inv remove_subscription_inv detach_all_inv send_event_inv drop_receiver_inv)


abbreviation (input) sample_subscribe :: "u64 \<Rightarrow> subscription_origin" where
  "sample_subscribe r \<equiv> OriginSubscribe \<lparr>sub_request_id = r, sub_track_namespace = [], sub_track_name = [], sub_subscribe_parameters = []\<rparr>"

lemma iterates_exists:
  assumes "mg_inv h m"
  obtains order where "iterates order m"
proof -
  note I = mg_invD [OF assms]
  have "finite (dom (mg_senders m ! i))" if "i < length (mg_senders m)" for i
  proof (rule finite_subset)
    show "dom (mg_senders m ! i) \<subseteq> dom (map_of (mg_subscriptions m))"
      using subscriber_shards.shard_entries [OF I(4)] that I(4,5) by (fastforce simp: shard_wf_def)
  qed (simp add: finite_dom_map_of)
  then have "\<exists>xs. i < length (mg_senders m) \<longrightarrow> distinct xs \<and> set xs = dom (mg_senders m ! i)" for i
    using finite_distinct_list by metis
  then show thesis using that unfolding iterates_def by metis
qed

lemma manager_run_add:
  assumes "manager_run h m0 ops m"
  obtains m' where "manager_run h m0 (ops @ [Added (c, r)]) m'"
  using mr_add [OF assms, of PerTrack c "sample_subscribe r" 0] by (metis origin_request_id.simps(1) prod_cases3 subscribe_msg.select_convs(1))

lemma manager_run_send:
  assumes "manager_run h m0 ops m" "mg_inv h m0"
  obtains m' where "manager_run h m0 (ops @ [Sent e]) m'"
  using manager_run_refines [OF assms] iterates_exists mr_send [OF assms(1)] by metis


end
