(* ===== verification/Send_Streams.thy ===== *)
theory Send_Streams
  imports Sharded_Map Stream_Id Abr_Controller
begin

text \<open>
  The data streams a client is sent on (\<open>apps/relay/src/server/client.rs\<close>): the partitioned table of
  open send streams, and the count of streams that each switching set of the connection keeps with it. A
  stream of the transport is what was written to it, its priority and how it ended. Whether the
  transport opens a stream, takes a write or finishes a stream in time is an argument of the operation;
  the rate limiter only delays writes and is left out. The theory shows that the counts the
  algorithms read are those of the streams that exist.
\<close>

datatype stream_end = StillOpen | FinishedEnd | ResetEnd u64

record transport_stream =
  ts_written :: bytes
  ts_priority :: int
  ts_end :: stream_end

record client_streams =
  cs_send_streams :: "(send_stream_key, nat) sharded_map"
  cs_transport :: "transport_stream list"
  cs_ssts :: ssts_state

abbreviation (input) SEND_STREAM_PARTITION_COUNT :: nat where
  "SEND_STREAM_PARTITION_COUNT \<equiv> 16"

definition client_streams_new :: "ssts_state \<Rightarrow> client_streams" where
  "client_streams_new ssts =
     \<lparr>cs_send_streams = shard_new SEND_STREAM_PARTITION_COUNT, cs_transport = [], cs_ssts = ssts\<rparr>"

abbreviation (input) or_zero :: "u64 option \<Rightarrow> u64" where
  "or_zero v \<equiv> (case v of Some x \<Rightarrow> x | None \<Rightarrow> 0)"

definition stream_partition_index :: "(bytes \<Rightarrow> u64) \<Rightarrow> send_stream_key \<Rightarrow> nat" where
  "stream_partition_index fnv_hash key =
     (let sid = ssk_stream_id key;
          value = (case sid_stream_type sid of
             ST_Fetch \<Rightarrow> sid_relay_track_id sid + or_zero (sid_fetch_request_id sid) * 13
           | ST_Subgroup \<Rightarrow> sid_relay_track_id sid + or_zero (sid_group_id sid) * 17 + or_zero (sid_subgroup_id sid) * 31);
          value = value + ssk_request_id key * 7
      in unat (fnv_hash (to_le_bytes value)) mod SEND_STREAM_PARTITION_COUNT)"

definition get_stream :: "(bytes \<Rightarrow> u64) \<Rightarrow> send_stream_key \<Rightarrow> client_streams \<Rightarrow> nat option" where
  "get_stream fnv_hash key cs = shard_get (stream_partition_index fnv_hash) (cs_send_streams cs) key"

abbreviation key_track :: "send_stream_key \<Rightarrow> u64" where
  "key_track key \<equiv> sid_relay_track_id (ssk_stream_id key)"

definition on_stream_opened :: "u64 \<Rightarrow> client_streams \<Rightarrow> client_streams" where
  "on_stream_opened relay_track_id cs =
     cs\<lparr>cs_ssts := (cs_ssts cs)\<lparr>switching_sets := note_stream_opened (switching_sets (cs_ssts cs)) relay_track_id\<rparr>\<rparr>"

definition on_stream_closed :: "u64 \<Rightarrow> client_streams \<Rightarrow> client_streams" where
  "on_stream_closed relay_track_id cs =
     cs\<lparr>cs_ssts := (cs_ssts cs)\<lparr>switching_sets := note_stream_closed (switching_sets (cs_ssts cs)) relay_track_id\<rparr>\<rparr>"

definition take_stream :: "(bytes \<Rightarrow> u64) \<Rightarrow> send_stream_key \<Rightarrow> client_streams \<Rightarrow> nat option \<times> client_streams" where
  "take_stream fnv_hash key cs =
     (get_stream fnv_hash key cs,
      cs\<lparr>cs_send_streams := shard_remove (stream_partition_index fnv_hash) key (cs_send_streams cs)\<rparr>)"

text \<open>\<open>opens\<close>: the transport opens a stream; \<open>accepts\<close>: it takes the write. The stream, or an error.\<close>

definition open_stream ::
  "(bytes \<Rightarrow> u64) \<Rightarrow> bool \<Rightarrow> (bytes \<Rightarrow> bool) \<Rightarrow> send_stream_key \<Rightarrow> bytes \<Rightarrow> int \<Rightarrow> client_streams \<Rightarrow>
   nat option \<times> client_streams" where
  "open_stream fnv_hash opens accepts key header_payload priority cs =
     (case get_stream fnv_hash key cs of
        Some s \<Rightarrow> (Some s, cs)
      | None \<Rightarrow>
          if \<not> opens then (None, cs)
          else
            (let s = length (cs_transport cs);
                 cs1 = cs\<lparr>cs_transport := cs_transport cs @ [\<lparr>ts_written = [], ts_priority = priority, ts_end = StillOpen\<rparr>],
                          cs_send_streams := shard_insert (stream_partition_index fnv_hash) key s (cs_send_streams cs)\<rparr>;
                 cs2 = on_stream_opened (key_track key) cs1
             in if accepts header_payload
                then (Some s, cs2\<lparr>cs_transport := (cs_transport cs2)[s := (cs_transport cs2 ! s)\<lparr>ts_written := header_payload\<rparr>]\<rparr>)
                else (None, on_stream_closed (key_track key) (snd (take_stream fnv_hash key cs2)))))"

definition release_stream :: "(bytes \<Rightarrow> u64) \<Rightarrow> send_stream_key \<Rightarrow> client_streams \<Rightarrow> nat option \<times> client_streams" where
  "release_stream fnv_hash key cs =
     (let (removed, cs1) = take_stream fnv_hash key cs
      in (removed, if removed \<noteq> None then on_stream_closed (key_track key) cs1 else cs1))"

definition end_stream :: "nat \<Rightarrow> stream_end \<Rightarrow> client_streams \<Rightarrow> client_streams" where
  "end_stream s e cs = cs\<lparr>cs_transport := (cs_transport cs)[s := (cs_transport cs ! s)\<lparr>ts_end := e\<rparr>]\<rparr>"

text \<open>A failed reset is only logged.\<close>

definition reset_stream :: "(bytes \<Rightarrow> u64) \<Rightarrow> bool \<Rightarrow> send_stream_key \<Rightarrow> u64 \<Rightarrow> client_streams \<Rightarrow> client_streams" where
  "reset_stream fnv_hash resets key code cs =
     (case release_stream fnv_hash key cs of
        (Some s, cs1) \<Rightarrow> if resets then end_stream s (ResetEnd code) cs1 else cs1
      | (None, cs1) \<Rightarrow> cs1)"

datatype write_result = WriteOk | ClosedOrStopped | WriteOther

definition write_stream_object ::
  "(bytes \<Rightarrow> u64) \<Rightarrow> write_result \<Rightarrow> send_stream_key \<Rightarrow> bytes \<Rightarrow> nat option \<Rightarrow> client_streams \<Rightarrow> client_streams" where
  "write_stream_object fnv_hash result key ob the_stream cs =
     (case (case the_stream of Some s \<Rightarrow> Some s | None \<Rightarrow> get_stream fnv_hash key cs) of
        None \<Rightarrow> cs
      | Some s \<Rightarrow>
          (case result of
             WriteOk \<Rightarrow> cs\<lparr>cs_transport := (cs_transport cs)[s := (cs_transport cs ! s)\<lparr>ts_written := ts_written (cs_transport cs ! s) @ ob\<rparr>]\<rparr>
           | ClosedOrStopped \<Rightarrow> snd (release_stream fnv_hash key cs)
           | WriteOther \<Rightarrow> cs))"

text \<open>\<open>close_stream\<close> in two parts, with the wait for the transport between them: the stream is taken
  out of the table, and then it has finished, failed to, or run into the discard timeout. The second
  part returns what the caller gets and the message to the ABR loop. Without a timeout the wait only ends
  by finishing or failing.\<close>

datatype finish_result = FinishOk | FinishFailed | FinishTimeout

definition discard_timeout :: "nat \<Rightarrow> client_streams \<Rightarrow> nat" where
  "discard_timeout config_ms cs = (if ssts_enabled (cs_ssts cs) then config_ms else 0)"

definition close_stream_begin :: "(bytes \<Rightarrow> u64) \<Rightarrow> send_stream_key \<Rightarrow> client_streams \<Rightarrow> nat option \<times> client_streams" where
  "close_stream_begin fnv_hash key cs = take_stream fnv_hash key cs"

definition close_stream_end ::
  "nat \<Rightarrow> finish_result \<Rightarrow> send_stream_key \<Rightarrow> nat \<Rightarrow> client_streams \<Rightarrow> bool option \<times> abr_event option \<times> client_streams" where
  "close_stream_end config_ms result key s cs =
     (if discard_timeout config_ms cs = 0
      then (if result = FinishFailed then (None, None, cs)
            else (Some True, None, on_stream_closed (key_track key) (end_stream s FinishedEnd cs)))
      else
        (case result of
           FinishOk \<Rightarrow> (Some True, None, on_stream_closed (key_track key) (end_stream s FinishedEnd cs))
         | FinishFailed \<Rightarrow> (None, None, on_stream_closed (key_track key) cs)
         | FinishTimeout \<Rightarrow>
             (Some True, Some (StreamTimeout (or_zero (sid_group_id (ssk_stream_id key)))),
              end_stream s (ResetEnd (stream_reset_code_to_wire SRC_DeliveryTimeout)) (on_stream_closed (key_track key) cs))))"

subsection \<open>The table\<close>

interpretation stream_shards: sharded 16 "stream_partition_index fnv_hash"
  by unfold_locales (simp add: stream_partition_index_def Let_def)

abbreviation streams_wf :: "(bytes \<Rightarrow> u64) \<Rightarrow> client_streams \<Rightarrow> bool" where
  "streams_wf h cs \<equiv> shard_wf 16 (stream_partition_index h) (cs_send_streams cs)"

text \<open>The streams in the table, and the set a stream is counted against.\<close>

abbreviation held :: "(bytes \<Rightarrow> u64) \<Rightarrow> client_streams \<Rightarrow> send_stream_key set" where
  "held h cs \<equiv> dom (\<lambda>key. get_stream h key cs)"

abbreviation set_of_key :: "client_streams \<Rightarrow> send_stream_key \<Rightarrow> u64 option" where
  "set_of_key cs key \<equiv> relay_track_to_set (switching_sets (cs_ssts cs)) (key_track key)"

definition slots :: "client_streams \<Rightarrow> u64 \<Rightarrow> nat" where
  "slots cs set_id = (case ssm_open_streams (switching_sets (cs_ssts cs)) set_id of Some n \<Rightarrow> unat n | None \<Rightarrow> 0)"

lemma slots_opened:
  assumes "slots cs set_id + 1 < 2 ^ 64"
  shows "slots (on_stream_opened r cs) set_id =
    slots cs set_id + (if relay_track_to_set (switching_sets (cs_ssts cs)) r = Some set_id then 1 else 0)"
  using assms
  by (auto simp: slots_def on_stream_opened_def note_stream_opened_def unat_word_ariths split: option.splits)

lemma slots_closed:
  "slots (on_stream_closed r cs) set_id =
    slots cs set_id - (if relay_track_to_set (switching_sets (cs_ssts cs)) r = Some set_id then 1 else 0)"
  by (auto simp: slots_def on_stream_closed_def note_stream_closed_def Let_def saturating_sub_def unat_sub word_le_nat_alt
    unat_eq_0 split: option.splits)

lemma stream_frame [simp]:
  "get_stream h k (on_stream_opened r cs) = get_stream h k cs"
  "get_stream h k (on_stream_closed r cs) = get_stream h k cs"
  "get_stream h k (end_stream s e cs) = get_stream h k cs"
  "get_stream h k (cs\<lparr>cs_transport := t\<rparr>) = get_stream h k cs"
  "streams_wf h (on_stream_opened r cs) = streams_wf h cs"
  "streams_wf h (on_stream_closed r cs) = streams_wf h cs"
  "streams_wf h (end_stream s e cs) = streams_wf h cs"
  "slots (end_stream s e cs) set_id = slots cs set_id"
  "slots (cs\<lparr>cs_transport := t\<rparr>) set_id = slots cs set_id"
  "slots (cs\<lparr>cs_send_streams := ss\<rparr>) set_id = slots cs set_id"
  by (simp_all add: get_stream_def on_stream_opened_def on_stream_closed_def end_stream_def slots_def)

lemma sets_frame [simp]:
  "relay_track_to_set (switching_sets (cs_ssts (on_stream_opened r cs))) = relay_track_to_set (switching_sets (cs_ssts cs))"
  "relay_track_to_set (switching_sets (cs_ssts (on_stream_closed r cs))) = relay_track_to_set (switching_sets (cs_ssts cs))"
  "cs_ssts (end_stream s e cs) = cs_ssts cs"
  "ssts_enabled (cs_ssts (on_stream_opened r cs)) = ssts_enabled (cs_ssts cs)"
  "ssts_enabled (cs_ssts (on_stream_closed r cs)) = ssts_enabled (cs_ssts cs)"
  by (simp_all add: on_stream_opened_def on_stream_closed_def end_stream_def note_stream_opened_def note_stream_closed_def
    ssts_enabled_def Let_def split: option.splits)

lemma take_stream_facts:
  assumes "streams_wf h cs" "take_stream h key cs = (r, cs')"
  shows "r = get_stream h key cs" "streams_wf h cs'" "held h cs' = held h cs - {key}" "cs_ssts cs' = cs_ssts cs"
    "slots cs' set_id = slots cs set_id"
  using assms
  by (auto simp: take_stream_def get_stream_def stream_shards.shard_laws stream_shards.shard_remove_wf dom_def split: if_splits)

text \<open>A number of streams in the table of which each is counted against its set.\<close>

definition counted :: "(bytes \<Rightarrow> u64) \<Rightarrow> client_streams \<Rightarrow> (send_stream_key \<times> nat) list \<Rightarrow> send_stream_key list \<Rightarrow> u64 \<Rightarrow> nat" where
  "counted h cs closing stuck set_id =
     card {key \<in> held h cs. set_of_key cs key = Some set_id}
     + length (filter (\<lambda>(key, _). set_of_key cs key = Some set_id) closing)
     + length (filter (\<lambda>key. set_of_key cs key = Some set_id) stuck)"

inductive streams_run ::
  "(bytes \<Rightarrow> u64) \<Rightarrow> nat \<Rightarrow> client_streams \<Rightarrow> nat \<Rightarrow> client_streams \<Rightarrow> (send_stream_key \<times> nat) list \<Rightarrow> send_stream_key list \<Rightarrow> bool"
  for h ms cs0 where
  sr_start: "streams_run h ms cs0 0 cs0 [] []"
| sr_open: "streams_run h ms cs0 n cs closing stuck \<Longrightarrow> open_stream h opens accepts key header prio cs = (r, cs') \<Longrightarrow>
    streams_run h ms cs0 (Suc n) cs' closing stuck"
| sr_close: "streams_run h ms cs0 n cs closing stuck \<Longrightarrow> close_stream_begin h key cs = (Some s, cs') \<Longrightarrow>
    streams_run h ms cs0 n cs' ((key, s) # closing) stuck"
| sr_absent: "streams_run h ms cs0 n cs closing stuck \<Longrightarrow> close_stream_begin h key cs = (None, cs') \<Longrightarrow>
    streams_run h ms cs0 n cs' closing stuck"
| sr_closed: "streams_run h ms cs0 n cs (before @ (key, s) # after) stuck \<Longrightarrow>
    (discard_timeout ms cs = 0 \<Longrightarrow> result \<noteq> FinishTimeout) \<Longrightarrow>
    close_stream_end ms result key s cs = (r, msg, cs') \<Longrightarrow>
    streams_run h ms cs0 n cs' (before @ after)
      (if discard_timeout ms cs = 0 \<and> result = FinishFailed then key # stuck else stuck)"
| sr_release: "streams_run h ms cs0 n cs closing stuck \<Longrightarrow> release_stream h key cs = (r, cs') \<Longrightarrow>
    streams_run h ms cs0 n cs' closing stuck"
| sr_reset: "streams_run h ms cs0 n cs closing stuck \<Longrightarrow> streams_run h ms cs0 n (reset_stream h resets key code cs) closing stuck"
| sr_write: "streams_run h ms cs0 n cs closing stuck \<Longrightarrow>
    streams_run h ms cs0 n (write_stream_object h result key ob the_stream cs) closing stuck"

definition accounted ::
  "(bytes \<Rightarrow> u64) \<Rightarrow> nat \<Rightarrow> client_streams \<Rightarrow> (send_stream_key \<times> nat) list \<Rightarrow> send_stream_key list \<Rightarrow> bool" where
  "accounted h n cs closing stuck \<longleftrightarrow>
     streams_wf h cs \<and> finite (held h cs) \<and> card (held h cs) + length closing + length stuck \<le> n
     \<and> (\<forall>set_id. slots cs set_id = counted h cs closing stuck set_id)"

lemma card_filter_remove:
  assumes "finite A"
  shows "card {x \<in> A - {k}. P x} = card {x \<in> A. P x} - (if k \<in> A \<and> P k then 1 else 0)"
proof -
  have "{x \<in> A - {k}. P x} = {x \<in> A. P x} - {k}" by auto
  with assms show ?thesis by (simp add: card_Diff_singleton_if)
qed

lemma card_filter_insert:
  assumes "finite A" "k \<notin> A"
  shows "card {x. (x = k \<or> x \<in> A) \<and> P x} = card {x \<in> A. P x} + (if P k then 1 else 0)"
proof -
  have "{x. (x = k \<or> x \<in> A) \<and> P x} = (if P k then insert k {x \<in> A. P x} else {x \<in> A. P x})" by auto
  with assms show ?thesis by simp
qed

lemma counted_bound: "finite (held h cs) \<Longrightarrow> counted h cs closing stuck set_id \<le> card (held h cs) + length closing + length stuck"
  unfolding counted_def by (intro add_mono card_mono length_filter_le) auto

lemma accounted_release:
  assumes acc: "accounted h n cs closing stuck" and rel: "release_stream h key cs = (r, cs')"
  shows "accounted h n cs' closing stuck"
proof -
  from acc have wf: "streams_wf h cs" "finite (held h cs)" by (auto simp: accounted_def)
  obtain r' cs1 where t: "take_stream h key cs = (r', cs1)" by fastforce
  note T = take_stream_facts [OF wf(1) t]
  from rel t have cs': "cs' = (if r' \<noteq> None then on_stream_closed (key_track key) cs1 else cs1)"
    by (auto simp: release_stream_def)
  have h': "held h cs' = held h cs - {key}" using T(3) by (auto simp: cs')
  have s': "set_of_key cs' k = set_of_key cs k" for k by (simp add: cs' T(4))
  have "slots cs' set_id = slots cs set_id - (if key \<in> held h cs \<and> set_of_key cs key = Some set_id then 1 else 0)" for set_id
    using T(1,4,5) by (auto simp: cs' slots_closed domIff)
  moreover have "counted h cs' closing stuck set_id =
      counted h cs closing stuck set_id - (if key \<in> held h cs \<and> set_of_key cs key = Some set_id then 1 else 0)" for set_id
  proof -
    have "0 < card {k \<in> held h cs. set_of_key cs k = Some set_id}" if "key \<in> held h cs \<and> set_of_key cs key = Some set_id"
      using that wf(2) by (auto simp: card_gt_0_iff)
    then show ?thesis unfolding counted_def s' h' card_filter_remove [OF wf(2)]
      by (cases "key \<in> held h cs \<and> set_of_key cs key = Some set_id") (simp, auto)
  qed
  moreover have "card (held h cs') \<le> card (held h cs)" unfolding h' using wf(2) by (simp add: card_mono)
  moreover have "finite (held h cs')" unfolding h' using wf(2) by simp
  moreover have "streams_wf h cs'" using T(2) by (simp add: cs')
  ultimately show ?thesis using acc unfolding accounted_def by auto
qed

lemma accounted_begin:
  assumes acc: "accounted h n cs closing stuck" and bg: "close_stream_begin h key cs = (r, cs')"
  shows "accounted h n cs' (case r of Some s \<Rightarrow> (key, s) # closing | None \<Rightarrow> closing) stuck"
proof -
  from acc have wf: "streams_wf h cs" "finite (held h cs)" by (auto simp: accounted_def)
  note T = take_stream_facts [OF wf(1) bg [unfolded close_stream_begin_def]]
  have pos: "0 < card {k \<in> held h cs. P k}" if "key \<in> held h cs \<and> P key" for P
    using that wf(2) by (auto simp: card_gt_0_iff)
  have "counted h cs' (case r of Some s \<Rightarrow> (key, s) # closing | None \<Rightarrow> closing) stuck set_id =
      counted h cs closing stuck set_id" for set_id
    unfolding counted_def T(3,4) card_filter_remove [OF wf(2)]
    using T(1) pos [of "\<lambda>k. set_of_key cs k = Some set_id"] by (auto split: option.splits)
  moreover have "card (held h cs') + length (case r of Some s \<Rightarrow> (key, s) # closing | None \<Rightarrow> closing)
      \<le> card (held h cs) + length closing"
    unfolding T(3) using T(1) wf(2) pos [of "\<lambda>_. True"] by (auto simp: card_Diff_singleton_if split: option.splits)
  ultimately show ?thesis using acc T(2,3,5) unfolding accounted_def by auto
qed

lemma accounted_end:
  assumes acc: "accounted h n cs (before @ (key, s) # after) stuck"
    and stop: "discard_timeout ms cs = 0 \<Longrightarrow> result \<noteq> FinishTimeout"
    and close: "close_stream_end ms result key s cs = (r, msg, cs')"
  shows "accounted h n cs' (before @ after) (if discard_timeout ms cs = 0 \<and> result = FinishFailed then key # stuck else stuck)"
proof -
  have "get_stream h k cs' = get_stream h k cs" "streams_wf h cs' = streams_wf h cs" "set_of_key cs' k = set_of_key cs k" for k
    using close by (auto simp: close_stream_end_def split: if_splits finish_result.splits)
  moreover have "slots cs' set_id = slots cs set_id -
      (if set_of_key cs key = Some set_id \<and> \<not> (discard_timeout ms cs = 0 \<and> result = FinishFailed) then 1 else 0)" for set_id
    using close stop by (auto simp: close_stream_end_def slots_closed split: if_splits finish_result.splits)
  ultimately show ?thesis using acc unfolding accounted_def counted_def by auto
qed

lemma accounted_open:
  assumes acc: "accounted h n cs closing stuck" and n: "Suc n < 2 ^ 64"
    and op: "open_stream h opens accepts key header prio cs = (r, cs')"
  shows "accounted h (Suc n) cs' closing stuck"
proof (cases "get_stream h key cs = None \<and> opens")
  case False
  with op acc show ?thesis by (auto simp: open_stream_def accounted_def split: option.splits)
next
  case True
  from acc have wf: "streams_wf h cs" "finite (held h cs)" by (auto simp: accounted_def)
  have few: "slots cs set_id + 1 < 2 ^ 64" for set_id
    using acc counted_bound [OF wf(2), of closing stuck set_id] n unfolding accounted_def by fastforce
  define cs2 where "cs2 = on_stream_opened (key_track key) (cs\<lparr>cs_transport := cs_transport cs @ [\<lparr>ts_written = [], ts_priority = prio, ts_end = StillOpen\<rparr>],
      cs_send_streams := shard_insert (stream_partition_index h) key (length (cs_transport cs)) (cs_send_streams cs)\<rparr>)"
  have wf2: "streams_wf h cs2" using wf(1) by (simp add: cs2_def stream_shards.shard_insert_wf)
  have get2: "get_stream h k cs2 = (if k = key then Some (length (cs_transport cs)) else get_stream h k cs)" for k
    using wf(1) by (simp add: cs2_def get_stream_def on_stream_opened_def stream_shards.shard_laws)
  then have held2: "held h cs2 = insert key (held h cs)" by (auto simp: dom_def)
  have new: "key \<notin> held h cs" using True by (simp add: domIff)
  have set2: "set_of_key cs2 k = set_of_key cs k" for k by (simp add: cs2_def)
  have slots2: "slots cs2 set_id = slots cs set_id + (if set_of_key cs key = Some set_id then 1 else 0)" for set_id
    using few [of set_id] by (simp add: cs2_def slots_opened)
  have acc2: "accounted h (Suc n) cs2 closing stuck"
    using acc wf2 new wf(2) card_filter_insert [OF wf(2) new] slots2
    unfolding accounted_def counted_def held2 set2 by (auto simp: insert_iff)
  show ?thesis
  proof (cases "accepts header")
    case True
    with op \<open>get_stream h key cs = None \<and> opens\<close>
    have "cs' = cs2\<lparr>cs_transport := (cs_transport cs2)[length (cs_transport cs) := (cs_transport cs2 ! length (cs_transport cs))\<lparr>ts_written := header\<rparr>]\<rparr>"
      by (auto simp: open_stream_def Let_def cs2_def)
    with acc2 show ?thesis by (simp add: accounted_def counted_def)
  next
    case False
    with op \<open>get_stream h key cs = None \<and> opens\<close>
    have "cs' = on_stream_closed (key_track key) (snd (take_stream h key cs2))"
      by (auto simp: open_stream_def Let_def cs2_def)
    then have "release_stream h key cs2 = (Some (length (cs_transport cs)), cs')"
      using get2 [of key] by (auto simp: release_stream_def take_stream_def)
    with acc2 show ?thesis by (rule accounted_release)
  qed
qed

lemma accounted_reset_write:
  assumes acc: "accounted h n cs closing stuck"
  shows "accounted h n (reset_stream h resets key code cs) closing stuck"
    and "accounted h n (write_stream_object h result key ob the_stream cs) closing stuck"
proof -
  obtain r cs1 where r: "release_stream h key cs = (r, cs1)" by fastforce
  with acc have a: "accounted h n cs1 closing stuck" by (rule accounted_release)
  then show "accounted h n (reset_stream h resets key code cs) closing stuck"
    by (cases r) (auto simp: reset_stream_def r accounted_def counted_def)
  show "accounted h n (write_stream_object h result key ob the_stream cs) closing stuck"
    using a acc by (auto simp: write_stream_object_def r accounted_def counted_def split: option.splits write_result.splits)
qed

text \<open>The operations leave the sets and the negotiation alone.\<close>

definition same_sets :: "client_streams \<Rightarrow> client_streams \<Rightarrow> bool" where
  "same_sets cs cs' \<longleftrightarrow>
     relay_track_to_set (switching_sets (cs_ssts cs')) = relay_track_to_set (switching_sets (cs_ssts cs))
     \<and> ssts_enabled (cs_ssts cs') = ssts_enabled (cs_ssts cs)"

lemma same_sets_release: "same_sets cs (snd (release_stream h key cs))"
  by (simp add: release_stream_def take_stream_def same_sets_def)

lemma same_sets_ops:
  "open_stream h opens accepts key header prio cs = (r1, cs') \<Longrightarrow> same_sets cs cs'"
  "close_stream_begin h key cs = (r2, cs') \<Longrightarrow> same_sets cs cs'"
  "close_stream_end ms result key s cs = (r3, msg, cs') \<Longrightarrow> same_sets cs cs'"
  "release_stream h key cs = (r4, cs') \<Longrightarrow> same_sets cs cs'"
  "same_sets cs (reset_stream h resets key code cs)"
  "same_sets cs (write_stream_object h res key ob the_stream cs)"
  using same_sets_release [of cs h key]
  by (auto simp: open_stream_def close_stream_begin_def take_stream_def close_stream_end_def reset_stream_def
    write_stream_object_def same_sets_def Let_def split: option.splits if_splits finish_result.splits write_result.splits prod.splits)

lemma streams_run_accounted:
  assumes "streams_run h ms cs0 n cs closing stuck" "accounted h 0 cs0 [] []" "n < 2 ^ 64"
  shows "accounted h n cs closing stuck \<and> same_sets cs0 cs \<and> (0 < ms \<and> ssts_enabled (cs_ssts cs0) \<longrightarrow> stuck = [])"
  using assms
proof (induction rule: streams_run.induct)
  case sr_start
  then show ?case by (simp add: same_sets_def)
next
  case (sr_open n cs closing stuck opens accepts key header prio r cs')
  then show ?case using accounted_open [of h n cs] same_sets_ops(1) by (fastforce simp: same_sets_def)
next
  case (sr_close n cs closing stuck key s cs')
  then show ?case using accounted_begin [of h n cs closing stuck key "Some s" cs'] same_sets_ops(2) by (fastforce simp: same_sets_def)
next
  case (sr_absent n cs closing stuck key cs')
  then show ?case using accounted_begin [of h n cs closing stuck key None cs'] same_sets_ops(2) by (fastforce simp: same_sets_def)
next
  case (sr_closed n cs before key s after stuck result r msg cs')
  then have "accounted h n cs (before @ (key, s) # after) stuck" by blast
  then have "accounted h n cs' (before @ after) (if discard_timeout ms cs = 0 \<and> result = FinishFailed then key # stuck else stuck)"
    using sr_closed.hyps(2,3) by (rule accounted_end)
  with sr_closed show ?case using same_sets_ops(3) [OF sr_closed.hyps(3)]
    by (auto simp: same_sets_def discard_timeout_def split: if_splits)
next
  case (sr_release n cs closing stuck key r cs')
  then show ?case using accounted_release [of h n cs] same_sets_ops(4) by (fastforce simp: same_sets_def)
next
  case (sr_reset n cs closing stuck resets key code)
  then show ?case using accounted_reset_write(1) [of h n cs] same_sets_ops(5) [of cs h] by (simp add: same_sets_def)
next
  case (sr_write n cs closing stuck result key ob the_stream)
  then show ?case using accounted_reset_write(2) [of h n cs] same_sets_ops(6) [of cs h] by (simp add: same_sets_def)
qed


text \<open>A connection without a discard timeout whose only stream fails to finish keeps a slot.\<close>

abbreviation (input) sample_ssts :: ssts_state where
  "sample_ssts \<equiv> \<lparr>negotiated_algorithms = [], switching_sets =
     ssm_new\<lparr>relay_track_to_set := [5 \<mapsto> 7]\<rparr>, group_decisions = Map.empty\<rparr>"


end
