(* ===== verification/Fetch_Range.thy ===== *)
theory Fetch_Range
  imports Location_Filter Fetch_Object Track_Cache Control_Messages
begin

text \<open>
  The range arithmetic of the relay's FETCH handler
  (\<open>apps/relay/src/server/message_handlers/fetch_handler.rs\<close>): how a request resolves to a first and last
  Location, how a cache gap is clipped to the request, and \<open>ResponseAbsences\<close>, which works out
  from an upstream response what does not exist. The theory shows that the spans it reports are
  exactly the Locations the response passed over.
\<close>

datatype fetch_range_error = InvalidRange | FetchProtocolViolation

definition resolve_fetch_range :: "location_filter \<Rightarrow> location option \<Rightarrow> fetch_range_error + (location \<times> location)" where
  "resolve_fetch_range f largest =
     (if (case (start_location f None, end_location f) of (Some start, Some end) \<Rightarrow> end < start | _ \<Rightarrow> False)
      then Inl FetchProtocolViolation
      else ok_or InvalidRange (fetch_range f largest))"

definition concrete_end_location :: "location \<Rightarrow> location option \<Rightarrow> u64 option \<Rightarrow> location" where
  "concrete_end_location end upstream_end cached_last =
     (if l_object end \<noteq> u64_MAX then end
      else case upstream_end of
          Some u \<Rightarrow> if u < end then u
                    else (case cached_last of Some ob \<Rightarrow> Location (l_group end) ob | None \<Rightarrow> end)
        | None \<Rightarrow> (case cached_last of Some ob \<Rightarrow> Location (l_group end) ob | None \<Rightarrow> end))"

definition last_cached_object_id ::
  "('c \<Rightarrow> cache_key \<Rightarrow> fetch_object_payload list option) \<Rightarrow> 'c track_cache \<Rightarrow> u64 \<Rightarrow> u64 option" where
  "last_cached_object_id mget tc gid =
     Option.bind (get_group mget tc gid) (\<lambda>objects.
       if objects = [] then None else Some (fold max (map fo_object_id objects) 0))"

definition unresolved_fetch_range :: "location_filter \<Rightarrow> (location \<times> location) option" where
  "unresolved_fetch_range f = (case f of
       LF_AbsoluteStartGroupEnd start _ \<Rightarrow> map_option (Pair start) (end_location f)
     | LF_AbsoluteRange start _ \<Rightarrow> map_option (Pair start) (end_location f)
     | _ \<Rightarrow> None)"

definition local_state_answers :: "location option \<Rightarrow> location \<Rightarrow> bool" where
  "local_state_answers known requested_end = (case known of Some k \<Rightarrow> requested_end \<le> k | None \<Rightarrow> False)"

definition groups_to_claim :: "location_filter \<Rightarrow> (u64 \<times> u64) option" where
  "groups_to_claim f = map_option (\<lambda>end.
     ((case start_location f None of Some l \<Rightarrow> l_group l | None \<Rightarrow> 0), l_group end)) (end_location f)"

definition empty_range_outcome ::
  "location_filter \<Rightarrow> request_error_msg option \<Rightarrow> bool \<Rightarrow> (request_error_code \<times> bytes) + (location \<times> location)" where
  "empty_range_outcome f upstream_rejection has_upstream_publisher = (case upstream_rejection of
       Some err \<Rightarrow> Inl (rer_error_code err, rer_reason_phrase err)
     | None \<Rightarrow> (case unresolved_fetch_range f of
           Some r \<Rightarrow> if has_upstream_publisher then Inr r else Inl (REC_InvalidRange, map of_char ''Invalid range'')
         | None \<Rightarrow> Inl (REC_InvalidRange, map of_char ''Invalid range'')))"

subsection \<open>Clipping to the request\<close>

definition requested_part :: "u64 \<Rightarrow> u64 \<Rightarrow> location \<Rightarrow> location \<Rightarrow> location \<times> location" where
  "requested_part first last_group start end = (max (Location first 0) start, min (Location last_group u64_MAX) end)"

definition delivered_start :: "location \<Rightarrow> location \<Rightarrow> group_order \<Rightarrow> location" where
  "delivered_start start end order =
     (if order = GO_Descending \<and> l_group start \<noteq> l_group end then Location (l_group start) 0 else start)"

definition objects_wanted :: "u64 \<Rightarrow> location \<Rightarrow> location \<Rightarrow> u64 \<times> u64" where
  "objects_wanted gid start end =
     (let (lo, hi) = requested_part gid gid start end in (l_object lo, l_object hi))"

definition last_delivered :: "u64 \<Rightarrow> u64 \<Rightarrow> location \<Rightarrow> location \<Rightarrow> bool \<Rightarrow> location" where
  "last_delivered first last_group start end descending =
     (let gid = (if descending then first else last_group) in snd (requested_part gid gid start end))"

definition unknown_up_to :: "location \<Rightarrow> fetch_object" where
  "unknown_up_to l = EndOfRange UnknownRange (l_group l) (l_object l)"

definition range_location_filter :: "location \<Rightarrow> location \<Rightarrow> location_filter" where
  "range_location_filter start end =
     (if l_object end = u64_MAX then LF_AbsoluteStartGroupEnd start (l_group end) else LF_AbsoluteRange start end)"

subsection \<open>What a response shows to be absent\<close>

type_synonym span = "location \<times> location"

record response_absences =
  ra_start :: location
  ra_end :: location
  ra_descending :: bool
  ra_fetch_ok :: bool
  ra_last :: "location option"

definition absences_new :: "location \<Rightarrow> location \<Rightarrow> group_order \<Rightarrow> response_absences" where
  "absences_new start end order =
     \<lparr>ra_start = delivered_start start end order, ra_end = end,
      ra_descending = (order = GO_Descending \<and> l_group start \<noteq> l_group end), ra_fetch_ok = False, ra_last = None\<rparr>"

definition on_fetch_ok :: "location \<Rightarrow> response_absences \<Rightarrow> response_absences" where
  "on_fetch_ok final ra =
     (if final < ra_end ra then ra\<lparr>ra_end := final, ra_fetch_ok := True\<rparr> else ra\<lparr>ra_fetch_ok := True\<rparr>)"

definition clip :: "response_absences \<Rightarrow> span list \<Rightarrow> span list" where
  "clip ra spans = filter (\<lambda>(from, to). from \<le> to) (map (\<lambda>(from, to). (max from (ra_start ra), min to (ra_end ra))) spans)"

definition group_end :: "response_absences \<Rightarrow> u64 \<Rightarrow> u64" where
  "group_end ra gid = (if gid = l_group (ra_end ra) then l_object (ra_end ra) else u64_MAX)"

definition rest_of_group :: "response_absences \<Rightarrow> location \<Rightarrow> span list" where
  "rest_of_group ra l =
     (if l_object l < group_end ra (l_group l)
      then [(Location (l_group l) (l_object l + 1), Location (l_group l) (group_end ra (l_group l)))] else [])"

definition head_of :: "location \<Rightarrow> span list" where
  "head_of to = (if 0 < l_object to then [(Location (l_group to) 0, Location (l_group to) (l_object to - 1))] else [])"

definition neighbours_between :: "location option \<Rightarrow> location option \<Rightarrow> span list" where
  "neighbours_between from until = (case (from, until) of (Some f, Some u) \<Rightarrow> [(f, u)] | _ \<Rightarrow> [])"

definition between :: "response_absences \<Rightarrow> location \<Rightarrow> span list" where
  "between ra to =
     (if \<not> ra_descending ra then
        clip ra (neighbours_between
          (case ra_last ra of Some l \<Rightarrow> location_next l | None \<Rightarrow> Some (ra_start ra)) (location_prev to))
      else clip ra (case ra_last ra of
          Some l \<Rightarrow>
            if l_group l = l_group to then neighbours_between (location_next l) (location_prev to)
            else rest_of_group ra l
              @ (if l_group to + 1 < l_group l then [(Location (l_group to + 1) 0, Location (l_group l - 1) u64_MAX)] else [])
              @ head_of to
        | None \<Rightarrow>
            (if l_group to < l_group (ra_end ra) then [(Location (l_group to + 1) 0, ra_end ra)] else []) @ head_of to))"

definition on_object :: "location \<Rightarrow> response_absences \<Rightarrow> span list \<times> response_absences" where
  "on_object l ra = (between ra l, ra\<lparr>ra_last := Some l\<rparr>)"

definition on_marker :: "end_of_range_kind \<Rightarrow> location \<Rightarrow> response_absences \<Rightarrow> span list \<times> response_absences" where
  "on_marker kind l ra =
     (if kind = NonExistent then clip ra (between ra l @ [(l, l)]) else [], ra\<lparr>ra_last := Some l\<rparr>)"

definition on_end :: "bool \<Rightarrow> response_absences \<Rightarrow> span list" where
  "on_end closed_cleanly ra =
     (if \<not> (closed_cleanly \<and> ra_fetch_ok ra) then []
      else clip ra (case ra_last ra of
          None \<Rightarrow> [(ra_start ra, ra_end ra)]
        | Some l \<Rightarrow>
            if \<not> ra_descending ra then neighbours_between (location_next l) (Some (ra_end ra))
            else rest_of_group ra l
              @ (if l_group (ra_start ra) < l_group l then [(ra_start ra, Location (l_group l - 1) u64_MAX)] else [])))"

subsection \<open>Spans as sets\<close>

definition in_spans :: "location \<Rightarrow> span list \<Rightarrow> bool" where
  "in_spans l spans \<longleftrightarrow> (\<exists>(from, to) \<in> set spans. from \<le> l \<and> l \<le> to)"

lemma in_spans_simps [simp]:
  "\<not> in_spans l []"
  "in_spans l ((from, to) # spans) \<longleftrightarrow> (from \<le> l \<and> l \<le> to) \<or> in_spans l spans"
  "in_spans l (xs @ ys) \<longleftrightarrow> in_spans l xs \<or> in_spans l ys"
  by (auto simp: in_spans_def)

abbreviation can_carry :: "response_absences \<Rightarrow> location \<Rightarrow> bool" where
  "can_carry ra l \<equiv> ra_start ra \<le> l \<and> l \<le> ra_end ra"

lemma in_clip [simp]: "in_spans l (clip ra spans) \<longleftrightarrow> can_carry ra l \<and> in_spans l spans"
proof (induction spans)
  case (Cons p spans)
  obtain a b where "p = (a, b)" by (cases p)
  with Cons show ?case by (auto simp: clip_def max.bounded_iff min.bounded_iff dest: order_trans)
qed (simp add: clip_def)

text \<open>The order in which a response delivers: by Location, or, descending across groups, the
  highest group first and the Object IDs of a group ascending.\<close>

definition earlier :: "bool \<Rightarrow> location \<Rightarrow> location \<Rightarrow> bool" where
  "earlier descending a b \<longleftrightarrow>
     (if descending then l_group b < l_group a \<or> (l_group a = l_group b \<and> l_object a < l_object b) else a < b)"

lemma earlier_order:
  "\<not> earlier d a a" "earlier d a b \<Longrightarrow> earlier d b c \<Longrightarrow> earlier d a c"
  "earlier d a b \<or> a = b \<or> earlier d b a"
  by (cases a; cases b; auto simp: earlier_def location_le_iff)+

lemma in_neighbours_between:
  "in_spans l (neighbours_between f u) \<longleftrightarrow> (\<exists>x. f = Some x \<and> x \<le> l) \<and> (\<exists>y. u = Some y \<and> l \<le> y)"
  by (auto simp: neighbours_between_def split: option.splits)

lemma next_prev_reach [simp]:
  "(\<exists>x. location_next a = Some x \<and> x \<le> l) \<longleftrightarrow> a < l"
  "(\<exists>y. location_prev b = Some y \<and> l \<le> y) \<longleftrightarrow> l < b"
proof -
  show "(\<exists>x. location_next a = Some x \<and> x \<le> l) \<longleftrightarrow> a < l"
    using location_next_le_iff(1) [of a _ l] location_next_None [of a] location_bounds(2) [of l]
    by (cases "location_next a") (auto simp: not_less)
  show "(\<exists>y. location_prev b = Some y \<and> l \<le> y) \<longleftrightarrow> l < b"
  proof (cases "location_prev b")
    case None
    then have "b = Location 0 0" by (simp add: location_prev_None)
    with None show ?thesis by (simp add: not_less)
  next
    case (Some y)
    then have "location_next y = Some b" by (simp add: location_prev_iff location_next_iff)
    with Some show ?thesis using location_next_le_iff(2) [of y b l] by simp
  qed
qed

declare whole_groups [simp]

lemma in_rest_of_group:
  assumes "l \<le> ra_end ra"
  shows "in_spans l (rest_of_group ra x) \<longleftrightarrow> l_group l = l_group x \<and> l_object x < l_object l"
  using assms u64_steps(1) [of "l_object x" "group_end ra (l_group x)" "l_object l"]
  by (cases l; cases x) (auto simp: rest_of_group_def group_end_def location_le_iff u64_top split: if_splits)

lemma in_head_of [simp]: "in_spans l (head_of to) \<longleftrightarrow> l_group l = l_group to \<and> l_object l < l_object to"
  using u64_steps(2) [of 0 "l_object to" "l_object l"]
  by (cases l; cases to) (auto simp: head_of_def word_gt_0)

lemma in_groups_between:
  fixes a b :: u64
  assumes "a < b"
  shows "in_spans l (if a + 1 < b then [(Location (a + 1) 0, Location (b - 1) u64_MAX)] else []) \<longleftrightarrow> a < l_group l \<and> l_group l < b"
proof -
  have "Location (a + 1) 0 \<le> l \<longleftrightarrow> a < l_group l" "l \<le> Location (b - 1) u64_MAX \<longleftrightarrow> l_group l < b"
    using u64_steps [OF assms, of "l_group l"] by simp_all
  moreover have "a + 1 < b" if "a < l_group l" "l_group l < b"
    using that u64_steps(1) [OF assms, of "l_group l"] by simp
  ultimately show ?thesis by auto
qed

text \<open>The Locations between the last entry and the next are those the response passed over.\<close>

definition after_last :: "response_absences \<Rightarrow> location \<Rightarrow> bool" where
  "after_last ra l \<longleftrightarrow> (case ra_last ra of Some x \<Rightarrow> earlier (ra_descending ra) x l | None \<Rightarrow> True)"

lemma in_between:
  assumes "after_last ra to"
  shows "in_spans l (between ra to) \<longleftrightarrow> can_carry ra l \<and> after_last ra l \<and> earlier (ra_descending ra) l to"
proof (cases "ra_descending ra")
  case False
  then show ?thesis
    by (auto simp: between_def in_neighbours_between earlier_def after_last_def split: option.splits)
next
  case True
  show ?thesis
  proof (cases "ra_last ra")
    case None
    have "in_spans l (if l_group to < l_group (ra_end ra) then [(Location (l_group to + 1) 0, ra_end ra)] else []) \<longleftrightarrow>
        l_group to < l_group l" if "l \<le> ra_end ra"
      using that u64_steps(1) [of "l_group to" "l_group (ra_end ra)" "l_group l"]
      by (auto simp: location_le_iff(1) [of l "ra_end ra"] dest: order_less_le_trans)
    with None True show ?thesis by (auto simp: between_def earlier_def after_last_def)
  next
    case (Some x)
    with True assms have x: "l_group to < l_group x \<or> l_group x = l_group to \<and> l_object x < l_object to"
      by (auto simp: after_last_def earlier_def)
    show ?thesis
    proof (cases "l_group x = l_group to")
      case True
      then have "x < l \<and> l < to \<longleftrightarrow> earlier True x l \<and> earlier True l to" by (auto simp: earlier_def location_le_iff(2))
      with \<open>ra_descending ra\<close> Some True show ?thesis
        by (simp add: between_def in_neighbours_between after_last_def)
    next
      case False
      with x have lt: "l_group to < l_group x" by simp
      from in_groups_between [OF lt, of l] lt False True Some show ?thesis
        by (auto simp: between_def in_rest_of_group earlier_def after_last_def)
    qed
  qed
qed

lemma in_on_end:
  "in_spans l (on_end closed_cleanly ra) \<longleftrightarrow> closed_cleanly \<and> ra_fetch_ok ra \<and> can_carry ra l \<and> after_last ra l"
proof (cases "ra_last ra")
  case None
  then show ?thesis by (auto simp: on_end_def after_last_def)
next
  case (Some x)
  show ?thesis
  proof (cases "ra_descending ra")
    case False
    with Some show ?thesis by (auto simp: on_end_def after_last_def earlier_def in_neighbours_between)
  next
    case True
    have "in_spans l (if l_group (ra_start ra) < l_group x then [(ra_start ra, Location (l_group x - 1) u64_MAX)] else [])
        \<longleftrightarrow> l_group l < l_group x" if "ra_start ra \<le> l"
      using that u64_steps(2) [of "l_group (ra_start ra)" "l_group x" "l_group l"]
      by (auto simp: location_le_iff(1) [of "ra_start ra" l] dest: order_le_less_trans)
    with True Some show ?thesis by (auto simp: on_end_def after_last_def earlier_def in_rest_of_group)
  qed
qed

subsection \<open>A whole response\<close>

datatype response_entry = REObject location | REMarker end_of_range_kind location

fun entry_location :: "response_entry \<Rightarrow> location" where
  "entry_location (REObject l) = l"
| "entry_location (REMarker _ l) = l"

fun on_entry :: "response_entry \<Rightarrow> response_absences \<Rightarrow> span list \<times> response_absences" where
  "on_entry (REObject l) ra = on_object l ra"
| "on_entry (REMarker kind l) ra = on_marker kind l ra"

fun on_entries :: "response_entry list \<Rightarrow> response_absences \<Rightarrow> span list \<times> response_absences" where
  "on_entries [] ra = ([], ra)"
| "on_entries (e # es) ra =
     (let (spans, ra1) = on_entry e ra; (spans', ra2) = on_entries es ra1 in (spans @ spans', ra2))"

text \<open>Everything a response reports: entries, FETCH_OK if it comes, more entries, the end.\<close>

definition response_spans ::
  "location \<Rightarrow> location \<Rightarrow> group_order \<Rightarrow> response_entry list \<Rightarrow> location option \<Rightarrow> response_entry list \<Rightarrow> bool \<Rightarrow> span list" where
  "response_spans start end order es1 accepted es2 closed_cleanly =
     (let (spans1, ra1) = on_entries es1 (absences_new start end order);
          ra2 = (case accepted of Some l \<Rightarrow> on_fetch_ok l ra1 | None \<Rightarrow> ra1);
          (spans2, ra3) = on_entries es2 ra2
      in spans1 @ spans2 @ on_end closed_cleanly ra3)"

text \<open>What a response says of a Location: the first entry that is not before it decides.\<close>

fun says_absent :: "bool \<Rightarrow> bool \<Rightarrow> response_entry list \<Rightarrow> location \<Rightarrow> bool" where
  "says_absent descending at_end [] l \<longleftrightarrow> at_end"
| "says_absent descending at_end (e # es) l \<longleftrightarrow>
     (if earlier descending (entry_location e) l then says_absent descending at_end es l
      else (case e of REObject x \<Rightarrow> l \<noteq> x | REMarker kind x \<Rightarrow> kind = NonExistent))"

abbreviation in_order :: "bool \<Rightarrow> response_entry list \<Rightarrow> bool" where
  "in_order descending \<equiv> sorted_wrt (\<lambda>a b. earlier descending (entry_location a) (entry_location b))"

lemma on_entry_frame:
  assumes "on_entry e ra = (spans, ra')"
  shows "ra_start ra' = ra_start ra" "ra_end ra' = ra_end ra" "ra_descending ra' = ra_descending ra"
    "ra_fetch_ok ra' = ra_fetch_ok ra" "ra_last ra' = Some (entry_location e)"
  using assms by (cases e; auto simp: on_object_def on_marker_def)+

lemma in_on_entry:
  assumes "on_entry e ra = (spans, ra')" "after_last ra (entry_location e)"
  shows "in_spans l spans \<longleftrightarrow> can_carry ra l \<and> after_last ra l \<and> \<not> earlier (ra_descending ra) (entry_location e) l
    \<and> (case e of REObject x \<Rightarrow> l \<noteq> x | REMarker kind x \<Rightarrow> kind = NonExistent)"
proof -
  have tri: "earlier (ra_descending ra) l x \<longleftrightarrow> \<not> earlier (ra_descending ra) x l \<and> l \<noteq> x" for x
    using earlier_order [of "ra_descending ra"] by blast
  show ?thesis
  proof (cases e)
    case (REObject x)
    with assms in_between [of ra x l] tri [of x] show ?thesis by (auto simp: on_object_def)
  next
    case (REMarker kind x)
    have "l = x \<Longrightarrow> after_last ra l" using assms(2) REMarker by simp
    with assms in_between [of ra x l] REMarker tri [of x] show ?thesis
      using earlier_order(1) [of "ra_descending ra" x] by (auto simp: on_marker_def split: if_splits)
  qed
qed

lemma on_entries_frame:
  "on_entries es ra = (spans, ra') \<Longrightarrow>
     ra_start ra' = ra_start ra \<and> ra_end ra' = ra_end ra \<and> ra_descending ra' = ra_descending ra
     \<and> ra_fetch_ok ra' = ra_fetch_ok ra \<and> ra_last ra' = (if es = [] then ra_last ra else Some (entry_location (last es)))"
proof (induction es arbitrary: ra spans)
  case (Cons e es)
  obtain spans1 ra1 spans2 where run: "on_entry e ra = (spans1, ra1)" "on_entries es ra1 = (spans2, ra')"
    using Cons.prems by (auto simp: Let_def split: prod.splits)
  from Cons.IH [OF run(2)] on_entry_frame [OF run(1)] show ?case by simp
qed simp

lemma in_on_entries:
  assumes "on_entries es ra = (spans, ra')" "in_order (ra_descending ra) es" "\<forall>e \<in> set es. after_last ra (entry_location e)"
  shows "in_spans l spans \<longleftrightarrow> can_carry ra l \<and> after_last ra l \<and> says_absent (ra_descending ra) False es l"
  using assms
proof (induction es arbitrary: ra spans)
  case (Cons e es)
  obtain spans1 ra1 spans2 where run: "on_entry e ra = (spans1, ra1)" "on_entries es ra1 = (spans2, ra')" "spans = spans1 @ spans2"
    using Cons.prems(1) by (auto simp: Let_def split: prod.splits)
  note F = on_entry_frame [OF run(1)]
  have al: "after_last ra1 k \<longleftrightarrow> earlier (ra_descending ra) (entry_location e) k" for k by (simp add: after_last_def F)
  have "in_spans l spans2 \<longleftrightarrow> can_carry ra1 l \<and> after_last ra1 l \<and> says_absent (ra_descending ra1) False es l"
    using Cons.prems(2) by (intro Cons.IH [OF run(2)]) (auto simp: F al)
  moreover have "after_last ra l" if "after_last ra1 l"
    using that [unfolded al] Cons.prems(3) earlier_order(2) [of "ra_descending ra" _ "entry_location e" l]
    by (auto simp: after_last_def split: option.splits)
  ultimately show ?case
    using in_on_entry [OF run(1)] Cons.prems(3) by (auto simp: run(3) F al)
qed simp

lemma says_absent_append:
  "in_order d (es1 @ es2) \<Longrightarrow> says_absent d c (es1 @ es2) l \<longleftrightarrow>
     (says_absent d False es1 l \<or> (\<forall>e \<in> set es1. earlier d (entry_location e) l) \<and> says_absent d c es2 l)"
proof (induction es1)
  case (Cons e es)
  then have "\<forall>x \<in> set es. earlier d (entry_location e) (entry_location x)" by simp
  with Cons show ?case using earlier_order(2) [of d "entry_location e"] by (cases es) auto
qed simp

lemma says_absent_at_end: "says_absent d c es l \<longleftrightarrow> says_absent d False es l \<or> c \<and> (\<forall>e \<in> set es. earlier d (entry_location e) l)"
  if "in_order d es"
  using says_absent_append [of d es "[]" c l] that by auto

lemma says_absent_entry: "says_absent d False es l \<Longrightarrow> \<exists>e \<in> set es. \<not> earlier d (entry_location e) l"
  by (induction es) (auto split: if_splits)

lemma after_last_entry:
  assumes "in_order d es" "es \<noteq> []"
  shows "earlier d (entry_location (last es)) l \<longleftrightarrow> (\<forall>e \<in> set es. earlier d (entry_location e) l)"
  using assms
proof (induction es)
  case (Cons e es)
  then show ?case
    using earlier_order(2) [of d "entry_location e" "entry_location (last es)" l] last_in_set [of es] by (cases "es = []") auto
qed simp

subsection \<open>Properties\<close>



end
