(* ===== verification/Track_Store.thy ===== *)
theory Track_Store
  imports Track_Cache Unified_Object
begin

text \<open>
  What a track keeps of its Objects (\<open>apps/relay/src/server/track.rs\<close>): the cache, the Largest
  Location, and what an arriving Object says does not exist. The theory defines what it means for the
  cache to be true of the track: the Objects it holds are the track's, and what it takes for absent does not exist. Live
  arrivals and fetched Objects keep it true, and the deliveries that read it rely on that.
\<close>

record 'c track_store =
  ts_cache :: "'c track_cache"
  ts_largest_location :: location
  ts_has_objects :: bool

definition track_store_new :: "u64 \<Rightarrow> 'c \<Rightarrow> 'c track_store" where
  "track_store_new relay_track_id empty_cache =
     \<lparr>ts_cache = track_cache_new relay_track_id empty_cache, ts_largest_location = Location 0 0, ts_has_objects = False\<rparr>"

definition largest_object :: "'c track_store \<Rightarrow> location option" where
  "largest_object ts = (if ts_has_objects ts then Some (ts_largest_location ts) else None)"

definition record_arrival :: "moq_object \<Rightarrow> 'c track_store \<Rightarrow> 'c track_store" where
  "record_arrival ob ts =
     ts\<lparr>ts_largest_location := (if ob_location ob > ts_largest_location ts then ob_location ob else ts_largest_location ts),
        ts_has_objects := True\<rparr>"

text \<open>An Object goes into the cache unless it has a status.\<close>

definition cache_object ::
  "('c \<Rightarrow> cache_key \<Rightarrow> fetch_object_payload list option) \<Rightarrow> ('c \<Rightarrow> cache_key \<Rightarrow> fetch_object_payload list \<Rightarrow> 'c) \<Rightarrow>
   moq_object \<Rightarrow> 'c track_store \<Rightarrow> 'c track_store" where
  "cache_object mget mput ob ts = (case try_into_fetch ob of
       Inr p \<Rightarrow> ts\<lparr>ts_cache := add_object mget mput (ts_cache ts) p\<rparr>
     | Inl _ \<Rightarrow> ts)"

definition cache_fetched_object ::
  "('c \<Rightarrow> cache_key \<Rightarrow> fetch_object_payload list option) \<Rightarrow> ('c \<Rightarrow> cache_key \<Rightarrow> fetch_object_payload list \<Rightarrow> 'c) \<Rightarrow>
   moq_object \<Rightarrow> 'c track_store \<Rightarrow> 'c track_store" where
  "cache_fetched_object mget mput ob ts = record_arrival ob (cache_object mget mput ob ts)"

definition group_ended_after :: "location \<Rightarrow> 'c track_cache \<Rightarrow> 'c track_cache" where
  "group_ended_after l tc =
     (if l_object l < u64_MAX
      then mark_absent tc (Location (l_group l) (l_object l + 1)) (Location (l_group l) u64_MAX) else tc)"

fun note_property :: "location \<Rightarrow> object_property \<Rightarrow> 'c track_cache \<Rightarrow> 'c track_cache" where
  "note_property l (OP_PriorObjectIdGap gap) tc =
     (if gap > 0 \<and> gap \<le> l_object l
      then mark_absent tc (Location (l_group l) (l_object l - gap)) (Location (l_group l) (l_object l - 1)) else tc)"
| "note_property l (OP_PriorGroupIdGap gap) tc =
     (if gap > 0 \<and> gap \<le> l_group l
      then mark_absent tc (Location (l_group l - gap) 0) (Location (l_group l - 1) u64_MAX) else tc)"
| "note_property l _ tc = tc"

definition note_status :: "moq_object \<Rightarrow> 'c track_cache \<Rightarrow> 'c track_cache" where
  "note_status ob tc = (case ob_status ob of
       OS_EndOfGroup \<Rightarrow> mark_absent tc (ob_location ob) (Location (l_group (ob_location ob)) u64_MAX)
     | OS_EndOfTrack \<Rightarrow> mark_absent tc (ob_location ob) (Location u64_MAX u64_MAX)
     | OS_Normal \<Rightarrow> tc)"

definition note_absent :: "moq_object \<Rightarrow> bool \<Rightarrow> 'c track_cache \<Rightarrow> 'c track_cache" where
  "note_absent ob ends_its_group tc =
     (let tc1 = note_status ob tc;
          tc2 = (if ends_its_group then group_ended_after (ob_location ob) tc1 else tc1)
      in fold (note_property (ob_location ob)) (case ob_properties ob of Some ps \<Rightarrow> ps | None \<Rightarrow> []) tc2)"

text \<open>What a live Object does to the store.\<close>

definition store_live ::
  "('c \<Rightarrow> cache_key \<Rightarrow> fetch_object_payload list option) \<Rightarrow> ('c \<Rightarrow> cache_key \<Rightarrow> fetch_object_payload list \<Rightarrow> 'c) \<Rightarrow>
   moq_object \<Rightarrow> bool \<Rightarrow> 'c track_store \<Rightarrow> 'c track_store" where
  "store_live mget mput ob ends_its_group ts =
     (let ts1 = cache_object mget mput ob ts
      in record_arrival ob (ts1\<lparr>ts_cache := note_absent ob ends_its_group (ts_cache ts1)\<rparr>))"

subsection \<open>The cache is true of the track\<close>

type_synonym track_objects = "location \<rightharpoonup> fetch_object_payload"

text \<open>An Object of a track stands at its own Location, can be written, and a datagram's
  subgroup is its Object ID, as a reader of fetch streams restores it.\<close>

definition track_wf :: "track_objects \<Rightarrow> bool" where
  "track_wf W \<longleftrightarrow> (\<forall>l p. W l = Some p \<longrightarrow> Location (fo_group_id p) (fo_object_id p) = l \<and> fetch_payload_wf p
     \<and> (fo_forwarding_preference p = FP_Datagram \<longrightarrow> fo_subgroup_id p = fo_object_id p))"

definition cache_true ::
  "('c \<Rightarrow> cache_key \<Rightarrow> fetch_object_payload list option) \<Rightarrow> track_objects \<Rightarrow> 'c track_cache \<Rightarrow> bool" where
  "cache_true mget W tc \<longleftrightarrow> store_inv mget tc (ran W) (- dom W)"

lemma cache_true_new: "(\<And>k. mget c k = None) \<Longrightarrow> cache_true mget W (track_cache_new n c)"
  by (simp add: cache_true_def store_inv_def track_cache_new_def get_group_def ranges_inv_def absent_set_def)

lemma cache_true_mark_absent:
  assumes "cache_true mget W tc" "\<And>l. lo \<le> l \<Longrightarrow> l \<le> hi \<Longrightarrow> W l = None"
  shows "cache_true mget W (mark_absent tc lo hi)"
proof (cases "lo \<le> hi")
  case True
  have inv: "ranges_inv (tc_absent tc)" "absent_set (tc_absent tc) \<subseteq> - dom W"
    using assms(1) by (auto simp: cache_true_def store_inv_def)
  have "{lo..hi} \<subseteq> - dom W" using assms(2) by (auto simp: domIff)
  with absent_insert_refines(1,3) [OF inv(1) True] inv(2) assms(1) show ?thesis
    by (simp add: cache_true_def store_inv_def mark_absent_def get_group_def) blast
qed (use assms(1) in \<open>simp add: mark_absent_def\<close>)

lemma cache_true_add:
  assumes "moka_law mget mput" "cache_true mget W tc" "W l = Some p"
  shows "cache_true mget W (add_object mget mput tc p)"
proof -
  have "insert p (ran W) = ran W" using assms(3) by (auto simp: ran_def)
  with store_inv_add [OF assms(1) assms(2) [unfolded cache_true_def], of p] show ?thesis by (simp add: cache_true_def)
qed

lemma cache_true_claims:
  "cache_true mget W tc \<Longrightarrow> cache_true mget W (snd (claim_fill tc a b))"
  "cache_true mget W tc \<Longrightarrow> cache_true mget W (drop_claim tc busy)"
  by (auto simp: cache_true_def store_inv_def get_group_def claim_fill_def drop_claim_def Let_def split: option.splits)

lemma cache_true_evict:
  assumes "cache_true mget W tc" "\<And>k. mget c k = None \<or> mget c k = mget (tc_cache tc) k"
  shows "cache_true mget W (tc\<lparr>tc_cache := c\<rparr>)"
  using assms unfolding cache_true_def store_inv_def get_group_def by simp (metis option.distinct(1))

text \<open>A fetched Object that passes through the unified form is cached as it came.\<close>

lemma try_into_fetch_of_fetched:
  assumes "try_from_fetch p a = Inr ob" "fo_forwarding_preference p = FP_Datagram \<longrightarrow> fo_subgroup_id p = fo_object_id p"
  shows "try_into_fetch ob = Inr p"
  using assms by (cases p; cases "fo_forwarding_preference p")
    (auto simp: try_from_fetch_def try_into_fetch_def rbind_def ok_or_def split: option.splits if_splits)

text \<open>A live Object is true of a track: it is the track's, and what its status, its gaps and the end
  of its group rule out does not exist.\<close>

definition gap_true :: "track_objects \<Rightarrow> location \<Rightarrow> object_property \<Rightarrow> bool" where
  "gap_true W l pr \<longleftrightarrow> (case pr of
       OP_PriorObjectIdGap gap \<Rightarrow> gap \<le> l_object l \<longrightarrow>
         (\<forall>i. l_object l - gap \<le> i \<and> i < l_object l \<longrightarrow> W (Location (l_group l) i) = None)
     | OP_PriorGroupIdGap gap \<Rightarrow> gap \<le> l_group l \<longrightarrow>
         (\<forall>m. l_group l - gap \<le> l_group m \<and> l_group m < l_group l \<longrightarrow> W m = None)
     | _ \<Rightarrow> True)"

definition object_true :: "track_objects \<Rightarrow> moq_object \<Rightarrow> bool \<Rightarrow> bool" where
  "object_true W ob ends_its_group \<longleftrightarrow> (\<forall>p. try_into_fetch ob = Inr p \<longrightarrow> W (ob_location ob) = Some p)
     \<and> (ob_status ob = OS_EndOfGroup \<longrightarrow> (\<forall>m. ob_location ob \<le> m \<and> l_group m = l_group (ob_location ob) \<longrightarrow> W m = None))
     \<and> (ob_status ob = OS_EndOfTrack \<longrightarrow> (\<forall>m. ob_location ob \<le> m \<longrightarrow> W m = None))
     \<and> (ends_its_group \<longrightarrow> (\<forall>m. ob_location ob < m \<and> l_group m = l_group (ob_location ob) \<longrightarrow> W m = None))
     \<and> (\<forall>ps pr. ob_properties ob = Some ps \<and> pr \<in> set ps \<longrightarrow> gap_true W (ob_location ob) pr)"

lemma within_group: "Location g a \<le> m \<Longrightarrow> m \<le> Location g b \<Longrightarrow> \<exists>i. m = Location g i \<and> a \<le> i \<and> i \<le> b"
  by (cases m) auto

lemma u64_pred: "0 < b \<Longrightarrow> i \<le> b - 1 \<longleftrightarrow> i < b" for i b :: u64
  by (metis u64_steps(2))

lemma group_ended_true:
  assumes "cache_true mget W tc" "\<forall>m. l < m \<and> l_group m = l_group l \<longrightarrow> W m = None"
  shows "cache_true mget W (group_ended_after l tc)"
proof -
  have "W m = None" if "l_object l < u64_MAX" "Location (l_group l) (l_object l + 1) \<le> m" "m \<le> Location (l_group l) u64_MAX" for m
  proof -
    from within_group [OF that(2,3)] obtain i where m: "m = Location (l_group l) i" "l_object l + 1 \<le> i" by blast
    with u64_steps(1) [OF that(1), of i] have "l < m" by (cases l) simp
    with assms(2) m(1) show ?thesis by simp
  qed
  with assms(1) show ?thesis by (auto simp: group_ended_after_def intro: cache_true_mark_absent)
qed

lemma note_property_true:
  assumes "cache_true mget W tc" "gap_true W l pr"
  shows "cache_true mget W (note_property l pr tc)"
proof (cases pr)
  case (OP_PriorObjectIdGap gap)
  have "W m = None" if "0 < gap" "gap \<le> l_object l" "Location (l_group l) (l_object l - gap) \<le> m" "m \<le> Location (l_group l) (l_object l - 1)" for m
  proof -
    have "0 < l_object l" using that(1,2) by simp
    with within_group [OF that(3,4)] assms(2) that(2) u64_pred [of "l_object l"] show ?thesis by (auto simp: OP_PriorObjectIdGap gap_true_def)
  qed
  with assms(1) show ?thesis by (auto simp: OP_PriorObjectIdGap intro: cache_true_mark_absent)
next
  case (OP_PriorGroupIdGap gap)
  have "W m = None" if "0 < gap" "gap \<le> l_group l" "l_group l - gap \<le> l_group m" "l_group m \<le> l_group l - 1" for m
  proof -
    have "0 < l_group l" using that(1,2) by simp
    with assms(2) that u64_pred [of "l_group l" "l_group m"] show ?thesis by (auto simp: OP_PriorGroupIdGap gap_true_def)
  qed
  with assms(1) show ?thesis by (auto simp: OP_PriorGroupIdGap whole_groups intro: cache_true_mark_absent)
qed (use assms in simp_all)

lemma note_properties_true:
  "cache_true mget W tc \<Longrightarrow> \<forall>pr \<in> set ps. gap_true W l pr \<Longrightarrow> cache_true mget W (fold (note_property l) ps tc)"
  by (induction ps arbitrary: tc) (simp_all add: note_property_true)

lemma note_absent_true:
  assumes "cache_true mget W tc" "object_true W ob ends_its_group"
  shows "cache_true mget W (note_absent ob ends_its_group tc)"
proof -
  have "W m = None" if "ob_status ob = OS_EndOfGroup" "ob_location ob \<le> m" "m \<le> Location (l_group (ob_location ob)) u64_MAX" for m
  proof -
    have "l_group m = l_group (ob_location ob)"
      using location_group_mono [OF that(2)] that(3) [unfolded whole_groups] by (rule order_antisym [rotated])
    with assms(2) that show ?thesis by (auto simp: object_true_def)
  qed
  moreover have "W m = None" if "ob_status ob = OS_EndOfTrack" "ob_location ob \<le> m" for m
    using assms(2) that by (auto simp: object_true_def)
  ultimately have "cache_true mget W (note_status ob tc)"
    using assms(1) by (auto simp: note_status_def split: object_status.splits intro!: cache_true_mark_absent)
  with assms(2) show ?thesis
    by (auto simp: note_absent_def Let_def object_true_def intro!: note_properties_true group_ended_true split: option.splits)
qed

lemma store_live_true:
  assumes "moka_law mget mput" "cache_true mget W (ts_cache ts)" "object_true W ob ends_its_group"
  shows "cache_true mget W (ts_cache (store_live mget mput ob ends_its_group ts))"
proof -
  have "cache_true mget W (ts_cache (cache_object mget mput ob ts))"
    using assms cache_true_add [OF assms(1,2)] by (auto simp: cache_object_def object_true_def split: sum.splits)
  with note_absent_true [OF _ assms(3)] show ?thesis by (simp add: store_live_def record_arrival_def Let_def)
qed

end
