(* ===== verification/Fetch_Delivery.thy ===== *)
theory Fetch_Delivery
  imports Fetch_Range Track_Store Combined_Filter Send_Streams Control_Stream
begin

text \<open>
  Serving a FETCH (\<open>serve_fetch_stream\<close> of
  \<open>apps/relay/src/server/message_handlers/fetch_handler.rs\<close>): the groups of the range in the
  requested order, each from the cache when the cache accounts for all of it, the gaps asked for
  upstream, and what could not be had marked unknown. The theory shows that the writer never fails and that
  what the answer says is true: every Object on the stream is the track's own, and no Object
  that exists and passes the filter is ever passed over.

  What surrounds the loop is its environment: what each upstream FETCH brings in, what others do to
  the track, when the delivery is told to stop, whether the transport opens and takes
  the stream. Others get at the track whenever the stop signal is looked at or an upstream event is awaited; from
  one such point to the next a delivery runs undisturbed. What \<open>handle_malformed_upstream_fetch\<close> does to the
  publisher, and the object log, are left out.
\<close>

datatype fetch_stop = Running | StopCancelled | StopMalformed | StopUpdateFailed

text \<open>\<open>UpstreamFetchEvent\<close>, and the other ways the wait for one ends.\<close>

datatype upstream_event =
    UE_Accepted location
  | UE_Object fetch_object_payload
  | UE_EndOfRange end_of_range_kind location
  | UE_MalformedTrack
  | UE_StreamClosed
  | UE_Error
  | UE_TimedOut
  | UE_Stopped fetch_stop

record 'c fetch_env =
  fe_mget :: "'c \<Rightarrow> cache_key \<Rightarrow> fetch_object_payload list option"
  fe_mput :: "'c \<Rightarrow> cache_key \<Rightarrow> fetch_object_payload list \<Rightarrow> 'c"
  fe_ask :: "nat \<Rightarrow> location_filter \<Rightarrow> group_order \<Rightarrow> upstream_event list option"
  fe_others :: "nat \<Rightarrow> 'c track_store \<Rightarrow> 'c track_store"
  fe_cancel :: "nat \<Rightarrow> fetch_stop"
  fe_opens :: bool
  fe_writes :: "nat \<Rightarrow> bool"
  fe_max_gaps :: nat

record fetch_delivery =
  fd_start :: location
  fd_end :: location
  fd_group_order :: group_order
  fd_filter :: combined_filter

record 'c delivery_state =
  dv_store :: "'c track_store"
  dv_pending :: "upstream_event list option"
  dv_gaps :: nat
  dv_waited :: "u64 option"
  dv_tick :: nat
  dv_stop :: fetch_stop
  dv_opened :: bool
  dv_entries :: "fetch_object list"
  dv_bytes :: bytes
  dv_prev_ctx :: "fetch_object_context option"

abbreviation dv_cache :: "'c delivery_state \<Rightarrow> 'c track_cache" where
  "dv_cache st \<equiv> ts_cache (dv_store st)"

definition set_cache :: "'c track_cache \<Rightarrow> 'c delivery_state \<Rightarrow> 'c delivery_state" where
  "set_cache tc st = st\<lparr>dv_store := (dv_store st)\<lparr>ts_cache := tc\<rparr>\<rparr>"

abbreviation fd_descending :: "fetch_delivery \<Rightarrow> bool" where
  "fd_descending fd \<equiv> fd_group_order fd = GO_Descending"

definition filter_fields :: "fetch_object_payload \<Rightarrow> object_fields" where
  "filter_fields ob =
     \<lparr>of_subgroup_id = (if fo_forwarding_preference ob \<noteq> FP_Datagram then Some (fo_subgroup_id ob) else None),
      of_object_id = fo_object_id ob, of_publisher_priority = fo_publisher_priority ob, of_properties = fo_properties ob\<rparr>"

abbreviation wants :: "fetch_delivery \<Rightarrow> fetch_object_payload \<Rightarrow> bool" where
  "wants fd ob \<equiv> cf_matches (fd_filter fd) (filter_fields ob)"

text \<open>A point where others run, and what the stop signal says there.\<close>

definition meanwhile :: "'c fetch_env \<Rightarrow> 'c delivery_state \<Rightarrow> 'c delivery_state" where
  "meanwhile env st = st\<lparr>dv_store := fe_others env (dv_tick st) (dv_store st), dv_tick := Suc (dv_tick st)\<rparr>"

abbreviation cancelled :: "'c fetch_env \<Rightarrow> 'c delivery_state \<Rightarrow> fetch_stop" where
  "cancelled env st \<equiv> fe_cancel env (dv_tick st)"

definition write_entry ::
  "'c fetch_env \<Rightarrow> fetch_delivery \<Rightarrow> fetch_object \<Rightarrow> 'c delivery_state \<Rightarrow> termination_code + 'c delivery_state" where
  "write_entry env fd entry st =
     (if \<not> dv_opened st \<and> \<not> fe_opens env then Inl TC_InternalError
      else case fetch_object_serialize entry (dv_prev_ctx st) (fd_group_order fd) of
          Inl _ \<Rightarrow> Inl TC_InternalError
        | Inr serialized \<Rightarrow>
            if \<not> fe_writes env (length (dv_entries st)) then Inl TC_InternalError
            else Inr (st\<lparr>dv_opened := True, dv_entries := dv_entries st @ [entry],
              dv_bytes := dv_bytes st @ serialized, dv_prev_ctx := Some (next_context entry (dv_prev_ctx st))\<rparr>))"

text \<open>A cache hit: the Objects of one group.\<close>

fun write_cached ::
  "'c fetch_env \<Rightarrow> fetch_delivery \<Rightarrow> fetch_object_payload list \<Rightarrow> 'c delivery_state \<Rightarrow> termination_code + 'c delivery_state" where
  "write_cached env fd [] st = Inr st"
| "write_cached env fd (ob # obs) st =
     (if cancelled env st \<noteq> Running then Inr ((meanwhile env st)\<lparr>dv_stop := cancelled env st\<rparr>)
      else if \<not> wants fd ob then write_cached env fd obs (meanwhile env st)
      else rbind (write_entry env fd (FetchedObject ob) (meanwhile env st)) (write_cached env fd obs))"

definition next_after :: "fetch_delivery \<Rightarrow> u64 \<Rightarrow> u64 \<Rightarrow> u64 option" where
  "next_after fd lo hi =
     (if fd_descending fd
      then (if l_group (fd_start fd) < lo then Some (lo - 1) else None)
      else (if hi < l_group (fd_end fd) then Some (hi + 1) else None))"

definition unfilled :: "fetch_delivery \<Rightarrow> u64 \<Rightarrow> u64 \<Rightarrow> fetch_object" where
  "unfilled fd first last_group =
     unknown_up_to (last_delivered first last_group (fd_start fd) (fd_end fd) (fd_descending fd))"

definition group_cached :: "'c fetch_env \<Rightarrow> fetch_delivery \<Rightarrow> u64 \<Rightarrow> 'c track_cache \<Rightarrow> fetch_object_payload list option" where
  "group_cached env fd g tc =
     (let (lo, hi) = objects_wanted g (fd_start fd) (fd_end fd) in objects_if_complete (fe_mget env) tc g lo hi)"

text \<open>The gap of groups the cache does not account for, in the direction of delivery.\<close>

function gap_down :: "'c fetch_env \<Rightarrow> fetch_delivery \<Rightarrow> 'c track_cache \<Rightarrow> u64 \<Rightarrow> u64" where
  "gap_down env fd tc g =
     (if l_group (fd_start fd) < g \<and> group_cached env fd (g - 1) tc = None then gap_down env fd tc (g - 1) else g)"
  by auto
termination
  by (relation "measure (\<lambda>(_, _, _, g). unat g)") (auto simp: unat_sub word_less_nat_alt word_le_nat_alt)

lemma unat_plus_1: "g < h \<Longrightarrow> unat (g + 1) = Suc (unat g)" for g h :: u64
proof -
  assume "g < h"
  then have "Suc (unat g) < 18446744073709551616"
    using unat_u64_less [of h] unfolding word_less_nat_alt by linarith
  then show ?thesis by (simp add: unat_word_ariths)
qed

lemma unat_minus_1: "h < g \<Longrightarrow> Suc (unat (g - 1)) = unat g" for g h :: u64
  by (auto simp: unat_sub word_less_nat_alt word_le_nat_alt)

function gap_up :: "'c fetch_env \<Rightarrow> fetch_delivery \<Rightarrow> 'c track_cache \<Rightarrow> u64 \<Rightarrow> u64" where
  "gap_up env fd tc g =
     (if g < l_group (fd_end fd) \<and> group_cached env fd (g + 1) tc = None then gap_up env fd tc (g + 1) else g)"
  by auto
termination
  by (relation "measure (\<lambda>(_, fd, _, g). unat (l_group (fd_end fd)) - unat g)")
     (auto simp: unat_plus_1 word_less_nat_alt)

declare gap_down.simps [simp del] gap_up.simps [simp del]

text \<open>Reading an upstream response. The end of the list is the channel closing.\<close>

definition mark_spans :: "span list \<Rightarrow> 'c delivery_state \<Rightarrow> 'c delivery_state" where
  "mark_spans spans st = set_cache (fold (\<lambda>(lo, hi) tc. mark_absent tc lo hi) spans (dv_cache st)) st"

definition cache_upstream :: "'c fetch_env \<Rightarrow> fetch_object_payload \<Rightarrow> 'c delivery_state \<Rightarrow> 'c delivery_state" where
  "cache_upstream env ob st = (case try_from_fetch ob (tc_relay_track_id (ts_cache (dv_store st))) of
       Inr fetched \<Rightarrow> st\<lparr>dv_store := cache_fetched_object (fe_mget env) (fe_mput env) fetched (dv_store st)\<rparr>
     | Inl _ \<Rightarrow> st)"

fun read_fill ::
  "'c fetch_env \<Rightarrow> fetch_delivery \<Rightarrow> upstream_event list \<Rightarrow> response_absences \<Rightarrow> 'c delivery_state \<Rightarrow>
   termination_code + bool \<times> response_absences \<times> 'c delivery_state" where
  "read_fill env fd [] ra st = Inr (False, ra, meanwhile env st)"
| "read_fill env fd (ev # evs) ra st0 =
     (let st = meanwhile env st0 in
      case ev of
        UE_Accepted l \<Rightarrow> read_fill env fd evs (on_fetch_ok l ra) st
      | UE_EndOfRange kind l \<Rightarrow>
          (let (spans, ra1) = on_marker kind l ra in
           rbind (write_entry env fd (EndOfRange kind (l_group l) (l_object l)) (mark_spans spans st))
             (read_fill env fd evs ra1))
      | UE_Object ob \<Rightarrow>
          (let st1 = cache_upstream env ob st;
               (spans, ra1) = on_object (Location (fo_group_id ob) (fo_object_id ob)) ra;
               st2 = mark_spans spans st1
           in if \<not> wants fd ob then read_fill env fd evs ra1 st2
              else rbind (write_entry env fd (FetchedObject ob) st2) (read_fill env fd evs ra1))
      | UE_MalformedTrack \<Rightarrow> Inr (False, ra, st\<lparr>dv_stop := StopMalformed\<rparr>)
      | UE_StreamClosed \<Rightarrow> Inr (True, ra, st)
      | UE_Error \<Rightarrow> Inr (False, ra, st)
      | UE_TimedOut \<Rightarrow> Inr (False, ra, st)
      | UE_Stopped reason \<Rightarrow> Inr (False, ra, st\<lparr>dv_stop := reason\<rparr>))"

definition fill_end ::
  "'c fetch_env \<Rightarrow> fetch_delivery \<Rightarrow> u64 \<Rightarrow> u64 \<Rightarrow> bool \<Rightarrow> response_absences \<Rightarrow> 'c delivery_state \<Rightarrow>
   termination_code + u64 option \<times> 'c delivery_state" where
  "fill_end env fd gap_start gap_end closed_cleanly ra st =
     (let st1 = (if cancelled env st \<noteq> Running then st\<lparr>dv_stop := cancelled env st\<rparr> else st);
          delivered_all = (closed_cleanly \<and> ra_fetch_ok ra
            \<or> ra_last ra = Some (last_delivered gap_start gap_end (fd_start fd) (fd_end fd) (fd_descending fd)))
      in rbind (if dv_stop st1 = Running \<and> \<not> delivered_all
                then write_entry env fd (unfilled fd gap_start gap_end) st1 else Inr st1) (\<lambda>st2.
         let st3 = (if dv_stop st2 \<noteq> StopMalformed then mark_spans (on_end closed_cleanly ra) st2 else st2)
         in Inr (if dv_stop st3 \<noteq> Running then None else next_after fd gap_start gap_end, st3)))"

text \<open>One gap: what the delivery already has on its way, or a FETCH of the gap, or a marker.\<close>

definition mark_gap ::
  "'c fetch_env \<Rightarrow> fetch_delivery \<Rightarrow> u64 \<Rightarrow> u64 \<Rightarrow> 'c delivery_state \<Rightarrow> termination_code + u64 option \<times> 'c delivery_state" where
  "mark_gap env fd gap_start gap_end st =
     rbind (write_entry env fd (unfilled fd gap_start gap_end) st) (\<lambda>st'. Inr (next_after fd gap_start gap_end, st'))"

definition fill_gap ::
  "'c fetch_env \<Rightarrow> fetch_delivery \<Rightarrow> u64 \<Rightarrow> u64 \<Rightarrow> 'c delivery_state \<Rightarrow> termination_code + u64 option \<times> 'c delivery_state" where
  "fill_gap env fd gap_start gap_end st0 =
     (if dv_gaps st0 \<ge> fe_max_gaps env then mark_gap env fd gap_start gap_end st0
      else let st = st0\<lparr>dv_gaps := Suc (dv_gaps st0)\<rparr> in
        case dv_pending st of
          Some evs \<Rightarrow>
            rbind (read_fill env fd evs (absences_new (fd_start fd) (fd_end fd) (fd_group_order fd)) (st\<lparr>dv_pending := None\<rparr>))
              (\<lambda>(closed_cleanly, ra, st'). fill_end env fd (l_group (fd_start fd)) (l_group (fd_end fd)) closed_cleanly ra st')
        | None \<Rightarrow>
            (let (start, end) = requested_part gap_start gap_end (fd_start fd) (fd_end fd) in
             case fe_ask env (dv_tick st) (range_location_filter start end) (fd_group_order fd) of
               Some evs \<Rightarrow>
                 rbind (read_fill env fd evs (absences_new start end (fd_group_order fd)) st)
                   (\<lambda>(closed_cleanly, ra, st'). fill_end env fd gap_start gap_end closed_cleanly ra st')
             | None \<Rightarrow> mark_gap env fd gap_start gap_end st))"

definition gap_from :: "'c fetch_env \<Rightarrow> fetch_delivery \<Rightarrow> u64 \<Rightarrow> 'c track_cache \<Rightarrow> u64 \<times> u64" where
  "gap_from env fd g tc = (if fd_descending fd then (gap_down env fd tc g, g) else (g, gap_up env fd tc g))"

text \<open>The claim of the gap is dropped when the iteration ends.\<close>

definition serve_gap ::
  "'c fetch_env \<Rightarrow> fetch_delivery \<Rightarrow> u64 \<Rightarrow> 'c delivery_state \<Rightarrow> termination_code + u64 option \<times> 'c delivery_state" where
  "serve_gap env fd g st =
     (let (gap_start, gap_end) = gap_from env fd g (dv_cache st) in
      if dv_pending st \<noteq> None then fill_gap env fd gap_start gap_end st
      else case claim_fill (dv_cache st) gap_start gap_end of
          (Inr claim, tc) \<Rightarrow>
            rbind (fill_gap env fd gap_start gap_end (set_cache tc st)) (\<lambda>(g', st').
              Inr (g', set_cache (drop_claim (dv_cache st') claim) st'))
        | (Inl in_flight, _) \<Rightarrow>
            if dv_waited st \<noteq> Some g then Inr (Some g, (meanwhile env st)\<lparr>dv_waited := Some g\<rparr>)
            else fill_gap env fd gap_start gap_end st)"

definition serve_group ::
  "'c fetch_env \<Rightarrow> fetch_delivery \<Rightarrow> u64 \<Rightarrow> 'c delivery_state \<Rightarrow> termination_code + u64 option \<times> 'c delivery_state" where
  "serve_group env fd g st0 =
     (let st = meanwhile env st0 in
      if cancelled env st0 \<noteq> Running then Inr (None, st\<lparr>dv_stop := cancelled env st0\<rparr>)
      else case (if dv_pending st \<noteq> None then None else group_cached env fd g (dv_cache st)) of
          Some objects \<Rightarrow> rbind (write_cached env fd objects st) (\<lambda>st'. Inr (next_after fd g g, st'))
        | None \<Rightarrow> serve_gap env fd g st)"


subsection \<open>Progress\<close>

lemma gap_down_bounds: "gap_down env fd tc g \<le> g"
proof (induction env fd tc g rule: gap_down.induct)
  case (1 env fd tc g)
  have "g - 1 \<le> g" if "l_group (fd_start fd) < g" using unat_minus_1 [OF that] by (simp add: word_le_nat_alt)
  with 1 show ?case by (subst gap_down.simps) (auto intro: order_trans)
qed

lemma gap_up_bounds: "g \<le> gap_up env fd tc g"
proof (induction env fd tc g rule: gap_up.induct)
  case (1 env fd tc g)
  have "g \<le> g + 1" if "g < l_group (fd_end fd)" using unat_plus_1 [OF that] by (simp add: word_le_nat_alt)
  with 1 show ?case by (subst gap_up.simps) (auto intro: order_trans)
qed

lemma gap_from_bounds: "gap_from env fd g tc = (a, b) \<Longrightarrow> a \<le> g \<and> g \<le> b"
  by (auto simp: gap_from_def gap_down_bounds gap_up_bounds split: if_splits)

definition groups_left :: "fetch_delivery \<Rightarrow> u64 \<Rightarrow> nat" where
  "groups_left fd g = (if fd_descending fd then unat g - unat (l_group (fd_start fd)) else unat (l_group (fd_end fd)) - unat g)"

lemma next_after_less:
  assumes "next_after fd a b = Some g'" "a \<le> g" "g \<le> b"
  shows "groups_left fd g' < groups_left fd g"
  using assms unat_minus_1 [of "l_group (fd_start fd)" a] unat_plus_1 [of b "l_group (fd_end fd)"]
  by (auto simp: next_after_def groups_left_def word_le_nat_alt word_less_nat_alt split: if_splits)

lemma next_after_all: "next_after fd (l_group (fd_start fd)) (l_group (fd_end fd)) = None"
  by (simp add: next_after_def)

lemma fill_end_next: "fill_end env fd a b c ra st = Inr (Some g', st') \<Longrightarrow> next_after fd a b = Some g'"
  by (auto simp: fill_end_def rbind_Inr_iff Let_def split: if_splits)

lemma fill_gap_next: "fill_gap env fd a b st = Inr (Some g', st') \<Longrightarrow> next_after fd a b = Some g'"
  by (auto simp: fill_gap_def mark_gap_def rbind_Inr_iff Let_def next_after_all dest!: fill_end_next
      split: if_splits option.splits prod.splits)

text \<open>The measure of the loop: a group is left behind for good, or waited for once.\<close>

definition steps_left :: "fetch_delivery \<Rightarrow> u64 \<Rightarrow> 'c delivery_state \<Rightarrow> nat" where
  "steps_left fd g st = 2 * groups_left fd g + (if dv_waited st = Some g then 0 else 1)"

lemma write_entry_waited: "write_entry env fd e st = Inr st' \<Longrightarrow> dv_waited st' = dv_waited st"
  by (auto simp: write_entry_def split: if_splits sum.splits)

lemma serve_group_progress:
  assumes "serve_group env fd g st = Inr (Some g', st')"
  shows "steps_left fd g' st' < steps_left fd g st"
proof -
  have le: "steps_left fd g' st' < steps_left fd g st" if "groups_left fd g' < groups_left fd g"
    using that by (auto simp: steps_left_def)
  have gap: "\<exists>a b. next_after fd a b = Some g' \<and> a \<le> g \<and> g \<le> b \<or> g' = g \<and> dv_waited (meanwhile env st) \<noteq> Some g \<and> dv_waited st' = Some g"
    if *: "serve_gap env fd g (meanwhile env st) = Inr (Some g', st')"
    using that gap_from_bounds [of env fd g "dv_cache (meanwhile env st)"]
    by (auto simp: serve_gap_def rbind_Inr_iff Let_def dest!: fill_gap_next split: if_splits prod.splits sum.splits)
  consider "\<exists>a b. next_after fd a b = Some g' \<and> a \<le> g \<and> g \<le> b"
    | "g' = g" "dv_waited st \<noteq> Some g" "dv_waited st' = Some g"
    using assms gap by (auto simp: serve_group_def Let_def rbind_Inr_iff meanwhile_def split: if_splits option.splits)
  then show ?thesis
  proof cases
    case 1
    then show ?thesis using next_after_less le by blast
  qed (simp add: steps_left_def)
qed

function serve_loop ::
  "'c fetch_env \<Rightarrow> fetch_delivery \<Rightarrow> u64 \<Rightarrow> 'c delivery_state \<Rightarrow> termination_code + 'c delivery_state" where
  "serve_loop env fd g st = (case serve_group env fd g st of
       Inl e \<Rightarrow> Inl e
     | Inr (None, st') \<Rightarrow> Inr st'
     | Inr (Some g', st') \<Rightarrow> serve_loop env fd g' st')"
  by auto
termination
  by (relation "measure (\<lambda>(_, fd, g, st). steps_left fd g st)") (auto dest: serve_group_progress)

declare serve_loop.simps [simp del]

text \<open>How the stream ends, if one was opened.\<close>

definition close_delivery :: "'c fetch_env \<Rightarrow> 'c delivery_state \<Rightarrow> stream_end option" where
  "close_delivery env st =
     (if dv_stop st \<noteq> Running then
        (if dv_opened st \<or> dv_stop st = StopMalformed \<and> fe_opens env
         then Some (case dv_stop st of
             StopUpdateFailed \<Rightarrow> ResetEnd (stream_reset_code_to_wire SRC_Cancelled)
           | StopMalformed \<Rightarrow> ResetEnd (stream_reset_code_to_wire SRC_MalformedTrack)
           | _ \<Rightarrow> FinishedEnd)
         else None)
      else if dv_opened st \<or> fe_opens env then Some FinishedEnd else None)"

definition delivery_start :: "'c track_store \<Rightarrow> upstream_event list option \<Rightarrow> 'c delivery_state" where
  "delivery_start ts pending =
     \<lparr>dv_store = ts, dv_pending = pending, dv_gaps = 0, dv_waited = None, dv_tick = 0,
      dv_stop = Running, dv_opened = False, dv_entries = [], dv_bytes = [], dv_prev_ctx = None\<rparr>"

text \<open>The result: whether a stream reached the subscriber and how it ended, and the state.\<close>

definition serve_fetch_stream ::
  "'c fetch_env \<Rightarrow> fetch_delivery \<Rightarrow> 'c delivery_state \<Rightarrow> termination_code + stream_end option \<times> 'c delivery_state" where
  "serve_fetch_stream env fd0 st =
     (let fd = fd0\<lparr>fd_start := delivered_start (fd_start fd0) (fd_end fd0) (fd_group_order fd0)\<rparr> in
      rbind (serve_loop env fd (l_group (if fd_descending fd then fd_end fd else fd_start fd)) st) (\<lambda>st'.
        Inr (close_delivery env st', st')))"

end
