(* ===== verification/Fetch_Answers.thy ===== *)
theory Fetch_Answers
  imports Fetch_Delivery
begin

text \<open>
  What a served FETCH tells the subscriber. The track is a map from Locations to Objects; the cache
  and the upstream publishers tell the truth about it. Then the delivery never fails on its own account,
  its stream is in order and readable, and what it says, by carrying an Object or by passing over a
  Location, is true.
\<close>

fun re_of :: "fetch_object \<Rightarrow> response_entry" where
  "re_of (FetchedObject p) = REObject (Location (fo_group_id p) (fo_object_id p))"
| "re_of (EndOfRange kind g ob) = REMarker kind (Location g ob)"

abbreviation loc_of :: "fetch_object \<Rightarrow> location" where
  "loc_of e \<equiv> entry_location (re_of e)"

text \<open>The entries of a response up to its end, and whether it ends cleanly after FETCH_OK.\<close>

fun response :: "upstream_event list \<Rightarrow> fetch_object list" where
  "response (UE_Object p # evs) = FetchedObject p # response evs"
| "response (UE_EndOfRange kind l # evs) = EndOfRange kind (l_group l) (l_object l) # response evs"
| "response (UE_Accepted _ # evs) = response evs"
| "response _ = []"

fun ends_clean :: "bool \<Rightarrow> upstream_event list \<Rightarrow> bool" where
  "ends_clean ok (UE_Object p # evs) = ends_clean ok evs"
| "ends_clean ok (UE_EndOfRange kind l # evs) = ends_clean ok evs"
| "ends_clean ok (UE_Accepted _ # evs) = ends_clean True evs"
| "ends_clean ok (UE_StreamClosed # _) = ok"
| "ends_clean ok _ = False"

text \<open>A response is honest about a track over a range: it keeps to the range and the order, its Objects
  are the track's, and what it passes over does not exist.\<close>

definition true_entry :: "track_objects \<Rightarrow> location \<Rightarrow> location \<Rightarrow> fetch_object \<Rightarrow> bool" where
  "true_entry W lo hi e \<longleftrightarrow> lo \<le> loc_of e \<and> loc_of e \<le> hi \<and> (\<forall>p. e = FetchedObject p \<longrightarrow> W (loc_of e) = Some p)"

definition honest :: "track_objects \<Rightarrow> bool \<Rightarrow> location \<Rightarrow> location \<Rightarrow> upstream_event list \<Rightarrow> bool" where
  "honest W d lo hi evs \<longleftrightarrow> in_order d (map re_of (response evs)) \<and> (\<forall>e \<in> set (response evs). true_entry W lo hi e)
     \<and> (\<forall>l. lo \<le> l \<and> l \<le> hi \<and> says_absent d (ends_clean False evs) (map re_of (response evs)) l \<longrightarrow> W l = None)"

definition transport_ok :: "'c fetch_env \<Rightarrow> bool" where
  "transport_ok env \<longleftrightarrow> fe_opens env \<and> (\<forall>n. fe_writes env n)"

subsection \<open>The stream written\<close>

abbreviation ctx_after :: "fetch_object list \<Rightarrow> fetch_object_context option" where
  "ctx_after es \<equiv> fold (\<lambda>e c. Some (next_context e c)) es None"

lemma ctx_after_location:
  "es \<noteq> [] \<Longrightarrow> \<exists>c. ctx_after es = Some c \<and> Location (fc_group_id c) (fc_object_id c) = loc_of (last es)"
proof (induction es rule: rev_induct)
  case (snoc e es)
  then show ?case by (cases e) auto
qed simp

lemma fetch_stream_write_snoc:
  "fetch_stream_write order prev (es @ [e]) =
     rbind (fetch_stream_write order prev es) (\<lambda>bs.
     rbind (fetch_object_serialize e (fold (\<lambda>e c. Some (next_context e c)) es prev) order) (\<lambda>b. Inr (bs @ b)))"
  by (induction es arbitrary: prev) (auto simp: rbind_def split: sum.splits)

definition sent_ok :: "'c fetch_env \<Rightarrow> fetch_delivery \<Rightarrow> track_objects \<Rightarrow> 'c delivery_state \<Rightarrow> bool" where
  "sent_ok env fd W st \<longleftrightarrow> in_order (fd_descending fd) (map re_of (dv_entries st))
     \<and> (\<forall>e \<in> set (dv_entries st). true_entry W (fd_start fd) (fd_end fd) e \<and> (\<forall>p. e = FetchedObject p \<longrightarrow> wants fd p))
     \<and> fetch_stream_write (fd_group_order fd) None (dv_entries st) = Inr (dv_bytes st)
     \<and> dv_prev_ctx st = ctx_after (dv_entries st) \<and> cache_true (fe_mget env) W (dv_cache st)"

lemma serialize_in_order:
  assumes "track_wf W" "\<forall>p. e = FetchedObject p \<longrightarrow> W (loc_of e) = Some p"
    and "\<forall>x \<in> set es. earlier (order = GO_Descending) (loc_of x) (loc_of e)"
  shows "\<exists>bs. fetch_object_serialize e (ctx_after es) order = Inr bs"
proof (cases e)
  case (FetchedObject p)
  with assms(1,2) have wf: "fetch_payload_wf p" by (auto simp: track_wf_def)
  have "case ctx_after es of None \<Rightarrow> True
      | Some pc \<Rightarrow> if fc_group_id pc = fo_group_id p then fc_object_id pc \<le> fo_object_id p \<or> fetch_object_id_wraps (Some pc) p
                 else if order = GO_Descending then fo_group_id p < fc_group_id pc else fc_group_id pc < fo_group_id p"
  proof (cases "es = []")
    case False
    with ctx_after_location obtain c where c: "ctx_after es = Some c" "Location (fc_group_id c) (fc_object_id c) = loc_of (last es)" by blast
    have "earlier (order = GO_Descending) (Location (fc_group_id c) (fc_object_id c)) (loc_of e)"
      using assms(3) False unfolding c(2) by simp
    with c(1) FetchedObject show ?thesis by (auto simp: earlier_def split: if_splits)
  qed simp
  with fetch_order_accepts [of "ctx_after es" order p] serialize_payload_accepts [OF wf, of "ctx_after es" order] FetchedObject
  show ?thesis by (simp split: option.splits)
qed simp

abbreviation with_entry :: "fetch_object \<Rightarrow> bytes \<Rightarrow> 'c delivery_state \<Rightarrow> 'c delivery_state" where
  "with_entry e bs st \<equiv> st\<lparr>dv_opened := True, dv_entries := dv_entries st @ [e],
     dv_bytes := dv_bytes st @ bs, dv_prev_ctx := ctx_after (dv_entries st @ [e])\<rparr>"

text \<open>Every write succeeds that keeps to the order.\<close>

lemma write_entry_ok:
  assumes "sent_ok env fd W st" "track_wf W" "transport_ok env"
    and e: "true_entry W (fd_start fd) (fd_end fd) e" "\<forall>p. e = FetchedObject p \<longrightarrow> wants fd p"
    and ord: "\<forall>x \<in> set (dv_entries st). earlier (fd_descending fd) (loc_of x) (loc_of e)"
  shows "\<exists>bs. write_entry env fd e st = Inr (with_entry e bs st)
    \<and> sent_ok env fd W (with_entry e bs st)"
proof -
  have "\<forall>p. e = FetchedObject p \<longrightarrow> W (loc_of e) = Some p" using e(1) by (simp add: true_entry_def)
  from serialize_in_order [OF assms(2) this ord] obtain bs
    where bs: "fetch_object_serialize e (ctx_after (dv_entries st)) (fd_group_order fd) = Inr bs" by blast
  have ctx: "dv_prev_ctx st = ctx_after (dv_entries st)" using assms(1) by (simp add: sent_ok_def)
  have "write_entry env fd e st = Inr (with_entry e bs st)"
    using assms(3) bs by (simp add: write_entry_def transport_ok_def ctx)
  moreover have "sent_ok env fd W (with_entry e bs st)"
    using assms(1) e ord bs
    by (auto simp: sent_ok_def sorted_wrt_append fetch_stream_write_snoc rbind_Inr_iff)
  ultimately show ?thesis by blast
qed

subsection \<open>The cache stays true\<close>

definition env_true :: "'c fetch_env \<Rightarrow> group_order \<Rightarrow> track_objects \<Rightarrow> bool" where
  "env_true env order W \<longleftrightarrow> moka_law (fe_mget env) (fe_mput env) \<and> transport_ok env
     \<and> (\<forall>n ts. cache_true (fe_mget env) W (ts_cache ts) \<longrightarrow> cache_true (fe_mget env) W (ts_cache (fe_others env n ts)))
     \<and> (\<forall>n. fe_cancel env n \<noteq> Running \<longrightarrow> fe_cancel env (Suc n) \<noteq> Running)
     \<and> (\<forall>n lo hi evs. fe_ask env n (range_location_filter lo hi) order = Some evs \<longrightarrow>
          honest W (order = GO_Descending) (delivered_start lo hi order) hi evs)"

lemma sent_ok_cache: "sent_ok env fd W st \<Longrightarrow> cache_true (fe_mget env) W tc \<Longrightarrow> sent_ok env fd W (set_cache tc st)"
  by (simp add: sent_ok_def set_cache_def)

lemma set_cache_fields [simp]:
  "dv_entries (set_cache tc st) = dv_entries st" "dv_stop (set_cache tc st) = dv_stop st"
  "dv_pending (set_cache tc st) = dv_pending st" "dv_tick (set_cache tc st) = dv_tick st" "dv_gaps (set_cache tc st) = dv_gaps st"
  "dv_waited (set_cache tc st) = dv_waited st"
  by (simp_all add: set_cache_def)

lemma sent_ok_frame [simp]:
  "sent_ok env fd W (st\<lparr>dv_stop := s\<rparr>) = sent_ok env fd W st"
  "sent_ok env fd W (st\<lparr>dv_gaps := n\<rparr>) = sent_ok env fd W st"
  "sent_ok env fd W (st\<lparr>dv_pending := pd\<rparr>) = sent_ok env fd W st"
  "sent_ok env fd W (st\<lparr>dv_waited := w\<rparr>) = sent_ok env fd W st"
  "sent_ok env fd W (st\<lparr>dv_tick := n\<rparr>) = sent_ok env fd W st"
  by (simp_all add: sent_ok_def)

lemma meanwhile_fields [simp]:
  "dv_entries (meanwhile env st) = dv_entries st" "dv_stop (meanwhile env st) = dv_stop st"
  "dv_pending (meanwhile env st) = dv_pending st" "dv_tick (meanwhile env st) = Suc (dv_tick st)"
  by (simp_all add: meanwhile_def)

lemma meanwhile_ok: "env_true env order W \<Longrightarrow> sent_ok env fd W st \<Longrightarrow> sent_ok env fd W (meanwhile env st)"
  by (simp add: meanwhile_def env_true_def sent_ok_def)

lemma cache_true_spans:
  assumes "cache_true mget W tc" "\<forall>l. in_spans l spans \<longrightarrow> W l = None"
  shows "cache_true mget W (fold (\<lambda>(lo, hi) tc. mark_absent tc lo hi) spans tc)"
  using assms
proof (induction spans arbitrary: tc)
  case (Cons span spans)
  obtain lo hi where span: "span = (lo, hi)" by (cases span)
  have "cache_true mget W (mark_absent tc lo hi)"
    using Cons.prems by (intro cache_true_mark_absent) (auto simp: span)
  with Cons show ?case by (simp add: span)
qed simp

lemma mark_spans_fields [simp]:
  "dv_entries (mark_spans spans st) = dv_entries st" "dv_stop (mark_spans spans st) = dv_stop st"
  "dv_pending (mark_spans spans st) = dv_pending st" "dv_tick (mark_spans spans st) = dv_tick st"
  by (simp_all add: mark_spans_def)

lemma mark_spans_ok:
  "sent_ok env fd W st \<Longrightarrow> \<forall>l. in_spans l spans \<longrightarrow> W l = None \<Longrightarrow> sent_ok env fd W (mark_spans spans st)"
  unfolding mark_spans_def by (intro sent_ok_cache cache_true_spans) (auto simp: sent_ok_def)

lemma cache_upstream_ok:
  assumes "env_true env order W" "track_wf W" "W l = Some p" "sent_ok env fd W st"
  shows "sent_ok env fd W (cache_upstream env p st)"
    "dv_entries (cache_upstream env p st) = dv_entries st" "dv_stop (cache_upstream env p st) = dv_stop st"
    "dv_pending (cache_upstream env p st) = dv_pending st" "dv_tick (cache_upstream env p st) = dv_tick st"
proof -
  have "fo_forwarding_preference p = FP_Datagram \<longrightarrow> fo_subgroup_id p = fo_object_id p"
    using assms(2,3) by (simp add: track_wf_def)
  note into = try_into_fetch_of_fetched [OF _ this]
  obtain ts where *: "cache_upstream env p st = st\<lparr>dv_store := ts\<rparr>"
      "ts_cache ts = add_object (fe_mget env) (fe_mput env) (dv_cache st) p"
    using into by (auto simp: cache_upstream_def cache_fetched_object_def cache_object_def record_arrival_def try_from_fetch_def split: sum.splits)
  then show "sent_ok env fd W (cache_upstream env p st)"
    using cache_true_add [of "fe_mget env" "fe_mput env" W "dv_cache st" l p] assms(1,3,4) by (simp add: sent_ok_def env_true_def)
  show "dv_entries (cache_upstream env p st) = dv_entries st" "dv_stop (cache_upstream env p st) = dv_stop st"
    "dv_pending (cache_upstream env p st) = dv_pending st" "dv_tick (cache_upstream env p st) = dv_tick st"
    by (simp_all add: *)
qed

subsection \<open>A group from the cache\<close>

abbreviation in_range :: "fetch_delivery \<Rightarrow> location \<Rightarrow> bool" where
  "in_range fd l \<equiv> fd_start fd \<le> l \<and> l \<le> fd_end fd"

lemma objects_wanted_iff:
  assumes "objects_wanted g start end = (lo, hi)" "l_group start \<le> g" "g \<le> l_group end"
  shows "start \<le> Location g i \<and> Location g i \<le> end \<longleftrightarrow> lo \<le> i \<and> i \<le> hi"
proof -
  obtain a b c e where ends: "start = Location a b" "end = Location c e" by (metis location.exhaust)
  with assms(2,3) have le: "a \<le> g" "g \<le> c" by simp_all
  have "lo = (if a = g then b else 0)" "hi = (if c = g then e else u64_MAX)"
    using assms(1) le u64_top(3) by (auto simp: ends objects_wanted_def requested_part_def max_def min_def order.order_iff_strict word_gt_0)
  moreover have "start \<le> Location g i \<longleftrightarrow> a \<noteq> g \<or> b \<le> i" "Location g i \<le> end \<longleftrightarrow> c \<noteq> g \<or> i \<le> e"
    using le by (auto simp: ends)
  ultimately show ?thesis using u64_top(3) by auto
qed

lemma group_cached_true:
  assumes "cache_true (fe_mget env) W tc" "track_wf W" "group_cached env fd g tc = Some obs" "l_group (fd_start fd) \<le> g" "g \<le> l_group (fd_end fd)"
  shows "sorted_wrt (\<lambda>a b. fo_object_id a < fo_object_id b) obs"
    and "\<forall>x \<in> set obs. fo_group_id x = g \<and> true_entry W (fd_start fd) (fd_end fd) (FetchedObject x)"
    and "in_range fd l \<Longrightarrow> l_group l = g \<Longrightarrow> W l = Some p \<Longrightarrow> p \<in> set obs"
proof -
  obtain lo hi where w: "objects_wanted g (fd_start fd) (fd_end fd) = (lo, hi)" by fastforce
  from assms(3) have answer: "objects_if_complete (fe_mget env) tc g lo hi = Some obs" by (simp add: group_cached_def w)
  note A = answer_of_store [OF assms(1) [unfolded cache_true_def] answer]
  note iff = objects_wanted_iff [OF w assms(4,5)]
  have at: "W (Location (fo_group_id x) (fo_object_id x)) = Some x" if "x \<in> ran W" for x
    using that assms(2) by (auto simp: ran_def track_wf_def)
  show "sorted_wrt (\<lambda>a b. fo_object_id a < fo_object_id b) obs" using A by blast
  show "\<forall>x \<in> set obs. fo_group_id x = g \<and> true_entry W (fd_start fd) (fd_end fd) (FetchedObject x)"
    using A at iff by (fastforce simp: true_entry_def)
  show "p \<in> set obs" if "in_range fd l" "l_group l = g" "W l = Some p"
  proof -
    have l: "l = Location g (l_object l)" using that(2) by (cases l) simp
    from that(1) iff [of "l_object l"] have "lo \<le> l_object l \<and> l_object l \<le> hi" by (simp flip: l)
    moreover have "Location g (l_object l) \<notin> - dom W" using that(3) by (auto simp flip: l)
    ultimately obtain x where x: "x \<in> set obs" "fo_object_id x = l_object l" using A by blast
    with A have "x \<in> ran W" "fo_group_id x = g" by auto
    with at [of x] x(2) that(3) show ?thesis using x(1) by (simp flip: l)
  qed
qed

lemma write_cached_ok:
  assumes env: "env_true env order W" and W: "track_wf W"
  shows "sent_ok env fd W st \<Longrightarrow> dv_stop st = Running \<Longrightarrow> sorted_wrt (\<lambda>a b. fo_object_id a < fo_object_id b) obs \<Longrightarrow>
    \<forall>x \<in> set obs. fo_group_id x = g \<and> true_entry W (fd_start fd) (fd_end fd) (FetchedObject x) \<Longrightarrow>
    \<forall>x \<in> set (dv_entries st). \<forall>ob \<in> set obs. earlier (fd_descending fd) (loc_of x) (loc_of (FetchedObject ob)) \<Longrightarrow>
    \<exists>st' N M. write_cached env fd obs st = Inr st' \<and> sent_ok env fd W st' \<and> dv_pending st' = dv_pending st
      \<and> dv_entries st' = dv_entries st @ N \<and> N @ M = map FetchedObject (filter (wants fd) obs)
      \<and> (dv_stop st' = Running \<and> M = [] \<or> dv_stop st' \<noteq> Running \<and> cancelled env st' \<noteq> Running)"
proof (induction obs arbitrary: st)
  case (Cons ob obs)
  let ?st = "meanwhile env st"
  note ok = meanwhile_ok [OF env Cons.prems(1)]
  consider "cancelled env st \<noteq> Running" | "cancelled env st = Running" "\<not> wants fd ob" | "cancelled env st = Running" "wants fd ob" by blast
  then show ?case
  proof cases
    case 1
    then have "fe_cancel env (Suc (dv_tick st)) \<noteq> Running" using env by (simp add: env_true_def)
    with 1 ok show ?thesis by (intro exI [of _ "(?st)\<lparr>dv_stop := cancelled env st\<rparr>"] exI [of _ "[]"]
          exI [of _ "map FetchedObject (filter (wants fd) (ob # obs))"]) simp
  next
    case 2
    from Cons.IH [OF ok] Cons.prems 2 show ?thesis by simp
  next
    case 3
    let ?e = "FetchedObject ob"
    have te: "true_entry W (fd_start fd) (fd_end fd) ?e" "\<forall>p. ?e = FetchedObject p \<longrightarrow> wants fd p"
      "\<forall>x \<in> set (dv_entries ?st). earlier (fd_descending fd) (loc_of x) (loc_of ?e)" "transport_ok env"
      using Cons.prems 3 env by (auto simp: env_true_def)
    from write_entry_ok [OF ok W te(4,1,2,3)] obtain bs where w: "write_entry env fd ?e ?st =
        Inr (with_entry ?e bs ?st)"
      and ok1: "sent_ok env fd W (with_entry ?e bs ?st)"
      by blast
    let ?st1 = "with_entry ?e bs ?st"
    have "earlier (fd_descending fd) (loc_of ?e) (loc_of (FetchedObject x))" if "x \<in> set obs" for x
      using Cons.prems(3,4) that by (auto simp: earlier_def)
    with Cons.prems have "\<forall>x \<in> set (dv_entries ?st1). \<forall>ob \<in> set obs. earlier (fd_descending fd) (loc_of x) (loc_of (FetchedObject ob))" by auto
    from Cons.IH [OF ok1 _ _ _ this] Cons.prems obtain st' N M where "write_cached env fd obs ?st1 = Inr st'" "sent_ok env fd W st'"
      "dv_pending st' = dv_pending st" "dv_entries st' = dv_entries st @ ?e # N" "N @ M = map FetchedObject (filter (wants fd) obs)"
      "dv_stop st' = Running \<and> M = [] \<or> dv_stop st' \<noteq> Running \<and> cancelled env st' \<noteq> Running" by auto
    with 3 w show ?thesis by (intro exI [of _ st'] exI [of _ "?e # N"] exI [of _ M]) (simp add: rbind_def)
  qed
qed simp

subsection \<open>A response from upstream\<close>

lemma earlier_within:
  assumes "lo \<le> a" "a \<le> hi" "lo \<le> b" "b \<le> hi" "d' = d \<or> l_group lo = l_group hi"
  shows "earlier d' a b = earlier d a b"
proof (cases "d' = d")
  case False
  with assms(5) have "l_group lo = l_group hi" by simp
  with location_group_mono [OF assms(1)] location_group_mono [OF assms(2)]
    location_group_mono [OF assms(3)] location_group_mono [OF assms(4)]
  have "l_group a = l_group b" by simp
  then show ?thesis by (cases a; cases b) (auto simp: earlier_def)
qed simp

definition absences_match :: "bool \<Rightarrow> location \<Rightarrow> location \<Rightarrow> response_entry list \<Rightarrow> response_absences \<Rightarrow> bool" where
  "absences_match d lo hi P ra \<longleftrightarrow> ra_start ra = lo \<and> ra_end ra \<le> hi \<and> (ra_descending ra = d \<or> l_group lo = l_group hi)
     \<and> ra_last ra = (if P = [] then None else Some (entry_location (last P)))"

lemma after_last_match:
  assumes "absences_match d lo hi P ra" "in_order d P" "\<forall>e \<in> set P. lo \<le> entry_location e \<and> entry_location e \<le> hi" "lo \<le> l" "l \<le> hi"
  shows "after_last ra l \<longleftrightarrow> (\<forall>e \<in> set P. earlier d (entry_location e) l)"
proof (cases "P = []")
  case False
  with assms have "after_last ra l \<longleftrightarrow> earlier d (entry_location (last P)) l"
    using earlier_within [of lo "entry_location (last P)" hi l "ra_descending ra" d] by (simp add: after_last_def absences_match_def)
  with after_last_entry [OF assms(2) False] show ?thesis by simp
qed (use assms(1) in \<open>simp add: after_last_def absences_match_def\<close>)

lemma entry_spans_true:
  assumes m: "absences_match d lo hi P ra" and run: "on_entry e ra = (spans, ra')"
    and ord: "in_order d (P @ e # es)" and within: "\<forall>x \<in> set (P @ [e]). lo \<le> entry_location x \<and> entry_location x \<le> hi"
    and true: "\<forall>l. lo \<le> l \<and> l \<le> hi \<and> says_absent d c (P @ e # es) l \<longrightarrow> W l = None"
  shows "\<forall>l. in_spans l spans \<longrightarrow> W l = None" "absences_match d lo hi (P @ [e]) ra'" "ra_fetch_ok ra' = ra_fetch_ok ra"
proof -
  have within': "\<forall>x \<in> set P. lo \<le> entry_location x \<and> entry_location x \<le> hi" "lo \<le> entry_location e" "entry_location e \<le> hi"
    using within by auto
  have ordP: "in_order d P" "\<forall>x \<in> set P. earlier d (entry_location x) (entry_location e)" using ord by (auto simp: sorted_wrt_append)
  note al = after_last_match [OF m ordP(1) within'(1)]
  show "\<forall>l. in_spans l spans \<longrightarrow> W l = None"
  proof (intro allI impI)
    fix l assume "in_spans l spans"
    with in_on_entry [OF run, of l] al [OF within'(2,3)] ordP(2)
    have l: "can_carry ra l" "after_last ra l" "\<not> earlier (ra_descending ra) (entry_location e) l"
      "case e of REObject x \<Rightarrow> l \<noteq> x | REMarker kind x \<Rightarrow> kind = NonExistent" by auto
    then have lh: "lo \<le> l" "l \<le> hi" using m by (auto simp: absences_match_def)
    have "\<not> earlier d (entry_location e) l"
      using l(3) earlier_within [OF within'(2,3) lh, of "ra_descending ra" d] m by (simp add: absences_match_def)
    with l(4) have "says_absent d c (e # es) l" by simp
    with says_absent_append [OF ord, of c l] l(2) al [OF lh] have "says_absent d c (P @ e # es) l" by simp
    with true lh show "W l = None" by blast
  qed
  show "absences_match d lo hi (P @ [e]) ra'" "ra_fetch_ok ra' = ra_fetch_ok ra"
    using m on_entry_frame [OF run] by (simp_all add: absences_match_def)
qed

definition kept :: "fetch_delivery \<Rightarrow> fetch_object list \<Rightarrow> fetch_object list" where
  "kept fd = filter (\<lambda>e. case e of FetchedObject p \<Rightarrow> wants fd p | _ \<Rightarrow> True)"

lemma kept_simps [simp]:
  "kept fd [] = []" "kept fd (FetchedObject p # es) = (if wants fd p then FetchedObject p # kept fd es else kept fd es)"
  "kept fd (EndOfRange k g ob # es) = EndOfRange k g ob # kept fd es"
  by (simp_all add: kept_def)

lemma true_entry_widen: "true_entry W lo hi e \<Longrightarrow> lo' \<le> lo \<Longrightarrow> hi \<le> hi' \<Longrightarrow> true_entry W lo' hi' e"
  by (auto simp: true_entry_def)

text \<open>What of a response the loop still has to read, after the entries \<open>P\<close>.\<close>

definition rest_honest ::
  "track_objects \<Rightarrow> bool \<Rightarrow> location \<Rightarrow> location \<Rightarrow> response_entry list \<Rightarrow> bool \<Rightarrow> upstream_event list \<Rightarrow> bool" where
  "rest_honest W d lo hi P accepted evs \<longleftrightarrow> in_order d (P @ map re_of (response evs))
     \<and> (\<forall>e \<in> set P. lo \<le> entry_location e \<and> entry_location e \<le> hi) \<and> (\<forall>e \<in> set (response evs). true_entry W lo hi e)
     \<and> (\<forall>l. lo \<le> l \<and> l \<le> hi \<and> says_absent d (ends_clean accepted evs) (P @ map re_of (response evs)) l \<longrightarrow> W l = None)"

lemma rest_honest_entry:
  assumes "rest_honest W d lo hi P accepted evs" "response evs = e # response evs'" "ends_clean accepted evs = ends_clean accepted evs'"
  shows "rest_honest W d lo hi (P @ [re_of e]) accepted evs'" "true_entry W lo hi e"
    "absences_match d lo hi P ra \<Longrightarrow> on_entry (re_of e) ra = (spans, ra') \<Longrightarrow>
       (\<forall>l. in_spans l spans \<longrightarrow> W l = None) \<and> absences_match d lo hi (P @ [re_of e]) ra' \<and> ra_fetch_ok ra' = ra_fetch_ok ra"
proof -
  note h = assms(1) [unfolded rest_honest_def assms(2,3)]
  from h show te: "true_entry W lo hi e" by simp
  with h show "rest_honest W d lo hi (P @ [re_of e]) accepted evs'"
    by (auto simp: rest_honest_def true_entry_def)
  assume m: "absences_match d lo hi P ra" and run: "on_entry (re_of e) ra = (spans, ra')"
  from entry_spans_true [OF m run, of "map re_of (response evs')" "ends_clean accepted evs'" W] h te
  show "(\<forall>l. in_spans l spans \<longrightarrow> W l = None) \<and> absences_match d lo hi (P @ [re_of e]) ra' \<and> ra_fetch_ok ra' = ra_fetch_ok ra"
    by (auto simp: true_entry_def)
qed

lemma write_response_entry:
  assumes "env_true env order W" "track_wf W" "fd_start fd \<le> lo" "hi \<le> fd_end fd"
    and "rest_honest W (fd_descending fd) lo hi P c evs" "response evs = e # response evs'"
    and "\<forall>x \<in> set (dv_entries st). \<forall>y \<in> set (response evs). earlier (fd_descending fd) (loc_of x) (loc_of y)"
    and "sent_ok env fd W st" "\<forall>p. e = FetchedObject p \<longrightarrow> wants fd p"
  obtains bs where "write_entry env fd e st = Inr (with_entry e bs st)" "sent_ok env fd W (with_entry e bs st)"
    "\<forall>x \<in> set (dv_entries (with_entry e bs st)). \<forall>y \<in> set (response evs'). earlier (fd_descending fd) (loc_of x) (loc_of y)"
proof -
  have "transport_ok env" using assms(1) by (simp add: env_true_def)
  moreover have "true_entry W (fd_start fd) (fd_end fd) e"
    using assms(3-6) true_entry_widen [of W lo hi e] by (simp add: rest_honest_def)
  moreover have "\<forall>x \<in> set (dv_entries st). earlier (fd_descending fd) (loc_of x) (loc_of e)" using assms(6,7) by simp
  ultimately have "\<exists>bs. write_entry env fd e st = Inr (with_entry e bs st) \<and> sent_ok env fd W (with_entry e bs st)"
    using assms(2,8,9) by (intro write_entry_ok)
  moreover have "\<forall>y \<in> set (response evs'). earlier (fd_descending fd) (loc_of e) (loc_of y)"
    using assms(5,6) by (auto simp: rest_honest_def sorted_wrt_append)
  ultimately show ?thesis using assms(6,7) that by auto
qed

lemma read_fill_ok:
  fixes env :: "'c fetch_env" and fd :: fetch_delivery
  defines "d \<equiv> fd_descending fd"
  assumes env: "env_true env order W" and W: "track_wf W" and part: "fd_start fd \<le> lo" "hi \<le> fd_end fd"
  shows "rest_honest W d lo hi P (ra_fetch_ok ra) evs \<Longrightarrow> absences_match d lo hi P ra \<Longrightarrow> sent_ok env fd W st \<Longrightarrow>
    \<forall>x \<in> set (dv_entries st). \<forall>e \<in> set (response evs). earlier d (loc_of x) (loc_of e) \<Longrightarrow>
    \<exists>closed ra' st'. read_fill env fd evs ra st = Inr (closed, ra', st') \<and> sent_ok env fd W st' \<and> dv_pending st' = dv_pending st
      \<and> dv_entries st' = dv_entries st @ kept fd (response evs) \<and> absences_match d lo hi (P @ map re_of (response evs)) ra'
      \<and> (closed \<and> ra_fetch_ok ra' \<longleftrightarrow> ends_clean (ra_fetch_ok ra) evs)"
proof (induction evs arbitrary: P ra st)
  case (Cons ev evs)
  let ?st = "meanwhile env st"
  note ok = meanwhile_ok [OF env Cons.prems(3)]
  show ?case
  proof (cases ev)
    case (UE_Accepted l)
    have "absences_match d lo hi P (on_fetch_ok l ra)" "ra_fetch_ok (on_fetch_ok l ra)"
      using Cons.prems(2) by (auto simp: absences_match_def on_fetch_ok_def)
    with Cons.IH [of P "on_fetch_ok l ra" ?st] Cons.prems ok show ?thesis by (simp add: UE_Accepted rest_honest_def)
  next
    case (UE_EndOfRange kind l)
    let ?e = "EndOfRange kind (l_group l) (l_object l)"
    obtain spans ra1 where run: "on_marker kind l ra = (spans, ra1)" by fastforce
    then have run': "on_entry (re_of ?e) ra = (spans, ra1)" by simp
    note H = rest_honest_entry [OF Cons.prems(1), of ?e evs]
    from H(3) [OF _ _ Cons.prems(2) run'] have H3: "\<forall>l. in_spans l spans \<longrightarrow> W l = None"
      "absences_match d lo hi (P @ [re_of ?e]) ra1" "ra_fetch_ok ra1 = ra_fetch_ok ra" by (auto simp: UE_EndOfRange)
    let ?s2 = "mark_spans spans ?st"
    obtain bs where w: "write_entry env fd ?e ?s2 = Inr (with_entry ?e bs ?s2)" and ok1: "sent_ok env fd W (with_entry ?e bs ?s2)"
      and "\<forall>x \<in> set (dv_entries (with_entry ?e bs ?s2)). \<forall>y \<in> set (response evs). earlier d (loc_of x) (loc_of y)"
      by (rule write_response_entry [OF env W part Cons.prems(1) [unfolded d_def], of ?e evs ?s2])
         (use Cons.prems(4) mark_spans_ok [OF ok H3(1)] in \<open>simp_all add: UE_EndOfRange d_def\<close>)
    with Cons.IH [of "P @ [re_of ?e]" ra1, OF _ H3(2) ok1] H(1) H3(3) show ?thesis
      by (simp add: UE_EndOfRange run w rbind_def)
  next
    case (UE_Object p)
    let ?e = "FetchedObject p"
    obtain spans ra1 where run: "on_object (Location (fo_group_id p) (fo_object_id p)) ra = (spans, ra1)" by fastforce
    then have run': "on_entry (re_of ?e) ra = (spans, ra1)" by simp
    note H = rest_honest_entry [OF Cons.prems(1), of ?e evs]
    from H(3) [OF _ _ Cons.prems(2) run'] have H3: "\<forall>l. in_spans l spans \<longrightarrow> W l = None"
      "absences_match d lo hi (P @ [re_of ?e]) ra1" "ra_fetch_ok ra1 = ra_fetch_ok ra" by (auto simp: UE_Object)
    have "W (loc_of ?e) = Some p" using H(2) by (simp add: UE_Object true_entry_def)
    note C = cache_upstream_ok [OF env W this ok]
    let ?s2 = "mark_spans spans (cache_upstream env p ?st)"
    note ok2 = mark_spans_ok [OF C(1) H3(1)]
    show ?thesis
    proof (cases "wants fd p")
      case False
      with Cons.IH [of "P @ [re_of ?e]" ra1, OF _ H3(2) ok2] H(1) H3(3) Cons.prems(4) C show ?thesis
        by (simp add: UE_Object run)
    next
      case True
      obtain bs where w: "write_entry env fd ?e ?s2 = Inr (with_entry ?e bs ?s2)" and ok1: "sent_ok env fd W (with_entry ?e bs ?s2)"
        and "\<forall>x \<in> set (dv_entries (with_entry ?e bs ?s2)). \<forall>y \<in> set (response evs). earlier d (loc_of x) (loc_of y)"
        by (rule write_response_entry [OF env W part Cons.prems(1) [unfolded d_def], of ?e evs ?s2])
           (use Cons.prems(4) ok2 C True in \<open>simp_all add: UE_Object d_def\<close>)
      with Cons.IH [of "P @ [re_of ?e]" ra1, OF _ H3(2) ok1] H(1) H3(3) C True show ?thesis
        by (simp add: UE_Object run w rbind_def)
    qed
  qed (use Cons.prems ok in auto)
qed (use meanwhile_ok [OF env] in auto)

text \<open>Leaving out what the filter rejects says nothing false about what it wants.\<close>

definition fair :: "fetch_delivery \<Rightarrow> track_objects \<Rightarrow> location \<Rightarrow> bool" where
  "fair fd W l \<longleftrightarrow> (\<forall>p. W l = Some p \<longrightarrow> \<not> wants fd p)"

lemma kept_says:
  "says_absent d c (map re_of (kept fd es)) l \<Longrightarrow>
     says_absent d c (map re_of es) l \<or> (\<exists>p. FetchedObject p \<in> set es \<and> loc_of (FetchedObject p) = l \<and> \<not> wants fd p)"
proof (induction es)
  case (Cons e es)
  then show ?case by (cases e) (auto split: if_splits)
qed simp

lemma kept_fair:
  assumes "\<forall>e \<in> set es. true_entry W lo hi e" "says_absent d c (map re_of es) l \<Longrightarrow> W l = None"
    and "says_absent d c (map re_of (kept fd es)) l"
  shows "fair fd W l"
  using kept_says [OF assms(3)] assms(1,2) by (fastforce simp: fair_def true_entry_def)

subsection \<open>The parts of a range\<close>

definition in_part :: "fetch_delivery \<Rightarrow> u64 \<Rightarrow> u64 \<Rightarrow> location \<Rightarrow> bool" where
  "in_part fd a b l \<longleftrightarrow> in_range fd l \<and> a \<le> l_group l \<and> l_group l \<le> b"

lemma in_part_requested:
  assumes "requested_part a b (fd_start fd) (fd_end fd) = (lo, hi)"
  shows "in_part fd a b l \<longleftrightarrow> lo \<le> l \<and> l \<le> hi" "fd_start fd \<le> lo" "hi \<le> fd_end fd"
  using assms by (auto simp: requested_part_def in_part_def max.bounded_iff min.bounded_iff)

text \<open>The range of a delivery, its start moved as the order demands.\<close>

definition range_ok :: "fetch_delivery \<Rightarrow> bool" where
  "range_ok fd \<longleftrightarrow> fd_start fd \<le> fd_end fd \<and> delivered_start (fd_start fd) (fd_end fd) (fd_group_order fd) = fd_start fd"

definition part_ok :: "fetch_delivery \<Rightarrow> u64 \<Rightarrow> u64 \<Rightarrow> bool" where
  "part_ok fd a b \<longleftrightarrow> l_group (fd_start fd) \<le> a \<and> a \<le> b \<and> b \<le> l_group (fd_end fd)"

lemma requested_groups:
  assumes "part_ok fd a b" "requested_part a b (fd_start fd) (fd_end fd) = (lo, hi)"
  shows "l_group lo = a" "l_group hi = b"
proof -
  obtain s1 s2 e1 e2 where [simp]: "fd_start fd = Location s1 s2" "fd_end fd = Location e1 e2" by (metis location.exhaust)
  show "l_group lo = a" "l_group hi = b"
    using assms u64_top(3) by (auto simp: requested_part_def part_ok_def max_def min_def)
qed

lemma requested_delivered:
  assumes "range_ok fd" "part_ok fd a b" "requested_part a b (fd_start fd) (fd_end fd) = (lo, hi)"
  shows "delivered_start lo hi (fd_group_order fd) = lo"
proof (cases "fd_descending fd \<and> l_group (fd_start fd) \<noteq> l_group (fd_end fd)")
  case True
  with assms(1) have "fd_start fd = Location (l_group (fd_start fd)) 0" by (simp add: range_ok_def delivered_start_def split: if_splits)
  moreover have "lo = max (Location a 0) (fd_start fd)" using assms(3) by (simp add: requested_part_def)
  ultimately have "lo = max (Location a 0) (Location (l_group (fd_start fd)) 0)" by metis
  then have "l_object lo = 0" by (simp add: max_def)
  then show ?thesis by (cases lo) (simp add: delivered_start_def)
next
  case False
  then consider "\<not> fd_descending fd" | "l_group (fd_start fd) = l_group (fd_end fd)" by blast
  then show ?thesis
  proof cases
    case 2
    with assms(2) have "a = l_group (fd_start fd)" "b = l_group (fd_end fd)" "a = b" by (auto simp: part_ok_def)
    with requested_groups [OF assms(2,3)] show ?thesis by (simp add: delivered_start_def)
  qed (simp add: delivered_start_def)
qed

lemma last_delivered_last:
  assumes "range_ok fd" "part_ok fd a b"
  defines "L \<equiv> last_delivered a b (fd_start fd) (fd_end fd) (fd_descending fd)"
  shows "in_part fd a b L" "in_part fd a b l \<Longrightarrow> l = L \<or> earlier (fd_descending fd) l L"
proof -
  let ?g = "if fd_descending fd then a else b"
  have g: "l_group (fd_start fd) \<le> ?g" "?g \<le> l_group (fd_end fd)" "a \<le> ?g" "?g \<le> b" using assms(2) by (auto simp: part_ok_def)
  have L: "L = min (Location ?g u64_MAX) (fd_end fd)" by (simp add: L_def last_delivered_def requested_part_def Let_def)
  have "part_ok fd ?g ?g" using g by (simp add: part_ok_def)
  moreover have "requested_part ?g ?g (fd_start fd) (fd_end fd) = (max (Location ?g 0) (fd_start fd), L)" by (simp add: L requested_part_def)
  ultimately have gL: "l_group L = ?g" by (rule requested_groups)
  have "fd_start fd \<le> L"
    using assms(1) g(1) unfolding L min.bounded_iff range_ok_def by simp
  then show "in_part fd a b L" using g(3,4) gL by (simp add: in_part_def) (simp add: L)
  assume l: "in_part fd a b l"
  then have "l_group l = ?g \<Longrightarrow> l \<le> L" unfolding L min.bounded_iff by (simp add: in_part_def)
  moreover have "\<not> fd_descending fd \<Longrightarrow> l \<le> L" using l unfolding L min.bounded_iff by (simp add: in_part_def)
  ultimately show "l = L \<or> earlier (fd_descending fd) l L"
    using l gL by (cases l; cases L) (auto simp: earlier_def in_part_def order.order_iff_strict)
qed

text \<open>What is still ahead of the delivery.\<close>

definition ahead :: "fetch_delivery \<Rightarrow> u64 option \<Rightarrow> location \<Rightarrow> bool" where
  "ahead fd nxt l \<longleftrightarrow> (case nxt of None \<Rightarrow> False
     | Some g \<Rightarrow> in_range fd l \<and> (if fd_descending fd then l_group l \<le> g else g \<le> l_group l))"

abbreviation starts_at :: "fetch_delivery \<Rightarrow> u64 \<Rightarrow> u64 \<Rightarrow> u64 \<Rightarrow> bool" where
  "starts_at fd g a b \<equiv> (if fd_descending fd then b = g else a = g)"

lemma ahead_split:
  assumes "part_ok fd a b" "starts_at fd g a b"
  shows "ahead fd (Some g) l \<longleftrightarrow> in_part fd a b l \<or> ahead fd (next_after fd a b) l"
    and "in_part fd a b x \<Longrightarrow> ahead fd (next_after fd a b) l \<Longrightarrow> earlier (fd_descending fd) x l"
proof -
  have na: "ahead fd (next_after fd a b) l \<longleftrightarrow> in_range fd l \<and> (if fd_descending fd then l_group l < a else b < l_group l)" for l
  proof (cases "fd_descending fd")
    case True
    show ?thesis
    proof (cases "l_group (fd_start fd) < a")
      case True
      with \<open>fd_descending fd\<close> u64_steps(2) [OF True, of "l_group l"] show ?thesis by (simp add: ahead_def next_after_def)
    next
      case False
      with \<open>fd_descending fd\<close> location_group_mono [of "fd_start fd" l] show ?thesis by (auto simp: ahead_def next_after_def)
    qed
  next
    case False
    show ?thesis
    proof (cases "b < l_group (fd_end fd)")
      case True
      with False u64_steps(1) [OF True, of "l_group l"] show ?thesis by (simp add: ahead_def next_after_def)
    next
      case nb: False
      with False location_group_mono [of l "fd_end fd"] show ?thesis by (auto simp: ahead_def next_after_def)
    qed
  qed
  show "ahead fd (Some g) l \<longleftrightarrow> in_part fd a b l \<or> ahead fd (next_after fd a b) l"
    using assms unfolding na by (auto simp: ahead_def in_part_def part_ok_def split: if_splits)
  show "earlier (fd_descending fd) x l" if "in_part fd a b x" "ahead fd (next_after fd a b) l"
    using that unfolding na by (auto simp: in_part_def earlier_def location_le_iff(2) split: if_splits)
qed

lemma next_after_ok:
  assumes "part_ok fd a b" "next_after fd a b = Some g"
  shows "l_group (fd_start fd) \<le> g" "g \<le> l_group (fd_end fd)"
proof -
  show "l_group (fd_start fd) \<le> g"
    using assms u64_steps [of b "l_group (fd_end fd)" "l_group (fd_start fd)"] u64_steps(2) [of "l_group (fd_start fd)" a "l_group (fd_start fd)"]
      unat_plus_1 [of b "l_group (fd_end fd)"]
    by (auto simp: next_after_def part_ok_def word_le_nat_alt split: if_splits)
  show "g \<le> l_group (fd_end fd)"
    using assms u64_steps(1) [of b "l_group (fd_end fd)" "l_group (fd_end fd)"] unat_minus_1 [of "l_group (fd_start fd)" a]
    by (auto simp: next_after_def part_ok_def word_le_nat_alt split: if_splits)
qed

subsection \<open>The loop\<close>

text \<open>The state before a group, or after the last: what lies behind is told truly, what lies ahead
  is untouched; a delivery that was stopped has said nothing false.\<close>

definition told :: "fetch_delivery \<Rightarrow> track_objects \<Rightarrow> bool \<Rightarrow> fetch_object list \<Rightarrow> location \<Rightarrow> bool" where
  "told fd W at_end es l \<longleftrightarrow> (says_absent (fd_descending fd) at_end (map re_of es) l \<longrightarrow> fair fd W l)"

definition delivering :: "'c fetch_env \<Rightarrow> fetch_delivery \<Rightarrow> track_objects \<Rightarrow> u64 option \<Rightarrow> 'c delivery_state \<Rightarrow> bool" where
  "delivering env fd W nxt st \<longleftrightarrow> sent_ok env fd W st \<and>
     (if dv_stop st = Running
      then (\<forall>x \<in> set (dv_entries st). \<forall>l. ahead fd nxt l \<longrightarrow> earlier (fd_descending fd) (loc_of x) l)
        \<and> (\<forall>l. in_range fd l \<and> \<not> ahead fd nxt l \<longrightarrow> told fd W True (dv_entries st) l)
      else (\<forall>l. in_range fd l \<longrightarrow> told fd W False (dv_entries st) l) \<and> (nxt = None \<or> cancelled env st \<noteq> Running))"

lemma told_stop:
  assumes "delivering env fd W nxt st" "in_range fd l"
  shows "told fd W False (dv_entries st) l"
proof (cases "dv_stop st = Running")
  case True
  have ord: "in_order (fd_descending fd) (map re_of (dv_entries st))" using assms(1) by (simp add: delivering_def sent_ok_def)
  show ?thesis
  proof (cases "ahead fd nxt l")
    case True
    with \<open>dv_stop st = Running\<close> assms(1) have "\<forall>x \<in> set (dv_entries st). earlier (fd_descending fd) (loc_of x) l"
      by (simp add: delivering_def)
    then show ?thesis using says_absent_entry [of "fd_descending fd" "map re_of (dv_entries st)" l] by (auto simp: told_def)
  next
    case False
    with True assms says_absent_at_end [OF ord, of True l] show ?thesis by (auto simp: delivering_def told_def)
  qed
qed (use assms in \<open>simp add: delivering_def\<close>)

lemma delivering_advance:
  assumes I: "delivering env fd W (Some g) st" "dv_stop st = Running" and part: "part_ok fd a b" "starts_at fd g a b"
    and st': "sent_ok env fd W st'" "dv_entries st' = dv_entries st @ N" "\<forall>e \<in> set N. in_part fd a b (loc_of e)"
    and N: "\<forall>l. in_part fd a b l \<longrightarrow> told fd W (dv_stop st' = Running) N l"
    and stop: "dv_stop st' \<noteq> Running \<Longrightarrow> nxt = None \<or> cancelled env st' \<noteq> Running"
    and run: "dv_stop st' = Running \<Longrightarrow> nxt = next_after fd a b"
  shows "delivering env fd W nxt st'"
proof -
  let ?d = "fd_descending fd"
  have ord: "in_order ?d (map re_of (dv_entries st) @ map re_of N)" "in_order ?d (map re_of (dv_entries st))"
    using st'(1,2) by (auto simp: sent_ok_def sorted_wrt_append)
  note app = says_absent_append [OF ord(1)] and atend = says_absent_at_end [OF ord(2), of True]
  note split = ahead_split [OF part]
  have behind: "told fd W c (dv_entries st') l" if "in_range fd l" "\<not> ahead fd (Some g) l" for c l
  proof -
    have "told fd W True (dv_entries st) l" using I that by (simp add: delivering_def)
    with app [of c l] atend [of l] show ?thesis by (auto simp: told_def st'(2))
  qed
  have all: "\<forall>x \<in> set (dv_entries st). earlier ?d (loc_of x) l" if "ahead fd (Some g) l" for l
    using I that by (simp add: delivering_def)
  have inpart: "told fd W (dv_stop st' = Running) (dv_entries st') l" if "in_part fd a b l" for l
    using N that all [of l] split(1) app [of "dv_stop st' = Running" l] says_absent_entry [of ?d "map re_of (dv_entries st)" l]
    by (auto simp: told_def st'(2))
  have beyond: "earlier ?d (loc_of x) l" if "x \<in> set (dv_entries st')" "ahead fd (next_after fd a b) l" for x l
    using that all [of l] split(1) [of l] split(2) [of "loc_of x" l] st'(3) by (auto simp: st'(2))
  have stopped: "told fd W False (dv_entries st') l" if "ahead fd (next_after fd a b) l" for l
    using says_absent_entry [of ?d "map re_of (dv_entries st')" l] beyond [OF _ that] by (auto simp: told_def)
  show ?thesis
  proof (cases "dv_stop st' = Running")
    case True
    have "told fd W True (dv_entries st') l" if "in_range fd l" "\<not> ahead fd (next_after fd a b) l" for l
      using that behind inpart True split(1) [of l] by (cases "ahead fd (Some g) l") auto
    with True st'(1) beyond run show ?thesis by (simp add: delivering_def)
  next
    case False
    have "told fd W False (dv_entries st') l" if "in_range fd l" for l
      using that behind inpart False split(1) [of l] stopped by (cases "ahead fd (Some g) l") auto
    with False st'(1) stop show ?thesis by (simp add: delivering_def)
  qed
qed

text \<open>A marker over a part says nothing about it.\<close>

lemma unfilled_simps [simp]:
  "re_of (unfilled fd a b) = REMarker UnknownRange (last_delivered a b (fd_start fd) (fd_end fd) (fd_descending fd))"
  "unfilled fd a b \<noteq> FetchedObject p"
  by (simp_all add: unfilled_def unknown_up_to_def)

lemma write_unfilled:
  assumes "sent_ok env fd W st" "track_wf W" "transport_ok env" "range_ok fd" "part_ok fd a b"
    and "\<forall>x \<in> set (dv_entries st). earlier (fd_descending fd) (loc_of x) (loc_of (unfilled fd a b))"
  shows "\<exists>bs. write_entry env fd (unfilled fd a b) st = Inr (with_entry (unfilled fd a b) bs st)
    \<and> sent_ok env fd W (with_entry (unfilled fd a b) bs st)"
  using assms last_delivered_last(1) [OF assms(4,5)]
  by (intro write_entry_ok) (auto simp: true_entry_def in_part_def)

lemma told_unfilled:
  assumes "range_ok fd" "part_ok fd a b" "in_part fd a b l" "in_order (fd_descending fd) (map re_of (N @ [unfilled fd a b]))"
    and "told fd W False N l"
  shows "told fd W c (N @ [unfilled fd a b]) l"
proof -
  let ?L = "last_delivered a b (fd_start fd) (fd_end fd) (fd_descending fd)"
  from last_delivered_last(2) [OF assms(1-3)] have "\<not> earlier (fd_descending fd) ?L l"
    using earlier_order [of "fd_descending fd"] by metis
  then show ?thesis using assms(5) says_absent_append [of "fd_descending fd" "map re_of N" "[re_of (unfilled fd a b)]" c l] assms(4)
    by (simp add: told_def)
qed

lemma mark_gap_ok:
  assumes env: "env_true env (fd_group_order fd) W" and W: "track_wf W" and range: "range_ok fd"
    and I: "delivering env fd W (Some g) st" "dv_stop st = Running" and part: "part_ok fd a b" "starts_at fd g a b"
  shows "\<exists>st'. mark_gap env fd a b st = Inr (next_after fd a b, st') \<and> delivering env fd W (next_after fd a b) st'
    \<and> dv_pending st' = dv_pending st \<and> dv_gaps st' = dv_gaps st \<and> dv_stop st' = Running"
proof -
  let ?e = "unfilled fd a b"
  have L: "in_part fd a b (loc_of ?e)" using last_delivered_last(1) [OF range part(1)] by simp
  have "\<forall>x \<in> set (dv_entries st). earlier (fd_descending fd) (loc_of x) (loc_of ?e)"
    using I L ahead_split(1) [OF part, of "loc_of ?e"] by (simp add: delivering_def)
  moreover have "sent_ok env fd W st" "transport_ok env" using env I by (simp_all add: env_true_def delivering_def)
  ultimately obtain bs
    where w: "write_entry env fd ?e st = Inr (with_entry ?e bs st)" and ok: "sent_ok env fd W (with_entry ?e bs st)"
    using write_unfilled [OF _ W _ range part(1)] by blast
  have "told fd W c [?e] l" if "in_part fd a b l" for c l
    using told_unfilled [OF range part(1) that, of "[]" W c] by (simp add: told_def)
  with delivering_advance [OF I part ok, of "[?e]" "next_after fd a b"] L w I(2) show ?thesis
    by (simp add: mark_gap_def rbind_def)
qed

lemma kept_subset: "e \<in> set (kept fd es) \<Longrightarrow> e \<in> set es" and kept_order: "in_order d (map re_of es) \<Longrightarrow> in_order d (map re_of (kept fd es))"
  by (auto simp: kept_def sorted_wrt_map sorted_wrt_filter)

text \<open>A response that was read to its end: what it leaves to report, and what its Objects tell.\<close>

lemma rest_honest_start:
  assumes "rest_honest W d lo hi [] c evs"
  shows "in_order d (map re_of (response evs))" "\<forall>e \<in> set (response evs). true_entry W lo hi e"
    "\<forall>e \<in> set (map re_of (response evs)). lo \<le> entry_location e \<and> entry_location e \<le> hi"
    "lo \<le> l \<Longrightarrow> l \<le> hi \<Longrightarrow> says_absent d (ends_clean c evs) (map re_of (response evs)) l \<Longrightarrow> W l = None"
  using assms by (auto simp: rest_honest_def true_entry_def)

lemma on_end_true:
  assumes h: "rest_honest W d lo hi [] False evs" and m: "absences_match d lo hi (map re_of (response evs)) ra"
    and cl: "closed \<and> ra_fetch_ok ra \<longleftrightarrow> ends_clean False evs"
  shows "\<forall>l. in_spans l (on_end closed ra) \<longrightarrow> W l = None"
proof (intro allI impI)
  fix l assume "in_spans l (on_end closed ra)"
  then have l: "closed" "ra_fetch_ok ra" "can_carry ra l" "after_last ra l" by (auto simp: in_on_end)
  then have lh: "lo \<le> l" "l \<le> hi" using m by (auto simp: absences_match_def)
  note H = rest_honest_start [OF h]
  from after_last_match [OF m H(1,3) lh] l(4)
  have "\<forall>e \<in> set (map re_of (response evs)). earlier d (entry_location e) l" by simp
  with says_absent_at_end [OF H(1), of True l] l(1,2) cl H(4) [OF lh] show "W l = None" by simp
qed

lemma kept_told:
  assumes h: "rest_honest W (fd_descending fd) lo hi [] False evs" and l: "lo \<le> l" "l \<le> hi"
  shows "told fd W (ends_clean False evs) (kept fd (response evs)) l" "told fd W False (kept fd (response evs)) l"
    "response evs \<noteq> [] \<Longrightarrow> \<not> earlier (fd_descending fd) (loc_of (last (response evs))) l \<Longrightarrow> told fd W True (kept fd (response evs)) l"
proof -
  note H = rest_honest_start [OF h]
  note E = says_absent_at_end [OF H(1)]
  have told: "told fd W c (kept fd (response evs)) l"
    if "says_absent (fd_descending fd) c (map re_of (response evs)) l \<longrightarrow>
      says_absent (fd_descending fd) (ends_clean False evs) (map re_of (response evs)) l" for c
    using kept_fair [OF H(2), of "fd_descending fd" c l fd] H(4) [OF l] that by (auto simp: told_def)
  show "told fd W (ends_clean False evs) (kept fd (response evs)) l" "told fd W False (kept fd (response evs)) l"
    using told E [of "ends_clean False evs" l] by blast+
  assume "response evs \<noteq> []" "\<not> earlier (fd_descending fd) (loc_of (last (response evs))) l"
  then show "told fd W True (kept fd (response evs)) l"
    using after_last_entry [OF H(1), of l] E [of True l] E [of "ends_clean False evs" l] by (intro told) (auto simp: last_map)
qed

lemma last_delivered_not_earlier:
  assumes "range_ok fd" "part_ok fd a b" "in_part fd a b l"
  shows "\<not> earlier (fd_descending fd) (last_delivered a b (fd_start fd) (fd_end fd) (fd_descending fd)) l"
  using last_delivered_last(2) [OF assms] earlier_order [of "fd_descending fd"] by metis

definition covered :: "fetch_delivery \<Rightarrow> u64 \<Rightarrow> u64 \<Rightarrow> bool \<Rightarrow> response_absences \<Rightarrow> bool" where
  "covered fd a b closed ra \<longleftrightarrow> closed \<and> ra_fetch_ok ra
     \<or> ra_last ra = Some (last_delivered a b (fd_start fd) (fd_end fd) (fd_descending fd))"

text \<open>The end of a fill: what the response left open is marked, and only then.\<close>

lemma covered_told:
  assumes range: "range_ok fd" "part_ok fd a b" "in_part fd a b l" and l: "lo \<le> l" "l \<le> hi"
    and h: "rest_honest W (fd_descending fd) lo hi [] False evs"
    and m: "absences_match (fd_descending fd) lo hi (map re_of (response evs)) ra"
    and cl: "closed \<and> ra_fetch_ok ra \<longleftrightarrow> ends_clean False evs" and c: "covered fd a b closed ra"
  shows "told fd W True (kept fd (response evs)) l"
proof (cases "ends_clean False evs")
  case True
  with kept_told(1) [OF h l] show ?thesis by simp
next
  case False
  with cl c m have "response evs \<noteq> []"
    "loc_of (last (response evs)) = last_delivered a b (fd_start fd) (fd_end fd) (fd_descending fd)"
    by (auto simp: covered_def absences_match_def last_map split: if_splits)
  with kept_told(3) [OF h l] last_delivered_not_earlier [OF range] show ?thesis by simp
qed

lemma uncovered_earlier:
  assumes range: "range_ok fd" "part_ok fd a b" and lohi: "\<And>l. in_part fd a b l \<longleftrightarrow> lo \<le> l \<and> l \<le> hi"
    and h: "rest_honest W (fd_descending fd) lo hi [] False evs"
    and m: "absences_match (fd_descending fd) lo hi (map re_of (response evs)) ra" and "\<not> covered fd a b closed ra" "x \<in> set (response evs)"
  shows "earlier (fd_descending fd) (loc_of x) (last_delivered a b (fd_start fd) (fd_end fd) (fd_descending fd))"
proof -
  note H = rest_honest_start [OF h]
  have ne: "response evs \<noteq> []" using assms(7) by auto
  with assms(6) m have "loc_of (last (response evs)) \<noteq> last_delivered a b (fd_start fd) (fd_end fd) (fd_descending fd)"
    by (auto simp: covered_def absences_match_def last_map)
  moreover have "in_part fd a b (loc_of (last (response evs)))" using H(3) ne by (simp add: lohi)
  ultimately have "earlier (fd_descending fd) (loc_of (last (response evs))) (last_delivered a b (fd_start fd) (fd_end fd) (fd_descending fd))"
    using last_delivered_last(2) [OF range] by blast
  with after_last_entry [OF H(1), of "last_delivered a b (fd_start fd) (fd_end fd) (fd_descending fd)"] ne assms(7)
  show ?thesis by (simp add: last_map)
qed

text \<open>Everything the end of a fill needs to know about the fill.\<close>

definition filled ::
  "'c fetch_env \<Rightarrow> fetch_delivery \<Rightarrow> track_objects \<Rightarrow> u64 \<Rightarrow> u64 \<Rightarrow> 'c delivery_state \<Rightarrow> bool \<Rightarrow> response_absences \<Rightarrow> 'c delivery_state \<Rightarrow>
   upstream_event list \<Rightarrow> location \<Rightarrow> location \<Rightarrow> bool" where
  "filled env fd W a b st closed ra st1 evs lo hi \<longleftrightarrow> sent_ok env fd W st1 \<and> dv_entries st1 = dv_entries st @ kept fd (response evs)
     \<and> rest_honest W (fd_descending fd) lo hi [] False evs \<and> absences_match (fd_descending fd) lo hi (map re_of (response evs)) ra
     \<and> (closed \<and> ra_fetch_ok ra \<longleftrightarrow> ends_clean False evs) \<and> (\<forall>l. in_part fd a b l \<longleftrightarrow> lo \<le> l \<and> l \<le> hi)"

lemma fill_end_marks:
  assumes env: "env_true env (fd_group_order fd) W" and W: "track_wf W" and range: "range_ok fd"
    and I: "delivering env fd W (Some g) st" "dv_stop st = Running" and part: "part_ok fd a b" "starts_at fd g a b"
    and f: "filled env fd W a b st closed ra st1 evs lo hi" and open_end: "dv_stop st1 = Running" "\<not> covered fd a b closed ra"
  shows "\<exists>st2. write_entry env fd (unfilled fd a b) st1 = Inr st2 \<and> dv_stop st2 = Running \<and> dv_pending st2 = dv_pending st1
    \<and> delivering env fd W (next_after fd a b) (mark_spans (on_end closed ra) st2)"
proof -
  let ?e = "unfilled fd a b" and ?N = "kept fd (response evs)"
  from f have st1: "sent_ok env fd W st1" "dv_entries st1 = dv_entries st @ ?N" and h: "rest_honest W (fd_descending fd) lo hi [] False evs"
    and m: "absences_match (fd_descending fd) lo hi (map re_of (response evs)) ra"
    and cl: "closed \<and> ra_fetch_ok ra \<longleftrightarrow> ends_clean False evs" and lohi: "\<And>l. in_part fd a b l \<longleftrightarrow> lo \<le> l \<and> l \<le> hi"
    by (auto simp: filled_def)
  have L: "in_part fd a b (loc_of ?e)" using last_delivered_last(1) [OF range part(1)] by simp
  have "\<forall>x \<in> set (dv_entries st1). earlier (fd_descending fd) (loc_of x) (loc_of ?e)"
    using I L ahead_split(1) [OF part, of "loc_of ?e"] uncovered_earlier [OF range part(1) lohi h m open_end(2)] kept_subset [of _ fd]
    by (auto simp: st1(2) delivering_def)
  moreover have "transport_ok env" using env by (simp add: env_true_def)
  ultimately obtain bs where w: "write_entry env fd ?e st1 = Inr (with_entry ?e bs st1)" and ok: "sent_ok env fd W (with_entry ?e bs st1)"
    using write_unfilled [OF st1(1) W _ range part(1)] by blast
  let ?st3 = "mark_spans (on_end closed ra) (with_entry ?e bs st1)"
  have "in_order (fd_descending fd) (map re_of (?N @ [?e]))" using ok by (auto simp: sent_ok_def st1(2) sorted_wrt_append)
  with told_unfilled [OF range part(1)] kept_told(2) [OF h] lohi
  have "\<forall>l. in_part fd a b l \<longrightarrow> told fd W (dv_stop ?st3 = Running) (?N @ [?e]) l" by blast
  moreover have "\<forall>e \<in> set (?N @ [?e]). in_part fd a b (loc_of e)"
    using L rest_honest_start(3) [OF h] kept_subset [of _ fd] by (auto simp: lohi)
  ultimately have "delivering env fd W (next_after fd a b) ?st3"
    using delivering_advance [OF I part mark_spans_ok [OF ok on_end_true [OF h m cl]], of "?N @ [?e]"] open_end(1) by (simp add: st1(2))
  with w open_end(1) show ?thesis by simp
qed

lemma fill_end_ok:
  assumes env: "env_true env (fd_group_order fd) W" and W: "track_wf W" and range: "range_ok fd"
    and I: "delivering env fd W (Some g) st" "dv_stop st = Running" and part: "part_ok fd a b" "starts_at fd g a b"
    and f: "filled env fd W a b st closed ra st1 evs lo hi"
  shows "\<exists>nxt st2. fill_end env fd a b closed ra st1 = Inr (nxt, st2) \<and> delivering env fd W nxt st2
    \<and> dv_pending st2 = dv_pending st1 \<and> (nxt = None \<or> nxt = next_after fd a b)"
proof -
  define st2 where "st2 = (if cancelled env st1 \<noteq> Running then st1\<lparr>dv_stop := cancelled env st1\<rparr> else st1)"
  have f2: "filled env fd W a b st closed ra st2 evs lo hi" using f by (simp add: filled_def st2_def)
  have pend: "dv_pending st2 = dv_pending st1" by (simp add: st2_def)
  note fe = fill_end_def [of env fd a b closed ra st1, unfolded Let_def, folded st2_def covered_def]
  show ?thesis
  proof (cases "dv_stop st2 = Running \<and> \<not> covered fd a b closed ra")
    case True
    with fill_end_marks [OF env W range I part f2] pend show ?thesis by (fastforce simp: fe rbind_def)
  next
    case False
    let ?N = "kept fd (response evs)"
    define nxt where "nxt = (if dv_stop st2 \<noteq> Running then None else next_after fd a b)"
    define st3 where "st3 = (if dv_stop st2 \<noteq> StopMalformed then mark_spans (on_end closed ra) st2 else st2)"
    have st3: "dv_stop st3 = dv_stop st2" "dv_entries st3 = dv_entries st2" "dv_pending st3 = dv_pending st2" by (simp_all add: st3_def)
    from f2 have h: "rest_honest W (fd_descending fd) lo hi [] False evs"
      and m: "absences_match (fd_descending fd) lo hi (map re_of (response evs)) ra"
      and cl: "closed \<and> ra_fetch_ok ra \<longleftrightarrow> ends_clean False evs" and lohi: "\<And>l. in_part fd a b l \<longleftrightarrow> lo \<le> l \<and> l \<le> hi"
      and ok2: "sent_ok env fd W st2" "dv_entries st2 = dv_entries st @ ?N" by (auto simp: filled_def)
    have ok3: "sent_ok env fd W st3" using mark_spans_ok [OF ok2(1) on_end_true [OF h m cl]] ok2(1) by (simp add: st3_def)
    have "\<forall>l. in_part fd a b l \<longrightarrow> told fd W (dv_stop st3 = Running) ?N l"
      using False kept_told(2) [OF h] covered_told [OF range part(1) _ _ _ h m cl] lohi by (cases "dv_stop st2 = Running") (auto simp: st3)
    moreover have "\<forall>e \<in> set ?N. in_part fd a b (loc_of e)"
      using rest_honest_start(3) [OF h] kept_subset [of _ fd] by (auto simp: lohi)
    ultimately have "delivering env fd W nxt st3"
      by (intro delivering_advance [OF I part ok3, of ?N nxt]) (simp_all add: ok2(2) st3 nxt_def)
    moreover have "fill_end env fd a b closed ra st1 = Inr (nxt, st3)" using False st3(1) by (auto simp: fe rbind_def nxt_def st3_def)
    ultimately show ?thesis using pend st3(3) by (auto simp: nxt_def)
  qed
qed

lemma delivering_frame [simp]:
  "delivering env fd W nxt (st\<lparr>dv_gaps := n\<rparr>) = delivering env fd W nxt st"
  "delivering env fd W nxt (st\<lparr>dv_pending := pd\<rparr>) = delivering env fd W nxt st"
  "delivering env fd W nxt (st\<lparr>dv_waited := w\<rparr>) = delivering env fd W nxt st"
  by (simp_all add: delivering_def)

lemma delivering_cache: "delivering env fd W nxt st \<Longrightarrow> cache_true (fe_mget env) W tc \<Longrightarrow> delivering env fd W nxt (set_cache tc st)"
  by (auto simp: delivering_def intro: sent_ok_cache)

lemma absences_new_match:
  "delivered_start lo hi order = lo \<Longrightarrow> absences_match (order = GO_Descending) lo hi [] (absences_new lo hi order)"
  "\<not> ra_fetch_ok (absences_new lo hi order)"
  by (auto simp: absences_match_def absences_new_def)

text \<open>A whole fill: the response, then its end.\<close>

lemma fill_ok:
  assumes env: "env_true env (fd_group_order fd) W" and W: "track_wf W" and range: "range_ok fd"
    and I: "delivering env fd W (Some g) st" "dv_stop st = Running" and part: "part_ok fd a b" "starts_at fd g a b"
    and lohi: "\<And>l. in_part fd a b l \<longleftrightarrow> lo \<le> l \<and> l \<le> hi" "fd_start fd \<le> lo" "hi \<le> fd_end fd" "delivered_start lo hi (fd_group_order fd) = lo"
    and h: "honest W (fd_descending fd) lo hi evs"
  shows "\<exists>nxt st2. rbind (read_fill env fd evs (absences_new lo hi (fd_group_order fd)) st) (\<lambda>(c, ra, st'). fill_end env fd a b c ra st') = Inr (nxt, st2)
    \<and> delivering env fd W nxt st2 \<and> dv_pending st2 = dv_pending st \<and> (nxt = None \<or> nxt = next_after fd a b)"
proof -
  let ?ra = "absences_new lo hi (fd_group_order fd)"
  note m = absences_new_match(1) [OF lohi(4)]
  have h': "rest_honest W (fd_descending fd) lo hi [] (ra_fetch_ok ?ra) evs"
    using h absences_new_match(2) [of lo hi "fd_group_order fd"] by (simp add: rest_honest_def honest_def)
  have ord: "\<forall>x \<in> set (dv_entries st). \<forall>e \<in> set (response evs). earlier (fd_descending fd) (loc_of x) (loc_of e)"
    using I ahead_split(1) [OF part] lohi(1) rest_honest_start(3) [OF h'] by (auto simp: delivering_def)
  have "sent_ok env fd W st" using I(1) by (simp add: delivering_def)
  from read_fill_ok [OF env W lohi(2,3) h' m this ord, unfolded append_Nil] obtain c ra st1 where run: "read_fill env fd evs ?ra st = Inr (c, ra, st1)" and r: "sent_ok env fd W st1"
    "dv_pending st1 = dv_pending st" "dv_entries st1 = dv_entries st @ kept fd (response evs)"
    "absences_match (fd_descending fd) lo hi (map re_of (response evs)) ra" "c \<and> ra_fetch_ok ra \<longleftrightarrow> ends_clean (ra_fetch_ok ?ra) evs"
    by blast
  have "filled env fd W a b st c ra st1 evs lo hi"
    using r h' lohi(1) absences_new_match(2) [of lo hi "fd_group_order fd"] by (simp add: filled_def)
  from fill_end_ok [OF env W range I part this] r(2) run show ?thesis by (auto simp: rbind_def)
qed

text \<open>The FETCH already under way is taken up before anything is served, or never.\<close>

definition pending_ok :: "'c fetch_env \<Rightarrow> fetch_delivery \<Rightarrow> track_objects \<Rightarrow> u64 option \<Rightarrow> 'c delivery_state \<Rightarrow> bool" where
  "pending_ok env fd W nxt st \<longleftrightarrow> (\<forall>evs. dv_pending st = Some evs \<and> nxt \<noteq> None \<longrightarrow>
     fe_max_gaps env \<le> dv_gaps st
     \<or> nxt = Some (l_group (if fd_descending fd then fd_end fd else fd_start fd))
       \<and> honest W (fd_descending fd) (fd_start fd) (fd_end fd) evs)"

definition loop_ok :: "'c fetch_env \<Rightarrow> fetch_delivery \<Rightarrow> track_objects \<Rightarrow> u64 option \<Rightarrow> 'c delivery_state \<Rightarrow> bool" where
  "loop_ok env fd W nxt st \<longleftrightarrow> delivering env fd W nxt st \<and> pending_ok env fd W nxt st
     \<and> (\<forall>g. nxt = Some g \<longrightarrow> l_group (fd_start fd) \<le> g \<and> g \<le> l_group (fd_end fd))"

lemma loop_ok_next:
  assumes "delivering env fd W nxt st" "part_ok fd a b" "nxt = None \<or> nxt = next_after fd a b" "pending_ok env fd W nxt st"
  shows "loop_ok env fd W nxt st"
  using assms next_after_ok [OF assms(2)] by (auto simp: loop_ok_def)

lemma fill_pending_ok:
  assumes env: "env_true env (fd_group_order fd) W" and W: "track_wf W" and range: "range_ok fd"
    and I: "loop_ok env fd W (Some g) st" "dv_stop st = Running" and p: "dv_pending st = Some evs" "dv_gaps st < fe_max_gaps env"
  shows "\<exists>nxt st'. fill_gap env fd a b st = Inr (nxt, st') \<and> loop_ok env fd W nxt st'"
proof -
  let ?a = "l_group (fd_start fd)" and ?b = "l_group (fd_end fd)" and ?st = "st\<lparr>dv_gaps := Suc (dv_gaps st), dv_pending := None\<rparr>"
  from I p have g: "g = l_group (if fd_descending fd then fd_end fd else fd_start fd)"
    and h: "honest W (fd_descending fd) (fd_start fd) (fd_end fd) evs" and D: "delivering env fd W (Some g) ?st" "dv_stop ?st = Running"
    by (auto simp: loop_ok_def pending_ok_def)
  have part: "part_ok fd ?a ?b" "starts_at fd g ?a ?b" using range location_group_mono by (auto simp: part_ok_def range_ok_def g)
  have inp: "in_part fd ?a ?b l \<longleftrightarrow> fd_start fd \<le> l \<and> l \<le> fd_end fd" for l using location_group_mono by (auto simp: in_part_def)
  have "delivered_start (fd_start fd) (fd_end fd) (fd_group_order fd) = fd_start fd" using range by (simp add: range_ok_def)
  from fill_ok [OF env W range D part inp order_refl order_refl this h] obtain nxt st2
    where r: "rbind (read_fill env fd evs (absences_new (fd_start fd) (fd_end fd) (fd_group_order fd)) ?st)
        (\<lambda>(c, ra, st'). fill_end env fd ?a ?b c ra st') = Inr (nxt, st2)" "delivering env fd W nxt st2"
      "dv_pending st2 = dv_pending ?st" "nxt = None \<or> nxt = next_after fd ?a ?b" by blast
  have "fill_gap env fd a b st = Inr (nxt, st2)" using p r(1) by (simp add: fill_gap_def)
  moreover have "loop_ok env fd W nxt st2" using loop_ok_next [OF r(2) part(1) r(4)] r(3) by (simp add: pending_ok_def)
  ultimately show ?thesis by blast
qed

lemma fill_asked_ok:
  assumes env: "env_true env (fd_group_order fd) W" and W: "track_wf W" and range: "range_ok fd"
    and I: "loop_ok env fd W (Some g) st" "dv_stop st = Running" and part: "part_ok fd a b" "starts_at fd g a b"
    and p: "dv_pending st = None" "dv_gaps st < fe_max_gaps env"
  shows "\<exists>nxt st'. fill_gap env fd a b st = Inr (nxt, st') \<and> loop_ok env fd W nxt st'"
proof -
  let ?st = "st\<lparr>dv_gaps := Suc (dv_gaps st)\<rparr>"
  obtain lo hi where req: "requested_part a b (fd_start fd) (fd_end fd) = (lo, hi)" by fastforce
  from I have D: "delivering env fd W (Some g) ?st" "dv_stop ?st = Running" by (simp_all add: loop_ok_def)
  have "\<exists>nxt st'. fill_gap env fd a b st = Inr (nxt, st') \<and> delivering env fd W nxt st' \<and> dv_pending st' = None
      \<and> (nxt = None \<or> nxt = next_after fd a b)"
  proof (cases "fe_ask env (dv_tick st) (range_location_filter lo hi) (fd_group_order fd)")
    case None
    from mark_gap_ok [OF env W range D part] p None req show ?thesis by (auto simp: fill_gap_def)
  next
    case (Some evs)
    note del = requested_delivered [OF range part(1) req]
    from env Some have "honest W (fd_descending fd) lo hi evs" unfolding env_true_def by (metis del)
    from fill_ok [OF env W range D part in_part_requested [OF req] del this] p Some req show ?thesis by (simp add: fill_gap_def)
  qed
  then obtain nxt st' where r: "fill_gap env fd a b st = Inr (nxt, st')" "delivering env fd W nxt st'" "dv_pending st' = None"
    "nxt = None \<or> nxt = next_after fd a b" by blast
  with loop_ok_next [OF r(2) part(1) r(4)] show ?thesis by (simp add: pending_ok_def)
qed

lemma fill_gap_ok:
  assumes env: "env_true env (fd_group_order fd) W" and W: "track_wf W" and range: "range_ok fd"
    and I: "loop_ok env fd W (Some g) st" "dv_stop st = Running" and part: "part_ok fd a b" "starts_at fd g a b"
  shows "\<exists>nxt st'. fill_gap env fd a b st = Inr (nxt, st') \<and> loop_ok env fd W nxt st'"
proof (cases "fe_max_gaps env \<le> dv_gaps st")
  case True
  from I have "delivering env fd W (Some g) st" by (simp add: loop_ok_def)
  from mark_gap_ok [OF env W range this I(2) part] obtain st' where r: "mark_gap env fd a b st = Inr (next_after fd a b, st')"
    "delivering env fd W (next_after fd a b) st'" "dv_gaps st' = dv_gaps st" by blast
  have "pending_ok env fd W (next_after fd a b) st'" using True r(3) by (simp add: pending_ok_def)
  with loop_ok_next [OF r(2) part(1)] r(1) True show ?thesis by (simp add: fill_gap_def)
next
  case False
  then show ?thesis
    using fill_pending_ok [OF env W range I] fill_asked_ok [OF env W range I part] by (cases "dv_pending st") auto
qed

lemma gap_down_lower: "l_group (fd_start fd) \<le> g \<Longrightarrow> l_group (fd_start fd) \<le> gap_down env fd tc g"
proof (induction env fd tc g rule: gap_down.induct)
  case (1 env fd tc g)
  then show ?case using u64_steps(2) [of "l_group (fd_start fd)" g "l_group (fd_start fd)"]
    by (subst gap_down.simps) (auto split: if_splits)
qed

lemma gap_up_upper: "g \<le> l_group (fd_end fd) \<Longrightarrow> gap_up env fd tc g \<le> l_group (fd_end fd)"
proof (induction env fd tc g rule: gap_up.induct)
  case (1 env fd tc g)
  then show ?case using u64_steps(1) [of g "l_group (fd_end fd)" "l_group (fd_end fd)"]
    by (subst gap_up.simps) (auto split: if_splits)
qed

lemma gap_from_ok:
  assumes "gap_from env fd g tc = (a, b)" "l_group (fd_start fd) \<le> g" "g \<le> l_group (fd_end fd)"
  shows "part_ok fd a b" "starts_at fd g a b"
  using assms gap_from_bounds [OF assms(1)] gap_down_lower [OF assms(2)] gap_up_upper [OF assms(3)]
  by (auto simp: gap_from_def part_ok_def split: if_splits)

lemma loop_ok_frame:
  "loop_ok env fd W nxt st \<Longrightarrow> cache_true (fe_mget env) W tc \<Longrightarrow> loop_ok env fd W nxt (set_cache tc st)"
  "loop_ok env fd W nxt (st\<lparr>dv_waited := w\<rparr>) = loop_ok env fd W nxt st"
  by (auto simp: loop_ok_def pending_ok_def intro: delivering_cache)

lemma loop_ok_meanwhile:
  assumes "env_true env order W" "loop_ok env fd W nxt st"
  shows "loop_ok env fd W nxt (meanwhile env st)"
  using assms meanwhile_ok [OF assms(1)]
  by (auto simp: loop_ok_def delivering_def pending_ok_def env_true_def) (simp_all add: meanwhile_def)

lemma loop_ok_cache: "loop_ok env fd W nxt st \<Longrightarrow> cache_true (fe_mget env) W (dv_cache st)"
  by (simp add: loop_ok_def delivering_def sent_ok_def)

lemma serve_gap_ok:
  assumes env: "env_true env (fd_group_order fd) W" and W: "track_wf W" and range: "range_ok fd"
    and I: "loop_ok env fd W (Some g) st" "dv_stop st = Running"
  shows "\<exists>nxt st'. serve_gap env fd g st = Inr (nxt, st') \<and> loop_ok env fd W nxt st'"
proof -
  obtain a b where ab: "gap_from env fd g (dv_cache st) = (a, b)" by fastforce
  have "l_group (fd_start fd) \<le> g" "g \<le> l_group (fd_end fd)" using I(1) by (auto simp: loop_ok_def)
  note part = gap_from_ok [OF ab this]
  note fill = fill_gap_ok [OF env W range _ _ part]
  obtain r tc where claim: "claim_fill (dv_cache st) a b = (r, tc)" by fastforce
  have tc: "cache_true (fe_mget env) W tc" using cache_true_claims(1) [OF loop_ok_cache [OF I(1)], of a b] claim by simp
  show ?thesis
  proof (cases "dv_pending st \<noteq> None")
    case True
    with fill [OF I] ab show ?thesis by (auto simp: serve_gap_def)
  next
    case False
    show ?thesis
    proof (cases r)
      case (Inr lock)
      from fill [of "set_cache tc st"] loop_ok_frame(1) [OF I(1) tc] I(2) obtain nxt st'
        where r: "fill_gap env fd a b (set_cache tc st) = Inr (nxt, st')" "loop_ok env fd W nxt st'" by auto
      have "loop_ok env fd W nxt (set_cache (drop_claim (dv_cache st') lock) st')"
        using loop_ok_frame(1) [OF r(2) cache_true_claims(2) [OF loop_ok_cache [OF r(2)]]] .
      with False ab claim Inr r(1) show ?thesis by (simp add: serve_gap_def rbind_def)
    next
      case (Inl lock)
      show ?thesis
      proof (cases "dv_waited st = Some g")
        case True
        with False ab claim Inl fill [OF I] show ?thesis by (simp add: serve_gap_def)
      next
        case notyet: False
        have "loop_ok env fd W (Some g) ((meanwhile env st)\<lparr>dv_waited := Some g\<rparr>)"
          using loop_ok_meanwhile [OF env I(1)] by (simp add: loop_ok_frame(2))
        with False ab claim Inl notyet show ?thesis by (simp add: serve_gap_def)
      qed
    qed
  qed
qed

lemma present_not_absent: "in_order d es \<Longrightarrow> REObject l \<in> set es \<Longrightarrow> \<not> says_absent d c es l"
  by (induction es) (auto simp: earlier_order)

lemma cached_told:
  assumes "sorted_wrt (\<lambda>a b. fo_object_id a < fo_object_id b) obs"
    and "\<forall>x \<in> set obs. fo_group_id x = g \<and> true_entry W (fd_start fd) (fd_end fd) (FetchedObject x)"
    and all: "\<And>l p. in_range fd l \<Longrightarrow> l_group l = g \<Longrightarrow> W l = Some p \<Longrightarrow> p \<in> set obs" and W: "track_wf W"
    and NM: "N @ M = map FetchedObject (filter (wants fd) obs)" and l: "in_range fd l" "l_group l = g"
  shows "told fd W (M = []) N l" "told fd W False N l"
proof -
  let ?d = "fd_descending fd"
  have "sorted_wrt (\<lambda>a b. earlier ?d (loc_of (FetchedObject a)) (loc_of (FetchedObject b))) obs"
    using assms(1) by (rule sorted_wrt_mono_rel [rotated]) (use assms(2) in \<open>auto simp: earlier_def\<close>)
  then have ord: "in_order ?d (map re_of (N @ M))" by (simp only: NM) (simp add: sorted_wrt_map sorted_wrt_filter)
  have full: "told fd W c (N @ M) l" for c
    unfolding told_def fair_def
  proof (intro impI allI notI)
    fix p assume s: "says_absent ?d c (map re_of (N @ M)) l" and p: "W l = Some p" "wants fd p"
    have "p \<in> set obs" using all [OF l p(1)] .
    moreover have "loc_of (FetchedObject p) = l"
      using W p(1) by (auto simp: track_wf_def)
    ultimately have "REObject l \<in> set (map re_of (N @ M))" using p(2) by (simp only: NM) force
    with present_not_absent [OF ord] s show False by blast
  qed
  show "told fd W False N l"
    using full [of False] says_absent_append [of ?d "map re_of N" "map re_of M" False l] ord by (auto simp: told_def)
  then show "told fd W (M = []) N l" using full [of True] by (cases "M = []") auto
qed

lemma serve_cached_ok:
  assumes env: "env_true env (fd_group_order fd) W" and W: "track_wf W"
    and I: "loop_ok env fd W (Some g) st" and run: "dv_stop st = Running"
    and p: "dv_pending st = None" and hit: "group_cached env fd g (dv_cache st) = Some obs"
  shows "\<exists>st'. write_cached env fd obs st = Inr st' \<and> loop_ok env fd W (next_after fd g g) st'"
proof -
  have g: "l_group (fd_start fd) \<le> g" "g \<le> l_group (fd_end fd)" using I by (auto simp: loop_ok_def)
  have part: "part_ok fd g g" "starts_at fd g g g" using g by (simp_all add: part_ok_def)
  have D: "delivering env fd W (Some g) st" "dv_stop st = Running" "sent_ok env fd W st"
    using I run by (auto simp: loop_ok_def delivering_def)
  note C = group_cached_true [OF loop_ok_cache [OF I] W hit g]
  have inp: "in_part fd g g (loc_of (FetchedObject x))" if "x \<in> set obs" for x
    using C(2) that by (auto simp: in_part_def true_entry_def)
  have "\<forall>x \<in> set (dv_entries st). \<forall>ob \<in> set obs. earlier (fd_descending fd) (loc_of x) (loc_of (FetchedObject ob))"
    using D(1,2) inp ahead_split(1) [OF part] by (simp add: delivering_def)
  from write_cached_ok [OF env W D(3,2) C(1,2) this] obtain st' N M where w: "write_cached env fd obs st = Inr st'" "sent_ok env fd W st'"
    "dv_pending st' = dv_pending st" "dv_entries st' = dv_entries st @ N" "N @ M = map FetchedObject (filter (wants fd) obs)"
    "dv_stop st' = Running \<and> M = [] \<or> dv_stop st' \<noteq> Running \<and> cancelled env st' \<noteq> Running" by blast
  have "told fd W (dv_stop st' = Running) N l" if "in_part fd g g l" for l
    using cached_told [OF C W w(5)] that w(6) by (auto simp: in_part_def)
  moreover have "\<forall>e \<in> set N. in_part fd g g (loc_of e)"
  proof
    fix e assume "e \<in> set N"
    then have "e \<in> set (map FetchedObject (filter (wants fd) obs))" unfolding w(5) [symmetric] by simp
    then show "in_part fd g g (loc_of e)" using inp by auto
  qed
  ultimately have "delivering env fd W (next_after fd g g) st'" using w(6)
    by (intro delivering_advance [OF D(1,2) part w(2,4)]) auto
  then have "loop_ok env fd W (next_after fd g g) st'"
    using w(3) p by (intro loop_ok_next [OF _ part(1)]) (auto simp: pending_ok_def)
  with w(1) show ?thesis by blast
qed

lemma serve_group_ok:
  assumes env: "env_true env (fd_group_order fd) W" and W: "track_wf W" and range: "range_ok fd" and I: "loop_ok env fd W (Some g) st"
  shows "\<exists>nxt st'. serve_group env fd g st = Inr (nxt, st') \<and> loop_ok env fd W nxt st'"
proof (cases "cancelled env st = Running")
  case False
  let ?st = "(meanwhile env st)\<lparr>dv_stop := cancelled env st\<rparr>"
  have "sent_ok env fd W (meanwhile env st)" using I meanwhile_ok [OF env] by (auto simp: loop_ok_def delivering_def)
  then have "delivering env fd W None ?st" using False told_stop [of env fd W "Some g" st] I by (auto simp: delivering_def loop_ok_def)
  then have "loop_ok env fd W None ?st" by (simp add: loop_ok_def pending_ok_def)
  with False show ?thesis by (simp add: serve_group_def)
next
  case True
  then have run: "dv_stop st = Running" using I by (auto simp: loop_ok_def delivering_def split: if_splits)
  let ?st = "meanwhile env st"
  note I' = loop_ok_meanwhile [OF env I]
  show ?thesis
  proof (cases "if dv_pending ?st \<noteq> None then None else group_cached env fd g (dv_cache ?st)")
    case None
    with serve_gap_ok [OF env W range I'] run True show ?thesis by (simp add: serve_group_def)
  next
    case (Some obs)
    then have "dv_pending ?st = None" "group_cached env fd g (dv_cache ?st) = Some obs" by (auto split: if_splits)
    with serve_cached_ok [OF env W I'] run True show ?thesis by (fastforce simp: serve_group_def rbind_def)
  qed
qed

lemma serve_loop_ok:
  assumes env: "env_true env (fd_group_order fd) W" and W: "track_wf W" and range: "range_ok fd"
  shows "loop_ok env fd W (Some g) st \<Longrightarrow> \<exists>st'. serve_loop env fd g st = Inr st' \<and> loop_ok env fd W None st'"
  using env W range
proof (induction env fd g st rule: serve_loop.induct)
  case (1 env fd g st)
  from serve_group_ok [OF "1.prems"(2,3,4,1)] obtain nxt st' where r: "serve_group env fd g st = Inr (nxt, st')" "loop_ok env fd W nxt st'" by blast
  show ?case
  proof (cases nxt)
    case None
    with r show ?thesis by (simp add: serve_loop.simps [of env fd g])
  next
    case (Some g')
    from "1.IH" [OF r(1) refl Some] r(2) Some "1.prems" have "\<exists>st''. serve_loop env fd g' st' = Inr st'' \<and> loop_ok env fd W None st''" by simp
    with r(1) Some show ?thesis by (simp add: serve_loop.simps [of env fd g])
  qed
qed

lemma delivery_starts:
  assumes "range_ok fd" "cache_true (fe_mget env) W (ts_cache ts)" "\<forall>evs. pending = Some evs \<longrightarrow> honest W (fd_descending fd) (fd_start fd) (fd_end fd) evs"
  shows "loop_ok env fd W (Some (l_group (if fd_descending fd then fd_end fd else fd_start fd))) (delivery_start ts pending)"
proof -
  have "ahead fd (Some (l_group (if fd_descending fd then fd_end fd else fd_start fd))) l \<longleftrightarrow> in_range fd l" for l
    using location_group_mono by (auto simp: ahead_def)
  with assms location_group_mono show ?thesis
    by (auto simp: loop_ok_def delivering_def sent_ok_def delivery_start_def pending_ok_def range_ok_def)
qed

subsection \<open>Properties\<close>

text \<open>C3. What the relay answers to a FETCH is true. Let the cache and every upstream response speak the truth about
  the track, and the transport take the stream. Then a delivery, whatever the cache holds or lets go
  of meanwhile, whichever gaps are asked for, however the responses break off, whenever
  it is stopped, returns without an error; a delivery that was not stopped finishes its stream. The stream is in the
  requested order and its bytes are those of its entries; its Objects are the track's, lie in the range and pass the
  filter; and no Location that the subscriber concludes to be empty, because the next entry is another Object or
  a marker of non-existence, or because the finished stream has no more, holds an Object that passes the
  filter. The cache is left true.\<close>

theorem fetch_answer_truthful:
  assumes "track_wf W" and "env_true env (fd_group_order fd) W" and "fd_start fd \<le> fd_end fd" and "cache_true (fe_mget env) W (ts_cache ts)"
    and "start = delivered_start (fd_start fd) (fd_end fd) (fd_group_order fd)"
    and "\<forall>evs. pending = Some evs \<longrightarrow> honest W (fd_descending fd) start (fd_end fd) evs"
  shows "\<exists>closing st. serve_fetch_stream env fd (delivery_start ts pending) = Inr (closing, st)
    \<and> (dv_stop st = Running \<longrightarrow> closing = Some FinishedEnd)
    \<and> in_order (fd_descending fd) (map re_of (dv_entries st))
    \<and> fetch_stream_write (fd_group_order fd) None (dv_entries st) = Inr (dv_bytes st)
    \<and> (\<forall>p. FetchedObject p \<in> set (dv_entries st) \<longrightarrow>
         start \<le> loc_of (FetchedObject p) \<and> loc_of (FetchedObject p) \<le> fd_end fd \<and> W (loc_of (FetchedObject p)) = Some p \<and> wants fd p)
    \<and> (\<forall>l p. start \<le> l \<and> l \<le> fd_end fd \<and> says_absent (fd_descending fd) (dv_stop st = Running) (map re_of (dv_entries st)) l \<longrightarrow>
         W l = Some p \<longrightarrow> \<not> wants fd p)
    \<and> cache_true (fe_mget env) W (dv_cache st)"
proof -
  let ?fd = "fd\<lparr>fd_start := start\<rparr>"
  have range: "range_ok ?fd"
    using assms(3) by (cases "fd_start fd"; cases "fd_end fd") (auto simp: range_ok_def assms(5) delivered_start_def)
  have env: "env_true env (fd_group_order ?fd) W" using assms(2) by simp
  have "loop_ok env ?fd W (Some (l_group (if fd_descending ?fd then fd_end ?fd else fd_start ?fd))) (delivery_start ts pending)"
    using assms(4,6) by (intro delivery_starts [OF range]) simp_all
  from serve_loop_ok [OF env assms(1) range this] obtain st where st:
    "serve_loop env ?fd (l_group (if fd_descending ?fd then fd_end ?fd else fd_start ?fd)) (delivery_start ts pending) = Inr st"
    "loop_ok env ?fd W None st" by blast
  have run: "serve_fetch_stream env fd (delivery_start ts pending) = Inr (close_delivery env st, st)"
    unfolding serve_fetch_stream_def Let_def assms(5) [symmetric] st(1) by (simp add: rbind_def)
  have "told ?fd W (dv_stop st = Running) (dv_entries st) l" if "start \<le> l" "l \<le> fd_end fd" for l
    using st(2) that by (cases "dv_stop st = Running") (auto simp: loop_ok_def delivering_def ahead_def)
  moreover have "dv_stop st = Running \<longrightarrow> close_delivery env st = Some FinishedEnd"
    using assms(2) by (simp add: close_delivery_def env_true_def transport_ok_def)
  moreover have "sent_ok env ?fd W st" using st(2) by (simp add: loop_ok_def delivering_def)
  ultimately show ?thesis
    unfolding run by (auto simp: sent_ok_def told_def fair_def true_entry_def)
qed

theorem fetch_answer_truthful_witness:
  "let ob = \<lparr> fo_group_id = 3, fo_subgroup_id = 0, fo_object_id = 1, fo_publisher_priority = 1,
              fo_forwarding_preference = FP_Subgroup, fo_properties = None, fo_payload = [7] \<rparr>;
       W = [Location 3 1 \<mapsto> ob];
       env = \<lparr> fe_mget = (\<lambda>c k. c k), fe_mput = (\<lambda>c k v. c(k \<mapsto> v)), fe_ask = (\<lambda>_ _ _. None), fe_others = (\<lambda>_ ts. ts),
               fe_cancel = (\<lambda>_. Running), fe_opens = True, fe_writes = (\<lambda>_. True), fe_max_gaps = 2 \<rparr>;
       fd = \<lparr> fd_start = Location 3 0, fd_end = Location 3 5, fd_group_order = GO_Ascending, fd_filter = combined_filter_default \<rparr>
   in \<exists>closing st. serve_fetch_stream env fd (delivery_start (track_store_new 9 (Map.empty :: cache_key \<rightharpoonup> fetch_object_payload list))
          (Some [UE_Object ob, UE_Accepted (Location 3 5), UE_StreamClosed])) = Inr (closing, st)
        \<and> (dv_stop st = Running \<longrightarrow> closing = Some FinishedEnd)
        \<and> \<not> says_absent False (dv_stop st = Running) (map re_of (dv_entries st)) (Location 3 1)"
proof -
  let ?ob = "\<lparr> fo_group_id = 3, fo_subgroup_id = 0, fo_object_id = 1, fo_publisher_priority = 1,
              fo_forwarding_preference = FP_Subgroup, fo_properties = None, fo_payload = [7] \<rparr>"
  let ?W = "[Location 3 1 \<mapsto> ?ob]"
  let ?env = "\<lparr> fe_mget = (\<lambda>c k. c k), fe_mput = (\<lambda>c k v. c(k \<mapsto> v)), fe_ask = (\<lambda>_ _ _. None), fe_others = (\<lambda>_ ts. ts),
               fe_cancel = (\<lambda>_. Running), fe_opens = True, fe_writes = (\<lambda>_. True), fe_max_gaps = 2 \<rparr>"
  let ?fd = "\<lparr> fd_start = Location 3 0, fd_end = Location 3 5, fd_group_order = GO_Ascending, fd_filter = combined_filter_default \<rparr>"
  let ?evs = "[UE_Object ?ob, UE_Accepted (Location 3 5), UE_StreamClosed]"
  let ?ts = "track_store_new 9 (Map.empty :: cache_key \<rightharpoonup> fetch_object_payload list)"
  have W: "track_wf ?W" by (simp add: track_wf_def)
  have env: "env_true ?env (fd_group_order ?fd) ?W" by (simp add: env_true_def moka_law_def transport_ok_def)
  have tc: "cache_true (fe_mget ?env) ?W (ts_cache ?ts)" unfolding track_store_new_def by (simp add: cache_true_new)
  have h: "honest ?W (fd_descending ?fd) (Location 3 0) (fd_end ?fd) ?evs"
    by (simp add: honest_def true_entry_def earlier_order)
  have "fd_start ?fd \<le> fd_end ?fd" by simp
  from fetch_answer_truthful [OF W env this tc, of "Location 3 0" "Some ?evs"] h
  obtain closing st where r: "serve_fetch_stream ?env ?fd (delivery_start ?ts (Some ?evs)) = Inr (closing, st)"
      "dv_stop st = Running \<longrightarrow> closing = Some FinishedEnd"
    and told: "\<forall>l p. Location 3 0 \<le> l \<and> l \<le> Location 3 5 \<and> says_absent False (dv_stop st = Running) (map re_of (dv_entries st)) l \<longrightarrow>
      ?W l = Some p \<longrightarrow> \<not> wants ?fd p"
    by (auto simp: delivered_start_def)
  have "wants ?fd ?ob" by (simp add: cf_matches_def cf_is_empty_def)
  with told [rule_format, of "Location 3 1" ?ob] have "\<not> says_absent False (dv_stop st = Running) (map re_of (dv_entries st)) (Location 3 1)"
    by auto
  with r show ?thesis unfolding Let_def by blast
qed

end
