(* ===== verification/Live_Track.thy ===== *)
theory Live_Track
  imports Track_Store Seen_Objects Subscription_Manager Stream_Id Data_Stream
    "HOL-Library.Sublist"
begin

text \<open>
  A track of the relay (\<open>apps/relay/src/server/track.rs\<close>): Objects arriving from its publishers are checked
  for duplicates, handed to the subscriptions and kept; publishers come and go; a track whose
  upstream is gone becomes cache-only until the next request takes it over. The theory shows that subscribers hear every Object, and
  once while the relay remembers it, that the store stays true of the track and knows its Largest
  Object after any history, and what letting go of the upstream leaves behind.
  The waits of a PUBLISH_DONE for streams and datagrams, the notifications of status waiters and the log are left out; the
  lock \<open>handover\<close> makes the operations that hold it one step. A SUBSCRIBE_OK that confirms a track
  and a PUBLISH that joins one are single steps too, after the check of the origin they make; the source checks
  first and changes the track later.
\<close>

datatype track_origin = TO_Subscribe | TO_Publish | TO_CacheOnly

datatype track_status =
    TS_Pending
  | TS_Confirmed "message_parameter list"
  | TS_Rejected request_error_code bytes

datatype track_event =
    TE_SubgroupObject stream_id moq_object "header_info option"
  | TE_Datagram datagram
  | TE_StreamClosed stream_id
  | TE_PublisherDisconnected publish_done_status_code string

datatype upstream_request_kind = URK_Subscribe | URK_Fetch

datatype upstream_request_cancellation = URC_Cancelled | URC_MalformedTrack

text \<open>A request holds the sending end of a one-shot channel, named by a number.\<close>

record upstream_request =
  ur_request_id :: u64
  ur_publisher_connection_id :: u64
  ur_kind :: upstream_request_kind
  ur_cancel :: nat

datatype cleanup = CL_Nothing | CL_RemoveAliases "(u64 \<times> u64) list" | CL_RemoveTrack

record publisher_removal =
  pr_alias :: u64
  pr_still_served :: bool

record 'c relay_track =
  rt_origin :: track_origin
  rt_manager :: "track_event subscription_manager"
  rt_publisher_aliases :: "(u64, u64) btree_map"
  rt_store :: "'c track_store"
  rt_seen :: seen_objects
  rt_status :: track_status
  rt_properties :: "track_property list"
  rt_active_headers :: "stream_id \<rightharpoonup> header_info"
  rt_stream_progress :: "u64 \<rightharpoonup> u64"
  rt_datagram_last :: u64
  rt_requests :: "upstream_request list"
  rt_cancels :: "(nat \<times> upstream_request_cancellation) list"
  rt_next_cancel :: nat
  rt_pending_subscribes :: u64
  rt_upstream_forward :: bool

definition track_new ::
  "u64 \<Rightarrow> full_track_name \<Rightarrow> nat \<Rightarrow> 'c \<Rightarrow> track_status \<Rightarrow> track_origin \<Rightarrow> 'c relay_track" where
  "track_new relay_track_id full_track_name dedup_retained_groups empty_cache initial_status origin =
     \<lparr>rt_origin = origin, rt_manager = manager_new relay_track_id full_track_name, rt_publisher_aliases = [],
      rt_store = track_store_new relay_track_id empty_cache, rt_seen = seen_objects_new dedup_retained_groups,
      rt_status = initial_status, rt_properties = [], rt_active_headers = Map.empty, rt_stream_progress = Map.empty,
      rt_datagram_last = 0, rt_requests = [], rt_cancels = [], rt_next_cancel = 0, rt_pending_subscribes = 0, rt_upstream_forward = False\<rparr>"

subsection \<open>Upstream requests\<close>

text \<open>\<open>closed\<close> tells which receiving ends are gone. A cancellation sent is logged with its channel.\<close>

definition request_unregister :: "u64 \<Rightarrow> 'c relay_track \<Rightarrow> 'c relay_track" where
  "request_unregister request_id t = t\<lparr>rt_requests := filter (\<lambda>r. ur_request_id r \<noteq> request_id) (rt_requests t)\<rparr>"

definition request_register ::
  "(nat \<Rightarrow> bool) \<Rightarrow> u64 \<Rightarrow> u64 \<Rightarrow> upstream_request_kind \<Rightarrow> 'c relay_track \<Rightarrow> nat \<times> 'c relay_track" where
  "request_register closed request_id publisher kind t =
     (let t1 = request_unregister request_id (t\<lparr>rt_requests := filter (\<lambda>r. \<not> closed (ur_cancel r)) (rt_requests t)\<rparr>);
          ch = rt_next_cancel t1
      in (ch, t1\<lparr>rt_requests := rt_requests t1 @ [\<lparr>ur_request_id = request_id, ur_publisher_connection_id = publisher,
                   ur_kind = kind, ur_cancel = ch\<rparr>], rt_next_cancel := Suc ch\<rparr>))"

fun cancel_each ::
  "(nat \<Rightarrow> bool) \<Rightarrow> (upstream_request \<Rightarrow> bool) \<Rightarrow> upstream_request_cancellation \<Rightarrow> upstream_request list \<Rightarrow>
   upstream_request list \<times> (nat \<times> upstream_request_cancellation) list" where
  "cancel_each closed matches reason [] = ([], [])"
| "cancel_each closed matches reason (r # rs) =
     (let (left, sent) = cancel_each closed matches reason rs in
      if closed (ur_cancel r) then (left, sent)
      else if matches r then (left, (ur_cancel r, reason) # sent)
      else (r # left, sent))"

definition cancel_matching ::
  "(nat \<Rightarrow> bool) \<Rightarrow> (upstream_request \<Rightarrow> bool) \<Rightarrow> upstream_request_cancellation \<Rightarrow> 'c relay_track \<Rightarrow> 'c relay_track" where
  "cancel_matching closed matches reason t =
     (let (left, sent) = cancel_each closed matches reason (rt_requests t)
      in t\<lparr>rt_requests := left, rt_cancels := rt_cancels t @ sent\<rparr>)"

definition cancel_for_malformed_publisher :: "(nat \<Rightarrow> bool) \<Rightarrow> u64 \<Rightarrow> 'c relay_track \<Rightarrow> 'c relay_track" where
  "cancel_for_malformed_publisher closed publisher t =
     cancel_matching closed (\<lambda>_. True) URC_Cancelled
       (cancel_matching closed (\<lambda>r. ur_kind r = URK_Fetch) URC_MalformedTrack
         (cancel_matching closed (\<lambda>r. ur_publisher_connection_id r = publisher) URC_MalformedTrack t))"

definition upstream_subscribe_answered :: "'c relay_track \<Rightarrow> u64 \<times> 'c relay_track" where
  "upstream_subscribe_answered t =
     (if rt_pending_subscribes t > 0
      then (rt_pending_subscribes t - 1, t\<lparr>rt_pending_subscribes := rt_pending_subscribes t - 1\<rparr>)
      else (0, t))"

subsection \<open>Arrivals\<close>

definition emit :: "(nat \<Rightarrow> subscription_id list) \<Rightarrow> track_event \<Rightarrow> 'c relay_track \<Rightarrow> 'c relay_track" where
  "emit order event t = t\<lparr>rt_manager := snd (send_event_to_subscribers order event (rt_manager t))\<rparr>"

definition new_subgroup_object ::
  "('c \<Rightarrow> cache_key \<Rightarrow> fetch_object_payload list option) \<Rightarrow> ('c \<Rightarrow> cache_key \<Rightarrow> fetch_object_payload list \<Rightarrow> 'c) \<Rightarrow>
   (nat \<Rightarrow> subscription_id list) \<Rightarrow> stream_id \<Rightarrow> moq_object \<Rightarrow> header_info option \<Rightarrow> 'c relay_track \<Rightarrow> 'c relay_track" where
  "new_subgroup_object mget mput order sid ob hi t =
     (case is_duplicate (rt_seen t) (ob_location ob) of (duplicate, seen) \<Rightarrow>
        let t1 = t\<lparr>rt_seen := seen\<rparr> in
        if duplicate then t1
        else let t2 = (case hi of Some h \<Rightarrow> t1\<lparr>rt_active_headers := (rt_active_headers t1)(sid \<mapsto> h)\<rparr> | None \<Rightarrow> t1);
                 t3 = emit order (TE_SubgroupObject sid ob hi) t2
             in t3\<lparr>rt_store := store_live mget mput ob False (rt_store t3)\<rparr>)"

definition default_publisher_priority :: "'c relay_track \<Rightarrow> u8" where
  "default_publisher_priority t =
     (case List.map_filter (\<lambda>p. case p of TP_DefaultPublisherPriority priority \<Rightarrow> Some priority | _ \<Rightarrow> None) (rt_properties t) of
        priority # _ \<Rightarrow> priority | [] \<Rightarrow> Header_Types.DEFAULT_PUBLISHER_PRIORITY)"

definition new_datagram ::
  "('c \<Rightarrow> cache_key \<Rightarrow> fetch_object_payload list option) \<Rightarrow> ('c \<Rightarrow> cache_key \<Rightarrow> fetch_object_payload list \<Rightarrow> 'c) \<Rightarrow>
   (nat \<Rightarrow> subscription_id list) \<Rightarrow> u64 \<Rightarrow> datagram \<Rightarrow> 'c relay_track \<Rightarrow> 'c relay_track" where
  "new_datagram mget mput order micros d t0 =
     (let t = t0\<lparr>rt_datagram_last := micros + 1\<rparr> in
      case try_from_datagram d (default_publisher_priority t) of
        Inl _ \<Rightarrow> emit order (TE_Datagram d) t
      | Inr (ob, end_of_group) \<Rightarrow>
          (case is_duplicate (rt_seen t) (ob_location ob) of (duplicate, seen) \<Rightarrow>
             let t1 = t\<lparr>rt_seen := seen\<rparr> in
             if duplicate then t1
             else emit order (TE_Datagram d) (t1\<lparr>rt_store := store_live mget mput ob end_of_group (rt_store t1)\<rparr>)))"

definition stream_closed :: "(nat \<Rightarrow> subscription_id list) \<Rightarrow> stream_id \<Rightarrow> 'c relay_track \<Rightarrow> 'c relay_track" where
  "stream_closed order sid t =
     emit order (TE_StreamClosed sid) (t\<lparr>rt_active_headers := (rt_active_headers t)(sid := None)\<rparr>)"

definition notify_publish_done ::
  "(nat \<Rightarrow> subscription_id list) \<Rightarrow> publish_done_status_code \<Rightarrow> string \<Rightarrow> 'c relay_track \<Rightarrow> 'c relay_track" where
  "notify_publish_done order status_code reason = emit order (TE_PublisherDisconnected status_code reason)"

definition notify_publisher_disconnected :: "(nat \<Rightarrow> subscription_id list) \<Rightarrow> 'c relay_track \<Rightarrow> 'c relay_track" where
  "notify_publisher_disconnected order = notify_publish_done order PDS_TrackEnded ''Publisher disconnected''"

subsection \<open>Publishers\<close>

definition progress_stream_closed :: "u64 \<Rightarrow> 'c relay_track \<Rightarrow> 'c relay_track" where
  "progress_stream_closed publisher t =
     t\<lparr>rt_stream_progress := (rt_stream_progress t)(publisher \<mapsto>
        (case rt_stream_progress t publisher of Some n \<Rightarrow> n | None \<Rightarrow> 0) + 1)\<rparr>"

definition closed_count :: "'c relay_track \<Rightarrow> u64 \<Rightarrow> u64" where
  "closed_count t publisher = (case rt_stream_progress t publisher of Some n \<Rightarrow> n | None \<Rightarrow> 0)"

definition progress_forget :: "u64 \<Rightarrow> 'c relay_track \<Rightarrow> 'c relay_track" where
  "progress_forget publisher t = t\<lparr>rt_stream_progress := (rt_stream_progress t)(publisher := None)\<rparr>"

definition add_publisher :: "u64 \<Rightarrow> u64 \<Rightarrow> 'c relay_track \<Rightarrow> 'c relay_track" where
  "add_publisher connection_id track_alias t = t\<lparr>rt_publisher_aliases := bt_insert connection_id track_alias (rt_publisher_aliases t)\<rparr>"

definition take_publisher :: "u64 \<Rightarrow> 'c relay_track \<Rightarrow> (u64 option \<times> bool) \<times> 'c relay_track" where
  "take_publisher connection_id t =
     (let aliases = bt_remove connection_id (rt_publisher_aliases t)
      in ((map_of (rt_publisher_aliases t) connection_id, aliases \<noteq> []), t\<lparr>rt_publisher_aliases := aliases\<rparr>))"

definition remove_publisher ::
  "(nat \<Rightarrow> subscription_id list) \<Rightarrow> u64 \<Rightarrow> 'c relay_track \<Rightarrow> publisher_removal option \<times> 'c relay_track" where
  "remove_publisher order connection_id t =
     (case take_publisher connection_id t of
        ((None, _), t1) \<Rightarrow> (None, t1)
      | ((Some track_alias, still_served), t1) \<Rightarrow>
          (let t2 = progress_forget connection_id t1;
               t3 = (if \<not> still_served then notify_publisher_disconnected order t2 else t2)
           in (Some \<lparr>pr_alias = track_alias, pr_still_served = still_served\<rparr>, t3)))"

definition remove_publisher_quietly :: "u64 \<Rightarrow> 'c relay_track \<Rightarrow> bool \<times> 'c relay_track" where
  "remove_publisher_quietly connection_id t =
     (case take_publisher connection_id t of ((_, still_served), t1) \<Rightarrow> (still_served, t1))"

definition is_published_by :: "'c relay_track \<Rightarrow> u64 \<Rightarrow> bool" where
  "is_published_by t connection_id \<longleftrightarrow> map_of (rt_publisher_aliases t) connection_id \<noteq> None"

definition confirm ::
  "u64 \<Rightarrow> u64 \<Rightarrow> message_parameter list \<Rightarrow> track_property list \<Rightarrow> 'c relay_track \<Rightarrow> bool \<times> 'c relay_track" where
  "confirm connection_id track_alias upstream_parameters properties t =
     (let t1 = (add_publisher connection_id track_alias t)\<lparr>rt_properties := properties\<rparr>;
          was_pending = (rt_status t1 = TS_Pending)
      in (was_pending, if was_pending then t1\<lparr>rt_status := TS_Confirmed upstream_parameters\<rparr> else t1))"

definition set_track_properties :: "track_property list \<Rightarrow> 'c relay_track \<Rightarrow> 'c relay_track" where
  "set_track_properties properties t = t\<lparr>rt_properties := properties\<rparr>"

definition reject :: "request_error_code \<Rightarrow> bytes \<Rightarrow> 'c relay_track \<Rightarrow> 'c relay_track" where
  "reject error_code reason_phrase t = t\<lparr>rt_status := TS_Rejected error_code reason_phrase\<rparr>"

subsection \<open>Handing over\<close>

definition take_over :: "track_origin \<Rightarrow> track_status \<Rightarrow> 'c relay_track \<Rightarrow> bool \<times> 'c relay_track" where
  "take_over origin status t =
     (if rt_origin t = TO_CacheOnly then (True, t\<lparr>rt_origin := origin, rt_status := status\<rparr>) else (False, t))"

text \<open>\<open>cache_empty\<close> is the moka cache's count being zero.\<close>

definition become_cache_only :: "(nat \<Rightarrow> bool) \<Rightarrow> ('c \<Rightarrow> bool) \<Rightarrow> 'c relay_track \<Rightarrow> cleanup \<times> 'c relay_track" where
  "become_cache_only closed cache_empty t =
     (if cache_empty (tc_cache (ts_cache (rt_store t))) then (CL_RemoveTrack, t)
      else
        (let aliases = rt_publisher_aliases t;
             t1 = fold (\<lambda>(connection_id, _). progress_forget connection_id) aliases
                    (t\<lparr>rt_status := TS_Pending, rt_publisher_aliases := []\<rparr>);
             t2 = cancel_matching closed (\<lambda>r. ur_kind r = URK_Subscribe) URC_Cancelled t1
         in (CL_RemoveAliases aliases,
             t2\<lparr>rt_active_headers := Map.empty, rt_pending_subscribes := 0, rt_upstream_forward := False, rt_origin := TO_CacheOnly\<rparr>)))"

definition remove_subscriber ::
  "(bytes \<Rightarrow> u64) \<Rightarrow> (nat \<Rightarrow> bool) \<Rightarrow> ('c \<Rightarrow> bool) \<Rightarrow> subscription_id \<Rightarrow> 'c relay_track \<Rightarrow> cleanup \<times> 'c relay_track" where
  "remove_subscriber fnv_hash closed cache_empty leaving t =
     (let t1 = t\<lparr>rt_manager := snd (remove_subscription fnv_hash leaving (rt_manager t))\<rparr> in
      if subscriber_count (rt_manager t1) > 0 then (CL_Nothing, t1)
      else let t2 = cancel_matching closed (\<lambda>r. ur_kind r = URK_Subscribe) URC_Cancelled t1 in
           if rt_origin t2 \<noteq> TO_Subscribe then (CL_Nothing, t2)
           else become_cache_only closed cache_empty t2)"

definition retire :: "(nat \<Rightarrow> bool) \<Rightarrow> ('c \<Rightarrow> bool) \<Rightarrow> 'c relay_track \<Rightarrow> cleanup \<times> 'c relay_track" where
  "retire closed cache_empty t =
     (case become_cache_only closed cache_empty t of
        (CL_RemoveAliases aliases, t1) \<Rightarrow> (CL_RemoveAliases aliases, t1\<lparr>rt_manager := snd (detach_all (rt_manager t1))\<rparr>)
      | (result, t1) \<Rightarrow> (result, t1))"

text \<open>How the handlers use these operations: a SUBSCRIBE takes a track over and joins it under
  \<open>handover\<close>, a PUBLISH takes it over and becomes a publisher, and a SUBSCRIBE sent upstream is registered and
  cancelled at once when nobody waits for it any more.\<close>

definition subscribe_join ::
  "(bytes \<Rightarrow> u64) \<Rightarrow> track_alias_mode \<Rightarrow> u64 \<Rightarrow> subscribe_msg \<Rightarrow> u64 \<Rightarrow> 'c relay_track \<Rightarrow>
   (bool \<times> subscription option \<times> u64) \<times> 'c relay_track" where
  "subscribe_join fnv_hash mode connection_id sub next_alias t =
     (let (taken_over, t1) = take_over TO_Subscribe TS_Pending t;
          (subscription, next_alias', m) = add_subscription fnv_hash mode connection_id (OriginSubscribe sub) next_alias (rt_manager t1)
      in ((taken_over, subscription, next_alias'), t1\<lparr>rt_manager := m\<rparr>))"

definition publish_join :: "u64 \<Rightarrow> u64 \<Rightarrow> 'c relay_track \<Rightarrow> 'c relay_track" where
  "publish_join connection_id track_alias t =
     add_publisher connection_id track_alias (snd (take_over TO_Publish (TS_Confirmed []) t))"

definition register_subscribe ::
  "(nat \<Rightarrow> bool) \<Rightarrow> bool \<Rightarrow> u64 \<Rightarrow> u64 \<Rightarrow> 'c relay_track \<Rightarrow> nat \<times> 'c relay_track" where
  "register_subscribe closed malformed request_id publisher t =
     (let (receiver, t1) = request_register closed request_id publisher URK_Subscribe t;
          reason = (if malformed then Some URC_MalformedTrack
                    else if subscriber_count (rt_manager t1) = 0 then Some URC_Cancelled else None)
      in (receiver, case reason of
            Some r \<Rightarrow> cancel_matching closed (\<lambda>x. ur_request_id x = request_id) r t1
          | None \<Rightarrow> t1))"

subsection \<open>Subscribers hear every Object\<close>

datatype arrival = ArriveSubgroup stream_id moq_object "header_info option" | ArriveDatagram u64 datagram

fun arrival_location :: "arrival \<Rightarrow> location" where
  "arrival_location (ArriveSubgroup _ ob _) = ob_location ob"
| "arrival_location (ArriveDatagram _ d) = Location (dg_group_id d) (dg_object_id d)"

fun arrival_event :: "arrival \<Rightarrow> track_event" where
  "arrival_event (ArriveSubgroup sid ob hi) = TE_SubgroupObject sid ob hi"
| "arrival_event (ArriveDatagram _ d) = TE_Datagram d"

fun arrive ::
  "('c \<Rightarrow> cache_key \<Rightarrow> fetch_object_payload list option) \<Rightarrow> ('c \<Rightarrow> cache_key \<Rightarrow> fetch_object_payload list \<Rightarrow> 'c) \<Rightarrow>
   (nat \<Rightarrow> subscription_id list) \<times> arrival \<Rightarrow> 'c relay_track \<Rightarrow> 'c relay_track" where
  "arrive mget mput (order, ArriveSubgroup sid ob hi) t = new_subgroup_object mget mput order sid ob hi t"
| "arrive mget mput (order, ArriveDatagram micros d) t = new_datagram mget mput order micros d t"

lemma arrive_step:
  assumes "is_duplicate (rt_seen t) (arrival_location a) = (dup, seen)"
  shows "rt_seen (arrive mget mput (order, a) t) = seen"
    "rt_manager (arrive mget mput (order, a) t) =
       (if dup then rt_manager t else snd (send_event_to_subscribers order (arrival_event a) (rt_manager t)))"
  using assms
  by (cases a; simp add: new_subgroup_object_def new_datagram_def emit_def Let_def try_from_datagram_def split: option.splits prod.splits)+

text \<open>Which arrivals pass the duplicate check, by the history of Locations.\<close>

fun passed :: "nat \<Rightarrow> location set \<Rightarrow> arrival list \<Rightarrow> arrival list" where
  "passed n L [] = []"
| "passed n L (a # as) =
     (if remembered n L (arrival_location a) then passed n (insert (arrival_location a) L) as
      else a # passed n (insert (arrival_location a) L) as)"

lemma iterates_send: "iterates order (snd (send_event_to_subscribers o' e m)) = iterates order m"
  by (simp add: iterates_def send_event_to_subscribers_def Let_def split: prod.splits)

lemma arrivals_heard:
  assumes n: "0 < n" "n < 2 ^ 64"
  shows "ring_ok n L (rt_seen t) \<Longrightarrow> mg_inv h (rt_manager t) \<Longrightarrow> heard (rt_manager t) sid = Some (es, True) \<Longrightarrow>
    \<forall>x \<in> set xs. iterates (fst x) (rt_manager t) \<Longrightarrow>
    heard (rt_manager (fold (arrive mget mput) xs t)) sid = Some (es @ map arrival_event (passed n L (map snd xs)), True)"
proof (induction xs arbitrary: L t es)
  case (Cons x xs)
  obtain order a where x: "x = (order, a)" by (cases x)
  obtain dup seen where run: "is_duplicate (rt_seen t) (arrival_location a) = (dup, seen)" by fastforce
  note step = arrive_step [OF run, of mget mput order]
  from is_duplicate_step [OF Cons.prems(1) n run] have ring: "ring_ok n (insert (arrival_location a) L) seen"
    and dup: "dup \<longleftrightarrow> remembered n L (arrival_location a)" by auto
  let ?t = "arrive mget mput (order, a) t"
  have it: "iterates order (rt_manager t)" using Cons.prems(4) by (simp add: x)
  note send = send_event_inv(1,2) [OF Cons.prems(2) it, of "arrival_event a"]
  have inv: "mg_inv h (rt_manager ?t)" using Cons.prems(2) send(1) by (simp add: step)
  have h: "heard (rt_manager ?t) sid = Some (es @ (if dup then [] else [arrival_event a]), True)"
    using Cons.prems(3) send(2) by (auto simp: step)
  have "\<forall>y \<in> set xs. iterates (fst y) (rt_manager ?t)" using Cons.prems(4) by (simp add: step iterates_send)
  from Cons.IH [OF _ inv h this] ring step(1) dup show ?case by (simp add: x)
qed simp

lemma passed_all: "arrival_location ` set (passed n L as) \<union> L = arrival_location ` set as \<union> L"
proof (induction as arbitrary: L)
  case (Cons a as)
  let ?l = "arrival_location a"
  note IH = Cons.IH [of "insert ?l L"]
  show ?case
  proof (cases "remembered n L ?l")
    case True
    then have "?l \<in> L" by (simp add: remembered_def)
    with IH True show ?thesis by (simp add: insert_absorb)
  qed (use IH in simp)
qed simp

definition close_by :: "nat \<Rightarrow> location set \<Rightarrow> bool" where
  "close_by n L \<longleftrightarrow> (\<forall>l \<in> L. \<forall>m \<in> L. (unat (l_group l) mod n = unat (l_group m) mod n \<longrightarrow> l_group l = l_group m)
     \<and> (l_group l = l_group m \<longrightarrow> unat (l_object m) < unat (l_object l) + 4096))"

lemma passed_once:
  "close_by n (L \<union> arrival_location ` set as) \<Longrightarrow>
     distinct (map arrival_location (passed n L as)) \<and> arrival_location ` set (passed n L as) \<inter> L = {}"
proof (induction as arbitrary: L)
  case (Cons a as)
  let ?l = "arrival_location a"
  have "close_by n (insert ?l L \<union> arrival_location ` set as)" using Cons.prems by (simp add: insert_commute)
  note IH = Cons.IH [OF this]
  have "remembered n L ?l" if "?l \<in> L" using that Cons.prems by (auto simp: remembered_def close_by_def)
  with IH show ?case by auto
qed simp

subsection \<open>Every history\<close>

text \<open>The steps of a track's life. Arrivals, fetched Objects and what a delivery records are true of the track \<open>W\<close>;
  groups may leave the cache and receivers may go at any time. A publisher answers or is added only while
  the track is not cache-only, as the handlers check. \<open>H\<close> is the set of Locations that arrived.\<close>

inductive track_reach ::
  "('c \<Rightarrow> cache_key \<Rightarrow> fetch_object_payload list option) \<Rightarrow> ('c \<Rightarrow> cache_key \<Rightarrow> fetch_object_payload list \<Rightarrow> 'c) \<Rightarrow>
   (bytes \<Rightarrow> u64) \<Rightarrow> ('c \<Rightarrow> bool) \<Rightarrow> track_objects \<Rightarrow> nat \<Rightarrow> 'c relay_track \<Rightarrow> location set \<Rightarrow> bool"
  for mget mput h cache_empty W n where
  tr_new: "(\<And>k. mget c k = None) \<Longrightarrow> n < 2 ^ 64 \<Longrightarrow>
    track_reach mget mput h cache_empty W n (track_new rid name n c status ori) {}"
| tr_subgroup: "track_reach mget mput h cache_empty W n t H \<Longrightarrow> iterates order (rt_manager t) \<Longrightarrow> object_true W ob False \<Longrightarrow>
    track_reach mget mput h cache_empty W n (new_subgroup_object mget mput order sid ob hi t) (insert (ob_location ob) H)"
| tr_datagram: "track_reach mget mput h cache_empty W n t H \<Longrightarrow> iterates order (rt_manager t) \<Longrightarrow>
    try_from_datagram d (default_publisher_priority t) = Inr (ob, e) \<Longrightarrow> object_true W ob e \<Longrightarrow>
    track_reach mget mput h cache_empty W n (new_datagram mget mput order micros d t) (insert (ob_location ob) H)"
| tr_fetched: "track_reach mget mput h cache_empty W n t H \<Longrightarrow> (\<And>p. try_into_fetch ob = Inr p \<Longrightarrow> W (ob_location ob) = Some p) \<Longrightarrow>
    track_reach mget mput h cache_empty W n (t\<lparr>rt_store := cache_fetched_object mget mput ob (rt_store t)\<rparr>) (insert (ob_location ob) H)"
| tr_absent: "track_reach mget mput h cache_empty W n t H \<Longrightarrow> (\<And>l. lo \<le> l \<Longrightarrow> l \<le> hi \<Longrightarrow> W l = None) \<Longrightarrow>
    track_reach mget mput h cache_empty W n (t\<lparr>rt_store := (rt_store t)\<lparr>ts_cache := mark_absent (ts_cache (rt_store t)) lo hi\<rparr>\<rparr>) H"
| tr_group_ended: "track_reach mget mput h cache_empty W n t H \<Longrightarrow> \<forall>m. l < m \<and> l_group m = l_group l \<longrightarrow> W m = None \<Longrightarrow>
    track_reach mget mput h cache_empty W n (t\<lparr>rt_store := (rt_store t)\<lparr>ts_cache := group_ended_after l (ts_cache (rt_store t))\<rparr>\<rparr>) H"
| tr_evict: "track_reach mget mput h cache_empty W n t H \<Longrightarrow> (\<And>k. mget c k = None \<or> mget c k = mget (tc_cache (ts_cache (rt_store t))) k) \<Longrightarrow>
    track_reach mget mput h cache_empty W n
      (t\<lparr>rt_store := (rt_store t)\<lparr>ts_cache := (ts_cache (rt_store t))\<lparr>tc_cache := c\<rparr>\<rparr>\<rparr>) H"
| tr_stream_closed: "track_reach mget mput h cache_empty W n t H \<Longrightarrow> iterates order (rt_manager t) \<Longrightarrow>
    track_reach mget mput h cache_empty W n (stream_closed order sid t) H"
| tr_publish_done: "track_reach mget mput h cache_empty W n t H \<Longrightarrow> iterates order (rt_manager t) \<Longrightarrow>
    track_reach mget mput h cache_empty W n (notify_publish_done order code reason t) H"
| tr_subscribe: "track_reach mget mput h cache_empty W n t H \<Longrightarrow>
    track_reach mget mput h cache_empty W n (snd (subscribe_join h mode connection_id sub next_alias t)) H"
| tr_receiver_gone: "track_reach mget mput h cache_empty W n t H \<Longrightarrow>
    track_reach mget mput h cache_empty W n (t\<lparr>rt_manager := (rt_manager t)\<lparr>mg_channels :=
      (mg_channels (rt_manager t))[i := (mg_channels (rt_manager t) ! i)\<lparr>ch_open := False\<rparr>]\<rparr>\<rparr>) H"
| tr_leave: "track_reach mget mput h cache_empty W n t H \<Longrightarrow>
    track_reach mget mput h cache_empty W n (snd (remove_subscriber h closed cache_empty leaving t)) H"
| tr_retire: "track_reach mget mput h cache_empty W n t H \<Longrightarrow>
    track_reach mget mput h cache_empty W n (snd (retire closed cache_empty t)) H"
| tr_publish: "track_reach mget mput h cache_empty W n t H \<Longrightarrow>
    track_reach mget mput h cache_empty W n (publish_join connection_id track_alias t) H"
| tr_confirm: "track_reach mget mput h cache_empty W n t H \<Longrightarrow> rt_origin t \<noteq> TO_CacheOnly \<Longrightarrow>
    track_reach mget mput h cache_empty W n (snd (confirm connection_id track_alias params properties t)) H"
| tr_reject: "track_reach mget mput h cache_empty W n t H \<Longrightarrow> rt_origin t \<noteq> TO_CacheOnly \<Longrightarrow>
    track_reach mget mput h cache_empty W n (reject code phrase t) H"
| tr_publisher_leaves: "track_reach mget mput h cache_empty W n t H \<Longrightarrow> iterates order (rt_manager t) \<Longrightarrow>
    track_reach mget mput h cache_empty W n (snd (remove_publisher order connection_id t)) H"
| tr_publisher_leaves_quietly: "track_reach mget mput h cache_empty W n t H \<Longrightarrow>
    track_reach mget mput h cache_empty W n (snd (remove_publisher_quietly connection_id t)) H"
| tr_properties: "track_reach mget mput h cache_empty W n t H \<Longrightarrow>
    track_reach mget mput h cache_empty W n (set_track_properties properties t) H"
| tr_progress: "track_reach mget mput h cache_empty W n t H \<Longrightarrow>
    track_reach mget mput h cache_empty W n (progress_stream_closed connection_id t) H"
| tr_register_subscribe: "track_reach mget mput h cache_empty W n t H \<Longrightarrow>
    track_reach mget mput h cache_empty W n (snd (register_subscribe closed malformed request_id connection_id t)) H"
| tr_register_fetch: "track_reach mget mput h cache_empty W n t H \<Longrightarrow>
    track_reach mget mput h cache_empty W n (snd (request_register closed request_id connection_id URK_Fetch t)) H"
| tr_unregister: "track_reach mget mput h cache_empty W n t H \<Longrightarrow>
    track_reach mget mput h cache_empty W n (request_unregister request_id t) H"
| tr_cancel: "track_reach mget mput h cache_empty W n t H \<Longrightarrow>
    track_reach mget mput h cache_empty W n (cancel_matching closed matches reason t) H"
| tr_malformed: "track_reach mget mput h cache_empty W n t H \<Longrightarrow>
    track_reach mget mput h cache_empty W n (cancel_for_malformed_publisher closed connection_id t) H"
| tr_answered: "track_reach mget mput h cache_empty W n t H \<Longrightarrow>
    track_reach mget mput h cache_empty W n (snd (upstream_subscribe_answered t)) H"

text \<open>What each part of the state keeps to.\<close>

definition store_ok ::
  "('c \<Rightarrow> cache_key \<Rightarrow> fetch_object_payload list option) \<Rightarrow> track_objects \<Rightarrow> location set \<Rightarrow> 'c track_store \<Rightarrow> bool" where
  "store_ok mget W H ts \<longleftrightarrow> cache_true mget W (ts_cache ts) \<and> finite H \<and> ts_has_objects ts = (H \<noteq> {})
     \<and> ts_largest_location ts = (if H = {} then Location 0 0 else Max H)"

definition seen_ok :: "nat \<Rightarrow> location set \<Rightarrow> seen_objects \<Rightarrow> bool" where
  "seen_ok n H slots \<longleftrightarrow> (if n = 0 then slots = [] else \<exists>L \<subseteq> H. ring_ok n L slots)"

definition requests_ok :: "'c relay_track \<Rightarrow> bool" where
  "requests_ok t \<longleftrightarrow> distinct (map ur_request_id (rt_requests t))
     \<and> distinct (map ur_cancel (rt_requests t) @ map fst (rt_cancels t))
     \<and> (\<forall>ch \<in> set (map ur_cancel (rt_requests t) @ map fst (rt_cancels t)). ch < rt_next_cancel t)"

definition quiet_ok :: "'c relay_track \<Rightarrow> bool" where
  "quiet_ok t \<longleftrightarrow> (rt_origin t = TO_CacheOnly \<longrightarrow>
     rt_publisher_aliases t = [] \<and> mg_subscriptions (rt_manager t) = [] \<and> (\<forall>r \<in> set (rt_requests t). ur_kind r = URK_Fetch))"

text \<open>What each operation leaves alone.\<close>

lemma request_unregister_frame [simp]:
  "rt_origin (request_unregister rid t) = rt_origin t"
  "rt_manager (request_unregister rid t) = rt_manager t"
  "rt_publisher_aliases (request_unregister rid t) = rt_publisher_aliases t"
  "rt_store (request_unregister rid t) = rt_store t"
  "rt_seen (request_unregister rid t) = rt_seen t"
  "rt_cancels (request_unregister rid t) = rt_cancels t"
  "rt_next_cancel (request_unregister rid t) = rt_next_cancel t"
  by (simp_all add: request_unregister_def)

lemma request_register_frame [simp]:
  "rt_origin (snd (request_register closed rid pub kind t)) = rt_origin t"
  "rt_manager (snd (request_register closed rid pub kind t)) = rt_manager t"
  "rt_publisher_aliases (snd (request_register closed rid pub kind t)) = rt_publisher_aliases t"
  "rt_store (snd (request_register closed rid pub kind t)) = rt_store t"
  "rt_seen (snd (request_register closed rid pub kind t)) = rt_seen t"
  "rt_cancels (snd (request_register closed rid pub kind t)) = rt_cancels t"
  by (simp_all add: request_register_def Let_def)

lemma cancel_matching_frame [simp]:
  "rt_origin (cancel_matching closed P reason t) = rt_origin t"
  "rt_manager (cancel_matching closed P reason t) = rt_manager t"
  "rt_publisher_aliases (cancel_matching closed P reason t) = rt_publisher_aliases t"
  "rt_store (cancel_matching closed P reason t) = rt_store t"
  "rt_seen (cancel_matching closed P reason t) = rt_seen t"
  "rt_next_cancel (cancel_matching closed P reason t) = rt_next_cancel t"
  by (simp_all add: cancel_matching_def split: prod.splits)

lemma cancel_malformed_frame [simp]:
  "rt_origin (cancel_for_malformed_publisher closed pub t) = rt_origin t"
  "rt_manager (cancel_for_malformed_publisher closed pub t) = rt_manager t"
  "rt_publisher_aliases (cancel_for_malformed_publisher closed pub t) = rt_publisher_aliases t"
  "rt_store (cancel_for_malformed_publisher closed pub t) = rt_store t"
  "rt_seen (cancel_for_malformed_publisher closed pub t) = rt_seen t"
  "rt_next_cancel (cancel_for_malformed_publisher closed pub t) = rt_next_cancel t"
  by (simp_all add: cancel_for_malformed_publisher_def)

lemma answered_frame [simp]:
  "rt_origin (snd (upstream_subscribe_answered t)) = rt_origin t"
  "rt_manager (snd (upstream_subscribe_answered t)) = rt_manager t"
  "rt_publisher_aliases (snd (upstream_subscribe_answered t)) = rt_publisher_aliases t"
  "rt_store (snd (upstream_subscribe_answered t)) = rt_store t"
  "rt_seen (snd (upstream_subscribe_answered t)) = rt_seen t"
  "rt_requests (snd (upstream_subscribe_answered t)) = rt_requests t"
  "rt_cancels (snd (upstream_subscribe_answered t)) = rt_cancels t"
  "rt_next_cancel (snd (upstream_subscribe_answered t)) = rt_next_cancel t"
  by (simp_all add: upstream_subscribe_answered_def)

lemma emit_frame [simp]:
  "rt_origin (emit order e t) = rt_origin t"
  "rt_publisher_aliases (emit order e t) = rt_publisher_aliases t"
  "rt_store (emit order e t) = rt_store t"
  "rt_seen (emit order e t) = rt_seen t"
  "rt_requests (emit order e t) = rt_requests t"
  "rt_cancels (emit order e t) = rt_cancels t"
  "rt_next_cancel (emit order e t) = rt_next_cancel t"
  by (simp_all add: emit_def)

lemma progress_forget_frame [simp]:
  "rt_origin (progress_forget c t) = rt_origin t"
  "rt_manager (progress_forget c t) = rt_manager t"
  "rt_publisher_aliases (progress_forget c t) = rt_publisher_aliases t"
  "rt_store (progress_forget c t) = rt_store t"
  "rt_seen (progress_forget c t) = rt_seen t"
  "rt_requests (progress_forget c t) = rt_requests t"
  "rt_cancels (progress_forget c t) = rt_cancels t"
  "rt_next_cancel (progress_forget c t) = rt_next_cancel t"
  by (simp_all add: progress_forget_def)

lemma stream_closed_frame [simp]:
  "rt_origin (stream_closed order sid t) = rt_origin t"
  "rt_publisher_aliases (stream_closed order sid t) = rt_publisher_aliases t"
  "rt_store (stream_closed order sid t) = rt_store t"
  "rt_seen (stream_closed order sid t) = rt_seen t"
  "rt_requests (stream_closed order sid t) = rt_requests t"
  "rt_cancels (stream_closed order sid t) = rt_cancels t"
  "rt_next_cancel (stream_closed order sid t) = rt_next_cancel t"
  by (simp_all add: stream_closed_def)

lemma notify_publish_done_frame [simp]:
  "rt_origin (notify_publish_done order code reason t) = rt_origin t"
  "rt_publisher_aliases (notify_publish_done order code reason t) = rt_publisher_aliases t"
  "rt_store (notify_publish_done order code reason t) = rt_store t"
  "rt_seen (notify_publish_done order code reason t) = rt_seen t"
  "rt_requests (notify_publish_done order code reason t) = rt_requests t"
  "rt_cancels (notify_publish_done order code reason t) = rt_cancels t"
  "rt_next_cancel (notify_publish_done order code reason t) = rt_next_cancel t"
  by (simp_all add: notify_publish_done_def)

lemma add_publisher_frame [simp]:
  "rt_origin (add_publisher c a t) = rt_origin t"
  "rt_manager (add_publisher c a t) = rt_manager t"
  "rt_store (add_publisher c a t) = rt_store t"
  "rt_seen (add_publisher c a t) = rt_seen t"
  "rt_requests (add_publisher c a t) = rt_requests t"
  "rt_cancels (add_publisher c a t) = rt_cancels t"
  "rt_next_cancel (add_publisher c a t) = rt_next_cancel t"
  by (simp_all add: add_publisher_def)

lemma take_publisher_frame [simp]:
  "rt_origin (snd (take_publisher c t)) = rt_origin t"
  "rt_manager (snd (take_publisher c t)) = rt_manager t"
  "rt_store (snd (take_publisher c t)) = rt_store t"
  "rt_seen (snd (take_publisher c t)) = rt_seen t"
  "rt_requests (snd (take_publisher c t)) = rt_requests t"
  "rt_cancels (snd (take_publisher c t)) = rt_cancels t"
  "rt_next_cancel (snd (take_publisher c t)) = rt_next_cancel t"
  by (simp_all add: take_publisher_def Let_def)

lemma confirm_frame [simp]:
  "rt_origin (snd (confirm c a ps props t)) = rt_origin t"
  "rt_manager (snd (confirm c a ps props t)) = rt_manager t"
  "rt_store (snd (confirm c a ps props t)) = rt_store t"
  "rt_seen (snd (confirm c a ps props t)) = rt_seen t"
  "rt_requests (snd (confirm c a ps props t)) = rt_requests t"
  "rt_cancels (snd (confirm c a ps props t)) = rt_cancels t"
  "rt_next_cancel (snd (confirm c a ps props t)) = rt_next_cancel t"
  by (simp_all add: confirm_def Let_def)

lemma take_over_frame [simp]:
  "rt_manager (snd (take_over ori st t)) = rt_manager t"
  "rt_publisher_aliases (snd (take_over ori st t)) = rt_publisher_aliases t"
  "rt_store (snd (take_over ori st t)) = rt_store t"
  "rt_seen (snd (take_over ori st t)) = rt_seen t"
  "rt_requests (snd (take_over ori st t)) = rt_requests t"
  "rt_cancels (snd (take_over ori st t)) = rt_cancels t"
  "rt_next_cancel (snd (take_over ori st t)) = rt_next_cancel t"
  by (simp_all add: take_over_def)

lemma new_subgroup_object_frame [simp]:
  "rt_origin (new_subgroup_object mget mput order sid ob hi t) = rt_origin t"
  "rt_publisher_aliases (new_subgroup_object mget mput order sid ob hi t) = rt_publisher_aliases t"
  "rt_requests (new_subgroup_object mget mput order sid ob hi t) = rt_requests t"
  "rt_cancels (new_subgroup_object mget mput order sid ob hi t) = rt_cancels t"
  "rt_next_cancel (new_subgroup_object mget mput order sid ob hi t) = rt_next_cancel t"
  by (simp_all add: new_subgroup_object_def Let_def split: prod.splits option.splits)

lemma new_datagram_frame [simp]:
  "rt_origin (new_datagram mget mput order micros d t) = rt_origin t"
  "rt_publisher_aliases (new_datagram mget mput order micros d t) = rt_publisher_aliases t"
  "rt_requests (new_datagram mget mput order micros d t) = rt_requests t"
  "rt_cancels (new_datagram mget mput order micros d t) = rt_cancels t"
  "rt_next_cancel (new_datagram mget mput order micros d t) = rt_next_cancel t"
  by (simp_all add: new_datagram_def Let_def split: prod.splits sum.splits)

lemma remove_publisher_frame [simp]:
  "rt_origin (snd (remove_publisher order c t)) = rt_origin t"
  "rt_store (snd (remove_publisher order c t)) = rt_store t"
  "rt_seen (snd (remove_publisher order c t)) = rt_seen t"
  "rt_requests (snd (remove_publisher order c t)) = rt_requests t"
  "rt_cancels (snd (remove_publisher order c t)) = rt_cancels t"
  "rt_next_cancel (snd (remove_publisher order c t)) = rt_next_cancel t"
  by (simp_all add: remove_publisher_def Let_def notify_publisher_disconnected_def take_publisher_def split: prod.splits option.splits)

lemma remove_publisher_quietly_frame [simp]:
  "rt_origin (snd (remove_publisher_quietly c t)) = rt_origin t"
  "rt_manager (snd (remove_publisher_quietly c t)) = rt_manager t"
  "rt_store (snd (remove_publisher_quietly c t)) = rt_store t"
  "rt_seen (snd (remove_publisher_quietly c t)) = rt_seen t"
  "rt_requests (snd (remove_publisher_quietly c t)) = rt_requests t"
  "rt_cancels (snd (remove_publisher_quietly c t)) = rt_cancels t"
  "rt_next_cancel (snd (remove_publisher_quietly c t)) = rt_next_cancel t"
  by (simp_all add: remove_publisher_quietly_def take_publisher_def Let_def)

lemma publish_join_frame [simp]:
  "rt_manager (publish_join c a t) = rt_manager t"
  "rt_store (publish_join c a t) = rt_store t"
  "rt_seen (publish_join c a t) = rt_seen t"
  "rt_requests (publish_join c a t) = rt_requests t"
  "rt_cancels (publish_join c a t) = rt_cancels t"
  "rt_next_cancel (publish_join c a t) = rt_next_cancel t"
  by (simp_all add: publish_join_def)

lemma subscribe_join_frame [simp]:
  "rt_publisher_aliases (snd (subscribe_join h mode c sub a t)) = rt_publisher_aliases t"
  "rt_store (snd (subscribe_join h mode c sub a t)) = rt_store t"
  "rt_seen (snd (subscribe_join h mode c sub a t)) = rt_seen t"
  "rt_requests (snd (subscribe_join h mode c sub a t)) = rt_requests t"
  "rt_cancels (snd (subscribe_join h mode c sub a t)) = rt_cancels t"
  "rt_next_cancel (snd (subscribe_join h mode c sub a t)) = rt_next_cancel t"
  by (simp_all add: subscribe_join_def take_over_def Let_def split: prod.splits)

lemma register_subscribe_frame [simp]:
  "rt_origin (snd (register_subscribe closed mal rid pub t)) = rt_origin t"
  "rt_manager (snd (register_subscribe closed mal rid pub t)) = rt_manager t"
  "rt_publisher_aliases (snd (register_subscribe closed mal rid pub t)) = rt_publisher_aliases t"
  "rt_store (snd (register_subscribe closed mal rid pub t)) = rt_store t"
  "rt_seen (snd (register_subscribe closed mal rid pub t)) = rt_seen t"
  by (simp_all add: register_subscribe_def request_register_def Let_def split: option.splits)

lemma fold_forget_frame [simp]:
  "rt_origin (fold (\<lambda>(c, _). progress_forget c) as t) = rt_origin t"
  "rt_manager (fold (\<lambda>(c, _). progress_forget c) as t) = rt_manager t"
  "rt_publisher_aliases (fold (\<lambda>(c, _). progress_forget c) as t) = rt_publisher_aliases t"
  "rt_store (fold (\<lambda>(c, _). progress_forget c) as t) = rt_store t"
  "rt_seen (fold (\<lambda>(c, _). progress_forget c) as t) = rt_seen t"
  "rt_requests (fold (\<lambda>(c, _). progress_forget c) as t) = rt_requests t"
  "rt_cancels (fold (\<lambda>(c, _). progress_forget c) as t) = rt_cancels t"
  "rt_next_cancel (fold (\<lambda>(c, _). progress_forget c) as t) = rt_next_cancel t"
  by (induction as arbitrary: t) (simp_all split: prod.splits)

lemma become_cache_only_frame [simp]:
  "rt_manager (snd (become_cache_only closed ce t)) = rt_manager t"
  "rt_store (snd (become_cache_only closed ce t)) = rt_store t"
  "rt_seen (snd (become_cache_only closed ce t)) = rt_seen t"
  "rt_next_cancel (snd (become_cache_only closed ce t)) = rt_next_cancel t"
  by (simp_all add: become_cache_only_def Let_def)

lemma remove_subscriber_frame [simp]:
  "rt_store (snd (remove_subscriber h closed ce sid t)) = rt_store t"
  "rt_seen (snd (remove_subscriber h closed ce sid t)) = rt_seen t"
  "rt_next_cancel (snd (remove_subscriber h closed ce sid t)) = rt_next_cancel t"
  by (simp_all add: remove_subscriber_def Let_def)

lemma retire_frame [simp]:
  "rt_store (snd (retire closed ce t)) = rt_store t"
  "rt_seen (snd (retire closed ce t)) = rt_seen t"
  "rt_next_cancel (snd (retire closed ce t)) = rt_next_cancel t"
  by (simp_all add: retire_def become_cache_only_def Let_def)

subsection \<open>The store\<close>

lemma record_arrival_ok:
  assumes "store_ok mget W H ts" "cache_true mget W (ts_cache ts')"
    "ts_largest_location ts' = ts_largest_location ts" "ts_has_objects ts' = ts_has_objects ts"
  shows "store_ok mget W (insert (ob_location ob) H) (record_arrival ob ts')"
proof -
  let ?l = "ob_location ob" and ?top = "ts_largest_location ts"
  have top: "?top = (if H = {} then Location 0 0 else Max H)" and fin: "finite H" using assms(1) by (simp_all add: store_ok_def)
  have step: "(if ?top < ?l then ?l else ?top) = Max (insert ?l H)"
  proof (cases "H = {}")
    case True
    then show ?thesis using top order_antisym [OF _ location_bounds(1) [of ?l]] by (auto simp: not_less)
  next
    case False
    with top fin have "Max (insert ?l H) = max ?l ?top" by simp
    then show ?thesis by (auto simp: max_def)
  qed
  have "ts_largest_location (record_arrival ob ts') = (if ?top < ?l then ?l else ?top)" by (simp add: record_arrival_def assms(3))
  also note step
  finally have "ts_largest_location (record_arrival ob ts') = Max (insert ?l H)" .
  moreover have "ts_cache (record_arrival ob ts') = ts_cache ts'" "ts_has_objects (record_arrival ob ts')" by (simp_all add: record_arrival_def)
  ultimately show ?thesis using fin assms(2) unfolding store_ok_def by (simp del: Max_insert)
qed

lemma cache_object_ok:
  assumes "moka_law mget mput" "cache_true mget W (ts_cache ts)" "\<And>p. try_into_fetch ob = Inr p \<Longrightarrow> W (ob_location ob) = Some p"
  shows "cache_true mget W (ts_cache (cache_object mget mput ob ts))"
    "ts_largest_location (cache_object mget mput ob ts) = ts_largest_location ts" "ts_has_objects (cache_object mget mput ob ts) = ts_has_objects ts"
  using assms cache_true_add [OF assms(1,2)] by (auto simp: cache_object_def split: sum.splits)

lemma store_live_ok:
  assumes "moka_law mget mput" "store_ok mget W H ts" "object_true W ob e"
  shows "store_ok mget W (insert (ob_location ob) H) (store_live mget mput ob e ts)"
proof -
  have "cache_true mget W (ts_cache ts)" using assms(2) by (simp add: store_ok_def)
  from cache_object_ok [OF assms(1) this, of ob] assms(3)
  show ?thesis unfolding store_live_def Let_def
    by (intro record_arrival_ok [OF assms(2)]) (auto simp: object_true_def intro!: note_absent_true [OF _ assms(3)])
qed

lemma seen_step:
  assumes "seen_ok n H slots" "n < 2 ^ 64" "is_duplicate slots l = (dup, slots')"
  shows "seen_ok n (insert l H) slots'" "dup \<Longrightarrow> l \<in> H"
proof -
  have "seen_ok n (insert l H) slots' \<and> (dup \<longrightarrow> l \<in> H)"
  proof (cases "n = 0")
    case True
    with assms show ?thesis by (auto simp: seen_ok_def is_duplicate_def)
  next
    case False
    with assms(1) obtain L where L: "L \<subseteq> H" "ring_ok n L slots" by (auto simp: seen_ok_def)
    from is_duplicate_step [OF L(2) _ assms(2,3)] False L(1) show ?thesis
      by (auto simp: seen_ok_def remembered_def intro!: exI [of _ "insert l L"])
  qed
  then show "seen_ok n (insert l H) slots'" "dup \<Longrightarrow> l \<in> H" by auto
qed

lemma arrival_store:
  assumes "seen_ok n H (rt_seen t)" "n < 2 ^ 64" "store_ok mget W H (rt_store t)" "moka_law mget mput"
  shows "object_true W ob False \<Longrightarrow> store_ok mget W (insert (ob_location ob) H) (rt_store (new_subgroup_object mget mput order sid ob hi t))
      \<and> seen_ok n (insert (ob_location ob) H) (rt_seen (new_subgroup_object mget mput order sid ob hi t))"
    and "try_from_datagram d (default_publisher_priority t) = Inr (ob, e) \<Longrightarrow> object_true W ob e \<Longrightarrow>
      store_ok mget W (insert (ob_location ob) H) (rt_store (new_datagram mget mput order micros d t))
      \<and> seen_ok n (insert (ob_location ob) H) (rt_seen (new_datagram mget mput order micros d t))"
proof -
  obtain dup seen where run: "is_duplicate (rt_seen t) (ob_location ob) = (dup, seen)" by fastforce
  note S = seen_step [OF assms(1,2) run]
  have dup: "dup \<Longrightarrow> insert (ob_location ob) H = H" using S(2) by blast
  show "store_ok mget W (insert (ob_location ob) H) (rt_store (new_subgroup_object mget mput order sid ob hi t))
      \<and> seen_ok n (insert (ob_location ob) H) (rt_seen (new_subgroup_object mget mput order sid ob hi t))" if "object_true W ob False"
    using S(1) dup assms(3) store_live_ok [OF assms(4,3) that] by (auto simp: new_subgroup_object_def run Let_def split: option.splits)
  have prio: "default_publisher_priority (t\<lparr>rt_datagram_last := m\<rparr>) = default_publisher_priority t" for m
    by (simp add: default_publisher_priority_def)
  show "store_ok mget W (insert (ob_location ob) H) (rt_store (new_datagram mget mput order micros d t))
      \<and> seen_ok n (insert (ob_location ob) H) (rt_seen (new_datagram mget mput order micros d t))"
    if "try_from_datagram d (default_publisher_priority t) = Inr (ob, e)" "object_true W ob e"
    using S(1) dup assms(3) store_live_ok [OF assms(4,3) that(2)] that(1) by (auto simp: new_datagram_def prio run Let_def)
qed

lemma store_ok_cache: "store_ok mget W H ts \<Longrightarrow> cache_true mget W tc \<Longrightarrow> store_ok mget W H (ts\<lparr>ts_cache := tc\<rparr>)"
  by (simp add: store_ok_def)

lemma reach_store:
  assumes law: "moka_law mget mput" and "track_reach mget mput h ce W n t H"
  shows "n < 2 ^ 64 \<and> store_ok mget W H (rt_store t) \<and> seen_ok n H (rt_seen t)"
  using assms(2)
proof (induction rule: track_reach.induct)
  case (tr_new c rid name status ori)
  then show ?case
    using seen_run_ring [of n "[]"] cache_true_new [of mget c W rid]
    by (auto simp: track_new_def store_ok_def track_store_new_def seen_ok_def seen_objects_new_def seen_run_def)
next
  case (tr_subgroup t H order ob sid hi)
  with arrival_store(1) [of n H t mget W mput ob order sid hi] law show ?case by blast
next
  case (tr_datagram t H order d ob e micros)
  with arrival_store(2) [of n H t mget W mput d ob e order micros] law show ?case by blast
next
  case (tr_fetched t H ob)
  then have "cache_true mget W (ts_cache (rt_store t))" by (simp add: store_ok_def)
  from cache_object_ok [OF law this, of ob] tr_fetched
  have "store_ok mget W (insert (ob_location ob) H) (cache_fetched_object mget mput ob (rt_store t))"
    unfolding cache_fetched_object_def by (intro record_arrival_ok) auto
  moreover have "seen_ok n (insert (ob_location ob) H) (rt_seen t)"
    using tr_fetched by (auto simp: seen_ok_def split: if_splits intro: subset_insertI2)
  ultimately show ?case using tr_fetched by simp
next
  case (tr_absent t H lo hi)
  then show ?case by (auto intro!: store_ok_cache cache_true_mark_absent simp: store_ok_def)
next
  case (tr_group_ended t H l)
  then show ?case by (auto intro!: store_ok_cache group_ended_true simp: store_ok_def)
next
  case (tr_evict t H c)
  then have "cache_true mget W ((ts_cache (rt_store t))\<lparr>tc_cache := c\<rparr>)"
    by (intro cache_true_evict) (simp_all add: store_ok_def)
  with tr_evict show ?case by (simp add: store_ok_cache)
qed (simp_all add: reject_def set_track_properties_def progress_stream_closed_def)

subsection \<open>Subscriptions, requests and the cache-only track\<close>

lemma close_channel_inv: "mg_inv h m \<Longrightarrow> mg_inv h (m\<lparr>mg_channels := (mg_channels m)[i := ch]\<rparr>)"
  by (simp add: mg_inv_def)

lemma rt_manager_simps:
  "rt_manager (new_subgroup_object mget mput order sid ob hi t) =
     (if fst (is_duplicate (rt_seen t) (ob_location ob)) then rt_manager t
      else snd (send_event_to_subscribers order (TE_SubgroupObject sid ob hi) (rt_manager t)))"
  "rt_manager (new_datagram mget mput order micros d t) =
     (if fst (is_duplicate (rt_seen t) (Location (dg_group_id d) (dg_object_id d))) then rt_manager t
      else snd (send_event_to_subscribers order (TE_Datagram d) (rt_manager t)))"
  "rt_manager (snd (remove_subscriber h closed ce leaving t)) = snd (remove_subscription h leaving (rt_manager t))"
  "rt_manager (snd (retire closed ce t)) =
     (if ce (tc_cache (ts_cache (rt_store t))) then rt_manager t else snd (detach_all (rt_manager t)))"
  "rt_manager (snd (remove_publisher order c t)) =
     (if map_of (rt_publisher_aliases t) c \<noteq> None \<and> bt_remove c (rt_publisher_aliases t) = []
      then snd (send_event_to_subscribers order (TE_PublisherDisconnected PDS_TrackEnded ''Publisher disconnected'') (rt_manager t))
      else rt_manager t)"
  "rt_manager (snd (subscribe_join h mode c sub a t)) = snd (snd (add_subscription h mode c (OriginSubscribe sub) a (rt_manager t)))"
  by (auto simp: new_subgroup_object_def new_datagram_def emit_def Let_def try_from_datagram_def remove_subscriber_def retire_def
      become_cache_only_def remove_publisher_def take_publisher_def notify_publisher_disconnected_def notify_publish_done_def
      subscribe_join_def take_over_def progress_forget_def split: option.splits prod.splits)

lemma reach_manager:
  assumes "track_reach mget mput h ce W n t H"
  shows "mg_inv h (rt_manager t)"
  using assms
proof (induction rule: track_reach.induct)
  case (tr_subscribe t H mode c sub a)
  then show ?case using add_subscription_inv(1) by (metis rt_manager_simps(6) prod.collapse)
next
  case (tr_retire t H closed)
  then show ?case by (simp add: rt_manager_simps detach_all_inv)
next
  case (tr_leave t H closed sid)
  then show ?case by (simp add: rt_manager_simps remove_subscription_inv)
qed (simp_all add: track_new_def manager_new_inv rt_manager_simps send_event_inv(1) stream_closed_def emit_def notify_publish_done_def
    close_channel_inv reject_def set_track_properties_def progress_stream_closed_def)

lemma cancel_each_filters:
  "cancel_each closed P reason rs = (filter (\<lambda>r. \<not> closed (ur_cancel r) \<and> \<not> P r) rs,
     map (\<lambda>r. (ur_cancel r, reason)) (filter (\<lambda>r. \<not> closed (ur_cancel r) \<and> P r) rs))"
  by (induction rs) auto

lemma cancel_matching_requests [simp]:
  "rt_requests (cancel_matching closed P reason t) = filter (\<lambda>r. \<not> closed (ur_cancel r) \<and> \<not> P r) (rt_requests t)"
  "rt_cancels (cancel_matching closed P reason t) =
     rt_cancels t @ map (\<lambda>r. (ur_cancel r, reason)) (filter (\<lambda>r. \<not> closed (ur_cancel r) \<and> P r) (rt_requests t))"
  by (simp_all add: cancel_matching_def cancel_each_filters)

lemma requests_ok_cancel:
  assumes "requests_ok t"
  shows "requests_ok (cancel_matching closed P reason t)"
proof -
  let ?rs = "rt_requests t"
  let ?A = "map ur_cancel (filter (\<lambda>r. \<not> closed (ur_cancel r) \<and> \<not> P r) ?rs)"
  let ?B = "map ur_cancel (filter (\<lambda>r. \<not> closed (ur_cancel r) \<and> P r) ?rs)"
  have d: "distinct (map ur_request_id ?rs)" "distinct (map ur_cancel ?rs)" "distinct (map fst (rt_cancels t))"
    "set (map ur_cancel ?rs) \<inter> set (map fst (rt_cancels t)) = {}"
    "\<forall>ch \<in> set (map ur_cancel ?rs) \<union> set (map fst (rt_cancels t)). ch < rt_next_cancel t"
    using assms by (auto simp: requests_ok_def)
  have sub: "set ?A \<subseteq> set (map ur_cancel ?rs)" "set ?B \<subseteq> set (map ur_cancel ?rs)" by auto
  have AB: "set ?A \<inter> set ?B = {}" using d(2) by (auto simp: distinct_map inj_on_def)
  have dAB: "distinct ?A" "distinct ?B" using d(2) by (simp_all add: distinct_map_filter)
  have "distinct (?A @ map fst (rt_cancels t) @ ?B)" unfolding distinct_append using dAB d(3,4) sub AB by (simp only: set_append) blast
  moreover have "\<forall>ch \<in> set (?A @ map fst (rt_cancels t) @ ?B). ch < rt_next_cancel t" unfolding set_append using d(5) sub by blast
  moreover have sent: "map fst (map (\<lambda>r. (ur_cancel r, reason)) rs) = map ur_cancel rs" for rs by simp
  ultimately show ?thesis
    unfolding requests_ok_def cancel_matching_requests cancel_matching_frame map_append using d(1)
    by (simp only: sent distinct_map_filter simp_thms)
qed

lemma requests_ok_filter:
  "requests_ok t \<Longrightarrow> requests_ok (t\<lparr>rt_requests := filter P (rt_requests t)\<rparr>)"
  by (auto simp: requests_ok_def distinct_map_filter)

lemma requests_ok_register: "requests_ok t \<Longrightarrow> requests_ok (snd (request_register closed rid pub kind t))"
  by (auto simp: requests_ok_def request_register_def request_unregister_def Let_def distinct_map_filter less_Suc_eq)

lemma requests_ok_steps:
  assumes "requests_ok t"
  shows "requests_ok (cancel_for_malformed_publisher closed pub t)" "requests_ok (snd (register_subscribe closed mal rid pub t))"
    "requests_ok (snd (become_cache_only closed ce t))" "requests_ok (snd (retire closed ce t))"
    "requests_ok (snd (remove_subscriber h closed ce leaving t))"
proof -
  show "requests_ok (cancel_for_malformed_publisher closed pub t)"
    unfolding cancel_for_malformed_publisher_def by (intro requests_ok_cancel assms)
  show "requests_ok (snd (register_subscribe closed mal rid pub t))"
    using requests_ok_register [OF assms, of closed rid pub URK_Subscribe]
    by (auto simp: register_subscribe_def Let_def intro: requests_ok_cancel split: prod.splits)
  have cache_only: "requests_ok (snd (become_cache_only closed ce t'))" if "requests_ok t'" for t'
  proof (cases "ce (tc_cache (ts_cache (rt_store t')))")
    case False
    let ?t = "fold (\<lambda>(c, _). progress_forget c) (rt_publisher_aliases t') (t'\<lparr>rt_status := TS_Pending, rt_publisher_aliases := []\<rparr>)"
    have "requests_ok ?t" using that by (simp add: requests_ok_def)
    then have "requests_ok (cancel_matching closed (\<lambda>r. ur_kind r = URK_Subscribe) URC_Cancelled ?t)" by (rule requests_ok_cancel)
    with False show ?thesis by (simp add: become_cache_only_def Let_def requests_ok_def)
  qed (use that in \<open>simp add: become_cache_only_def\<close>)
  then show "requests_ok (snd (become_cache_only closed ce t))" using assms .
  moreover have "rt_requests (snd (retire closed ce t)) = rt_requests (snd (become_cache_only closed ce t))"
    "rt_cancels (snd (retire closed ce t)) = rt_cancels (snd (become_cache_only closed ce t))"
    by (simp_all add: retire_def split: prod.splits cleanup.splits)
  ultimately show "requests_ok (snd (retire closed ce t))" by (simp add: requests_ok_def)
  let ?t1 = "t\<lparr>rt_manager := snd (remove_subscription h leaving (rt_manager t))\<rparr>"
  let ?t2 = "cancel_matching closed (\<lambda>r. ur_kind r = URK_Subscribe) URC_Cancelled ?t1"
  have one: "requests_ok ?t1" using assms by (simp add: requests_ok_def)
  then have two: "requests_ok ?t2" by (rule requests_ok_cancel)
  show "requests_ok (snd (remove_subscriber h closed ce leaving t))"
    using one two cache_only [OF two] by (simp only: remove_subscriber_def Let_def split: if_splits) (simp only: snd_conv simp_thms)
qed

lemma reach_requests: "track_reach mget mput h ce W n t H \<Longrightarrow> requests_ok t"
proof (induction rule: track_reach.induct)
  case (tr_register_subscribe t H closed malformed rid c)
  then show ?case by (intro requests_ok_steps)
next
  case (tr_register_fetch t H closed rid c)
  then show ?case by (intro requests_ok_register)
next
  case (tr_unregister t H rid)
  then show ?case unfolding request_unregister_def by (intro requests_ok_filter)
next
  case (tr_cancel t H closed P reason)
  then show ?case by (intro requests_ok_cancel)
next
  case (tr_malformed t H closed c)
  then show ?case by (intro requests_ok_steps)
next
  case (tr_leave t H closed leaving)
  then show ?case by (intro requests_ok_steps)
next
  case (tr_retire t H closed)
  then show ?case by (intro requests_ok_steps)
qed (simp_all add: requests_ok_def track_new_def reject_def set_track_properties_def progress_stream_closed_def)

text \<open>Letting go leaves nothing of the upstream behind.\<close>

lemma request_kinds: "ur_kind r \<noteq> URK_Subscribe \<longleftrightarrow> ur_kind r = URK_Fetch"
  by (cases "ur_kind r") simp_all

lemma become_cache_only_cases:
  obtains (gone) "become_cache_only closed ce t = (CL_RemoveTrack, t)" "ce (tc_cache (ts_cache (rt_store t)))"
  | (kept) t' where "become_cache_only closed ce t = (CL_RemoveAliases (rt_publisher_aliases t), t')" "rt_origin t' = TO_CacheOnly"
      "rt_publisher_aliases t' = []" "rt_status t' = TS_Pending" "rt_manager t' = rt_manager t" "rt_store t' = rt_store t" "rt_seen t' = rt_seen t"
      "rt_requests t' = filter (\<lambda>r. \<not> closed (ur_cancel r) \<and> ur_kind r = URK_Fetch) (rt_requests t)"
      "rt_cancels t' = rt_cancels t @ map (\<lambda>r. (ur_cancel r, URC_Cancelled))
         (filter (\<lambda>r. \<not> closed (ur_cancel r) \<and> ur_kind r = URK_Subscribe) (rt_requests t))"
proof (cases "ce (tc_cache (ts_cache (rt_store t)))")
  case True
  then show thesis by (intro gone) (simp_all add: become_cache_only_def)
next
  case False
  have status: "rt_status (fold (\<lambda>(c, _). progress_forget c) as x) = rt_status x"
    "rt_status (cancel_matching closed P reason x) = rt_status x" for as x P and reason
    by (induction as arbitrary: x) (auto simp: progress_forget_def cancel_matching_def split: prod.splits)
  from False show thesis
    by (intro kept [of "snd (become_cache_only closed ce t)"]) (simp_all add: become_cache_only_def Let_def request_kinds status)
qed

lemma quiet_ok_other: "rt_origin t \<noteq> TO_CacheOnly \<Longrightarrow> quiet_ok t"
  by (simp add: quiet_ok_def)

lemma quiet_leave:
  assumes "quiet_ok t"
  shows "quiet_ok (snd (remove_subscriber h closed ce leaving t))"
proof -
  define t1 where "t1 = t\<lparr>rt_manager := snd (remove_subscription h leaving (rt_manager t))\<rparr>"
  define t2 where "t2 = cancel_matching closed (\<lambda>r. ur_kind r = URK_Subscribe) URC_Cancelled t1"
  have q1: "quiet_ok t1" using assms by (simp add: t1_def quiet_ok_def remove_subscription_def bt_remove_def)
  then have q2: "quiet_ok t2" by (auto simp: t2_def quiet_ok_def)
  have r: "snd (remove_subscriber h closed ce leaving t) = (if mg_subscriptions (rt_manager t1) \<noteq> [] then t1
      else if rt_origin t2 \<noteq> TO_Subscribe then t2 else snd (become_cache_only closed ce t2))"
    by (simp add: remove_subscriber_def Let_def subscriber_count_def t1_def t2_def)
  have "quiet_ok (snd (become_cache_only closed ce t2))" if "mg_subscriptions (rt_manager t1) = []"
    using q2 that by (cases rule: become_cache_only_cases [of closed ce t2]) (auto simp: quiet_ok_def t2_def)
  with q1 q2 show ?thesis unfolding r by simp
qed

lemma quiet_retire: "quiet_ok t \<Longrightarrow> quiet_ok (snd (retire closed ce t))"
  by (cases rule: become_cache_only_cases [of closed ce t]) (auto simp: retire_def quiet_ok_def detach_all_def)

lemma quiet_register:
  assumes "quiet_ok t"
  shows "quiet_ok (snd (register_subscribe closed malformed rid pub t))"
proof (cases "rt_origin t = TO_CacheOnly")
  case True
  with assms have "subscriber_count (rt_manager t) = 0" "\<forall>r \<in> set (rt_requests t). ur_kind r = URK_Fetch"
    "rt_publisher_aliases t = []" "mg_subscriptions (rt_manager t) = []" by (simp_all add: quiet_ok_def subscriber_count_def)
  then show ?thesis by (auto simp: register_subscribe_def request_register_def request_unregister_def Let_def quiet_ok_def)
qed (simp add: quiet_ok_def)

lemma reach_quiet: "track_reach mget mput h ce W n t H \<Longrightarrow> quiet_ok t"
proof (induction rule: track_reach.induct)
  case (tr_new c rid name status ori)
  then show ?case by (simp add: quiet_ok_def track_new_def manager_new_def)
next
  case (tr_subscribe t H mode c sub a)
  then show ?case by (intro quiet_ok_other) (simp add: subscribe_join_def take_over_def split: prod.splits)
next
  case (tr_publish t H c a)
  then show ?case by (intro quiet_ok_other) (simp add: publish_join_def take_over_def)
next
  case (tr_leave t H closed leaving)
  then show ?case by (intro quiet_leave)
next
  case (tr_retire t H closed)
  then show ?case by (intro quiet_retire)
next
  case (tr_register_subscribe t H closed malformed rid c)
  then show ?case by (intro quiet_register)
qed (auto simp: quiet_ok_def rt_manager_simps send_event_to_subscribers_def
    remove_publisher_def remove_publisher_quietly_def take_publisher_def bt_remove_def request_register_def request_unregister_def
    Let_def cancel_for_malformed_publisher_def stream_closed_def emit_def notify_publish_done_def notify_publisher_disconnected_def
    progress_forget_def reject_def set_track_properties_def progress_stream_closed_def split: prod.splits option.splits)

subsection \<open>What a track promises\<close>

lemma close_by_subset: "close_by n L \<Longrightarrow> L' \<subseteq> L \<Longrightarrow> close_by n L'"
  unfolding close_by_def by blast

lemma passed_subseq: "subseq (passed n L as) as"
  by (induction as arbitrary: L) auto

text \<open>C5. Live Objects reach every subscriber: on a track in any reachable state, with duplicate
  detection on, a subscription whose receiver is open hears the Objects that arrive over subgroup streams and datagrams
  in their order, none with a Location the track has not had before is left out, and none twice as
  long as the Locations stay close enough together for the relay to remember them.\<close>

theorem live_objects_once:
  assumes law: "moka_law mget mput" and reach: "track_reach mget mput h ce W n t H" and n: "0 < n"
    and opened: "heard (rt_manager t) sid = Some (es, True)"
    and orders: "\<forall>x \<in> set xs. iterates (fst x) (rt_manager t)"
  shows "\<exists>hs. heard (rt_manager (fold (arrive mget mput) xs t)) sid = Some (es @ map arrival_event hs, True)
    \<and> subseq hs (map snd xs)
    \<and> arrival_location ` snd ` set xs - H \<subseteq> arrival_location ` set hs
    \<and> (close_by n (H \<union> arrival_location ` snd ` set xs) \<longrightarrow> distinct (map arrival_location hs))"
proof -
  from reach_store [OF law reach] n obtain L where "n < 2 ^ 64" and L: "L \<subseteq> H" "ring_ok n L (rt_seen t)" by (auto simp: seen_ok_def)
  note run = arrivals_heard [OF n \<open>n < 2 ^ 64\<close> L(2) reach_manager [OF reach] opened orders, of mget mput]
  let ?hs = "passed n L (map snd xs)"
  have "arrival_location ` snd ` set xs - H \<subseteq> arrival_location ` set ?hs"
    using passed_all [of n L "map snd xs"] L(1) by (simp add: image_image) blast
  moreover have "distinct (map arrival_location ?hs)" if "close_by n (H \<union> arrival_location ` snd ` set xs)"
    using passed_once [of n L "map snd xs"] close_by_subset [OF that, of "L \<union> arrival_location ` set (map snd xs)"] L(1) by auto
  ultimately show ?thesis using run passed_subseq by blast
qed

definition sample_object :: "moq_object" where
  "sample_object = \<lparr>ob_track_alias = 1, ob_location = Location 3 1, ob_publisher_priority = 1, ob_forwarding_preference = FP_Subgroup,
     ob_subgroup_id = Some 0, ob_status = OS_Normal, ob_properties = None, ob_payload = Some [7]\<rparr>"

definition sample_payload :: fetch_object_payload where
  "sample_payload = \<lparr>fo_group_id = 3, fo_subgroup_id = 0, fo_object_id = 1, fo_publisher_priority = 1,
     fo_forwarding_preference = FP_Subgroup, fo_properties = None, fo_payload = [7]\<rparr>"

definition sample_track :: "(cache_key \<rightharpoonup> fetch_object_payload list) relay_track" where
  "sample_track = snd (subscribe_join (\<lambda>_. 0) PerTrack 4 \<lparr>sub_request_id = 2, sub_track_namespace = [], sub_track_name = [], sub_subscribe_parameters = []\<rparr> 0
     (track_new 1 \<lparr>ftn_namespace = [], ftn_name = []\<rparr> 4 Map.empty TS_Pending TO_CacheOnly))"

lemma sample_object_true: "object_true [Location 3 1 \<mapsto> sample_payload] sample_object False"
  by (simp add: object_true_def sample_object_def sample_payload_def try_into_fetch_def rbind_def ok_or_def)

lemma sample_reach:
  "moka_law (\<lambda>c. c) (\<lambda>c k v. c(k \<mapsto> v))"
  "track_reach (\<lambda>c. c) (\<lambda>c k v. c(k \<mapsto> v)) (\<lambda>_. 0) (\<lambda>c. c = Map.empty) [Location 3 1 \<mapsto> sample_payload] 4 sample_track {}"
  "heard (rt_manager sample_track) = [(4, 2) \<mapsto> ([], True)]"
proof -
  let ?new = "track_new 1 \<lparr>ftn_namespace = [], ftn_name = []\<rparr> 4 Map.empty TS_Pending TO_CacheOnly
    :: (cache_key \<rightharpoonup> fetch_object_payload list) relay_track"
  show "moka_law (\<lambda>c. c) (\<lambda>c k v. c(k \<mapsto> v))" by (simp add: moka_law_def)
  have "track_reach (\<lambda>c. c) (\<lambda>c k v. c(k \<mapsto> v)) (\<lambda>_. 0) (\<lambda>c. c = Map.empty) [Location 3 1 \<mapsto> sample_payload] 4 ?new {}"
    by (rule tr_new) simp_all
  then show "track_reach (\<lambda>c. c) (\<lambda>c k v. c(k \<mapsto> v)) (\<lambda>_. 0) (\<lambda>c. c = Map.empty) [Location 3 1 \<mapsto> sample_payload] 4 sample_track {}"
    unfolding sample_track_def by (rule tr_subscribe)
  let ?sub = "OriginSubscribe \<lparr>sub_request_id = 2, sub_track_namespace = [], sub_track_name = [], sub_subscribe_parameters = []\<rparr>"
  obtain r a m where add: "add_subscription (\<lambda>_. 0) PerTrack 4 ?sub 0 (rt_manager ?new) = (r, a, m)"
    by (metis prod_cases3)
  have inv: "mg_inv (\<lambda>_. 0) (rt_manager ?new)" and silent: "heard (rt_manager ?new) = Map.empty"
    by (simp_all add: track_new_def manager_new_inv)
  have "heard m = [(4, 2) \<mapsto> ([], True)]" by (simp add: add_subscription_inv(2) [OF inv add] silent)
  moreover have "rt_manager sample_track = m" using add by (simp add: sample_track_def rt_manager_simps)
  ultimately show "heard (rt_manager sample_track) = [(4, 2) \<mapsto> ([], True)]" by simp
qed

theorem live_objects_once_witness:
  "\<exists>order. let a = ArriveSubgroup (new_subgroup 1 3 (Some 0)) sample_object None in
     heard (rt_manager (fold (arrive (\<lambda>c. c) (\<lambda>c k v. c(k \<mapsto> v))) [(order, a), (order, a)] sample_track)) (4, 2)
       = Some ([arrival_event a], True)"
proof -
  obtain order where it: "iterates order (rt_manager sample_track)" using iterates_exists [OF reach_manager [OF sample_reach(2)]] .
  let ?a = "ArriveSubgroup (new_subgroup 1 3 (Some 0)) sample_object None"
  have close: "close_by 4 ({} \<union> arrival_location ` snd ` set [(order, ?a), (order, ?a)])" by (simp add: close_by_def)
  have opened: "heard (rt_manager sample_track) (4, 2) = Some ([], True)" by (simp add: sample_reach)
  from live_objects_once [OF sample_reach(1,2) _ opened, of "[(order, ?a), (order, ?a)]"] it close
  obtain hs where h: "heard (rt_manager (fold (arrive (\<lambda>c. c) (\<lambda>c k v. c(k \<mapsto> v))) [(order, ?a), (order, ?a)] sample_track)) (4, 2)
      = Some ([] @ map arrival_event hs, True)" "subseq hs [?a, ?a]" "ob_location sample_object \<in> arrival_location ` set hs"
      "distinct (map arrival_location hs)" by auto
  from h(2) have "hs \<in> set (subseqs [?a, ?a])" by (simp only: set_subseqs_eq mem_Collect_eq)
  with h(3,4) have "hs = [?a]" by (auto simp: Let_def)
  with h(1) show ?thesis by auto
qed





end
