(* ===== verification/Subscription_State.thy ===== *)
theory Subscription_State
  imports Subscription_Manager Combined_Filter
begin

text \<open>
  What a subscription has been asked for (\<open>SubscriptionState\<close> of
  \<open>apps/relay/src/server/subscription.rs\<close>): priority, order, Forward State, the Location
  Filter with the range it resolves to, the Range Filters, and how far delivery has come. The
  theory shows that the resolved range holds exactly the Locations the filter asks for, and what
  the tests on an arriving Object mean together.
\<close>

subsection \<open>The state\<close>

text \<open>The shared flag of a switch (\<open>SwitchActivation\<close>) is named by a number.\<close>

record subscription_state =
  sb_subscriber_priority :: u8
  sb_group_order :: group_order
  sb_forward :: bool
  sb_location_filter :: location_filter
  sb_start_location :: "location option"
  sb_end_group :: "u64 option"
  sb_end_object :: "u64 option"
  sb_soft_suspended :: bool
  sb_publish_done_at_end :: bool
  sb_switch_activated :: "nat option"
  sb_subscribe_parameters :: "message_parameter list"
  sb_range_filter :: combined_filter
  sb_last_sent_max_location :: "location option"
  sb_prior_sent_group :: "u64 option"
  sb_last_received_object_location :: "location option"
  sb_prior_received_group :: "u64 option"

definition update_last_sent_max_location :: "location \<Rightarrow> subscription_state \<Rightarrow> subscription_state" where
  "update_last_sent_max_location l st = (case sb_last_sent_max_location st of
       Some current_max \<Rightarrow>
         if l > current_max
         then (if l_group l > l_group current_max then st\<lparr>sb_prior_sent_group := Some (l_group current_max)\<rparr> else st)
                \<lparr>sb_last_sent_max_location := Some l\<rparr>
         else st
     | None \<Rightarrow> st\<lparr>sb_last_sent_max_location := Some l\<rparr>)"

definition update_last_received_object_location :: "location \<Rightarrow> subscription_state \<Rightarrow> subscription_state" where
  "update_last_received_object_location l st = (case sb_last_received_object_location st of
       Some current_max \<Rightarrow>
         if l > current_max
         then (if l_group l > l_group current_max then st\<lparr>sb_prior_received_group := Some (l_group current_max)\<rparr> else st)
                \<lparr>sb_last_received_object_location := Some l\<rparr>
         else st
     | None \<Rightarrow> st\<lparr>sb_last_received_object_location := Some l\<rparr>)"

definition gap_between :: "location option \<Rightarrow> u64 option \<Rightarrow> u64 option" where
  "gap_between last_location prior =
     Option.bind last_location (\<lambda>l. Option.bind prior (\<lambda>p.
       Option.bind (checked_sub (l_group l) p) (\<lambda>gap. if gap > 0 then Some gap else None)))"

definition sent_group_gap :: "subscription_state \<Rightarrow> u64 option" where
  "sent_group_gap st = gap_between (sb_last_sent_max_location st) (sb_prior_sent_group st)"

definition received_group_gap :: "subscription_state \<Rightarrow> u64 option" where
  "received_group_gap st = gap_between (sb_last_received_object_location st) (sb_prior_received_group st)"

text \<open>\<open>activated\<close> holds the flags that are set.\<close>

definition awaiting_switch_activation :: "nat set \<Rightarrow> subscription_state \<Rightarrow> bool" where
  "awaiting_switch_activation activated st =
     (case sb_switch_activated st of Some activation \<Rightarrow> activation \<notin> activated | None \<Rightarrow> False)"

definition set_location_filter :: "location_filter \<Rightarrow> location option \<Rightarrow> subscription_state \<Rightarrow> subscription_state" where
  "set_location_filter filt largest st =
     (let end = end_location filt
      in st\<lparr>sb_start_location := start_location filt largest,
            sb_end_group := map_option l_group end,
            sb_end_object := Option.bind (map_option l_object end) (\<lambda>ob. if ob \<noteq> u64_MAX then Some ob else None),
            sb_location_filter := filt\<rparr>)"

definition live_start_location :: "location_filter \<Rightarrow> location option \<Rightarrow> location option" where
  "live_start_location filt largest = (case filt of
       LF_NextObject \<Rightarrow> start_location filt largest
     | LF_RelativeStart _ \<Rightarrow> start_location filt largest
     | _ \<Rightarrow> None)"

definition set_initial_location_filter :: "location_filter \<Rightarrow> subscription_state \<Rightarrow> subscription_state" where
  "set_initial_location_filter filt st =
     (let st1 = set_location_filter filt None st
      in if live_start_location (sb_location_filter st1) None \<noteq> None then st1\<lparr>sb_start_location := None\<rparr> else st1)"

definition is_past_end :: "subscription_state \<Rightarrow> location \<Rightarrow> bool" where
  "is_past_end st l = (case sb_end_group st of
       Some end_group \<Rightarrow> l_group l > end_group
         \<or> (l_group l = end_group \<and> (case sb_end_object st of Some ob \<Rightarrow> l_object l > ob | None \<Rightarrow> False))
     | None \<Rightarrow> False)"

definition location_filter_of :: "message_parameter list \<Rightarrow> location_filter" where
  "location_filter_of params = (case find_map as_location_filter params of Some f \<Rightarrow> f | None \<Rightarrow> LF_None)"

abbreviation param_or :: "(message_parameter \<Rightarrow> 'a option) \<Rightarrow> 'a \<Rightarrow> message_parameter list \<Rightarrow> 'a" where
  "param_or f d params \<equiv> (case find_map f params of Some v \<Rightarrow> v | None \<Rightarrow> d)"

definition state_of_parameters :: "message_parameter list \<Rightarrow> subscription_state" where
  "state_of_parameters params =
     (set_initial_location_filter (location_filter_of params)
        \<lparr>sb_subscriber_priority = param_or (\<lambda>p. case p of MP_SubscriberPriority priority \<Rightarrow> Some priority | _ \<Rightarrow> None) 128 params,
         sb_group_order = param_or (\<lambda>p. case p of MP_GroupOrder order \<Rightarrow> Some order | _ \<Rightarrow> None) GO_Ascending params,
         sb_forward = param_or (\<lambda>p. case p of MP_Forward forward \<Rightarrow> Some forward | _ \<Rightarrow> None) True params,
         sb_location_filter = LF_None, sb_start_location = None, sb_end_group = None, sb_end_object = None,
         sb_soft_suspended = False, sb_publish_done_at_end = False, sb_switch_activated = None,
         sb_subscribe_parameters = [], sb_range_filter = combined_filter_default,
         sb_last_sent_max_location = None, sb_prior_sent_group = None,
         sb_last_received_object_location = None, sb_prior_received_group = None\<rparr>)
     \<lparr>sb_subscribe_parameters := params\<rparr>"

definition range_filter_of :: "message_parameter list \<Rightarrow> combined_filter" where
  "range_filter_of params = (case for_objects params of Inr f \<Rightarrow> f | Inl _ \<Rightarrow> combined_filter_default)"

fun state_of_origin :: "subscription_origin \<Rightarrow> subscription_state" where
  "state_of_origin (OriginSubscribe s) =
     (state_of_parameters (sub_subscribe_parameters s))\<lparr>sb_range_filter := range_filter_of (sub_subscribe_parameters s)\<rparr>"
| "state_of_origin (OriginPublish p) = state_of_parameters (pub_parameters p)"

definition resolve_live_start :: "location option \<Rightarrow> subscription_state \<Rightarrow> subscription_state" where
  "resolve_live_start largest st = (case live_start_location (sb_location_filter st) largest of
       Some start \<Rightarrow> st\<lparr>sb_start_location := Some start\<rparr>
     | None \<Rightarrow> st)"

definition div_ceil :: "u64 \<Rightarrow> u64 \<Rightarrow> u64" where
  "div_ceil a b = a div b + (if a mod b > 0 then 1 else 0)"

definition takeover_group :: "u64 \<Rightarrow> u64 \<Rightarrow> u64 \<Rightarrow> u64" where
  "takeover_group resume_group covered_to resume_gap =
     (let resume_gap = max resume_gap 1
      in case checked_sub covered_to resume_group of
           Some ahead \<Rightarrow> if ahead > 0 then resume_group + resume_gap * div_ceil ahead resume_gap else resume_group
         | None \<Rightarrow> resume_group)"

text \<open>An update of the subscription (\<open>update_subscription\<close>), up to what it does outside the state: the
  new state, whether Forward State rose and whether it fell.\<close>

fun update_fields :: "message_parameter list \<Rightarrow> subscription_state \<times> bool \<times> bool \<Rightarrow> subscription_state \<times> bool \<times> bool" where
  "update_fields [] r = r"
| "update_fields (MP_SubscriberPriority priority # ps) (st, rising, falling) =
     update_fields ps (st\<lparr>sb_subscriber_priority := priority\<rparr>, rising, falling)"
| "update_fields (MP_Forward forward # ps) (st, rising, falling) =
     update_fields ps (st\<lparr>sb_forward := forward\<rparr>, rising \<or> (forward \<and> \<not> sb_forward st), falling \<or> (\<not> forward \<and> sb_forward st))"
| "update_fields (_ # ps) r = update_fields ps r"

definition update_state :: "message_parameter list \<Rightarrow> subscription_state \<Rightarrow> subscription_state \<times> bool \<times> bool" where
  "update_state parameters st =
     (let st1 = (case find_map as_location_filter parameters of Some f \<Rightarrow> set_location_filter f None st | None \<Rightarrow> st);
          (st2, rising, falling) = update_fields parameters (st1, False, False);
          params = apply_message_parameter_update (sb_subscribe_parameters st2) parameters
      in (st2\<lparr>sb_subscribe_parameters := params, sb_range_filter := range_filter_of params\<rparr>, rising, falling))"

subsection \<open>The range of a filter\<close>

text \<open>The Locations a filter asks for, its start resolved against the Largest Object.\<close>

definition asked :: "location_filter \<Rightarrow> location option \<Rightarrow> location \<Rightarrow> bool" where
  "asked filt largest l \<longleftrightarrow> (case start_location filt largest of Some s \<Rightarrow> s \<le> l | None \<Rightarrow> True)
     \<and> (case end_location filt of Some e \<Rightarrow> l \<le> e | None \<Rightarrow> True)"

definition before_start :: "subscription_state \<Rightarrow> location \<Rightarrow> bool" where
  "before_start st l = (case sb_start_location st of Some start \<Rightarrow> l < start | None \<Rightarrow> False)"

definition in_wanted_range :: "subscription_state \<Rightarrow> location \<Rightarrow> bool" where
  "in_wanted_range st l \<longleftrightarrow> \<not> before_start st l \<and> \<not> is_past_end st l"

lemma le_location_iff: "(l :: location) \<le> m \<longleftrightarrow> l_group l < l_group m \<or> (l_group l = l_group m \<and> l_object l \<le> l_object m)"
  by (cases l; cases m) auto

lemma past_end_filter:
  "is_past_end (set_location_filter filt largest st) l \<longleftrightarrow> (case end_location filt of Some e \<Rightarrow> e < l | None \<Rightarrow> False)"
proof (cases "end_location filt")
  case (Some e)
  have "e < l \<longleftrightarrow> \<not> l \<le> e" by auto
  then show ?thesis using Some word_order.extremum [of "l_object l"]
    by (auto simp: is_past_end_def set_location_filter_def le_location_iff not_le)
qed (simp add: is_past_end_def set_location_filter_def)

lemma in_range_filter: "in_wanted_range (set_location_filter filt largest st) l \<longleftrightarrow> asked filt largest l"
  unfolding in_wanted_range_def past_end_filter asked_def
  by (auto simp: before_start_def set_location_filter_def not_less not_le Let_def split: option.splits)

lemma live_start_cases:
  "live_start_location filt largest = (if live_start_location filt None \<noteq> None then start_location filt largest else None)"
  by (cases filt) (simp_all add: live_start_location_def)

lemma live_start_fixed: "live_start_location filt None = None \<Longrightarrow> start_location filt largest = start_location filt None"
  by (cases filt) (simp_all add: live_start_location_def)

lemma start_location_live: "live_start_location filt None \<noteq> None \<Longrightarrow> \<exists>s. start_location filt largest = Some s"
  by (cases filt) (simp_all add: live_start_location_def)

text \<open>A subscription created and then measured against the track.\<close>

lemma resolve_initial:
  "resolve_live_start largest (set_initial_location_filter filt st) = set_location_filter filt largest st"
proof (cases "live_start_location filt None")
  case None
  then show ?thesis using live_start_fixed [OF None, of largest] live_start_cases [of filt largest]
    by (simp add: resolve_live_start_def set_initial_location_filter_def set_location_filter_def Let_def)
next
  case (Some s)
  then obtain s' where "start_location filt largest = Some s'" using start_location_live [of filt largest] by auto
  with Some show ?thesis using live_start_cases [of filt largest]
    by (simp add: resolve_live_start_def set_initial_location_filter_def set_location_filter_def Let_def)
qed

end
