(* ===== verification/Forwarding.thy ===== *)
theory Forwarding
  imports Subscription_State Live_Track Send_Streams Relay_Filters Fetch_Delivery
begin

text \<open>
  The task that forwards a track's events to one subscriber (\<open>Subscription\<close> of
  \<open>apps/relay/src/server/subscription.rs\<close>): it tests each Object against the subscription's state, opens
  send streams, writes Objects and ends the subscription. A subscriber's connection holds its
  subscriptions by Request ID, the switches between them (\<open>client/switch_context.rs\<close>,
  \<open>client/request_subscription_map.rs\<close>) and its send streams. What the transport
  does with an event's opens and writes is the record \<open>io\<close>; what tasks spawned in the background are
  to do is a list. The log and the object logger are left out.
\<close>

subsection \<open>State\<close>

record switch_plan =
  sp_suspending :: full_track_name
  sp_suspending_request_id :: u64
  sp_mode :: switch_mode
  sp_publish_done :: bool
  sp_boundary :: "u64 option"
  sp_activated :: nat

text \<open>A hash map that is iterated is a list of entries, in the order of the iteration.\<close>

definition put_entry :: "'k \<Rightarrow> 'v \<Rightarrow> ('k \<times> 'v) list \<Rightarrow> ('k \<times> 'v) list" where
  "put_entry k v m = (k, v) # filter (\<lambda>e. fst e \<noteq> k) m"

definition drop_entry :: "'k \<Rightarrow> ('k \<times> 'v) list \<Rightarrow> ('k \<times> 'v) list" where
  "drop_entry k m = filter (\<lambda>e. fst e \<noteq> k) m"

record live_subscription =
  lv_request_id :: u64
  lv_relay_track_id :: u64
  lv_track_alias :: u64
  lv_full_track_name :: full_track_name
  lv_state :: subscription_state
  lv_receiving :: bool
  lv_last_object_ids :: "(stream_id \<times> u64 option) list"
  lv_opened_stream_count :: u64
  lv_finished :: bool
  lv_pending_switch :: bool
  lv_pending_header :: "(stream_id \<times> header_info) option"
  lv_skipped_headers :: "stream_id \<rightharpoonup> header_info"
  lv_fill_streams :: "(u64 \<times> nat) list"
  lv_gate_epoch :: u64
  lv_gate_group :: u64
  lv_gate_forward :: bool

abbreviation (input) SSTS_GATE_GROUP_NONE :: u64 where
  "SSTS_GATE_GROUP_NONE \<equiv> u64_MAX"

definition create_instance :: "u64 \<Rightarrow> u64 \<Rightarrow> full_track_name \<Rightarrow> subscription_origin \<Rightarrow> live_subscription" where
  "create_instance relay_track_id track_alias full_track_name origin_message =
     \<lparr>lv_request_id = origin_request_id origin_message, lv_relay_track_id = relay_track_id, lv_track_alias = track_alias,
      lv_full_track_name = full_track_name, lv_state = state_of_origin origin_message, lv_receiving = True,
      lv_last_object_ids = [], lv_opened_stream_count = 0, lv_finished = False, lv_pending_switch = False,
      lv_pending_header = None, lv_skipped_headers = Map.empty, lv_fill_streams = [],
      lv_gate_epoch = 0, lv_gate_group = SSTS_GATE_GROUP_NONE, lv_gate_forward = False\<rparr>"

record subscriber =
  cl_streams :: client_streams
  cl_subscriptions :: "u64 \<rightharpoonup> live_subscription"
  cl_plans :: "u64 \<rightharpoonup> switch_plan"
  cl_activated :: "nat set"
  cl_publish_dones :: "(u64 \<times> publish_done_status_code \<times> u64 \<times> string) list"
  cl_closing :: "send_stream_key list"
  cl_stopped_fills :: "(nat \<times> fetch_stop) list"
  cl_datagrams :: "bytes list"

text \<open>What happens outside: the hash of the stream table, whether the transport opens a stream, takes a
  header, how it takes an Object and a reset, which request streams there are, which subscriptions
  are still held, whether a datagram can be sent, and the track's open publisher streams.\<close>

record io =
  io_hash :: "bytes \<Rightarrow> u64"
  io_opens :: bool
  io_accepts :: "bytes \<Rightarrow> bool"
  io_write :: write_result
  io_resets :: bool
  io_registered :: "u64 \<Rightarrow> bool"
  io_held :: "u64 \<Rightarrow> bool"
  io_sends :: "bytes \<Rightarrow> bool"
  io_active_headers :: "stream_id \<rightharpoonup> header_info"

definition on_sub :: "u64 \<Rightarrow> (live_subscription \<Rightarrow> live_subscription) \<Rightarrow> subscriber \<Rightarrow> subscriber" where
  "on_sub r f c = c\<lparr>cl_subscriptions := (cl_subscriptions c)(r := map_option f (cl_subscriptions c r))\<rparr>"

definition on_state :: "u64 \<Rightarrow> (subscription_state \<Rightarrow> subscription_state) \<Rightarrow> subscriber \<Rightarrow> subscriber" where
  "on_state r f = on_sub r (\<lambda>v. v\<lparr>lv_state := f (lv_state v)\<rparr>)"

definition sub_of :: "subscriber \<Rightarrow> u64 \<Rightarrow> live_subscription" where
  "sub_of c r = the (cl_subscriptions c r)"

definition new_send_stream_key :: "live_subscription \<Rightarrow> stream_id \<Rightarrow> send_stream_key" where
  "new_send_stream_key v sid = \<lparr>ssk_request_id = lv_request_id v, ssk_stream_id = sid\<rparr>"

subsection \<open>Streams\<close>

definition build_stream_id :: "u64 \<Rightarrow> header_info \<Rightarrow> stream_id" where
  "build_stream_id relay_track_id hi = (case hi of
       HI_Fetch header _ \<Rightarrow> new_fetch relay_track_id (fh_request_id header)
     | HI_Subgroup header \<Rightarrow> new_subgroup relay_track_id (sh_group_id header) (sh_subgroup_id header))"

definition get_header_payload :: "live_subscription \<Rightarrow> header_info \<Rightarrow> bytes res" where
  "get_header_payload v hi = (case hi of
       HI_Subgroup header \<Rightarrow> subgroup_header_serialize header (Some (lv_track_alias v))
     | HI_Fetch header _ \<Rightarrow> fetch_header_serialize header)"

definition mid_stream_header :: "header_info \<Rightarrow> header_info" where
  "mid_stream_header hi = (case hi of HI_Subgroup header \<Rightarrow> HI_Subgroup (for_mid_subgroup_stream header) | other \<Rightarrow> other)"

definition handle_header :: "io \<Rightarrow> u64 \<Rightarrow> header_info \<Rightarrow> subscriber \<Rightarrow> (stream_id \<times> nat) option \<times> subscriber" where
  "handle_header w r hi c =
     (let v = sub_of c r;
          sid = build_stream_id (lv_relay_track_id v) hi
      in case get_header_payload v hi of
           Inl _ \<Rightarrow> (None, c)
         | Inr payload \<Rightarrow>
             (let (pub_prio, group_id) = (case hi of
                     HI_Subgroup header \<Rightarrow> (case sh_publisher_priority header of Some p \<Rightarrow> p | None \<Rightarrow> 128, sh_group_id header)
                   | HI_Fetch _ _ \<Rightarrow> (128, 0));
                  priority = compute_stream_priority (sb_subscriber_priority (lv_state v)) pub_prio (sb_group_order (lv_state v)) group_id
              in case open_stream (io_hash w) (io_opens w) (io_accepts w) (new_send_stream_key v sid) payload priority (cl_streams c) of
                   (None, cs) \<Rightarrow> (None, c\<lparr>cl_streams := cs\<rparr>)
                 | (Some s, cs) \<Rightarrow>
                     (Some (sid, s), on_sub r (\<lambda>v. v\<lparr>lv_opened_stream_count := lv_opened_stream_count v + 1\<rparr>) (c\<lparr>cl_streams := cs\<rparr>))))"

definition handle_object :: "io \<Rightarrow> u64 \<Rightarrow> moq_object \<Rightarrow> u64 option \<Rightarrow> stream_id \<Rightarrow> nat \<Rightarrow> subscriber \<Rightarrow> bool \<times> subscriber" where
  "handle_object w r ob previous_object_id sid s c = (case try_into_subgroup ob of
       Inl _ \<Rightarrow> (False, c)
     | Inr so \<Rightarrow>
         (case subgroup_object_serialize so previous_object_id (so_properties so \<noteq> None) of
            Inl _ \<Rightarrow> (False, c)
          | Inr object_bytes \<Rightarrow>
              (True, c\<lparr>cl_streams := write_stream_object (io_hash w) (io_write w) (new_send_stream_key (sub_of c r) sid)
                         object_bytes (Some s) (cl_streams c)\<rparr>)))"

definition reset_data_streams :: "io \<Rightarrow> u64 \<Rightarrow> u64 \<Rightarrow> subscriber \<Rightarrow> subscriber" where
  "reset_data_streams w code r c =
     (let v = sub_of c r;
          c1 = on_sub r (\<lambda>v. v\<lparr>lv_last_object_ids := []\<rparr>) c
      in c1\<lparr>cl_streams := fold (\<lambda>(sid, _). reset_stream (io_hash w) (io_resets w) (new_send_stream_key v sid) code)
              (lv_last_object_ids v) (cl_streams c1)\<rparr>)"

definition save_skipped_header :: "u64 \<Rightarrow> stream_id \<Rightarrow> header_info option \<Rightarrow> subscriber \<Rightarrow> subscriber" where
  "save_skipped_header r sid hi c = (case hi of
       Some header \<Rightarrow> on_sub r (\<lambda>v. v\<lparr>lv_skipped_headers := (lv_skipped_headers v)(sid \<mapsto> header)\<rparr>) c
     | None \<Rightarrow> c)"

definition handle_stream_closed :: "u64 \<Rightarrow> stream_id \<Rightarrow> subscriber \<Rightarrow> subscriber" where
  "handle_stream_closed r sid c =
     (on_sub r (\<lambda>v. v\<lparr>lv_last_object_ids := drop_entry sid (lv_last_object_ids v),
                      lv_skipped_headers := (lv_skipped_headers v)(sid := None)\<rparr>) c)
     \<lparr>cl_closing := cl_closing c @ [new_send_stream_key (sub_of c r) sid]\<rparr>"

subsection \<open>Fills and the end of a subscription\<close>

definition register_fill_stream :: "u64 \<Rightarrow> u64 \<Rightarrow> nat \<Rightarrow> subscriber \<Rightarrow> subscriber" where
  "register_fill_stream r request_id cancel = on_sub r (\<lambda>v. v\<lparr>lv_fill_streams := put_entry request_id cancel (lv_fill_streams v)\<rparr>)"

definition unregister_fill_stream :: "u64 \<Rightarrow> u64 \<Rightarrow> subscriber \<Rightarrow> subscriber" where
  "unregister_fill_stream r request_id = on_sub r (\<lambda>v. v\<lparr>lv_fill_streams := drop_entry request_id (lv_fill_streams v)\<rparr>)"

definition stop_fill_streams :: "fetch_stop \<Rightarrow> u64 \<Rightarrow> subscriber \<Rightarrow> subscriber" where
  "stop_fill_streams reason r c =
     (on_sub r (\<lambda>v. v\<lparr>lv_fill_streams := []\<rparr>) c)
     \<lparr>cl_stopped_fills := cl_stopped_fills c @ map (\<lambda>(_, cancel). (cancel, reason)) (lv_fill_streams (sub_of c r))\<rparr>"

definition note_fill_stream_opened :: "u64 \<Rightarrow> subscriber \<Rightarrow> subscriber" where
  "note_fill_stream_opened r = on_sub r (\<lambda>v. v\<lparr>lv_opened_stream_count := lv_opened_stream_count v + 1\<rparr>)"

definition finish :: "u64 \<Rightarrow> subscriber \<Rightarrow> subscriber" where
  "finish r c =
     (let v = sub_of c r
      in if lv_finished v then c
         else (on_sub r (\<lambda>v. v\<lparr>lv_finished := True, lv_last_object_ids := []\<rparr>) c)
                \<lparr>cl_closing := cl_closing c @ map (\<lambda>(sid, _). new_send_stream_key v sid) (lv_last_object_ids v)\<rparr>)"

definition send_publish_done :: "io \<Rightarrow> publish_done_status_code \<Rightarrow> string \<Rightarrow> u64 \<Rightarrow> subscriber \<Rightarrow> subscriber" where
  "send_publish_done w status_code reason r c = (case reason_phrase_try_new (map of_char reason) of
       Inl _ \<Rightarrow> c
     | Inr _ \<Rightarrow>
         if io_registered w (lv_request_id (sub_of c r))
         then c\<lparr>cl_publish_dones := cl_publish_dones c @
                  [(lv_request_id (sub_of c r), status_code, lv_opened_stream_count (sub_of c r), reason)]\<rparr>
         else c)"

definition send_switched_away :: "io \<Rightarrow> u64 \<Rightarrow> subscriber \<Rightarrow> subscriber" where
  "send_switched_away w = send_publish_done w PDS_TrackEnded ''switched away from''"

definition cancel_subscription :: "io \<Rightarrow> u64 \<Rightarrow> subscriber \<Rightarrow> subscriber" where
  "cancel_subscription w r c =
     finish r (stop_fill_streams StopCancelled r (reset_data_streams w (stream_reset_code_to_wire SRC_Cancelled) r c))"

subsection \<open>Switching\<close>

definition find_suspending :: "io \<Rightarrow> switch_plan \<Rightarrow> subscriber \<Rightarrow> u64 option" where
  "find_suspending w plan c =
     (let r = sp_suspending_request_id plan in if cl_subscriptions c r \<noteq> None \<and> io_held w r then Some r else None)"

definition suspended_at :: "switch_plan \<Rightarrow> u64 \<Rightarrow> subscription_state \<Rightarrow> subscription_state" where
  "suspended_at plan boundary st =
     (let end_group = (case sb_end_group st of None \<Rightarrow> boundary - 1 | Some existing \<Rightarrow> min existing (boundary - 1))
      in st\<lparr>sb_soft_suspended := True,
            sb_end_object := (if Some end_group \<noteq> sb_end_group st then None else sb_end_object st),
            sb_end_group := Some end_group,
            sb_publish_done_at_end := sp_publish_done plan,
            sb_switch_activated := Some (sp_activated plan)\<rparr>)"

definition suspend_at :: "io \<Rightarrow> switch_plan \<Rightarrow> u64 \<Rightarrow> subscriber \<Rightarrow> subscriber" where
  "suspend_at w plan boundary c =
     (if sp_mode plan \<noteq> SM_Soft \<or> boundary = 0 then c
      else case find_suspending w plan c of
        None \<Rightarrow> c
      | Some r \<Rightarrow> on_state r (suspended_at plan boundary) c)"

definition cut_suspending :: "io \<Rightarrow> switch_plan \<Rightarrow> subscriber \<Rightarrow> subscriber" where
  "cut_suspending w plan c = (case find_suspending w plan c of
       None \<Rightarrow> c
     | Some r \<Rightarrow>
         (let c1 = reset_data_streams w (stream_reset_code_to_wire SRC_Cancelled) r
                     (stop_fill_streams StopCancelled r (on_state r (\<lambda>st. st\<lparr>sb_forward := False\<rparr>) c))
          in if sp_publish_done plan then send_switched_away w r c1 else c1))"

definition begin_switch ::
  "io \<Rightarrow> switch_plan \<Rightarrow> location_filter option \<Rightarrow> location option \<Rightarrow> u64 \<Rightarrow> subscriber \<Rightarrow> subscriber" where
  "begin_switch w plan filt largest r c =
     (let c1 = on_state r (\<lambda>st. (case filt of Some f \<Rightarrow> set_location_filter f largest st | None \<Rightarrow> st)
                 \<lparr>sb_forward := True, sb_soft_suspended := False, sb_publish_done_at_end := False, sb_switch_activated := None\<rparr>) c;
          boundary = map_option l_group (sb_start_location (lv_state (sub_of c1 r)));
          plan = plan\<lparr>sp_boundary := boundary\<rparr>;
          c2 = (case boundary of Some b \<Rightarrow> suspend_at w plan b c1 | None \<Rightarrow> c1)
      in on_sub r (\<lambda>v. v\<lparr>lv_pending_switch := True\<rparr>) (c2\<lparr>cl_plans := (cl_plans c2)(r \<mapsto> plan)\<rparr>))"

definition complete_switch :: "io \<Rightarrow> u64 \<Rightarrow> u64 \<Rightarrow> subscriber \<Rightarrow> subscriber" where
  "complete_switch w delivered_group r c = (case cl_plans c r of
       None \<Rightarrow> c
     | Some plan \<Rightarrow>
         (let c1 = c\<lparr>cl_plans := (cl_plans c)(r := None), cl_activated := insert (sp_activated plan) (cl_activated c)\<rparr>
          in case sp_mode plan of
               SM_Soft \<Rightarrow> if sp_boundary plan = None then suspend_at w plan delivered_group c1 else c1
             | SM_Hard \<Rightarrow> cut_suspending w plan c1))"

text \<open>The first delivery completes a switch.\<close>

definition note_delivered :: "io \<Rightarrow> location \<Rightarrow> u64 \<Rightarrow> subscriber \<Rightarrow> subscriber" where
  "note_delivered w l r c =
     (let c1 = on_state r (update_last_sent_max_location l) c
      in if lv_pending_switch (sub_of c1 r)
         then complete_switch w (l_group l) r (on_sub r (\<lambda>v. v\<lparr>lv_pending_switch := False\<rparr>) c1)
         else c1)"

definition finish_soft_drain :: "io \<Rightarrow> u64 \<Rightarrow> subscriber \<Rightarrow> subscriber" where
  "finish_soft_drain w r c =
     (let st = lv_state (sub_of c r)
      in if \<not> sb_soft_suspended st then c
         else (let c1 = on_state r (\<lambda>st. st\<lparr>sb_soft_suspended := False, sb_forward := False, sb_switch_activated := None,
                            sb_publish_done_at_end := False\<rparr>) c
               in if sb_publish_done_at_end st then finish r (send_switched_away w r c1) else c1))"

subsection \<open>The gate of switching sets\<close>

text \<open>\<open>None\<close> while the group has no decision and the task waits for one.\<close>

definition resolve_ssts_gate :: "ssts_state \<Rightarrow> live_subscription \<Rightarrow> u64 \<Rightarrow> (u64 \<times> bool) option" where
  "resolve_ssts_gate st v group_id =
     (let epoch = ssm_epoch (switching_sets st)
      in case get_set_for_track (switching_sets st) (lv_full_track_name v) of
           None \<Rightarrow> Some (epoch, True)
         | Some s \<Rightarrow>
             (case Option.bind (group_decisions st group_id) (\<lambda>sets. sets (sw_id s)) of
                Some chosen \<Rightarrow> Some (epoch, chosen = Some (lv_relay_track_id v))
              | None \<Rightarrow> None))"

definition ssts_gate_allows :: "u64 \<Rightarrow> u64 \<Rightarrow> subscriber \<Rightarrow> (bool \<times> subscriber) option" where
  "ssts_gate_allows group_id r c =
     (let v = sub_of c r; st = cs_ssts (cl_streams c)
      in if lv_gate_group v = group_id \<and> lv_gate_epoch v = ssm_epoch (switching_sets st) then Some (lv_gate_forward v, c)
         else case resolve_ssts_gate st v group_id of
                None \<Rightarrow> None
              | Some (epoch, forward) \<Rightarrow>
                  Some (forward, on_sub r (\<lambda>v. v\<lparr>lv_gate_forward := forward, lv_gate_group := group_id, lv_gate_epoch := epoch\<rparr>) c))"

subsection \<open>Events\<close>

text \<open>The tests an arriving Object goes through, in their order.\<close>

datatype verdict = V_BeforeStart | V_PastEnd | V_Paused | V_Filtered | V_Wanted

definition object_verdict :: "subscription_state \<Rightarrow> moq_object \<Rightarrow> verdict" where
  "object_verdict st ob =
     (if before_start st (ob_location ob) then V_BeforeStart
      else if is_past_end st (ob_location ob) then V_PastEnd
      else if \<not> sb_forward st then V_Paused
      else if \<not> matches_object (sb_range_filter st) ob then V_Filtered
      else V_Wanted)"

text \<open>The stream an Object goes on: opened by the header that comes with a stream's first Object, already
  open, or opened late from a header kept for it.\<close>

definition stream_for :: "io \<Rightarrow> u64 \<Rightarrow> stream_id \<Rightarrow> header_info option \<Rightarrow> subscriber \<Rightarrow> nat option \<times> subscriber" where
  "stream_for w r sid hi c = (case hi of
       Some (HI_Subgroup header) \<Rightarrow>
         (case handle_header w r (HI_Subgroup header) c of
            (Some (sid', s), c1) \<Rightarrow> (Some s, on_sub r (\<lambda>v. v\<lparr>lv_last_object_ids := put_entry sid' None (lv_last_object_ids v)\<rparr>) c1)
          | (None, c1) \<Rightarrow> (None, c1))
     | Some (HI_Fetch _ _) \<Rightarrow> (None, c)
     | None \<Rightarrow>
         (case get_stream (io_hash w) (new_send_stream_key (sub_of c r) sid) (cl_streams c) of
            Some s \<Rightarrow> (Some s, c)
          | None \<Rightarrow>
              (let kept = lv_skipped_headers (sub_of c r) sid;
                   c1 = on_sub r (\<lambda>v. v\<lparr>lv_skipped_headers := (lv_skipped_headers v)(sid := None)\<rparr>) c
               in case (case kept of Some h \<Rightarrow> Some h | None \<Rightarrow> io_active_headers w sid) of
                    Some h \<Rightarrow> (case handle_header w r (mid_stream_header h) c1 of (opened, c2) \<Rightarrow> (map_option snd opened, c2))
                  | None \<Rightarrow> (None, c1))))"

definition forward_object :: "io \<Rightarrow> u64 \<Rightarrow> stream_id \<Rightarrow> moq_object \<Rightarrow> header_info option \<Rightarrow> subscriber \<Rightarrow> subscriber" where
  "forward_object w r sid ob hi c =
     (case stream_for w r sid hi (on_sub r (\<lambda>v. v\<lparr>lv_pending_header := None\<rparr>) c) of
        (None, c1) \<Rightarrow> c1
      | (Some s, c1) \<Rightarrow>
          (let previous_object_id = Option.bind (map_of (lv_last_object_ids (sub_of c1 r)) sid) id
           in case handle_object w r ob previous_object_id sid s c1 of
                (True, c2) \<Rightarrow>
                  note_delivered w (ob_location ob) r
                    (on_sub r (\<lambda>v. v\<lparr>lv_last_object_ids :=
                       put_entry sid (Some (l_object (ob_location ob))) (lv_last_object_ids v)\<rparr>) c2)
              | (False, c2) \<Rightarrow> c2))"

definition handle_subgroup_object :: "io \<Rightarrow> u64 \<Rightarrow> stream_id \<Rightarrow> moq_object \<Rightarrow> header_info option \<Rightarrow> subscriber \<Rightarrow> subscriber" where
  "handle_subgroup_object w r sid ob0 hi c0 =
     (let ob = ob0\<lparr>ob_track_alias := lv_track_alias (sub_of c0 r)\<rparr>;
          gate = (if ssts_enabled (cs_ssts (cl_streams c0)) then ssts_gate_allows (l_group (ob_location ob)) r c0 else Some (True, c0))
      in case gate of
           None \<Rightarrow> c0
         | Some (False, c) \<Rightarrow> c
         | Some (True, c) \<Rightarrow>
             (let c1 = on_state r (update_last_received_object_location (ob_location ob)) c;
                  st = lv_state (sub_of c1 r)
              in case object_verdict st ob of
                   V_BeforeStart \<Rightarrow> save_skipped_header r sid hi c1
                 | V_PastEnd \<Rightarrow> if sb_soft_suspended st then finish_soft_drain w r c1 else c1
                 | V_Paused \<Rightarrow>
                     (case hi of Some h \<Rightarrow> on_sub r (\<lambda>v. v\<lparr>lv_pending_header := Some (sid, h)\<rparr>) c1 | None \<Rightarrow> c1)
                 | V_Filtered \<Rightarrow> save_skipped_header r sid hi c1
                 | V_Wanted \<Rightarrow> forward_object w r sid ob hi c1))"

definition datagram_fields :: "datagram \<Rightarrow> object_fields" where
  "datagram_fields d = \<lparr>of_subgroup_id = None, of_object_id = dg_object_id d,
     of_publisher_priority = (case dg_publisher_priority d of Some p \<Rightarrow> p | None \<Rightarrow> 128), of_properties = dg_properties d\<rparr>"

definition datagram_wanted :: "nat set \<Rightarrow> subscription_state \<Rightarrow> datagram \<Rightarrow> bool" where
  "datagram_wanted activated st d \<longleftrightarrow>
     (let l = Location (dg_group_id d) (dg_object_id d)
      in \<not> before_start st l \<and> \<not> (is_past_end st l \<and> \<not> awaiting_switch_activation activated st)
         \<and> sb_forward st \<and> cf_matches (sb_range_filter st) (datagram_fields d))"

definition handle_datagram :: "io \<Rightarrow> u64 \<Rightarrow> datagram \<Rightarrow> subscriber \<Rightarrow> subscriber" where
  "handle_datagram w r d c =
     (let l = Location (dg_group_id d) (dg_object_id d);
          c1 = on_state r (update_last_received_object_location l) c
      in if \<not> datagram_wanted (cl_activated c1) (lv_state (sub_of c1 r)) d then c1
         else case datagram_serialize (d\<lparr>dg_track_alias := lv_track_alias (sub_of c1 r)\<rparr>) of
                Inl _ \<Rightarrow> c1
              | Inr bytes \<Rightarrow>
                  if \<not> io_sends w bytes then c1
                  else note_delivered w l r (c1\<lparr>cl_datagrams := cl_datagrams c1 @ [bytes]\<rparr>))"

fun handle_track_event :: "io \<Rightarrow> u64 \<Rightarrow> track_event \<Rightarrow> subscriber \<Rightarrow> subscriber" where
  "handle_track_event w r (TE_SubgroupObject sid ob hi) c = handle_subgroup_object w r sid ob hi c"
| "handle_track_event w r (TE_Datagram d) c = handle_datagram w r d c"
| "handle_track_event w r (TE_StreamClosed sid) c = handle_stream_closed r sid c"
| "handle_track_event w r (TE_PublisherDisconnected status_code reason) c =
     (let c1 = send_publish_done w status_code reason r c;
          c2 = (if status_code = PDS_MalformedTrack then stop_fill_streams StopMalformed r c1 else c1)
      in finish r c2)"

text \<open>One turn of the task. An event of \<open>None\<close> is the closed channel.\<close>

definition receive_turn :: "io \<Rightarrow> u64 \<Rightarrow> u64 \<Rightarrow> u64 \<Rightarrow> track_event option \<Rightarrow> subscriber \<Rightarrow> subscriber" where
  "receive_turn w max_subscriber_lag backlog r event c =
     (let v = sub_of c r; shut = on_sub r (\<lambda>v. v\<lparr>lv_receiving := False\<rparr>)
      in if \<not> lv_receiving v then c
         else if max_subscriber_lag > 0 \<and> backlog > max_subscriber_lag \<and> \<not> lv_finished v
         then finish r (reset_data_streams w (stream_reset_code_to_wire SRC_TooFarBehind) r (shut c))
         else case event of
                Some e \<Rightarrow> if \<not> lv_finished v then handle_track_event w r e c else shut c
              | None \<Rightarrow> shut (finish r c))"

definition update_subscription :: "io \<Rightarrow> message_parameter list \<Rightarrow> u64 \<Rightarrow> subscriber \<Rightarrow> subscriber" where
  "update_subscription w parameters r c =
     (let (st, rising, falling) = update_state parameters (lv_state (sub_of c r));
          c1 = on_state r (\<lambda>_. st) c;
          c2 = (if falling then stop_fill_streams StopCancelled r c1 else c1)
      in if \<not> rising then c2
         else case lv_pending_header (sub_of c2 r) of
                None \<Rightarrow> c2
              | Some (pending_stream_id, hi) \<Rightarrow>
                  (case handle_header w r (mid_stream_header hi) (on_sub r (\<lambda>v. v\<lparr>lv_pending_header := None\<rparr>) c2) of
                     (Some _, c3) \<Rightarrow> on_sub r (\<lambda>v. v\<lparr>lv_last_object_ids := put_entry pending_stream_id None (lv_last_object_ids v)\<rparr>) c3
                   | (None, c3) \<Rightarrow> c3))"

subsection \<open>A soft switch\<close>

lemma suspended_range:
  assumes "boundary \<noteq> 0"
  shows "in_wanted_range (suspended_at plan boundary st) l \<longleftrightarrow> in_wanted_range st l \<and> l_group l < boundary"
proof -
  have "0 < unat boundary" using assms by (simp add: unat_gt_0)
  then have less: "boundary - 1 < g \<longleftrightarrow> \<not> g < boundary" for g
    using assms by (auto simp: word_less_nat_alt unat_minus_one)
  have le: "g \<le> boundary - 1 \<longleftrightarrow> g < boundary" for g using less [of g] by (simp add: not_less [symmetric])
  show ?thesis
    by (auto simp: suspended_at_def in_wanted_range_def before_start_def is_past_end_def Let_def less le min_def split: option.splits if_splits)
qed

lemma begin_switch_keeps: "cl_subscriptions (begin_switch w plan filt largest r c) x = None \<longleftrightarrow> cl_subscriptions c x = None"
proof -
  have on: "cl_subscriptions (on_sub y f d) x = None \<longleftrightarrow> cl_subscriptions d x = None" for y f d by (simp add: on_sub_def)
  have at: "cl_subscriptions (suspend_at w p b d) x = None \<longleftrightarrow> cl_subscriptions d x = None" for p b d
    by (simp add: suspend_at_def on_state_def on split: option.splits)
  show ?thesis by (simp add: begin_switch_def Let_def on at on_state_def split: option.splits)
qed


abbreviation (input) switching_subscription :: "u64 \<Rightarrow> live_subscription" where
  "switching_subscription r \<equiv> create_instance 7 r \<lparr>ftn_namespace = [], ftn_name = []\<rparr>
     (OriginSubscribe \<lparr>sub_request_id = r, sub_track_namespace = [], sub_track_name = [], sub_subscribe_parameters = []\<rparr>)"


end
