(* ===== verification/Stream_Table.thy ===== *)
theory Stream_Table
  imports Forwarding
begin

text \<open>
  What the operations on a connection's send streams (\<open>Send_Streams\<close>) keep of the stream table: every
  entry names a transport stream of its own, an operation touches only the entry of its key, and what was
  written to a transport stream stays. The last part says what the tasks of other requests can do to the streams
  of a subscription.
\<close>

subsection \<open>The stream table\<close>

definition table_ok :: "(bytes \<Rightarrow> u64) \<Rightarrow> client_streams \<Rightarrow> bool" where
  "table_ok h cs \<longleftrightarrow> streams_wf h cs
     \<and> (\<forall>k n. get_stream h k cs = Some n \<longrightarrow> n < length (cs_transport cs))
     \<and> (\<forall>k k' n. get_stream h k cs = Some n \<and> get_stream h k' cs = Some n \<longrightarrow> k = k')"

abbreviation written :: "client_streams \<Rightarrow> nat \<Rightarrow> bytes" where
  "written cs n \<equiv> ts_written (cs_transport cs ! n)"

lemma open_stream_table:
  assumes "table_ok h cs" "open_stream h opens accepts key payload prio cs = (res, cs')"
  shows "table_ok h cs'" "ssts_enabled (cs_ssts cs') = ssts_enabled (cs_ssts cs)"
    "length (cs_transport cs) \<le> length (cs_transport cs')"
    "n < length (cs_transport cs) \<Longrightarrow> written cs' n = written cs n"
    "k \<noteq> key \<Longrightarrow> get_stream h k cs' = get_stream h k cs"
    "get_stream h k cs' = Some n \<Longrightarrow> get_stream h k cs = Some n \<or> length (cs_transport cs) \<le> n"
    "get_stream h key cs = None \<Longrightarrow> opens \<Longrightarrow> accepts payload \<Longrightarrow> res = Some (length (cs_transport cs))
       \<and> get_stream h key cs' = res \<and> length (cs_transport cs') = Suc (length (cs_transport cs))
       \<and> written cs' (length (cs_transport cs)) = payload"
    "get_stream h key cs = Some m \<Longrightarrow> res = Some m \<and> cs' = cs"
proof -
  show "get_stream h key cs = Some m \<Longrightarrow> res = Some m \<and> cs' = cs" using assms(2) by (simp add: open_stream_def)
  let ?cs1 = "cs\<lparr>cs_transport := cs_transport cs @ [\<lparr>ts_written = [], ts_priority = prio, ts_end = StillOpen\<rparr>],
      cs_send_streams := shard_insert (stream_partition_index h) key (length (cs_transport cs)) (cs_send_streams cs)\<rparr>"
  have wf: "streams_wf h cs" and low: "get_stream h k cs = Some n \<Longrightarrow> n < length (cs_transport cs)"
    and inj: "get_stream h k cs = Some n \<Longrightarrow> get_stream h k' cs = Some n \<Longrightarrow> k = k'" for k k' n
    using assms(1) unfolding table_ok_def by blast+
  have get1: "get_stream h k ?cs1 = (if k = key then Some (length (cs_transport cs)) else get_stream h k cs)" for k
    using wf by (simp add: get_stream_def stream_shards.shard_laws)
  have wf1: "streams_wf h ?cs1" using wf by (simp add: stream_shards.shard_insert_wf)
  let ?cs2 = "on_stream_opened (key_track key) ?cs1"
  have gone: "get_stream h k (snd (take_stream h key ?cs2)) = (if k = key then None else get_stream h k cs)" for k
    using wf1 get1 [of k] by (auto simp: take_stream_def get_stream_def stream_shards.shard_laws on_stream_opened_def)
  have wf2: "streams_wf h (snd (take_stream h key ?cs2))"
    using wf1 by (simp add: take_stream_def stream_shards.shard_remove_wf on_stream_opened_def)
  consider (kept) m where "get_stream h key cs = Some m" "res = Some m" "cs' = cs"
    | (refused) "get_stream h key cs = None" "\<not> opens" "cs' = cs"
    | (opened) "get_stream h key cs = None" "opens" "accepts payload" "res = Some (length (cs_transport cs))"
        "cs' = ?cs2\<lparr>cs_transport := (cs_transport ?cs2)[length (cs_transport cs) :=
             (cs_transport ?cs2 ! length (cs_transport cs))\<lparr>ts_written := payload\<rparr>]\<rparr>"
    | (failed) "get_stream h key cs = None" "\<not> accepts payload"
        "cs' = on_stream_closed (key_track key) (snd (take_stream h key ?cs2))"
    using assms(2) by (auto simp: open_stream_def Let_def split: option.splits if_splits)
  note cases = this
  have transport2: "cs_transport ?cs2 = cs_transport cs @ [\<lparr>ts_written = [], ts_priority = prio, ts_end = StillOpen\<rparr>]"
    by (simp add: on_stream_opened_def)
  from cases have get': "get_stream h k cs' = (if k = key \<and> get_stream h key cs = None
      then (if opens \<and> accepts payload then Some (length (cs_transport cs)) else None) else get_stream h k cs)" for k
    by cases (auto simp: get1 gone)
  from cases have len: "length (cs_transport cs') = length (cs_transport cs) \<or> length (cs_transport cs') = Suc (length (cs_transport cs))"
    by cases (auto simp: transport2 take_stream_def on_stream_closed_def)
  from cases have wf': "streams_wf h cs'" by cases (use wf wf1 wf2 in auto)
  from cases have top: "opens \<and> accepts payload \<and> get_stream h key cs = None \<Longrightarrow> length (cs_transport cs') = Suc (length (cs_transport cs))"
    by cases (auto simp: transport2)
  show "length (cs_transport cs) \<le> length (cs_transport cs')" using len by auto
  show "n < length (cs_transport cs) \<Longrightarrow> written cs' n = written cs n"
    using cases by cases (auto simp: transport2 take_stream_def on_stream_closed_def nth_append)
  show "k \<noteq> key \<Longrightarrow> get_stream h k cs' = get_stream h k cs" using get' by simp
  show "get_stream h k cs' = Some n \<Longrightarrow> get_stream h k cs = Some n \<or> length (cs_transport cs) \<le> n"
    using get' [of k] by (auto split: if_splits)
  show "ssts_enabled (cs_ssts cs') = ssts_enabled (cs_ssts cs)"
    using cases by cases (auto simp: take_stream_def)
  show "get_stream h key cs = None \<Longrightarrow> opens \<Longrightarrow> accepts payload \<Longrightarrow> res = Some (length (cs_transport cs))
       \<and> get_stream h key cs' = res \<and> length (cs_transport cs') = Suc (length (cs_transport cs))
       \<and> written cs' (length (cs_transport cs)) = payload"
    using cases by cases (auto simp: transport2 get1)
  show "table_ok h cs'"
    unfolding table_ok_def
  proof (intro conjI allI impI)
    show "n < length (cs_transport cs')" if "get_stream h k cs' = Some n" for k n
      using that low [of k n] len top by (fastforce simp: get' split: if_splits)
    show "k = k'" if "get_stream h k cs' = Some n \<and> get_stream h k' cs' = Some n" for k k' n
      using that inj [of k n k'] low [of k n] low [of k' n] by (auto simp: get' split: if_splits)
  qed (use wf' in simp)
qed

lemma write_ok_table:
  fixes ob :: bytes
  assumes "table_ok h cs" "n < length (cs_transport cs)"
    and cs': "cs' = write_stream_object h WriteOk key ob (Some n) cs"
  shows "table_ok h cs'" "ssts_enabled (cs_ssts cs') = ssts_enabled (cs_ssts cs)" "get_stream h k cs' = get_stream h k cs"
    "length (cs_transport cs') = length (cs_transport cs)"
    "m < length (cs_transport cs) \<Longrightarrow> written cs' m = (if m = n then written cs n @ ob else written cs m)"
  using assms by (auto simp: write_stream_object_def table_ok_def nth_list_update)

lemma take_stream_table:
  assumes "table_ok h cs" "take_stream h key cs = (res, cs')"
  shows "table_ok h cs'" "cs_transport cs' = cs_transport cs" "cs_ssts cs' = cs_ssts cs" "res = get_stream h key cs"
    "get_stream h k cs' = (if k = key then None else get_stream h k cs)"
proof -
  have wf: "streams_wf h cs" using assms(1) by (simp add: table_ok_def)
  have cs': "cs' = cs\<lparr>cs_send_streams := shard_remove (stream_partition_index h) key (cs_send_streams cs)\<rparr>"
    and res: "res = get_stream h key cs" using assms(2) by (simp_all add: take_stream_def)
  have get: "get_stream h k cs' = (if k = key then None else get_stream h k cs)" for k
    using wf by (simp add: cs' get_stream_def stream_shards.shard_laws)
  then show "get_stream h k cs' = (if k = key then None else get_stream h k cs)" .
  have "streams_wf h cs'" "cs_transport cs' = cs_transport cs" using wf by (simp_all add: cs' stream_shards.shard_remove_wf)
  then show "table_ok h cs'" using assms(1) unfolding table_ok_def get by auto
qed (use assms(2) in \<open>auto simp: take_stream_def\<close>)

text \<open>What the rest of the connection may do: work on the streams of other requests, and finish streams
  that a task was spawned to close.\<close>

inductive elsewhere :: "(bytes \<Rightarrow> u64) \<Rightarrow> u64 \<Rightarrow> send_stream_key list \<Rightarrow> client_streams \<Rightarrow> client_streams \<Rightarrow> bool"
  for h r closing where
  ew_open: "ssk_request_id key \<noteq> r \<Longrightarrow> elsewhere h r closing cs (snd (open_stream h opens accepts key payload prio cs))"
| ew_write: "ssk_request_id key \<noteq> r \<Longrightarrow> get_stream h key cs = Some s \<Longrightarrow>
    elsewhere h r closing cs (write_stream_object h res key ob (Some s) cs)"
| ew_reset: "ssk_request_id key \<noteq> r \<Longrightarrow> elsewhere h r closing cs (reset_stream h resets key code cs)"
| ew_close: "ssk_request_id key \<noteq> r \<or> key \<in> set closing \<Longrightarrow> elsewhere h r closing cs (snd (close_stream_begin h key cs))"
| ew_closed: "elsewhere h r closing cs (snd (snd (close_stream_end ms res key s cs)))"

text \<open>What it cannot change: a stream of the subscription stays in the table unless it is being closed, and what
  was written to it stays.\<close>

definition undisturbed :: "(bytes \<Rightarrow> u64) \<Rightarrow> u64 \<Rightarrow> send_stream_key list \<Rightarrow> client_streams \<Rightarrow> client_streams \<Rightarrow> bool" where
  "undisturbed h r closing cs cs' \<longleftrightarrow> ssts_enabled (cs_ssts cs') = ssts_enabled (cs_ssts cs)
     \<and> length (cs_transport cs) \<le> length (cs_transport cs')
     \<and> (\<forall>k n. get_stream h k cs' = Some n \<longrightarrow> get_stream h k cs = Some n \<or> length (cs_transport cs) \<le> n)
     \<and> (\<forall>k. ssk_request_id k = r \<longrightarrow> get_stream h k cs' = get_stream h k cs \<or> (get_stream h k cs' = None \<and> k \<in> set closing))
     \<and> (\<forall>n < length (cs_transport cs). (\<forall>k. get_stream h k cs = Some n \<longrightarrow> ssk_request_id k = r) \<longrightarrow> written cs' n = written cs n)"

lemma end_stream_transport: "length (cs_transport (end_stream s e cs)) = length (cs_transport cs)"
    "n < length (cs_transport cs) \<Longrightarrow> written (end_stream s e cs) n = written cs n"
  by (simp add: end_stream_def) (cases "s = n"; simp add: end_stream_def)

lemma on_closed_transport [simp]: "cs_transport (on_stream_closed t cs) = cs_transport cs"
  by (simp add: on_stream_closed_def)

lemma table_ok_core:
  "cs_send_streams cs' = cs_send_streams cs \<Longrightarrow> length (cs_transport cs') = length (cs_transport cs) \<Longrightarrow> table_ok h cs' = table_ok h cs"
  by (simp add: table_ok_def get_stream_def)

lemma release_table:
  assumes "table_ok h cs" "release_stream h key cs = (res, cs')"
  shows "table_ok h cs'" "cs_transport cs' = cs_transport cs" "ssts_enabled (cs_ssts cs') = ssts_enabled (cs_ssts cs)"
    "get_stream h k cs' = (if k = key then None else get_stream h k cs)"
proof -
  obtain r1 cs1 where t: "take_stream h key cs = (r1, cs1)" by fastforce
  note T = take_stream_table [OF assms(1) t]
  have cs': "cs' = cs1 \<or> cs' = on_stream_closed (key_track key) cs1" using assms(2) t by (auto simp: release_stream_def split: if_splits)
  moreover have "table_ok h (on_stream_closed (key_track key) cs1)"
    using T(1) table_ok_core [of "on_stream_closed (key_track key) cs1" cs1] by (simp add: on_stream_closed_def)
  ultimately show "table_ok h cs'" using T(1) by auto
  show "cs_transport cs' = cs_transport cs" "ssts_enabled (cs_ssts cs') = ssts_enabled (cs_ssts cs)"
    "get_stream h k cs' = (if k = key then None else get_stream h k cs)" using cs' T by auto
qed

lemma elsewhere_undisturbed:
  assumes "elsewhere h r closing cs cs'" "table_ok h cs"
  shows "table_ok h cs' \<and> undisturbed h r closing cs cs'"
  using assms
proof cases
  case (ew_open key opens accepts payload prio)
  obtain res where "open_stream h opens accepts key payload prio cs = (res, cs')" using ew_open(1) by (metis prod.collapse)
  note O = open_stream_table [OF assms(2) this]
  then show ?thesis using ew_open(2) O(1-4) O(5,6) unfolding undisturbed_def by metis
next
  case (ew_write key s res ob)
  have s: "s < length (cs_transport cs)" using ew_write(3) assms(2) by (auto simp: table_ok_def)
  show ?thesis
  proof (cases res)
    case WriteOk
    note W = write_ok_table [OF assms(2) s refl, where key = key and ob = ob]
    show ?thesis unfolding undisturbed_def ew_write(1) WriteOk using W ew_write(2,3) by auto
  next
    case ClosedOrStopped
    obtain r1 cs1 where rel: "release_stream h key cs = (r1, cs1)" by fastforce
    note R = release_table [OF assms(2) rel]
    have "cs' = cs1" using ew_write(1) ClosedOrStopped rel by (simp add: write_stream_object_def)
    then show ?thesis using R ew_write(2) by (auto simp: undisturbed_def split: if_splits)
  qed (use ew_write assms(2) in \<open>simp add: write_stream_object_def undisturbed_def\<close>)
next
  case (ew_reset key resets code)
  obtain r1 cs1 where rel: "release_stream h key cs = (r1, cs1)" by fastforce
  note R = release_table [OF assms(2) rel]
  have "cs' = cs1 \<or> (\<exists>s. cs' = end_stream s (ResetEnd code) cs1)" using ew_reset(1) rel by (auto simp: reset_stream_def split: option.splits)
  moreover have "table_ok h (end_stream s e cs1)" for s e
    using R(1) table_ok_core [of "end_stream s e cs1" cs1] by (simp add: end_stream_def)
  ultimately show ?thesis using R ew_reset(2) by (auto simp: undisturbed_def end_stream_transport split: if_splits)
next
  case (ew_close key)
  obtain r1 cs1 where t: "take_stream h key cs = (r1, cs1)" by fastforce
  note T = take_stream_table [OF assms(2) t]
  have "cs' = cs1" using ew_close(1) t by (simp add: close_stream_begin_def)
  then show ?thesis using T ew_close(2) by (auto simp: undisturbed_def split: if_splits)
next
  case (ew_closed ms res key s)
  have "cs' = cs \<or> cs' = on_stream_closed (key_track key) cs \<or> cs' = on_stream_closed (key_track key) (end_stream s FinishedEnd cs)
      \<or> (\<exists>e. cs' = end_stream s e (on_stream_closed (key_track key) cs))"
    using ew_closed(1) by (auto simp: close_stream_end_def split: if_splits finish_result.splits)
  moreover have "table_ok h (on_stream_closed t cs0) = table_ok h cs0" "table_ok h (end_stream s e cs0) = table_ok h cs0" for t e cs0
    by (rule table_ok_core; simp add: on_stream_closed_def end_stream_def)+
  ultimately show ?thesis using assms(2) by (auto simp: undisturbed_def end_stream_transport)
qed

end
