(* ===== verification/Forwarded_Streams.thy ===== *)
theory Forwarded_Streams
  imports Stream_Table
begin

text \<open>
  What the forwarding task writes is what the subscriber asked for. The theory follows one subscription
  through a history of its track's events, interleaved with whatever the other subscriptions of the
  connection do with the shared stream table and with the background tasks that finish streams, and
  reads the subscription's streams back with the receiver of \<open>Data_Stream\<close>.
\<close>

subsection \<open>Histories of a subscription\<close>

abbreviation header_of :: "(stream_id \<Rightarrow> subgroup_header) \<Rightarrow> stream_id \<Rightarrow> header_info" where
  "header_of hdr sid \<equiv> HI_Subgroup (hdr sid)"

fun object_on :: "stream_id \<Rightarrow> track_event \<Rightarrow> moq_object option" where
  "object_on sid (TE_SubgroupObject sid' ob _) = (if sid' = sid then Some ob else None)"
| "object_on sid _ = None"

definition objects_on :: "stream_id \<Rightarrow> track_event list \<Rightarrow> moq_object list" where
  "objects_on sid es = List.map_filter (object_on sid) es"

definition has_header :: "stream_id \<Rightarrow> track_event list \<Rightarrow> bool" where
  "has_header sid es \<longleftrightarrow> (\<exists>ob hi. TE_SubgroupObject sid ob (Some hi) \<in> set es)"

text \<open>An Object as the receiver hands it out for a stream with the header \<open>hh\<close>.\<close>

definition fits_header :: "subgroup_header \<Rightarrow> moq_object \<Rightarrow> bool" where
  "fits_header hh ob \<longleftrightarrow> l_group (ob_location ob) = sh_group_id hh \<and> ob_subgroup_id ob = sh_subgroup_id hh
     \<and> ob_publisher_priority ob = (case sh_publisher_priority hh of Some p \<Rightarrow> p | None \<Rightarrow> 128)
     \<and> (ob_properties ob \<noteq> None \<longleftrightarrow> sht_has_properties (sh_header_type hh))
     \<and> sort_key object_property_type_value (props_or_empty (ob_properties ob)) = props_or_empty (ob_properties ob)
     \<and> item_properties_wf (DS_Object ob) \<and> ob_payload ob \<noteq> Some [] \<and> (\<exists>so. try_into_subgroup ob = Inr so)"

text \<open>The next event of a track on which each publisher's stream is the only one for its subgroup: it
  starts with its header, which the relay keeps while it is open, its Object IDs ascend, and nothing comes after its end.\<close>

definition next_event :: "u64 \<Rightarrow> (stream_id \<Rightarrow> subgroup_header) \<Rightarrow> io \<Rightarrow> track_event list \<Rightarrow> track_event \<Rightarrow> bool" where
  "next_event relay_track_id hdr w es e \<longleftrightarrow> (case e of
       TE_SubgroupObject sid ob hi \<Rightarrow>
         TE_StreamClosed sid \<notin> set es \<and> fits_header (hdr sid) ob
         \<and> subgroup_header_held (hdr sid) \<and> sh_subgroup_id (hdr sid) \<noteq> None
         \<and> build_stream_id relay_track_id (header_of hdr sid) = sid
         \<and> (\<forall>ob' \<in> set (objects_on sid es). l_object (ob_location ob') < l_object (ob_location ob))
         \<and> (\<forall>hi. io_active_headers w sid = Some hi \<longrightarrow> hi = header_of hdr sid)
         \<and> (case hi of
              Some h \<Rightarrow> h = header_of hdr sid \<and> objects_on sid es = []
                \<and> (sht_subgroup_id_mode (sh_header_type (hdr sid)) = SIM_FirstObjectId \<longrightarrow>
                     sh_subgroup_id (hdr sid) = Some (l_object (ob_location ob)))
            | None \<Rightarrow> has_header sid es \<or> io_active_headers w sid \<noteq> None)
     | TE_Datagram _ \<Rightarrow> True
     | TE_StreamClosed sid \<Rightarrow> TE_StreamClosed sid \<notin> set es
     | TE_PublisherDisconnected _ _ \<Rightarrow> False)"

definition transport_fine :: "(bytes \<Rightarrow> u64) \<Rightarrow> io \<Rightarrow> bool" where
  "transport_fine h w \<longleftrightarrow> io_hash w = h \<and> io_opens w \<and> (\<forall>b. io_accepts w b) \<and> io_write w = WriteOk"

inductive fwd_run :: "(bytes \<Rightarrow> u64) \<Rightarrow> u64 \<Rightarrow> (stream_id \<Rightarrow> subgroup_header) \<Rightarrow> subscriber \<Rightarrow> track_event list \<Rightarrow> subscriber \<Rightarrow> bool"
  for h r hdr c0 where
  fw_start: "fwd_run h r hdr c0 [] c0"
| fw_event: "fwd_run h r hdr c0 es c \<Longrightarrow> transport_fine h w \<Longrightarrow> next_event (lv_relay_track_id (sub_of c0 r)) hdr w es e \<Longrightarrow>
    fwd_run h r hdr c0 (es @ [e]) (handle_track_event w r e c)"
| fw_elsewhere: "fwd_run h r hdr c0 es c \<Longrightarrow> elsewhere h r (cl_closing c) (cl_streams c) cs' \<Longrightarrow>
    fwd_run h r hdr c0 es (c\<lparr>cl_streams := cs'\<rparr>)"

text \<open>What the subscription wants, and what its stream should carry.\<close>

definition aliased :: "live_subscription \<Rightarrow> moq_object \<Rightarrow> moq_object" where
  "aliased v ob = ob\<lparr>ob_track_alias := lv_track_alias v\<rparr>"

definition wanted :: "live_subscription \<Rightarrow> moq_object \<Rightarrow> bool" where
  "wanted v ob \<longleftrightarrow> object_verdict (lv_state v) (aliased v ob) = V_Wanted"

definition due :: "live_subscription \<Rightarrow> stream_id \<Rightarrow> track_event list \<Rightarrow> moq_object list" where
  "due v sid es = map (aliased v) (filter (wanted v) (objects_on sid es))"

definition carries :: "subgroup_header \<Rightarrow> moq_object list \<Rightarrow> bytes \<Rightarrow> bool" where
  "carries hh obs bs \<longleftrightarrow> subgroup_header_wf hh \<and> (\<forall>ob \<in> set obs. item_properties_wf (DS_Object ob))
     \<and> received_items hh (map DS_Object obs) = map DS_Object obs
     \<and> (\<exists>sd0 sd. send_data_stream_new (\<lambda>_. True) (HI_Subgroup hh) = Inr sd0
          \<and> send_items None (map DS_Object obs) sd0 = (Inr (), sd) \<and> sd_written sd = bs)"

subsection \<open>Writing\<close>

lemma send_items_append:
  "send_items prev (map DS_Object obs) sd = (Inr (), sd1) \<Longrightarrow>
   send_items prev (map DS_Object obs @ items) sd =
     send_items (if obs = [] then prev else Some (l_object (ob_location (last obs)))) items sd1"
  by (induction obs arbitrary: prev sd) (auto split: prod.splits sum.splits)

lemma last_header_objects: "last_header hh (map DS_Object obs) = (if obs = [] then hh else resolve_header hh (l_object (ob_location (obs ! 0))))"
  by (cases obs) auto

lemma resolve_resolved: "\<not> awaiting_subgroup_id (HI_Subgroup hh) \<Longrightarrow> resolve_header hh i = hh"
  by (simp add: resolve_header_def)

lemma resolve_twice [simp]: "resolve_header (resolve_header hh i) j = resolve_header hh i"
  by (simp add: resolve_header_def awaiting_subgroup_id_def)

lemma received_items_append:
  "received_items hh (map DS_Object (obs @ [ob])) =
     received_items hh (map DS_Object obs) @
     [DS_Object (received (resolve_header (last_header hh (map DS_Object obs)) (l_object (ob_location ob))) ob)]"
proof (induction obs arbitrary: hh)
  case (Cons x obs)
  let ?h = "resolve_header hh (l_object (ob_location x))"
  have "last_header ?h (map DS_Object obs) = ?h" by (rule not_awaiting_last) simp
  then show ?case using Cons.IH [of ?h] by (simp add: Let_def)
qed (simp add: Let_def)

text \<open>Two headers that say the same of the Objects on a stream.\<close>

definition like :: "subgroup_header \<Rightarrow> subgroup_header \<Rightarrow> bool" where
  "like hh hh' \<longleftrightarrow> sh_group_id hh = sh_group_id hh' \<and> sh_publisher_priority hh = sh_publisher_priority hh'
     \<and> sht_has_properties (sh_header_type hh) = sht_has_properties (sh_header_type hh')"

lemma like_resolve [simp]: "like (resolve_header hh i) hh' = like hh hh'"
  by (auto simp: like_def resolve_header_def)

lemma received_fits:
  assumes "fits_header hh' ob" "like hh hh'" "sh_subgroup_id hh = sh_subgroup_id hh'" "ob_track_alias ob = sh_track_alias hh"
  shows "received hh ob = ob"
proof -
  have "ob_forwarding_preference ob = FP_Subgroup" using assms(1) by (auto simp: fits_header_def try_into_subgroup_def split: if_splits)
  moreover have "Some (props_or_empty (ob_properties ob)) = ob_properties ob" if "ob_properties ob \<noteq> None"
    using that by (cases "ob_properties ob") (auto)
  ultimately show ?thesis using assms
    by (cases "ob_location ob"; cases ob) (auto simp: received_def fits_header_def like_def split: option.splits)
qed

lemma fits_alias: "fits_header hh (aliased v ob) = fits_header hh ob"
  by (simp add: fits_header_def aliased_def try_into_subgroup_def)

lemma send_object_fits:
  assumes "fits_header hh' ob" "sht_has_properties (sh_header_type hh) = sht_has_properties (sh_header_type hh')" "sd_header_info sd = HI_Subgroup hh"
  obtains so b where "try_into_subgroup ob = Inr so" "subgroup_object_serialize so prev (so_properties so \<noteq> None) = Inr b"
    "send_object (\<lambda>_. True) ob prev sd = (Inr (), sd\<lparr>sd_written := sd_written sd @ b\<rparr>)"
proof -
  from assms(1) obtain so where so: "try_into_subgroup ob = Inr so" by (auto simp: fits_header_def)
  note p = try_into_subgroup_Inr(2) [OF so]
  have hp: "(so_properties so \<noteq> None) = sht_has_properties (sh_header_type hh)" using assms(1,2) p by (simp add: fits_header_def)
  have "\<forall>p \<in> set (props_or_empty (so_properties so)). object_property_wf p" using assms(1) p by (simp add: fits_header_def)
  moreover have "so_properties so \<noteq> None \<or> props_or_empty (so_properties so) = []" by (cases "so_properties so") auto
  ultimately obtain b where b: "subgroup_object_serialize so prev (so_properties so \<noteq> None) = Inr b"
    using subgroup_object_roundtrip [of so "so_properties so \<noteq> None" prev] by blast
  show thesis by (rule that [OF so b]) (use assms(3) so b hp in \<open>simp add: send_object_def write_all_def\<close>)
qed

text \<open>A stream that carries Objects takes one more.\<close>

lemma carries_append:
  assumes "carries hh obs bs" "fits_header hh' ob" "like hh hh'" "ob_track_alias ob = sh_track_alias hh"
    and sg: "sh_subgroup_id (resolve_header (last_header hh (map DS_Object obs)) (l_object (ob_location ob))) = sh_subgroup_id hh'"
  obtains so b where "try_into_subgroup ob = Inr so"
    "subgroup_object_serialize so (if obs = [] then None else Some (l_object (ob_location (last obs)))) (so_properties so \<noteq> None) = Inr b"
    "carries hh (obs @ [ob]) (bs @ b)"
proof -
  from assms(1) obtain sd0 sd where new: "send_data_stream_new (\<lambda>_. True) (HI_Subgroup hh) = Inr sd0"
    and run: "send_items None (map DS_Object obs) sd0 = (Inr (), sd)" "sd_written sd = bs" by (auto simp: carries_def)
  have "sd_header_info sd0 = HI_Subgroup hh" using new by (auto simp: send_data_stream_new_def write_all_def rbind_Inr_iff)
  then have hi: "sd_header_info sd = HI_Subgroup hh" using send_items_extends [OF run(1)] by auto
  let ?prev = "if obs = [] then None else Some (l_object (ob_location (last obs)))"
  from assms(3) have hp: "sht_has_properties (sh_header_type hh) = sht_has_properties (sh_header_type hh')" by (simp add: like_def)
  from send_object_fits [OF assms(2) hp hi, of ?prev] obtain so b where so: "try_into_subgroup ob = Inr so"
    "subgroup_object_serialize so ?prev (so_properties so \<noteq> None) = Inr b"
    "send_object (\<lambda>_. True) ob ?prev sd = (Inr (), sd\<lparr>sd_written := sd_written sd @ b\<rparr>)" by blast
  have "send_items None (map DS_Object (obs @ [ob])) sd0 = (Inr (), sd\<lparr>sd_written := sd_written sd @ b\<rparr>)"
    using send_items_append [OF run(1), of "[DS_Object ob]"] so(3) by simp
  moreover have "received (resolve_header (last_header hh (map DS_Object obs)) (l_object (ob_location ob))) ob = ob"
    using assms(2,3,4) sg by (intro received_fits [of hh']) (auto simp: last_header_objects, auto simp: resolve_header_def)
  ultimately have "carries hh (obs @ [ob]) (bs @ b)"
    using assms(1,2) new run(2) unfolding carries_def received_items_append by (auto simp: fits_header_def)
  with so that show thesis by blast
qed

subsection \<open>What the streams hold\<close>

abbreviation skey :: "u64 \<Rightarrow> stream_id \<Rightarrow> send_stream_key" where
  "skey r sid \<equiv> \<lparr>ssk_request_id = r, ssk_stream_id = sid\<rparr>"

text \<open>A stream with nothing due is not open, and its header is kept as long as an Object may still need it; otherwise the stream
  carries what is due, and the next Object will be encoded against the last.\<close>

definition idle_stream ::
  "(bytes \<Rightarrow> u64) \<Rightarrow> u64 \<Rightarrow> (stream_id \<Rightarrow> subgroup_header) \<Rightarrow> live_subscription \<Rightarrow> track_event list \<Rightarrow> client_streams \<Rightarrow>
   live_subscription \<Rightarrow> stream_id \<Rightarrow> bool" where
  "idle_stream h r hdr v0 es cs v sid \<longleftrightarrow> get_stream h (skey r sid) cs = None \<and> map_of (lv_last_object_ids v) sid = None
     \<and> (\<forall>hi. lv_skipped_headers v sid = Some hi \<longrightarrow> hi = header_of hdr sid)
     \<and> (has_header sid es \<and> TE_StreamClosed sid \<notin> set es \<longrightarrow> lv_skipped_headers v sid \<noteq> None \<or> \<not> sb_forward (lv_state v0)
          \<or> (\<exists>ob \<in> set (objects_on sid es). l_group (ob_location ob) = sh_group_id (hdr sid) \<and> is_past_end (lv_state v0) (ob_location ob)))"

definition busy_stream ::
  "(bytes \<Rightarrow> u64) \<Rightarrow> u64 \<Rightarrow> (stream_id \<Rightarrow> subgroup_header) \<Rightarrow> live_subscription \<Rightarrow> track_event list \<Rightarrow> client_streams \<Rightarrow>
   live_subscription \<Rightarrow> stream_id \<Rightarrow> nat \<Rightarrow> subgroup_header \<Rightarrow> bool" where
  "busy_stream h r hdr v0 es cs v sid n hh \<longleftrightarrow> n < length (cs_transport cs) \<and> carries hh (due v0 sid es) (written cs n)
     \<and> like hh (hdr sid) \<and> sh_track_alias hh = lv_track_alias v0
     \<and> sh_subgroup_id (last_header hh (map DS_Object (due v0 sid es))) = sh_subgroup_id (hdr sid)
     \<and> (\<forall>k. get_stream h k cs = Some n \<longrightarrow> k = skey r sid)
     \<and> (TE_StreamClosed sid \<in> set es \<longrightarrow> get_stream h (skey r sid) cs = None \<or> get_stream h (skey r sid) cs = Some n)
     \<and> (TE_StreamClosed sid \<notin> set es \<longrightarrow> get_stream h (skey r sid) cs = Some n
         \<and> map_of (lv_last_object_ids v) sid = Some (Some (l_object (ob_location (last (due v0 sid es))))))"

definition stream_inv ::
  "(bytes \<Rightarrow> u64) \<Rightarrow> u64 \<Rightarrow> (stream_id \<Rightarrow> subgroup_header) \<Rightarrow> live_subscription \<Rightarrow> track_event list \<Rightarrow> client_streams \<Rightarrow>
   live_subscription \<Rightarrow> stream_id \<Rightarrow> bool" where
  "stream_inv h r hdr v0 es cs v sid \<longleftrightarrow>
     (if due v0 sid es = [] then idle_stream h r hdr v0 es cs v sid else (\<exists>n hh. busy_stream h r hdr v0 es cs v sid n hh))"

definition same_wishes :: "subscription_state \<Rightarrow> subscription_state \<Rightarrow> bool" where
  "same_wishes st st0 \<longleftrightarrow> sb_start_location st = sb_start_location st0 \<and> sb_end_group st = sb_end_group st0
     \<and> sb_end_object st = sb_end_object st0 \<and> sb_forward st = sb_forward st0 \<and> sb_range_filter st = sb_range_filter st0
     \<and> \<not> sb_soft_suspended st"

definition sub_inv :: "u64 \<Rightarrow> live_subscription \<Rightarrow> live_subscription \<Rightarrow> bool" where
  "sub_inv r v0 v \<longleftrightarrow> lv_request_id v = r \<and> lv_relay_track_id v = lv_relay_track_id v0 \<and> lv_track_alias v = lv_track_alias v0
     \<and> same_wishes (lv_state v) (lv_state v0) \<and> \<not> lv_pending_switch v"

definition fwd_inv ::
  "(bytes \<Rightarrow> u64) \<Rightarrow> u64 \<Rightarrow> (stream_id \<Rightarrow> subgroup_header) \<Rightarrow> live_subscription \<Rightarrow> track_event list \<Rightarrow> subscriber \<Rightarrow> bool" where
  "fwd_inv h r hdr v0 es c \<longleftrightarrow> table_ok h (cl_streams c) \<and> \<not> ssts_enabled (cs_ssts (cl_streams c))
     \<and> (\<forall>k \<in> set (cl_closing c). ssk_request_id k = r \<longrightarrow> TE_StreamClosed (ssk_stream_id k) \<in> set es)
     \<and> (\<exists>v. cl_subscriptions c r = Some v \<and> sub_inv r v0 v \<and> (\<forall>sid. stream_inv h r hdr v0 es (cl_streams c) v sid))"

text \<open>A stream is left alone by what does not concern it.\<close>

lemma stream_inv_frame:
  assumes "stream_inv h r hdr v0 es cs v sid"
    and "due v0 sid es' = due v0 sid es" "objects_on sid es' = objects_on sid es" "has_header sid es' = has_header sid es"
    and "TE_StreamClosed sid \<in> set es' \<longleftrightarrow> TE_StreamClosed sid \<in> set es"
    and "map_of (lv_last_object_ids v') sid = map_of (lv_last_object_ids v) sid" "lv_skipped_headers v' sid = lv_skipped_headers v sid"
    and "length (cs_transport cs) \<le> length (cs_transport cs')"
    and "\<And>k n. get_stream h k cs' = Some n \<Longrightarrow> get_stream h k cs = Some n \<or> length (cs_transport cs) \<le> n"
    and "get_stream h (skey r sid) cs' = get_stream h (skey r sid) cs
      \<or> get_stream h (skey r sid) cs' = None \<and> TE_StreamClosed sid \<in> set es"
    and "\<And>n. n < length (cs_transport cs) \<Longrightarrow> (\<And>k. get_stream h k cs = Some n \<Longrightarrow> k = skey r sid) \<Longrightarrow> written cs' n = written cs n"
  shows "stream_inv h r hdr v0 es' cs' v' sid"
proof (cases "due v0 sid es = []")
  case True
  with assms(1) have I: "idle_stream h r hdr v0 es cs v sid" by (simp add: stream_inv_def)
  with assms(10) have "get_stream h (skey r sid) cs' = None" by (auto simp: idle_stream_def)
  with I have "idle_stream h r hdr v0 es' cs' v' sid" unfolding idle_stream_def assms(3-7) by blast
  with True show ?thesis by (simp add: stream_inv_def assms(2))
next
  case False
  with assms(1) obtain n hh where B: "busy_stream h r hdr v0 es cs v sid n hh" by (auto simp: stream_inv_def)
  then have n: "n < length (cs_transport cs)" "\<And>k. get_stream h k cs = Some n \<Longrightarrow> k = skey r sid" by (auto simp: busy_stream_def)
  have w: "written cs' n = written cs n" using assms(11) n by blast
  have k: "k = skey r sid" if "get_stream h k cs' = Some n" for k
    using assms(9) [OF that] n by auto
  have l: "n < length (cs_transport cs')" using n(1) assms(8) by simp
  have open': "TE_StreamClosed sid \<notin> set es \<Longrightarrow> get_stream h (skey r sid) cs' = get_stream h (skey r sid) cs"
    and closed': "get_stream h (skey r sid) cs' = None \<or> get_stream h (skey r sid) cs' = get_stream h (skey r sid) cs" using assms(10) by blast+
  note b = B [unfolded busy_stream_def]
  have "busy_stream h r hdr v0 es' cs' v' sid n hh"
    unfolding busy_stream_def assms(2,5,6) w
  proof (intro conjI impI allI k l)
    show "get_stream h (skey r sid) cs' = None \<or> get_stream h (skey r sid) cs' = Some n" if "TE_StreamClosed sid \<in> set es"
      using b that closed' by argo
    show "get_stream h (skey r sid) cs' = Some n" if "TE_StreamClosed sid \<notin> set es" using b that open' by argo
  qed (use b in blast)+
  with False show ?thesis unfolding stream_inv_def assms(2) by auto
qed

lemma objects_on_append [simp]: "objects_on sid (es @ [e]) = objects_on sid es @ (case object_on sid e of Some ob \<Rightarrow> [ob] | None \<Rightarrow> [])"
  by (simp add: objects_on_def List.map_filter_def split: option.splits)

lemma due_append: "due v sid (es @ [e]) = due v sid es @
    (case object_on sid e of Some ob \<Rightarrow> if wanted v ob then [aliased v ob] else [] | None \<Rightarrow> [])"
  by (simp add: due_def split: option.splits)

lemma has_header_append: "has_header sid (es @ [e]) \<longleftrightarrow> has_header sid es \<or> (\<exists>ob hi. e = TE_SubgroupObject sid ob (Some hi))"
  by (auto simp: has_header_def)

lemma on_sub_simps [simp]:
  "cl_streams (on_sub r f c) = cl_streams c" "cl_closing (on_sub r f c) = cl_closing c"
  "cl_subscriptions (on_sub r f c) r = map_option f (cl_subscriptions c r)"
  "cl_plans (on_sub r f c) = cl_plans c" "cl_activated (on_sub r f c) = cl_activated c" "cl_datagrams (on_sub r f c) = cl_datagrams c"
  by (simp_all add: on_sub_def)

lemma same_wishes_verdict:
  "same_wishes st st0 \<Longrightarrow> object_verdict st ob = object_verdict st0 ob"
  "same_wishes st st0 \<Longrightarrow> is_past_end st l = is_past_end st0 l"
  by (auto simp: same_wishes_def object_verdict_def before_start_def is_past_end_def cong: option.case_cong)

lemma same_wishes_updates [simp]:
  "same_wishes (update_last_sent_max_location l st) st0 = same_wishes st st0"
  "same_wishes (update_last_received_object_location l st) st0 = same_wishes st st0"
  by (auto simp: same_wishes_def update_last_sent_max_location_def update_last_received_object_location_def split: option.splits)

subsection \<open>Steps\<close>

lemma fwd_inv_elsewhere:
  assumes "fwd_inv h r hdr v0 es c" "elsewhere h r (cl_closing c) (cl_streams c) cs'"
  shows "fwd_inv h r hdr v0 es (c\<lparr>cl_streams := cs'\<rparr>)"
proof -
  from assms(1) obtain v where tab: "table_ok h (cl_streams c)" and v: "cl_subscriptions c r = Some v" "sub_inv r v0 v"
    and inv: "\<And>sid. stream_inv h r hdr v0 es (cl_streams c) v sid" and off: "\<not> ssts_enabled (cs_ssts (cl_streams c))"
    and closing: "\<And>k. k \<in> set (cl_closing c) \<Longrightarrow> ssk_request_id k = r \<Longrightarrow> TE_StreamClosed (ssk_stream_id k) \<in> set es"
    by (auto simp: fwd_inv_def)
  from elsewhere_undisturbed [OF assms(2) tab] have tab': "table_ok h cs'" and U: "undisturbed h r (cl_closing c) (cl_streams c) cs'" by auto
  have "stream_inv h r hdr v0 es cs' v sid" for sid
  proof (rule stream_inv_frame [OF inv])
    show "get_stream h (skey r sid) cs' = get_stream h (skey r sid) (cl_streams c)
        \<or> get_stream h (skey r sid) cs' = None \<and> TE_StreamClosed sid \<in> set es"
    proof -
      have "ssk_request_id (skey r sid) = r" by simp
      with U have "get_stream h (skey r sid) cs' = get_stream h (skey r sid) (cl_streams c)
          \<or> get_stream h (skey r sid) cs' = None \<and> skey r sid \<in> set (cl_closing c)" unfolding undisturbed_def by blast
      with closing [of "skey r sid"] show ?thesis by auto
    qed
    show "written cs' n = written (cl_streams c) n" if "n < length (cs_transport (cl_streams c))"
      "\<And>k. get_stream h k (cl_streams c) = Some n \<Longrightarrow> k = skey r sid" for n
      using U that unfolding undisturbed_def by (metis send_stream_key.select_convs(1))
  qed (use U in \<open>auto simp: undisturbed_def\<close>)
  with tab' v off U closing show ?thesis by (auto simp: fwd_inv_def undisturbed_def)
qed

text \<open>Events that leave the streams alone.\<close>

lemma fwd_inv_quiet:
  assumes "fwd_inv h r hdr v0 es c" "\<And>sid. object_on sid e = None" "\<And>sid. e \<noteq> TE_StreamClosed sid"
    and "cl_streams c' = cl_streams c" "cl_closing c' = cl_closing c"
    and "\<And>v. cl_subscriptions c r = Some v \<Longrightarrow> sub_inv r v0 v \<Longrightarrow> \<exists>v'. cl_subscriptions c' r = Some v' \<and> sub_inv r v0 v'
        \<and> lv_last_object_ids v' = lv_last_object_ids v \<and> lv_skipped_headers v' = lv_skipped_headers v"
  shows "fwd_inv h r hdr v0 (es @ [e]) c'"
proof -
  from assms(1) obtain v where v: "cl_subscriptions c r = Some v" "sub_inv r v0 v"
    and inv: "\<And>sid. stream_inv h r hdr v0 es (cl_streams c) v sid" by (auto simp: fwd_inv_def)
  from assms(6) [OF v] obtain v' where v': "cl_subscriptions c' r = Some v'" "sub_inv r v0 v'"
    "lv_last_object_ids v' = lv_last_object_ids v" "lv_skipped_headers v' = lv_skipped_headers v" by blast
  have head: "has_header sid (es @ [e]) = has_header sid es" for sid
    using assms(2) [of sid] by (auto simp: has_header_append)
  have "stream_inv h r hdr v0 (es @ [e]) (cl_streams c') v' sid" for sid
    using assms(2) [of sid] assms(3) [of sid] v'(3,4)
    by (intro stream_inv_frame [OF inv]) (auto simp: due_append head assms(4))
  with v' assms(1,4,5) show ?thesis by (auto simp: fwd_inv_def)
qed

lemma note_delivered_quiet:
  "cl_subscriptions c r = Some v \<Longrightarrow> \<not> lv_pending_switch v \<Longrightarrow> note_delivered w l r c = on_state r (update_last_sent_max_location l) c"
  by (simp add: note_delivered_def on_state_def sub_of_def)

lemma handle_datagram_effect:
  assumes "cl_subscriptions c r = Some v" "\<not> lv_pending_switch v"
  obtains f ds where "handle_datagram w r d c = on_state r f (c\<lparr>cl_datagrams := ds\<rparr>)" "\<forall>st st0. same_wishes (f st) st0 = same_wishes st st0"
proof -
  let ?l = "Location (dg_group_id d) (dg_object_id d)"
  let ?f = "update_last_received_object_location ?l"
  let ?c1 = "on_state r ?f c"
  have same: "?c1 = on_state r ?f (c\<lparr>cl_datagrams := cl_datagrams c\<rparr>)" by simp
  have note_d: "note_delivered w ?l r (?c1\<lparr>cl_datagrams := ds\<rparr>)
      = on_state r (update_last_sent_max_location ?l \<circ> ?f) (c\<lparr>cl_datagrams := ds\<rparr>)" for ds
    using assms by (subst note_delivered_quiet [of _ _ "v\<lparr>lv_state := ?f (lv_state v)\<rparr>"])
      (simp_all add: on_state_def on_sub_def)
  consider "handle_datagram w r d c = ?c1" | ds where "handle_datagram w r d c = note_delivered w ?l r (?c1\<lparr>cl_datagrams := ds\<rparr>)"
    unfolding handle_datagram_def Let_def by (cases "datagram_serialize (d\<lparr>dg_track_alias := lv_track_alias (sub_of ?c1 r)\<rparr>)") fastforce+
  then show thesis
  proof cases
    case 1
    show thesis by (rule that [of ?f "cl_datagrams c"]) (use 1 in simp_all)
  next
    case 2
    show thesis by (rule that [of "update_last_sent_max_location ?l \<circ> ?f" ds]) (use 2 note_d in simp_all)
  qed
qed

lemma fwd_inv_datagram:
  assumes "fwd_inv h r hdr v0 es c"
  shows "fwd_inv h r hdr v0 (es @ [TE_Datagram d]) (handle_datagram w r d c)"
proof -
  from assms obtain v where v: "cl_subscriptions c r = Some v" "sub_inv r v0 v" by (auto simp: fwd_inv_def)
  from v(2) have "\<not> lv_pending_switch v" by (simp add: sub_inv_def)
  obtain f ds where eff: "handle_datagram w r d c = on_state r f (c\<lparr>cl_datagrams := ds\<rparr>)"
    "\<forall>st st0. same_wishes (f st) st0 = same_wishes st st0" by (rule handle_datagram_effect [OF v(1) \<open>\<not> lv_pending_switch v\<close>, of w d])
  show ?thesis
    by (rule fwd_inv_quiet [OF assms]) (use v in \<open>auto simp: eff(1) on_state_def sub_inv_def eff(2)\<close>)
qed

lemma map_of_entries [simp]:
  "map_of (drop_entry k m) k' = (if k' = k then None else map_of m k')"
  "map_of (put_entry k v m) k' = (if k' = k then Some v else map_of m k')"
  by (induction m) (auto simp: drop_entry_def put_entry_def)

lemma fwd_inv_closed:
  assumes "fwd_inv h r hdr v0 es c" "TE_StreamClosed sid \<notin> set es"
  shows "fwd_inv h r hdr v0 (es @ [TE_StreamClosed sid]) (handle_stream_closed r sid c)"
proof -
  from assms(1) obtain v where v: "cl_subscriptions c r = Some v" "sub_inv r v0 v"
    and inv: "\<And>sid. stream_inv h r hdr v0 es (cl_streams c) v sid" by (auto simp: fwd_inv_def)
  define v' where "v' = v\<lparr>lv_last_object_ids := drop_entry sid (lv_last_object_ids v), lv_skipped_headers := (lv_skipped_headers v)(sid := None)\<rparr>"
  have v': "cl_subscriptions (handle_stream_closed r sid c) r = Some v'" "sub_inv r v0 v'"
    using v by (auto simp: handle_stream_closed_def v'_def sub_inv_def on_sub_def)
  have head: "has_header s (es @ [TE_StreamClosed sid]) = has_header s es" for s by (simp add: has_header_append)
  have "stream_inv h r hdr v0 (es @ [TE_StreamClosed sid]) (cl_streams c) v' s" for s
  proof (cases "s = sid")
    case True
    show ?thesis
    proof (cases "due v0 sid es = []")
      case True
      with inv [of sid] have I: "idle_stream h r hdr v0 es (cl_streams c) v sid" by (simp add: stream_inv_def)
      then have "idle_stream h r hdr v0 (es @ [TE_StreamClosed sid]) (cl_streams c) v' sid" by (simp add: idle_stream_def v'_def)
      then show ?thesis using True \<open>s = sid\<close> by (simp add: stream_inv_def due_append)
    next
      case False
      with inv [of sid] obtain n hh where B: "busy_stream h r hdr v0 es (cl_streams c) v sid n hh" by (auto simp: stream_inv_def)
      then have "busy_stream h r hdr v0 (es @ [TE_StreamClosed sid]) (cl_streams c) v' sid n hh"
        using assms(2) by (simp add: busy_stream_def due_append)
      then show ?thesis using False \<open>s = sid\<close> by (auto simp: stream_inv_def due_append)
    qed
  next
    case False
    then show ?thesis by (intro stream_inv_frame [OF inv]) (auto simp: due_append head v'_def)
  qed
  moreover have "cl_streams (handle_stream_closed r sid c) = cl_streams c"
    "cl_closing (handle_stream_closed r sid c) = cl_closing c @ [skey r sid]"
    using v by (simp_all add: handle_stream_closed_def new_send_stream_key_def sub_of_def sub_inv_def)
  ultimately show ?thesis using v' assms(1) by (auto simp: fwd_inv_def)
qed

subsection \<open>Opening a stream\<close>

text \<open>The header on the wire: a header that comes with its first Object as it is, with the subgroup ID left to that Object
  where its type says so; a header kept for later with the subgroup ID spelled out.\<close>

definition opening_header :: "bool \<Rightarrow> u64 \<Rightarrow> subgroup_header \<Rightarrow> subgroup_header" where
  "opening_header mid a hh = (if mid then (for_mid_subgroup_stream hh)\<lparr>sh_track_alias := a\<rparr>
     else if sht_subgroup_id_mode (sh_header_type hh) = SIM_FirstObjectId then hh\<lparr>sh_track_alias := a, sh_subgroup_id := None\<rparr>
     else hh\<lparr>sh_track_alias := a\<rparr>)"

abbreviation kept_header :: "bool \<Rightarrow> subgroup_header \<Rightarrow> subgroup_header" where
  "kept_header mid hh \<equiv> (if mid then for_mid_subgroup_stream hh else hh)"

lemma for_mid_fields [simp]:
  "sh_subgroup_id (for_mid_subgroup_stream hh) = sh_subgroup_id hh" "sh_group_id (for_mid_subgroup_stream hh) = sh_group_id hh"
  "sh_publisher_priority (for_mid_subgroup_stream hh) = sh_publisher_priority hh"
  "sht_has_properties (sh_header_type (for_mid_subgroup_stream hh)) = sht_has_properties (sh_header_type hh)"
  by (simp_all add: for_mid_subgroup_stream_def Let_def)

lemma wf_any_alias [simp]: "subgroup_header_wf (hh\<lparr>sh_track_alias := a\<rparr>) = subgroup_header_wf hh"
  by (simp add: subgroup_header_wf_def Let_def split: subgroup_id_mode.splits)

lemma opening_header_wf: "subgroup_header_held hh \<Longrightarrow> subgroup_header_wf (opening_header mid a hh)"
  using mid_subgroup_wf [of hh]
  by (cases hh) (auto simp: opening_header_def subgroup_header_held_def subgroup_header_wf_def Let_def split: subgroup_id_mode.splits)

lemma opening_payload:
  "subgroup_header_serialize (kept_header mid hh) (Some a) = subgroup_header_serialize (opening_header mid a hh) None"
  by (simp add: opening_header_def subgroup_header_serialize_def Let_def has_explicit_subgroup_id_def)

lemma opening_carries:
  assumes "subgroup_header_held hh"
  obtains payload where "subgroup_header_serialize (kept_header mid hh) (Some a) = Inr payload" "carries (opening_header mid a hh) [] payload"
proof -
  note wf = opening_header_wf [OF assms, of mid a]
  obtain payload where p: "subgroup_header_serialize (opening_header mid a hh) None = Inr payload" using sgh.enc_total [OF wf] by blast
  moreover have "carries (opening_header mid a hh) [] payload"
    using wf p by (simp add: carries_def send_data_stream_new_def header_bytes_def write_all_def)
  ultimately show thesis using that opening_payload by simp
qed

lemma opening_like: "like (opening_header mid a hh) hh" "sh_track_alias (opening_header mid a hh) = a"
  by (auto simp: opening_header_def like_def)

lemma opening_resolves:
  assumes "sh_subgroup_id hh \<noteq> None" "\<not> mid \<Longrightarrow> sht_subgroup_id_mode (sh_header_type hh) = SIM_FirstObjectId \<Longrightarrow> sh_subgroup_id hh = Some i"
  shows "sh_subgroup_id (resolve_header (opening_header mid a hh) i) = sh_subgroup_id hh"
  using assms by (auto simp: opening_header_def resolve_header_def awaiting_subgroup_id_def subgroup_id_is_first_object_id_def)

text \<open>The subscription has its stream in the table, and nothing else has changed.\<close>

definition reached :: "(bytes \<Rightarrow> u64) \<Rightarrow> send_stream_key \<Rightarrow> client_streams \<Rightarrow> client_streams \<Rightarrow> nat \<Rightarrow> bool" where
  "reached h key cs cs' n \<longleftrightarrow> table_ok h cs' \<and> ssts_enabled (cs_ssts cs') = ssts_enabled (cs_ssts cs)
     \<and> length (cs_transport cs) \<le> length (cs_transport cs') \<and> get_stream h key cs' = Some n
     \<and> (n < length (cs_transport cs) \<longrightarrow> get_stream h key cs = Some n)
     \<and> (\<forall>k. k \<noteq> key \<longrightarrow> get_stream h k cs' = get_stream h k cs)
     \<and> (\<forall>m < length (cs_transport cs). written cs' m = written cs m)"

lemma reached_open: "table_ok h cs \<Longrightarrow> get_stream h key cs = Some n \<Longrightarrow> reached h key cs cs n"
  by (simp add: reached_def)

lemma open_reached:
  assumes "table_ok h cs" "get_stream h key cs = None" "opens" "accepts payload"
  obtains cs' where "open_stream h opens accepts key payload prio cs = (Some (length (cs_transport cs)), cs')"
    "reached h key cs cs' (length (cs_transport cs))" "written cs' (length (cs_transport cs)) = payload"
proof -
  obtain res cs' where o: "open_stream h opens accepts key payload prio cs = (res, cs')" by fastforce
  note O = open_stream_table [OF assms(1) o]
  note N = O(7) [OF assms(2-4)]
  have "reached h key cs cs' (length (cs_transport cs))" using O(1-5) N by (simp add: reached_def)
  with N o that show thesis by auto
qed

lemma handle_header_opens:
  assumes "table_ok h (cl_streams c)" "transport_fine h w" "cl_subscriptions c r = Some v" "lv_request_id v = r"
    and "get_stream h (skey r sid) (cl_streams c) = None" "build_stream_id (lv_relay_track_id v) (HI_Subgroup hh) = sid"
    and "subgroup_header_serialize hh (Some (lv_track_alias v)) = Inr payload"
  obtains cs' where "handle_header w r (HI_Subgroup hh) c = (Some (sid, length (cs_transport (cl_streams c))),
       on_sub r (\<lambda>v. v\<lparr>lv_opened_stream_count := lv_opened_stream_count v + 1\<rparr>) (c\<lparr>cl_streams := cs'\<rparr>))"
    "reached h (skey r sid) (cl_streams c) cs' (length (cs_transport (cl_streams c)))"
    "written cs' (length (cs_transport (cl_streams c))) = payload"
proof -
  let ?prio = "compute_stream_priority (sb_subscriber_priority (lv_state v)) (case sh_publisher_priority hh of Some p \<Rightarrow> p | None \<Rightarrow> 128)
      (sb_group_order (lv_state v)) (sh_group_id hh)"
  from assms(2) have w: "io_opens w" "io_accepts w payload" "io_hash w = h" by (auto simp: transport_fine_def)
  obtain cs' where o: "open_stream h (io_opens w) (io_accepts w) (skey r sid) payload ?prio (cl_streams c)
      = (Some (length (cs_transport (cl_streams c))), cs')"
    "reached h (skey r sid) (cl_streams c) cs' (length (cs_transport (cl_streams c)))"
    "written cs' (length (cs_transport (cl_streams c))) = payload" 
    by (rule open_reached [OF assms(1,5) w(1), of "io_accepts w" payload ?prio, OF w(2)])
  show thesis by (rule that [OF _ o(2,3)])
    (use o(1) assms w in \<open>simp add: handle_header_def sub_of_def get_header_payload_def new_send_stream_key_def\<close>)
qed

lemma on_sub_twice: "on_sub r f (on_sub r g c) = on_sub r (f \<circ> g) c"
  by (simp add: on_sub_def option.map_comp)

lemma on_sub_streams: "(on_sub r g c)\<lparr>cl_streams := cs\<rparr> = on_sub r g (c\<lparr>cl_streams := cs\<rparr>)"
  by (simp add: on_sub_def)

lemma on_sub_id: "on_sub r id c = c"
  by (simp add: on_sub_def option.map_id)

text \<open>Once an Object of a stream is past the end, so are all that come after it.\<close>

lemma is_past_end_mono: "is_past_end st l \<Longrightarrow> l_group l' = l_group l \<Longrightarrow> l_object l \<le> l_object l' \<Longrightarrow> is_past_end st l'"
  by (auto simp: is_past_end_def split: option.splits)

lemma wanted_not_past: "wanted v ob \<Longrightarrow> sb_forward (lv_state v) \<and> \<not> is_past_end (lv_state v) (ob_location ob)"
  by (auto simp: wanted_def object_verdict_def aliased_def split: if_splits)

lemma header_at_hand:
  assumes "next_event t hdr w es (TE_SubgroupObject sid ob None)" "wanted v0 ob" "idle_stream h r hdr v0 es cs v sid"
  shows "(case lv_skipped_headers v sid of Some hi \<Rightarrow> Some hi | None \<Rightarrow> io_active_headers w sid) = Some (header_of hdr sid)"
proof (cases "lv_skipped_headers v sid")
  case None
  have "io_active_headers w sid \<noteq> None"
  proof
    assume "io_active_headers w sid = None"
    with assms(1) have "has_header sid es" "TE_StreamClosed sid \<notin> set es" by (auto simp: next_event_def)
    with assms(3) None wanted_not_past [OF assms(2)] obtain ob' where ob': "ob' \<in> set (objects_on sid es)"
      "l_group (ob_location ob') = sh_group_id (hdr sid)" "is_past_end (lv_state v0) (ob_location ob')" by (auto simp: idle_stream_def)
    moreover have "l_object (ob_location ob') \<le> l_object (ob_location ob)" "l_group (ob_location ob) = sh_group_id (hdr sid)"
      using assms(1) ob'(1) by (auto simp: next_event_def fits_header_def intro: less_imp_le)
    ultimately have "is_past_end (lv_state v0) (ob_location ob)" using is_past_end_mono by metis
    with wanted_not_past [OF assms(2)] show False by simp
  qed
  with assms(1) None show ?thesis by (auto simp: next_event_def)
qed (use assms(3) in \<open>auto simp: idle_stream_def\<close>)

text \<open>A wanted Object finds its stream.\<close>

definition spares :: "stream_id \<Rightarrow> live_subscription \<Rightarrow> live_subscription \<Rightarrow> bool" where
  "spares sid v v' \<longleftrightarrow> (\<forall>s. s \<noteq> sid \<longrightarrow> map_of (lv_last_object_ids v') s = map_of (lv_last_object_ids v) s
     \<and> lv_skipped_headers v' s = lv_skipped_headers v s)"

lemma stream_for_reaches:
  assumes tab: "table_ok h (cl_streams c)" and w: "transport_fine h w" and v: "cl_subscriptions c r = Some v" "sub_inv r v0 v"
    and inv: "stream_inv h r hdr v0 es (cl_streams c) v sid"
    and ev: "next_event (lv_relay_track_id v0) hdr w es (TE_SubgroupObject sid ob hi)" and wanted: "wanted v0 ob"
  obtains n hh cs' g where "stream_for w r sid hi c = (Some n, on_sub r g (c\<lparr>cl_streams := cs'\<rparr>))"
    "reached h (skey r sid) (cl_streams c) cs' n" "carries hh (due v0 sid es) (written cs' n)" "like hh (hdr sid)"
    "sh_track_alias hh = lv_track_alias v0"
    "sh_subgroup_id (resolve_header (last_header hh (map DS_Object (due v0 sid es))) (l_object (ob_location ob))) = sh_subgroup_id (hdr sid)"
    "sub_inv r v0 (g v)" "spares sid v (g v)"
    "Option.bind (map_of (lv_last_object_ids (g v)) sid) id
       = (if due v0 sid es = [] then None else Some (l_object (ob_location (last (due v0 sid es)))))"
proof -
  let ?cs = "cl_streams c" and ?count = "\<lambda>v. v\<lparr>lv_opened_stream_count := lv_opened_stream_count v + 1\<rparr>"
  from v(2) have r: "lv_request_id v = r" "lv_relay_track_id v = lv_relay_track_id v0" "lv_track_alias v = lv_track_alias v0"
    by (auto simp: sub_inv_def)
  from w have hash: "io_hash w = h" by (simp add: transport_fine_def)
  from ev have held: "subgroup_header_held (hdr sid)" and some: "sh_subgroup_id (hdr sid) \<noteq> None"
    and sid: "build_stream_id (lv_relay_track_id v0) (header_of hdr sid) = sid" and opn: "TE_StreamClosed sid \<notin> set es"
    by (auto simp: next_event_def)
  have sid_mid: "build_stream_id (lv_relay_track_id v0) (HI_Subgroup (for_mid_subgroup_stream (hdr sid))) = sid"
    using sid by (simp add: build_stream_id_def)
  show thesis
  proof (cases hi)
    case (Some hd)
    with ev have hd: "hd = header_of hdr sid" "objects_on sid es = []"
      and first: "sht_subgroup_id_mode (sh_header_type (hdr sid)) = SIM_FirstObjectId \<Longrightarrow> sh_subgroup_id (hdr sid) = Some (l_object (ob_location ob))"
      by (auto simp: next_event_def)
    then have none: "due v0 sid es = []" by (simp add: due_def)
    with inv have idle: "idle_stream h r hdr v0 es ?cs v sid" by (simp add: stream_inv_def)
    then have gone: "get_stream h (skey r sid) ?cs = None" by (simp add: idle_stream_def)
    obtain payload where p: "subgroup_header_serialize (hdr sid) (Some (lv_track_alias v)) = Inr payload"
      "carries (opening_header False (lv_track_alias v) (hdr sid)) [] payload"
      using opening_carries [OF held, of False "lv_track_alias v"] by auto
    obtain cs' where H: "handle_header w r (header_of hdr sid) c = (Some (sid, length (cs_transport ?cs)), on_sub r ?count (c\<lparr>cl_streams := cs'\<rparr>))"
      "reached h (skey r sid) ?cs cs' (length (cs_transport ?cs))" "written cs' (length (cs_transport ?cs)) = payload"
      by (rule handle_header_opens [OF tab w v(1) r(1) gone _ p(1)]) (use sid r in auto)
    let ?g = "(\<lambda>v. v\<lparr>lv_last_object_ids := put_entry sid None (lv_last_object_ids v)\<rparr>) \<circ> ?count"
    show thesis
    proof (rule that [OF _ H(2), of ?g "opening_header False (lv_track_alias v) (hdr sid)"])
      show "stream_for w r sid hi c = (Some (length (cs_transport ?cs)), on_sub r ?g (c\<lparr>cl_streams := cs'\<rparr>))"
        using Some hd(1) H(1) by (simp add: stream_for_def on_sub_twice)
    qed (use H(3) p(2) none v(2) r opening_like opening_resolves [of "hdr sid" False] some first in
        \<open>auto simp: sub_inv_def spares_def\<close>)
  next
    case None
    note hi = this
    show thesis
    proof (cases "due v0 sid es = []")
      case True
      with inv have idle: "idle_stream h r hdr v0 es ?cs v sid" by (simp add: stream_inv_def)
      then have gone: "get_stream h (skey r sid) ?cs = None" and no: "map_of (lv_last_object_ids v) sid = None" by (auto simp: idle_stream_def)
      obtain payload where p: "subgroup_header_serialize (for_mid_subgroup_stream (hdr sid)) (Some (lv_track_alias v)) = Inr payload"
        "carries (opening_header True (lv_track_alias v) (hdr sid)) [] payload"
        using opening_carries [OF held, of True "lv_track_alias v"] by auto
      let ?d = "\<lambda>v. v\<lparr>lv_skipped_headers := (lv_skipped_headers v)(sid := None)\<rparr>"
      have v1: "cl_subscriptions (on_sub r ?d c) r = Some (?d v)" using v by simp
      obtain cs' where H: "handle_header w r (HI_Subgroup (for_mid_subgroup_stream (hdr sid))) (on_sub r ?d c)
          = (Some (sid, length (cs_transport ?cs)), on_sub r ?count ((on_sub r ?d c)\<lparr>cl_streams := cs'\<rparr>))"
        "reached h (skey r sid) ?cs cs' (length (cs_transport ?cs))" "written cs' (length (cs_transport ?cs)) = payload"
        using handle_header_opens [OF _ w v1, of sid "for_mid_subgroup_stream (hdr sid)" payload] tab r gone sid_mid p(1) by auto
      show thesis
      proof (rule that [OF _ H(2), of "?count \<circ> ?d" "opening_header True (lv_track_alias v) (hdr sid)"])
        show "stream_for w r sid hi c = (Some (length (cs_transport ?cs)), on_sub r (?count \<circ> ?d) (c\<lparr>cl_streams := cs'\<rparr>))"
          using hi H(1) gone v header_at_hand [OF ev [unfolded hi] wanted idle]
          by (simp add: stream_for_def on_sub_twice on_sub_streams hash sub_of_def new_send_stream_key_def r mid_stream_header_def)
      qed (use H(3) p(2) True no v(2) r opening_like opening_resolves [of "hdr sid" True] some in
          \<open>auto simp: sub_inv_def spares_def\<close>)
    next
      case False
      with inv obtain n hh where B: "busy_stream h r hdr v0 es ?cs v sid n hh" by (auto simp: stream_inv_def)
      with opn have got: "get_stream h (skey r sid) ?cs = Some n" by (simp add: busy_stream_def)
      show thesis
      proof (rule that [OF _ reached_open [OF tab got], of id hh])
        show "stream_for w r sid hi c = (Some n, on_sub r id (c\<lparr>cl_streams := ?cs\<rparr>))"
          using hi got v by (simp add: stream_for_def on_sub_id hash sub_of_def new_send_stream_key_def r)
      qed (use B opn False v(2) in \<open>auto simp: busy_stream_def spares_def last_header_objects\<close>)
    qed
  qed
qed

text \<open>An Object that is not wanted leaves the streams alone; a header that comes with it is kept where a later Object may be wanted.\<close>

lemma fwd_inv_unwanted:
  assumes inv: "fwd_inv h r hdr v0 es c" and unwanted: "\<not> wanted v0 ob"
    and frame: "cl_streams c' = cl_streams c" "cl_closing c' = cl_closing c"
    and v: "cl_subscriptions c r = Some v" and v': "cl_subscriptions c' r = Some v'" "sub_inv r v0 v'"
    and ids: "lv_last_object_ids v' = lv_last_object_ids v"
    and skip: "lv_skipped_headers v' = lv_skipped_headers v \<or> lv_skipped_headers v' = (lv_skipped_headers v)(sid \<mapsto> header_of hdr sid)"
    and why: "hi \<noteq> None \<Longrightarrow> lv_skipped_headers v' sid \<noteq> None \<or> \<not> sb_forward (lv_state v0)
      \<or> l_group (ob_location ob) = sh_group_id (hdr sid) \<and> is_past_end (lv_state v0) (ob_location ob)"
  shows "fwd_inv h r hdr v0 (es @ [TE_SubgroupObject sid ob hi]) c'"
proof -
  let ?e = "TE_SubgroupObject sid ob hi"
  from inv v have si: "stream_inv h r hdr v0 es (cl_streams c) v s" for s by (auto simp: fwd_inv_def)
  have due: "due v0 s (es @ [?e]) = due v0 s es" for s using unwanted by (simp add: due_append)
  have "stream_inv h r hdr v0 (es @ [?e]) (cl_streams c) v' s" for s
  proof (cases "s = sid")
    case False
    then show ?thesis using skip ids by (intro stream_inv_frame [OF si]) (auto simp: due has_header_append)
  next
    case True
    show ?thesis
    proof (cases "due v0 sid es = []")
      case empty: True
      with si [of sid] have I: "idle_stream h r hdr v0 es (cl_streams c) v sid" by (simp add: stream_inv_def)
      have "lv_skipped_headers v' sid \<noteq> None \<or> \<not> sb_forward (lv_state v0)
          \<or> (\<exists>ob \<in> set (objects_on sid (es @ [?e])). l_group (ob_location ob) = sh_group_id (hdr sid) \<and> is_past_end (lv_state v0) (ob_location ob))"
        if has: "has_header sid (es @ [?e])" "TE_StreamClosed sid \<notin> set (es @ [?e])"
      proof (cases "hi = None")
        case True
        with has have "has_header sid es" by (simp add: has_header_append)
        with I has(2) skip show ?thesis by (auto simp: idle_stream_def)
      qed (use why in auto)
      moreover have "hd = header_of hdr sid" if "lv_skipped_headers v' sid = Some hd" for hd
        using that skip I by (auto simp: idle_stream_def)
      ultimately have "idle_stream h r hdr v0 (es @ [?e]) (cl_streams c) v' sid" using I unfolding idle_stream_def ids by blast
      then show ?thesis using empty \<open>s = sid\<close> by (simp add: stream_inv_def due)
    next
      case False
      with si [of sid] obtain n hh where B: "busy_stream h r hdr v0 es (cl_streams c) v sid n hh" by (auto simp: stream_inv_def)
      then have "busy_stream h r hdr v0 (es @ [?e]) (cl_streams c) v' sid n hh" by (simp add: busy_stream_def due ids)
      then show ?thesis using False \<open>s = sid\<close> by (auto simp: stream_inv_def due)
    qed
  qed
  with v' inv frame show ?thesis by (auto simp: fwd_inv_def)
qed

lemma handle_subgroup_cases:
  assumes "\<not> ssts_enabled (cs_ssts (cl_streams c))" "cl_subscriptions c r = Some v" "sub_inv r v0 v"
  shows "handle_subgroup_object w r sid ob hi c =
    (let c1 = on_state r (update_last_received_object_location (ob_location ob)) c
     in case object_verdict (lv_state v0) (aliased v0 ob) of
          V_BeforeStart \<Rightarrow> save_skipped_header r sid hi c1
        | V_PastEnd \<Rightarrow> c1
        | V_Paused \<Rightarrow> (case hi of Some h \<Rightarrow> on_sub r (\<lambda>v. v\<lparr>lv_pending_header := Some (sid, h)\<rparr>) c1 | None \<Rightarrow> c1)
        | V_Filtered \<Rightarrow> save_skipped_header r sid hi c1
        | V_Wanted \<Rightarrow> forward_object w r sid (aliased v0 ob) hi c1)"
proof -
  let ?f = "update_last_received_object_location (ob_location ob)"
  have st: "lv_state (sub_of (on_state r ?f c) r) = ?f (lv_state v)" using assms(2) by (simp add: sub_of_def on_state_def)
  have same: "same_wishes (?f (lv_state v)) (lv_state v0)" using assms(3) by (simp add: sub_inv_def)
  then have soft: "\<not> sb_soft_suspended (?f (lv_state v))" by (simp add: same_wishes_def)
  have al: "ob\<lparr>ob_track_alias := lv_track_alias (sub_of c r)\<rparr> = aliased v0 ob"
    using assms(2,3) by (simp add: aliased_def sub_of_def sub_inv_def)
  have loc: "ob_location (aliased v0 ob) = ob_location ob" by (simp add: aliased_def)
  show ?thesis
    unfolding handle_subgroup_object_def Let_def al loc using assms(1) soft by (simp add: st same_wishes_verdict(1) [OF same])
qed

lemma fwd_inv_object_unwanted:
  assumes inv: "fwd_inv h r hdr v0 es c" and ev: "next_event t hdr w es (TE_SubgroupObject sid ob hi)" and unwanted: "\<not> wanted v0 ob"
  shows "fwd_inv h r hdr v0 (es @ [TE_SubgroupObject sid ob hi]) (handle_subgroup_object w r sid ob hi c)"
proof -
  from inv obtain v where v: "cl_subscriptions c r = Some v" "sub_inv r v0 v" and off: "\<not> ssts_enabled (cs_ssts (cl_streams c))"
    by (auto simp: fwd_inv_def)
  let ?f = "update_last_received_object_location (ob_location ob)"
  let ?v1 = "v\<lparr>lv_state := ?f (lv_state v)\<rparr>"
  let ?c1 = "on_state r ?f c"
  have c1: "cl_subscriptions ?c1 r = Some ?v1" "cl_streams ?c1 = cl_streams c" "cl_closing ?c1 = cl_closing c" using v by (simp_all add: on_state_def)
  have v1: "sub_inv r v0 ?v1" using v(2) by (simp add: sub_inv_def)
  from ev have group: "l_group (ob_location ob) = sh_group_id (hdr sid)" and hd: "\<And>hd. hi = Some hd \<Longrightarrow> hd = header_of hdr sid"
    by (auto simp: next_event_def fits_header_def)
  have verdict: "object_verdict (lv_state v0) (aliased v0 ob) = V_Paused \<Longrightarrow> \<not> sb_forward (lv_state v0)"
    "object_verdict (lv_state v0) (aliased v0 ob) = V_PastEnd \<Longrightarrow> is_past_end (lv_state v0) (ob_location ob)"
    by (auto simp: object_verdict_def aliased_def split: if_splits)
  have saved: "fwd_inv h r hdr v0 (es @ [TE_SubgroupObject sid ob hi]) (save_skipped_header r sid hi ?c1)"
  proof (cases hi)
    case None
    show ?thesis by (rule fwd_inv_unwanted [OF inv unwanted _ _ v(1) _ v1]) (use None c1 in \<open>auto simp: save_skipped_header_def\<close>)
  next
    case (Some hd')
    let ?v2 = "?v1\<lparr>lv_skipped_headers := (lv_skipped_headers ?v1)(sid \<mapsto> header_of hdr sid)\<rparr>"
    have "sub_inv r v0 ?v2" using v1 by (simp add: sub_inv_def)
    with Some hd [OF Some] c1 show ?thesis
      by (intro fwd_inv_unwanted [OF inv unwanted _ _ v(1), of _ ?v2]) (auto simp: save_skipped_header_def)
  qed
  have quiet: "fwd_inv h r hdr v0 (es @ [TE_SubgroupObject sid ob hi]) (on_sub r (\<lambda>v. v\<lparr>lv_pending_header := p v\<rparr>) ?c1)"
    if "\<not> sb_forward (lv_state v0) \<or> is_past_end (lv_state v0) (ob_location ob)" for p
    by (rule fwd_inv_unwanted [OF inv unwanted _ _ v(1), of _ "?v1\<lparr>lv_pending_header := p ?v1\<rparr>"])
      (use that c1 v1 group in \<open>auto simp: sub_inv_def\<close>)
  have quiet1: "fwd_inv h r hdr v0 (es @ [TE_SubgroupObject sid ob hi]) ?c1"
    if "\<not> sb_forward (lv_state v0) \<or> is_past_end (lv_state v0) (ob_location ob)"
    by (rule fwd_inv_unwanted [OF inv unwanted _ _ v(1) c1(1) v1]) (use that c1 group in auto)
  show ?thesis
    unfolding handle_subgroup_cases [OF off v] Let_def using unwanted saved quiet quiet1 verdict
    by (cases "object_verdict (lv_state v0) (aliased v0 ob)") (auto simp: wanted_def split: option.splits)
qed

text \<open>A wanted Object is written to its stream.\<close>

lemma handle_object_writes:
  assumes "table_ok h (cl_streams c)" "transport_fine h w" "get_stream h (skey r sid) (cl_streams c) = Some n"
    and "cl_subscriptions c r = Some v" "lv_request_id v = r"
    and "carries hh obs (written (cl_streams c) n)" "fits_header hh' ob" "like hh hh'" "ob_track_alias ob = sh_track_alias hh"
    and "sh_subgroup_id (resolve_header (last_header hh (map DS_Object obs)) (l_object (ob_location ob))) = sh_subgroup_id hh'"
    and prev: "prev = (if obs = [] then None else Some (l_object (ob_location (last obs))))"
  obtains cs' where "handle_object w r ob prev sid n c = (True, c\<lparr>cl_streams := cs'\<rparr>)" "table_ok h cs'"
    "ssts_enabled (cs_ssts cs') = ssts_enabled (cs_ssts (cl_streams c))" "\<And>k. get_stream h k cs' = get_stream h k (cl_streams c)"
    "length (cs_transport cs') = length (cs_transport (cl_streams c))"
    "\<And>m. m < length (cs_transport (cl_streams c)) \<Longrightarrow> m \<noteq> n \<Longrightarrow> written cs' m = written (cl_streams c) m"
    "carries hh (obs @ [ob]) (written cs' n)"
proof -
  have n: "n < length (cs_transport (cl_streams c))" using assms(1,3) by (auto simp: table_ok_def)
  from assms(2) have w: "io_hash w = h" "io_write w = WriteOk" by (auto simp: transport_fine_def)
  obtain so b where so: "try_into_subgroup ob = Inr so" "subgroup_object_serialize so prev (so_properties so \<noteq> None) = Inr b"
    "carries hh (obs @ [ob]) (written (cl_streams c) n @ b)" unfolding prev by (rule carries_append [OF assms(6-10)])
  define cs' where "cs' = write_stream_object h WriteOk (skey r sid) b (Some n) (cl_streams c)"
  note W = write_ok_table [OF assms(1) n cs'_def]
  have "handle_object w r ob prev sid n c = (True, c\<lparr>cl_streams := cs'\<rparr>)"
    using so(1,2) w assms(4,5) by (simp add: handle_object_def cs'_def new_send_stream_key_def sub_of_def)
  then show thesis by (rule that) (use W n so(3) in auto)
qed

lemma fwd_inv_object_wanted:
  assumes inv: "fwd_inv h r hdr v0 es c" and w: "transport_fine h w"
    and ev: "next_event (lv_relay_track_id v0) hdr w es (TE_SubgroupObject sid ob hi)" and wanted: "wanted v0 ob"
  shows "fwd_inv h r hdr v0 (es @ [TE_SubgroupObject sid ob hi]) (handle_subgroup_object w r sid ob hi c)"
proof -
  let ?e = "TE_SubgroupObject sid ob hi" and ?ob = "aliased v0 ob" and ?cs = "cl_streams c" and ?D = "due v0 sid es"
  from inv obtain v where v: "cl_subscriptions c r = Some v" "sub_inv r v0 v" and off: "\<not> ssts_enabled (cs_ssts ?cs)"
    and tab: "table_ok h ?cs" and si: "\<And>s. stream_inv h r hdr v0 es ?cs v s" by (auto simp: fwd_inv_def)
  define v1 where "v1 = v\<lparr>lv_state := update_last_received_object_location (ob_location ob) (lv_state v), lv_pending_header := None\<rparr>"
  define c1 where "c1 = on_sub r (\<lambda>v. v\<lparr>lv_pending_header := None\<rparr>) (on_state r (update_last_received_object_location (ob_location ob)) c)"
  have c1: "cl_streams c1 = ?cs" "cl_closing c1 = cl_closing c" "cl_subscriptions c1 r = Some v1"
    using v(1) by (simp_all add: c1_def v1_def on_state_def)
  have v1: "sub_inv r v0 v1" "lv_last_object_ids v1 = lv_last_object_ids v" "lv_skipped_headers v1 = lv_skipped_headers v"
    using v(2) by (simp_all add: v1_def sub_inv_def)
  have si1: "stream_inv h r hdr v0 es (cl_streams c1) v1 sid" by (rule stream_inv_frame [OF si]) (simp_all add: v1 c1)
  have tab1: "table_ok h (cl_streams c1)" using tab by (simp add: c1)
  obtain n hh cs2 g where S: "stream_for w r sid hi c1 = (Some n, on_sub r g (c1\<lparr>cl_streams := cs2\<rparr>))"
    and R: "reached h (skey r sid) (cl_streams c1) cs2 n" and C: "carries hh ?D (written cs2 n)" "like hh (hdr sid)"
      "sh_track_alias hh = lv_track_alias v0"
      "sh_subgroup_id (resolve_header (last_header hh (map DS_Object ?D)) (l_object (ob_location ob))) = sh_subgroup_id (hdr sid)"
    and G: "sub_inv r v0 (g v1)" "spares sid v1 (g v1)"
      "Option.bind (map_of (lv_last_object_ids (g v1)) sid) id = (if ?D = [] then None else Some (l_object (ob_location (last ?D))))"
    by (rule stream_for_reaches [OF tab1 w c1(3) v1(1) si1 ev wanted])
  define c2 where "c2 = on_sub r g (c1\<lparr>cl_streams := cs2\<rparr>)"
  have c2: "cl_streams c2 = cs2" "cl_closing c2 = cl_closing c" "cl_subscriptions c2 r = Some (g v1)" using c1 by (simp_all add: c2_def)
  have r2: "table_ok h (cl_streams c2)" "get_stream h (skey r sid) (cl_streams c2) = Some n" using R by (auto simp: c2 reached_def)
  have req: "lv_request_id (g v1) = r" using G(1) by (simp add: sub_inv_def)
  have fits_header: "fits_header (hdr sid) ?ob" using ev by (simp add: next_event_def fits_alias)
  have al: "ob_track_alias ?ob = sh_track_alias hh" "ob_location ?ob = ob_location ob" using C(3) by (simp_all add: aliased_def)
  obtain cs3 where O: "handle_object w r ?ob (Option.bind (map_of (lv_last_object_ids (g v1)) sid) id) sid n c2 = (True, c2\<lparr>cl_streams := cs3\<rparr>)"
    and cs3: "table_ok h cs3" "ssts_enabled (cs_ssts cs3) = ssts_enabled (cs_ssts cs2)" "\<And>k. get_stream h k cs3 = get_stream h k cs2"
      "length (cs_transport cs3) = length (cs_transport cs2)"
      "\<And>m. m < length (cs_transport cs2) \<Longrightarrow> m \<noteq> n \<Longrightarrow> written cs3 m = written cs2 m"
      "carries hh (?D @ [?ob]) (written cs3 n)"
    using handle_object_writes [OF r2(1) w r2(2) c2(3) req _ fits_header C(2) al(1), of ?D "Option.bind (map_of (lv_last_object_ids (g v1)) sid) id"]
      C(1,4) G(3) c2(1) al(2) by metis
  let ?put = "\<lambda>v. v\<lparr>lv_last_object_ids := put_entry sid (Some (l_object (ob_location ob))) (lv_last_object_ids v)\<rparr>"
  define v3 where "v3 = (?put (g v1))\<lparr>lv_state := update_last_sent_max_location (ob_location ob) (lv_state (g v1))\<rparr>"
  define c3 where "c3 = on_state r (update_last_sent_max_location (ob_location ob)) (on_sub r ?put (c2\<lparr>cl_streams := cs3\<rparr>))"
  have c3: "cl_streams c3 = cs3" "cl_closing c3 = cl_closing c" "cl_subscriptions c3 r = Some v3"
    using c2 by (simp_all add: c3_def v3_def on_state_def)
  have "\<not> lv_pending_switch (?put (g v1))" using G(1) by (simp add: sub_inv_def)
  then have nd: "note_delivered w (ob_location ob) r (on_sub r ?put (c2\<lparr>cl_streams := cs3\<rparr>)) = c3"
    unfolding c3_def using c2(3) by (intro note_delivered_quiet [of _ _ "?put (g v1)"]) simp_all
  have res: "handle_subgroup_object w r sid ob hi c = c3"
    using wanted S O nd c2(3) by (simp add: handle_subgroup_cases [OF off v] wanted_def forward_object_def c1_def [symmetric] c2_def [symmetric] al(2) sub_of_def)
  have v3: "sub_inv r v0 v3" using G(1) by (simp add: sub_inv_def v3_def)
  have due: "due v0 s (es @ [?e]) = (if s = sid then ?D @ [?ob] else due v0 s es)" for s using wanted by (auto simp: due_append)
  have opn: "TE_StreamClosed sid \<notin> set es" using ev by (simp add: next_event_def)
  have low: "n < length (cs_transport cs2)" using r2 by (auto simp: table_ok_def c2)
  have "stream_inv h r hdr v0 (es @ [?e]) cs3 v3 s" for s
  proof (cases "s = sid")
    case True
    have sg: "sh_subgroup_id (last_header hh (map DS_Object (?D @ [?ob]))) = sh_subgroup_id (hdr sid)"
      using C(4) al(2) by (cases ?D) (auto)
    have only: "k = skey r sid" if "get_stream h k cs3 = Some n" for k
      using that r2 cs3(3) unfolding table_ok_def c2 by metis
    have low3: "n < length (cs_transport cs3)" using low cs3(4) by simp
    have got: "get_stream h (skey r sid) cs3 = Some n" using r2(2) cs3(3) by (simp add: c2)
    have "busy_stream h r hdr v0 (es @ [?e]) cs3 v3 sid n hh"
      unfolding busy_stream_def due
    proof (intro conjI allI impI)
      show "k = skey r sid" if "get_stream h k cs3 = Some n" for k by (rule only [OF that])
    qed (use low3 cs3(6) C(2,3) sg got opn al(2) in \<open>simp_all add: v3_def\<close>)
    then show ?thesis using True unfolding stream_inv_def due by auto
  next
    case False
    show ?thesis
    proof (rule stream_inv_frame [OF si [of s]])
      show "map_of (lv_last_object_ids v3) s = map_of (lv_last_object_ids v) s" "lv_skipped_headers v3 s = lv_skipped_headers v s"
        using False G(2) v1 by (simp_all add: v3_def spares_def)
      show "length (cs_transport ?cs) \<le> length (cs_transport cs3)" using R cs3(4) by (simp add: reached_def c1)
      show "get_stream h k ?cs = Some m \<or> length (cs_transport ?cs) \<le> m" if "get_stream h k cs3 = Some m" for k m
      proof (cases "k = skey r sid")
        case True
        with that cs3(3) r2(2) have "m = n" by (simp add: c2)
        with True R show ?thesis by (auto simp: reached_def c1)
      qed (use that cs3(3) R in \<open>auto simp: reached_def c1\<close>)
      show "get_stream h (skey r s) cs3 = get_stream h (skey r s) ?cs \<or> get_stream h (skey r s) cs3 = None \<and> TE_StreamClosed s \<in> set es"
        using False R cs3(3) by (simp add: reached_def c1)
      show "written cs3 m = written ?cs m" if "m < length (cs_transport ?cs)" "\<And>k. get_stream h k ?cs = Some m \<Longrightarrow> k = skey r s" for m
      proof -
        have "m \<noteq> n" using that(1) that(2) [of "skey r sid"] False R by (auto simp: reached_def c1)
        then show ?thesis using that(1) R cs3(5) [of m] by (auto simp: reached_def c1)
      qed
    qed (use False in \<open>auto simp: due has_header_append\<close>)
  qed
  then show ?thesis unfolding res using c3 v3 inv cs3(1,2) R off by (auto simp: fwd_inv_def reached_def c1)
qed

lemma fwd_run_inv:
  assumes "fwd_run h r hdr c0 es c" "fwd_inv h r hdr (sub_of c0 r) [] c0"
  shows "fwd_inv h r hdr (sub_of c0 r) es c"
  using assms
proof induction
  case (fw_event es c w e)
  then have inv: "fwd_inv h r hdr (sub_of c0 r) es c" by blast
  show ?case
  proof (cases e)
    case (TE_SubgroupObject sid ob hi)
    with inv fw_event.hyps show ?thesis
      by (cases "wanted (sub_of c0 r) ob") (auto intro: fwd_inv_object_wanted fwd_inv_object_unwanted)
  next
    case (TE_StreamClosed sid)
    with inv fw_event.hyps show ?thesis by (auto simp: next_event_def intro: fwd_inv_closed)
  qed (use inv fw_event.hyps in \<open>auto simp: next_event_def intro: fwd_inv_datagram\<close>)
qed (auto intro: fwd_inv_elsewhere)

subsection \<open>What a subscriber asks for\<close>

fun origin_parameters :: "subscription_origin \<Rightarrow> message_parameter list" where
  "origin_parameters (OriginSubscribe s) = sub_subscribe_parameters s"
| "origin_parameters (OriginPublish p) = pub_parameters p"

text \<open>An Object a request asks for: within the range of its Location Filter, resolved against the Largest Object of the track,
  with Forward State on and, for a SUBSCRIBE, passing its Range Filters.\<close>

definition asked_for :: "subscription_origin \<Rightarrow> location option \<Rightarrow> moq_object \<Rightarrow> bool" where
  "asked_for origin largest ob \<longleftrightarrow> asked (location_filter_of (origin_parameters origin)) largest (ob_location ob)
     \<and> param_or (\<lambda>p. case p of MP_Forward forward \<Rightarrow> Some forward | _ \<Rightarrow> None) True (origin_parameters origin)
     \<and> (case origin of OriginSubscribe s \<Rightarrow> matches_object (range_filter_of (sub_subscribe_parameters s)) ob | OriginPublish _ \<Rightarrow> True)"

definition new_subscription :: "u64 \<Rightarrow> u64 \<Rightarrow> full_track_name \<Rightarrow> subscription_origin \<Rightarrow> location option \<Rightarrow> live_subscription" where
  "new_subscription t a name origin largest =
     (let v = create_instance t a name origin in v\<lparr>lv_state := resolve_live_start largest (lv_state v)\<rparr>)"

text \<open>A connection on which the subscription has just been made.\<close>

definition subscribed :: "(bytes \<Rightarrow> u64) \<Rightarrow> u64 \<Rightarrow> live_subscription \<Rightarrow> subscriber \<Rightarrow> bool" where
  "subscribed h r v c \<longleftrightarrow> cl_subscriptions c r = Some v \<and> lv_request_id v = r \<and> table_ok h (cl_streams c)
     \<and> \<not> ssts_enabled (cs_ssts (cl_streams c)) \<and> (\<forall>sid. get_stream h (skey r sid) (cl_streams c) = None)
     \<and> (\<forall>k \<in> set (cl_closing c). ssk_request_id k \<noteq> r)"

lemma set_location_filter_fields [simp]:
  "sb_forward (set_location_filter f l st) = sb_forward st" "sb_soft_suspended (set_location_filter f l st) = sb_soft_suspended st"
  "sb_range_filter (set_location_filter f l st) = sb_range_filter st"
  by (simp_all add: set_location_filter_def Let_def)

lemma in_range_fields:
  "sb_start_location st = sb_start_location st' \<Longrightarrow> sb_end_group st = sb_end_group st' \<Longrightarrow> sb_end_object st = sb_end_object st' \<Longrightarrow>
   in_wanted_range st l = in_wanted_range st' l"
  by (simp add: in_wanted_range_def before_start_def is_past_end_def cong: option.case_cong)

lemma resolve_fields:
  "resolve_live_start largest (st\<lparr>sb_range_filter := f\<rparr>) = (resolve_live_start largest st)\<lparr>sb_range_filter := f\<rparr>"
  "resolve_live_start largest (st\<lparr>sb_subscribe_parameters := ps\<rparr>) = (resolve_live_start largest st)\<lparr>sb_subscribe_parameters := ps\<rparr>"
  by (simp_all add: resolve_live_start_def split: option.splits)

lemma resolved_state:
  assumes st_def: "st = resolve_live_start largest (state_of_origin origin)"
  shows "in_wanted_range st l \<longleftrightarrow> asked (location_filter_of (origin_parameters origin)) largest l"
    "sb_forward st = param_or (\<lambda>p. case p of MP_Forward forward \<Rightarrow> Some forward | _ \<Rightarrow> None) True (origin_parameters origin)"
    "\<not> sb_soft_suspended st"
    "sb_range_filter st = (case origin of OriginSubscribe s \<Rightarrow> range_filter_of (sub_subscribe_parameters s) | OriginPublish _ \<Rightarrow> combined_filter_default)"
proof -
  have "in_wanted_range ((set_location_filter f largest st')\<lparr>sb_subscribe_parameters := ps, sb_range_filter := rf\<rparr>) l = asked f largest l"
    "in_wanted_range ((set_location_filter f largest st')\<lparr>sb_subscribe_parameters := ps\<rparr>) l = asked f largest l" for f st' ps rf
    by (subst in_range_fields [of _ "set_location_filter f largest st'"]; simp add: in_range_filter)+
  then show "in_wanted_range st l \<longleftrightarrow> asked (location_filter_of (origin_parameters origin)) largest l"
    by (cases origin) (simp_all add: st_def state_of_parameters_def resolve_fields resolve_initial)
qed (cases origin; simp add: st_def state_of_parameters_def resolve_fields resolve_initial)+

lemma matches_aliased [simp]: "matches_object f (aliased v ob) = matches_object f ob"
  by (simp add: matches_object_def object_fields_from_def aliased_def)

lemma wanted_iff: "wanted v ob \<longleftrightarrow> in_wanted_range (lv_state v) (ob_location ob) \<and> sb_forward (lv_state v) \<and> matches_object (sb_range_filter (lv_state v)) ob"
  by (auto simp: wanted_def object_verdict_def in_wanted_range_def) (simp_all add: aliased_def)

lemma wanted_asked: "wanted (new_subscription t a name origin largest) ob \<longleftrightarrow> asked_for origin largest ob"
proof -
  have st: "lv_state (new_subscription t a name origin largest) = resolve_live_start largest (state_of_origin origin)"
    by (simp add: new_subscription_def create_instance_def Let_def)
  show ?thesis unfolding wanted_iff resolved_state [OF st] asked_for_def
    by (cases origin) (simp_all add: matches_object_def cf_matches_def cf_is_empty_def)
qed

lemma subscribed_inv:
  assumes "subscribed h r (new_subscription t a name origin largest) c"
  shows "fwd_inv h r hdr (new_subscription t a name origin largest) [] c"
proof -
  let ?v = "new_subscription t a name origin largest"
  have "sub_inv r ?v ?v" using assms by (simp add: sub_inv_def subscribed_def same_wishes_def new_subscription_def Let_def resolved_state [OF refl] create_instance_def)
  moreover have "idle_stream h r hdr ?v [] (cl_streams c) ?v sid" for sid
    using assms by (simp add: idle_stream_def subscribed_def new_subscription_def Let_def create_instance_def has_header_def)
  ultimately show ?thesis using assms by (auto simp: fwd_inv_def stream_inv_def due_def objects_on_def subscribed_def List.map_filter_def)
qed

text \<open>What carries Objects is read as these Objects, however the transport cuts it.\<close>

lemma carries_read:
  assumes "carries hh obs bs" "length bs < 2 ^ 64" "in_time (now + 15000) evs" "tf < last_deadline (now + 15000) evs" "data_of evs = bs"
  shows "\<exists>hi. outcome (read_task Map.empty (recv_state_new now) (evs @ [(tf, Fin)])) = (Some (Inr ()), map DS_Object obs, Some hi, False, True)"
proof -
  from assms(1) obtain sd0 sd where new: "send_data_stream_new (\<lambda>_. True) (HI_Subgroup hh) = Inr sd0"
    "send_items None (map DS_Object obs) sd0 = (Inr (), sd)" "sd_written sd = bs" and ok: "sendable_items Map.empty (HI_Subgroup hh) (map DS_Object obs)"
    and rec: "received_items hh (map DS_Object obs) = map DS_Object obs" by (auto simp: carries_def sendable_items_def)
  show ?thesis using task_outcome [OF assms(3,4)] finish_sent [OF new(1,2) _ ok] assms(2,5) new(3) rec by (simp add: delivered_def)
qed

subsection \<open>Properties\<close>

text \<open>C1. A subscriber gets exactly what it asked for. Follow one subscription from its creation, with the Location Filter resolved
  against the Largest Object, through any events of its track and any work of the other requests on the connection. On every
  subgroup's stream the receiver reads, in order and with nothing between them, the Objects of the subgroup that lie in the range
  of the filter and pass the Range Filters, under the track alias the subscriber was given; a subgroup of which nothing is asked for has no
  stream. This is so for streams that start in the middle of a subgroup, whose first Object names the subgroup, or whose header came
  with an Object that was filtered.\<close>

theorem forwarding_exact:
  assumes "subscribed h r (new_subscription t a name origin largest) c0" "fwd_run h r hdr c0 es c"
    and "obs = map (\<lambda>ob. ob\<lparr>ob_track_alias := a\<rparr>) (filter (asked_for origin largest) (objects_on sid es))"
  shows "if obs = [] then get_stream h (skey r sid) (cl_streams c) = None
    else \<exists>n. n < length (cs_transport (cl_streams c))
      \<and> (TE_StreamClosed sid \<notin> set es \<longrightarrow> get_stream h (skey r sid) (cl_streams c) = Some n)
      \<and> (\<forall>now evs tf. length (written (cl_streams c) n) < 2 ^ 64 \<and> in_time (now + 15000) evs \<and> tf < last_deadline (now + 15000) evs
            \<and> data_of evs = written (cl_streams c) n \<longrightarrow>
          (\<exists>hi. outcome (read_task Map.empty (recv_state_new now) (evs @ [(tf, Fin)])) = (Some (Inr ()), map DS_Object obs, Some hi, False, True)))"
proof -
  let ?v = "new_subscription t a name origin largest"
  have v: "sub_of c0 r = ?v" using assms(1) by (simp add: subscribed_def sub_of_def)
  have "fwd_inv h r hdr ?v es c" using fwd_run_inv [OF assms(2)] subscribed_inv [OF assms(1)] v by metis
  then obtain v where inv: "stream_inv h r hdr ?v es (cl_streams c) v sid" by (auto simp: fwd_inv_def)
  have "lv_track_alias ?v = a" by (simp add: new_subscription_def Let_def create_instance_def)
  then have "aliased ?v = (\<lambda>ob. ob\<lparr>ob_track_alias := a\<rparr>)" "wanted ?v = asked_for origin largest"
    by (simp_all add: fun_eq_iff aliased_def wanted_asked)
  then have obs: "obs = due ?v sid es" by (simp add: assms(3) due_def)
  show ?thesis
  proof (cases "obs = []")
    case True
    with inv show ?thesis by (simp add: stream_inv_def idle_stream_def obs)
  next
    case False
    with inv obtain n hh where B: "busy_stream h r hdr ?v es (cl_streams c) v sid n hh" by (auto simp: stream_inv_def obs)
    note b = B [unfolded busy_stream_def]
    from b have C: "carries hh obs (written (cl_streams c) n)" by (simp add: obs)
    show ?thesis unfolding if_not_P [OF False]
    proof (intro exI [of _ n] conjI allI impI)
      fix now evs tf
      assume "length (written (cl_streams c) n) < 2 ^ 64 \<and> in_time (now + 15000) evs \<and> tf < last_deadline (now + 15000) evs
        \<and> data_of evs = written (cl_streams c) n"
      then show "\<exists>hi. outcome (read_task Map.empty (recv_state_new now) (evs @ [(tf, Fin)])) = (Some (Inr ()), map DS_Object obs, Some hi, False, True)"
        by (intro carries_read [OF C]) auto
    qed (use b in blast)+
  qed
qed

abbreviation (input) sample_headers :: "stream_id \<Rightarrow> subgroup_header" where
  "sample_headers \<equiv> (\<lambda>_. new_with_explicit_id 1 2 3 None False False True)"

abbreviation (input) sample_sid :: stream_id where
  "sample_sid \<equiv> new_subgroup 7 2 (Some 3)"

abbreviation (input) live_object :: "u64 \<Rightarrow> u64 \<Rightarrow> moq_object" where
  "live_object a i \<equiv> \<lparr>ob_track_alias = a, ob_location = Location 2 i, ob_publisher_priority = 128,
     ob_forwarding_preference = FP_Subgroup, ob_subgroup_id = Some 3, ob_status = OS_Normal, ob_properties = None,
     ob_payload = Some [7, 8]\<rparr>"

abbreviation (input) sample_events :: "track_event list" where
  "sample_events \<equiv> [TE_SubgroupObject sample_sid (live_object 1 0) (Some (header_of sample_headers sample_sid)),
     TE_SubgroupObject sample_sid (live_object 1 1) None]"

abbreviation (input) sample_origin :: subscription_origin where
  "sample_origin \<equiv> OriginSubscribe \<lparr>sub_request_id = 4, sub_track_namespace = [], sub_track_name = [],
     sub_subscribe_parameters = [MP_LocationFilter (LF_AbsoluteStart (Location 2 1))]\<rparr>"

abbreviation (input) sample_subscription :: live_subscription where
  "sample_subscription \<equiv> new_subscription 7 9 \<lparr>ftn_namespace = [], ftn_name = []\<rparr> sample_origin None"

definition sample_subscriber :: subscriber where
  "sample_subscriber = \<lparr>cl_streams = client_streams_new sample_ssts, cl_subscriptions = [4 \<mapsto> sample_subscription], cl_plans = Map.empty,
     cl_activated = {}, cl_publish_dones = [], cl_closing = [], cl_stopped_fills = [], cl_datagrams = []\<rparr>"

definition sample_io :: io where
  "sample_io = \<lparr>io_hash = (\<lambda>_. 0), io_opens = True, io_accepts = (\<lambda>_. True), io_write = WriteOk, io_resets = True, io_registered = (\<lambda>_. True),
     io_held = (\<lambda>_. True), io_sends = (\<lambda>_. True), io_active_headers = Map.empty\<rparr>"

lemma sample_subscribed: "subscribed (\<lambda>_. 0) 4 sample_subscription sample_subscriber"
  by (simp add: subscribed_def sample_subscriber_def new_subscription_def create_instance_def Let_def table_ok_def client_streams_new_def get_stream_def
      stream_shards.shard_get_new stream_shards.shard_new_wf ssts_enabled_def)

lemma sample_run:
  "fwd_run (\<lambda>_. 0) 4 sample_headers sample_subscriber sample_events (fold (handle_track_event sample_io 4) sample_events sample_subscriber)"
proof -
  have fine: "transport_fine (\<lambda>_. 0) sample_io" by (simp add: transport_fine_def sample_io_def)
  have track: "lv_relay_track_id (sub_of sample_subscriber 4) = 7"
    by (simp add: sub_of_def sample_subscriber_def new_subscription_def create_instance_def Let_def)
  have fits_header: "fits_header (sample_headers s) (live_object 1 i)" for i s
    by (simp add: fits_header_def new_with_explicit_id_def try_into_subgroup_def)
  have held: "subgroup_header_held (sample_headers s)" for s using subgroup_header_wf_new(3) by (simp add: subgroup_header_held_def)
  have sid: "build_stream_id 7 (header_of sample_headers sample_sid) = sample_sid"
    by (simp add: build_stream_id_def new_with_explicit_id_def)
  have mode: "sht_subgroup_id_mode (sh_header_type (sample_headers s)) = SIM_Explicit" "sh_subgroup_id (sample_headers s) = Some 3" for s
    by (simp_all add: new_with_explicit_id_def)
  have e1: "next_event 7 sample_headers sample_io [] (sample_events ! 0)"
    using fits_header held sid mode by (simp add: next_event_def objects_on_def List.map_filter_def sample_io_def)
  have e2: "next_event 7 sample_headers sample_io [sample_events ! 0] (sample_events ! 1)"
    using fits_header held sid mode by (auto simp: next_event_def objects_on_def List.map_filter_def sample_io_def has_header_def)
  from fw_event [OF fw_start fine, of sample_subscriber 4 sample_headers "sample_events ! 0"] e1 track
  have "fwd_run (\<lambda>_. 0) 4 sample_headers sample_subscriber [sample_events ! 0] (handle_track_event sample_io 4 (sample_events ! 0) sample_subscriber)"
    by simp
  from fw_event [OF this fine, of "sample_events ! 1"] e2 track show ?thesis by simp
qed

lemma sample_length:
  assumes "carries hh [live_object a i] bs" "\<not> sht_has_properties (sh_header_type hh)"
  shows "length bs < 2 ^ 64"
proof -
  have bound: "length (put_vi v) \<le> 9" for v using minimal_vi_length_range [of v] by (simp add: length_put_vi)
  from assms(1) obtain sd0 sd where new: "send_data_stream_new (\<lambda>_. True) (HI_Subgroup hh) = Inr sd0"
    "send_items None [DS_Object (live_object a i)] sd0 = (Inr (), sd)" "sd_written sd = bs" by (auto simp: carries_def)
  obtain b where b: "subgroup_header_serialize hh None = Inr b" "sd_written sd0 = b" "sd_header_info sd0 = HI_Subgroup hh"
    using new(1) by (auto simp: send_data_stream_new_def header_bytes_def write_all_def rbind_Inr_iff)
  have "length b \<le> 37" using b(1) bound [of "sht_to_wire (sh_header_type hh)"] bound [of "sh_track_alias hh"] bound [of "sh_group_id hh"]
      bound [of "the (sh_subgroup_id hh)"]
    by (auto simp: subgroup_header_serialize_def Let_def rbind_Inr_iff split: if_splits option.splits)
  moreover have "length bs \<le> length b + 9 + 9 + 9 + 2"
    using new(2,3) b assms(2) bound [of i] bound [of 0] bound [of 2]
    by (auto simp: send_object_def write_all_def try_into_subgroup_def subgroup_object_serialize_def rbind_Inr_iff Let_def
        split: if_splits sum.splits prod.splits)
  ultimately show ?thesis by simp
qed

lemma sample_asked:
  "\<not> asked_for sample_origin None (live_object 1 0)" "asked_for sample_origin None (live_object 1 1)"
  by (simp_all add: asked_for_def asked_def location_filter_of_def as_location_filter_def range_filter_of_def for_objects_def
      matches_object_def combined_filter_new_def cf_matches_def cf_is_empty_def)

lemma sample_stays_short:
  assumes "get_stream (\<lambda>_. 0) (skey 4 sample_sid) (cl_streams c) = Some n" "fwd_run (\<lambda>_. 0) 4 sample_headers sample_subscriber sample_events c"
  shows "length (written (cl_streams c) n) < 2 ^ 64"
proof -
  let ?v = sample_subscription
  have "sub_of sample_subscriber 4 = ?v" using sample_subscribed by (simp add: subscribed_def sub_of_def)
  then have "fwd_inv (\<lambda>_. 0) 4 sample_headers ?v sample_events c"
    using fwd_run_inv [OF assms(2)] subscribed_inv [OF sample_subscribed] by metis
  then obtain v where inv: "stream_inv (\<lambda>_. 0) 4 sample_headers ?v sample_events (cl_streams c) v sample_sid" by (auto simp: fwd_inv_def)
  have "lv_track_alias ?v = 9" by (simp add: new_subscription_def create_instance_def Let_def)
  then have due: "due ?v sample_sid sample_events = [live_object 9 1]"
    using sample_asked by (simp add: due_def objects_on_def List.map_filter_def wanted_asked aliased_def)
  from inv obtain m hh where B: "busy_stream (\<lambda>_. 0) 4 sample_headers ?v sample_events (cl_streams c) v sample_sid m hh"
    by (auto simp: stream_inv_def due)
  have "m = n" using B assms(1) by (simp add: busy_stream_def)
  moreover have "\<not> sht_has_properties (sh_header_type hh)" using B by (simp add: busy_stream_def like_def new_with_explicit_id_def)
  ultimately show ?thesis using B by (intro sample_length [of hh 9 1]) (simp_all add: busy_stream_def due)
qed

theorem forwarding_exact_witness:
  "\<exists>c n hi. fwd_run (\<lambda>_. 0) 4 sample_headers sample_subscriber sample_events c
     \<and> outcome (read_task Map.empty (recv_state_new 0) ([(1, Data (written (cl_streams c) n))] @ [(2, Fin)])) =
         (Some (Inr ()), [DS_Object (live_object 9 1)], Some hi, False, True)"
proof -
  let ?c = "fold (handle_track_event sample_io 4) sample_events sample_subscriber"
  have obs: "[live_object 9 1] = map (\<lambda>ob. ob\<lparr>ob_track_alias := 9\<rparr>)
      (filter (asked_for sample_origin None) (objects_on sample_sid sample_events))"
    using sample_asked by (simp add: objects_on_def List.map_filter_def)
  from forwarding_exact [OF sample_subscribed sample_run obs] obtain n
    where n: "get_stream (\<lambda>_. 0) (skey 4 sample_sid) (cl_streams ?c) = Some n"
      and read: "\<And>now evs tf. length (written (cl_streams ?c) n) < 2 ^ 64 \<Longrightarrow> in_time (now + 15000) evs \<Longrightarrow>
        tf < last_deadline (now + 15000) evs \<Longrightarrow> data_of evs = written (cl_streams ?c) n \<Longrightarrow>
        \<exists>hi. outcome (read_task Map.empty (recv_state_new now) (evs @ [(tf, Fin)])) = (Some (Inr ()), [DS_Object (live_object 9 1)], Some hi, False, True)"
    by auto
  have "length (written (cl_streams ?c) n) < 2 ^ 64" by (rule sample_stays_short [OF n sample_run])
  then have "\<exists>hi. outcome (read_task Map.empty (recv_state_new 0) ([(1, Data (written (cl_streams ?c) n))] @ [(2, Fin)])) =
      (Some (Inr ()), [DS_Object (live_object 9 1)], Some hi, False, True)"
    by (intro read) (simp_all add: data_of_def)
  with sample_run show ?thesis by blast
qed

end
