(* ===== verification/Namespaces.thy ===== *)
theory Namespaces
  imports Forwarding
begin

text \<open>
  Namespaces at the relay: publishers announce them with PUBLISH_NAMESPACE, subscribers ask for those under a
  prefix with SUBSCRIBE_NAMESPACE, or for the tracks under one with SUBSCRIBE_TRACKS. The theory has the
  request streams these requests live on (\<open>request_stream.rs\<close>, the routing of
  \<open>message_handlers/mod.rs\<close>), the registry of \<open>track_manager.rs\<close> (prefix subscriptions and
  announcements), and the handlers that work on it (\<open>prefix_subscription.rs\<close>,
  \<open>message_handlers/subscribe_namespace_handler.rs\<close>, \<open>subscribe_tracks_handler.rs\<close>,
  \<open>publish_namespace_handler.rs\<close>, the end of a connection in \<open>session.rs\<close>). A handler runs as one step.
\<close>

subsection \<open>Request streams\<close>

datatype request_stream_kind = RSK_Subscribe | RSK_Fetch | RSK_PublishNamespace | RSK_PrefixSubscription | RSK_Publish | RSK_TrackStatus

fun stream_kind_of :: "control_message \<Rightarrow> request_stream_kind option" where
  "stream_kind_of (CM_Subscribe _) = Some RSK_Subscribe"
| "stream_kind_of (CM_Fetch _) = Some RSK_Fetch"
| "stream_kind_of (CM_PublishNamespace _) = Some RSK_PublishNamespace"
| "stream_kind_of (CM_SubscribeNamespace _) = Some RSK_PrefixSubscription"
| "stream_kind_of (CM_SubscribeTracks _) = Some RSK_PrefixSubscription"
| "stream_kind_of (CM_Publish _) = Some RSK_Publish"
| "stream_kind_of (CM_TrackStatus _) = Some RSK_TrackStatus"
| "stream_kind_of _ = None"

text \<open>What becomes of a stream the peer opens with \<open>msg\<close>.\<close>

datatype admission = AD_Violation | AD_GoingAway | AD_Shed | AD_Serve request_stream_kind u64

definition admit :: "bool \<Rightarrow> u64 \<Rightarrow> u64 \<Rightarrow> control_message \<Rightarrow> admission" where
  "admit draining max_active serving msg =
     (if \<not> is_first (control_message_get_type msg) then AD_Violation
      else if draining then AD_GoingAway
      else if max_active > 0 \<and> serving \<ge> max_active then AD_Shed
      else case (stream_kind_of msg, control_message_request_id msg) of
             (Some kind, Some request_id) \<Rightarrow> AD_Serve kind request_id
           | _ \<Rightarrow> AD_Violation)"

definition is_update :: "control_message \<Rightarrow> bool" where
  "is_update msg = (case msg of CM_RequestUpdate _ \<Rightarrow> True | _ \<Rightarrow> False)"

definition rejected_follow_up :: "request_stream_kind \<Rightarrow> control_message \<Rightarrow> bool" where
  "rejected_follow_up kind msg =
     (case kind of RSK_PrefixSubscription \<Rightarrow> \<not> is_update msg | RSK_TrackStatus \<Rightarrow> is_update msg | _ \<Rightarrow> False)"

text \<open>The requests a client has open (\<open>PendingRequest\<close>). Those of other components are not looked into.\<close>

datatype pending_request =
    PR_Fetch | PR_Subscribe | PR_Publish | PR_RequestUpdate
  | PR_PublishNamespace publish_namespace_msg
  | PR_SubscribeNamespace subscribe_namespace_msg
  | PR_SubscribeTracks subscribe_tracks_msg

datatype route = RT_Fetch | RT_Publish | RT_PublishNamespace | RT_Subscribe | RT_PrefixSubscription | RT_NotFound

definition determine_route :: "pending_request option \<Rightarrow> route" where
  "determine_route req = (case req of
       Some PR_Fetch \<Rightarrow> RT_Fetch
     | Some PR_Publish \<Rightarrow> RT_Publish
     | Some (PR_PublishNamespace _) \<Rightarrow> RT_PublishNamespace
     | Some PR_Subscribe \<Rightarrow> RT_Subscribe
     | Some (PR_SubscribeNamespace _) \<Rightarrow> RT_PrefixSubscription
     | Some (PR_SubscribeTracks _) \<Rightarrow> RT_PrefixSubscription
     | Some PR_RequestUpdate \<Rightarrow> RT_NotFound
     | None \<Rightarrow> RT_NotFound)"

subsection \<open>The registry\<close>

datatype subscribe_kind = SK_Namespace | SK_Tracks

text \<open>The channel of a subscription is named by the request stream it feeds.\<close>

record ns_subscriber =
  nss_client :: nat
  nss_kind :: subscribe_kind
  nss_parameters :: "message_parameter list"
  nss_channel :: "nat \<times> u64"

type_synonym ns_registry = "(tuple \<times> ns_subscriber list) list"
type_synonym announcement_table = "(tuple \<times> nat \<times> publish_namespace_msg) list"

abbreviation held_by :: "nat \<Rightarrow> subscribe_kind \<Rightarrow> ns_subscriber \<Rightarrow> bool" where
  "held_by c k s \<equiv> nss_client s = c \<and> nss_kind s = k"

definition add_namespace_subscriber :: "tuple \<Rightarrow> ns_subscriber \<Rightarrow> ns_registry \<Rightarrow> ns_registry" where
  "add_namespace_subscriber pfx s subs =
     (let clients = (case map_of subs pfx of Some cs \<Rightarrow> cs | None \<Rightarrow> [])
      in put_entry pfx (if \<exists>x \<in> set clients. held_by (nss_client s) (nss_kind s) x then clients else clients @ [s]) subs)"

definition get_namespace_subscribers :: "tuple \<Rightarrow> subscribe_kind \<Rightarrow> ns_registry \<Rightarrow> (nat \<times> message_parameter list) list" where
  "get_namespace_subscribers target kind subs =
     concat (map (\<lambda>(pfx, clients). if tuple_starts_with target pfx
       then map (\<lambda>s. (nss_client s, nss_parameters s)) (filter (\<lambda>s. nss_kind s = kind) clients) else []) subs)"

definition remove_namespace_subscriber :: "nat \<Rightarrow> ns_registry \<Rightarrow> ns_registry" where
  "remove_namespace_subscriber c subs =
     filter (\<lambda>(_, clients). clients \<noteq> []) (map (\<lambda>(pfx, clients). (pfx, filter (\<lambda>s. nss_client s \<noteq> c) clients)) subs)"

definition remove_namespace_subscriber_by_prefix :: "tuple \<Rightarrow> nat \<Rightarrow> subscribe_kind \<Rightarrow> ns_registry \<Rightarrow> ns_registry" where
  "remove_namespace_subscriber_by_prefix pfx c kind subs =
     filter (\<lambda>(_, clients). clients \<noteq> [])
       (map (\<lambda>(p, clients). (p, if p = pfx then filter (\<lambda>s. \<not> held_by c kind s) clients else clients)) subs)"

fun change_first :: "('a \<Rightarrow> bool) \<Rightarrow> ('a \<Rightarrow> 'a) \<Rightarrow> 'a list \<Rightarrow> 'a list" where
  "change_first P f [] = []"
| "change_first P f (x # xs) = (if P x then f x # xs else x # change_first P f xs)"

definition update_namespace_subscription_parameters :: "tuple \<Rightarrow> nat \<Rightarrow> message_parameter list \<Rightarrow> ns_registry \<Rightarrow> ns_registry" where
  "update_namespace_subscription_parameters pfx c params subs =
     map (\<lambda>(p, clients). (p, if p = pfx
        then change_first (\<lambda>s. nss_client s = c) (\<lambda>s. s\<lparr>nss_parameters := apply_message_parameter_update (nss_parameters s) params\<rparr>) clients
        else clients)) subs"

definition namespace_prefixes_overlap :: "tuple \<Rightarrow> tuple \<Rightarrow> bool" where
  "namespace_prefixes_overlap a b \<longleftrightarrow> a = b \<or> tuple_starts_with a b \<or> tuple_starts_with b a"

definition find_overlapping_namespace_subscription ::
  "nat \<Rightarrow> tuple \<Rightarrow> subscribe_kind \<Rightarrow> tuple option \<Rightarrow> ns_registry \<Rightarrow> tuple option" where
  "find_overlapping_namespace_subscription c new_prefix kind exclude subs =
     map_option fst (find (\<lambda>(existing, clients). exclude \<noteq> Some existing \<and> (\<exists>s \<in> set clients. held_by c kind s)
        \<and> namespace_prefixes_overlap new_prefix existing) subs)"

text \<open>The first subscriber a connection holds with a kind, and the list without it.\<close>

fun take_first :: "('a \<Rightarrow> bool) \<Rightarrow> 'a list \<Rightarrow> ('a \<times> 'a list) option" where
  "take_first P [] = None"
| "take_first P (x # xs) = (if P x then Some (x, xs) else map_option (\<lambda>(y, ys). (y, x # ys)) (take_first P xs))"

definition rekey_namespace_subscriber :: "tuple \<Rightarrow> tuple \<Rightarrow> nat \<Rightarrow> subscribe_kind \<Rightarrow> ns_registry \<Rightarrow> bool \<times> ns_registry" where
  "rekey_namespace_subscriber old_prefix new_prefix c kind subs = (case map_of subs old_prefix of
       None \<Rightarrow> (False, subs)
     | Some clients \<Rightarrow>
         (case take_first (held_by c kind) clients of
            None \<Rightarrow> (False, subs)
          | Some (s, rest) \<Rightarrow>
              (let subs1 = (if rest = [] then drop_entry old_prefix subs else put_entry old_prefix rest subs)
               in (True, put_entry new_prefix ((case map_of subs1 new_prefix of Some cs \<Rightarrow> cs | None \<Rightarrow> []) @ [s]) subs1))))"

definition add_announcement :: "tuple \<Rightarrow> nat \<Rightarrow> publish_namespace_msg \<Rightarrow> announcement_table \<Rightarrow> announcement_table" where
  "add_announcement ns c m an = put_entry ns (c, m) an"

definition remove_announcement :: "tuple \<Rightarrow> nat \<Rightarrow> announcement_table \<Rightarrow> bool \<times> announcement_table" where
  "remove_announcement ns c an = (case map_of an ns of
       Some (c', _) \<Rightarrow> if c' = c then (True, drop_entry ns an) else (False, an)
     | None \<Rightarrow> (False, an))"

definition remove_announcements_by_connection :: "nat \<Rightarrow> announcement_table \<Rightarrow> tuple list \<times> announcement_table" where
  "remove_announcements_by_connection c an =
     (map fst (filter (\<lambda>(_, c', _). c' = c) an), filter (\<lambda>(_, c', _). c' \<noteq> c) an)"

definition get_announcements_by_prefix :: "tuple \<Rightarrow> announcement_table \<Rightarrow> tuple list" where
  "get_announcements_by_prefix pfx an = filter (\<lambda>ns. tuple_starts_with ns pfx) (map fst an)"

definition update_namespace_parameters :: "tuple \<Rightarrow> message_parameter list \<Rightarrow> announcement_table \<Rightarrow> announcement_table" where
  "update_namespace_parameters ns params an =
     map (\<lambda>(n, c, m). (n, c, if n = ns then m\<lparr>pns_parameters := apply_message_parameter_update (pns_parameters m) params\<rparr> else m)) an"

subsection \<open>State\<close>

text \<open>The registry, what each client has open (\<open>inbound_requests\<close>) and has announced, the Request IDs under which a client
  was told of a namespace, the tasks that serve request streams, what was put on each stream, and the connections that are gone.\<close>

record namespace_state =
  nd_subscribers :: ns_registry
  nd_announcements :: announcement_table
  nd_inbound :: "nat \<Rightarrow> u64 \<rightharpoonup> pending_request"
  nd_announced :: "nat \<Rightarrow> tuple list"
  nd_outbound :: "nat \<Rightarrow> tuple \<rightharpoonup> u64"
  nd_served :: "nat \<times> u64 \<rightharpoonup> request_stream_kind"
  nd_streams :: "nat \<times> u64 \<Rightarrow> control_message list"
  nd_closed :: "nat set"
  nd_next_update_id :: u64

definition namespace_state_new :: namespace_state where
  "namespace_state_new = \<lparr>nd_subscribers = [], nd_announcements = [], nd_inbound = (\<lambda>_. Map.empty), nd_announced = (\<lambda>_. []),
     nd_outbound = (\<lambda>_. Map.empty), nd_served = Map.empty, nd_streams = (\<lambda>_. []), nd_closed = {}, nd_next_update_id = 1\<rparr>"

definition put_on :: "nat \<times> u64 \<Rightarrow> control_message list \<Rightarrow> namespace_state \<Rightarrow> namespace_state" where
  "put_on ch msgs d = d\<lparr>nd_streams := (nd_streams d)(ch := nd_streams d ch @ msgs)\<rparr>"

definition store_request :: "nat \<Rightarrow> u64 \<Rightarrow> pending_request option \<Rightarrow> namespace_state \<Rightarrow> namespace_state" where
  "store_request c r p d = d\<lparr>nd_inbound := (nd_inbound d)(c := (nd_inbound d c)(r := p))\<rparr>"

abbreviation namespace_of :: "tuple \<Rightarrow> control_message" where
  "namespace_of sfx \<equiv> CM_Namespace \<lparr>nsp_track_namespace_suffix = sfx\<rparr>"

abbreviation namespace_done_of :: "tuple \<Rightarrow> control_message" where
  "namespace_done_of sfx \<equiv> CM_NamespaceDone \<lparr>nsd_track_namespace_suffix = sfx\<rparr>"

abbreviation ok_message :: control_message where
  "ok_message \<equiv> CM_RequestOk \<lparr>rok_parameters = [], rok_track_properties = []\<rparr>"

definition error_message :: "request_error_code \<Rightarrow> string \<Rightarrow> control_message" where
  "error_message code reason = CM_RequestError (request_error_new code 0 (map of_char reason))"

subsection \<open>Announcing\<close>

fun tell_each :: "nat \<Rightarrow> control_message \<Rightarrow> ns_subscriber list \<Rightarrow> namespace_state \<Rightarrow> namespace_state" where
  "tell_each announcer msg [] d = d"
| "tell_each announcer msg (s # ss) d =
     tell_each announcer msg ss
       (if nss_kind s \<noteq> SK_Namespace \<or> nss_client s = announcer then d else put_on (nss_channel s) [msg] d)"

fun tell_prefixes :: "tuple \<Rightarrow> nat \<Rightarrow> (tuple \<Rightarrow> control_message) \<Rightarrow> ns_registry \<Rightarrow> namespace_state \<Rightarrow> namespace_state" where
  "tell_prefixes ns announcer message_for [] d = d"
| "tell_prefixes ns announcer message_for ((pfx, subscribers) # subs) d =
     tell_prefixes ns announcer message_for subs
       (if \<not> tuple_starts_with ns pfx then d
        else case tuple_suffix ns pfx of
               None \<Rightarrow> d
             | Some sfx \<Rightarrow> tell_each announcer (message_for sfx) subscribers d)"

definition announce_to_namespace_subscribers ::
  "tuple \<Rightarrow> nat \<Rightarrow> (tuple \<Rightarrow> control_message) \<Rightarrow> namespace_state \<Rightarrow> namespace_state" where
  "announce_to_namespace_subscribers ns announcer message_for d = tell_prefixes ns announcer message_for (nd_subscribers d) d"

definition handle_publish_namespace :: "nat \<Rightarrow> publish_namespace_msg \<Rightarrow> namespace_state \<Rightarrow> namespace_state" where
  "handle_publish_namespace c m d =
     (let ns = pns_track_namespace m; ch = (c, pns_request_id m)
      in if is_reserved_dot ns \<or> is_session_namespace ns
         then put_on ch [error_message REC_DoesNotExist ''reserved namespace cannot be published''] d
         else
           (let d1 = d\<lparr>nd_announced := (nd_announced d)(c := nd_announced d c @ [ns]),
                       nd_announcements := add_announcement ns c m (nd_announcements d)\<rparr>;
                d2 = store_request c (pns_request_id m) (Some (PR_PublishNamespace m)) d1;
                d3 = announce_to_namespace_subscribers ns c namespace_of d2
            in put_on ch [ok_message] d3))"

text \<open>A subscriber that was told of the namespace under a Request ID of its own gets the update on that request's stream.\<close>

fun forward_update :: "tuple \<Rightarrow> message_parameter list \<Rightarrow> (nat \<times> message_parameter list) list \<Rightarrow> namespace_state \<Rightarrow> namespace_state" where
  "forward_update ns params [] d = d"
| "forward_update ns params ((session, _) # rest) d =
     forward_update ns params rest
       (case nd_outbound d session ns of
          Some downstream \<Rightarrow>
            put_on (session, downstream) [CM_RequestUpdate \<lparr>rup_request_id = nd_next_update_id d, rup_parameters = params\<rparr>]
              (d\<lparr>nd_next_update_id := nd_next_update_id d + 2\<rparr>)
        | None \<Rightarrow> d)"

definition update_publish_namespace :: "nat \<Rightarrow> u64 \<Rightarrow> message_parameter list \<Rightarrow> namespace_state \<Rightarrow> namespace_state" where
  "update_publish_namespace c r params d = (case nd_inbound d c r of
       Some (PR_PublishNamespace m) \<Rightarrow>
         (let d1 = store_request c r
                (Some (PR_PublishNamespace (m\<lparr>pns_parameters := apply_message_parameter_update (pns_parameters m) params\<rparr>))) d;
              ns = pns_track_namespace m;
              d2 = d1\<lparr>nd_announcements := update_namespace_parameters ns params (nd_announcements d1)\<rparr>
          in put_on (c, r) [ok_message]
               (forward_update ns params (get_namespace_subscribers ns SK_Namespace (nd_subscribers d2)) d2))
     | _ \<Rightarrow> d)"

definition cancel_publish_namespace :: "nat \<Rightarrow> u64 \<Rightarrow> namespace_state \<Rightarrow> namespace_state" where
  "cancel_publish_namespace c r d =
     (let d1 = store_request c r None d
      in case nd_inbound d c r of
           Some (PR_PublishNamespace m) \<Rightarrow>
             (let ns = pns_track_namespace m;
                  d2 = d1\<lparr>nd_announced := (nd_announced d1)(c := filter (\<lambda>n. n \<noteq> ns) (nd_announced d1 c))\<rparr>
              in case remove_announcement ns c (nd_announcements d2) of
                   (False, _) \<Rightarrow> d2
                 | (True, an) \<Rightarrow> announce_to_namespace_subscribers ns c namespace_done_of (d2\<lparr>nd_announcements := an\<rparr>))
         | _ \<Rightarrow> d1)"

subsection \<open>Prefix subscriptions\<close>

abbreviation (input) MAX_NAMESPACE_PREFIX_FIELDS :: nat where
  "MAX_NAMESPACE_PREFIX_FIELDS \<equiv> 32"

definition oversized_namespace_error :: "tuple \<Rightarrow> control_message option" where
  "oversized_namespace_error pfx =
     (if length pfx > MAX_NAMESPACE_PREFIX_FIELDS then Some (error_message REC_NamespaceTooLarge ''Namespace prefix is too large'') else None)"

text \<open>The error for filters that cannot be honoured; how an error is spelled is left out.\<close>

definition invalid_filter :: "range_filter_error \<Rightarrow> control_message" where
  "invalid_filter e = error_message REC_InvalidFilter ''invalid filter''"

text \<open>Each name once, as long as its suffix can be told.\<close>

fun catchup_messages :: "tuple \<Rightarrow> tuple set \<Rightarrow> tuple list \<Rightarrow> control_message list" where
  "catchup_messages pfx seen [] = []"
| "catchup_messages pfx seen (ns # nss) =
     (if ns \<in> seen then catchup_messages pfx seen nss
      else (case tuple_suffix ns pfx of Some sfx \<Rightarrow> [namespace_of sfx] | None \<Rightarrow> [])
             @ catchup_messages pfx (insert ns seen) nss)"

text \<open>\<open>published\<close> names the tracks that have a stored PUBLISH.\<close>

definition tracks_under :: "tuple \<Rightarrow> full_track_name list \<Rightarrow> full_track_name list" where
  "tracks_under pfx published = filter (\<lambda>n. tuple_starts_with (ftn_namespace n) pfx) published"

definition send_namespace_catchup :: "full_track_name list \<Rightarrow> tuple \<Rightarrow> nat \<times> u64 \<Rightarrow> namespace_state \<Rightarrow> namespace_state" where
  "send_namespace_catchup published pfx ch d =
     put_on ch (catchup_messages pfx {}
       (get_announcements_by_prefix pfx (nd_announcements d) @ map ftn_namespace (tracks_under pfx published))) d"

text \<open>\<open>takes\<close> says whether the request stream takes what is written to it; a write that fails ends the handler. The first
  component is whether the stream's channel is kept and the task goes on.\<close>

definition handle_subscribe_namespace ::
  "full_track_name list \<Rightarrow> bool \<Rightarrow> nat \<Rightarrow> subscribe_namespace_msg \<Rightarrow> namespace_state \<Rightarrow> bool \<times> namespace_state" where
  "handle_subscribe_namespace published takes c m d =
     (let pfx = sns_track_namespace_prefix m; ch = (c, sns_request_id m);
          refuse = (\<lambda>err. (False, if takes then put_on ch [err] d else d))
      in case oversized_namespace_error pfx of
           Some err \<Rightarrow> refuse err
         | None \<Rightarrow>
             (case find_overlapping_namespace_subscription c pfx SK_Namespace None (nd_subscribers d) of
                Some _ \<Rightarrow> refuse (error_message REC_PrefixOverlap ''Namespace prefix overlaps with existing subscription'')
              | None \<Rightarrow>
                  (let d1 = d\<lparr>nd_subscribers := add_namespace_subscriber pfx
                         \<lparr>nss_client = c, nss_kind = SK_Namespace, nss_parameters = sns_parameters m, nss_channel = ch\<rparr> (nd_subscribers d)\<rparr>;
                       d2 = store_request c (sns_request_id m) (Some (PR_SubscribeNamespace m)) d1
                   in if takes then (True, send_namespace_catchup published pfx ch (put_on ch [ok_message] d2))
                      else (False, d2))))"

text \<open>The tracks pushed to a new SUBSCRIBE_TRACKS: \<open>has_it\<close> says which tracks the subscriber already has or publishes itself,
  \<open>push\<close> whether pushing a track's PUBLISH succeeds. The result is the PUBLISH_SKIPPED messages and the tracks that were tried.\<close>

fun push_tracks ::
  "(full_track_name \<Rightarrow> bool) \<Rightarrow> (full_track_name \<Rightarrow> bool) \<Rightarrow> u64 \<Rightarrow> tuple \<Rightarrow> u64 \<Rightarrow> full_track_name list \<Rightarrow>
   control_message list \<times> full_track_name list" where
  "push_tracks has_it push max_publish_streams pfx published [] = ([], [])"
| "push_tracks has_it push max_publish_streams pfx published (n # names) =
     (if has_it n then push_tracks has_it push max_publish_streams pfx published names
      else if max_publish_streams > 0 \<and> published \<ge> max_publish_streams
      then ([CM_PublishSkipped \<lparr>psk_track_namespace_suffix =
               (case tuple_suffix (ftn_namespace n) pfx of Some s \<Rightarrow> s | None \<Rightarrow> ftn_namespace n), psk_track_name = ftn_name n\<rparr>], [])
      else (case push_tracks has_it push max_publish_streams pfx (if push n then published + 1 else published) names of
              (msgs, tried) \<Rightarrow> (msgs, n # tried)))"

record ns_config =
  nc_max_filter_ranges :: u64
  nc_max_publish_streams :: u64

definition handle_subscribe_tracks ::
  "ns_config \<Rightarrow> (full_track_name \<Rightarrow> bool) \<Rightarrow> (full_track_name \<Rightarrow> bool) \<Rightarrow> full_track_name list \<Rightarrow> bool \<Rightarrow> nat \<Rightarrow>
   subscribe_tracks_msg \<Rightarrow> namespace_state \<Rightarrow> bool \<times> namespace_state" where
  "handle_subscribe_tracks cfg has_it push published takes c m d =
     (let pfx = str_track_namespace_prefix m; ch = (c, str_request_id m);
          refuse = (\<lambda>err. (False, if takes then put_on ch [err] d else d))
      in case oversized_namespace_error pfx of
           Some err \<Rightarrow> refuse err
         | None \<Rightarrow>
             (case tracks_filter (str_parameters m) (nc_max_filter_ranges cfg) of
                Inl e \<Rightarrow> refuse (invalid_filter e)
              | Inr _ \<Rightarrow>
                  (case find_overlapping_namespace_subscription c pfx SK_Tracks None (nd_subscribers d) of
                     Some _ \<Rightarrow> refuse (error_message REC_PrefixOverlap ''Track prefix overlaps with existing subscription'')
                   | None \<Rightarrow>
                       (let d1 = d\<lparr>nd_subscribers := add_namespace_subscriber pfx
                              \<lparr>nss_client = c, nss_kind = SK_Tracks, nss_parameters = str_parameters m, nss_channel = ch\<rparr> (nd_subscribers d)\<rparr>;
                            d2 = store_request c (str_request_id m) (Some (PR_SubscribeTracks m)) d1
                        in if takes
                           then (True, put_on ch (ok_message # fst (push_tracks has_it push (nc_max_publish_streams cfg) pfx 0
                                   (tracks_under pfx published))) d2)
                           else (False, d2)))))"

fun target_subscription :: "pending_request option \<Rightarrow> (tuple \<times> subscribe_kind) option" where
  "target_subscription (Some (PR_SubscribeNamespace m)) = Some (sns_track_namespace_prefix m, SK_Namespace)"
| "target_subscription (Some (PR_SubscribeTracks m)) = Some (str_track_namespace_prefix m, SK_Tracks)"
| "target_subscription _ = None"

definition cancel_prefix_subscription :: "nat \<Rightarrow> u64 \<Rightarrow> namespace_state \<Rightarrow> namespace_state" where
  "cancel_prefix_subscription c r d =
     (let d1 = store_request c r None d
      in case target_subscription (nd_inbound d c r) of
           Some (pfx, kind) \<Rightarrow> d1\<lparr>nd_subscribers := remove_namespace_subscriber_by_prefix pfx c kind (nd_subscribers d1)\<rparr>
         | None \<Rightarrow> d1)"

definition requested_prefix :: "message_parameter list \<Rightarrow> tuple option" where
  "requested_prefix params = find_map (\<lambda>p. case p of MP_TrackNamespacePrefix pfx \<Rightarrow> Some pfx | _ \<Rightarrow> None) params"

definition prefix_move_rejection :: "nat \<Rightarrow> tuple \<Rightarrow> tuple \<Rightarrow> subscribe_kind \<Rightarrow> ns_registry \<Rightarrow> control_message option" where
  "prefix_move_rejection c current_prefix new_prefix kind subs = (case oversized_namespace_error new_prefix of
       Some err \<Rightarrow> Some err
     | None \<Rightarrow>
         if find_overlapping_namespace_subscription c new_prefix kind (Some current_prefix) subs \<noteq> None
         then Some (error_message REC_PrefixOverlap ''Namespace prefix overlaps with existing subscription'') else None)"

definition updated_request :: "message_parameter list \<Rightarrow> tuple option \<Rightarrow> pending_request option \<Rightarrow> pending_request option" where
  "updated_request params new_prefix req = (case req of
       Some (PR_SubscribeNamespace m) \<Rightarrow> Some (PR_SubscribeNamespace
         \<lparr>sns_request_id = sns_request_id m, sns_track_namespace_prefix = (case new_prefix of Some p \<Rightarrow> p | None \<Rightarrow> sns_track_namespace_prefix m),
          sns_parameters = apply_message_parameter_update (sns_parameters m) params\<rparr>)
     | Some (PR_SubscribeTracks m) \<Rightarrow> Some (PR_SubscribeTracks
         \<lparr>str_request_id = str_request_id m, str_track_namespace_prefix = (case new_prefix of Some p \<Rightarrow> p | None \<Rightarrow> str_track_namespace_prefix m),
          str_parameters = apply_message_parameter_update (str_parameters m) params\<rparr>)
     | other \<Rightarrow> other)"

definition apply_subscription_update ::
  "nat \<Rightarrow> u64 \<Rightarrow> tuple \<Rightarrow> tuple option \<Rightarrow> subscribe_kind \<Rightarrow> message_parameter list \<Rightarrow> namespace_state \<Rightarrow> namespace_state" where
  "apply_subscription_update c r current_prefix new_prefix kind params d =
     (let d1 = store_request c r (updated_request params new_prefix (nd_inbound d c r)) d;
          d2 = d1\<lparr>nd_subscribers := update_namespace_subscription_parameters current_prefix c params (nd_subscribers d1)\<rparr>
      in case new_prefix of
           Some p \<Rightarrow> d2\<lparr>nd_subscribers := snd (rekey_namespace_subscriber current_prefix p c kind (nd_subscribers d2))\<rparr>
         | None \<Rightarrow> d2)"

definition update_filters_rejection ::
  "ns_config \<Rightarrow> subscribe_kind \<Rightarrow> pending_request option \<Rightarrow> message_parameter list \<Rightarrow> range_filter_error option" where
  "update_filters_rejection cfg kind req update = (case kind of
       SK_Tracks \<Rightarrow>
         (case updated_tracks_filter (case req of Some (PR_SubscribeTracks m) \<Rightarrow> str_parameters m | _ \<Rightarrow> []) update (nc_max_filter_ranges cfg) of
            Inl e \<Rightarrow> Some e | Inr _ \<Rightarrow> None)
     | SK_Namespace \<Rightarrow> (case check_filter_range_limit update 0 of Inl e \<Rightarrow> Some e | Inr _ \<Rightarrow> None))"

definition update_prefix_subscription :: "ns_config \<Rightarrow> nat \<Rightarrow> u64 \<Rightarrow> message_parameter list \<Rightarrow> namespace_state \<Rightarrow> namespace_state" where
  "update_prefix_subscription cfg c r params d = (case target_subscription (nd_inbound d c r) of
       None \<Rightarrow> d
     | Some (current_prefix, kind) \<Rightarrow>
         (let new_prefix = requested_prefix params
          in case Option.bind new_prefix (\<lambda>p. prefix_move_rejection c current_prefix p kind (nd_subscribers d)) of
               Some err \<Rightarrow> put_on (c, r) [err] d
             | None \<Rightarrow>
                 (case update_filters_rejection cfg kind (nd_inbound d c r) params of
                    Some e \<Rightarrow> put_on (c, r) [invalid_filter e] d
                  | None \<Rightarrow> put_on (c, r) [ok_message] (apply_subscription_update c r current_prefix new_prefix kind params d))))"

subsection \<open>Events\<close>

text \<open>What happens to the relay: a peer opens a request stream with a request, updates it, or closes it; a connection ends.\<close>

datatype ns_event =
    NE_Announce nat publish_namespace_msg
  | NE_SubscribeNamespace nat subscribe_namespace_msg "full_track_name list" bool
  | NE_SubscribeTracks nat subscribe_tracks_msg "full_track_name list" bool "full_track_name \<Rightarrow> bool" "full_track_name \<Rightarrow> bool"
  | NE_Update nat u64 "message_parameter list"
  | NE_StreamEnd nat u64
  | NE_ConnectionEnd nat

definition serve :: "nat \<Rightarrow> u64 \<Rightarrow> request_stream_kind option \<Rightarrow> namespace_state \<Rightarrow> namespace_state" where
  "serve c r kind d = d\<lparr>nd_served := (nd_served d)((c, r) := kind)\<rparr>"

definition handle_follow_up :: "ns_config \<Rightarrow> nat \<Rightarrow> u64 \<Rightarrow> message_parameter list \<Rightarrow> namespace_state \<Rightarrow> namespace_state" where
  "handle_follow_up cfg c r params d = (case determine_route (nd_inbound d c r) of
       RT_PublishNamespace \<Rightarrow> update_publish_namespace c r params d
     | RT_PrefixSubscription \<Rightarrow> update_prefix_subscription cfg c r params d
     | RT_NotFound \<Rightarrow> put_on (c, r) [error_message REC_NotSupported ''request does not support REQUEST_UPDATE''] d
     | _ \<Rightarrow> d)"

definition cancel_request :: "request_stream_kind option \<Rightarrow> nat \<Rightarrow> u64 \<Rightarrow> namespace_state \<Rightarrow> namespace_state" where
  "cancel_request kind c r d = (case kind of
       Some RSK_PublishNamespace \<Rightarrow> cancel_publish_namespace c r d
     | Some RSK_PrefixSubscription \<Rightarrow> cancel_prefix_subscription c r d
     | _ \<Rightarrow> d)"

definition handle_connection_close :: "nat \<Rightarrow> namespace_state \<Rightarrow> namespace_state" where
  "handle_connection_close c d =
     (let (withdrawn, an) = remove_announcements_by_connection c (nd_announcements d);
          d1 = fold (\<lambda>ns. announce_to_namespace_subscribers ns c namespace_done_of) withdrawn (d\<lparr>nd_announcements := an\<rparr>)
      in d1\<lparr>nd_subscribers := remove_namespace_subscriber c (nd_subscribers d1), nd_closed := insert c (nd_closed d1)\<rparr>)"

fun ns_step :: "ns_config \<Rightarrow> ns_event \<Rightarrow> namespace_state \<Rightarrow> namespace_state" where
  "ns_step cfg (NE_Announce c m) d =
     handle_publish_namespace c m (serve c (pns_request_id m) (stream_kind_of (CM_PublishNamespace m)) d)"
| "ns_step cfg (NE_SubscribeNamespace c m published takes) d =
     (let (goes_on, d1) = handle_subscribe_namespace published takes c m d
      in serve c (sns_request_id m) (if goes_on then stream_kind_of (CM_SubscribeNamespace m) else None) d1)"
| "ns_step cfg (NE_SubscribeTracks c m published takes has_it push) d =
     (let (goes_on, d1) = handle_subscribe_tracks cfg has_it push published takes c m d
      in serve c (str_request_id m) (if goes_on then stream_kind_of (CM_SubscribeTracks m) else None) d1)"
| "ns_step cfg (NE_Update c r params) d = handle_follow_up cfg c r params d"
| "ns_step cfg (NE_StreamEnd c r) d = serve c r None (cancel_request (nd_served d (c, r)) c r d)"
| "ns_step cfg (NE_ConnectionEnd c) d = handle_connection_close c d"

end
