(* ===== verification/Namespace_Registry.thy ===== *)
theory Namespace_Registry
  imports Namespaces
begin

text \<open>
  What the registry of namespaces keeps along any history of requests: the entries of the registry are exactly the prefix
  subscriptions clients have open, and no two of a client and kind overlap.
\<close>

subsection \<open>Histories\<close>

fun opened_by :: "ns_event \<Rightarrow> (nat \<times> u64) option" where
  "opened_by (NE_Announce c m) = Some (c, pns_request_id m)"
| "opened_by (NE_SubscribeNamespace c m _ _) = Some (c, sns_request_id m)"
| "opened_by (NE_SubscribeTracks c m _ _ _ _) = Some (c, str_request_id m)"
| "opened_by _ = None"

definition used :: "ns_event list \<Rightarrow> (nat \<times> u64) set" where
  "used es = {ch. Some ch \<in> opened_by ` set es}"

text \<open>Peers do not reuse Request IDs, and a connection that has ended sends nothing.\<close>

fun possible :: "ns_event list \<Rightarrow> namespace_state \<Rightarrow> ns_event \<Rightarrow> bool" where
  "possible es d (NE_Update c r _) \<longleftrightarrow> c \<notin> nd_closed d \<and> nd_served d (c, r) \<noteq> None"
| "possible es d (NE_StreamEnd c r) \<longleftrightarrow> nd_served d (c, r) \<noteq> None"
| "possible es d (NE_ConnectionEnd c) \<longleftrightarrow> c \<notin> nd_closed d"
| "possible es d (NE_Announce c m) \<longleftrightarrow> c \<notin> nd_closed d \<and> (c, pns_request_id m) \<notin> used es"
| "possible es d (NE_SubscribeNamespace c m _ _) \<longleftrightarrow> c \<notin> nd_closed d \<and> (c, sns_request_id m) \<notin> used es"
| "possible es d (NE_SubscribeTracks c m _ _ _ _) \<longleftrightarrow> c \<notin> nd_closed d \<and> (c, str_request_id m) \<notin> used es"

inductive ns_run :: "ns_config \<Rightarrow> ns_event list \<Rightarrow> namespace_state \<Rightarrow> bool" for cfg where
  nr_start: "ns_run cfg [] namespace_state_new"
| nr_step: "ns_run cfg es d \<Longrightarrow> possible es d e \<Longrightarrow> ns_run cfg (es @ [e]) (ns_step cfg e d)"

definition announces :: "nat \<Rightarrow> tuple \<Rightarrow> ns_event list \<Rightarrow> bool" where
  "announces c ns es \<longleftrightarrow> (\<exists>m. NE_Announce c m \<in> set es \<and> pns_track_namespace m = ns)"

subsection \<open>The registry's invariant\<close>

text \<open>The subscriptions to a prefix belong to open connections and are the ones these have open, each once.\<close>

definition entry_ok :: "nat set \<Rightarrow> (nat \<Rightarrow> u64 \<rightharpoonup> pending_request) \<Rightarrow> tuple \<Rightarrow> ns_subscriber list \<Rightarrow> bool" where
  "entry_ok gone inb p ss \<longleftrightarrow> distinct (map nss_channel ss)
     \<and> (\<forall>s \<in> set ss. nss_client s \<notin> gone
          \<and> (\<exists>r. nss_channel s = (nss_client s, r) \<and> target_subscription (inb (nss_client s) r) = Some (p, nss_kind s)))"

definition registered :: "(tuple \<rightharpoonup> ns_subscriber list) \<Rightarrow> nat \<Rightarrow> u64 \<Rightarrow> tuple \<Rightarrow> subscribe_kind \<Rightarrow> bool" where
  "registered M c r p k \<longleftrightarrow> (\<exists>ss s. M p = Some ss \<and> s \<in> set ss \<and> held_by c k s \<and> nss_channel s = (c, r))"

definition registry_inv :: "nat set \<Rightarrow> (nat \<Rightarrow> u64 \<rightharpoonup> pending_request) \<Rightarrow> (tuple \<rightharpoonup> ns_subscriber list) \<Rightarrow> bool" where
  "registry_inv gone inb M \<longleftrightarrow> (\<forall>p ss. M p = Some ss \<longrightarrow> entry_ok gone inb p ss)
     \<and> (\<forall>c r p k. c \<notin> gone \<and> target_subscription (inb c r) = Some (p, k) \<longrightarrow> registered M c r p k)
     \<and> (\<forall>c r r' p p' k. c \<notin> gone \<and> r \<noteq> r' \<and> target_subscription (inb c r) = Some (p, k) \<and> target_subscription (inb c r') = Some (p', k)
          \<longrightarrow> \<not> namespace_prefixes_overlap p p')"

definition registry_ok :: "nat set \<Rightarrow> (nat \<Rightarrow> u64 \<rightharpoonup> pending_request) \<Rightarrow> ns_registry \<Rightarrow> bool" where
  "registry_ok gone inb subs \<longleftrightarrow> distinct (map fst subs) \<and> registry_inv gone inb (map_of subs)"

lemma map_of_keyed: "distinct (map fst xs) \<Longrightarrow> (k, v) \<in> set xs \<longleftrightarrow> map_of xs k = Some v"
  by (auto intro: map_of_SomeD)

lemma map_of_put [simp]: "map_of (put_entry k v m) k' = (if k' = k then Some v else map_of m k')"
  by (induction m) (auto simp: put_entry_def)

lemma map_of_drop [simp]: "map_of (drop_entry k m) k' = (if k' = k then None else map_of m k')"
  by (induction m) (auto simp: drop_entry_def)

lemma distinct_put [simp]: "distinct (map fst m) \<Longrightarrow> distinct (map fst (put_entry k v m))"
  by (auto simp: put_entry_def distinct_map_filter)

lemma distinct_drop [simp]: "distinct (map fst m) \<Longrightarrow> distinct (map fst (drop_entry k m))"
  by (auto simp: drop_entry_def distinct_map_filter)

text \<open>Changing the lists of subscribers and dropping those that become empty.\<close>

lemma distinct_prune: "distinct (map fst xs) \<Longrightarrow> distinct (map fst (filter P (map (\<lambda>(k, v). (k, f k v)) xs)))"
  by (rule distinct_map_filter) (simp add: comp_def case_prod_unfold)

lemma map_of_prune:
  "distinct (map fst xs) \<Longrightarrow> map_of (filter (\<lambda>(_, v). v \<noteq> []) (map (\<lambda>(k, v). (k, f k v)) xs)) k =
      (case map_of xs k of Some v \<Rightarrow> if f k v = [] then None else Some (f k v) | None \<Rightarrow> None)"
proof (induction xs)
  case (Cons x xs)
  obtain k0 v0 where x: "x = (k0, v0)" by fastforce
  with Cons have IH: "map_of (filter (\<lambda>(_, v). v \<noteq> []) (map (\<lambda>(k, v). (k, f k v)) xs)) k =
      (case map_of xs k of Some v \<Rightarrow> if f k v = [] then None else Some (f k v) | None \<Rightarrow> None)"
    and new: "k0 \<notin> fst ` set xs" by auto
  then show ?case using x map_of_eq_None_iff [of xs k0] by (cases "k = k0") auto
qed simp

lemma overlap_commute: "namespace_prefixes_overlap a b = namespace_prefixes_overlap b a"
  by (auto simp: namespace_prefixes_overlap_def)

lemma find_overlap_None:
  assumes "distinct (map fst subs)"
  shows "find_overlapping_namespace_subscription c p k ex subs = None \<longleftrightarrow>
    (\<forall>p' ss s. map_of subs p' = Some ss \<and> s \<in> set ss \<and> held_by c k s \<and> ex \<noteq> Some p' \<longrightarrow> \<not> namespace_prefixes_overlap p p')"
  by (auto simp: find_overlapping_namespace_subscription_def find_None_iff map_of_keyed [OF assms, symmetric])

subsection \<open>Telling subscribers\<close>

text \<open>What an announcement puts on a stream.\<close>

definition told_entry :: "tuple \<Rightarrow> nat \<Rightarrow> (tuple \<Rightarrow> control_message) \<Rightarrow> nat \<times> u64 \<Rightarrow> tuple \<times> ns_subscriber list \<Rightarrow> control_message list" where
  "told_entry ns a f ch e = (if tuple_starts_with ns (fst e)
     then map (\<lambda>_. f (drop (length (fst e)) ns))
       (filter (\<lambda>s. nss_kind s = SK_Namespace \<and> nss_client s \<noteq> a \<and> nss_channel s = ch) (snd e)) else [])"

definition told_on :: "tuple \<Rightarrow> nat \<Rightarrow> (tuple \<Rightarrow> control_message) \<Rightarrow> nat \<times> u64 \<Rightarrow> ns_registry \<Rightarrow> control_message list" where
  "told_on ns a f ch subs = concat (map (told_entry ns a f ch) subs)"

lemma put_on_simps [simp]:
  "nd_streams (put_on ch msgs d) = (nd_streams d)(ch := nd_streams d ch @ msgs)"
  "nd_subscribers (put_on ch msgs d) = nd_subscribers d" "nd_announcements (put_on ch msgs d) = nd_announcements d"
  "nd_inbound (put_on ch msgs d) = nd_inbound d" "nd_served (put_on ch msgs d) = nd_served d" "nd_closed (put_on ch msgs d) = nd_closed d"
  "nd_outbound (put_on ch msgs d) = nd_outbound d"
  by (simp_all add: put_on_def)

lemma store_request_simps [simp]:
  "nd_streams (store_request c r p d) = nd_streams d"
  "nd_subscribers (store_request c r p d) = nd_subscribers d" "nd_announcements (store_request c r p d) = nd_announcements d"
  "nd_inbound (store_request c r p d) = (nd_inbound d)(c := (nd_inbound d c)(r := p))" "nd_served (store_request c r p d) = nd_served d"
  "nd_closed (store_request c r p d) = nd_closed d" "nd_outbound (store_request c r p d) = nd_outbound d"
  by (simp_all add: store_request_def)

lemma store_commute: "(store_request c r x d)\<lparr>nd_subscribers := y\<rparr> = store_request c r x (d\<lparr>nd_subscribers := y\<rparr>)"
  by (simp add: store_request_def)

lemma serve_simps [simp]:
  "nd_streams (serve c r k d) = nd_streams d" "nd_subscribers (serve c r k d) = nd_subscribers d"
  "nd_announcements (serve c r k d) = nd_announcements d" "nd_inbound (serve c r k d) = nd_inbound d"
  "nd_served (serve c r k d) = (nd_served d)((c, r) := k)" "nd_closed (serve c r k d) = nd_closed d" "nd_outbound (serve c r k d) = nd_outbound d"
  by (simp_all add: serve_def)

lemma tell_each_rest [simp]:
  "nd_subscribers (tell_each a msg ss d) = nd_subscribers d" "nd_announcements (tell_each a msg ss d) = nd_announcements d"
  "nd_inbound (tell_each a msg ss d) = nd_inbound d" "nd_served (tell_each a msg ss d) = nd_served d"
  "nd_closed (tell_each a msg ss d) = nd_closed d" "nd_outbound (tell_each a msg ss d) = nd_outbound d"
  by (induction a msg ss d rule: tell_each.induct) auto

lemma tell_each_streams:
  "nd_streams (tell_each a msg ss d) ch =
     nd_streams d ch @ map (\<lambda>_. msg) (filter (\<lambda>s. nss_kind s = SK_Namespace \<and> nss_client s \<noteq> a \<and> nss_channel s = ch) ss)"
  by (induction a msg ss d rule: tell_each.induct) auto

lemma tell_prefixes_rest [simp]:
  "nd_subscribers (tell_prefixes ns a f subs d) = nd_subscribers d" "nd_announcements (tell_prefixes ns a f subs d) = nd_announcements d"
  "nd_inbound (tell_prefixes ns a f subs d) = nd_inbound d" "nd_served (tell_prefixes ns a f subs d) = nd_served d"
  "nd_closed (tell_prefixes ns a f subs d) = nd_closed d" "nd_outbound (tell_prefixes ns a f subs d) = nd_outbound d"
  by (induction ns a f subs d rule: tell_prefixes.induct) (auto split: option.splits)

lemma tell_prefixes_streams: "nd_streams (tell_prefixes ns a f subs d) ch = nd_streams d ch @ told_on ns a f ch subs"
  by (induction ns a f subs d rule: tell_prefixes.induct)
    (auto simp: told_on_def told_entry_def tell_each_streams tuple_suffix_def split: option.splits)

lemma announce_rest [simp]:
  "nd_subscribers (announce_to_namespace_subscribers ns a f d) = nd_subscribers d"
  "nd_announcements (announce_to_namespace_subscribers ns a f d) = nd_announcements d"
  "nd_inbound (announce_to_namespace_subscribers ns a f d) = nd_inbound d" "nd_served (announce_to_namespace_subscribers ns a f d) = nd_served d"
  "nd_closed (announce_to_namespace_subscribers ns a f d) = nd_closed d" "nd_outbound (announce_to_namespace_subscribers ns a f d) = nd_outbound d"
  by (simp_all add: announce_to_namespace_subscribers_def)

lemma announce_streams:
  "nd_streams (announce_to_namespace_subscribers ns a f d) ch = nd_streams d ch @ told_on ns a f ch (nd_subscribers d)"
  by (simp add: announce_to_namespace_subscribers_def tell_prefixes_streams)

lemma distinct_head: "distinct (map f (x # xs)) \<Longrightarrow> y \<in> set xs \<Longrightarrow> f y \<noteq> f x"
  by simp (metis imageI)

lemma concat_map_only:
  "distinct (map fst xs) \<Longrightarrow> map_of xs k = Some v \<Longrightarrow> (\<And>e. e \<in> set xs \<Longrightarrow> fst e \<noteq> k \<Longrightarrow> g e = []) \<Longrightarrow> concat (map g xs) = g (k, v)"
proof (induction xs)
  case (Cons x xs)
  show ?case
  proof (cases "fst x = k")
    case True
    have "g e = []" if "e \<in> set xs" for e using that distinct_head [OF Cons.prems(1) that] True by (intro Cons.prems(3)) simp_all
    then have "concat (map g xs) = []" by simp
    with True Cons.prems(2) show ?thesis by (cases x) auto
  next
    case False
    with Cons show ?thesis by (cases x) auto
  qed
qed simp

lemma filter_channel:
  "distinct (map nss_channel ss) \<Longrightarrow> s \<in> set ss \<Longrightarrow> filter (\<lambda>x. P x \<and> nss_channel x = nss_channel s) ss = (if P s then [s] else [])"
proof (induction ss)
  case (Cons x ss)
  show ?case
  proof (cases "x = s")
    case True
    have "nss_channel y \<noteq> nss_channel s" if "y \<in> set ss" for y using distinct_head [OF Cons.prems(1) that] True by simp
    then have "filter (\<lambda>x. P x \<and> nss_channel x = nss_channel s) ss = []" by (auto simp: filter_empty_conv)
    with True show ?thesis by auto
  next
    case False
    with Cons show ?thesis by auto
  qed
qed simp

text \<open>A discovery subscriber is told once, and nobody else is.\<close>

lemma told_on_subscriber:
  assumes "registry_ok gone inb subs" "c \<notin> gone" "target_subscription (inb c r) = Some (p, k)"
  shows "told_on ns a f (c, r) subs =
    (if k = SK_Namespace \<and> c \<noteq> a \<and> tuple_starts_with ns p then [f (drop (length p) ns)] else [])"
proof -
  from assms obtain ss s where s: "map_of subs p = Some ss" "s \<in> set ss" "held_by c k s" "nss_channel s = (c, r)"
    unfolding registry_ok_def registry_inv_def registered_def by metis
  have keys: "distinct (map fst subs)" and ok: "\<And>p ss. map_of subs p = Some ss \<Longrightarrow> entry_ok gone inb p ss"
    using assms(1) by (auto simp: registry_ok_def registry_inv_def)
  have "told_entry ns a f (c, r) e = []" if e: "e \<in> set subs" "fst e \<noteq> p" for e
  proof -
    have "entry_ok gone inb (fst e) (snd e)" using e keys by (intro ok) (simp add: map_of_keyed [symmetric])
    then have "nss_channel x \<noteq> (c, r)" if "x \<in> set (snd e)" for x using that assms(3) e(2) by (fastforce simp: entry_ok_def)
    then show ?thesis by (auto simp: told_entry_def filter_empty_conv)
  qed
  then have "told_on ns a f (c, r) subs = told_entry ns a f (c, r) (p, ss)"
    unfolding told_on_def by (intro concat_map_only [OF keys s(1)]) auto
  moreover have "distinct (map nss_channel ss)" using ok [OF s(1)] by (simp add: entry_ok_def)
  ultimately show ?thesis
    using filter_channel [OF _ s(2), of "\<lambda>x. nss_kind x = SK_Namespace \<and> nss_client x \<noteq> a"] s(3,4) by (auto simp: told_entry_def conj_assoc)
qed

lemma told_on_registered:
  assumes "registry_ok gone inb subs" "told_on ns a f (c, r) subs \<noteq> []"
  shows "inb c r \<noteq> None"
proof -
  from assms(2) obtain e where e0: "e \<in> set subs" "told_entry ns a f (c, r) e \<noteq> []" by (auto simp: told_on_def)
  let ?P = "\<lambda>s. nss_kind s = SK_Namespace \<and> nss_client s \<noteq> a \<and> nss_channel s = (c, r)"
  from e0(2) have "filter ?P (snd e) \<noteq> []" by (simp add: told_entry_def split: if_splits)
  then obtain s where "s \<in> set (filter ?P (snd e))" by (meson last_in_set)
  with e0(1) have e: "e \<in> set subs" "s \<in> set (snd e)" "nss_channel s = (c, r)" by simp_all
  then have "entry_ok gone inb (fst e) (snd e)" using assms(1) by (simp add: registry_ok_def registry_inv_def map_of_keyed [symmetric])
  with e(2) obtain r' where "nss_channel s = (nss_client s, r')" "target_subscription (inb (nss_client s) r') = Some (fst e, nss_kind s)"
    unfolding entry_ok_def by blast
  with e(3) have "target_subscription (inb c r) \<noteq> None" by simp
  then show ?thesis by (cases "inb c r") simp_all
qed

subsection \<open>Changes of the registry\<close>

lemma registry_entry:
  assumes "registry_inv gone inb M" "M p = Some ss" "s \<in> set ss"
  obtains r where "nss_client s \<notin> gone" "nss_channel s = (nss_client s, r)" "target_subscription (inb (nss_client s) r) = Some (p, nss_kind s)"
  using assms unfolding registry_inv_def entry_ok_def by blast

lemma overlap_refl [simp]: "namespace_prefixes_overlap p p"
  by (simp add: namespace_prefixes_overlap_def)

text \<open>A new subscription that overlaps none of its kind.\<close>

lemma registry_add:
  assumes inv: "registry_inv gone inb M" and c: "c \<notin> gone" and none: "target_subscription (inb c r) = None"
    and tgt: "target_subscription (Some req) = Some (p, k)" and s: "held_by c k s" "nss_channel s = (c, r)"
    and free: "\<And>p' ss x. M p' = Some ss \<Longrightarrow> x \<in> set ss \<Longrightarrow> held_by c k x \<Longrightarrow> \<not> namespace_prefixes_overlap p p'"
    and ss0: "ss0 = (case M p of Some ss \<Rightarrow> ss | None \<Rightarrow> [])"
  shows "registry_inv gone (inb(c := (inb c)(r \<mapsto> req))) (M(p \<mapsto> ss0 @ [s]))"
proof -
  let ?inb = "inb(c := (inb c)(r \<mapsto> req))" and ?M = "M(p \<mapsto> ss0 @ [s])"
  have old: "nss_channel x \<noteq> (c, r) \<and> nss_client x \<notin> gone
      \<and> (\<exists>r'. nss_channel x = (nss_client x, r') \<and> target_subscription (?inb (nss_client x) r') = Some (p', nss_kind x))"
    if "M p' = Some ss" "x \<in> set ss" for p' ss x
  proof -
    note m = that
    obtain r' where x: "nss_client x \<notin> gone" "nss_channel x = (nss_client x, r')"
      "target_subscription (inb (nss_client x) r') = Some (p', nss_kind x)" by (rule registry_entry [OF inv m])
    then have "nss_channel x \<noteq> (c, r)" using none by auto
    with x show ?thesis by (auto intro!: exI [of _ r'])
  qed
  have members: "x \<in> set ss0 \<Longrightarrow> \<exists>ss. M p = Some ss \<and> x \<in> set ss" for x by (cases "M p") (auto simp: ss0)
  have dist0: "distinct (map nss_channel ss0)" using inv by (cases "M p") (auto simp: ss0 registry_inv_def entry_ok_def)
  have e1: "entry_ok gone ?inb p' ss" if "?M p' = Some ss" for p' ss
  proof (cases "p' = p")
    case False
    with that inv old show ?thesis by (auto simp: entry_ok_def registry_inv_def)
  next
    case True
    with that have ss: "ss = ss0 @ [s]" by simp
    have old0: "nss_channel x \<noteq> (c, r)" "nss_client x \<notin> gone"
      "\<exists>r'. nss_channel x = (nss_client x, r') \<and> target_subscription (?inb (nss_client x) r') = Some (p, nss_kind x)" if "x \<in> set ss0" for x
      using members [OF that] old by blast+
    have "(c, r) \<notin> nss_channel ` set ss0" using old0(1) by (metis imageE)
    moreover have "\<exists>r'. nss_channel s = (nss_client s, r') \<and> target_subscription (?inb (nss_client s) r') = Some (p, nss_kind s)" using s tgt by simp
    ultimately show ?thesis unfolding True ss entry_ok_def using dist0 old0(2,3) c s
      by (intro conjI ballI) (simp, metis Un_iff empty_iff insert_iff list.set(1,2) set_append, metis Un_iff empty_iff insert_iff list.set(1,2) set_append)
  qed
  have e2: "registered ?M c' r' p' k'" if "c' \<notin> gone" "target_subscription (?inb c' r') = Some (p', k')" for c' r' p' k'
  proof (cases "(c', r') = (c, r)")
    case True
    with that tgt s show ?thesis by (auto simp: registered_def)
  next
    case False
    with that inv have "registered M c' r' p' k'" by (auto simp: registry_inv_def split: if_splits)
    then show ?thesis by (cases "M p") (auto simp: registered_def ss0)
  qed
  have reg: "\<not> namespace_prefixes_overlap p p'" if "r' \<noteq> r" "target_subscription (inb c r') = Some (p', k)" for r' p'
  proof -
    have "registered M c r' p' k" using inv c that(2) by (auto simp: registry_inv_def)
    then show ?thesis using free by (auto simp: registered_def)
  qed
  have e3: "\<not> namespace_prefixes_overlap q q'"
    if "c' \<notin> gone" "x \<noteq> y" "target_subscription (?inb c' x) = Some (q, k')" "target_subscription (?inb c' y) = Some (q', k')" for c' x y q q' k'
  proof (cases "c' = c \<and> (x = r \<or> y = r)")
    case True
    with that tgt reg [of x q] reg [of y q'] show ?thesis by (auto simp: overlap_commute)
  next
    case False
    then have "?inb c' x = inb c' x" "?inb c' y = inb c' y" by auto
    with that inv show ?thesis unfolding registry_inv_def by metis
  qed
  show ?thesis unfolding registry_inv_def using e1 e2 e3 by blast
qed

text \<open>Ending the subscription of a request.\<close>

lemma registry_remove:
  assumes inv: "registry_inv gone inb M" and tgt: "target_subscription (inb c r) = Some (p, k)"
    and sub: "\<And>q ss. M' q = Some ss \<Longrightarrow> \<exists>ss0. M q = Some ss0 \<and> ss = (if q = p then filter (\<lambda>s. \<not> held_by c k s) ss0 else ss0)"
    and keep: "\<And>q ss0 ss. M q = Some ss0 \<Longrightarrow> ss = (if q = p then filter (\<lambda>s. \<not> held_by c k s) ss0 else ss0) \<Longrightarrow> ss \<noteq> [] \<Longrightarrow> M' q = Some ss"
  shows "registry_inv gone (inb(c := (inb c)(r := None))) M'"
proof -
  let ?inb = "inb(c := (inb c)(r := None))"
  have only: "x \<in> set ss \<Longrightarrow> nss_channel x = (c, r) \<Longrightarrow> M q = Some ss \<Longrightarrow> q = p \<and> held_by c k x" for x ss q
    using registry_entry [OF inv, of q ss x] tgt by (metis Pair_inject option.inject)
  have same: "x \<in> set ss \<Longrightarrow> M p = Some ss \<Longrightarrow> held_by c k x \<Longrightarrow> nss_channel x = (c, r)" for x ss
    using registry_entry [OF inv, of p ss x] inv tgt unfolding registry_inv_def by (metis overlap_refl)
  have e1: "entry_ok gone ?inb q ss" if q: "M' q = Some ss" for q ss
  proof -
    from sub [OF q] obtain ss0 where ss0: "M q = Some ss0" "ss = (if q = p then filter (\<lambda>s. \<not> held_by c k s) ss0 else ss0)" by blast
    then have ok: "entry_ok gone inb q ss0" using inv by (simp add: registry_inv_def)
    have "distinct (map nss_channel ss)" using ok ss0(2) by (simp add: entry_ok_def distinct_map_filter)
    moreover have "nss_client x \<notin> gone \<and> (\<exists>r'. nss_channel x = (nss_client x, r') \<and> target_subscription (?inb (nss_client x) r') = Some (q, nss_kind x))"
      if "x \<in> set ss" for x
    proof -
      from that ss0(2) have x: "x \<in> set ss0" by (auto split: if_splits)
      have ne: "nss_channel x \<noteq> (c, r)" using only [OF x _ ss0(1)] that ss0(2) by (auto split: if_splits)
      obtain r' where "nss_client x \<notin> gone" "nss_channel x = (nss_client x, r')" "target_subscription (inb (nss_client x) r') = Some (q, nss_kind x)"
        by (rule registry_entry [OF inv ss0(1) x])
      with ne show ?thesis by (auto intro!: exI [of _ r'])
    qed
    ultimately show ?thesis by (simp add: entry_ok_def)
  qed
  have e2: "registered M' c' r' q k'" if "c' \<notin> gone" "target_subscription (?inb c' r') = Some (q, k')" for c' r' q k'
  proof -
    have ne: "(c', r') \<noteq> (c, r)" "target_subscription (inb c' r') = Some (q, k')" using that(2) by (auto split: if_splits)
    then have "registered M c' r' q k'" using inv that(1) by (simp add: registry_inv_def)
    then obtain ss s where s: "M q = Some ss" "s \<in> set ss" "held_by c' k' s" "nss_channel s = (c', r')" by (auto simp: registered_def)
    define ss1 where "ss1 = (if q = p then filter (\<lambda>s. \<not> held_by c k s) ss else ss)"
    have "q = p \<Longrightarrow> \<not> held_by c k s" using same [of s ss] s ne by auto
    then have in1: "s \<in> set ss1" using s(2) by (simp add: ss1_def)
    then have "ss1 \<noteq> []" by auto
    then have "M' q = Some ss1" by (rule keep [OF s(1) ss1_def])
    then show ?thesis using s(3,4) in1 unfolding registered_def by blast
  qed
  have e3: "\<not> namespace_prefixes_overlap q q'"
    if "c' \<notin> gone" "x \<noteq> y" "target_subscription (?inb c' x) = Some (q, k')" "target_subscription (?inb c' y) = Some (q', k')" for c' x y q q' k'
  proof -
    have "target_subscription (inb c' x) = Some (q, k')" "target_subscription (inb c' y) = Some (q', k')" using that(3,4) by (auto split: if_splits)
    with that(1,2) inv show ?thesis unfolding registry_inv_def by metis
  qed
  show ?thesis unfolding registry_inv_def using e1 e2 e3 by blast
qed

text \<open>The end of a connection.\<close>

lemma registry_close:
  assumes inv: "registry_inv gone inb M"
    and M': "\<And>q. M' q = (case M q of Some ss \<Rightarrow> if filter (\<lambda>s. nss_client s \<noteq> c) ss = [] then None else Some (filter (\<lambda>s. nss_client s \<noteq> c) ss)
        | None \<Rightarrow> None)"
  shows "registry_inv (insert c gone) inb M'"
proof -
  have e1: "entry_ok (insert c gone) inb q ss" if "M' q = Some ss" for q ss
  proof -
    from that obtain ss0 where "M q = Some ss0" "ss = filter (\<lambda>s. nss_client s \<noteq> c) ss0" by (auto simp: M' split: option.splits if_splits)
    moreover from this(1) inv have "entry_ok gone inb q ss0" by (simp add: registry_inv_def)
    ultimately show ?thesis by (auto simp: entry_ok_def distinct_map_filter)
  qed
  have e2: "registered M' c' r' q k'" if c': "c' \<notin> insert c gone" "target_subscription (inb c' r') = Some (q, k')" for c' r' q k'
  proof -
    from c' inv have "registered M c' r' q k'" by (simp add: registry_inv_def)
    then obtain ss s where s: "M q = Some ss" "s \<in> set ss" "held_by c' k' s" "nss_channel s = (c', r')" by (auto simp: registered_def)
    then have "s \<in> set (filter (\<lambda>s. nss_client s \<noteq> c) ss)" using c'(1) by simp
    moreover from this have "M' q = Some (filter (\<lambda>s. nss_client s \<noteq> c) ss)" using s(1) M' [of q] by (auto simp: filter_empty_conv)
    ultimately show ?thesis using s(3,4) unfolding registered_def by blast
  qed
  show ?thesis unfolding registry_inv_def
  proof (intro conjI allI impI)
    show "\<not> namespace_prefixes_overlap p p'" if "c' \<notin> insert c gone \<and> r \<noteq> r' \<and> target_subscription (inb c' r) = Some (p, k)
        \<and> target_subscription (inb c' r') = Some (p', k)" for c' r r' p p' k
      using that inv unfolding registry_inv_def by (metis insert_iff)
  qed (use e1 e2 in auto)
qed

text \<open>Changes of parameters.\<close>

definition sub_key :: "ns_subscriber \<Rightarrow> nat \<times> subscribe_kind \<times> nat \<times> u64" where
  "sub_key s = (nss_client s, nss_kind s, nss_channel s)"

lemma registry_cong:
  assumes inv: "registry_inv gone inb M" and tgt: "\<And>c r. target_subscription (inb' c r) = target_subscription (inb c r)"
    and keys: "\<And>q. map_option (map sub_key) (M' q) = map_option (map sub_key) (M q)"
  shows "registry_inv gone inb' M'"
proof -
  have bwd: "\<exists>ss0. M q = Some ss0 \<and> map sub_key ss = map sub_key ss0" if "M' q = Some ss" for q ss
    using keys [of q] that by (cases "M q") auto
  have fwd: "\<exists>ss. M' q = Some ss \<and> map sub_key ss = map sub_key ss0" if "M q = Some ss0" for q ss0
    using keys [of q] that by (cases "M' q") auto
  have member: "\<exists>y \<in> set ys. sub_key y = sub_key x" if "x \<in> set xs" "map sub_key xs = map sub_key ys" for x xs ys
    using that by (metis in_set_conv_nth length_map nth_map nth_mem)
  have e1: "entry_ok gone inb' q ss" if "M' q = Some ss" for q ss
  proof -
    from bwd [OF that] obtain ss0 where ss0: "M q = Some ss0" "map sub_key ss = map sub_key ss0" by blast
    have ok: "entry_ok gone inb q ss0" using inv ss0(1) by (simp add: registry_inv_def)
    have chan: "map nss_channel xs = map (\<lambda>y. snd (snd y)) (map sub_key xs)" for xs by (simp add: sub_key_def)
    have "map nss_channel ss = map nss_channel ss0" unfolding chan ss0(2) ..
    then have "distinct (map nss_channel ss)" using ok by (simp add: entry_ok_def)
    moreover have "nss_client x \<notin> gone \<and> (\<exists>r. nss_channel x = (nss_client x, r) \<and> target_subscription (inb' (nss_client x) r) = Some (q, nss_kind x))"
      if x: "x \<in> set ss" for x
    proof -
      obtain y where y: "y \<in> set ss0" "sub_key y = sub_key x" using member [OF x ss0(2)] by blast
      from ok y(1) obtain r where "nss_client y \<notin> gone" "nss_channel y = (nss_client y, r)"
        "target_subscription (inb (nss_client y) r) = Some (q, nss_kind y)" unfolding entry_ok_def by blast
      with y(2) tgt show ?thesis unfolding sub_key_def by (metis prod.inject)
    qed
    ultimately show ?thesis by (simp add: entry_ok_def)
  qed
  have e2: "registered M' c r q k" if "c \<notin> gone" "target_subscription (inb' c r) = Some (q, k)" for c r q k
  proof -
    have "registered M c r q k" using inv that tgt by (simp add: registry_inv_def)
    then obtain ss0 s where s: "M q = Some ss0" "s \<in> set ss0" "held_by c k s" "nss_channel s = (c, r)" by (auto simp: registered_def)
    from fwd [OF s(1)] obtain ss where ss: "M' q = Some ss" "map sub_key ss = map sub_key ss0" by blast
    obtain y where "y \<in> set ss" "sub_key y = sub_key s" using member [OF s(2) ss(2) [symmetric]] by blast
    with s(3,4) ss(1) show ?thesis by (auto simp: registered_def sub_key_def)
  qed
  show ?thesis unfolding registry_inv_def tgt using e1 e2 inv tgt unfolding registry_inv_def by metis
qed

lemma change_first_keys: "(\<And>s. sub_key (f s) = sub_key s) \<Longrightarrow> map sub_key (change_first P f ss) = map sub_key ss"
  by (induction ss) auto

lemma map_of_map_snd: "map_of (map (\<lambda>(k, v). (k, f k v)) xs) q = map_option (f q) (map_of xs q)"
  by (induction xs) auto

lemma update_params_keys:
  "map_option (map sub_key) (map_of (update_namespace_subscription_parameters p c ps subs) q) = map_option (map sub_key) (map_of subs q)"
  "map fst (update_namespace_subscription_parameters p c ps subs) = map fst subs"
proof -
  show "map fst (update_namespace_subscription_parameters p c ps subs) = map fst subs"
    by (simp add: update_namespace_subscription_parameters_def comp_def case_prod_unfold)
  show "map_option (map sub_key) (map_of (update_namespace_subscription_parameters p c ps subs) q) = map_option (map sub_key) (map_of subs q)"
    unfolding update_namespace_subscription_parameters_def map_of_map_snd
    by (simp add: option.map_comp comp_def) (cases "map_of subs q"; simp add: change_first_keys sub_key_def)
qed

text \<open>Moving a subscription to another prefix.\<close>

lemma take_first_only:
  "y \<in> set xs \<Longrightarrow> P y \<Longrightarrow> distinct (map g xs) \<Longrightarrow> (\<And>x. x \<in> set xs \<Longrightarrow> P x \<Longrightarrow> g x = g y) \<Longrightarrow>
   take_first P xs = Some (y, filter (\<lambda>x. \<not> P x) xs)"
proof (induction xs)
  case (Cons x xs)
  show ?case
  proof (cases "P x")
    case True
    have none: "\<not> P z" if "z \<in> set xs" for z
    proof
      assume "P z"
      then have "g z = g x" using Cons.prems(4) [of z] Cons.prems(4) [of x] True that by simp
      then show False using distinct_head [OF Cons.prems(3) that] by simp
    qed
    have "y = x" using Cons.prems(1,2) none by auto
    moreover have "filter (\<lambda>x. \<not> P x) xs = xs" using none by (auto simp: filter_id_conv)
    ultimately show ?thesis using True by simp
  next
    case False
    have "take_first P xs = Some (y, filter (\<lambda>x. \<not> P x) xs)"
    proof (rule Cons.IH)
      show "y \<in> set xs" using Cons.prems(1,2) False by auto
      show "g z = g y" if "z \<in> set xs" "P z" for z using that by (intro Cons.prems(4)) simp_all
    qed (use Cons.prems(2,3) in simp_all)
    with False show ?thesis by simp
  qed
qed simp

lemma registry_rekey:
  assumes ok: "registry_ok gone inb subs" and c: "c \<notin> gone" and tgt: "target_subscription (inb c r) = Some (p, k)"
    and free: "find_overlapping_namespace_subscription c p' k (Some p) subs = None" and new: "target_subscription (Some req) = Some (p', k)"
  shows "registry_ok gone (inb(c := (inb c)(r \<mapsto> req))) (snd (rekey_namespace_subscriber p p' c k subs))"
proof -
  have keys: "distinct (map fst subs)" and inv: "registry_inv gone inb (map_of subs)" using ok by (auto simp: registry_ok_def)
  from inv c tgt have "registered (map_of subs) c r p k" by (simp add: registry_inv_def)
  then obtain ss s where s: "map_of subs p = Some ss" "s \<in> set ss" "held_by c k s" "nss_channel s = (c, r)" by (auto simp: registered_def)
  have chan: "nss_channel x = nss_channel s" if x: "x \<in> set ss" "held_by c k x" for x
  proof -
    obtain r' where r': "nss_channel x = (nss_client x, r')" "target_subscription (inb (nss_client x) r') = Some (p, nss_kind x)"
      by (rule registry_entry [OF inv s(1) x(1)])
    have "r' = r" using inv tgt r'(2) x(2) c unfolding registry_inv_def by (metis overlap_refl)
    with r'(1) x(2) s(4) show ?thesis by simp
  qed
  have "distinct (map nss_channel ss)" using inv s(1) by (simp add: registry_inv_def entry_ok_def)
  then have tf: "take_first (held_by c k) ss = Some (s, filter (\<lambda>x. \<not> held_by c k x) ss)"
    by (intro take_first_only [where g = nss_channel] s chan)
  define rest where "rest = filter (\<lambda>x. \<not> held_by c k x) ss"
  define subs1 where "subs1 = (if rest = [] then drop_entry p subs else put_entry p rest subs)"
  have M1: "map_of subs1 q = (if q = p then if rest = [] then None else Some rest else map_of subs q)" for q by (simp add: subs1_def)
  have k1: "distinct (map fst subs1)" using keys by (simp add: subs1_def)
  let ?inb1 = "inb(c := (inb c)(r := None))"
  have inv1: "registry_inv gone ?inb1 (map_of subs1)"
    by (rule registry_remove [OF inv tgt]) (auto simp: M1 rest_def s(1) split: if_splits)
  define ss0 where "ss0 = (case map_of subs1 p' of Some cs \<Rightarrow> cs | None \<Rightarrow> [])"
  have free1: "\<not> namespace_prefixes_overlap p' q" if q: "map_of subs1 q = Some xs" "x \<in> set xs" "held_by c k x" for q xs x
  proof -
    have "q \<noteq> p" using q by (auto simp: M1 rest_def split: if_splits)
    then show ?thesis using q free unfolding find_overlap_None [OF keys] by (auto simp: M1)
  qed
  have "registry_inv gone (?inb1(c := (?inb1 c)(r \<mapsto> req))) ((map_of subs1)(p' \<mapsto> ss0 @ [s]))"
    by (rule registry_add [OF inv1 c _ new s(3,4) free1 ss0_def]) simp_all
  moreover have "?inb1(c := (?inb1 c)(r \<mapsto> req)) = inb(c := (inb c)(r \<mapsto> req))" by simp
  moreover have "snd (rekey_namespace_subscriber p p' c k subs) = put_entry p' (ss0 @ [s]) subs1"
    unfolding rekey_namespace_subscriber_def s(1) option.case tf prod.case Let_def rest_def [symmetric] subs1_def [symmetric] ss0_def [symmetric] by simp
  moreover have "map_of (put_entry p' (ss0 @ [s]) subs1) = (map_of subs1)(p' \<mapsto> ss0 @ [s])" by (simp add: fun_eq_iff)
  ultimately show ?thesis using k1 by (simp add: registry_ok_def)
qed

lemma registry_subscribe:
  assumes ok: "registry_ok gone inb subs" and c: "c \<notin> gone" and none: "target_subscription (inb c r) = None"
    and free: "find_overlapping_namespace_subscription c p k None subs = None" and new: "target_subscription (Some req) = Some (p, k)"
    and s: "held_by c k s" "nss_channel s = (c, r)"
  shows "registry_ok gone (inb(c := (inb c)(r \<mapsto> req))) (add_namespace_subscriber p s subs)"
proof -
  have keys: "distinct (map fst subs)" and inv: "registry_inv gone inb (map_of subs)" using ok by (auto simp: registry_ok_def)
  define ss0 where "ss0 = (case map_of subs p of Some cs \<Rightarrow> cs | None \<Rightarrow> [])"
  have free1: "\<not> namespace_prefixes_overlap p q" if "map_of subs q = Some xs" "x \<in> set xs" "held_by c k x" for q xs x
    using that free unfolding find_overlap_None [OF keys] by auto
  have "\<not> held_by c k x" if "x \<in> set ss0" for x
  proof (cases "map_of subs p")
    case (Some xs)
    with that free1 [OF Some, of x] show ?thesis by (auto simp: ss0_def)
  qed (use that in \<open>simp add: ss0_def\<close>)
  then have "add_namespace_subscriber p s subs = put_entry p (ss0 @ [s]) subs"
    using s by (auto simp: add_namespace_subscriber_def ss0_def [symmetric] Let_def)
  moreover have "registry_inv gone (inb(c := (inb c)(r \<mapsto> req))) ((map_of subs)(p \<mapsto> ss0 @ [s]))"
    by (rule registry_add [OF inv c none new s free1 ss0_def])
  moreover have "map_of (put_entry p (ss0 @ [s]) subs) = (map_of subs)(p \<mapsto> ss0 @ [s])" by (simp add: fun_eq_iff)
  ultimately show ?thesis using keys by (simp add: registry_ok_def)
qed

lemma registry_cancel:
  assumes ok: "registry_ok gone inb subs" and tgt: "target_subscription (inb c r) = Some (p, k)"
  shows "registry_ok gone (inb(c := (inb c)(r := None))) (remove_namespace_subscriber_by_prefix p c k subs)"
proof -
  have keys: "distinct (map fst subs)" and inv: "registry_inv gone inb (map_of subs)" using ok by (auto simp: registry_ok_def)
  let ?f = "\<lambda>q clients. if q = p then filter (\<lambda>s. \<not> held_by c k s) clients else clients"
  have M: "map_of (remove_namespace_subscriber_by_prefix p c k subs) q =
      (case map_of subs q of Some v \<Rightarrow> if ?f q v = [] then None else Some (?f q v) | None \<Rightarrow> None)" for q
    unfolding remove_namespace_subscriber_by_prefix_def by (rule map_of_prune [OF keys])
  have "registry_inv gone (inb(c := (inb c)(r := None))) (map_of (remove_namespace_subscriber_by_prefix p c k subs))"
    by (rule registry_remove [OF inv tgt]) (auto simp: M split: option.splits if_splits)
  moreover have "distinct (map fst (remove_namespace_subscriber_by_prefix p c k subs))"
    unfolding remove_namespace_subscriber_by_prefix_def by (rule distinct_prune [OF keys])
  ultimately show ?thesis by (simp add: registry_ok_def)
qed

lemma registry_disconnect:
  assumes ok: "registry_ok gone inb subs"
  shows "registry_ok (insert c gone) inb (remove_namespace_subscriber c subs)"
proof -
  have keys: "distinct (map fst subs)" and inv: "registry_inv gone inb (map_of subs)" using ok by (auto simp: registry_ok_def)
  have "registry_inv (insert c gone) inb (map_of (remove_namespace_subscriber c subs))"
    unfolding remove_namespace_subscriber_def by (rule registry_close [OF inv]) (rule map_of_prune [OF keys])
  moreover have "distinct (map fst (remove_namespace_subscriber c subs))"
    unfolding remove_namespace_subscriber_def by (rule distinct_prune [OF keys])
  ultimately show ?thesis by (simp add: registry_ok_def)
qed

lemma registry_same:
  "registry_ok gone inb subs \<Longrightarrow> (\<And>c r. target_subscription (inb' c r) = target_subscription (inb c r)) \<Longrightarrow> registry_ok gone inb' subs"
  unfolding registry_ok_def by (auto intro: registry_cong)

lemma registry_update:
  "registry_ok gone inb subs \<Longrightarrow> (\<And>c r. target_subscription (inb' c r) = target_subscription (inb c r)) \<Longrightarrow>
   registry_ok gone inb' (update_namespace_subscription_parameters p c ps subs)"
  unfolding registry_ok_def using registry_cong [OF _ _ update_params_keys(1)] by (auto simp: update_params_keys(2))

subsection \<open>The invariant\<close>

definition ns_inv :: "ns_event list \<Rightarrow> namespace_state \<Rightarrow> bool" where
  "ns_inv es d \<longleftrightarrow> registry_ok (nd_closed d) (nd_inbound d) (nd_subscribers d) \<and> distinct (map fst (nd_announcements d))
     \<and> (\<forall>ns c m. map_of (nd_announcements d) ns = Some (c, m) \<longrightarrow> c \<notin> nd_closed d \<and> announces c ns es)
     \<and> (\<forall>c r. nd_inbound d c r \<noteq> None \<or> nd_served d (c, r) \<noteq> None \<or> nd_streams d (c, r) \<noteq> [] \<longrightarrow> (c, r) \<in> used es)
     \<and> (\<forall>c r. nd_served d (c, r) = Some RSK_PublishNamespace \<longrightarrow> target_subscription (nd_inbound d c r) = None)
     \<and> nd_outbound d = (\<lambda>_. Map.empty)"

lemma used_append [simp]: "used (es @ [e]) = used es \<union> (case opened_by e of Some ch \<Rightarrow> {ch} | None \<Rightarrow> {})"
  by (auto simp: used_def split: option.splits)

lemma announces_append: "announces c ns (es @ [e]) \<longleftrightarrow> announces c ns es \<or> (\<exists>m. e = NE_Announce c m \<and> pns_track_namespace m = ns)"
  by (auto simp: announces_def)

lemma ns_inv_fresh: "ns_inv es d \<Longrightarrow> (c, r) \<notin> used es \<Longrightarrow> nd_inbound d c r = None \<and> nd_served d (c, r) = None \<and> nd_streams d (c, r) = []"
  unfolding ns_inv_def by blast

lemma ns_inv_owner: "ns_inv es d \<Longrightarrow> map_of (nd_announcements d) ns = Some (c, m) \<Longrightarrow> c \<notin> nd_closed d \<and> announces c ns es"
  unfolding ns_inv_def by blast

text \<open>Putting messages on streams that are in use.\<close>

lemma ns_inv_streams:
  assumes "ns_inv es d" "nd_subscribers d' = nd_subscribers d" "nd_announcements d' = nd_announcements d" "nd_inbound d' = nd_inbound d"
    "nd_served d' = nd_served d" "nd_closed d' = nd_closed d" "nd_outbound d' = nd_outbound d"
    and "\<And>c r. nd_streams d' (c, r) \<noteq> nd_streams d (c, r) \<Longrightarrow> (c, r) \<in> used es"
  shows "ns_inv es d'"
  using assms(1) unfolding ns_inv_def assms(2-7) using assms(8) by metis

lemma ns_inv_announce: "ns_inv es d \<Longrightarrow> ns_inv es (announce_to_namespace_subscribers ns a f d)"
proof (rule ns_inv_streams)
  fix c r
  assume inv: "ns_inv es d" and "nd_streams (announce_to_namespace_subscribers ns a f d) (c, r) \<noteq> nd_streams d (c, r)"
  then have "told_on ns a f (c, r) (nd_subscribers d) \<noteq> []" by (simp add: announce_streams)
  with inv have "nd_inbound d c r \<noteq> None" by (auto simp: ns_inv_def dest: told_on_registered)
  with inv show "(c, r) \<in> used es" by (simp add: ns_inv_def)
qed simp_all

lemma ns_inv_put: "ns_inv es d \<Longrightarrow> (c, r) \<in> used es \<Longrightarrow> ns_inv es (put_on (c, r) msgs d)"
  by (rule ns_inv_streams) (auto split: if_splits)

lemma ns_inv_mono: "ns_inv es d \<Longrightarrow> ns_inv (es @ [e]) d"
  by (fastforce simp: ns_inv_def announces_append)

lemma ns_inv_serve:
  assumes "ns_inv es d" "(c, r) \<in> used es" "k = Some RSK_PublishNamespace \<Longrightarrow> target_subscription (nd_inbound d c r) = None"
  shows "ns_inv es (serve c r k d)"
  using assms by (auto simp: ns_inv_def split: if_splits)

lemma fold_announce_rest:
  "nd_subscribers (fold (\<lambda>ns. announce_to_namespace_subscribers ns a f) nss d) = nd_subscribers d"
  "nd_streams (fold (\<lambda>ns. announce_to_namespace_subscribers ns a f) nss d) ch =
     nd_streams d ch @ concat (map (\<lambda>ns. told_on ns a f ch (nd_subscribers d)) nss)"
  "nd_announcements (fold (\<lambda>ns. announce_to_namespace_subscribers ns a f) nss d) = nd_announcements d"
  "nd_inbound (fold (\<lambda>ns. announce_to_namespace_subscribers ns a f) nss d) = nd_inbound d"
  "nd_closed (fold (\<lambda>ns. announce_to_namespace_subscribers ns a f) nss d) = nd_closed d"
  by (induction nss arbitrary: d) (simp_all add: announce_streams)

lemma ns_inv_fold_announce: "ns_inv es d \<Longrightarrow> ns_inv es (fold (\<lambda>ns. announce_to_namespace_subscribers ns a f) nss d)"
  by (induction nss arbitrary: d) (simp_all add: ns_inv_announce)

text \<open>A request stored for a stream that was in use, or one just opened.\<close>

lemma ns_inv_store:
  assumes "ns_inv es d" "(c, r) \<in> used es" "target_subscription req = target_subscription (nd_inbound d c r)"
  shows "ns_inv es (store_request c r req d)"
proof -
  let ?d = "store_request c r req d"
  have "registry_ok (nd_closed d) ((nd_inbound d)(c := (nd_inbound d c)(r := req))) (nd_subscribers d)"
  proof (rule registry_same)
    show "registry_ok (nd_closed d) (nd_inbound d) (nd_subscribers d)" using assms(1) by (simp add: ns_inv_def)
  qed (use assms(3) in simp)
  moreover have "\<forall>c' r'. nd_inbound ?d c' r' \<noteq> None \<or> nd_served ?d (c', r') \<noteq> None \<or> nd_streams ?d (c', r') \<noteq> [] \<longrightarrow> (c', r') \<in> used es"
    using assms(1,2) unfolding ns_inv_def by (simp add: fun_upd_def)
  moreover have "\<forall>c' r'. nd_served ?d (c', r') = Some RSK_PublishNamespace \<longrightarrow> target_subscription (nd_inbound ?d c' r') = None"
    using assms(1,3) unfolding ns_inv_def by (simp add: fun_upd_def)
  ultimately show ?thesis using assms(1) unfolding ns_inv_def by simp
qed

lemma ns_inv_announcements:
  assumes "ns_inv es d" "distinct (map fst an)"
    and "\<And>ns c m. map_of an ns = Some (c, m) \<Longrightarrow> c \<notin> nd_closed d \<and> announces c ns es"
  shows "ns_inv es (d\<lparr>nd_announcements := an\<rparr>)"
  using assms unfolding ns_inv_def by simp

lemma ns_inv_subscribers:
  assumes "ns_inv es d" "(c, r) \<in> used es" "nd_served d (c, r) \<noteq> Some RSK_PublishNamespace"
    and "registry_ok (nd_closed d) ((nd_inbound d)(c := (nd_inbound d c)(r := req))) subs"
  shows "ns_inv es (store_request c r req (d\<lparr>nd_subscribers := subs\<rparr>))"
proof -
  let ?d = "store_request c r req (d\<lparr>nd_subscribers := subs\<rparr>)"
  have "\<forall>c' r'. nd_inbound ?d c' r' \<noteq> None \<or> nd_served ?d (c', r') \<noteq> None \<or> nd_streams ?d (c', r') \<noteq> [] \<longrightarrow> (c', r') \<in> used es"
    using assms(1,2) unfolding ns_inv_def by (simp add: fun_upd_def)
  moreover have "\<forall>c' r'. nd_served ?d (c', r') = Some RSK_PublishNamespace \<longrightarrow> target_subscription (nd_inbound ?d c' r') = None"
    using assms(1,3) unfolding ns_inv_def by (simp add: fun_upd_def)
  ultimately show ?thesis using assms(1,4) unfolding ns_inv_def by simp
qed

lemma ns_inv_handle_announce:
  assumes inv: "ns_inv es d" and fresh: "c \<notin> nd_closed d" "(c, pns_request_id m) \<notin> used es"
  shows "ns_inv (es @ [NE_Announce c m]) (ns_step cfg (NE_Announce c m) d)"
proof -
  let ?es = "es @ [NE_Announce c m]" and ?r = "pns_request_id m" and ?ns = "pns_track_namespace m"
  note none = ns_inv_fresh [OF inv fresh(2)]
  have u: "(c, ?r) \<in> used ?es" by simp
  have inv1: "ns_inv ?es (serve c ?r (Some RSK_PublishNamespace) d)"
    by (rule ns_inv_serve [OF ns_inv_mono [OF inv] u]) (simp add: none)
  show ?thesis
  proof (cases "is_reserved_dot ?ns \<or> is_session_namespace ?ns")
    case True
    then show ?thesis using ns_inv_put [OF inv1 u] by (simp add: handle_publish_namespace_def)
  next
    case False
    let ?d1 = "(serve c ?r (Some RSK_PublishNamespace) d)\<lparr>nd_announced := (nd_announced d)(c := nd_announced d c @ [?ns]),
        nd_announcements := add_announcement ?ns c m (nd_announcements d)\<rparr>"
    have "ns_inv ?es ((serve c ?r (Some RSK_PublishNamespace) d)\<lparr>nd_announcements := add_announcement ?ns c m (nd_announcements d)\<rparr>)"
    proof (rule ns_inv_announcements [OF inv1])
      show "distinct (map fst (add_announcement ?ns c m (nd_announcements d)))" using inv by (simp add: add_announcement_def ns_inv_def)
      show "c' \<notin> nd_closed (serve c ?r (Some RSK_PublishNamespace) d) \<and> announces c' ns ?es"
        if "map_of (add_announcement ?ns c m (nd_announcements d)) ns = Some (c', m')" for ns c' m'
        using that inv fresh(1) by (auto simp: add_announcement_def ns_inv_def announces_append split: if_splits)
    qed
    then have "ns_inv ?es ?d1" by (simp add: ns_inv_def)
    then have "ns_inv ?es (store_request c ?r (Some (PR_PublishNamespace m)) ?d1)" by (rule ns_inv_store [OF _ u]) (simp add: none)
    then have "ns_inv ?es (announce_to_namespace_subscribers ?ns c namespace_of (store_request c ?r (Some (PR_PublishNamespace m)) ?d1))"
      by (rule ns_inv_announce)
    then show ?thesis using False ns_inv_put [OF _ u] by (simp add: handle_publish_namespace_def Let_def serve_def)
  qed
qed

text \<open>A prefix subscription that is refused, and one that is made.\<close>

lemma ns_inv_refused:
  assumes "ns_inv es d" "(c, r) \<in> used es"
  shows "ns_inv es (serve c r None (if takes then put_on (c, r) [err] d else d))"
  by (rule ns_inv_serve [OF _ assms(2)]) (use ns_inv_put [OF assms] assms(1) in simp_all)

lemma ns_inv_subscribed:
  assumes inv: "ns_inv es d" and u: "(c, r) \<in> used es" and c: "c \<notin> nd_closed d"
    and none: "nd_inbound d c r = None" "nd_served d (c, r) = None"
    and free: "find_overlapping_namespace_subscription c p k None (nd_subscribers d) = None" and new: "target_subscription (Some req) = Some (p, k)"
  shows "ns_inv es (store_request c r (Some req) (d\<lparr>nd_subscribers := add_namespace_subscriber p
      \<lparr>nss_client = c, nss_kind = k, nss_parameters = ps, nss_channel = (c, r)\<rparr> (nd_subscribers d)\<rparr>))"
proof (rule ns_inv_subscribers [OF inv u])
  have ok: "registry_ok (nd_closed d) (nd_inbound d) (nd_subscribers d)" using inv by (simp add: ns_inv_def)
  show "registry_ok (nd_closed d) ((nd_inbound d)(c := (nd_inbound d c)(r \<mapsto> req)))
      (add_namespace_subscriber p \<lparr>nss_client = c, nss_kind = k, nss_parameters = ps, nss_channel = (c, r)\<rparr> (nd_subscribers d))"
    by (rule registry_subscribe [OF ok c _ free new]) (simp_all add: none)
qed (simp add: none)

lemma ns_inv_handle_subscribe_namespace:
  assumes inv: "ns_inv es d" and fresh: "c \<notin> nd_closed d" "(c, sns_request_id m) \<notin> used es"
  shows "ns_inv (es @ [NE_SubscribeNamespace c m published takes]) (ns_step cfg (NE_SubscribeNamespace c m published takes) d)"
proof -
  let ?es = "es @ [NE_SubscribeNamespace c m published takes]" and ?r = "sns_request_id m" and ?p = "sns_track_namespace_prefix m"
  note none = ns_inv_fresh [OF inv fresh(2)]
  have u: "(c, ?r) \<in> used ?es" by simp
  note inv' = ns_inv_mono [OF inv, of "NE_SubscribeNamespace c m published takes"]
  consider err where "handle_subscribe_namespace published takes c m d = (False, if takes then put_on (c, ?r) [err] d else d)"
    | "find_overlapping_namespace_subscription c ?p SK_Namespace None (nd_subscribers d) = None"
      "handle_subscribe_namespace published takes c m d =
        (let d2 = store_request c ?r (Some (PR_SubscribeNamespace m)) (d\<lparr>nd_subscribers := add_namespace_subscriber ?p
               \<lparr>nss_client = c, nss_kind = SK_Namespace, nss_parameters = sns_parameters m, nss_channel = (c, ?r)\<rparr> (nd_subscribers d)\<rparr>)
         in if takes then (True, send_namespace_catchup published ?p (c, ?r) (put_on (c, ?r) [ok_message] d2)) else (False, d2))"
    by (cases "oversized_namespace_error ?p"; cases "find_overlapping_namespace_subscription c ?p SK_Namespace None (nd_subscribers d)")
      (simp_all add: handle_subscribe_namespace_def Let_def)
  then show ?thesis
  proof cases
    case 1
    then show ?thesis using ns_inv_refused [OF inv' u, of takes err] by simp
  next
    case 2
    have "target_subscription (Some (PR_SubscribeNamespace m)) = Some (?p, SK_Namespace)" by simp
    note made = ns_inv_subscribed [OF inv' u fresh(1) none [THEN conjunct1] none [THEN conjunct2, THEN conjunct1] 2(1) this, of "sns_parameters m"]
    show ?thesis using 2(2) made ns_inv_put [OF made u] ns_inv_put [OF ns_inv_put [OF made u] u]
      by (cases takes) (auto simp: Let_def send_namespace_catchup_def intro!: ns_inv_serve)
  qed
qed

lemma ns_inv_handle_subscribe_tracks:
  assumes inv: "ns_inv es d" and fresh: "c \<notin> nd_closed d" "(c, str_request_id m) \<notin> used es"
  shows "ns_inv (es @ [NE_SubscribeTracks c m published takes has_it push]) (ns_step cfg (NE_SubscribeTracks c m published takes has_it push) d)"
proof -
  let ?e = "NE_SubscribeTracks c m published takes has_it push"
  let ?es = "es @ [?e]" and ?r = "str_request_id m" and ?p = "str_track_namespace_prefix m"
  note none = ns_inv_fresh [OF inv fresh(2)]
  have u: "(c, ?r) \<in> used ?es" by simp
  note inv' = ns_inv_mono [OF inv, of ?e]
  consider err where "handle_subscribe_tracks cfg has_it push published takes c m d = (False, if takes then put_on (c, ?r) [err] d else d)"
    | "find_overlapping_namespace_subscription c ?p SK_Tracks None (nd_subscribers d) = None"
      "handle_subscribe_tracks cfg has_it push published takes c m d =
        (let d2 = store_request c ?r (Some (PR_SubscribeTracks m)) (d\<lparr>nd_subscribers := add_namespace_subscriber ?p
               \<lparr>nss_client = c, nss_kind = SK_Tracks, nss_parameters = str_parameters m, nss_channel = (c, ?r)\<rparr> (nd_subscribers d)\<rparr>)
         in if takes then (True, put_on (c, ?r) (ok_message # fst (push_tracks has_it push (nc_max_publish_streams cfg) ?p 0 (tracks_under ?p published))) d2)
            else (False, d2))"
    by (cases "oversized_namespace_error ?p"; cases "tracks_filter (str_parameters m) (nc_max_filter_ranges cfg)";
        cases "find_overlapping_namespace_subscription c ?p SK_Tracks None (nd_subscribers d)")
      (simp_all add: handle_subscribe_tracks_def Let_def)
  then show ?thesis
  proof cases
    case 1
    then show ?thesis using ns_inv_refused [OF inv' u, of takes err] by simp
  next
    case 2
    have "target_subscription (Some (PR_SubscribeTracks m)) = Some (?p, SK_Tracks)" by simp
    note made = ns_inv_subscribed [OF inv' u fresh(1) none [THEN conjunct1] none [THEN conjunct2, THEN conjunct1] 2(1) this, of "str_parameters m"]
    show ?thesis using 2(2) made ns_inv_put [OF made u]
      by (cases takes) (auto simp: Let_def intro!: ns_inv_serve)
  qed
qed

text \<open>Updates.\<close>

lemma overlap_params:
  assumes "distinct (map fst subs)" "find_overlapping_namespace_subscription c p k ex subs = None"
  shows "find_overlapping_namespace_subscription c p k ex (update_namespace_subscription_parameters q c' ps subs) = None"
proof -
  let ?subs = "update_namespace_subscription_parameters q c' ps subs"
  have keys: "distinct (map fst ?subs)" using assms(1) by (simp add: update_params_keys(2))
  show ?thesis unfolding find_overlap_None [OF keys]
  proof (intro allI impI)
    fix p' ss s
    assume a: "map_of ?subs p' = Some ss \<and> s \<in> set ss \<and> held_by c k s \<and> ex \<noteq> Some p'"
    then obtain ss0 where ss0: "map_of subs p' = Some ss0" "map sub_key ss = map sub_key ss0"
      using update_params_keys(1) [of q c' ps subs p'] by (cases "map_of subs p'") auto
    from a obtain i where i: "i < length ss" "ss ! i = s" by (auto simp: in_set_conv_nth)
    with ss0(2) have "i < length ss0" "sub_key (ss0 ! i) = sub_key s" by (metis length_map, metis length_map nth_map)
    then have "ss0 ! i \<in> set ss0" "held_by c k (ss0 ! i)" using a by (auto simp: sub_key_def)
    then show "\<not> namespace_prefixes_overlap p p'" using assms(2) ss0(1) a unfolding find_overlap_None [OF assms(1)] by blast
  qed
qed

lemma forward_update_none: "nd_outbound d = (\<lambda>_. Map.empty) \<Longrightarrow> forward_update ns ps xs d = d"
  by (induction xs) auto

lemma target_updated: "target_subscription req = Some (p, k) \<Longrightarrow>
    target_subscription (updated_request ps new req) = Some (case new of Some q \<Rightarrow> q | None \<Rightarrow> p, k)"
  by (cases req rule: target_subscription.cases) (auto simp: updated_request_def)

lemma map_of_update_params:
  "map_of (update_namespace_parameters n ps an) ns =
     map_option (\<lambda>(c, m). (c, if ns = n then m\<lparr>pns_parameters := apply_message_parameter_update (pns_parameters m) ps\<rparr> else m)) (map_of an ns)"
  by (induction an) (auto simp: update_namespace_parameters_def)

lemma keys_update_params: "map fst (update_namespace_parameters n ps an) = map fst an"
  by (simp add: update_namespace_parameters_def comp_def case_prod_unfold)

lemma ns_inv_apply_update:
  assumes inv: "ns_inv es d" and u: "(c, r) \<in> used es" and c: "c \<notin> nd_closed d"
    and tgt: "target_subscription (nd_inbound d c r) = Some (p, k)"
    and free: "\<And>q. new = Some q \<Longrightarrow> find_overlapping_namespace_subscription c q k (Some p) (nd_subscribers d) = None"
  shows "ns_inv es (apply_subscription_update c r p new k ps d)"
proof -
  have ok: "registry_ok (nd_closed d) (nd_inbound d) (nd_subscribers d)" using inv by (simp add: ns_inv_def)
  then have keys: "distinct (map fst (nd_subscribers d))" by (simp add: registry_ok_def)
  let ?subs = "update_namespace_subscription_parameters p c ps (nd_subscribers d)"
  have np: "nd_served d (c, r) \<noteq> Some RSK_PublishNamespace" using inv tgt by (auto simp: ns_inv_def)
  obtain req where req: "updated_request ps new (nd_inbound d c r) = Some req" using target_updated [OF tgt, of ps new]
    by (cases "updated_request ps new (nd_inbound d c r)") auto
  define subs' where "subs' = (case new of Some q \<Rightarrow> snd (rekey_namespace_subscriber p q c k ?subs) | None \<Rightarrow> ?subs)"
  have "registry_ok (nd_closed d) ((nd_inbound d)(c := (nd_inbound d c)(r \<mapsto> req))) subs'"
  proof (cases new)
    case None
    have "target_subscription (Some req) = target_subscription (nd_inbound d c r)" using target_updated [OF tgt, of ps new] tgt None req by simp
    then show ?thesis using None ok by (auto simp: subs'_def intro!: registry_update)
  next
    case (Some q)
    have ok1: "registry_ok (nd_closed d) (nd_inbound d) ?subs" by (rule registry_update [OF ok]) simp
    have free1: "find_overlapping_namespace_subscription c q k (Some p) ?subs = None" by (rule overlap_params [OF keys free [OF Some]])
    have "target_subscription (Some req) = Some (q, k)" using target_updated [OF tgt, of ps new] Some req by simp
    from registry_rekey [OF ok1 c tgt free1 this] show ?thesis using Some by (simp add: subs'_def)
  qed
  note done' = ns_inv_subscribers [OF inv u np this]
  have "apply_subscription_update c r p new k ps d = store_request c r (Some req) (d\<lparr>nd_subscribers := subs'\<rparr>)"
    unfolding apply_subscription_update_def Let_def req by (cases new) (simp_all add: subs'_def store_commute)
  with done' show ?thesis by simp
qed

lemma ns_inv_handle_update:
  assumes inv: "ns_inv es d" and c: "c \<notin> nd_closed d" and s: "nd_served d (c, r) \<noteq> None"
  shows "ns_inv (es @ [NE_Update c r ps]) (ns_step cfg (NE_Update c r ps) d)"
proof -
  let ?e = "NE_Update c r ps"
  note inv' = ns_inv_mono [OF inv, of ?e]
  have u: "(c, r) \<in> used (es @ [?e])" using inv s unfolding ns_inv_def by simp
  show ?thesis
  proof (cases "determine_route (nd_inbound d c r)")
    case RT_PublishNamespace
    then obtain m where m: "nd_inbound d c r = Some (PR_PublishNamespace m)"
      by (auto simp: determine_route_def split: option.splits pending_request.splits)
    let ?d1 = "store_request c r (Some (PR_PublishNamespace (m\<lparr>pns_parameters := apply_message_parameter_update (pns_parameters m) ps\<rparr>))) d"
    let ?an = "update_namespace_parameters (pns_track_namespace m) ps (nd_announcements d)"
    have i1: "ns_inv (es @ [?e]) ?d1" by (rule ns_inv_store [OF inv' u]) (simp add: m)
    have i2: "ns_inv (es @ [?e]) (?d1\<lparr>nd_announcements := ?an\<rparr>)"
    proof (rule ns_inv_announcements [OF i1])
      show "distinct (map fst ?an)" using inv by (simp add: keys_update_params ns_inv_def)
      show "c' \<notin> nd_closed ?d1 \<and> announces c' ns (es @ [?e])" if "map_of ?an ns = Some (c', m')" for ns c' m'
      proof -
        from that obtain m0 where "map_of (nd_announcements d) ns = Some (c', m0)" by (auto simp: map_of_update_params)
        then show ?thesis using ns_inv_owner [OF inv] by (simp add: announces_append)
      qed
    qed
    have "nd_outbound d = (\<lambda>_. Map.empty)" using inv by (simp add: ns_inv_def)
    with m i2 RT_PublishNamespace ns_inv_put [OF i2 u, of "[ok_message]"] show ?thesis
      by (simp add: handle_follow_up_def update_publish_namespace_def Let_def forward_update_none)
  next
    case RT_PrefixSubscription
    then obtain p k where tgt: "target_subscription (nd_inbound d c r) = Some (p, k)"
      by (auto simp: determine_route_def split: option.splits pending_request.splits)
    have free: "find_overlapping_namespace_subscription c q k (Some p) (nd_subscribers d) = None"
      if "Option.bind (requested_prefix ps) (\<lambda>p'. prefix_move_rejection c p p' k (nd_subscribers d)) = None" "requested_prefix ps = Some q" for q
      using that by (auto simp: prefix_move_rejection_def split: option.splits if_splits)
    show ?thesis
    proof (cases "Option.bind (requested_prefix ps) (\<lambda>p'. prefix_move_rejection c p p' k (nd_subscribers d))")
      case (Some err)
      with RT_PrefixSubscription tgt ns_inv_put [OF inv' u] show ?thesis by (simp add: handle_follow_up_def update_prefix_subscription_def)
    next
      case None
      have i1: "ns_inv (es @ [?e]) (apply_subscription_update c r p (requested_prefix ps) k ps d)"
        by (rule ns_inv_apply_update [OF inv' u c tgt]) (rule free [OF None])
      show ?thesis using None RT_PrefixSubscription tgt ns_inv_put [OF inv' u] ns_inv_put [OF i1 u]
        by (cases "update_filters_rejection cfg k (nd_inbound d c r) ps") (simp_all add: handle_follow_up_def update_prefix_subscription_def)
    qed
  qed (use inv' ns_inv_put [OF inv' u] in \<open>simp_all add: handle_follow_up_def\<close>)
qed

text \<open>Ends.\<close>

lemma remove_announcement_owner:
  "remove_announcement n c an = (b, an') \<Longrightarrow> map_of an' ns = Some (c', m) \<Longrightarrow> map_of an ns = Some (c', m)"
  "remove_announcement n c an = (b, an') \<Longrightarrow> distinct (map fst an) \<Longrightarrow> distinct (map fst an')"
  by (auto simp: remove_announcement_def split: option.splits if_splits prod.splits)

lemma ns_inv_handle_end:
  assumes inv: "ns_inv es d" and s: "nd_served d (c, r) \<noteq> None"
  shows "ns_inv (es @ [NE_StreamEnd c r]) (ns_step cfg (NE_StreamEnd c r) d)"
proof -
  let ?e = "NE_StreamEnd c r"
  note inv' = ns_inv_mono [OF inv, of ?e]
  have u: "(c, r) \<in> used (es @ [?e])" using inv s unfolding ns_inv_def by simp
  have "ns_inv (es @ [?e]) (cancel_request (nd_served d (c, r)) c r d)"
  proof (cases "nd_served d (c, r) = Some RSK_PublishNamespace")
    case pub: True
    then have none: "target_subscription (nd_inbound d c r) = None" using inv by (simp add: ns_inv_def)
    have i1: "ns_inv (es @ [?e]) (store_request c r None d)" by (rule ns_inv_store [OF inv' u]) (simp add: none)
    show ?thesis
    proof (cases "\<exists>m. nd_inbound d c r = Some (PR_PublishNamespace m)")
      case False
      then have "cancel_publish_namespace c r d = store_request c r None d"
        by (auto simp: cancel_publish_namespace_def Let_def split: option.splits pending_request.splits)
      with i1 pub show ?thesis by (simp add: cancel_request_def)
    next
      case True
      then obtain m where m: "nd_inbound d c r = Some (PR_PublishNamespace m)" by blast
      define d2 where "d2 = (store_request c r None d)\<lparr>nd_announced := (nd_announced d)(c := filter (\<lambda>n. n \<noteq> pns_track_namespace m) (nd_announced d c))\<rparr>"
      have i2: "ns_inv (es @ [?e]) d2" using i1 by (simp add: d2_def ns_inv_def)
      obtain b an where an: "remove_announcement (pns_track_namespace m) c (nd_announcements d) = (b, an)" by fastforce
      have i3: "ns_inv (es @ [?e]) (d2\<lparr>nd_announcements := an\<rparr>)"
      proof (rule ns_inv_announcements [OF i2])
        show "distinct (map fst an)" using remove_announcement_owner(2) [OF an] inv by (simp add: ns_inv_def)
        show "c' \<notin> nd_closed d2 \<and> announces c' ns (es @ [?e])" if "map_of an ns = Some (c', m')" for ns c' m'
          using ns_inv_owner [OF inv remove_announcement_owner(1) [OF an that]] by (simp add: d2_def announces_append)
      qed
      have "cancel_publish_namespace c r d = (if b then announce_to_namespace_subscribers (pns_track_namespace m) c namespace_done_of
          (d2\<lparr>nd_announcements := an\<rparr>) else d2)"
        using m an by (cases b) (simp_all add: cancel_publish_namespace_def Let_def d2_def store_request_def)
      with pub i2 ns_inv_announce [OF i3] show ?thesis by (simp add: cancel_request_def)
    qed
  next
    case np: False
    show ?thesis
    proof (cases "target_subscription (nd_inbound d c r)")
      case None
      have "ns_inv (es @ [?e]) (store_request c r None d)" by (rule ns_inv_store [OF inv' u]) (simp add: None)
      then show ?thesis using np inv' None by (auto simp: cancel_request_def cancel_prefix_subscription_def Let_def split: option.splits request_stream_kind.splits)
    next
      case (Some pk)
      obtain p k where pk: "pk = (p, k)" by fastforce
      have ok: "registry_ok (nd_closed d) (nd_inbound d) (nd_subscribers d)" using inv by (simp add: ns_inv_def)
      have "ns_inv (es @ [?e]) (store_request c r None (d\<lparr>nd_subscribers := remove_namespace_subscriber_by_prefix p c k (nd_subscribers d)\<rparr>))"
        by (rule ns_inv_subscribers [OF inv' u np registry_cancel [OF ok Some [unfolded pk]]])
      then have "ns_inv (es @ [?e]) (cancel_prefix_subscription c r d)" using Some pk by (simp add: cancel_prefix_subscription_def Let_def store_commute)
      then show ?thesis using np inv' by (auto simp: cancel_request_def split: option.splits request_stream_kind.splits)
    qed
  qed
  from ns_inv_serve [OF this u, of None] show ?thesis by simp
qed

lemma ns_inv_handle_close:
  assumes inv: "ns_inv es d"
  shows "ns_inv (es @ [NE_ConnectionEnd c]) (ns_step cfg (NE_ConnectionEnd c) d)"
proof -
  let ?an = "filter (\<lambda>(_, c', _). c' \<noteq> c) (nd_announcements d)"
  note inv' = ns_inv_mono [OF inv, of "NE_ConnectionEnd c"]
  have keys: "distinct (map fst (nd_announcements d))" using inv by (simp add: ns_inv_def)
  have own: "map_of (nd_announcements d) ns = Some (c', m) \<and> c' \<noteq> c" if "map_of ?an ns = Some (c', m)" for ns c' m
    using map_of_SomeD [OF that] map_of_keyed [OF keys] by auto
  have i1: "ns_inv (es @ [NE_ConnectionEnd c]) (d\<lparr>nd_announcements := ?an\<rparr>)"
  proof (rule ns_inv_announcements [OF inv'])
    show "distinct (map fst ?an)" using keys by (rule distinct_map_filter)
    show "c' \<notin> nd_closed d \<and> announces c' ns (es @ [NE_ConnectionEnd c])" if "map_of ?an ns = Some (c', m)" for ns c' m
      using ns_inv_owner [OF inv'] own [OF that] by blast
  qed
  define d1 where "d1 = fold (\<lambda>ns. announce_to_namespace_subscribers ns c namespace_done_of)
      (map fst (filter (\<lambda>(_, c', _). c' = c) (nd_announcements d))) (d\<lparr>nd_announcements := ?an\<rparr>)"
  have i2: "ns_inv (es @ [NE_ConnectionEnd c]) d1" unfolding d1_def by (rule ns_inv_fold_announce [OF i1])
  have an1: "nd_announcements d1 = ?an" by (simp add: d1_def fold_announce_rest)
  have "registry_ok (insert c (nd_closed d1)) (nd_inbound d1) (remove_namespace_subscriber c (nd_subscribers d1))"
    using i2 by (intro registry_disconnect) (simp add: ns_inv_def)
  moreover have "\<forall>ns c' m. map_of (nd_announcements d1) ns = Some (c', m) \<longrightarrow> c' \<notin> insert c (nd_closed d1) \<and> announces c' ns (es @ [NE_ConnectionEnd c])"
    using own ns_inv_owner [OF i2] unfolding an1 by blast
  ultimately have "ns_inv (es @ [NE_ConnectionEnd c])
      (d1\<lparr>nd_subscribers := remove_namespace_subscriber c (nd_subscribers d1), nd_closed := insert c (nd_closed d1)\<rparr>)"
    using i2 unfolding ns_inv_def by simp
  then show ?thesis by (simp add: handle_connection_close_def remove_announcements_by_connection_def d1_def Let_def)
qed

lemma ns_inv_run: "ns_run cfg es d \<Longrightarrow> ns_inv es d"
proof (induction rule: ns_run.induct)
  case nr_start
  show ?case by (simp add: ns_inv_def namespace_state_new_def registry_ok_def registry_inv_def entry_ok_def used_def)
next
  case (nr_step es d e)
  then show ?case
    by (cases e) (auto simp del: ns_step.simps intro: ns_inv_handle_announce ns_inv_handle_subscribe_namespace ns_inv_handle_subscribe_tracks
        ns_inv_handle_update ns_inv_handle_end ns_inv_handle_close)
qed

subsection \<open>Prefix subscriptions\<close>

lemma registered_iff:
  assumes "registry_ok gone inb subs"
  shows "registered (map_of subs) c r p k \<longleftrightarrow> c \<notin> gone \<and> target_subscription (inb c r) = Some (p, k)"
proof
  have inv: "registry_inv gone inb (map_of subs)" using assms by (simp add: registry_ok_def)
  show "registered (map_of subs) c r p k" if "c \<notin> gone \<and> target_subscription (inb c r) = Some (p, k)" using that inv by (simp add: registry_inv_def)
  show "c \<notin> gone \<and> target_subscription (inb c r) = Some (p, k)" if "registered (map_of subs) c r p k"
  proof -
    from that obtain ss s where s: "map_of subs p = Some ss" "s \<in> set ss" "held_by c k s" "nss_channel s = (c, r)" by (auto simp: registered_def)
    obtain x where "nss_client s \<notin> gone" "nss_channel s = (nss_client s, x)" "target_subscription (inb (nss_client s) x) = Some (p, nss_kind s)"
      by (rule registry_entry [OF inv s(1,2)])
    with s(3,4) show ?thesis by simp
  qed
qed


abbreviation sample_prefix :: subscribe_namespace_msg where
  "sample_prefix \<equiv> \<lparr>sns_request_id = 0, sns_track_namespace_prefix = [[0x61]], sns_parameters = []\<rparr>"

abbreviation sample_config :: ns_config where
  "sample_config \<equiv> \<lparr>nc_max_filter_ranges = 8, nc_max_publish_streams = 0\<rparr>"

abbreviation sample_start :: namespace_state where
  "sample_start \<equiv> ns_step sample_config (NE_SubscribeNamespace 2 sample_prefix [] True) namespace_state_new"

lemma sample_started:
  "nd_inbound sample_start = (\<lambda>_. Map.empty)(2 := [0 \<mapsto> PR_SubscribeNamespace sample_prefix])" "nd_closed sample_start = {}"
  "nd_served sample_start (2, 0) = Some RSK_PrefixSubscription" "nd_announcements sample_start = []"
  "nd_subscribers sample_start = [([[0x61]], [\<lparr>nss_client = 2, nss_kind = SK_Namespace, nss_parameters = [], nss_channel = (2, 0)\<rparr>])]"
  by (simp_all add: handle_subscribe_namespace_def oversized_namespace_error_def find_overlapping_namespace_subscription_def Let_def
      namespace_state_new_def send_namespace_catchup_def add_namespace_subscriber_def put_entry_def fun_eq_iff)

lemma sample_run_started: "ns_run sample_config ([] @ [NE_SubscribeNamespace 2 sample_prefix [] True]) sample_start"
  by (intro nr_step nr_start) (simp add: namespace_state_new_def used_def)


end
