(* ===== verification/Discovery.thy ===== *)
theory Discovery
  imports Namespace_Registry
begin

text \<open>
  Discovery along any history of requests: what a subscriber to a prefix has heard on its request stream is what is announced under
  that prefix.
\<close>

subsection \<open>What a subscriber hears\<close>

definition moved :: "nat \<Rightarrow> u64 \<Rightarrow> ns_event list \<Rightarrow> bool" where
  "moved c r es \<longleftrightarrow> (\<exists>ps. NE_Update c r ps \<in> set es \<and> requested_prefix ps \<noteq> None)"

text \<open>The namespaces a subscriber to \<open>p\<close> knows of.\<close>

fun learn :: "tuple \<Rightarrow> control_message \<Rightarrow> tuple set \<Rightarrow> tuple set" where
  "learn p (CM_Namespace m) N = insert (p @ nsp_track_namespace_suffix m) N"
| "learn p (CM_NamespaceDone m) N = N - {p @ nsd_track_namespace_suffix m}"
| "learn p _ N = N"

definition heard_of :: "tuple \<Rightarrow> control_message list \<Rightarrow> tuple set" where
  "heard_of p msgs = fold (learn p) msgs {}"

subsection \<open>What a subscriber knows\<close>

definition knows :: "ns_event list \<Rightarrow> namespace_state \<Rightarrow> nat \<Rightarrow> u64 \<Rightarrow> tuple \<Rightarrow> full_track_name list \<Rightarrow> bool" where
  "knows es d c r p published \<longleftrightarrow> (\<forall>ns. tuple_starts_with ns p \<and> ns \<notin> ftn_namespace ` set published \<and> \<not> announces c ns es \<longrightarrow>
     (ns \<in> heard_of p (nd_streams d (c, r)) \<longleftrightarrow> map_of (nd_announcements d) ns \<noteq> None))"

lemma heard_append: "heard_of p (msgs @ msgs') = fold (learn p) msgs' (heard_of p msgs)"
  by (simp add: heard_of_def)

lemma learn_quiet [simp]: "learn p ok_message N = N" "learn p (error_message code reason) N = N" "learn p (invalid_filter e) N = N"
  by (simp_all add: error_message_def invalid_filter_def)

lemma starts_with_drop: "tuple_starts_with ns p \<Longrightarrow> p @ drop (length p) ns = ns"
  by (auto simp: tuple_starts_with_iff)

text \<open>The catch-up names what is announced and what is published under the prefix.\<close>

lemma learn_catchup:
  "fold (learn p) (catchup_messages p seen nss) N = N \<union> {ns \<in> set nss. ns \<notin> seen \<and> tuple_starts_with ns p}"
proof (induction p seen nss arbitrary: N rule: catchup_messages.induct)
  case (2 p seen ns nss)
  show ?case
  proof (cases "ns \<in> seen")
    case True
    then show ?thesis using 2(1) by auto
  next
    case False
    show ?thesis using False 2(2) [OF False] starts_with_drop [of ns p] by (cases "tuple_starts_with ns p") (auto simp: tuple_suffix_def)
  qed
qed auto

lemma knows_quiet:
  assumes "knows es d c r p published" "nd_streams d' (c, r) = nd_streams d (c, r) @ msgs" "\<And>N. fold (learn p) msgs N = N"
    and "\<And>ns. map_of (nd_announcements d') ns = None \<longleftrightarrow> map_of (nd_announcements d) ns = None"
  shows "knows (es @ [e]) d' c r p published"
  unfolding knows_def assms(2) heard_append assms(3)
proof (intro allI impI)
  fix ns
  assume ns: "tuple_starts_with ns p \<and> ns \<notin> ftn_namespace ` set published \<and> \<not> announces c ns (es @ [e])"
  then have "\<not> announces c ns es" by (simp add: announces_append)
  with ns assms(1) show "ns \<in> heard_of p (nd_streams d (c, r)) \<longleftrightarrow> map_of (nd_announcements d') ns \<noteq> None"
    unfolding knows_def using assms(4) [of ns] by simp
qed

text \<open>An announcement, and withdrawals.\<close>

lemma knows_announced:
  assumes k: "knows es d c r p published" and reg: "registry_ok gone inb subs" "c \<notin> gone" "target_subscription (inb c r) = Some (p, SK_Namespace)"
    and streams: "nd_streams d' (c, r) = nd_streams d (c, r) @ told_on (pns_track_namespace m) a namespace_of (c, r) subs"
    and an: "nd_announcements d' = add_announcement (pns_track_namespace m) a m (nd_announcements d)"
  shows "knows (es @ [NE_Announce a m]) d' c r p published"
  unfolding knows_def
proof (intro allI impI)
  let ?n = "pns_track_namespace m"
  fix ns
  assume ns: "tuple_starts_with ns p \<and> ns \<notin> ftn_namespace ` set published \<and> \<not> announces c ns (es @ [NE_Announce a m])"
  then have old: "ns \<in> heard_of p (nd_streams d (c, r)) \<longleftrightarrow> map_of (nd_announcements d) ns \<noteq> None" and own: "a = c \<Longrightarrow> ns \<noteq> ?n"
    using k by (auto simp: knows_def announces_append)
  have "heard_of p (nd_streams d' (c, r)) = (if c \<noteq> a \<and> tuple_starts_with ?n p then insert ?n (heard_of p (nd_streams d (c, r))) else heard_of p (nd_streams d (c, r)))"
    unfolding streams heard_append told_on_subscriber [OF reg] using starts_with_drop [of ?n p] by auto
  then show "ns \<in> heard_of p (nd_streams d' (c, r)) \<longleftrightarrow> map_of (nd_announcements d') ns \<noteq> None"
    using old own ns unfolding an add_announcement_def map_of_put by (cases "ns = ?n") (auto split: if_splits)
qed

lemma knows_withdrawn:
  assumes k: "knows es d c r p published" and reg: "registry_ok gone inb subs" "c \<notin> gone" "target_subscription (inb c r) = Some (p, SK_Namespace)"
    and streams: "nd_streams d' (c, r) = nd_streams d (c, r) @ concat (map (\<lambda>ns. told_on ns a namespace_done_of (c, r) subs) nss)"
    and an: "\<And>ns. map_of (nd_announcements d') ns = None \<longleftrightarrow> map_of (nd_announcements d) ns = None \<or> ns \<in> set nss"
    and own: "\<And>ns. ns \<in> set nss \<Longrightarrow> announces a ns es"
  shows "knows (es @ [e]) d' c r p published"
  unfolding knows_def
proof (intro allI impI)
  fix ns
  assume ns: "tuple_starts_with ns p \<and> ns \<notin> ftn_namespace ` set published \<and> \<not> announces c ns (es @ [e])"
  then have old: "ns \<in> heard_of p (nd_streams d (c, r)) \<longleftrightarrow> map_of (nd_announcements d) ns \<noteq> None" and no: "\<not> announces c ns es"
    using k by (auto simp: knows_def announces_append)
  have "fold (learn p) (concat (map (\<lambda>ns. told_on ns a namespace_done_of (c, r) subs) nss)) N = (if c = a then N else N - {n \<in> set nss. tuple_starts_with n p})" for N
    using starts_with_drop [of _ p] by (induction nss arbitrary: N) (auto simp: told_on_subscriber [OF reg])
  then have "ns \<in> heard_of p (nd_streams d' (c, r)) \<longleftrightarrow> ns \<in> heard_of p (nd_streams d (c, r)) \<and> (c = a \<or> ns \<notin> set nss)"
    unfolding streams heard_append using ns by auto
  then show "ns \<in> heard_of p (nd_streams d' (c, r)) \<longleftrightarrow> map_of (nd_announcements d') ns \<noteq> None"
    using old an [of ns] own [of ns] no by auto
qed

subsection \<open>Steps of the relay\<close>

definition follows :: "namespace_state \<Rightarrow> nat \<Rightarrow> u64 \<Rightarrow> tuple \<Rightarrow> bool" where
  "follows d c r p \<longleftrightarrow> c \<notin> nd_closed d \<and> target_subscription (nd_inbound d c r) = Some (p, SK_Namespace)"

text \<open>What a step keeps of a subscriber: it still follows its prefix, and knows what it has to.\<close>

definition keeps :: "ns_event list \<Rightarrow> ns_event \<Rightarrow> namespace_state \<Rightarrow> namespace_state \<Rightarrow> nat \<Rightarrow> u64 \<Rightarrow> tuple \<Rightarrow> bool" where
  "keeps es e d d' c r p \<longleftrightarrow> follows d c r p \<and> (\<forall>published. knows es d c r p published \<longrightarrow> knows (es @ [e]) d' c r p published)"

lemma keeps_quiet:
  assumes "follows d' c r p" "nd_closed d' = nd_closed d" "target_subscription (nd_inbound d' c r) = target_subscription (nd_inbound d c r)"
    "nd_streams d' (c, r) = nd_streams d (c, r) @ msgs" "\<And>N. fold (learn p) msgs N = N"
    "\<And>ns. map_of (nd_announcements d') ns = None \<longleftrightarrow> map_of (nd_announcements d) ns = None"
  shows "keeps es e d d' c r p"
  using assms(1-3) knows_quiet [OF _ assms(4,5,6)] unfolding keeps_def follows_def by auto

lemma registry_of: "ns_inv es d \<Longrightarrow> registry_ok (nd_closed d) (nd_inbound d) (nd_subscribers d)"
  by (simp add: ns_inv_def)

lemma keeps_announce:
  assumes inv: "ns_inv es d" and other: "(c, r) \<noteq> (a, pns_request_id m)" and f: "follows (ns_step cfg (NE_Announce a m) d) c r p"
  shows "keeps es (NE_Announce a m) d (ns_step cfg (NE_Announce a m) d) c r p"
proof (cases "is_reserved_dot (pns_track_namespace m) \<or> is_session_namespace (pns_track_namespace m)")
  case True
  show ?thesis by (rule keeps_quiet [OF f, of _ "[]"]) (use True other in \<open>auto simp: handle_publish_namespace_def\<close>)
next
  case False
  let ?d' = "ns_step cfg (NE_Announce a m) d"
  have facts: "nd_closed ?d' = nd_closed d" "nd_inbound ?d' c r = nd_inbound d c r"
    "nd_streams ?d' (c, r) = nd_streams d (c, r) @ told_on (pns_track_namespace m) a namespace_of (c, r) (nd_subscribers d)"
    "nd_announcements ?d' = add_announcement (pns_track_namespace m) a m (nd_announcements d)"
    using False other by (auto simp: handle_publish_namespace_def Let_def announce_streams)
  have fd: "follows d c r p" using f facts(1,2) by (simp add: follows_def)
  then have "c \<notin> nd_closed d" "target_subscription (nd_inbound d c r) = Some (p, SK_Namespace)" by (simp_all add: follows_def)
  with fd knows_announced [OF _ registry_of [OF inv] _ _ facts(3,4)] show ?thesis by (auto simp: keeps_def)
qed

lemma keeps_subscribe:
  assumes "(c, r) \<noteq> (a, sns_request_id m)" "follows (ns_step cfg (NE_SubscribeNamespace a m names takes) d) c r p"
  shows "keeps es (NE_SubscribeNamespace a m names takes) d (ns_step cfg (NE_SubscribeNamespace a m names takes) d) c r p"
  by (rule keeps_quiet [OF assms(2), of _ "[]"])
    (use assms(1) in \<open>auto simp: handle_subscribe_namespace_def send_namespace_catchup_def Let_def split: option.splits\<close>)

lemma keeps_subscribe_tracks:
  assumes "(c, r) \<noteq> (a, str_request_id m)" "follows (ns_step cfg (NE_SubscribeTracks a m names takes has_it push) d) c r p"
  shows "keeps es (NE_SubscribeTracks a m names takes has_it push) d (ns_step cfg (NE_SubscribeTracks a m names takes has_it push) d) c r p"
  by (rule keeps_quiet [OF assms(2), of _ "[]"])
    (use assms(1) in \<open>auto simp: handle_subscribe_tracks_def Let_def split: option.splits sum.splits\<close>)

text \<open>An update puts an answer on its own stream and keeps what is announced.\<close>

lemma update_answer:
  assumes inv: "ns_inv es d" and d'_def: "d' = ns_step cfg (NE_Update a x ps) d"
  shows "\<exists>msgs. (\<forall>p N. fold (learn p) msgs N = N) \<and> nd_streams d' = (nd_streams d)((a, x) := nd_streams d (a, x) @ msgs)"
    and "nd_closed d' = nd_closed d" and "map_of (nd_announcements d') ns = None \<longleftrightarrow> map_of (nd_announcements d) ns = None"
    and "(c, r) \<noteq> (a, x) \<or> requested_prefix ps = None \<Longrightarrow> target_subscription (nd_inbound d' c r) = target_subscription (nd_inbound d c r)"
proof -
  have out: "nd_outbound d = (\<lambda>_. Map.empty)" using inv by (simp add: ns_inv_def)
  consider (pub) m where "nd_inbound d a x = Some (PR_PublishNamespace m)"
      "d' = put_on (a, x) [ok_message] ((store_request a x (Some (PR_PublishNamespace (m\<lparr>pns_parameters := apply_message_parameter_update (pns_parameters m) ps\<rparr>))) d)
        \<lparr>nd_announcements := update_namespace_parameters (pns_track_namespace m) ps (nd_announcements d)\<rparr>)"
    | (upd) q k where "target_subscription (nd_inbound d a x) = Some (q, k)"
      "d' = put_on (a, x) [ok_message] (apply_subscription_update a x q (requested_prefix ps) k ps d)"
    | (quiet) msgs where "\<forall>p N. fold (learn p) msgs N = N" "d' = put_on (a, x) msgs d"
  proof (cases "determine_route (nd_inbound d a x)")
    case RT_PublishNamespace
    then obtain m where "nd_inbound d a x = Some (PR_PublishNamespace m)"
      by (auto simp: determine_route_def split: option.splits pending_request.splits)
    with RT_PublishNamespace out pub show ?thesis
      by (simp add: d'_def handle_follow_up_def update_publish_namespace_def Let_def forward_update_none)
  next
    case RT_PrefixSubscription
    then obtain q k where tgt: "target_subscription (nd_inbound d a x) = Some (q, k)"
      by (auto simp: determine_route_def split: option.splits pending_request.splits)
    have err: "learn p err N = N" if "Option.bind (requested_prefix ps) (\<lambda>p'. prefix_move_rejection a q p' k (nd_subscribers d)) = Some err" for err p N
      using that by (auto simp: prefix_move_rejection_def oversized_namespace_error_def bind_eq_Some_conv split: option.splits if_splits)
    show ?thesis
    proof (cases "Option.bind (requested_prefix ps) (\<lambda>p'. prefix_move_rejection a q p' k (nd_subscribers d))")
      case (Some e)
      with tgt RT_PrefixSubscription show ?thesis
        by (intro quiet [of "[e]"]) (simp_all add: d'_def handle_follow_up_def update_prefix_subscription_def err)
    next
      case None
      show ?thesis
      proof (cases "update_filters_rejection cfg k (nd_inbound d a x) ps")
        case N: None
        with tgt RT_PrefixSubscription None show ?thesis
          by (intro upd [of q k]) (simp_all add: d'_def handle_follow_up_def update_prefix_subscription_def)
      next
        case (Some e)
        with tgt RT_PrefixSubscription None show ?thesis
          by (intro quiet [of "[invalid_filter e]"]) (simp_all add: d'_def handle_follow_up_def update_prefix_subscription_def)
      qed
    qed
  next
    case RT_NotFound
    then show ?thesis by (intro quiet [of "[error_message REC_NotSupported ''request does not support REQUEST_UPDATE'']"])
      (simp_all add: d'_def handle_follow_up_def)
  qed (intro quiet [of "[]"]; simp add: d'_def handle_follow_up_def put_on_def)+
  note how = this
  have app: "nd_streams (apply_subscription_update a x q new k ps d) = nd_streams d" "nd_closed (apply_subscription_update a x q new k ps d) = nd_closed d"
    "nd_announcements (apply_subscription_update a x q new k ps d) = nd_announcements d"
    "nd_inbound (apply_subscription_update a x q new k ps d) = (nd_inbound d)(a := (nd_inbound d a)(x := updated_request ps new (nd_inbound d a x)))" for q new k
    by (cases new; simp add: apply_subscription_update_def Let_def)+
  show "\<exists>msgs. (\<forall>p N. fold (learn p) msgs N = N) \<and> nd_streams d' = (nd_streams d)((a, x) := nd_streams d (a, x) @ msgs)"
    by (cases rule: how) (auto simp: app intro: exI [of _ "[ok_message]"])
  show "nd_closed d' = nd_closed d" by (cases rule: how) (simp_all add: app)
  show "map_of (nd_announcements d') ns = None \<longleftrightarrow> map_of (nd_announcements d) ns = None"
    by (cases rule: how) (simp_all add: app map_of_update_params)
  show "target_subscription (nd_inbound d' c r) = target_subscription (nd_inbound d c r)" if "(c, r) \<noteq> (a, x) \<or> requested_prefix ps = None"
    by (cases rule: how) (use that target_updated [of "nd_inbound d a x"] in \<open>auto simp: app\<close>)
qed

lemma keeps_update:
  assumes inv: "ns_inv es d" and stay: "(c, r) = (a, x) \<Longrightarrow> requested_prefix ps = None" and f: "follows (ns_step cfg (NE_Update a x ps) d) c r p"
  shows "keeps es (NE_Update a x ps) d (ns_step cfg (NE_Update a x ps) d) c r p"
proof -
  from update_answer(1) [OF inv refl, of cfg a x ps] obtain msgs where msgs: "\<forall>p N. fold (learn p) msgs N = N"
    "nd_streams (ns_step cfg (NE_Update a x ps) d) = (nd_streams d)((a, x) := nd_streams d (a, x) @ msgs)" by blast
  show ?thesis
    by (rule keeps_quiet [OF f update_answer(2) [OF inv refl] update_answer(4) [OF inv refl], of "if (c, r) = (a, x) then msgs else []"])
      (use stay msgs update_answer(3) [OF inv refl] in \<open>auto simp del: ns_step.simps\<close>)
qed

text \<open>The end of a request stream, and of a connection.\<close>

lemma announced_by:
  "ns_inv es d \<Longrightarrow> n \<in> set (map fst (filter (\<lambda>(_, c', _). c' = a) (nd_announcements d))) \<Longrightarrow> announces a n es"
proof -
  assume inv: "ns_inv es d" and "n \<in> set (map fst (filter (\<lambda>(_, c', _). c' = a) (nd_announcements d)))"
  then obtain m where "(n, a, m) \<in> set (nd_announcements d)" by auto
  moreover have keys: "distinct (map fst (nd_announcements d))" using inv by (simp add: ns_inv_def)
  ultimately have "map_of (nd_announcements d) n = Some (a, m)" by (simp only: map_of_keyed [OF keys])
  with ns_inv_owner [OF inv] show ?thesis by blast
qed

lemma keeps_cancel_publish:
  assumes inv: "ns_inv es d" and f: "follows (cancel_publish_namespace a x d) c r p"
  shows "keeps es e d (cancel_publish_namespace a x d) c r p"
proof (cases "\<exists>m an. nd_inbound d a x = Some (PR_PublishNamespace m) \<and> remove_announcement (pns_track_namespace m) a (nd_announcements d) = (True, an)")
  case False
  let ?d' = "cancel_publish_namespace a x d"
  have "nd_streams ?d' = nd_streams d" "nd_closed ?d' = nd_closed d" "nd_announcements ?d' = nd_announcements d"
    "nd_inbound ?d' = (nd_inbound d)(a := (nd_inbound d a)(x := None))"
    using False by (auto simp: cancel_publish_namespace_def Let_def split: option.splits pending_request.splits prod.splits bool.splits)
  with f show ?thesis by (intro keeps_quiet [OF f, of _ "[]"]) (auto simp: follows_def split: if_splits)
next
  case True
  then obtain m an where m: "nd_inbound d a x = Some (PR_PublishNamespace m)"
    and an: "remove_announcement (pns_track_namespace m) a (nd_announcements d) = (True, an)" by blast
  let ?d' = "cancel_publish_namespace a x d" and ?n = "pns_track_namespace m"
  have facts: "nd_streams ?d' (c, r) = nd_streams d (c, r) @ concat (map (\<lambda>ns. told_on ns a namespace_done_of (c, r) (nd_subscribers d)) [?n])"
    "nd_closed ?d' = nd_closed d" "nd_announcements ?d' = an" "nd_inbound ?d' = (nd_inbound d)(a := (nd_inbound d a)(x := None))"
    using m an by (simp_all add: cancel_publish_namespace_def Let_def announce_streams)
  have fd: "follows d c r p" using f facts(2,4) by (auto simp: follows_def split: if_splits)
  obtain m' where m': "map_of (nd_announcements d) ?n = Some (a, m')" "an = drop_entry ?n (nd_announcements d)"
    using an by (auto simp: remove_announcement_def split: option.splits if_splits)
  have "knows (es @ [e]) ?d' c r p published" if "knows es d c r p published" for published
  proof (rule knows_withdrawn [OF that registry_of [OF inv] _ _ facts(1)])
    show "announces a ns es" if "ns \<in> set [?n]" for ns using that ns_inv_owner [OF inv m'(1)] by simp
  qed (use fd m'(2) facts(3) in \<open>auto simp: follows_def\<close>)
  with fd show ?thesis by (simp add: keeps_def)
qed

lemma keeps_serve: "keeps es e d (serve a x k d') c r p = keeps es e d d' c r p"
  by (simp add: keeps_def knows_def)

lemma keeps_end:
  assumes inv: "ns_inv es d" and f: "follows (ns_step cfg (NE_StreamEnd a x) d) c r p"
  shows "keeps es (NE_StreamEnd a x) d (ns_step cfg (NE_StreamEnd a x) d) c r p"
proof (cases "nd_served d (a, x) = Some RSK_PublishNamespace")
  case True
  have "follows (cancel_publish_namespace a x d) c r p" using f True by (simp add: cancel_request_def follows_def)
  from keeps_cancel_publish [OF inv this, of "NE_StreamEnd a x"] True show ?thesis by (simp add: keeps_serve cancel_request_def)
next
  case False
  let ?d' = "ns_step cfg (NE_StreamEnd a x) d"
  have "nd_streams ?d' = nd_streams d" "nd_closed ?d' = nd_closed d" "nd_announcements ?d' = nd_announcements d"
    "nd_inbound ?d' = nd_inbound d \<or> nd_inbound ?d' = (nd_inbound d)(a := (nd_inbound d a)(x := None))"
    using False by (auto simp: cancel_request_def cancel_prefix_subscription_def Let_def split: option.splits request_stream_kind.splits)
  with f show ?thesis by (intro keeps_quiet [OF f, of _ "[]"]) (auto simp: follows_def split: if_splits)
qed

lemma keeps_close:
  assumes inv: "ns_inv es d" and f: "follows (ns_step cfg (NE_ConnectionEnd a) d) c r p"
  shows "keeps es (NE_ConnectionEnd a) d (ns_step cfg (NE_ConnectionEnd a) d) c r p"
proof -
  let ?d' = "ns_step cfg (NE_ConnectionEnd a) d" and ?nss = "map fst (filter (\<lambda>(_, c', _). c' = a) (nd_announcements d))"
  have facts: "nd_closed ?d' = insert a (nd_closed d)" "nd_inbound ?d' = nd_inbound d"
    "nd_announcements ?d' = filter (\<lambda>(_, c', _). c' \<noteq> a) (nd_announcements d)"
    "nd_streams ?d' (c, r) = nd_streams d (c, r) @ concat (map (\<lambda>ns. told_on ns a namespace_done_of (c, r) (nd_subscribers d)) ?nss)"
    by (simp_all add: handle_connection_close_def remove_announcements_by_connection_def Let_def fold_announce_rest)
  have fd: "follows d c r p" using f facts(1,2) by (simp add: follows_def)
  have keys: "distinct (map fst (nd_announcements d))" using inv by (simp add: ns_inv_def)
  have gone: "map_of (nd_announcements ?d') ns = None \<longleftrightarrow> map_of (nd_announcements d) ns = None \<or> ns \<in> set ?nss" for ns
  proof -
    have "map_of (nd_announcements ?d') ns = None \<longleftrightarrow> (\<forall>c' m. (ns, c', m) \<in> set (nd_announcements d) \<longrightarrow> c' = a)"
      unfolding facts(3) by (force simp: map_of_eq_None_iff)
    also have "\<dots> \<longleftrightarrow> (\<forall>c' m. map_of (nd_announcements d) ns = Some (c', m) \<longrightarrow> c' = a)" by (simp only: map_of_keyed [OF keys])
    finally have none: "map_of (nd_announcements ?d') ns = None \<longleftrightarrow> (\<forall>c' m. map_of (nd_announcements d) ns = Some (c', m) \<longrightarrow> c' = a)" .
    have "ns \<in> set ?nss \<longleftrightarrow> (\<exists>m. (ns, a, m) \<in> set (nd_announcements d))" by force
    also have "\<dots> \<longleftrightarrow> (\<exists>m. map_of (nd_announcements d) ns = Some (a, m))" by (simp only: map_of_keyed [OF keys])
    finally show ?thesis using none by (cases "map_of (nd_announcements d) ns") auto
  qed
  have "knows (es @ [NE_ConnectionEnd a]) ?d' c r p published" if "knows es d c r p published" for published
    by (rule knows_withdrawn [OF that registry_of [OF inv] _ _ facts(4) gone announced_by [OF inv]]) (use fd in \<open>auto simp: follows_def\<close>)
  with fd show ?thesis by (simp add: keeps_def)
qed

subsection \<open>Histories\<close>

text \<open>A subscription as it is made.\<close>

lemma knows_subscribed:
  assumes inv: "ns_inv es d" and fresh: "(c, sns_request_id m) \<notin> used es"
    and f: "follows (ns_step cfg (NE_SubscribeNamespace c m published True) d) c (sns_request_id m) p"
  shows "p = sns_track_namespace_prefix m
     \<and> knows (es @ [NE_SubscribeNamespace c m published True]) (ns_step cfg (NE_SubscribeNamespace c m published True) d) c (sns_request_id m) p published"
proof -
  let ?d' = "ns_step cfg (NE_SubscribeNamespace c m published True) d" and ?r = "sns_request_id m" and ?p = "sns_track_namespace_prefix m"
  note none = ns_inv_fresh [OF inv fresh]
  have made: "oversized_namespace_error ?p = None \<and> find_overlapping_namespace_subscription c ?p SK_Namespace None (nd_subscribers d) = None"
    using f none by (auto simp: handle_subscribe_namespace_def Let_def follows_def split: option.splits)
  then have facts: "nd_announcements ?d' = nd_announcements d" "target_subscription (nd_inbound ?d' c ?r) = Some (?p, SK_Namespace)"
    "nd_streams ?d' (c, ?r) = ok_message # catchup_messages ?p {}
       (get_announcements_by_prefix ?p (nd_announcements d) @ map ftn_namespace (tracks_under ?p published))"
    using none by (simp_all add: handle_subscribe_namespace_def Let_def send_namespace_catchup_def)
  have p: "p = ?p" using f facts(2) by (simp add: follows_def)
  have "heard_of p (nd_streams ?d' (c, ?r)) =
      {ns \<in> set (get_announcements_by_prefix p (nd_announcements d)) \<union> ftn_namespace ` set (tracks_under p published). tuple_starts_with ns p}"
    unfolding facts(3) p by (simp add: heard_of_def learn_catchup)
  then show ?thesis using p
    by (auto simp: knows_def facts(1) get_announcements_by_prefix_def tracks_under_def map_of_eq_None_iff simp del: ns_step.simps)
qed

lemma keeps_step:
  assumes inv: "ns_inv es d" and poss: "possible es d e" and old: "(c, r) \<in> used es" and stay: "\<not> moved c r [e]" and f: "follows (ns_step cfg e d) c r p"
  shows "keeps es e d (ns_step cfg e d) c r p"
proof (cases e)
  case (NE_Announce a m)
  with poss old have "(c, r) \<noteq> (a, pns_request_id m)" by auto
  with NE_Announce f show ?thesis using keeps_announce [OF inv] by blast
next
  case (NE_SubscribeNamespace a m names takes)
  with poss old have "(c, r) \<noteq> (a, sns_request_id m)" by auto
  with NE_SubscribeNamespace f show ?thesis using keeps_subscribe by blast
next
  case (NE_SubscribeTracks a m names takes has_it push)
  with poss old have "(c, r) \<noteq> (a, str_request_id m)" by auto
  with NE_SubscribeTracks f show ?thesis using keeps_subscribe_tracks by blast
next
  case (NE_Update a x ps)
  with stay have "(c, r) = (a, x) \<Longrightarrow> requested_prefix ps = None" by (auto simp: moved_def)
  with NE_Update f show ?thesis using keeps_update [OF inv] by blast
qed (use f keeps_end [OF inv] keeps_close [OF inv] in blast)+

lemma moved_append: "moved c r (es @ [e]) \<longleftrightarrow> moved c r es \<or> moved c r [e]"
  by (auto simp: moved_def)

lemma knows_run:
  assumes "ns_run cfg es d" "NE_SubscribeNamespace c m published True \<in> set es" "\<not> moved c (sns_request_id m) es" "follows d c (sns_request_id m) p"
  shows "p = sns_track_namespace_prefix m \<and> knows es d c (sns_request_id m) p published"
  using assms
proof (induction arbitrary: p rule: ns_run.induct)
  case (nr_step es d e)
  note inv = ns_inv_run [OF nr_step.hyps(1)]
  show ?case
  proof (cases "NE_SubscribeNamespace c m published True \<in> set es")
    case True
    then have "(c, sns_request_id m) \<in> used es" by (force simp: used_def)
    with nr_step.prems(2,3) nr_step.hyps(2) have k: "keeps es e d (ns_step cfg e d) c (sns_request_id m) p"
      by (intro keeps_step [OF inv]) (simp_all add: moved_append)
    then show ?thesis using nr_step.IH [OF True] nr_step.prems(2) by (auto simp: keeps_def moved_append)
  next
    case False
    then have e: "e = NE_SubscribeNamespace c m published True" using nr_step.prems(1) by simp
    with nr_step.hyps(2) have "(c, sns_request_id m) \<notin> used es" by simp
    with nr_step.prems(3) show ?thesis unfolding e by (rule knows_subscribed [OF inv, rotated])
  qed
qed simp


abbreviation sample_announcement :: publish_namespace_msg where
  "sample_announcement \<equiv> \<lparr>pns_request_id = 0, pns_track_namespace = [[0x61], [0x62]], pns_parameters = []\<rparr>"

abbreviation sample_history :: "ns_event list" where
  "sample_history \<equiv> [NE_SubscribeNamespace 2 sample_prefix [] True, NE_Announce 3 sample_announcement]"


end
