(* ===== verification/Spec2Isabelle.thy ===== *)
theory Spec2Isabelle
  imports Pair Names Locations Wire_Enums Seen_Objects Unified_Object Data_Headers Stream_Id Track_Alias Track_Cache Registry Control_Stream
    Relay_Filters Abr_Controller Data_Stream Subscription_Manager Send_Streams Fetch_Answers Live_Track Forwarded_Streams Discovery
begin

text \<open>
  A verification library for MOQtail, an implementation of Media over QUIC Transport in Rust.
  MOQtail has a protocol library (\<open>libs/moqtail-rs\<close>), a library of algorithms that choose
  among the tracks of a switching set (\<open>libs/moqtail-ssts\<close>), and a relay
  (\<open>apps/relay\<close>) that takes tracks from publishers, keeps a cache of them and serves
  subscriptions and fetches from it. The paths below are relative to the sources of those three.

  \<^bold>\<open>How the parts fit together.\<close> Bytes from a peer arrive on a control stream and on
  data streams. The handlers buffer them and cut them into control messages and Objects; the codecs
  decide what is well formed. An Object that reaches the relay is dropped when it was seen before,
  kept in the cache of its track, and handed to the subscriptions of the track. Each subscription
  applies the subscriber's filters and its switching set's current decision and writes the Object
  on a send stream of the client. A FETCH is answered from the cache where the cache knows every Object of a
  group, or every gap in it, and otherwise from upstream, whose answer also teaches the cache what does not exist.

  \<^bold>\<open>Conventions.\<close> Integers of the source keep their width as words. Release builds do
  not check overflow, so plain addition wraps as the source's does, and only its checked and
  saturating forms are checked and saturating here. A fallible operation returns a sum, the error on
  the left; every error and early return of the source is a branch. A panic is modelled only where
  the source can reach one. Asynchronous code is cut at its lock scopes and awaits: each operation is a function
  on the state it locks. What the sources only call is a parameter: the moka store of the cache, the fnv hash of the
  partitioned maps, the iteration order of hash maps, the outcome of transport calls, the
  bandwidth estimate, the clock (in milliseconds). Hypotheses on parameters state their documented behaviour only.
  Every loop of the models is a total function with a termination proof; none needs fuel.

  \<^bold>\<open>Shared.\<close>
  \<^item> \<open>Prelude\<close>: words, checked arithmetic, parse errors (\<open>model/error/parse.rs\<close>), results, the
    parser combinators over a byte list, and the locale \<open>codec\<close>, the contract of a wire
    format: a value written is read back, whatever follows it, and what the reader accepts is well formed.
  \<^item> \<open>Varint\<close> (\<open>model/common/varint.rs\<close>), \<open>Locations\<close> (\<open>location.rs\<close>), \<open>Pair\<close> (\<open>pair.rs\<close>),
    \<open>Names\<close> (\<open>tuple.rs\<close>, \<open>reason_phrase.rs\<close>, \<open>redirect.rs\<close>, \<open>full_track_name.rs\<close>),
    \<open>Wire_Enums\<close> (\<open>control/constant.rs\<close>, \<open>model/error\<close>): the data common to all messages with its codecs.
  \<^item> \<open>Btree_Map\<close>: the ordered maps of the standard library as sorted association lists;
    \<open>Sharded_Map\<close>: maps cut into partitions by a hash, as a locale over the partition function.

  \<^bold>\<open>Data model.\<close>
  \<^item> \<open>Property_List\<close>, \<open>Object_Property\<close>, \<open>Track_Property\<close> (\<open>model/property\<close>): typed views of property lists.
  \<^item> \<open>Header_Types\<close>, \<open>Data_Headers\<close> (\<open>model/data/constant.rs\<close>, subgroup, fetch and padding headers),
    \<open>Data_Objects\<close> (subgroup objects and datagrams), \<open>Fetch_Object\<close> (the delta encoding of fetch
    streams), \<open>Unified_Object\<close> (\<open>object.rs\<close>), \<open>Track_Alias\<close> (\<open>track_alias.rs\<close>). Objects survive
    their round trips up to a normal form that is spelled out, a fetch stream is read back entry by entry, and
    the two maps of the alias table stay inverse.
  \<^item> \<open>Location_Filter\<close>, \<open>Range_Filter\<close>, \<open>Combined_Filter\<close>, \<open>Message_Parameter\<close>, \<open>Setup_Option\<close>
    (\<open>model/parameter\<close>): what a filter on the wire means, as a set of Locations or Objects, and that building, narrowing and
    matching agree with that meaning; parameters read back sorted and complete.
  \<^item> \<open>Control_Frames\<close>, \<open>Control_Messages\<close> (\<open>model/control\<close>): every control message with its frame.

  \<^bold>\<open>Transport.\<close>
  \<^item> \<open>Control_Stream\<close> (\<open>transport/control_stream_handler.rs\<close>), \<open>Streaming\<close> and \<open>Data_Stream\<close>
    (\<open>transport/data_stream_handler.rs\<close>). The transport is a list of timed reads. However it cuts
    the bytes, the handlers yield the same messages and Objects; what a writer puts on a
    stream the peer's reader queues in order; deadlines, resets and ends inside an Object are errors.

  \<^bold>\<open>Relay\<close> (\<open>apps/relay/src/server\<close>).
  \<^item> \<open>Seen_Objects\<close> (\<open>seen_objects.rs\<close>): the ring of bitmaps against the history of Locations.
  \<^item> \<open>Absent_Ranges\<close>, \<open>Track_Cache\<close> (\<open>track_cache.rs\<close>): the ranges against the set they stand for,
    the invariant of the cache, that its answers are complete and that it answers when it can, claims on fills.
  \<^item> \<open>Track_Store\<close>, \<open>Live_Track\<close> (\<open>track.rs\<close>): a track with its cache, subscriptions, publishers and upstream requests as an
    inductive set of reachable states. Subscribers hear every new Object, the cache stays true of the track and the Largest
    Object is the greatest that arrived, and a track whose upstream is gone keeps nothing of it.
  \<^item> \<open>Subscription_State\<close>, \<open>Forwarding\<close> (\<open>subscription.rs\<close>, \<open>client/switch_context.rs\<close>): what a subscription was
    asked for, and the task that tests a track's events against it, opens send streams, writes Objects, switches to another subscription
    and ends. What the transport does with each open and write is a record; spawned clean-up work is a list. A soft switch
    hands over at a group boundary. \<open>Stream_Table\<close> says what the other requests of a connection can do to the
    shared streams, and \<open>Forwarded_Streams\<close> composes the task with the receiver of \<open>Data_Stream\<close>: along any
    history of events and foreign work, the subscriber reads exactly the Objects its filters ask for. The history has one
    publisher's stream per subgroup, Objects that \<open>try_into_subgroup\<close> accepts, a transport that takes what is written, and switching sets off.
  \<^item> \<open>Namespaces\<close> (\<open>request_stream.rs\<close>, \<open>prefix_subscription.rs\<close>, the namespaces of \<open>track_manager.rs\<close> and their
    \<open>message_handlers\<close>): request streams, announcements and prefix subscriptions, a step for every message and end. A handler
    runs as one step, so interleavings inside one are left out. \<open>Namespace_Registry\<close> shows that along any history the registry and
    the open requests agree and that prefixes of one client do not overlap, \<open>Discovery\<close> that a subscriber has heard of what is
    announced under its prefix.
  \<^item> \<open>Fetch_Range\<close> (\<open>message_handlers/fetch_handler.rs\<close>): the range a FETCH means and what an upstream response says
    does not exist, against a direct reading of the response. \<open>Fetch_Delivery\<close> is
    \<open>serve_fetch_stream\<close>: groups from the cache, gaps from upstream, markers for what could not be had; its loop ends
    because every step leaves a group behind or uses up the one wait a group is allowed.
    \<open>Fetch_Answers\<close> composes the cache, the response reader, the filter and the fetch stream
    writer: what a FETCH is answered is true of the track.
  \<^item> \<open>Relay_Filters\<close> (\<open>filter_constructor.rs\<close>, \<open>fill.rs\<close>, \<open>utils.rs\<close>), \<open>Stream_Id\<close> (\<open>stream_id.rs\<close>).
  \<^item> \<open>Subscription_Manager\<close> (\<open>subscription_manager.rs\<close>): what each subscriber hears, against the
    history of operations; \<open>Send_Streams\<close> (the streams of \<open>client.rs\<close>): the table and the stream counts of switching sets.
  \<^item> \<open>Switching_Set\<close>, \<open>Abr_Controller\<close> (\<open>ssts\<close>): the sets of a connection and the loop that records decisions for them.

  \<^bold>\<open>Algorithms\<close> (\<open>libs/moqtail-ssts/src\<close>). \<open>SSTS\<close> is the boundary, a locale whose laws are the
  contract of a decision; \<open>Allocate\<close> and \<open>Backpressure\<close> are the two algorithms, \<open>Registry\<close> the
  interpretation of the contract for everything the relay can create.

  \<^bold>\<open>Not modelled.\<close> The tasks that wire these parts together: sessions, the request handlers of
  \<open>message_handlers\<close> beyond the delivery of FETCH and the namespace requests, and the directory of tracks in
  \<open>track_manager.rs\<close>. Connections (\<open>transport/connection.rs\<close>),
  configuration, loggers, the catalog and the command line client are input and output or
  derived code. The TypeScript library is another implementation. Log lines, error texts and \<open>Debug\<close> output are left out throughout.
\<close>

end
